(* ===== verification/Prelude.thy ===== *)
theory Prelude
  imports Main "HOL-Library.Word" "HOL-Library.Monad_Syntax"
begin

text \<open>
  The vocabulary every component shares.

  Faults.  A C expression whose evaluation leaves the language (a null or dangling pointer is
  followed, a buffer is read past its end, an assertion fails) has the value \<open>None\<close>; everything
  else is \<open>Some\<close>.  The \<open>do\<close> notation of \<open>Monad_Syntax\<close> threads the faults, so a lemma that
  a function equals \<open>Some r\<close> also says that it reaches \<open>r\<close> without a fault.

  Memory.  A buffer is a list of bytes; \<open>ld\<close> and \<open>st\<close> are the loads and stores of a
  little-endian machine (every platform the driver is built for), of the width of their word
  type, at a byte offset.

  Integers.  A w-bit C integer is a \<open>w word\<close>.  The signedness of a type is a property of the
  operations: \<open><s\<close>, \<open>sint\<close>, \<open>scast\<close> and \<open>signed_drop_bit\<close> for a signed type, \<open><\<close>,
  \<open>uint\<close>, \<open>ucast\<close> and \<open>drop_bit\<close> for an unsigned one.
\<close>

unbundle bit_operations_syntax

section \<open>Collections of rewrite rules\<close>

named_theorems fault_simps \<open>equations that step through the fault monad\<close>
named_theorems mem_simps \<open>loads, stores and byte order\<close>

declare Option.bind_eq_Some_conv [fault_simps]
declare Option.bind_eq_None_conv [fault_simps]

section \<open>Faults\<close>

definition check :: "bool \<Rightarrow> unit option" where
  "check b = (if b then Some () else None)"

lemma check_True [simp]: "check True = Some ()"
  by (simp add: check_def)

lemma check_False [simp]: "check False = None"
  by (simp add: check_def)

lemma check_eq_Some [simp, fault_simps]: "check b = Some u \<longleftrightarrow> b"
  by (simp add: check_def)

lemma check_eq_None [simp, fault_simps]: "check b = None \<longleftrightarrow> \<not> b"
  by (simp add: check_def)

text \<open>A bind whose first action succeeds continues with the value.\<close>

lemma bind_of_Some: "m = Some x \<Longrightarrow> Option.bind m f = f x"
  by simp

section \<open>Small words\<close>

lemma unat_of_nat_32:
  assumes "n < 2 ^ 32"
  shows "unat (of_nat n :: 32 word) = n"
  using assms unfolding unat_of_nat by simp

section \<open>Words as byte strings\<close>

type_synonym byte = "8 word"

fun word_of_le :: "byte list \<Rightarrow> 'a::len word" where
  "word_of_le [] = 0"
| "word_of_le (b # bs) = ucast b OR push_bit 8 (word_of_le bs)"

fun le_of_word :: "nat \<Rightarrow> 'a::len word \<Rightarrow> byte list" where
  "le_of_word 0 w = []"
| "le_of_word (Suc n) w = ucast w # le_of_word n (drop_bit 8 w)"

lemma le_of_word_0 [simp]: "le_of_word n (0 :: 'a::len word) = replicate n 0"
  by (induction n) simp_all

lemma word_of_le_0 [simp]: "word_of_le (replicate n 0) = 0"
  by (induction n) simp_all

lemma le_of_word_eval:
  "le_of_word 2 w = [ucast w, ucast (drop_bit 8 w)]"
  "le_of_word 4 w = [ucast w, ucast (drop_bit 8 w), ucast (drop_bit 16 w), ucast (drop_bit 24 w)]"
  "le_of_word 8 w = [ucast w, ucast (drop_bit 8 w), ucast (drop_bit 16 w), ucast (drop_bit 24 w),
     ucast (drop_bit 32 w), ucast (drop_bit 40 w), ucast (drop_bit 48 w), ucast (drop_bit 56 w)]"
  by (simp_all add: numeral_eq_Suc)

definition word_of_be :: "byte list \<Rightarrow> 'a::len word" where
  "word_of_be bs = word_of_le (rev bs)"

lemma bit_word_of_le:
  "bit (word_of_le bs :: 'a::len word) i \<longleftrightarrow>
     i < LENGTH('a) \<and> i div 8 < length bs \<and> bit (bs ! (i div 8)) (i mod 8)"
proof (induction bs arbitrary: i)
  case Nil
  then show ?case by simp
next
  case (Cons b bs)
  show ?case
  proof (cases "i < 8")
    case True
    then show ?thesis by (auto simp: bit_simps)
  next
    case False
    then obtain k where i: "i = 8 + k" by (metis le_add_diff_inverse not_less)
    have "\<not> bit b i" using False by (auto dest: bit_imp_le_length)
    moreover have "(8 + k) div 8 = Suc (k div 8)" by simp
    ultimately show ?thesis using Cons.IH [of k]
      by (auto simp: i bit_simps)
  qed
qed

lemma length_le_of_word [simp]: "length (le_of_word n w) = n"
  by (induction n w rule: le_of_word.induct) auto

lemma nth_le_of_word: "k < n \<Longrightarrow> le_of_word n w ! k = ucast (drop_bit (8 * k) w)"
  by (induction n w arbitrary: k rule: le_of_word.induct)
    (auto simp: nth_Cons less_Suc_eq_0_disj add.commute split: nat.split)

lemma bit_nth_le_of_word:
  "k < n \<Longrightarrow> bit (le_of_word n (w :: 'a::len word) ! k) j \<longleftrightarrow> j < 8 \<and> bit w (8 * k + j)"
  by (auto simp: nth_le_of_word bit_simps)

lemma word_of_le_of_word [mem_simps]:
  assumes "LENGTH('a) = 8 * n"
  shows "word_of_le (le_of_word n (w :: 'a::len word)) = w"
proof (rule bit_word_eqI)
  fix i assume "i < LENGTH('a)"
  then show "bit (word_of_le (le_of_word n w) :: 'a word) i = bit w i"
    using assms by (auto simp: bit_word_of_le bit_nth_le_of_word)
qed

lemma le_of_word_of_le [mem_simps]:
  assumes "LENGTH('a) = 8 * length bs"
  shows "le_of_word (length bs) (word_of_le bs :: 'a::len word) = bs"
proof (rule nth_equalityI)
  fix k assume "k < length (le_of_word (length bs) (word_of_le bs :: 'a word))"
  then have k: "k < length bs" by simp
  show "le_of_word (length bs) (word_of_le bs :: 'a word) ! k = bs ! k"
  proof (rule bit_word_eqI)
    fix j assume "j < LENGTH(8)"
    then show "bit (le_of_word (length bs) (word_of_le bs :: 'a word) ! k) j = bit (bs ! k) j"
      using k assms by (auto simp: bit_word_of_le bit_nth_le_of_word)
  qed
qed simp

section \<open>Byte order\<close>

definition bswap :: "'a::len word \<Rightarrow> 'a word" where
  "bswap w = word_of_le (rev (le_of_word (LENGTH('a) div 8) w))"

lemma bit_bswap:
  assumes "LENGTH('a) = 8 * n" "i < LENGTH('a)"
  shows "bit (bswap (w :: 'a::len word)) i \<longleftrightarrow> bit w (8 * (n - Suc (i div 8)) + i mod 8)"
  using assms by (auto simp: bswap_def bit_word_of_le rev_nth bit_nth_le_of_word)

lemma bswap_bswap:
  assumes "LENGTH('a) = 8 * n"
  shows "bswap (bswap (w :: 'a::len word)) = w"
  unfolding bswap_def
  using assms le_of_word_of_le [where ?'a = 'a, of "rev (le_of_word n w)"]
    word_of_le_of_word [OF assms, of w] by simp

lemma bswap_bswap_16 [simp]: "bswap (bswap (w :: 16 word)) = w"
  by (rule bswap_bswap [of 2]) simp

lemma bswap_bswap_32 [simp]: "bswap (bswap (w :: 32 word)) = w"
  by (rule bswap_bswap [of 4]) simp

lemma bswap_bswap_64 [simp]: "bswap (bswap (w :: 64 word)) = w"
  by (rule bswap_bswap [of 8]) simp

lemma bswap_word_of_le:
  assumes "LENGTH('a) = 8 * length bs"
  shows "bswap (word_of_le bs :: 'a::len word) = word_of_be bs"
  using assms le_of_word_of_le [OF assms] by (simp add: bswap_def word_of_be_def)

lemma bswap_eq_iff_32 [simp]: "bswap (a :: 32 word) = bswap b \<longleftrightarrow> a = b"
  by (metis bswap_bswap_32)

section \<open>Loads and stores\<close>

definition ld :: "byte list \<Rightarrow> nat \<Rightarrow> 'a::len word option" where
  "ld buf off = (if off + LENGTH('a) div 8 \<le> length buf
     then Some (word_of_le (take (LENGTH('a) div 8) (drop off buf))) else None)"

definition st :: "byte list \<Rightarrow> nat \<Rightarrow> 'a::len word \<Rightarrow> byte list option" where
  "st buf off w = (if off + LENGTH('a) div 8 \<le> length buf
     then Some (take off buf @ le_of_word (LENGTH('a) div 8) w @ drop (off + LENGTH('a) div 8) buf)
     else None)"

lemma ld_defined [mem_simps]:
  "off + LENGTH('a) div 8 \<le> length buf \<Longrightarrow>
     ld buf off = Some (word_of_le (take (LENGTH('a) div 8) (drop off buf)) :: 'a::len word)"
  by (simp add: ld_def)

lemma ld_Some_bound: "ld buf off = Some (w :: 'a::len word) \<Longrightarrow> off + LENGTH('a) div 8 \<le> length buf"
  by (simp add: ld_def split: if_splits)

lemma ex_ld: "off + LENGTH('a) div 8 \<le> length buf \<Longrightarrow> \<exists>w. ld buf off = Some (w :: 'a::len word)"
  by (simp add: ld_def)

lemma st_defined:
  "off + LENGTH('a) div 8 \<le> length buf \<Longrightarrow>
     \<exists>buf'. st buf off (w :: 'a::len word) = Some buf' \<and> length buf' = length buf"
  by (simp add: st_def)

lemma length_st [mem_simps]: "st buf off w = Some buf' \<Longrightarrow> length buf' = length buf"
  by (auto simp: st_def split: if_splits)

lemma ld_st_same [mem_simps]:
  assumes "st buf off w = Some buf'" "LENGTH('a) = 8 * n"
  shows "ld buf' off = Some (w :: 'a::len word)"
  using assms word_of_le_of_word [OF assms(2), of w]
  by (auto simp: st_def ld_def split: if_splits)

lemma ld_st_other [mem_simps]:
  assumes "st buf off (w :: 'b::len word) = Some buf'"
    and "off' + LENGTH('a) div 8 \<le> off \<or> off + LENGTH('b) div 8 \<le> off'"
  shows "ld buf' off' = (ld buf off' :: 'a::len word option)"
proof -
  have b: "off + LENGTH('b) div 8 \<le> length buf"
    and buf': "buf' = take off buf @ le_of_word (LENGTH('b) div 8) w @ drop (off + LENGTH('b) div 8) buf"
    using assms(1) by (auto simp: st_def split: if_splits)
  have "take (LENGTH('a) div 8) (drop off' buf') = take (LENGTH('a) div 8) (drop off' buf)"
    using assms(2) b unfolding buf' by (auto simp: min_def take_drop)
  moreover have "length buf' = length buf" using b buf' by simp
  ultimately show ?thesis by (simp add: ld_def)
qed

text \<open>Writing a field and then writing its old value back leaves the buffer as it was.\<close>

lemma st_restore [mem_simps]:
  assumes "ld buf off = Some (v :: 'a::len word)" "st buf off (x :: 'a word) = Some buf'"
    and "LENGTH('a) = 8 * n"
  shows "st buf' off v = Some buf"
proof -
  let ?n = "LENGTH('a) div 8"
  have b: "off + ?n \<le> length buf" using assms(1) by (rule ld_Some_bound)
  have v: "v = word_of_le (take ?n (drop off buf))" using assms(1) by (simp add: ld_def split: if_splits)
  have len: "length (take ?n (drop off buf)) = ?n" using b by simp
  have "le_of_word ?n v = take ?n (drop off buf)"
    using le_of_word_of_le [where ?'a = 'a, of "take ?n (drop off buf)"] len assms(3) v by simp
  then have "take off buf @ le_of_word ?n v @ drop (off + ?n) buf
      = take (off + ?n) buf @ drop (off + ?n) buf"
    by (simp add: take_add)
  then have "take off buf @ le_of_word ?n v @ drop (off + ?n) buf = buf"
    by (simp only: append_take_drop_id)
  then show ?thesis using assms(2) b by (auto simp: st_def split: if_splits)
qed

section \<open>Updating one entry of a heap\<close>

text \<open>
  A heap maps addresses to objects.  Reading through a null pointer or an address that is not
  allocated is a fault; so is writing there.
\<close>

type_synonym ptr = nat

definition deref :: "(ptr \<rightharpoonup> 'a) \<Rightarrow> ptr option \<Rightarrow> 'a option" where
  "deref m p = Option.bind p m"

definition modify :: "(ptr \<rightharpoonup> 'a) \<Rightarrow> ptr option \<Rightarrow> ('a \<Rightarrow> 'a) \<Rightarrow> (ptr \<rightharpoonup> 'a) option" where
  "modify m p f = do { a \<leftarrow> p; x \<leftarrow> m a; Some (m(a \<mapsto> f x)) }"

lemma deref_Some [simp]: "deref m (Some a) = m a"
  by (simp add: deref_def)

lemma deref_None [simp]: "deref m None = None"
  by (simp add: deref_def)

lemma modify_None [simp]: "modify m None f = None"
  by (simp add: modify_def)

lemma modify_at [simp]: "m a = Some x \<Longrightarrow> modify m (Some a) f = Some (m(a \<mapsto> f x))"
  by (simp add: modify_def)

lemma modify_eq_Some [fault_simps]:
  "modify m p f = Some m' \<longleftrightarrow> (\<exists>a x. p = Some a \<and> m a = Some x \<and> m' = m(a \<mapsto> f x))"
  by (auto simp: modify_def fault_simps)

end
