(* ===== verification/Drv_Types.thy ===== *)
theory Drv_Types
  imports Prelude
begin

text \<open>
  \<open>include/drv_common/drv_types.h\<close>, \<open>include/drv_common/drv_endian.h\<close> and
  \<open>include/helper.h\<close>: the driver's integer types, its byte-order conversions and the
  conversions between block numbers and byte offsets.

  The integer types carry a surprise that the whole model keeps.  \<open>drv_types.h\<close> defines
  \<open>__u8\<close> as an unsigned byte, but \<open>__u16\<close>, \<open>__u32\<close> and \<open>__u64\<close> as
  \<^emph>\<open>signed\<close> integers and \<open>__s16\<close>, \<open>__s32\<close>, \<open>__s64\<close> as
  \<^emph>\<open>unsigned\<close> ones.  So a comparison of two \<open>__u32\<close> is \<open><s\<close>, their right
  shift is arithmetic, and widening a \<open>__u32\<close> to 64 bits extends its sign; the type synonyms
  below record the width, and every use below picks the operation the C type asks for.

  \<open>RtlUshortByteSwap\<close> and its kin reverse the bytes of their argument (\<open>bswap\<close>).
\<close>

section \<open>Integer types\<close>

text \<open>Unsigned byte; signed 16, 32 and 64 bits; unsigned 16, 32 and 64 bits.\<close>

type_synonym u8 = "8 word"
type_synonym u16 = "16 word"
type_synonym u32 = "32 word"
type_synonym u64 = "64 word"
type_synonym s32 = "32 word"
type_synonym s64 = "64 word"

definition UUID_SIZE :: nat where
  "UUID_SIZE = 16"

text \<open>The comparisons and the widening that the typedefs select.\<close>

definition u32_lt :: "u32 \<Rightarrow> u32 \<Rightarrow> bool" where
  "u32_lt a b \<longleftrightarrow> a <s b"

definition u32_le :: "u32 \<Rightarrow> u32 \<Rightarrow> bool" where
  "u32_le a b \<longleftrightarrow> a \<le>s b"

definition u64_lt :: "u64 \<Rightarrow> u64 \<Rightarrow> bool" where
  "u64_lt a b \<longleftrightarrow> a <s b"

definition s32_lt :: "s32 \<Rightarrow> s32 \<Rightarrow> bool" where
  "s32_lt a b \<longleftrightarrow> a < b"

definition u64_of_u32 :: "u32 \<Rightarrow> u64" where
  "u64_of_u32 a = scast a"

definition u32_of_u16 :: "u16 \<Rightarrow> u32" where
  "u32_of_u16 a = scast a"

lemmas c_type_defs = u32_lt_def u32_le_def u64_lt_def s32_lt_def u64_of_u32_def u32_of_u16_def

lemma u32_lt_sint [simp]: "u32_lt a b \<longleftrightarrow> sint a < sint b"
  by (simp add: u32_lt_def word_sless_alt)

lemma u32_le_sint [simp]: "u32_le a b \<longleftrightarrow> sint a \<le> sint b"
  by (simp add: u32_le_def word_sle_eq)

lemma u64_lt_sint [simp]: "u64_lt a b \<longleftrightarrow> sint a < sint b"
  by (simp add: u64_lt_def word_sless_alt)

lemma s32_lt_uint [simp]: "s32_lt a b \<longleftrightarrow> uint a < uint b"
  by (simp add: s32_lt_def word_less_def)

lemma sint_u64_of_u32 [simp]: "sint (u64_of_u32 a) = sint a"
  unfolding u64_of_u32_def by (rule sint_up_scast) (simp add: is_up)

text \<open>A value below half the range reads the same through either signedness.\<close>

lemma sint_eq_uint_small: "uint (a :: 'a::len word) < 2 ^ (LENGTH('a) - 1) \<Longrightarrow> sint a = uint a"
  by (simp add: sint_uint signed_take_bit_int_eq_self order_trans [OF _ uint_ge_0])

lemma sint_nonneg_unat: "0 \<le> sint (w :: 'a::len word) \<Longrightarrow> int (unat w) = sint w"
proof -
  assume a: "0 \<le> sint w"
  have "sint w < 2 ^ (LENGTH('a) - 1)" by (rule sint_lt)
  also have "(2::int) ^ (LENGTH('a) - 1) \<le> 2 ^ LENGTH('a)" by simp
  finally have "sint w mod 2 ^ LENGTH('a) = sint w" using a by simp
  moreover have "uint w = sint w mod 2 ^ LENGTH('a)" 
    using uint_word_of_int [of "sint w", where 'a = 'a] by simp
  ultimately show ?thesis by simp
qed
section \<open>Byte order conversions\<close>

definition cpu_to_le16 :: "u16 \<Rightarrow> u16" where "cpu_to_le16 x = x"
definition cpu_to_le32 :: "u32 \<Rightarrow> u32" where "cpu_to_le32 x = x"
definition cpu_to_le64 :: "u64 \<Rightarrow> u64" where "cpu_to_le64 x = x"
definition cpu_to_be16 :: "u16 \<Rightarrow> u16" where "cpu_to_be16 x = bswap x"
definition cpu_to_be32 :: "u32 \<Rightarrow> u32" where "cpu_to_be32 x = bswap x"
definition cpu_to_be64 :: "u64 \<Rightarrow> u64" where "cpu_to_be64 x = bswap x"
definition le16_to_cpu :: "u16 \<Rightarrow> u16" where "le16_to_cpu x = x"
definition le32_to_cpu :: "u32 \<Rightarrow> u32" where "le32_to_cpu x = x"
definition le64_to_cpu :: "u64 \<Rightarrow> u64" where "le64_to_cpu x = x"
definition be16_to_cpu :: "u16 \<Rightarrow> u16" where "be16_to_cpu x = bswap x"
definition be32_to_cpu :: "u32 \<Rightarrow> u32" where "be32_to_cpu x = bswap x"
definition be64_to_cpu :: "u64 \<Rightarrow> u64" where "be64_to_cpu x = bswap x"

lemmas endian_defs =
  cpu_to_le16_def cpu_to_le32_def cpu_to_le64_def cpu_to_be16_def cpu_to_be32_def cpu_to_be64_def
  le16_to_cpu_def le32_to_cpu_def le64_to_cpu_def be16_to_cpu_def be32_to_cpu_def be64_to_cpu_def

definition le16_add_cpu :: "u16 \<Rightarrow> u16 \<Rightarrow> u16" where
  "le16_add_cpu var val = cpu_to_le16 (le16_to_cpu var + val)"
definition le32_add_cpu :: "u32 \<Rightarrow> u32 \<Rightarrow> u32" where
  "le32_add_cpu var val = cpu_to_le32 (le32_to_cpu var + val)"
definition le64_add_cpu :: "u64 \<Rightarrow> u64 \<Rightarrow> u64" where
  "le64_add_cpu var val = cpu_to_le64 (le64_to_cpu var + val)"
definition be16_add_cpu :: "u16 \<Rightarrow> u16 \<Rightarrow> u16" where
  "be16_add_cpu var val = cpu_to_be16 (be16_to_cpu var + val)"
definition be32_add_cpu :: "u32 \<Rightarrow> u32 \<Rightarrow> u32" where
  "be32_add_cpu var val = cpu_to_be32 (be32_to_cpu var + val)"
definition be64_add_cpu :: "u64 \<Rightarrow> u64 \<Rightarrow> u64" where
  "be64_add_cpu var val = cpu_to_be64 (be64_to_cpu var + val)"

lemma be_cpu_roundtrips [simp]:
  "be16_to_cpu (cpu_to_be16 a) = a" "cpu_to_be16 (be16_to_cpu a) = a"
  "be32_to_cpu (cpu_to_be32 b) = b" "cpu_to_be32 (be32_to_cpu b) = b"
  "be64_to_cpu (cpu_to_be64 c) = c" "cpu_to_be64 (be64_to_cpu c) = c"
  by (simp_all add: endian_defs)

lemma be32_to_cpu_inject [simp]: "be32_to_cpu a = be32_to_cpu b \<longleftrightarrow> a = b"
  by (simp add: endian_defs)

lemma eq_cpu_to_be32_iff: "a = cpu_to_be32 b \<longleftrightarrow> be32_to_cpu a = b"
  by (metis be_cpu_roundtrips(3,4))

text \<open>
  A big-endian field of a buffer: the machine loads the bytes little-endian and the conversion
  swaps them, which together reads them most significant byte first.
\<close>

lemma be_field:
  "off + 2 \<le> length buf \<Longrightarrow> map_option be16_to_cpu (ld buf off) = Some (word_of_be (take 2 (drop off buf)))"
  "off + 4 \<le> length buf \<Longrightarrow> map_option be32_to_cpu (ld buf off) = Some (word_of_be (take 4 (drop off buf)))"
  "off + 8 \<le> length buf \<Longrightarrow> map_option be64_to_cpu (ld buf off) = Some (word_of_be (take 8 (drop off buf)))"
  by (simp_all add: ld_def endian_defs bswap_word_of_le)

section \<open>Block numbers and byte offsets\<close>

text \<open>
  \<open>__s64\<close> is unsigned, so the arithmetic is modulo \<open>2 ^ 64\<close> and the \<open>unsigned int\<close>
  operand is zero-extended.  \<open>LARGE_INTEGER.QuadPart\<close> is a signed 64-bit integer; \<open>bcb_blocknr\<close>
  multiplies it with itself.  Division by zero is a fault.
\<close>

definition bcb_blocknr :: "u64 \<Rightarrow> u64" where
  "bcb_blocknr mapped_file_offset = mapped_file_offset * mapped_file_offset"

definition offset_to_blocknr :: "s64 \<Rightarrow> 32 word \<Rightarrow> s64 option" where
  "offset_to_blocknr offset block_size =
     (if block_size = 0 then None else Some (offset div ucast block_size))"

definition blocknr_to_offset :: "s64 \<Rightarrow> 32 word \<Rightarrow> s64" where
  "blocknr_to_offset block block_size = block * ucast block_size"

lemma uint_blocknr_to_offset:
  "uint block * uint block_size < 2 ^ 64 \<Longrightarrow>
     uint (blocknr_to_offset block block_size) = uint block * uint block_size"
  by (simp add: blocknr_to_offset_def uint_word_ariths uint_up_ucast is_up)

text \<open>A block number survives the trip through its offset as long as the offset fits 64 bits.\<close>

lemma offset_blocknr_roundtrip:
  assumes "block_size \<noteq> 0" "uint block * uint block_size < 2 ^ 64"
  shows "offset_to_blocknr (blocknr_to_offset block block_size) block_size = Some block"
proof -
  have "uint (blocknr_to_offset block block_size div ucast block_size) = uint block"
    using assms by (simp add: uint_div uint_blocknr_to_offset uint_up_ucast is_up uint_0_iff)
  then have "blocknr_to_offset block block_size div ucast block_size = block"
    by (simp add: word_uint_eq_iff)
  with assms show ?thesis by (simp add: offset_to_blocknr_def)
qed

end
