(* ===== verification/Jbd2_Fs.thy ===== *)
theory Jbd2_Fs
  imports Drv_Types
begin

text \<open>
  \<open>include/jbd2/jbd2_fs.h\<close>: the on-disk format of the journal.

  A structure that lies in a buffer is read field by field at its offset in the packed layout of
  the header file.  The fields keep the bytes as they are on disk; the code converts them with
  \<open>be32_to_cpu\<close> where it uses them, and so do the definitions here.  Only the superblock and
  the block header, which the code copies or inspects as a whole, become records.
\<close>

section \<open>Constants\<close>

definition JBD2_MAGIC_NUMBER :: "32 word" where "JBD2_MAGIC_NUMBER = 0xc03b3998"

definition JBD2_DESCRIPTOR_BLOCK :: u32 where "JBD2_DESCRIPTOR_BLOCK = 1"
definition JBD2_COMMIT_BLOCK :: u32 where "JBD2_COMMIT_BLOCK = 2"
definition JBD2_SUPERBLOCK_V1 :: u32 where "JBD2_SUPERBLOCK_V1 = 3"
definition JBD2_SUPERBLOCK_V2 :: u32 where "JBD2_SUPERBLOCK_V2 = 4"
definition JBD2_REVOKE_BLOCK :: u32 where "JBD2_REVOKE_BLOCK = 5"

lemmas jbd2_blocktype_defs = JBD2_DESCRIPTOR_BLOCK_def JBD2_COMMIT_BLOCK_def JBD2_SUPERBLOCK_V1_def
  JBD2_SUPERBLOCK_V2_def JBD2_REVOKE_BLOCK_def

definition JBD2_FLAG_ESCAPE :: "32 word" where "JBD2_FLAG_ESCAPE = 1"
definition JBD2_FLAG_SAME_UUID :: "32 word" where "JBD2_FLAG_SAME_UUID = 2"
definition JBD2_FLAG_DELETED :: "32 word" where "JBD2_FLAG_DELETED = 4"
definition JBD2_FLAG_LAST_TAG :: "32 word" where "JBD2_FLAG_LAST_TAG = 8"

lemmas jbd2_flag_defs = JBD2_FLAG_ESCAPE_def JBD2_FLAG_SAME_UUID_def JBD2_FLAG_DELETED_def
  JBD2_FLAG_LAST_TAG_def

definition JBD2_FEATURE_COMPAT_CHECKSUM :: u32 where "JBD2_FEATURE_COMPAT_CHECKSUM = 1"
definition JBD2_FEATURE_INCOMPAT_REVOKE :: u32 where "JBD2_FEATURE_INCOMPAT_REVOKE = 1"
definition JBD2_FEATURE_INCOMPAT_64BIT :: u32 where "JBD2_FEATURE_INCOMPAT_64BIT = 2"
definition JBD2_FEATURE_INCOMPAT_ASYNC_COMMIT :: u32 where "JBD2_FEATURE_INCOMPAT_ASYNC_COMMIT = 4"
definition JBD2_FEATURE_INCOMPAT_CSUM_V2 :: u32 where "JBD2_FEATURE_INCOMPAT_CSUM_V2 = 8"
definition JBD2_FEATURE_INCOMPAT_CSUM_V3 :: u32 where "JBD2_FEATURE_INCOMPAT_CSUM_V3 = 16"

lemmas jbd2_feature_defs = JBD2_FEATURE_COMPAT_CHECKSUM_def JBD2_FEATURE_INCOMPAT_REVOKE_def
  JBD2_FEATURE_INCOMPAT_64BIT_def JBD2_FEATURE_INCOMPAT_ASYNC_COMMIT_def
  JBD2_FEATURE_INCOMPAT_CSUM_V2_def JBD2_FEATURE_INCOMPAT_CSUM_V3_def

definition JBD2_KNOWN_COMPAT_FEATURES :: u32 where
  "JBD2_KNOWN_COMPAT_FEATURES = JBD2_FEATURE_COMPAT_CHECKSUM"

definition JBD2_KNOWN_ROCOMPAT_FEATURES :: u32 where
  "JBD2_KNOWN_ROCOMPAT_FEATURES = 0"

definition JBD2_KNOWN_INCOMPAT_FEATURES :: u32 where
  "JBD2_KNOWN_INCOMPAT_FEATURES = JBD2_FEATURE_INCOMPAT_REVOKE OR JBD2_FEATURE_INCOMPAT_64BIT OR
     JBD2_FEATURE_INCOMPAT_ASYNC_COMMIT OR JBD2_FEATURE_INCOMPAT_CSUM_V2 OR
     JBD2_FEATURE_INCOMPAT_CSUM_V3"

section \<open>Block header\<close>

record journal_header =
  h_magic :: u32
  h_blocktype :: u32
  h_sequence :: u32

definition sizeof_journal_header :: nat where "sizeof_journal_header = 12"

definition load_journal_header :: "byte list \<Rightarrow> journal_header option" where
  "load_journal_header buf = do {
     m \<leftarrow> ld buf 0;
     t \<leftarrow> ld buf 4;
     s \<leftarrow> ld buf 8;
     Some \<lparr>h_magic = m, h_blocktype = t, h_sequence = s\<rparr> }"

lemma load_journal_header_defined:
  "12 \<le> length buf \<Longrightarrow> load_journal_header buf =
     Some \<lparr>h_magic = word_of_le (take 4 buf), h_blocktype = word_of_le (take 4 (drop 4 buf)),
           h_sequence = word_of_le (take 4 (drop 8 buf))\<rparr>"
  by (simp add: load_journal_header_def ld_def)

section \<open>Block tags, tails and the revoke header\<close>

text \<open>
  The fields of a \<open>journal_block_tag3_t\<close>, a \<open>journal_block_tag_t\<close> and a
  \<open>journal_block_tail_t\<close> at offset \<open>tagp\<close> of a buffer; \<open>h_chksum[0]\<close> of a
  \<open>journal_commit_header_t\<close> and \<open>r_count\<close> of a \<open>journal_revoke_header_t\<close> at the start of
  one.
\<close>

definition sizeof_journal_block_tag3 :: nat where "sizeof_journal_block_tag3 = 16"
definition sizeof_journal_block_tag :: nat where "sizeof_journal_block_tag = 12"
definition sizeof_journal_block_tail :: nat where "sizeof_journal_block_tail = 4"

lemmas jbd2_sizeof_defs = sizeof_journal_header_def sizeof_journal_block_tag3_def
  sizeof_journal_block_tag_def sizeof_journal_block_tail_def

definition tag3_t_blocknr :: "byte list \<Rightarrow> nat \<Rightarrow> u32 option" where "tag3_t_blocknr buf tagp = ld buf tagp"
definition tag3_t_flags :: "byte list \<Rightarrow> nat \<Rightarrow> u32 option" where "tag3_t_flags buf tagp = ld buf (tagp + 4)"
definition tag3_t_blocknr_high :: "byte list \<Rightarrow> nat \<Rightarrow> u32 option" where "tag3_t_blocknr_high buf tagp = ld buf (tagp + 8)"
definition tag3_t_checksum :: "byte list \<Rightarrow> nat \<Rightarrow> u32 option" where "tag3_t_checksum buf tagp = ld buf (tagp + 12)"
definition tag_t_blocknr :: "byte list \<Rightarrow> nat \<Rightarrow> u32 option" where "tag_t_blocknr buf tagp = ld buf tagp"
definition tag_t_checksum :: "byte list \<Rightarrow> nat \<Rightarrow> u16 option" where "tag_t_checksum buf tagp = ld buf (tagp + 4)"
definition tag_t_flags :: "byte list \<Rightarrow> nat \<Rightarrow> u16 option" where "tag_t_flags buf tagp = ld buf (tagp + 6)"
definition tag_t_blocknr_high :: "byte list \<Rightarrow> nat \<Rightarrow> u32 option" where "tag_t_blocknr_high buf tagp = ld buf (tagp + 8)"

definition commit_h_chksum_0_offset :: nat where "commit_h_chksum_0_offset = 16"

definition revoke_r_count :: "byte list \<Rightarrow> u32 option" where "revoke_r_count buf = ld buf 12"

lemmas jbd2_tag_field_defs = tag3_t_blocknr_def tag3_t_flags_def tag3_t_blocknr_high_def
  tag3_t_checksum_def tag_t_blocknr_def tag_t_checksum_def tag_t_flags_def tag_t_blocknr_high_def

section \<open>The superblock\<close>

record journal_superblock =
  s_header :: journal_header
  s_blocksize :: u32
  s_maxlen :: u32
  s_first :: u32
  s_sequence :: u32
  s_start :: u32
  s_errno :: u32
  s_feature_compat :: u32
  s_feature_incompat :: u32
  s_feature_ro_compat :: u32
  s_uuid :: "u8 list"
  s_nr_users :: u32
  s_dynsuper :: u32
  s_max_transaction :: u32
  s_max_trans_data :: u32
  s_checksum_type :: u8
  s_padding2 :: "u8 list"
  s_padding :: "u8 list"
  s_checksum :: u32
  s_users :: "u8 list"

definition sizeof_journal_superblock :: nat where "sizeof_journal_superblock = 1024"

text \<open>A \<open>RtlCopyMemory\<close> of the structure, or an access through a pointer to it.\<close>

definition ld_bytes :: "byte list \<Rightarrow> nat \<Rightarrow> nat \<Rightarrow> byte list option" where
  "ld_bytes buf off n = (if off + n \<le> length buf then Some (take n (drop off buf)) else None)"

definition load_journal_superblock :: "byte list \<Rightarrow> journal_superblock option" where
  "load_journal_superblock buf = do {
     hd \<leftarrow> load_journal_header buf;
     bs \<leftarrow> ld buf 0x0C; ml \<leftarrow> ld buf 0x10; fi \<leftarrow> ld buf 0x14;
     sq \<leftarrow> ld buf 0x18; sta \<leftarrow> ld buf 0x1C; er \<leftarrow> ld buf 0x20;
     fc \<leftarrow> ld buf 0x24; fic \<leftarrow> ld buf 0x28; fro \<leftarrow> ld buf 0x2C;
     uu \<leftarrow> ld_bytes buf 0x30 UUID_SIZE;
     nu \<leftarrow> ld buf 0x40; dy \<leftarrow> ld buf 0x44; mt \<leftarrow> ld buf 0x48; md \<leftarrow> ld buf 0x4C;
     ct \<leftarrow> ld buf 0x50; p2 \<leftarrow> ld_bytes buf 0x51 3; pd \<leftarrow> ld_bytes buf 0x54 168;
     cs \<leftarrow> ld buf 0xFC;
     us \<leftarrow> ld_bytes buf 0x100 (UUID_SIZE * 48);
     Some \<lparr>s_header = hd, s_blocksize = bs, s_maxlen = ml, s_first = fi, s_sequence = sq,
       s_start = sta, s_errno = er, s_feature_compat = fc, s_feature_incompat = fic,
       s_feature_ro_compat = fro, s_uuid = uu, s_nr_users = nu, s_dynsuper = dy,
       s_max_transaction = mt, s_max_trans_data = md, s_checksum_type = ct, s_padding2 = p2,
       s_padding = pd, s_checksum = cs, s_users = us\<rparr> }"

lemma load_journal_superblock_defined:
  "sizeof_journal_superblock \<le> length buf \<Longrightarrow> \<exists>sb. load_journal_superblock buf = Some sb"
  by (simp add: load_journal_superblock_def load_journal_header_def ld_def ld_bytes_def
      sizeof_journal_superblock_def UUID_SIZE_def)

section \<open>Features\<close>

text \<open>
  The bodies of the macros \<open>JBD2_FEATURE_COMPAT_FUNCS\<close> and \<open>JBD2_FEATURE_INCOMPAT_FUNCS\<close>; the
  comparison with 2 is one of signed integers.
\<close>

definition jbd2_has_compat :: "u32 \<Rightarrow> journal_superblock \<Rightarrow> bool" where
  "jbd2_has_compat flag sb \<longleftrightarrow> u32_le 2 (be32_to_cpu (h_blocktype (s_header sb))) \<and>
     s_feature_compat sb AND cpu_to_be32 flag \<noteq> 0"

definition jbd2_set_compat :: "u32 \<Rightarrow> journal_superblock \<Rightarrow> journal_superblock" where
  "jbd2_set_compat flag sb = sb\<lparr>s_feature_compat := s_feature_compat sb OR cpu_to_be32 flag\<rparr>"

definition jbd2_clear_compat :: "u32 \<Rightarrow> journal_superblock \<Rightarrow> journal_superblock" where
  "jbd2_clear_compat flag sb = sb\<lparr>s_feature_compat := s_feature_compat sb AND NOT (cpu_to_be32 flag)\<rparr>"

text \<open>The read-only-compatible features, whose macro is never instantiated.\<close>

definition jbd2_has_ro_compat :: "u32 \<Rightarrow> journal_superblock \<Rightarrow> bool" where
  "jbd2_has_ro_compat flag sb \<longleftrightarrow> u32_le 2 (be32_to_cpu (h_blocktype (s_header sb))) \<and>
     s_feature_ro_compat sb AND cpu_to_be32 flag \<noteq> 0"

definition jbd2_set_ro_compat :: "u32 \<Rightarrow> journal_superblock \<Rightarrow> journal_superblock" where
  "jbd2_set_ro_compat flag sb = sb\<lparr>s_feature_ro_compat := s_feature_ro_compat sb OR cpu_to_be32 flag\<rparr>"

definition jbd2_clear_ro_compat :: "u32 \<Rightarrow> journal_superblock \<Rightarrow> journal_superblock" where
  "jbd2_clear_ro_compat flag sb = sb\<lparr>s_feature_ro_compat := s_feature_ro_compat sb AND NOT (cpu_to_be32 flag)\<rparr>"

definition jbd2_has_incompat :: "u32 \<Rightarrow> journal_superblock \<Rightarrow> bool" where
  "jbd2_has_incompat flag sb \<longleftrightarrow> u32_le 2 (be32_to_cpu (h_blocktype (s_header sb))) \<and>
     s_feature_incompat sb AND cpu_to_be32 flag \<noteq> 0"

definition jbd2_set_incompat :: "u32 \<Rightarrow> journal_superblock \<Rightarrow> journal_superblock" where
  "jbd2_set_incompat flag sb = sb\<lparr>s_feature_incompat := s_feature_incompat sb OR cpu_to_be32 flag\<rparr>"

definition jbd2_clear_incompat :: "u32 \<Rightarrow> journal_superblock \<Rightarrow> journal_superblock" where
  "jbd2_clear_incompat flag sb = sb\<lparr>s_feature_incompat := s_feature_incompat sb AND NOT (cpu_to_be32 flag)\<rparr>"

definition jbd2_has_feature_checksum :: "journal_superblock \<Rightarrow> bool" where
  "jbd2_has_feature_checksum = jbd2_has_compat JBD2_FEATURE_COMPAT_CHECKSUM"
definition jbd2_has_feature_revoke :: "journal_superblock \<Rightarrow> bool" where
  "jbd2_has_feature_revoke = jbd2_has_incompat JBD2_FEATURE_INCOMPAT_REVOKE"
definition jbd2_has_feature_64bit :: "journal_superblock \<Rightarrow> bool" where
  "jbd2_has_feature_64bit = jbd2_has_incompat JBD2_FEATURE_INCOMPAT_64BIT"
definition jbd2_has_feature_async_commit :: "journal_superblock \<Rightarrow> bool" where
  "jbd2_has_feature_async_commit = jbd2_has_incompat JBD2_FEATURE_INCOMPAT_ASYNC_COMMIT"
definition jbd2_has_feature_csum2 :: "journal_superblock \<Rightarrow> bool" where
  "jbd2_has_feature_csum2 = jbd2_has_incompat JBD2_FEATURE_INCOMPAT_CSUM_V2"
definition jbd2_has_feature_csum3 :: "journal_superblock \<Rightarrow> bool" where
  "jbd2_has_feature_csum3 = jbd2_has_incompat JBD2_FEATURE_INCOMPAT_CSUM_V3"

lemmas jbd2_has_feature_defs = jbd2_has_feature_checksum_def jbd2_has_feature_revoke_def
  jbd2_has_feature_64bit_def jbd2_has_feature_async_commit_def jbd2_has_feature_csum2_def
  jbd2_has_feature_csum3_def

text \<open>Byte swapping is a permutation of the bits, so it commutes with the bitwise operations.\<close>

lemma bswap_and: "bswap (a AND b) = bswap a AND bswap (b :: 32 word)"
  by (rule bit_word_eqI) (simp add: bit_bswap [where n = 4] bit_simps)

lemma bswap_eq_0_iff [simp]: "bswap (a :: 32 word) = 0 \<longleftrightarrow> a = 0"
proof -
  have "bswap (0 :: 32 word) = 0"
    by (rule bit_word_eqI) (simp add: bit_bswap [where n = 4])
  then show ?thesis by (metis bswap_bswap_32)
qed

lemma and_cpu_to_be32: "a AND cpu_to_be32 b = cpu_to_be32 (be32_to_cpu a AND b)"
  by (simp add: endian_defs bswap_and)

lemma be32_flag_test: "a AND cpu_to_be32 b \<noteq> 0 \<longleftrightarrow> be32_to_cpu a AND b \<noteq> 0"
  by (simp add: and_cpu_to_be32) (simp add: endian_defs)

text \<open>Testing a feature reads one bit of the field in the machine's byte order.\<close>

lemma jbd2_has_incompat_bit:
  "jbd2_has_incompat flag sb \<longleftrightarrow> u32_le 2 (be32_to_cpu (h_blocktype (s_header sb))) \<and>
     be32_to_cpu (s_feature_incompat sb) AND flag \<noteq> 0"
  by (simp only: jbd2_has_incompat_def be32_flag_test)

lemma and_or_split: "(a OR b) AND c = (a AND c) OR (b AND (c :: 'a::len word))"
  by (rule bit_word_eqI) (auto simp: bit_simps)

lemma or_eq_0_iff_word: "(a OR b) = 0 \<longleftrightarrow> a = 0 \<and> b = (0 :: 'a::len word)"
  by (auto simp: or_eq_0_iff)

lemma jbd2_has_set_incompat:
  "jbd2_has_incompat f (jbd2_set_incompat g sb) \<longleftrightarrow>
     jbd2_has_incompat f sb \<or> u32_le 2 (be32_to_cpu (h_blocktype (s_header sb))) \<and> f AND g \<noteq> 0"
proof -
  have "cpu_to_be32 g AND cpu_to_be32 f = 0 \<longleftrightarrow> f AND g = 0"
    by (simp add: endian_defs and.commute flip: bswap_and)
  then show ?thesis
    by (auto simp: jbd2_has_incompat_def jbd2_set_incompat_def and_or_split or_eq_0_iff_word)
qed

lemma jbd2_has_clear_incompat_same: "\<not> jbd2_has_incompat f (jbd2_clear_incompat f sb)"
proof -
  have "(a AND NOT b) AND b = 0" for a b :: "32 word"
    by (rule bit_word_eqI) (simp add: bit_simps)
  then show ?thesis by (simp add: jbd2_has_incompat_def jbd2_clear_incompat_def)
qed

lemma jbd2_has_clear_incompat_other:
  assumes "f AND g = 0"
  shows "jbd2_has_incompat f (jbd2_clear_incompat g sb) \<longleftrightarrow> jbd2_has_incompat f sb"
proof -
  have "cpu_to_be32 f AND cpu_to_be32 g = 0" using assms by (simp add: endian_defs flip: bswap_and)
  then have "(a AND NOT (cpu_to_be32 g)) AND cpu_to_be32 f = a AND cpu_to_be32 f" for a
    by (auto simp: bit_eq_iff bit_simps)
  then show ?thesis by (simp add: jbd2_has_incompat_def jbd2_clear_incompat_def)
qed

end
