(* ===== verification/Nt_Status.thy ===== *)
theory Nt_Status
  imports Prelude
begin

text \<open>
  Status codes of the NT kernel.

  The codes that the driver makes itself are the constructors of \<open>NTSTATUS\<close>; of these only
  \<open>STATUS_SUCCESS\<close> is zero and only it is a success.  A code that the kernel returns and the driver
  passes on is a 32-bit word, and a success if it is not negative (\<open>nt_success_code\<close>).  A
  \<open>BOOLEAN\<close> that the kernel returns is a byte.
\<close>

datatype NTSTATUS = STATUS_SUCCESS | STATUS_UNSUCCESSFUL | STATUS_UNEXPECTED_IO_ERROR
  | STATUS_DISK_CORRUPT_ERROR | STATUS_UNRECOGNIZED_VOLUME | STATUS_INSUFFICIENT_RESOURCES
  | STATUS_CANT_WAIT

definition NT_SUCCESS :: "NTSTATUS \<Rightarrow> bool" where
  "NT_SUCCESS status \<longleftrightarrow> status = STATUS_SUCCESS"

lemma NT_SUCCESS_iff [simp]: "NT_SUCCESS status \<longleftrightarrow> status = STATUS_SUCCESS"
  by (simp add: NT_SUCCESS_def)

type_synonym status_code = "32 word"

definition nt_success_code :: "status_code \<Rightarrow> bool" where
  "nt_success_code status \<longleftrightarrow> 0 \<le>s status"

lemma nt_success_code_sint [simp]: "nt_success_code status \<longleftrightarrow> 0 \<le> sint status"
  by (simp add: nt_success_code_def word_sle_eq)

type_synonym BOOLEAN = "8 word"

definition TRUE :: BOOLEAN where "TRUE = 1"

definition FALSE :: BOOLEAN where "FALSE = 0"

end
