(* ===== verification/Drv_Atomic.thy ===== *)
theory Drv_Atomic
  imports Drv_Types
begin

text \<open>
  \<open>include/drv_common/drv_atomic.h\<close>: the atomic counter \<open>drv_atomic_t\<close>, a 32-bit \<open>LONG\<close>.

  The interlocked primitives of Windows are single indivisible updates of the counter; each
  operation below is the function from the counter's old value to its new value and the value
  returned.  \<open>drv_atomic_sub_and_test\<close> is not one primitive but a compare-exchange loop, so it
  is modelled twice: as the loop over the values the other processors let it see, and as the
  steps of a system of threads that run it concurrently.
\<close>

section \<open>Operations\<close>

type_synonym atomic = "32 word"

definition InterlockedExchange :: "atomic \<Rightarrow> 32 word \<Rightarrow> atomic \<times> 32 word" where
  "InterlockedExchange v x = (x, v)"

definition InterlockedExchangeAdd :: "atomic \<Rightarrow> 32 word \<Rightarrow> atomic \<times> 32 word" where
  "InterlockedExchangeAdd v x = (v + x, v)"

definition InterlockedIncrement :: "atomic \<Rightarrow> atomic \<times> 32 word" where
  "InterlockedIncrement v = (v + 1, v + 1)"

definition InterlockedDecrement :: "atomic \<Rightarrow> atomic \<times> 32 word" where
  "InterlockedDecrement v = (v - 1, v - 1)"

definition InterlockedCompareExchange :: "atomic \<Rightarrow> 32 word \<Rightarrow> 32 word \<Rightarrow> atomic \<times> 32 word" where
  "InterlockedCompareExchange v exchange comparand = (if v = comparand then exchange else v, v)"

definition drv_atomic_init :: "32 word \<Rightarrow> atomic" where
  "drv_atomic_init i = i"

definition drv_atomic_read :: "atomic \<Rightarrow> 32 word" where
  "drv_atomic_read v = v"

definition drv_atomic_set :: "atomic \<Rightarrow> 32 word \<Rightarrow> atomic" where
  "drv_atomic_set v i = fst (InterlockedExchange v i)"

definition drv_atomic_add :: "atomic \<Rightarrow> 32 word \<Rightarrow> atomic" where
  "drv_atomic_add v i = fst (InterlockedExchangeAdd v i)"

definition drv_atomic_sub :: "atomic \<Rightarrow> 32 word \<Rightarrow> atomic" where
  "drv_atomic_sub v i = fst (InterlockedExchangeAdd v (- 1 * i))"

definition drv_atomic_inc :: "atomic \<Rightarrow> atomic" where
  "drv_atomic_inc v = fst (InterlockedIncrement v)"

definition drv_atomic_dec :: "atomic \<Rightarrow> atomic" where
  "drv_atomic_dec v = fst (InterlockedDecrement v)"

definition drv_atomic_dec_and_test :: "atomic \<Rightarrow> atomic \<times> bool" where
  "drv_atomic_dec_and_test v = (let (v', r) = InterlockedDecrement v in (v', 0 = r))"

definition drv_atomic_inc_and_test :: "atomic \<Rightarrow> atomic \<times> bool" where
  "drv_atomic_inc_and_test v = (let (v', r) = InterlockedIncrement v in (v', 0 = r))"

definition drv_atomic_add_negative :: "32 word \<Rightarrow> atomic \<Rightarrow> atomic \<times> 32 word" where
  "drv_atomic_add_negative i v = (let (v', r) = InterlockedExchangeAdd v i in (v', r + i))"

text \<open>
  The loop of \<open>drv_atomic_sub_and_test\<close>.  Each round is a pair: the value read into
  \<open>counter\<close>, and the value the variable has when the compare-exchange happens.  \<open>None\<close>: the
  loop is still running after these rounds.  The result is the variable and the value returned.
\<close>

fun drv_atomic_sub_and_test_rounds :: "(atomic \<times> atomic) list \<Rightarrow> 32 word \<Rightarrow> (atomic \<times> bool) option" where
  "drv_atomic_sub_and_test_rounds [] i = None"
| "drv_atomic_sub_and_test_rounds ((counter, now) # rs) i =
     (let result = counter - i; (v', old) = InterlockedCompareExchange now result counter
      in if old \<noteq> counter then drv_atomic_sub_and_test_rounds rs i else Some (v', result = 0))"

text \<open>Run by one processor alone, the first compare-exchange succeeds.\<close>

definition drv_atomic_sub_and_test :: "atomic \<Rightarrow> 32 word \<Rightarrow> atomic \<times> bool" where
  "drv_atomic_sub_and_test v i = (v - i, v - i = 0)"

lemmas atomic_defs =
  InterlockedExchange_def InterlockedExchangeAdd_def InterlockedIncrement_def
  InterlockedDecrement_def InterlockedCompareExchange_def
  drv_atomic_init_def drv_atomic_read_def drv_atomic_set_def drv_atomic_add_def
  drv_atomic_sub_def drv_atomic_inc_def drv_atomic_dec_def drv_atomic_dec_and_test_def
  drv_atomic_inc_and_test_def drv_atomic_add_negative_def

lemma sub_and_test_alone:
  "drv_atomic_sub_and_test_rounds ((v, v) # rs) i = Some (drv_atomic_sub_and_test v i)"
  by (simp add: InterlockedCompareExchange_def drv_atomic_sub_and_test_def)

lemma sub_and_test_rounds_spin:
  "drv_atomic_sub_and_test_rounds rs i = None \<longleftrightarrow> (\<forall>(seen, now) \<in> set rs. seen \<noteq> now)"
  by (induction rs i rule: drv_atomic_sub_and_test_rounds.induct)
    (auto simp: InterlockedCompareExchange_def Let_def)

lemma sub_and_test_rounds_atomic:
  "drv_atomic_sub_and_test_rounds rs i = Some (v', r) \<Longrightarrow>
     \<exists>now. (now, now) \<in> set rs \<and> (v', r) = drv_atomic_sub_and_test now i"
proof (induction rs)
  case (Cons a rs)
  obtain c now where a: "a = (c, now)" by (cases a)
  show ?case
  proof (cases "now = c")
    case True
    with Cons.prems a show ?thesis
      by (auto simp: InterlockedCompareExchange_def drv_atomic_sub_and_test_def Let_def)
  next
    case False
    with Cons.prems a have "drv_atomic_sub_and_test_rounds rs i = Some (v', r)"
      by (simp add: InterlockedCompareExchange_def Let_def)
    with Cons.IH show ?thesis by auto
  qed
qed simp

section \<open>Threads dropping references concurrently\<close>

text \<open>
  \<open>n\<close> threads each run \<open>drv_atomic_sub_and_test(v, 1)\<close> on one shared counter.  A thread is about
  to read the counter (\<open>Start\<close>), has read a value (\<open>Seen\<close>), or has returned (\<open>Done\<close>).  One
  step is one memory access of one thread.
\<close>

datatype sat_pc = Start | Seen atomic | Done bool

record sat_sys =
  counter :: atomic
  pcs :: "nat \<Rightarrow> sat_pc"

definition sat_init :: "nat \<Rightarrow> sat_sys" where
  "sat_init n = \<lparr>counter = of_nat n, pcs = (\<lambda>_. Start)\<rparr>"

inductive sat_step :: "nat \<Rightarrow> sat_sys \<Rightarrow> sat_sys \<Rightarrow> bool" for n where
  sat_read: "\<lbrakk>t < n; pcs s t = Start\<rbrakk> \<Longrightarrow>
     sat_step n s (s\<lparr>pcs := (pcs s)(t := Seen (counter s))\<rparr>)"
| sat_cas: "\<lbrakk>t < n; pcs s t = Seen c; InterlockedCompareExchange (counter s) (c - 1) c = (v', old)\<rbrakk> \<Longrightarrow>
     sat_step n s (s\<lparr>counter := v',
       pcs := (pcs s)(t := (if old \<noteq> c then Start else Done (c - 1 = 0)))\<rparr>)"

inductive sat_reachable :: "nat \<Rightarrow> sat_sys \<Rightarrow> bool" for n where
  sat_reach_init: "sat_reachable n (sat_init n)"
| sat_reach_step: "\<lbrakk>sat_reachable n s; sat_step n s s'\<rbrakk> \<Longrightarrow> sat_reachable n s'"

definition sat_done :: "nat \<Rightarrow> sat_sys \<Rightarrow> nat set" where
  "sat_done n s = {t. t < n \<and> (\<exists>b. pcs s t = Done b)}"

definition sat_winners :: "nat \<Rightarrow> sat_sys \<Rightarrow> nat set" where
  "sat_winners n s = {t. t < n \<and> pcs s t = Done True}"

definition sat_inv :: "nat \<Rightarrow> sat_sys \<Rightarrow> bool" where
  "sat_inv n s \<longleftrightarrow> counter s = of_nat (n - card (sat_done n s)) \<and>
     card (sat_winners n s) = (if 0 < n \<and> card (sat_done n s) = n then 1 else 0)"

lemma finite_sat_sets [simp]: "finite (sat_done n s)" "finite (sat_winners n s)"
  by (simp_all add: sat_done_def sat_winners_def)

lemma sat_done_upd:
  "t < n \<Longrightarrow> pcs s t = Seen c \<Longrightarrow> sat_done n (s\<lparr>counter := v, pcs := (pcs s)(t := Done b)\<rparr>) = insert t (sat_done n s)"
  "pcs s t = Seen c \<Longrightarrow> sat_done n (s\<lparr>counter := v, pcs := (pcs s)(t := Start)\<rparr>) = sat_done n s"
  "pcs s t = Start \<Longrightarrow> sat_done n (s\<lparr>pcs := (pcs s)(t := Seen c)\<rparr>) = sat_done n s"
  by (auto simp: sat_done_def)

lemma sat_winners_upd:
  "t < n \<Longrightarrow> pcs s t = Seen c \<Longrightarrow> sat_winners n (s\<lparr>counter := v, pcs := (pcs s)(t := Done b)\<rparr>)
     = (if b then insert t (sat_winners n s) else sat_winners n s)"
  "pcs s t = Seen c \<Longrightarrow> sat_winners n (s\<lparr>counter := v, pcs := (pcs s)(t := Start)\<rparr>) = sat_winners n s"
  "pcs s t = Start \<Longrightarrow> sat_winners n (s\<lparr>pcs := (pcs s)(t := Seen c)\<rparr>) = sat_winners n s"
  by (auto simp: sat_winners_def)

lemma sat_done_less:
  assumes "t < n" "pcs s t = Seen c"
  shows "card (sat_done n s) < n" "t \<notin> sat_done n s" "t \<notin> sat_winners n s"
proof -
  have "sat_done n s \<subseteq> {..<n} - {t}" using assms by (auto simp: sat_done_def)
  then have "card (sat_done n s) \<le> card ({..<n} - {t})" by (rule card_mono [rotated]) simp
  then show "card (sat_done n s) < n" using assms by simp
  show "t \<notin> sat_done n s" "t \<notin> sat_winners n s" using assms by (auto simp: sat_done_def sat_winners_def)
qed

lemma of_nat_eq_1_iff: "m < 2 ^ 32 \<Longrightarrow> (of_nat m :: atomic) = 1 \<longleftrightarrow> m = 1"
  by (metis of_nat_1 unat_1 unat_of_nat_32)

lemma sat_step_inv:
  assumes "n < 2 ^ 32" "sat_step n s s'" "sat_inv n s"
  shows "sat_inv n s'"
  using assms(2)
proof cases
  case (sat_read t)
  then show ?thesis using assms(3) by (simp add: sat_inv_def sat_done_upd sat_winners_upd)
next
  case (sat_cas t c v' old)
  note less = sat_done_less [OF sat_cas(2,3)]
  show ?thesis
  proof (cases "counter s = c")
    case False
    then show ?thesis using sat_cas assms(3)
      by (auto simp: InterlockedCompareExchange_def sat_inv_def sat_done_upd sat_winners_upd)
  next
    case True
    let ?d = "card (sat_done n s)"
    have c: "c = of_nat (n - ?d)" using assms(3) True by (simp add: sat_inv_def)
    have "c - 1 = of_nat (n - Suc ?d)"
      unfolding c using less(1) by (simp add: of_nat_diff)
    moreover have "c - 1 = 0 \<longleftrightarrow> Suc ?d = n"
      using less(1) assms(1) of_nat_eq_1_iff [of "n - ?d"] c by (auto simp: diff_le_self)
    moreover have "card (sat_winners n s) = 0" using assms(3) less(1) by (simp add: sat_inv_def)
    ultimately show ?thesis using sat_cas True less
      by (auto simp: InterlockedCompareExchange_def sat_inv_def sat_done_upd sat_winners_upd
          diff_eq_eq add.commute)
  qed
qed

lemma sat_reachable_inv: "sat_reachable n s \<Longrightarrow> n < 2 ^ 32 \<Longrightarrow> sat_inv n s"
proof (induction rule: sat_reachable.induct)
  case sat_reach_init
  have "sat_done n (sat_init n) = {}" "sat_winners n (sat_init n) = {}"
    by (auto simp: sat_done_def sat_winners_def sat_init_def)
  then show ?case by (auto simp: sat_inv_def sat_init_def)
next
  case (sat_reach_step s s')
  then show ?case by (blast intro: sat_step_inv)
qed

text \<open>
  C11. When \<open>n\<close> threads drop one reference each from a counter that starts at \<open>n\<close>, then in every
  interleaving of their compare-exchange loops the counter is always \<open>n\<close> less the threads that
  have returned, and once all have returned exactly one of them was told that it dropped the
  last reference.
\<close>

theorem sub_and_test_unique_last:
  assumes "sat_reachable n s" "0 < n" "n < 2 ^ 32"
  shows "counter s = of_nat (n - card {t. t < n \<and> (\<exists>b. pcs s t = Done b)}) \<and>
    ((\<forall>t < n. \<exists>b. pcs s t = Done b) \<longrightarrow> (\<exists>!t. t < n \<and> pcs s t = Done True))"
proof (intro conjI impI)
  have inv: "sat_inv n s" using assms by (blast intro: sat_reachable_inv)
  then show "counter s = of_nat (n - card {t. t < n \<and> (\<exists>b. pcs s t = Done b)})"
    by (simp add: sat_inv_def sat_done_def)
  assume "\<forall>t < n. \<exists>b. pcs s t = Done b"
  then have "sat_done n s = {..<n}" by (auto simp: sat_done_def)
  then have "card (sat_winners n s) = 1" using inv assms(2) by (simp add: sat_inv_def)
  then obtain t where "sat_winners n s = {t}" by (auto simp: card_1_singleton_iff)
  then show "\<exists>!t. t < n \<and> pcs s t = Done True" by (auto simp: sat_winners_def set_eq_iff)
qed

text \<open>One thread that reads and then exchanges: it is the one that dropped the last reference.\<close>

lemma sat_run_1: "sat_reachable 1 \<lparr>counter = 0, pcs = (\<lambda>_. Start)(0 := Done True)\<rparr>"
proof -
  have "sat_reachable 1 ((sat_init 1)\<lparr>pcs := (pcs (sat_init 1))(0 := Seen (counter (sat_init 1)))\<rparr>)"
    by (rule sat_reach_step [OF sat_reach_init sat_read]) (simp_all add: sat_init_def)
  from sat_reach_step [OF this sat_cas [where t = 0 and c = 1 and v' = 0 and old = 1]]
  show ?thesis by (simp add: sat_init_def InterlockedCompareExchange_def)
qed

theorem sub_and_test_unique_last_witness:
  "\<exists>!t. t < (1 :: nat) \<and> ((\<lambda>_. Start)(0 := Done True)) t = Done True"
  using sub_and_test_unique_last [OF sat_run_1] by simp

section \<open>Every thread returns\<close>

text \<open>
  What is left to do: at most two steps of each thread before some thread returns.  A compare-exchange fails
  only if another thread has returned since the counter was read.
\<close>

fun pc_weight :: "atomic \<Rightarrow> sat_pc \<Rightarrow> nat" where
  "pc_weight v Start = 1"
| "pc_weight v (Seen c) = (if c = v then 0 else 2)"
| "pc_weight v (Done b) = 0"

definition sat_weight :: "nat \<Rightarrow> sat_sys \<Rightarrow> nat" where
  "sat_weight n s = (n - card (sat_done n s)) * (2 * n + 1) + (\<Sum>t < n. pc_weight (counter s) (pcs s t))"

lemma pc_weight_le: "pc_weight v pc \<le> 2" by (cases pc) simp_all

lemma sum_pc_weight_le: "(\<Sum>t < (n :: nat). pc_weight v (f t)) \<le> 2 * n"
  using sum_bounded_above [of "{..<n}" "\<lambda>t. pc_weight v (f t)" 2] pc_weight_le by (simp add: mult.commute)

lemma sum_pc_weight_upd:
  assumes "t < (n :: nat)"
  shows "(\<Sum>u < n. pc_weight v ((f(t := pc)) u)) + pc_weight v (f t) = (\<Sum>u < n. pc_weight v (f u)) + pc_weight v pc"
proof -
  have "(\<Sum>u < n. pc_weight v ((f(t := pc)) u)) = pc_weight v pc + (\<Sum>u \<in> {..<n} - {t}. pc_weight v (f u))"
    using assms sum.remove [of "{..<n}" t "\<lambda>u. pc_weight v ((f(t := pc)) u)"] by simp
  moreover have "(\<Sum>u < n. pc_weight v (f u)) = pc_weight v (f t) + (\<Sum>u \<in> {..<n} - {t}. pc_weight v (f u))"
    using assms by (intro sum.remove) auto
  ultimately show ?thesis by simp
qed

lemma sat_step_weight:
  assumes "sat_step n s s'"
  shows "sat_weight n s' < sat_weight n s"
  using assms
proof cases
  case (sat_read t)
  have "(\<Sum>u < n. pc_weight (counter s) (((pcs s)(t := Seen (counter s))) u)) + 1 = (\<Sum>u < n. pc_weight (counter s) (pcs s u))"
    using sum_pc_weight_upd [OF sat_read(2), of "counter s" "pcs s" "Seen (counter s)"] sat_read(3) by simp
  then show ?thesis using sat_read by (simp add: sat_weight_def sat_done_upd)
next
  case (sat_cas t c v' old)
  note less = sat_done_less [OF sat_cas(2,3)]
  show ?thesis
  proof (cases "counter s = c")
    case False
    have "(\<Sum>u < n. pc_weight (counter s) (((pcs s)(t := Start)) u)) + 2 = (\<Sum>u < n. pc_weight (counter s) (pcs s u)) + 1"
      using sum_pc_weight_upd [OF sat_cas(2), of "counter s" "pcs s" Start] sat_cas(3) False by auto
    moreover have "old \<noteq> c" "v' = counter s"
      using sat_cas(4) False by (auto simp: InterlockedCompareExchange_def)
    moreover from this(1) have "sat_done n s' = sat_done n s" "pcs s' = (pcs s)(t := Start)" "counter s' = v'"
      unfolding sat_cas(1) by (simp_all add: sat_done_upd(2) [OF sat_cas(3)])
    ultimately show ?thesis by (simp add: sat_weight_def)
  next
    case True
    let ?d = "card (sat_done n s)"
    have d: "card (sat_done n s') = Suc ?d" and s': "pcs s' = (pcs s)(t := Done (c - 1 = 0))"
      using sat_cas True less by (auto simp: InterlockedCompareExchange_def sat_done_upd)
    have "sat_weight n s' \<le> (n - Suc ?d) * (2 * n + 1) + 2 * n"
      unfolding sat_weight_def d using sum_pc_weight_le by simp
    also have "\<dots> < (n - Suc ?d) * (2 * n + 1) + (2 * n + 1)" by simp
    also have "\<dots> = (n - ?d) * (2 * n + 1)" using less(1) by (simp add: Suc_diff_Suc [symmetric])
    also have "\<dots> \<le> sat_weight n s" by (simp add: sat_weight_def)
    finally show ?thesis .
  qed
qed

lemma sat_not_stuck:
  assumes "t < n" "\<forall>b. pcs s t \<noteq> Done b"
  shows "\<exists>s'. sat_step n s s'"
proof (cases "pcs s t")
  case Start
  then show ?thesis using assms(1) by (blast intro: sat_read)
next
  case (Seen c)
  obtain v old where "InterlockedCompareExchange (counter s) (c - 1) c = (v, old)" by (cases "InterlockedCompareExchange (counter s) (c - 1) c")
  then show ?thesis using assms(1) Seen by (blast intro: sat_cas)
qed (use assms(2) in simp)

text \<open>
  C38. No thread waits for ever: in every run of \<open>n\<close> threads that goes on as long as a step is possible, all
  threads have returned after at most \<open>2 * n * (n + 1)\<close> memory accesses, whoever is scheduled.
\<close>

theorem sub_and_test_all_return:
  assumes "run 0 = sat_init n" "\<forall>i. (\<exists>s'. sat_step n (run i) s') \<longrightarrow> sat_step n (run i) (run (Suc i))"
  shows "\<exists>i \<le> 2 * n * (n + 1). \<forall>t < n. \<exists>b. pcs (run i) t = Done b"
proof (rule ccontr)
  assume no: "\<not> ?thesis"
  have "i \<le> 2 * n * (n + 1) \<Longrightarrow> sat_weight n (run (Suc i)) + Suc i \<le> sat_weight n (run 0)" for i
  proof (induction i)
    case 0
    then have "sat_step n (run 0) (run (Suc 0))" using assms(2) no sat_not_stuck by blast
    from sat_step_weight [OF this] show ?case by simp
  next
    case (Suc i)
    then have "sat_step n (run (Suc i)) (run (Suc (Suc i)))" using assms(2) no sat_not_stuck by blast
    from sat_step_weight [OF this] Suc show ?case by simp
  qed
  from this [of "2 * n * (n + 1)"] have "Suc (2 * n * (n + 1)) \<le> sat_weight n (sat_init n)" using assms(1) by simp
  moreover have "sat_weight n (sat_init n) = n * (2 * n + 1) + n"
    by (simp add: sat_weight_def sat_init_def sat_done_def)
  ultimately show False by (simp add: algebra_simps)
qed

theorem sub_and_test_all_return_witness:
  "\<exists>i \<le> 4. \<forall>t < (1 :: nat). \<exists>b. pcs ((\<lambda>i. if i = 0 then sat_init 1 else if i = 1 then \<lparr>counter = 1, pcs = (\<lambda>_. Start)(0 := Seen 1)\<rparr>
     else \<lparr>counter = 0, pcs = (\<lambda>_. Start)(0 := Done True)\<rparr>) (i :: nat)) t = Done b"
proof -
  let ?run = "\<lambda>i :: nat. if i = 0 then sat_init 1 else if i = 1 then \<lparr>counter = 1, pcs = (\<lambda>_. Start)(0 := Seen 1)\<rparr>
     else \<lparr>counter = 0, pcs = (\<lambda>_. Start)(0 := Done True)\<rparr>"
  have "\<forall>i. (\<exists>s'. sat_step 1 (?run i) s') \<longrightarrow> sat_step 1 (?run i) (?run (Suc i))"
  proof (intro allI impI)
    fix i assume step: "\<exists>s'. sat_step 1 (?run i) s'"
    consider "i = 0" | "i = 1" | "1 < i" by linarith
    then show "sat_step 1 (?run i) (?run (Suc i))"
    proof cases
      case 1
      then show ?thesis using sat_read [of 0 1 "sat_init 1"] by (simp add: sat_init_def)
    next
      case 2
      then show ?thesis
        using sat_cas [of 0 1 "\<lparr>counter = 1, pcs = (\<lambda>_. Start)(0 := Seen 1)\<rparr>" 1 0 1]
        by (simp add: InterlockedCompareExchange_def)
    next
      case 3
      then show ?thesis using step by (auto elim!: sat_step.cases)
    qed
  qed
  then show ?thesis using sub_and_test_all_return [of ?run 1] by simp
qed

end
