(* ===== verification/Drv_Crc32.thy ===== *)
theory Drv_Crc32
  imports Drv_Types
begin

text \<open>
  \<open>drv_common/drv_crc32.c\<close>: the table-driven CRC routine behind \<open>drv_crc32\<close> and
  \<open>drv_crc32c\<close>.

  Two typing facts of the source are kept.  The accumulator is a \<open>__u32\<close>, which
  \<open>drv_types.h\<close> makes a \<^emph>\<open>signed\<close> integer, so \<open>crc >> 8\<close> is an arithmetic shift.
  And the table is passed as a \<open>const size_t *\<close> although it is an array of \<open>__u32\<close>:
  where \<open>size_t\<close> has 32 bits (Win32, ARM) \<open>tab[i]\<close> is entry \<open>i\<close>, but where it has 64 bits
  (x64, ARM64) \<open>tab[i]\<close> is made of the entries \<open>2 * i\<close> (low half) and
  \<open>2 * i + 1\<close>, and lies outside the table from \<open>i = 128\<close> on, which is a fault.
\<close>

section \<open>The tables\<close>

definition crc32_tab :: "u32 list" where
  "crc32_tab = [
   0x00000000, 0x77073096, 0xee0e612c, 0x990951ba, 0x076dc419, 0x706af48f,
   0xe963a535, 0x9e6495a3, 0x0edb8832, 0x79dcb8a4, 0xe0d5e91e, 0x97d2d988,
   0x09b64c2b, 0x7eb17cbd, 0xe7b82d07, 0x90bf1d91, 0x1db71064, 0x6ab020f2,
   0xf3b97148, 0x84be41de, 0x1adad47d, 0x6ddde4eb, 0xf4d4b551, 0x83d385c7,
   0x136c9856, 0x646ba8c0, 0xfd62f97a, 0x8a65c9ec, 0x14015c4f, 0x63066cd9,
   0xfa0f3d63, 0x8d080df5, 0x3b6e20c8, 0x4c69105e, 0xd56041e4, 0xa2677172,
   0x3c03e4d1, 0x4b04d447, 0xd20d85fd, 0xa50ab56b, 0x35b5a8fa, 0x42b2986c,
   0xdbbbc9d6, 0xacbcf940, 0x32d86ce3, 0x45df5c75, 0xdcd60dcf, 0xabd13d59,
   0x26d930ac, 0x51de003a, 0xc8d75180, 0xbfd06116, 0x21b4f4b5, 0x56b3c423,
   0xcfba9599, 0xb8bda50f, 0x2802b89e, 0x5f058808, 0xc60cd9b2, 0xb10be924,
   0x2f6f7c87, 0x58684c11, 0xc1611dab, 0xb6662d3d, 0x76dc4190, 0x01db7106,
   0x98d220bc, 0xefd5102a, 0x71b18589, 0x06b6b51f, 0x9fbfe4a5, 0xe8b8d433,
   0x7807c9a2, 0x0f00f934, 0x9609a88e, 0xe10e9818, 0x7f6a0dbb, 0x086d3d2d,
   0x91646c97, 0xe6635c01, 0x6b6b51f4, 0x1c6c6162, 0x856530d8, 0xf262004e,
   0x6c0695ed, 0x1b01a57b, 0x8208f4c1, 0xf50fc457, 0x65b0d9c6, 0x12b7e950,
   0x8bbeb8ea, 0xfcb9887c, 0x62dd1ddf, 0x15da2d49, 0x8cd37cf3, 0xfbd44c65,
   0x4db26158, 0x3ab551ce, 0xa3bc0074, 0xd4bb30e2, 0x4adfa541, 0x3dd895d7,
   0xa4d1c46d, 0xd3d6f4fb, 0x4369e96a, 0x346ed9fc, 0xad678846, 0xda60b8d0,
   0x44042d73, 0x33031de5, 0xaa0a4c5f, 0xdd0d7cc9, 0x5005713c, 0x270241aa,
   0xbe0b1010, 0xc90c2086, 0x5768b525, 0x206f85b3, 0xb966d409, 0xce61e49f,
   0x5edef90e, 0x29d9c998, 0xb0d09822, 0xc7d7a8b4, 0x59b33d17, 0x2eb40d81,
   0xb7bd5c3b, 0xc0ba6cad, 0xedb88320, 0x9abfb3b6, 0x03b6e20c, 0x74b1d29a,
   0xead54739, 0x9dd277af, 0x04db2615, 0x73dc1683, 0xe3630b12, 0x94643b84,
   0x0d6d6a3e, 0x7a6a5aa8, 0xe40ecf0b, 0x9309ff9d, 0x0a00ae27, 0x7d079eb1,
   0xf00f9344, 0x8708a3d2, 0x1e01f268, 0x6906c2fe, 0xf762575d, 0x806567cb,
   0x196c3671, 0x6e6b06e7, 0xfed41b76, 0x89d32be0, 0x10da7a5a, 0x67dd4acc,
   0xf9b9df6f, 0x8ebeeff9, 0x17b7be43, 0x60b08ed5, 0xd6d6a3e8, 0xa1d1937e,
   0x38d8c2c4, 0x4fdff252, 0xd1bb67f1, 0xa6bc5767, 0x3fb506dd, 0x48b2364b,
   0xd80d2bda, 0xaf0a1b4c, 0x36034af6, 0x41047a60, 0xdf60efc3, 0xa867df55,
   0x316e8eef, 0x4669be79, 0xcb61b38c, 0xbc66831a, 0x256fd2a0, 0x5268e236,
   0xcc0c7795, 0xbb0b4703, 0x220216b9, 0x5505262f, 0xc5ba3bbe, 0xb2bd0b28,
   0x2bb45a92, 0x5cb36a04, 0xc2d7ffa7, 0xb5d0cf31, 0x2cd99e8b, 0x5bdeae1d,
   0x9b64c2b0, 0xec63f226, 0x756aa39c, 0x026d930a, 0x9c0906a9, 0xeb0e363f,
   0x72076785, 0x05005713, 0x95bf4a82, 0xe2b87a14, 0x7bb12bae, 0x0cb61b38,
   0x92d28e9b, 0xe5d5be0d, 0x7cdcefb7, 0x0bdbdf21, 0x86d3d2d4, 0xf1d4e242,
   0x68ddb3f8, 0x1fda836e, 0x81be16cd, 0xf6b9265b, 0x6fb077e1, 0x18b74777,
   0x88085ae6, 0xff0f6a70, 0x66063bca, 0x11010b5c, 0x8f659eff, 0xf862ae69,
   0x616bffd3, 0x166ccf45, 0xa00ae278, 0xd70dd2ee, 0x4e048354, 0x3903b3c2,
   0xa7672661, 0xd06016f7, 0x4969474d, 0x3e6e77db, 0xaed16a4a, 0xd9d65adc,
   0x40df0b66, 0x37d83bf0, 0xa9bcae53, 0xdebb9ec5, 0x47b2cf7f, 0x30b5ffe9,
   0xbdbdf21c, 0xcabac28a, 0x53b39330, 0x24b4a3a6, 0xbad03605, 0xcdd70693,
   0x54de5729, 0x23d967bf, 0xb3667a2e, 0xc4614ab8, 0x5d681b02, 0x2a6f2b94,
   0xb40bbe37, 0xc30c8ea1, 0x5a05df1b, 0x2d02ef8d]"

definition crc32c_tab :: "u32 list" where
  "crc32c_tab = [
   0x00000000, 0xf26b8303, 0xe13b70f7, 0x1350f3f4, 0xc79a971f, 0x35f1141c,
   0x26a1e7e8, 0xd4ca64eb, 0x8ad958cf, 0x78b2dbcc, 0x6be22838, 0x9989ab3b,
   0x4d43cfd0, 0xbf284cd3, 0xac78bf27, 0x5e133c24, 0x105ec76f, 0xe235446c,
   0xf165b798, 0x030e349b, 0xd7c45070, 0x25afd373, 0x36ff2087, 0xc494a384,
   0x9a879fa0, 0x68ec1ca3, 0x7bbcef57, 0x89d76c54, 0x5d1d08bf, 0xaf768bbc,
   0xbc267848, 0x4e4dfb4b, 0x20bd8ede, 0xd2d60ddd, 0xc186fe29, 0x33ed7d2a,
   0xe72719c1, 0x154c9ac2, 0x061c6936, 0xf477ea35, 0xaa64d611, 0x580f5512,
   0x4b5fa6e6, 0xb93425e5, 0x6dfe410e, 0x9f95c20d, 0x8cc531f9, 0x7eaeb2fa,
   0x30e349b1, 0xc288cab2, 0xd1d83946, 0x23b3ba45, 0xf779deae, 0x05125dad,
   0x1642ae59, 0xe4292d5a, 0xba3a117e, 0x4851927d, 0x5b016189, 0xa96ae28a,
   0x7da08661, 0x8fcb0562, 0x9c9bf696, 0x6ef07595, 0x417b1dbc, 0xb3109ebf,
   0xa0406d4b, 0x522bee48, 0x86e18aa3, 0x748a09a0, 0x67dafa54, 0x95b17957,
   0xcba24573, 0x39c9c670, 0x2a993584, 0xd8f2b687, 0x0c38d26c, 0xfe53516f,
   0xed03a29b, 0x1f682198, 0x5125dad3, 0xa34e59d0, 0xb01eaa24, 0x42752927,
   0x96bf4dcc, 0x64d4cecf, 0x77843d3b, 0x85efbe38, 0xdbfc821c, 0x2997011f,
   0x3ac7f2eb, 0xc8ac71e8, 0x1c661503, 0xee0d9600, 0xfd5d65f4, 0x0f36e6f7,
   0x61c69362, 0x93ad1061, 0x80fde395, 0x72966096, 0xa65c047d, 0x5437877e,
   0x4767748a, 0xb50cf789, 0xeb1fcbad, 0x197448ae, 0x0a24bb5a, 0xf84f3859,
   0x2c855cb2, 0xdeeedfb1, 0xcdbe2c45, 0x3fd5af46, 0x7198540d, 0x83f3d70e,
   0x90a324fa, 0x62c8a7f9, 0xb602c312, 0x44694011, 0x5739b3e5, 0xa55230e6,
   0xfb410cc2, 0x092a8fc1, 0x1a7a7c35, 0xe811ff36, 0x3cdb9bdd, 0xceb018de,
   0xdde0eb2a, 0x2f8b6829, 0x82f63b78, 0x709db87b, 0x63cd4b8f, 0x91a6c88c,
   0x456cac67, 0xb7072f64, 0xa457dc90, 0x563c5f93, 0x082f63b7, 0xfa44e0b4,
   0xe9141340, 0x1b7f9043, 0xcfb5f4a8, 0x3dde77ab, 0x2e8e845f, 0xdce5075c,
   0x92a8fc17, 0x60c37f14, 0x73938ce0, 0x81f80fe3, 0x55326b08, 0xa759e80b,
   0xb4091bff, 0x466298fc, 0x1871a4d8, 0xea1a27db, 0xf94ad42f, 0x0b21572c,
   0xdfeb33c7, 0x2d80b0c4, 0x3ed04330, 0xccbbc033, 0xa24bb5a6, 0x502036a5,
   0x4370c551, 0xb11b4652, 0x65d122b9, 0x97baa1ba, 0x84ea524e, 0x7681d14d,
   0x2892ed69, 0xdaf96e6a, 0xc9a99d9e, 0x3bc21e9d, 0xef087a76, 0x1d63f975,
   0x0e330a81, 0xfc588982, 0xb21572c9, 0x407ef1ca, 0x532e023e, 0xa145813d,
   0x758fe5d6, 0x87e466d5, 0x94b49521, 0x66df1622, 0x38cc2a06, 0xcaa7a905,
   0xd9f75af1, 0x2b9cd9f2, 0xff56bd19, 0x0d3d3e1a, 0x1e6dcdee, 0xec064eed,
   0xc38d26c4, 0x31e6a5c7, 0x22b65633, 0xd0ddd530, 0x0417b1db, 0xf67c32d8,
   0xe52cc12c, 0x1747422f, 0x49547e0b, 0xbb3ffd08, 0xa86f0efc, 0x5a048dff,
   0x8ecee914, 0x7ca56a17, 0x6ff599e3, 0x9d9e1ae0, 0xd3d3e1ab, 0x21b862a8,
   0x32e8915c, 0xc083125f, 0x144976b4, 0xe622f5b7, 0xf5720643, 0x07198540,
   0x590ab964, 0xab613a67, 0xb831c993, 0x4a5a4a90, 0x9e902e7b, 0x6cfbad78,
   0x7fab5e8c, 0x8dc0dd8f, 0xe330a81a, 0x115b2b19, 0x020bd8ed, 0xf0605bee,
   0x24aa3f05, 0xd6c1bc06, 0xc5914ff2, 0x37faccf1, 0x69e9f0d5, 0x9b8273d6,
   0x88d28022, 0x7ab90321, 0xae7367ca, 0x5c18e4c9, 0x4f48173d, 0xbd23943e,
   0xf36e6f75, 0x0105ec76, 0x12551f82, 0xe03e9c81, 0x34f4f86a, 0xc69f7b69,
   0xd5cf889d, 0x27a40b9e, 0x79b737ba, 0x8bdcb4b9, 0x988c474d, 0x6ae7c44e,
   0xbe2da0a5, 0x4c4623a6, 0x5f16d052, 0xad7d5351]"

section \<open>The routine\<close>

datatype size_t_width = Size32 | Size64

text \<open>
  \<open>tab[i]\<close> for \<open>tab :: const size_t *\<close>, cut to the 32 bits the assignment to
  \<open>crc\<close> keeps.
\<close>

definition tab_entry :: "size_t_width \<Rightarrow> u32 list \<Rightarrow> nat \<Rightarrow> u32 option" where
  "tab_entry arch tab i = (case arch of
       Size32 \<Rightarrow> (if i < length tab then Some (tab ! i) else None)
     | Size64 \<Rightarrow> (if 2 * i + 1 < length tab then Some (tab ! (2 * i)) else None))"

definition crc32_byte :: "size_t_width \<Rightarrow> u32 list \<Rightarrow> u32 \<Rightarrow> byte \<Rightarrow> u32 option" where
  "crc32_byte arch tab crc b =
     map_option (\<lambda>e. e XOR signed_drop_bit 8 crc) (tab_entry arch tab (unat ((crc XOR ucast b) AND 0xFF)))"

text \<open>\<open>while (size--)\<close> runs \<open>size\<close> times; running past the buffer is a fault.\<close>

fun crc32_loop :: "size_t_width \<Rightarrow> u32 list \<Rightarrow> nat \<Rightarrow> u32 \<Rightarrow> byte list \<Rightarrow> u32 option" where
  "crc32_loop arch tab 0 crc p = Some crc"
| "crc32_loop arch tab (Suc n) crc [] = None"
| "crc32_loop arch tab (Suc n) crc (b # p) =
     Option.bind (crc32_byte arch tab crc b) (\<lambda>crc'. crc32_loop arch tab n crc' p)"

definition crc32 :: "size_t_width \<Rightarrow> u32 \<Rightarrow> byte list \<Rightarrow> u32 \<Rightarrow> u32 list \<Rightarrow> u32 option" where
  "crc32 arch crc buf sz tab = crc32_loop arch tab (unat sz) crc buf"

text \<open>The callers pass a \<open>size_t\<close>; the parameter keeps its low 32 bits.\<close>

definition drv_crc32 :: "size_t_width \<Rightarrow> u32 \<Rightarrow> byte list \<Rightarrow> nat \<Rightarrow> u32 option" where
  "drv_crc32 arch crc buf sz = crc32 arch crc buf (of_nat sz) crc32_tab"

definition drv_crc32c :: "size_t_width \<Rightarrow> u32 \<Rightarrow> byte list \<Rightarrow> nat \<Rightarrow> u32 option" where
  "drv_crc32c arch crc buf sz = crc32 arch crc buf (of_nat sz) crc32c_tab"

section \<open>The reference: division by the generator polynomial, one bit at a time\<close>

definition crc_step :: "u32 \<Rightarrow> u32 \<Rightarrow> u32" where
  "crc_step poly r = (if bit r 0 then drop_bit 1 r XOR poly else drop_bit 1 r)"

definition crc_byte_table :: "u32 \<Rightarrow> u32 list" where
  "crc_byte_table poly = map (\<lambda>i. (crc_step poly ^^ 8) (of_nat i)) [0..<256]"

text \<open>The generator polynomials of CRC-32 and CRC-32C, least significant bit first.\<close>

definition CRC32_POLY :: u32 where "CRC32_POLY = 0xedb88320"
definition CRC32C_POLY :: u32 where "CRC32C_POLY = 0x82f63b78"

text \<open>The byte step of the reference, and the reference over a buffer.\<close>

definition crc_ref_byte :: "u32 \<Rightarrow> u32 \<Rightarrow> byte \<Rightarrow> u32" where
  "crc_ref_byte poly crc b = (crc_step poly ^^ 8) (crc XOR ucast b)"

text \<open>What the arithmetic shift adds: eight copies of the sign where the reference has zeros.\<close>

definition sign_fill :: "u32 \<Rightarrow> u32" where
  "sign_fill crc = (if bit crc 31 then 0xff000000 else 0)"

definition crc_code_byte :: "u32 \<Rightarrow> u32 \<Rightarrow> byte \<Rightarrow> u32" where
  "crc_code_byte poly crc b = crc_ref_byte poly crc b XOR sign_fill crc"

section \<open>The tables are the tables of their polynomials\<close>

fun table_matches :: "u32 \<Rightarrow> u32 \<Rightarrow> u32 list \<Rightarrow> bool" where
  "table_matches poly i [] \<longleftrightarrow> True"
| "table_matches poly i (e # es) \<longleftrightarrow> (crc_step poly ^^ 8) i = e \<and> table_matches poly (i + 1) es"

lemma table_matches_nth:
  "table_matches poly i es \<Longrightarrow> k < length es \<Longrightarrow> es ! k = (crc_step poly ^^ 8) (i + of_nat k)"
  by (induction poly i es arbitrary: k rule: table_matches.induct)
    (auto simp: nth_Cons add.assoc split: nat.split)

lemma table_matches_eq: "table_matches poly 0 es \<Longrightarrow> length es = 256 \<Longrightarrow> crc_byte_table poly = es"
  by (rule nth_equalityI) (simp_all add: crc_byte_table_def table_matches_nth)

lemma crc_step_eval:
  "crc_step poly 0 = 0" "crc_step poly 1 = poly"
  "crc_step poly (numeral k) =
     (if bit (numeral k :: u32) 0 then drop_bit 1 (numeral k) XOR poly else drop_bit 1 (numeral k))"
  by (simp_all add: crc_step_def)

lemma funpow_8: "(f ^^ 8) x = f (f (f (f (f (f (f (f x)))))))"
  by (simp add: numeral_eq_Suc)

lemma crc32_tab_eq: "crc_byte_table CRC32_POLY = crc32_tab"
  by (rule table_matches_eq) (simp_all add: crc32_tab_def funpow_8 CRC32_POLY_def crc_step_eval)

lemma crc32c_tab_eq: "crc_byte_table CRC32C_POLY = crc32c_tab"
  by (rule table_matches_eq) (simp_all add: crc32c_tab_def funpow_8 CRC32C_POLY_def crc_step_eval)

text \<open>
  Every one of the 256 entries of \<open>crc32_tab\<close> and of \<open>crc32c_tab\<close> is the remainder of
  its index under eight steps of bitwise division by the CRC-32 and the CRC-32C polynomial.
\<close>

theorem crc_tables_correct:
  "crc32_tab = crc_byte_table CRC32_POLY \<and> crc32c_tab = crc_byte_table CRC32C_POLY"
  by (simp add: crc32_tab_eq crc32c_tab_eq)

section \<open>The byte step\<close>

lemma crc_step_xor: "crc_step poly (a XOR b) = crc_step poly a XOR crc_step poly b"
  by (simp add: crc_step_def bit_xor_iff drop_bit_xor ac_simps)

lemma crc_steps_xor: "(crc_step poly ^^ n) (a XOR b) = (crc_step poly ^^ n) a XOR (crc_step poly ^^ n) b"
  by (induction n) (simp_all add: crc_step_xor)

lemma crc_steps_shift: "(\<And>i. i < n \<Longrightarrow> \<not> bit r i) \<Longrightarrow> (crc_step poly ^^ n) r = drop_bit n r"
  by (induction n) (simp_all add: crc_step_def bit_drop_bit_eq)

lemma bit_FF: "bit (0xFF :: u32) i \<longleftrightarrow> i < 8"
proof -
  have "(0xFF :: u32) = mask 8" by (simp add: mask_numeral)
  then show ?thesis by (simp only: bit_mask_iff) (auto simp: possible_bit_def)
qed

lemma bit_FF000000: "bit (0xff000000 :: u32) i \<longleftrightarrow> 24 \<le> i \<and> i < 32"
proof -
  have "(0xff000000 :: u32) = push_bit 24 (mask 8)" by (simp add: mask_numeral push_bit_eq_mult)
  then show ?thesis by (simp only: bit_push_bit_iff bit_mask_iff) (auto simp: possible_bit_def)
qed

lemma split_low_byte: "(x :: u32) = (x AND 0xFF) XOR push_bit 8 (drop_bit 8 x)"
proof (rule bit_word_eqI)
  fix i assume "i < LENGTH(32)"
  then show "bit x i = bit ((x AND 0xFF) XOR push_bit 8 (drop_bit 8 x)) i"
    by (simp only: bit_simps bit_FF) auto
qed

lemma crc_steps_8: "(crc_step poly ^^ 8) x = (crc_step poly ^^ 8) (x AND 0xFF) XOR drop_bit 8 x"
proof -
  have "(crc_step poly ^^ 8) (push_bit 8 (drop_bit 8 x)) = drop_bit 8 (push_bit 8 (drop_bit 8 x))"
    by (rule crc_steps_shift) (simp add: bit_simps)
  also have "\<dots> = drop_bit 8 x"
    by (rule bit_word_eqI) (auto simp: bit_simps dest: bit_imp_le_length)
  finally show ?thesis
    using crc_steps_xor [of 8 poly "x AND 0xFF" "push_bit 8 (drop_bit 8 x)"] split_low_byte [of x]
    by simp
qed

lemma signed_shift_8: "signed_drop_bit 8 crc = drop_bit 8 crc XOR sign_fill crc"
  for crc :: u32
proof (rule bit_word_eqI)
  fix i assume i: "i < LENGTH(32)"
  then show "bit (signed_drop_bit 8 crc) i = bit (drop_bit 8 crc XOR sign_fill crc) i"
    by (cases "i < 24")
      (simp_all only: sign_fill_def if_distrib [of "\<lambda>w. bit w i"] bit_simps bit_FF000000,
        auto dest: bit_imp_le_length)
qed

lemma low_byte_bound: "unat ((x :: u32) AND 0xFF) < 256"
proof -
  have "unat (x AND 0xFF) \<le> unat (0xFF :: u32)"
    by (rule word_and_le1 [THEN word_le_nat_alt [THEN iffD1]])
  then show ?thesis by simp
qed

lemma drop_bit_8_byte: "drop_bit 8 (crc XOR ucast (b :: byte)) = drop_bit 8 (crc :: u32)"
  by (rule bit_word_eqI) (auto simp: bit_simps dest: bit_imp_le_length)

lemma tab_entry_32:
  "tab_entry Size32 (crc_byte_table poly) (unat (x AND 0xFF)) = Some ((crc_step poly ^^ 8) (x AND 0xFF))"
  using low_byte_bound [of x] by (simp add: tab_entry_def crc_byte_table_def)

lemma crc32_byte_32: "crc32_byte Size32 (crc_byte_table poly) crc b = Some (crc_code_byte poly crc b)"
proof -
  let ?x = "crc XOR ucast b"
  have "(crc_step poly ^^ 8) (?x AND 0xFF) XOR signed_drop_bit 8 crc
      = crc_ref_byte poly crc b XOR sign_fill crc"
    using crc_steps_8 [of poly ?x]
    by (simp only: crc_ref_byte_def signed_shift_8 drop_bit_8_byte xor.assoc)
  then show ?thesis
    by (simp only: crc32_byte_def tab_entry_32 option.map crc_code_byte_def)
qed

section \<open>The loop\<close>

lemma crc32_loop_32:
  "crc32_loop Size32 (crc_byte_table poly) (length p) crc p = Some (foldl (crc_code_byte poly) crc p)"
  by (induction p arbitrary: crc) (simp_all add: crc32_byte_32)

lemma crc32_loop_short: "length p < n \<Longrightarrow> crc32_loop Size32 (crc_byte_table poly) n crc p = None"
  by (induction Size32 "crc_byte_table poly" n crc p rule: crc32_loop.induct) (auto simp: crc32_byte_32)

lemma crc32_loop_append:
  "n \<le> length p \<Longrightarrow> crc32_loop arch tab n crc (p @ q) = crc32_loop arch tab n crc p"
  by (induction arch tab n crc p rule: crc32_loop.induct) (auto split: bind_splits)

lemma drv_crc32c_32:
  "length buf < 2 ^ 32 \<Longrightarrow>
     drv_crc32c Size32 crc buf (length buf) = Some (foldl (crc_code_byte CRC32C_POLY) crc buf)"
  unfolding drv_crc32c_def crc32_def by (simp only: unat_of_nat_32 crc32c_tab_eq [symmetric] crc32_loop_32)

text \<open>
  Where \<open>size_t\<close> has 64 bits, the table has half as many entries, and each of them is an even one of the real table.  The
  loop faults at the first byte that leads to an index from 128 on.
\<close>

fun wide_loop :: "u32 \<Rightarrow> u32 \<Rightarrow> byte list \<Rightarrow> u32 option" where
  "wide_loop poly crc [] = Some crc"
| "wide_loop poly crc (b # p) =
     (let i = unat ((crc XOR ucast b) AND 0xFF) in
      if i < 128 then wide_loop poly ((crc_step poly ^^ 8) (of_nat (2 * i)) XOR drop_bit 8 crc XOR sign_fill crc) p else None)"

lemma tab_entry_64: "tab_entry Size64 (crc_byte_table poly) i = (if i < 128 then Some ((crc_step poly ^^ 8) (of_nat (2 * i))) else None)"
  by (auto simp: tab_entry_def crc_byte_table_def simp del: of_nat_mult)

lemma crc32_loop_64: "crc32_loop Size64 (crc_byte_table poly) (length p) crc p = wide_loop poly crc p"
  by (induction p arbitrary: crc) (simp_all add: crc32_byte_def tab_entry_64 signed_shift_8 Let_def xor.assoc del: of_nat_mult)

text \<open>
  C14. Where \<open>size_t\<close> has 32 bits, the two routines reach a result on every buffer without a
  fault, and that result is the bitwise reference run over the bytes, except that every byte
  processed while the accumulator has its top bit set also flips the eight top bits (the
  arithmetic shift of the signed \<open>__u32\<close>).  Where it has 64 bits they look up every other remainder, and fault at the first
  byte whose index is 128 or more.
\<close>

theorem drv_crc32_equiv:
  assumes "length buf < 2 ^ 32"
  shows "drv_crc32 Size32 crc buf (length buf) = Some (foldl (crc_code_byte CRC32_POLY) crc buf)
     \<and> drv_crc32c Size32 crc buf (length buf) = Some (foldl (crc_code_byte CRC32C_POLY) crc buf)
     \<and> drv_crc32 Size64 crc buf (length buf) = wide_loop CRC32_POLY crc buf
     \<and> drv_crc32c Size64 crc buf (length buf) = wide_loop CRC32C_POLY crc buf"
  unfolding drv_crc32_def drv_crc32c_def crc32_def unat_of_nat_32 [OF assms]
    crc32_tab_eq [symmetric] crc32c_tab_eq [symmetric] crc32_loop_32 crc32_loop_64
  by (intro conjI refl)

text \<open>The bytes 1 and 200 have a checksum on 32 bits; on 64 bits the byte 200 leads outside the table.\<close>

theorem drv_crc32_equiv_witness:
  "drv_crc32 Size32 0 [1, 200] (length [1 :: byte, 200])
     = Some (crc_code_byte CRC32_POLY (crc_code_byte CRC32_POLY 0 1) 200)
   \<and> drv_crc32 Size64 0 [200] (length [200 :: byte]) = None"
  using drv_crc32_equiv [of "[1, 200]" 0] drv_crc32_equiv [of "[200]" 0] by simp

text \<open>A checksum over a split buffer is the checksum of the second part started from the first.\<close>

lemma crc_code_append:
  "foldl (crc_code_byte poly) crc (a @ b) = foldl (crc_code_byte poly) (foldl (crc_code_byte poly) crc a) b"
  by simp

section \<open>Where the code and the standard differ\<close>

lemma crc_code_byte_eval:
  "crc_code_byte poly crc b = (crc_step poly ^^ 8) (crc XOR ucast b) XOR sign_fill crc"
  by (simp add: crc_code_byte_def crc_ref_byte_def)

text \<open>
  The check value of CRC-32C over the nine digits is \<open>0xe3069283\<close> (accumulator started at and
  finished with the complement): the reference has it, the routine does not.
\<close>

lemma crc32c_check_reference:
  "foldl (crc_ref_byte CRC32C_POLY) 0xffffffff [0x31, 0x32, 0x33, 0x34, 0x35, 0x36, 0x37, 0x38, 0x39]
     = NOT 0xe3069283"
  by (simp add: crc_ref_byte_def funpow_8 crc_step_eval CRC32C_POLY_def)

lemma crc32c_check_code:
  "foldl (crc_code_byte CRC32C_POLY) 0xffffffff [0x31, 0x32, 0x33, 0x34, 0x35, 0x36, 0x37, 0x38, 0x39]
     \<noteq> NOT 0xe3069283"
  by (simp add: crc_code_byte_eval funpow_8 crc_step_eval CRC32C_POLY_def sign_fill_def)

lemma drv_crc32c_check_differs:
  "drv_crc32c Size32 0xffffffff [0x31, 0x32, 0x33, 0x34, 0x35, 0x36, 0x37, 0x38, 0x39] 9
     \<noteq> Some (NOT 0xe3069283)"
proof -
  let ?buf = "[0x31, 0x32, 0x33, 0x34, 0x35, 0x36, 0x37, 0x38, 0x39] :: byte list"
  have n: "length ?buf = 9" by simp
  have "unat (of_nat 9 :: u32) = length ?buf" by simp
  then have "drv_crc32c Size32 0xffffffff ?buf 9 = Some (foldl (crc_code_byte CRC32C_POLY) 0xffffffff ?buf)"
    unfolding drv_crc32c_def crc32_def crc32c_tab_eq [symmetric] by (simp only: crc32_loop_32)
  then show ?thesis using crc32c_check_code by (simp only: option.inject not_False_eq_True)
qed

text \<open>So a block whose first byte has a large index has no checksum on 64 bits.\<close>

lemma crc32_64bit_faults:
  assumes "length (b # buf) < 2 ^ 32" "128 \<le> unat ((crc XOR ucast b) AND 0xFF)"
  shows "drv_crc32c Size64 crc (b # buf) (length (b # buf)) = None"
  unfolding drv_crc32c_def crc32_def unat_of_nat_32 [OF assms(1)] crc32c_tab_eq [symmetric] crc32_loop_64
  using assms(2) by (simp add: Let_def)

end
