(* ===== verification/Drv_Tree.thy ===== *)
theory Drv_Tree
  imports Prelude "HOL-Library.Tree"
begin

text \<open>
  \<open>include/drv_common/drv_tree.h\<close>: the red-black trees that the \<open>RB_*\<close> macros generate.

  The code works on nodes linked by pointers, so the model is a heap: \<open>mem\<close> maps the address
  of a node to its \<open>RB_ENTRY\<close> fields and its payload \<open>elm\<close>, and \<open>rbh_root\<close> is the head's only
  field.  A null pointer is \<open>None\<close>.  Following a null pointer or one to a freed node is a
  fault, and a pointer walk over a cyclic structure would not end; both are the value
  \<open>None\<close> of a function, and every lemma below that says \<open>= Some r\<close> excludes both.
  \<open>cmp\<close> is the comparison the macros are instantiated with.  \<open>RB_AUGMENT\<close> is left at its default,
  which does nothing.
\<close>

section \<open>Nodes and fields\<close>

datatype rb_color = RB_BLACK | RB_RED

record 'a rb_node =
  rbe_left :: "ptr option"
  rbe_right :: "ptr option"
  rbe_parent :: "ptr option"
  rbe_color :: rb_color
  elm :: 'a

record 'a rb_table =
  rbh_root :: "ptr option"
  mem :: "ptr \<rightharpoonup> 'a rb_node"

definition RB_INIT :: "'a rb_table \<Rightarrow> 'a rb_table" where
  "RB_INIT h = h\<lparr>rbh_root := None\<rparr>"

definition RB_EMPTY :: "'a rb_table \<Rightarrow> bool" where
  "RB_EMPTY h \<longleftrightarrow> rbh_root h = None"

definition RB_LEFT :: "'a rb_table \<Rightarrow> ptr option \<Rightarrow> ptr option option" where
  "RB_LEFT h p = map_option rbe_left (deref (mem h) p)"

definition RB_RIGHT :: "'a rb_table \<Rightarrow> ptr option \<Rightarrow> ptr option option" where
  "RB_RIGHT h p = map_option rbe_right (deref (mem h) p)"

definition RB_PARENT :: "'a rb_table \<Rightarrow> ptr option \<Rightarrow> ptr option option" where
  "RB_PARENT h p = map_option rbe_parent (deref (mem h) p)"

definition RB_COLOR :: "'a rb_table \<Rightarrow> ptr option \<Rightarrow> rb_color option" where
  "RB_COLOR h p = map_option rbe_color (deref (mem h) p)"

definition RB_ELM :: "'a rb_table \<Rightarrow> ptr option \<Rightarrow> 'a option" where
  "RB_ELM h p = map_option elm (deref (mem h) p)"

text \<open>Assignments to the fields.\<close>

definition upd_node :: "'a rb_table \<Rightarrow> ptr option \<Rightarrow> ('a rb_node \<Rightarrow> 'a rb_node) \<Rightarrow> 'a rb_table option" where
  "upd_node h p f = map_option (\<lambda>m. h\<lparr>mem := m\<rparr>) (modify (mem h) p f)"

definition set_left :: "'a rb_table \<Rightarrow> ptr option \<Rightarrow> ptr option \<Rightarrow> 'a rb_table option" where
  "set_left h p v = upd_node h p (\<lambda>n. n\<lparr>rbe_left := v\<rparr>)"

definition set_right :: "'a rb_table \<Rightarrow> ptr option \<Rightarrow> ptr option \<Rightarrow> 'a rb_table option" where
  "set_right h p v = upd_node h p (\<lambda>n. n\<lparr>rbe_right := v\<rparr>)"

definition set_parent :: "'a rb_table \<Rightarrow> ptr option \<Rightarrow> ptr option \<Rightarrow> 'a rb_table option" where
  "set_parent h p v = upd_node h p (\<lambda>n. n\<lparr>rbe_parent := v\<rparr>)"

definition set_color :: "'a rb_table \<Rightarrow> ptr option \<Rightarrow> rb_color \<Rightarrow> 'a rb_table option" where
  "set_color h p v = upd_node h p (\<lambda>n. n\<lparr>rbe_color := v\<rparr>)"

definition set_elm :: "'a rb_table \<Rightarrow> ptr option \<Rightarrow> ('a \<Rightarrow> 'a) \<Rightarrow> 'a rb_table option" where
  "set_elm h p f = upd_node h p (\<lambda>n. n\<lparr>elm := f (elm n)\<rparr>)"

definition RB_SET :: "'a rb_table \<Rightarrow> ptr option \<Rightarrow> ptr option \<Rightarrow> 'a rb_table option" where
  "RB_SET h p parent = do {
     h \<leftarrow> set_parent h p parent;
     h \<leftarrow> set_right h p None;
     h \<leftarrow> set_left h p None;
     set_color h p RB_RED }"

definition RB_SET_BLACKRED :: "'a rb_table \<Rightarrow> ptr option \<Rightarrow> ptr option \<Rightarrow> 'a rb_table option" where
  "RB_SET_BLACKRED h black red = do {
     h \<leftarrow> set_color h black RB_BLACK;
     set_color h red RB_RED }"

text \<open>The child slot of \<open>parent\<close> that held \<open>old\<close>, or the root, is made to hold \<open>new\<close>.\<close>

definition replace_child :: "'a rb_table \<Rightarrow> ptr option \<Rightarrow> ptr option \<Rightarrow> ptr option \<Rightarrow> 'a rb_table option" where
  "replace_child h parent old new =
     (if parent \<noteq> None then do {
        l \<leftarrow> RB_LEFT h parent;
        if l = old then set_left h parent new else set_right h parent new }
      else Some (h\<lparr>rbh_root := new\<rparr>))"

definition RB_ROTATE_LEFT :: "'a rb_table \<Rightarrow> ptr option \<Rightarrow> 'a rb_table option" where
  "RB_ROTATE_LEFT h x = do {
     tmp \<leftarrow> RB_RIGHT h x;
     tl \<leftarrow> RB_LEFT h tmp;
     h \<leftarrow> set_right h x tl;
     h \<leftarrow> (if tl \<noteq> None then set_parent h tl x else Some h);
     xp \<leftarrow> RB_PARENT h x;
     h \<leftarrow> set_parent h tmp xp;
     h \<leftarrow> replace_child h xp x tmp;
     h \<leftarrow> set_left h tmp x;
     set_parent h x tmp }"

definition RB_ROTATE_RIGHT :: "'a rb_table \<Rightarrow> ptr option \<Rightarrow> 'a rb_table option" where
  "RB_ROTATE_RIGHT h x = do {
     tmp \<leftarrow> RB_LEFT h x;
     tr \<leftarrow> RB_RIGHT h tmp;
     h \<leftarrow> set_left h x tr;
     h \<leftarrow> (if tr \<noteq> None then set_parent h tr x else Some h);
     xp \<leftarrow> RB_PARENT h x;
     h \<leftarrow> set_parent h tmp xp;
     h \<leftarrow> replace_child h xp x tmp;
     h \<leftarrow> set_right h tmp x;
     set_parent h x tmp }"

section \<open>Searching\<close>

partial_function (option) rb_find_loop :: "('a \<Rightarrow> 'a \<Rightarrow> int) \<Rightarrow> 'a rb_table \<Rightarrow> 'a \<Rightarrow> ptr option \<Rightarrow> ptr option option" where
  "rb_find_loop cmp h x tmp =
     (if tmp = None then Some None
      else do {
        e \<leftarrow> RB_ELM h tmp;
        if cmp x e < 0 then do { l \<leftarrow> RB_LEFT h tmp; rb_find_loop cmp h x l }
        else if cmp x e > 0 then do { r \<leftarrow> RB_RIGHT h tmp; rb_find_loop cmp h x r }
        else Some tmp })"

definition RB_FIND :: "('a \<Rightarrow> 'a \<Rightarrow> int) \<Rightarrow> 'a rb_table \<Rightarrow> 'a \<Rightarrow> ptr option option" where
  "RB_FIND cmp h x = rb_find_loop cmp h x (rbh_root h)"

partial_function (option) rb_nfind_loop :: "('a \<Rightarrow> 'a \<Rightarrow> int) \<Rightarrow> 'a rb_table \<Rightarrow> 'a \<Rightarrow> ptr option \<Rightarrow> ptr option \<Rightarrow> ptr option option" where
  "rb_nfind_loop cmp h x tmp res =
     (if tmp = None then Some res
      else do {
        e \<leftarrow> RB_ELM h tmp;
        if cmp x e < 0 then do { l \<leftarrow> RB_LEFT h tmp; rb_nfind_loop cmp h x l tmp }
        else if cmp x e > 0 then do { r \<leftarrow> RB_RIGHT h tmp; rb_nfind_loop cmp h x r res }
        else Some tmp })"

definition RB_NFIND :: "('a \<Rightarrow> 'a \<Rightarrow> int) \<Rightarrow> 'a rb_table \<Rightarrow> 'a \<Rightarrow> ptr option option" where
  "RB_NFIND cmp h x = rb_nfind_loop cmp h x (rbh_root h) None"

text \<open>\<open>RB_MINMAX\<close>: the end of the left spine for a negative \<open>val\<close>, else of the right spine.\<close>

partial_function (option) rb_minmax_loop :: "'a rb_table \<Rightarrow> int \<Rightarrow> ptr option \<Rightarrow> ptr option \<Rightarrow> ptr option option" where
  "rb_minmax_loop h val tmp parent =
     (if tmp = None then Some parent
      else do {
        t \<leftarrow> (if val < 0 then RB_LEFT h tmp else RB_RIGHT h tmp);
        rb_minmax_loop h val t tmp })"

definition RB_MINMAX :: "'a rb_table \<Rightarrow> int \<Rightarrow> ptr option option" where
  "RB_MINMAX h val = rb_minmax_loop h val (rbh_root h) None"

definition RB_MIN :: "'a rb_table \<Rightarrow> ptr option option" where
  "RB_MIN h = RB_MINMAX h (- 1)"

definition RB_MAX :: "'a rb_table \<Rightarrow> ptr option option" where
  "RB_MAX h = RB_MINMAX h 1"

section \<open>Walking in order\<close>

partial_function (option) rb_leftmost :: "'a rb_table \<Rightarrow> ptr option \<Rightarrow> ptr option option" where
  "rb_leftmost h x = do {
     l \<leftarrow> RB_LEFT h x;
     if l \<noteq> None then rb_leftmost h l else Some x }"

partial_function (option) rb_rightmost :: "'a rb_table \<Rightarrow> ptr option \<Rightarrow> ptr option option" where
  "rb_rightmost h x = do {
     r \<leftarrow> RB_RIGHT h x;
     if r \<noteq> None then rb_rightmost h r else Some x }"

text \<open>\<open>while (parent && elm == right(parent)) elm = parent\<close>, then the parent of that.\<close>

partial_function (option) rb_up_from_right :: "'a rb_table \<Rightarrow> ptr option \<Rightarrow> ptr option option" where
  "rb_up_from_right h x = do {
     p \<leftarrow> RB_PARENT h x;
     if p = None then Some None
     else do { r \<leftarrow> RB_RIGHT h p; if x = r then rb_up_from_right h p else Some p } }"

partial_function (option) rb_up_from_left :: "'a rb_table \<Rightarrow> ptr option \<Rightarrow> ptr option option" where
  "rb_up_from_left h x = do {
     p \<leftarrow> RB_PARENT h x;
     if p = None then Some None
     else do { l \<leftarrow> RB_LEFT h p; if x = l then rb_up_from_left h p else Some p } }"

definition RB_NEXT :: "'a rb_table \<Rightarrow> ptr option \<Rightarrow> ptr option option" where
  "RB_NEXT h x = do {
     r \<leftarrow> RB_RIGHT h x;
     if r \<noteq> None then rb_leftmost h r
     else do {
       p \<leftarrow> RB_PARENT h x;
       pl \<leftarrow> (if p \<noteq> None then RB_LEFT h p else Some None);
       if p \<noteq> None \<and> x = pl then Some p else rb_up_from_right h x } }"

definition RB_PREV :: "'a rb_table \<Rightarrow> ptr option \<Rightarrow> ptr option option" where
  "RB_PREV h x = do {
     l \<leftarrow> RB_LEFT h x;
     if l \<noteq> None then rb_rightmost h l
     else do {
       p \<leftarrow> RB_PARENT h x;
       pr \<leftarrow> (if p \<noteq> None then RB_RIGHT h p else Some None);
       if p \<noteq> None \<and> x = pr then Some p else rb_up_from_left h x } }"

text \<open>
  The loops of the \<open>RB_FOREACH\<close> macros around a statement \<open>body\<close> that works on the state \<open>s\<close> of the
  program, in which the table is \<open>tab s\<close>.  The plain ones ask for the neighbour of a node after the body has run
  on it, the others (\<open>_FROM\<close> and \<open>_SAFE\<close>) before.  \<open>step\<close> is \<open>RB_NEXT\<close> or \<open>RB_PREV\<close>.
\<close>

partial_function (option) rb_walk :: "('a rb_table \<Rightarrow> ptr option \<Rightarrow> ptr option option) \<Rightarrow> ('s \<Rightarrow> 'a rb_table)
    \<Rightarrow> (ptr \<Rightarrow> 's \<Rightarrow> 's option) \<Rightarrow> ptr option \<Rightarrow> 's \<Rightarrow> 's option" where
  "rb_walk step tab body x s =
     (case x of
        None \<Rightarrow> Some s
      | Some a \<Rightarrow> do { s \<leftarrow> body a s; x \<leftarrow> step (tab s) x; rb_walk step tab body x s })"

partial_function (option) rb_walk_safe :: "('a rb_table \<Rightarrow> ptr option \<Rightarrow> ptr option option) \<Rightarrow> ('s \<Rightarrow> 'a rb_table)
    \<Rightarrow> (ptr \<Rightarrow> 's \<Rightarrow> 's option) \<Rightarrow> ptr option \<Rightarrow> 's \<Rightarrow> 's option" where
  "rb_walk_safe step tab body x s =
     (case x of
        None \<Rightarrow> Some s
      | Some a \<Rightarrow> do { y \<leftarrow> step (tab s) x; s \<leftarrow> body a s; rb_walk_safe step tab body y s })"

definition RB_FOREACH :: "('s \<Rightarrow> 'a rb_table) \<Rightarrow> (ptr \<Rightarrow> 's \<Rightarrow> 's option) \<Rightarrow> 's \<Rightarrow> 's option" where
  "RB_FOREACH tab body s = do { x \<leftarrow> RB_MIN (tab s); rb_walk RB_NEXT tab body x s }"

definition RB_FOREACH_FROM :: "('s \<Rightarrow> 'a rb_table) \<Rightarrow> (ptr \<Rightarrow> 's \<Rightarrow> 's option) \<Rightarrow> ptr option \<Rightarrow> 's \<Rightarrow> 's option" where
  "RB_FOREACH_FROM tab body y s = rb_walk_safe RB_NEXT tab body y s"

definition RB_FOREACH_SAFE :: "('s \<Rightarrow> 'a rb_table) \<Rightarrow> (ptr \<Rightarrow> 's \<Rightarrow> 's option) \<Rightarrow> 's \<Rightarrow> 's option" where
  "RB_FOREACH_SAFE tab body s = do { x \<leftarrow> RB_MIN (tab s); rb_walk_safe RB_NEXT tab body x s }"

definition RB_FOREACH_REVERSE :: "('s \<Rightarrow> 'a rb_table) \<Rightarrow> (ptr \<Rightarrow> 's \<Rightarrow> 's option) \<Rightarrow> 's \<Rightarrow> 's option" where
  "RB_FOREACH_REVERSE tab body s = do { x \<leftarrow> RB_MAX (tab s); rb_walk RB_PREV tab body x s }"

definition RB_FOREACH_REVERSE_FROM :: "('s \<Rightarrow> 'a rb_table) \<Rightarrow> (ptr \<Rightarrow> 's \<Rightarrow> 's option) \<Rightarrow> ptr option \<Rightarrow> 's \<Rightarrow> 's option" where
  "RB_FOREACH_REVERSE_FROM tab body y s = rb_walk_safe RB_PREV tab body y s"

definition RB_FOREACH_REVERSE_SAFE :: "('s \<Rightarrow> 'a rb_table) \<Rightarrow> (ptr \<Rightarrow> 's \<Rightarrow> 's option) \<Rightarrow> 's \<Rightarrow> 's option" where
  "RB_FOREACH_REVERSE_SAFE tab body s = do { x \<leftarrow> RB_MAX (tab s); rb_walk_safe RB_PREV tab body x s }"

section \<open>Insertion\<close>

text \<open>
  One iteration of the loop of \<open>RB_INSERT_COLOR\<close>: the node \<open>x\<close> is red and so is its parent.  The
  two halves mirror each other.  The result holds the node the loop goes on with.
\<close>

definition rb_insert_fix_left :: "'a rb_table \<Rightarrow> ptr option \<Rightarrow> ptr option \<Rightarrow> ptr option \<Rightarrow> ('a rb_table \<times> ptr option) option" where
  "rb_insert_fix_left h x parent gparent = do {
    tmp \<leftarrow> RB_RIGHT h gparent;
    tc \<leftarrow> (if tmp \<noteq> None then RB_COLOR h tmp else Some RB_BLACK);
    if tmp \<noteq> None \<and> tc = RB_RED then do {
      h \<leftarrow> set_color h tmp RB_BLACK;
      h \<leftarrow> RB_SET_BLACKRED h parent gparent;
      Some (h, gparent) }
    else do {
      pr \<leftarrow> RB_RIGHT h parent;
      (h, parent, x) \<leftarrow> (if pr = x then do { h \<leftarrow> RB_ROTATE_LEFT h parent; Some (h, x, parent) }
                          else Some (h, parent, x));
      h \<leftarrow> RB_SET_BLACKRED h parent gparent;
      h \<leftarrow> RB_ROTATE_RIGHT h gparent;
      Some (h, x) } }"

definition rb_insert_fix_right :: "'a rb_table \<Rightarrow> ptr option \<Rightarrow> ptr option \<Rightarrow> ptr option \<Rightarrow> ('a rb_table \<times> ptr option) option" where
  "rb_insert_fix_right h x parent gparent = do {
    tmp \<leftarrow> RB_LEFT h gparent;
    tc \<leftarrow> (if tmp \<noteq> None then RB_COLOR h tmp else Some RB_BLACK);
    if tmp \<noteq> None \<and> tc = RB_RED then do {
      h \<leftarrow> set_color h tmp RB_BLACK;
      h \<leftarrow> RB_SET_BLACKRED h parent gparent;
      Some (h, gparent) }
    else do {
      pl \<leftarrow> RB_LEFT h parent;
      (h, parent, x) \<leftarrow> (if pl = x then do { h \<leftarrow> RB_ROTATE_RIGHT h parent; Some (h, x, parent) }
                          else Some (h, parent, x));
      h \<leftarrow> RB_SET_BLACKRED h parent gparent;
      h \<leftarrow> RB_ROTATE_LEFT h gparent;
      Some (h, x) } }"

definition rb_insert_fix :: "'a rb_table \<Rightarrow> ptr option \<Rightarrow> ptr option \<Rightarrow> ('a rb_table \<times> ptr option) option" where
  "rb_insert_fix h x parent = do {
     gparent \<leftarrow> RB_PARENT h parent;
     gl \<leftarrow> RB_LEFT h gparent;
     if parent = gl then rb_insert_fix_left h x parent gparent
     else rb_insert_fix_right h x parent gparent }"

partial_function (option) rb_insert_color_loop :: "'a rb_table \<Rightarrow> ptr option \<Rightarrow> 'a rb_table option" where
  "rb_insert_color_loop h x = do {
     parent \<leftarrow> RB_PARENT h x;
     pc \<leftarrow> (if parent \<noteq> None then RB_COLOR h parent else Some RB_BLACK);
     if parent \<noteq> None \<and> pc = RB_RED then do {
       r \<leftarrow> rb_insert_fix h x parent;
       rb_insert_color_loop (fst r) (snd r) }
     else Some h }"

definition RB_INSERT_COLOR :: "'a rb_table \<Rightarrow> ptr option \<Rightarrow> 'a rb_table option" where
  "RB_INSERT_COLOR h x = do {
     h \<leftarrow> rb_insert_color_loop h x;
     set_color h (rbh_root h) RB_BLACK }"

text \<open>
  The search of \<open>RB_INSERT\<close> ends at a node with the same key (\<open>Inl\<close>), or at the parent the new
  node is to hang under and the last comparison (\<open>Inr\<close>).
\<close>

partial_function (option) rb_insert_descend :: "('a \<Rightarrow> 'a \<Rightarrow> int) \<Rightarrow> 'a rb_table \<Rightarrow> 'a \<Rightarrow> ptr option \<Rightarrow> ptr option \<Rightarrow> int
    \<Rightarrow> (ptr option + ptr option \<times> int) option" where
  "rb_insert_descend cmp h x tmp parent cm =
     (if tmp = None then Some (Inr (parent, cm))
      else do {
        e \<leftarrow> RB_ELM h tmp;
        if cmp x e < 0 then do { l \<leftarrow> RB_LEFT h tmp; rb_insert_descend cmp h x l tmp (cmp x e) }
        else if cmp x e > 0 then do { r \<leftarrow> RB_RIGHT h tmp; rb_insert_descend cmp h x r tmp (cmp x e) }
        else Some (Inl tmp) })"

definition rb_insert_link :: "'a rb_table \<Rightarrow> ptr option \<Rightarrow> ptr option \<Rightarrow> int \<Rightarrow> 'a rb_table option" where
  "rb_insert_link h p parent cm = do {
     h \<leftarrow> RB_SET h p parent;
     (if parent \<noteq> None then (if cm < 0 then set_left h parent p else set_right h parent p)
      else Some (h\<lparr>rbh_root := p\<rparr>)) }"

definition RB_INSERT :: "('a \<Rightarrow> 'a \<Rightarrow> int) \<Rightarrow> 'a rb_table \<Rightarrow> ptr option \<Rightarrow> ('a rb_table \<times> ptr option) option" where
  "RB_INSERT cmp h p = do {
     x \<leftarrow> RB_ELM h p;
     r \<leftarrow> rb_insert_descend cmp h x (rbh_root h) None 0;
     (case r of
        Inl tmp \<Rightarrow> Some (h, tmp)
      | Inr (parent, cm) \<Rightarrow> do {
          h \<leftarrow> rb_insert_link h p parent cm;
          h \<leftarrow> RB_INSERT_COLOR h p;
          Some (h, None) }) }"

section \<open>Removal\<close>

definition null_or_black :: "'a rb_table \<Rightarrow> ptr option \<Rightarrow> bool option" where
  "null_or_black h p = (if p = None then Some True else map_option ((=) RB_BLACK) (RB_COLOR h p))"

text \<open>
  One iteration of the loop of \<open>RB_REMOVE_COLOR\<close>: the new heap, \<open>parent\<close> and \<open>elm\<close>, and
  whether the loop goes on (\<open>False\<close> is the \<open>break\<close>).
\<close>

definition rb_remove_fix_left :: "'a rb_table \<Rightarrow> ptr option \<Rightarrow> ('a rb_table \<times> ptr option \<times> ptr option \<times> bool) option" where
  "rb_remove_fix_left h parent = do {
    tmp \<leftarrow> RB_RIGHT h parent;
    tc \<leftarrow> RB_COLOR h tmp;
    (h, tmp) \<leftarrow> (if tc = RB_RED then do {
        h \<leftarrow> RB_SET_BLACKRED h tmp parent;
        h \<leftarrow> RB_ROTATE_LEFT h parent;
        tmp \<leftarrow> RB_RIGHT h parent;
        Some (h, tmp) }
      else Some (h, tmp));
    tl \<leftarrow> RB_LEFT h tmp;
    lb \<leftarrow> null_or_black h tl;
    tr \<leftarrow> RB_RIGHT h tmp;
    rb \<leftarrow> null_or_black h tr;
    if lb \<and> rb then do {
      h \<leftarrow> set_color h tmp RB_RED;
      pp \<leftarrow> RB_PARENT h parent;
      Some (h, pp, parent, True) }
    else do {
      (h, tmp) \<leftarrow> (if rb then do {
          h \<leftarrow> (if tl \<noteq> None then set_color h tl RB_BLACK else Some h);
          h \<leftarrow> set_color h tmp RB_RED;
          h \<leftarrow> RB_ROTATE_RIGHT h tmp;
          tmp \<leftarrow> RB_RIGHT h parent;
          Some (h, tmp) }
        else Some (h, tmp));
      pc \<leftarrow> RB_COLOR h parent;
      h \<leftarrow> set_color h tmp pc;
      h \<leftarrow> set_color h parent RB_BLACK;
      tr \<leftarrow> RB_RIGHT h tmp;
      h \<leftarrow> (if tr \<noteq> None then set_color h tr RB_BLACK else Some h);
      h \<leftarrow> RB_ROTATE_LEFT h parent;
      Some (h, parent, rbh_root h, False) } }"

definition rb_remove_fix_right :: "'a rb_table \<Rightarrow> ptr option \<Rightarrow> ('a rb_table \<times> ptr option \<times> ptr option \<times> bool) option" where
  "rb_remove_fix_right h parent = do {
    tmp \<leftarrow> RB_LEFT h parent;
    tc \<leftarrow> RB_COLOR h tmp;
    (h, tmp) \<leftarrow> (if tc = RB_RED then do {
        h \<leftarrow> RB_SET_BLACKRED h tmp parent;
        h \<leftarrow> RB_ROTATE_RIGHT h parent;
        tmp \<leftarrow> RB_LEFT h parent;
        Some (h, tmp) }
      else Some (h, tmp));
    tl \<leftarrow> RB_LEFT h tmp;
    lb \<leftarrow> null_or_black h tl;
    tr \<leftarrow> RB_RIGHT h tmp;
    rb \<leftarrow> null_or_black h tr;
    if lb \<and> rb then do {
      h \<leftarrow> set_color h tmp RB_RED;
      pp \<leftarrow> RB_PARENT h parent;
      Some (h, pp, parent, True) }
    else do {
      (h, tmp) \<leftarrow> (if lb then do {
          h \<leftarrow> (if tr \<noteq> None then set_color h tr RB_BLACK else Some h);
          h \<leftarrow> set_color h tmp RB_RED;
          h \<leftarrow> RB_ROTATE_LEFT h tmp;
          tmp \<leftarrow> RB_LEFT h parent;
          Some (h, tmp) }
        else Some (h, tmp));
      pc \<leftarrow> RB_COLOR h parent;
      h \<leftarrow> set_color h tmp pc;
      h \<leftarrow> set_color h parent RB_BLACK;
      tl \<leftarrow> RB_LEFT h tmp;
      h \<leftarrow> (if tl \<noteq> None then set_color h tl RB_BLACK else Some h);
      h \<leftarrow> RB_ROTATE_RIGHT h parent;
      Some (h, parent, rbh_root h, False) } }"

definition rb_remove_fix :: "'a rb_table \<Rightarrow> ptr option \<Rightarrow> ptr option \<Rightarrow> ('a rb_table \<times> ptr option \<times> ptr option \<times> bool) option" where
  "rb_remove_fix h parent x = do {
     l \<leftarrow> RB_LEFT h parent;
     if l = x then rb_remove_fix_left h parent else rb_remove_fix_right h parent }"

partial_function (option) rb_remove_color_loop :: "'a rb_table \<Rightarrow> ptr option \<Rightarrow> ptr option \<Rightarrow> ('a rb_table \<times> ptr option) option" where
  "rb_remove_color_loop h parent x = do {
     b \<leftarrow> null_or_black h x;
     if b \<and> x \<noteq> rbh_root h then do {
       r \<leftarrow> rb_remove_fix h parent x;
       if snd (snd (snd r)) then rb_remove_color_loop (fst r) (fst (snd r)) (fst (snd (snd r)))
       else Some (fst r, fst (snd (snd r))) }
     else Some (h, x) }"

definition RB_REMOVE_COLOR :: "'a rb_table \<Rightarrow> ptr option \<Rightarrow> ptr option \<Rightarrow> 'a rb_table option" where
  "RB_REMOVE_COLOR h parent x = do {
     r \<leftarrow> rb_remove_color_loop h parent x;
     (if snd r \<noteq> None then set_color (fst r) (snd r) RB_BLACK else Some (fst r)) }"

text \<open>
  A node with two children is replaced by its in-order successor, which is unlinked first; the
  result is the heap, the parent and the child of the place that lost a node, and its color.
\<close>

definition rb_unlink_successor :: "'a rb_table \<Rightarrow> ptr option \<Rightarrow> ('a rb_table \<times> ptr option \<times> ptr option \<times> rb_color) option" where
  "rb_unlink_successor h old = do {
     r \<leftarrow> RB_RIGHT h old;
     x \<leftarrow> rb_leftmost h r;
     child \<leftarrow> RB_RIGHT h x;
     parent \<leftarrow> RB_PARENT h x;
     color \<leftarrow> RB_COLOR h x;
     h \<leftarrow> (if child \<noteq> None then set_parent h child parent else Some h);
     h \<leftarrow> replace_child h parent x child;
     xp \<leftarrow> RB_PARENT h x;
     parent \<leftarrow> Some (if xp = old then x else parent);
     fields \<leftarrow> deref (mem h) old;
     h \<leftarrow> upd_node h x (\<lambda>n. n\<lparr>rbe_left := rbe_left fields, rbe_right := rbe_right fields,
            rbe_parent := rbe_parent fields, rbe_color := rbe_color fields\<rparr>);
     oldp \<leftarrow> RB_PARENT h old;
     h \<leftarrow> replace_child h oldp old x;
     oldl \<leftarrow> RB_LEFT h old;
     h \<leftarrow> set_parent h oldl x;
     oldr \<leftarrow> RB_RIGHT h old;
     h \<leftarrow> (if oldr \<noteq> None then set_parent h oldr x else Some h);
     Some (h, parent, child, color) }"

definition rb_unlink_one_child :: "'a rb_table \<Rightarrow> ptr option \<Rightarrow> ptr option \<Rightarrow> ('a rb_table \<times> ptr option \<times> ptr option \<times> rb_color) option" where
  "rb_unlink_one_child h x child = do {
     parent \<leftarrow> RB_PARENT h x;
     color \<leftarrow> RB_COLOR h x;
     h \<leftarrow> (if child \<noteq> None then set_parent h child parent else Some h);
     h \<leftarrow> replace_child h parent x child;
     Some (h, parent, child, color) }"

definition RB_REMOVE :: "'a rb_table \<Rightarrow> ptr option \<Rightarrow> 'a rb_table option" where
  "RB_REMOVE h x = do {
     l \<leftarrow> RB_LEFT h x;
     r \<leftarrow> RB_RIGHT h x;
     u \<leftarrow> (if l = None then rb_unlink_one_child h x r
          else if r = None then rb_unlink_one_child h x l
          else rb_unlink_successor h x);
     (case u of (h, parent, child, color) \<Rightarrow>
        if color = RB_BLACK then RB_REMOVE_COLOR h parent child else Some h) }"

text \<open>The loops are executable by their equations.\<close>

declare rb_find_loop.simps [code]
declare rb_nfind_loop.simps [code]
declare rb_minmax_loop.simps [code]
declare rb_leftmost.simps [code]
declare rb_rightmost.simps [code]
declare rb_up_from_right.simps [code]
declare rb_up_from_left.simps [code]
declare rb_walk.simps [code]
declare rb_walk_safe.simps [code]
declare rb_insert_color_loop.simps [code]
declare rb_insert_descend.simps [code]
declare rb_remove_color_loop.simps [code]

end
