(* ===== verification/Jbd2_Types.thy ===== *)
theory Jbd2_Types
  imports Jbd2_Fs Nt_Status Drv_Atomic Drv_Crc32 Drv_Tree
begin

text \<open>
  \<open>include/jbd2/jbd2.h\<close>: the in-memory state of the journal driver, and the environment it runs
  in.

  No function under \<open>src/\<close> reads or writes the transactions yet; the handle keeps pointers to them.
  Lists of the NT kernel (\<open>LIST_ENTRY\<close>) are Isabelle lists of addresses; the nodes that chain an
  object into a list, and the locks, which \<open>Drv_Lock\<close> models, are not fields here.
\<close>

section \<open>Table entries\<close>

type_synonym jbd2_logblk_t = u32
type_synonym jbd2_fsblk_t = u64
type_synonym jbd2_tid_t = u32

datatype jbd2_node_type = JBD2_NODE_LBCB | JBD2_NODE_REVOKE

record jbd2_node_hdr =
  th_node_type :: jbd2_node_type
  th_block :: jbd2_fsblk_t
  th_newly :: bool
  th_refcount :: atomic

record jbd2_lbcb =
  jl_header :: jbd2_node_hdr
  jl_is_new :: bool
  jl_bcb :: "ptr option"
  jl_data :: "ptr option"
  jl_txn :: "ptr option"
  jl_cp_txn :: "ptr option"

record jbd2_revoke_entry =
  re_header :: jbd2_node_hdr
  re_is_new :: bool
  re_tid :: jbd2_tid_t

section \<open>Transactions\<close>

datatype jbd2_txn_state = TXN_RUNNING | TXN_LOCKED | TXN_COMMITTING | TXN_CHECKPOINT

record jbd2_txn =
  jt_tid :: jbd2_tid_t
  jt_start_blk :: jbd2_logblk_t
  jt_reserved_cnt :: jbd2_logblk_t
  jt_logged_cnt :: atomic
  jt_state :: jbd2_txn_state
  jt_lbcb_list :: "ptr list"
  jt_unwritten_cnt :: atomic
  jt_handle :: "ptr option"

record jbd2_txn_handle =
  th_uuid :: "u8 list"
  th_reserved_cnt :: jbd2_logblk_t
  th_txn :: "ptr option"

section \<open>The log handle\<close>

text \<open>
  The tables hold the entries, whose first member is the header with the tree links.

  The feature predicates are declared for a superblock, and \<open>jbd2.c\<close> calls them with the handle.
  A pointer is passed, so they read the handle's memory as if it were a superblock; where in the
  handle those bytes lie depends on the kernel's \<open>FAST_MUTEX\<close>.  \<open>jh_as_superblock\<close> is what they
  read there.  Nothing below assumes that it equals \<open>jh_sb\<close>.
\<close>

record jbd2_handle =
  jh_as_superblock :: journal_superblock
  jh_log_file :: ptr
  jh_client_file :: ptr
  jh_csum_seed :: u32
  jh_blocksize :: u32
  jh_blockcnt :: u32
  jh_uuid :: "u8 list"
  jh_max_txn :: u32
  jh_running_txn :: "ptr option"
  jh_txn_queue :: "ptr list"
  jh_start :: jbd2_logblk_t
  jh_end :: jbd2_logblk_t
  jh_free_start :: jbd2_logblk_t
  jh_free_end :: jbd2_logblk_t
  jh_free_blockcnt :: jbd2_logblk_t
  jh_sb :: journal_superblock
  jh_lbcb_table :: "jbd2_lbcb rb_table"
  jh_revoke_table :: "jbd2_revoke_entry rb_table"

section \<open>The environment\<close>

text \<open>
  What the code relies on and \<open>src/\<close> does not define: the width of \<open>size_t\<close>, the function
  \<open>jbd2_has_csum_v2or3\<close> (called, never defined), the cache manager (\<open>CcPinRead\<close> on the log file
  yields the bytes at an offset or fails; \<open>CcPreparePinWrite\<close> on the client file succeeds or
  fails), and the look-aside lists (a free address and the stale object found there, or failure).
\<close>

record jbd2_env =
  size_t_bits :: size_t_width
  jbd2_has_csum_v2or3 :: "jbd2_handle \<Rightarrow> bool"
  CcPinRead_log :: "s64 \<Rightarrow> byte list option"
  CcPreparePinWrite_client :: "s64 \<Rightarrow> bool"
  alloc_lbcb :: "(ptr \<rightharpoonup> jbd2_lbcb rb_node) \<Rightarrow> (ptr \<times> jbd2_lbcb rb_node) option"
  alloc_revoke :: "(ptr \<rightharpoonup> jbd2_revoke_entry rb_node) \<Rightarrow> (ptr \<times> jbd2_revoke_entry rb_node) option"

section \<open>An example\<close>

text \<open>
  A handle and an environment to instantiate properties with: a version 2 superblock with the
  given incompatible features, a log of \<open>n\<close> blocks of \<open>bs\<close> bytes whose contents are \<open>log\<close>, and
  empty tables.
\<close>

definition example_superblock :: "u32 \<Rightarrow> u32 \<Rightarrow> u32 \<Rightarrow> journal_superblock" where
  "example_superblock features bs n =
     \<lparr>s_header = \<lparr>h_magic = cpu_to_be32 JBD2_MAGIC_NUMBER, h_blocktype = cpu_to_be32 JBD2_SUPERBLOCK_V2,
        h_sequence = 0\<rparr>,
      s_blocksize = cpu_to_be32 bs, s_maxlen = cpu_to_be32 n, s_first = cpu_to_be32 1,
      s_sequence = cpu_to_be32 1, s_start = cpu_to_be32 1, s_errno = 0, s_feature_compat = 0,
      s_feature_incompat = cpu_to_be32 features, s_feature_ro_compat = 0, s_uuid = [], s_nr_users = 0,
      s_dynsuper = 0, s_max_transaction = 0, s_max_trans_data = 0, s_checksum_type = 0,
      s_padding2 = [], s_padding = [], s_checksum = 0, s_users = []\<rparr>"

definition example_handle :: "u32 \<Rightarrow> u32 \<Rightarrow> u32 \<Rightarrow> jbd2_handle" where
  "example_handle features bs n =
     \<lparr>jh_as_superblock = example_superblock features bs n, jh_log_file = 1, jh_client_file = 2,
      jh_csum_seed = 0, jh_blocksize = bs, jh_blockcnt = n, jh_uuid = [], jh_max_txn = 0,
      jh_running_txn = None, jh_txn_queue = [], jh_start = 1, jh_end = n - 1, jh_free_start = 1,
      jh_free_end = n - 1, jh_free_blockcnt = n - 1, jh_sb = example_superblock features bs n,
      jh_lbcb_table = \<lparr>rbh_root = None, mem = Map.empty\<rparr>,
      jh_revoke_table = \<lparr>rbh_root = None, mem = Map.empty\<rparr>\<rparr>"

definition example_env :: "bool \<Rightarrow> (s64 \<Rightarrow> byte list option) \<Rightarrow> jbd2_env" where
  "example_env csum log =
     \<lparr>size_t_bits = Size32, jbd2_has_csum_v2or3 = (\<lambda>_. csum), CcPinRead_log = log,
      CcPreparePinWrite_client = (\<lambda>_. True), alloc_lbcb = (\<lambda>_. None), alloc_revoke = (\<lambda>_. None)\<rparr>"

lemmas example_defs = example_superblock_def example_handle_def example_env_def

end
