(* ===== verification/Jbd2_Tags.thy ===== *)
theory Jbd2_Tags
  imports Jbd2_Types
begin

text \<open>
  \<open>jbd2/jbd2.c\<close>, lines 291 to 653: checksums, validity of metadata blocks, and the block tags
  of a descriptor block.

  A tag is given by the descriptor block's buffer and the tag's offset in it.  Every \<open>for\<close> loop
  over the tags of a descriptor block has the same head, modelled once by \<open>tag_for\<close>; its body is
  a function that goes on (\<open>Inr\<close>) or breaks (\<open>Inl\<close>).
\<close>

section \<open>Checksums\<close>

definition jbd2_crc32 :: "jbd2_env \<Rightarrow> u32 \<Rightarrow> byte list \<Rightarrow> nat \<Rightarrow> u32 option" where
  "jbd2_crc32 env crc buf bufsz = drv_crc32 (size_t_bits env) crc buf bufsz"

definition jbd2_crc32c :: "jbd2_env \<Rightarrow> u32 \<Rightarrow> byte list \<Rightarrow> nat \<Rightarrow> u32 option" where
  "jbd2_crc32c env crc buf bufsz = drv_crc32c (size_t_bits env) crc buf bufsz"

definition jbd2_chksum :: "jbd2_env \<Rightarrow> jbd2_handle \<Rightarrow> u32 \<Rightarrow> byte list \<Rightarrow> nat \<Rightarrow> u32 option" where
  "jbd2_chksum env handle crc buf bufsz = jbd2_crc32c env crc buf bufsz"

section \<open>Validity of blocks\<close>

definition jbd2_verify_metadata_block :: "journal_header \<Rightarrow> bool" where
  "jbd2_verify_metadata_block hdr =
     (if be32_to_cpu (h_magic hdr) \<noteq> JBD2_MAGIC_NUMBER then False
      else if be32_to_cpu (h_blocktype hdr) = 0 \<or> u32_lt JBD2_REVOKE_BLOCK (be32_to_cpu (h_blocktype hdr))
      then False else True)"

definition jbd2_verify_superblock :: "journal_superblock \<Rightarrow> bool" where
  "jbd2_verify_superblock sb =
     (if be32_to_cpu (h_magic (s_header sb)) \<noteq> JBD2_MAGIC_NUMBER then False
      else if be32_to_cpu (h_blocktype (s_header sb)) \<noteq> JBD2_SUPERBLOCK_V1 \<and>
        be32_to_cpu (h_blocktype (s_header sb)) \<noteq> JBD2_SUPERBLOCK_V2 then False
      else True)"

definition jbd2_features_supported :: "u32 \<Rightarrow> u32 \<Rightarrow> bool" where
  "jbd2_features_supported features known \<longleftrightarrow> be32_to_cpu features AND NOT known = 0"

text \<open>
  The three checks store 0 in the block's checksum field, compute the checksum and store the
  old value back.  The result is the verdict and the buffer.
\<close>

definition tail_offset :: "jbd2_handle \<Rightarrow> nat option" where
  "tail_offset handle = (if sint (jh_blocksize handle) < 4 then None
     else Some (nat (sint (jh_blocksize handle)) - sizeof_journal_block_tail))"

definition csum_verify_at :: "jbd2_env \<Rightarrow> jbd2_handle \<Rightarrow> nat \<Rightarrow> byte list \<Rightarrow> (bool \<times> byte list) option" where
  "csum_verify_at env handle field buf = do {
     provided \<leftarrow> (ld buf field :: u32 option);
     buf \<leftarrow> st buf field (0 :: u32);
     calculated \<leftarrow> jbd2_chksum env handle (jh_csum_seed handle) buf (unat (jh_blocksize handle));
     buf \<leftarrow> st buf field provided;
     Some (provided = cpu_to_be32 calculated, buf) }"

definition jbd2_descr_block_csum_verify :: "jbd2_env \<Rightarrow> jbd2_handle \<Rightarrow> byte list \<Rightarrow> (bool \<times> byte list) option" where
  "jbd2_descr_block_csum_verify env handle buf =
     (if \<not> jbd2_has_csum_v2or3 env handle then Some (True, buf)
      else do { tail \<leftarrow> tail_offset handle; csum_verify_at env handle tail buf })"

definition jbd2_verify_descr_block :: "jbd2_env \<Rightarrow> jbd2_handle \<Rightarrow> byte list \<Rightarrow> (bool \<times> byte list) option" where
  "jbd2_verify_descr_block env handle buf = do {
     hdr \<leftarrow> load_journal_header buf;
     if be32_to_cpu (h_magic hdr) \<noteq> JBD2_MAGIC_NUMBER then Some (False, buf)
     else jbd2_descr_block_csum_verify env handle buf }"

definition jbd2_commit_block_csum_verify :: "jbd2_env \<Rightarrow> jbd2_handle \<Rightarrow> byte list \<Rightarrow> (bool \<times> byte list) option" where
  "jbd2_commit_block_csum_verify env handle buf =
     (if \<not> jbd2_has_csum_v2or3 env handle then Some (True, buf)
      else csum_verify_at env handle commit_h_chksum_0_offset buf)"

definition jbd2_verify_commit_block :: "jbd2_env \<Rightarrow> jbd2_handle \<Rightarrow> byte list \<Rightarrow> (bool \<times> byte list) option" where
  "jbd2_verify_commit_block env handle buf = do {
     hdr \<leftarrow> load_journal_header buf;
     if be32_to_cpu (h_magic hdr) \<noteq> JBD2_MAGIC_NUMBER then Some (False, buf)
     else jbd2_commit_block_csum_verify env handle buf }"

definition jbd2_revoke_block_csum_verify :: "jbd2_env \<Rightarrow> jbd2_handle \<Rightarrow> byte list \<Rightarrow> (bool \<times> byte list) option" where
  "jbd2_revoke_block_csum_verify env handle buf =
     (if \<not> jbd2_has_csum_v2or3 env handle then Some (True, buf)
      else do { tail \<leftarrow> tail_offset handle; csum_verify_at env handle tail buf })"

definition jbd2_verify_revoke_block :: "jbd2_env \<Rightarrow> jbd2_handle \<Rightarrow> byte list \<Rightarrow> (bool \<times> byte list) option" where
  "jbd2_verify_revoke_block env handle buf = do {
     hdr \<leftarrow> load_journal_header buf;
     if be32_to_cpu (h_magic hdr) \<noteq> JBD2_MAGIC_NUMBER then Some (False, buf)
     else jbd2_revoke_block_csum_verify env handle buf }"

lemmas jbd2_verify_defs = jbd2_verify_descr_block_def jbd2_descr_block_csum_verify_def
  jbd2_verify_commit_block_def jbd2_commit_block_csum_verify_def
  jbd2_verify_revoke_block_def jbd2_revoke_block_csum_verify_def

section \<open>Block tags\<close>

definition jbd2_min_tag_size :: "jbd2_handle \<Rightarrow> nat" where
  "jbd2_min_tag_size handle =
     (if jbd2_has_feature_csum3 (jh_as_superblock handle) then sizeof_journal_block_tag3
      else let sz = sizeof_journal_block_tag;
               sz = (if jbd2_has_feature_csum2 (jh_as_superblock handle) then sz + 2 else sz)
           in if jbd2_has_feature_64bit (jh_as_superblock handle) then sz else sz - 4)"

text \<open>
  \<open>__u32\<close> is signed, so both halves are sign-extended on their way into the 64-bit number, and
  the high half is not shifted.
\<close>

definition jbd2_tag_blocknr :: "jbd2_handle \<Rightarrow> byte list \<Rightarrow> nat \<Rightarrow> jbd2_fsblk_t option" where
  "jbd2_tag_blocknr handle buf tagp = do {
     lo \<leftarrow> tag_t_blocknr buf tagp;
     let blocknr = u64_of_u32 (be32_to_cpu lo);
     if jbd2_has_feature_64bit (jh_as_superblock handle) then do {
       hi \<leftarrow> tag_t_blocknr_high buf tagp;
       Some (blocknr OR u64_of_u32 (be32_to_cpu hi)) }
     else Some blocknr }"

definition jbd2_revoke_entry_size :: "jbd2_handle \<Rightarrow> nat" where
  "jbd2_revoke_entry_size handle = (if jbd2_has_feature_64bit (jh_as_superblock handle) then 8 else 4)"

definition jbd2_revoke_entry_blocknr :: "jbd2_handle \<Rightarrow> byte list \<Rightarrow> nat \<Rightarrow> jbd2_fsblk_t option" where
  "jbd2_revoke_entry_blocknr handle buf entry =
     (if jbd2_has_feature_64bit (jh_as_superblock handle)
      then map_option be64_to_cpu (ld buf entry)
      else map_option (\<lambda>w. u64_of_u32 (be32_to_cpu w)) (ld buf entry))"

definition jbd2_test_flag :: "jbd2_handle \<Rightarrow> byte list \<Rightarrow> nat \<Rightarrow> 32 word \<Rightarrow> bool option" where
  "jbd2_test_flag handle buf tag flag =
     (if jbd2_has_feature_csum3 (jh_as_superblock handle)
      then map_option (\<lambda>f. be32_to_cpu f AND flag \<noteq> 0) (tag3_t_flags buf tag)
      else map_option (\<lambda>f. u32_of_u16 (be16_to_cpu f) AND flag \<noteq> 0) (tag_t_flags buf tag))"

definition jbd2_tag_size :: "jbd2_handle \<Rightarrow> byte list \<Rightarrow> nat \<Rightarrow> nat option" where
  "jbd2_tag_size handle buf tag = (let sz = jbd2_min_tag_size handle in
     if jbd2_has_feature_csum3 (jh_as_superblock handle) then do {
       f \<leftarrow> tag3_t_flags buf tag;
       Some (if be32_to_cpu f AND JBD2_FLAG_SAME_UUID = 0 then sz + UUID_SIZE else sz) }
     else do {
       f \<leftarrow> tag_t_flags buf tag;
       Some (if u32_of_u16 (be16_to_cpu f) AND JBD2_FLAG_SAME_UUID = 0 then sz + UUID_SIZE else sz) })"

definition jbd2_tag_csum :: "jbd2_handle \<Rightarrow> byte list \<Rightarrow> nat \<Rightarrow> u32 option" where
  "jbd2_tag_csum handle buf tag =
     (if jbd2_has_feature_csum3 (jh_as_superblock handle)
      then map_option be32_to_cpu (tag3_t_checksum buf tag)
      else map_option (\<lambda>c. u32_of_u16 (be16_to_cpu c)) (tag_t_checksum buf tag))"

lemma jbd2_min_tag_size_cases:
  "jbd2_min_tag_size handle \<in> {8, 10, 12, 14, 16}"
  by (simp add: jbd2_min_tag_size_def jbd2_sizeof_defs)

lemma jbd2_min_tag_size_bounds: "8 \<le> jbd2_min_tag_size handle" "jbd2_min_tag_size handle \<le> 16"
  using jbd2_min_tag_size_cases [of handle] by auto

lemma jbd2_min_tag_size_64bit:
  "jbd2_has_feature_64bit (jh_as_superblock handle) \<Longrightarrow> 12 \<le> jbd2_min_tag_size handle"
  by (simp add: jbd2_min_tag_size_def jbd2_sizeof_defs Let_def)

lemma jbd2_min_tag_size_csum3:
  "jbd2_has_feature_csum3 (jh_as_superblock handle) \<Longrightarrow> jbd2_min_tag_size handle = 16"
  by (simp add: jbd2_min_tag_size_def jbd2_sizeof_defs)

lemma jbd2_tag_size_ge: "jbd2_tag_size handle buf tagp = Some sz \<Longrightarrow> 8 \<le> sz"
  using jbd2_min_tag_size_bounds(1) [of handle]
  by (auto simp: jbd2_tag_size_def Let_def fault_simps split: if_splits)

text \<open>A tag whose minimal size lies in the buffer is read without leaving the buffer.\<close>

lemma tag_access_defined:
  assumes "tagp + jbd2_min_tag_size handle \<le> length buf"
  shows "\<exists>b. jbd2_tag_blocknr handle buf tagp = Some b" "\<exists>f. jbd2_test_flag handle buf tagp flag = Some f"
    "\<exists>sz. jbd2_tag_size handle buf tagp = Some sz" "\<exists>c. jbd2_tag_csum handle buf tagp = Some c"
  using assms jbd2_min_tag_size_bounds(1) [of handle] jbd2_min_tag_size_64bit [of handle]
    jbd2_min_tag_size_csum3 [of handle]
  by (auto simp: jbd2_tag_blocknr_def jbd2_test_flag_def jbd2_tag_size_def jbd2_tag_csum_def
      jbd2_tag_field_defs ld_def Let_def)

section \<open>The loop over the tags\<close>

definition tag_limit :: "jbd2_env \<Rightarrow> jbd2_handle \<Rightarrow> int" where
  "tag_limit env handle = sint (if jbd2_has_csum_v2or3 env handle
     then jh_blocksize handle - of_nat sizeof_journal_block_tail else jh_blocksize handle)"

function (sequential) tag_for :: "jbd2_handle \<Rightarrow> byte list \<Rightarrow> int \<Rightarrow> (nat \<Rightarrow> 32 word \<Rightarrow> 's \<Rightarrow> ('s + 's) option)
    \<Rightarrow> nat \<Rightarrow> 32 word \<Rightarrow> 's \<Rightarrow> (32 word \<times> 's) option" where
  "tag_for handle buf blocksize body tagp nr s =
     (if int tagp + int (jbd2_min_tag_size handle) \<le> blocksize then
        (case body tagp nr s of
           None \<Rightarrow> None
         | Some (Inl s') \<Rightarrow> Some (nr, s')
         | Some (Inr s') \<Rightarrow>
            (case jbd2_tag_size handle buf tagp of
               None \<Rightarrow> None
             | Some sz \<Rightarrow> tag_for handle buf blocksize body (tagp + sz) (nr + 1) s'))
      else Some (nr, s))"
  by pat_completeness auto
termination
proof (relation "measure (\<lambda>(handle, buf, blocksize, body, tagp, nr, s). nat (blocksize + 1 - int tagp))", goal_cases)
  case (2 handle buf blocksize body tagp nr s x b sz)
  then show ?case using jbd2_tag_size_ge [of handle buf tagp sz] by simp
qed simp

declare tag_for.simps [simp del]

definition jbd2_count_tags :: "jbd2_env \<Rightarrow> jbd2_handle \<Rightarrow> byte list \<Rightarrow> 32 word option" where
  "jbd2_count_tags env handle buf =
     map_option fst (tag_for handle buf (tag_limit env handle)
       (\<lambda>tag nr s. do {
          f \<leftarrow> jbd2_test_flag handle buf tag JBD2_FLAG_LAST_TAG;
          if f then Some (Inl s) else Some (Inr s) })
       sizeof_journal_header 0 ())"

section \<open>What the checks of a block decide\<close>

text \<open>The checksum of a block: the routine of \<open>drv_crc32.c\<close> over the block with the checksum field zeroed.\<close>

definition zero_field :: "nat \<Rightarrow> byte list \<Rightarrow> byte list" where
  "zero_field field buf = take field buf @ replicate 4 0 @ drop (field + 4) buf"

definition block_csum :: "u32 \<Rightarrow> nat \<Rightarrow> byte list \<Rightarrow> u32" where
  "block_csum seed field buf = foldl (crc_code_byte CRC32C_POLY) seed (zero_field field buf)"

lemma st_zero: "field + 4 \<le> length buf \<Longrightarrow> st buf field (0 :: u32) = Some (zero_field field buf)"
  by (simp add: st_def zero_field_def)

lemma length_zero_field: "field + 4 \<le> length buf \<Longrightarrow> length (zero_field field buf) = length buf"
  by (simp add: zero_field_def)

lemma csum_verify_at_correct:
  assumes "size_t_bits env = Size32" "length buf = unat (jh_blocksize handle)" "field + 4 \<le> length buf"
  shows "csum_verify_at env handle field buf =
    Some (word_of_be (take 4 (drop field buf)) = block_csum (jh_csum_seed handle) field buf, buf)"
proof -
  let ?z = "zero_field field buf"
  obtain p :: u32 where p: "ld buf field = Some p" "be32_to_cpu p = word_of_be (take 4 (drop field buf))"
    using be_field(2) [OF assms(3)] by (cases "ld buf field :: u32 option") auto
  have "unat (jh_blocksize handle) < 2 ^ LENGTH(32)" by (rule unsigned_less)
  then have "length ?z < 2 ^ 32" using assms(2) by (simp add: length_zero_field [OF assms(3)])
  from drv_crc32c_32 [OF this, of "jh_csum_seed handle"]
  have "jbd2_chksum env handle (jh_csum_seed handle) ?z (unat (jh_blocksize handle))
      = Some (block_csum (jh_csum_seed handle) field buf)"
    by (simp add: jbd2_chksum_def jbd2_crc32c_def assms(1) block_csum_def
        length_zero_field [OF assms(3)] flip: assms(2))
  moreover have "st ?z field p = Some buf"
    using st_restore [OF p(1) st_zero [OF assms(3)], of 4] by simp
  ultimately show ?thesis
    using p st_zero [OF assms(3)] by (simp add: csum_verify_at_def eq_cpu_to_be32_iff)
qed

text \<open>Whatever the checks decide, the buffer is the one they were given.\<close>

lemma csum_verify_at_restores:
  "csum_verify_at env handle field buf = Some (b, buf') \<Longrightarrow> buf' = buf"
  by (auto simp: csum_verify_at_def fault_simps dest: st_restore [where n = 4])

lemma verify_block_restores:
  "jbd2_verify_descr_block env handle buf = Some (b, buf') \<Longrightarrow> buf' = buf"
  "jbd2_verify_commit_block env handle buf = Some (b, buf') \<Longrightarrow> buf' = buf"
  "jbd2_verify_revoke_block env handle buf = Some (b, buf') \<Longrightarrow> buf' = buf"
  by (auto simp: jbd2_verify_defs fault_simps split: if_splits dest: csum_verify_at_restores)

lemma magic_field:
  assumes "12 \<le> length buf" "load_journal_header buf = Some hdr"
  shows "be32_to_cpu (h_magic hdr) = word_of_be (take 4 buf)"
  using assms be_field(2) [of 0 buf] by (auto simp: load_journal_header_def fault_simps)

text \<open>
  C29. With metadata checksums, and where \<open>size_t\<close> has 32 bits, a descriptor or revoke block (a commit block) is accepted
  exactly if its magic number is right and the big-endian word in its last four bytes (at offset 16)
  is what \<open>drv_crc32c\<close> computes of the block with that word zeroed: the division by the polynomial of CRC-32C with the sign bits (\<open>sign_fill\<close>),
  which is not the CRC-32C that the format asks for.  The buffer is left as it was.
\<close>

theorem jbd2_verify_blocks_correct:
  assumes "size_t_bits env = Size32" "jbd2_has_csum_v2or3 env handle"
    and "length buf = unat (jh_blocksize handle)" "20 \<le> sint (jh_blocksize handle)"
  defines "tail \<equiv> length buf - 4"
  shows "jbd2_verify_descr_block env handle buf = Some (word_of_be (take 4 buf) = JBD2_MAGIC_NUMBER
           \<and> word_of_be (take 4 (drop tail buf)) = block_csum (jh_csum_seed handle) tail buf, buf)
       \<and> jbd2_verify_revoke_block env handle buf = Some (word_of_be (take 4 buf) = JBD2_MAGIC_NUMBER
           \<and> word_of_be (take 4 (drop tail buf)) = block_csum (jh_csum_seed handle) tail buf, buf)
       \<and> jbd2_verify_commit_block env handle buf = Some (word_of_be (take 4 buf) = JBD2_MAGIC_NUMBER
           \<and> word_of_be (take 4 (drop 16 buf)) = block_csum (jh_csum_seed handle) 16 buf, buf)"
proof -
  have len: "int (length buf) = sint (jh_blocksize handle)"
    using assms(3) sint_nonneg_unat [of "jh_blocksize handle"] assms(4) by simp
  then have l: "20 \<le> length buf" using assms(4) by linarith
  obtain hdr where hdr: "load_journal_header buf = Some hdr"
    using load_journal_header_defined [of buf] l by auto
  have magic: "be32_to_cpu (h_magic hdr) = word_of_be (take 4 buf)"
    using magic_field [OF _ hdr] l by simp
  have tail: "tail_offset handle = Some tail"
    using len assms(4) by (auto simp: tail_offset_def tail_def sizeof_journal_block_tail_def)
  show ?thesis
    using hdr magic tail l assms(1-3)
    by (simp add: jbd2_verify_defs csum_verify_at_correct commit_h_chksum_0_offset_def tail_def)
qed

section \<open>The tags of a descriptor block\<close>

text \<open>
  \<open>tags_at\<close>: the offsets of the tags from \<open>off\<close> on, up to the first one flagged as the last, or as
  long as a tag fits under the limit.
\<close>

fun tags_at :: "jbd2_handle \<Rightarrow> byte list \<Rightarrow> int \<Rightarrow> nat \<Rightarrow> nat list \<Rightarrow> bool" where
  "tags_at handle buf limit off [] \<longleftrightarrow> \<not> int off + int (jbd2_min_tag_size handle) \<le> limit"
| "tags_at handle buf limit off (t # ts) \<longleftrightarrow> t = off \<and> int off + int (jbd2_min_tag_size handle) \<le> limit \<and>
     (case jbd2_test_flag handle buf off JBD2_FLAG_LAST_TAG of
        None \<Rightarrow> False
      | Some True \<Rightarrow> ts = []
      | Some False \<Rightarrow> (case jbd2_tag_size handle buf off of
           None \<Rightarrow> False
         | Some sz \<Rightarrow> tags_at handle buf limit (off + sz) ts))"

definition last_flagged :: "jbd2_handle \<Rightarrow> byte list \<Rightarrow> nat list \<Rightarrow> bool" where
  "last_flagged handle buf ts \<longleftrightarrow>
     ts \<noteq> [] \<and> jbd2_test_flag handle buf (last ts) JBD2_FLAG_LAST_TAG = Some True"

text \<open>Every block has its tags, and they lie within the limit.\<close>

lemma ex_tags_at:
  assumes "limit \<le> int (length buf)"
  shows "\<exists>ts. tags_at handle buf limit off ts"
proof (induction "nat (limit + 1 - int off)" arbitrary: off rule: less_induct)
  case less
  show ?case
  proof (cases "int off + int (jbd2_min_tag_size handle) \<le> limit")
    case False
    then show ?thesis by (intro exI [of _ "[]"]) simp
  next
    case fits: True
    then have "off + jbd2_min_tag_size handle \<le> length buf" using assms by linarith
    then obtain f sz where f: "jbd2_test_flag handle buf off JBD2_FLAG_LAST_TAG = Some f"
      and sz: "jbd2_tag_size handle buf off = Some sz" using tag_access_defined by metis
    have "nat (limit + 1 - int (off + sz)) < nat (limit + 1 - int off)"
      using fits jbd2_tag_size_ge [OF sz] by linarith
    from less [OF this] obtain ts where "tags_at handle buf limit (off + sz) ts" ..
    then show ?thesis
      using fits f sz by (intro exI [of _ "if f then [off] else off # ts"]) (cases f; simp)
  qed
qed

lemma tags_at_within:
  "tags_at handle buf limit off ts \<Longrightarrow> t \<in> set ts \<Longrightarrow> int t + int (jbd2_min_tag_size handle) \<le> limit"
  by (induction ts arbitrary: off) (auto split: option.splits bool.splits)

lemma tags_at_unflagged:
  "tags_at handle buf limit off ts \<Longrightarrow> t \<in> set (butlast ts) \<Longrightarrow>
     jbd2_test_flag handle buf t JBD2_FLAG_LAST_TAG = Some False"
  by (induction ts arbitrary: off) (auto split: option.splits bool.splits if_splits)

text \<open>
  A loop over the tags whose body does not go on after a tag flagged as the last is a loop over
  the list of the tags.
\<close>

fun fold_tags :: "(nat \<Rightarrow> 32 word \<Rightarrow> 's \<Rightarrow> ('s + 's) option) \<Rightarrow> nat list \<Rightarrow> 32 word \<Rightarrow> 's \<Rightarrow> (32 word \<times> 's) option" where
  "fold_tags body [] nr s = Some (nr, s)"
| "fold_tags body (t # ts) nr s =
     (case body t nr s of
        None \<Rightarrow> None
      | Some (Inl s') \<Rightarrow> Some (nr, s')
      | Some (Inr s') \<Rightarrow> fold_tags body ts (nr + 1) s')"

lemma tag_for_fold_inv:
  assumes "tags_at handle buf limit off ts" "I s"
    and "\<And>t nr s s'. t \<in> set ts \<Longrightarrow> I s \<Longrightarrow> body t nr s = Some (Inr s') \<Longrightarrow>
      I s' \<and> jbd2_test_flag handle buf t JBD2_FLAG_LAST_TAG \<noteq> Some True"
  shows "tag_for handle buf limit body off nr s = fold_tags body ts nr s"
  using assms
proof (induction ts arbitrary: off nr s)
  case Nil
  then show ?case by (simp add: tag_for.simps)
next
  case (Cons t ts)
  have IH: "tags_at handle buf limit off' ts \<Longrightarrow> I s' \<Longrightarrow>
      tag_for handle buf limit body off' nr' s' = fold_tags body ts nr' s'" for off' nr' s'
    using Cons.IH [of off' s' nr'] Cons.prems(3) by auto
  show ?case
    using Cons.prems(1) Cons.prems(3) [of t s nr] Cons.prems(2)
    by (subst tag_for.simps) (auto split: option.splits sum.splits bool.splits intro!: IH)
qed

lemmas tag_for_fold = tag_for_fold_inv [where I = "\<lambda>_. True", simplified]

lemma fold_tags_count:
  assumes "tags_at handle buf limit off ts"
  shows "fold_tags (\<lambda>tag nr s. do {
            f \<leftarrow> jbd2_test_flag handle buf tag JBD2_FLAG_LAST_TAG;
            if f then Some (Inl s) else Some (Inr s) }) ts nr s =
    Some (nr + of_nat (if last_flagged handle buf ts then length ts - 1 else length ts), s)"
  using assms
proof (induction ts arbitrary: off nr)
  case (Cons t ts)
  show ?case
  proof (cases "jbd2_test_flag handle buf t JBD2_FLAG_LAST_TAG = Some True")
    case True
    with Cons.prems show ?thesis by (simp add: last_flagged_def)
  next
    case False
    with Cons.prems obtain sz where t: "jbd2_test_flag handle buf t JBD2_FLAG_LAST_TAG = Some False"
      "tags_at handle buf limit (off + sz) ts" by (auto split: option.splits bool.splits)
    have "last_flagged handle buf (t # ts) \<longleftrightarrow> last_flagged handle buf ts"
      using t(1) by (simp add: last_flagged_def)
    moreover have "ts \<noteq> []" if "last_flagged handle buf ts" using that by (simp add: last_flagged_def)
    ultimately show ?thesis
      using Cons.IH [OF t(2), of "nr + 1"] t(1) by (cases ts) (auto simp: algebra_simps)
  qed
qed (simp add: last_flagged_def)

lemma jbd2_count_tags_eq:
  assumes "tags_at handle buf (tag_limit env handle) sizeof_journal_header ts"
  shows "jbd2_count_tags env handle buf =
    Some (of_nat (if last_flagged handle buf ts then length ts - 1 else length ts))"
  unfolding jbd2_count_tags_def
  by (subst tag_for_fold [OF assms])
    (auto simp: fold_tags_count [OF assms] fault_simps split: if_splits)

text \<open>
  C30. The number that \<open>jbd2_count_tags\<close> returns is one less than the number of tags of the block
  whenever the last tag carries the flag that the format requires of it, and the number of tags
  only where the tags fill the block and no tag carries it.
\<close>

theorem jbd2_count_tags_correct:
  assumes "tags_at handle buf (tag_limit env handle) sizeof_journal_header ts"
  shows "jbd2_count_tags env handle buf =
    Some (if last_flagged handle buf ts then of_nat (length ts) - 1 else of_nat (length ts))"
  using jbd2_count_tags_eq [OF assms] by (cases ts) (auto simp: last_flagged_def)

text \<open>
  The number a tag stands for.  Where the low half is below \<open>2 ^ 31\<close> and the high half is absent
  or zero, it is the number stored.
\<close>

lemma u64_of_u32_small:
  assumes "uint w < 2 ^ 31"
  shows "uint (u64_of_u32 w) = uint w"
proof -
  have "sint (u64_of_u32 w) = uint w" using assms by (simp add: sint_eq_uint_small)
  then show ?thesis using sint_nonneg_unat [of "u64_of_u32 w"] by simp
qed

lemma u64_of_u32_0: "u64_of_u32 0 = 0"
  by (simp add: u64_of_u32_def)

text \<open>
  C31. A tag in the buffer names the block number its big-endian low half stores, as long as that
  is below \<open>2 ^ 31\<close> and, with 64-bit block numbers, the high half is zero.
\<close>

theorem jbd2_tag_blocknr_correct:
  assumes "tagp + jbd2_min_tag_size handle \<le> length buf"
    and "uint (word_of_be (take 4 (drop tagp buf)) :: u32) < 2 ^ 31"
    and "jbd2_has_feature_64bit (jh_as_superblock handle) \<Longrightarrow>
      word_of_be (take 4 (drop (tagp + 8) buf)) = (0 :: u32)"
  shows "map_option uint (jbd2_tag_blocknr handle buf tagp) =
    Some (uint (word_of_be (take 4 (drop tagp buf)) :: u32))"
proof -
  let ?lo = "word_of_be (take 4 (drop tagp buf)) :: u32"
  obtain lo :: u32 where lo: "ld buf tagp = Some lo" "be32_to_cpu lo = ?lo"
    using be_field(2) [of tagp buf] assms(1) jbd2_min_tag_size_bounds(1) [of handle]
    by (cases "ld buf tagp :: u32 option") auto
  show ?thesis
  proof (cases "jbd2_has_feature_64bit (jh_as_superblock handle)")
    case False
    then show ?thesis
      using lo assms(2) by (simp add: jbd2_tag_blocknr_def tag_t_blocknr_def u64_of_u32_small)
  next
    case True
    obtain hi :: u32 where hi: "ld buf (tagp + 8) = Some hi" "be32_to_cpu hi = 0"
      using be_field(2) [of "tagp + 8" buf] assms(1) assms(3) [OF True]
        jbd2_min_tag_size_64bit [OF True] by (cases "ld buf (tagp + 8) :: u32 option") auto
    then show ?thesis
      using lo assms(2) True by (simp add: jbd2_tag_blocknr_def tag_t_blocknr_def
          tag_t_blocknr_high_def u64_of_u32_small u64_of_u32_0)
  qed
qed

text \<open>
  Outside these bounds it does not: the high half is combined without being shifted, and a low
  half with its top bit set is extended by its sign.
\<close>

lemma jbd2_tag_blocknr_high_half:
  "jbd2_tag_blocknr (example_handle JBD2_FEATURE_INCOMPAT_64BIT 1024 8) [0, 0, 0, 0, 0, 0, 0, 0, 0, 0, 0, 1] 0 = Some 1"
  by (simp add: jbd2_tag_blocknr_def jbd2_tag_field_defs example_defs jbd2_has_feature_defs
      jbd2_has_incompat_bit jbd2_feature_defs jbd2_blocktype_defs ld_def u64_of_u32_def)
    (simp add: endian_defs bswap_def le_of_word_eval)

lemma jbd2_tag_blocknr_sign:
  "jbd2_tag_blocknr (example_handle 0 1024 8) [0x80, 0, 0, 0, 0, 0, 0, 0] 0 = Some 0xFFFFFFFF80000000"
  by (simp add: jbd2_tag_blocknr_def jbd2_tag_field_defs example_defs jbd2_has_feature_defs
      jbd2_has_incompat_bit jbd2_feature_defs jbd2_blocktype_defs ld_def u64_of_u32_def)
    (simp add: endian_defs bswap_def le_of_word_eval)

text \<open>
  A stored 16-bit checksum with its top bit set is extended by its sign, so it matches no
  checksum cut to 16 bits.
\<close>

lemma csum2_top_bit_never_matches:
  assumes "bit (c :: u16) 15"
  shows "u32_of_u16 c \<noteq> x AND 0xffff"
proof
  assume eq: "u32_of_u16 c = x AND 0xffff"
  have "bit (u32_of_u16 c) 31" using assms by (simp add: u32_of_u16_def bit_simps)
  moreover have "\<not> bit (x AND 0xffff) 31" by (simp add: bit_simps)
  ultimately show False using eq by simp
qed

section \<open>Examples\<close>

text \<open>A descriptor block of two tags, the second one escaped, in blocks of 32 bytes.\<close>

definition example_descr :: "byte list" where
  "example_descr = [0xc0, 0x3b, 0x39, 0x98, 0, 0, 0, 1, 0, 0, 0, 1,
     0, 0, 0, 5, 0, 0, 0, 2, 0, 0, 0, 6, 0, 0, 0, 11, 0, 0, 0, 0]"

lemma example_no_features [simp]:
  "\<not> jbd2_has_feature_64bit (jh_as_superblock (example_handle 0 bs n))"
  "\<not> jbd2_has_feature_csum2 (jh_as_superblock (example_handle 0 bs n))"
  "\<not> jbd2_has_feature_csum3 (jh_as_superblock (example_handle 0 bs n))"
  by (simp_all add: jbd2_has_feature_defs jbd2_has_incompat_bit example_defs)

lemma example_descr_eval:
  "jbd2_min_tag_size (example_handle 0 32 8) = 8"
  "jbd2_test_flag (example_handle 0 32 8) example_descr 12 JBD2_FLAG_LAST_TAG = Some False"
  "jbd2_test_flag (example_handle 0 32 8) example_descr 20 JBD2_FLAG_LAST_TAG = Some True"
  "jbd2_test_flag (example_handle 0 32 8) example_descr 12 JBD2_FLAG_ESCAPE = Some False"
  "jbd2_test_flag (example_handle 0 32 8) example_descr 20 JBD2_FLAG_ESCAPE = Some True"
  "jbd2_tag_size (example_handle 0 32 8) example_descr 12 = Some 8"
  "jbd2_tag_blocknr (example_handle 0 32 8) example_descr 12 = Some 5"
  "jbd2_tag_blocknr (example_handle 0 32 8) example_descr 20 = Some 6"
  by (simp_all add: jbd2_min_tag_size_def jbd2_sizeof_defs jbd2_test_flag_def jbd2_tag_size_def
      jbd2_tag_blocknr_def jbd2_tag_field_defs example_descr_def ld_def jbd2_flag_defs u64_of_u32_def
      u32_of_u16_def endian_defs bswap_def le_of_word_eval)

lemma example_tags_at:
  "tags_at (example_handle 0 32 8) example_descr 32 sizeof_journal_header [12, 20]"
  by (simp add: example_descr_eval sizeof_journal_header_def)

theorem jbd2_count_tags_correct_witness:
  "jbd2_count_tags (example_env False (\<lambda>_. None)) (example_handle 0 32 8) example_descr = Some 1"
proof -
  have "tag_limit (example_env False (\<lambda>_. None)) (example_handle 0 32 8) = 32"
    by (simp add: tag_limit_def example_defs)
  with jbd2_count_tags_correct [of "example_handle 0 32 8" example_descr "example_env False (\<lambda>_. None)" "[12, 20]"]
    example_tags_at show ?thesis by (simp add: last_flagged_def example_descr_eval)
qed

theorem jbd2_tag_blocknr_correct_witness:
  "map_option uint (jbd2_tag_blocknr (example_handle 0 32 8) example_descr 20) = Some 6"
proof -
  have "(word_of_be (take 4 (drop 20 example_descr)) :: u32) = 6"
    by (simp add: example_descr_def word_of_be_def)
  moreover have "20 + jbd2_min_tag_size (example_handle 0 32 8) \<le> length example_descr"
    by (simp add: example_descr_eval(1)) (simp add: example_descr_def)
  ultimately show ?thesis
    using jbd2_tag_blocknr_correct [of 20 "example_handle 0 32 8" example_descr] by simp
qed

text \<open>
  Blocks of 20 bytes.  A descriptor and a commit block with the checksum of the driver are accepted, and the descriptor with the
  CRC-32C of the format, which the reference computes, is not.
\<close>

definition example_block :: "byte \<Rightarrow> byte list \<Rightarrow> byte list" where
  "example_block ty csum = [0xc0, 0x3b, 0x39, 0x98, 0, 0, 0, ty, 0, 0, 0, 1, 0, 0, 0, 0] @ csum"

lemma zero_example_block: "length csum = 4 \<Longrightarrow> zero_field 16 (example_block ty csum) = example_block ty [0, 0, 0, 0]"
  by (simp add: zero_field_def example_block_def numeral_eq_Suc)

lemma example_block_csum:
  "length csum = 4 \<Longrightarrow> block_csum 0 16 (example_block 1 csum) = 0xfac6fc7d"
  "length csum = 4 \<Longrightarrow> block_csum 0 16 (example_block 2 csum) = 0x039ac8a7"
  "foldl (crc_ref_byte CRC32C_POLY) 0 (example_block 1 [0, 0, 0, 0]) = 0x3b3fddb0"
  by (simp_all add: block_csum_def zero_example_block)
    (simp_all add: example_block_def crc_code_byte_eval crc_ref_byte_def funpow_8 crc_step_eval CRC32C_POLY_def sign_fill_def)

theorem jbd2_verify_blocks_correct_witness:
  "jbd2_verify_descr_block (example_env True (\<lambda>_. None)) (example_handle 0 20 8) (example_block 1 [0xfa, 0xc6, 0xfc, 0x7d]) =
     Some (True, example_block 1 [0xfa, 0xc6, 0xfc, 0x7d])
   \<and> jbd2_verify_commit_block (example_env True (\<lambda>_. None)) (example_handle 0 20 8) (example_block 2 [0x03, 0x9a, 0xc8, 0xa7]) =
     Some (True, example_block 2 [0x03, 0x9a, 0xc8, 0xa7])
   \<and> jbd2_verify_descr_block (example_env True (\<lambda>_. None)) (example_handle 0 20 8) (example_block 1 [0x3b, 0x3f, 0xdd, 0xb0]) =
     Some (False, example_block 1 [0x3b, 0x3f, 0xdd, 0xb0])"
proof -
  let ?env = "example_env True (\<lambda>_. None)" and ?h = "example_handle 0 20 8"
  have env: "size_t_bits ?env = Size32" "jbd2_has_csum_v2or3 ?env ?h" "jh_blocksize ?h = 20" "jh_csum_seed ?h = 0"
    by (simp_all add: example_env_def example_handle_def)
  have fields: "length (example_block ty csum) = 20" "word_of_be (take 4 (example_block ty csum)) = JBD2_MAGIC_NUMBER"
    "take 4 (drop 16 (example_block ty csum)) = csum" if "length csum = 4" for ty csum
    using that by (simp_all add: example_block_def word_of_be_def JBD2_MAGIC_NUMBER_def)
  have "length (example_block ty csum) = unat (jh_blocksize ?h)" "20 \<le> sint (jh_blocksize ?h)" if "length csum = 4" for ty csum
    using that env(3) fields(1) by simp_all
  from jbd2_verify_blocks_correct [OF env(1,2) this] have
    "jbd2_verify_descr_block ?env ?h (example_block ty csum) = Some (word_of_be csum = block_csum 0 16 (example_block ty csum), example_block ty csum)
     \<and> jbd2_verify_commit_block ?env ?h (example_block ty csum) = Some (word_of_be csum = block_csum 0 16 (example_block ty csum), example_block ty csum)"
    if "length csum = 4" for ty csum
    using that fields [OF that] env(4) by simp
  then show ?thesis by (simp add: example_block_csum word_of_be_def)
qed

end
