(* ===== verification/Drv_Tree_Search.thy ===== *)
theory Drv_Tree_Search
  imports Drv_Tree
begin

text \<open>
  What the searches of \<open>drv_tree.h\<close> return.

  \<open>rb_shape\<close> says that the nodes reachable from a pointer form a finite binary tree with correct
  parent pointers; the tree holds the addresses.  \<open>table_order\<close> is the contract between the
  generated code and the comparison it is instantiated with: \<open>cmp\<close> compares a key in a linear
  order.  Under it the tree is a finite map from keys to nodes (\<open>rb_assoc\<close>), and the searches are
  lookups in that map.
\<close>

section \<open>The tree a heap represents\<close>

fun rb_shape :: "(ptr \<rightharpoonup> 'a rb_node) \<Rightarrow> ptr option \<Rightarrow> ptr option \<Rightarrow> ptr tree \<Rightarrow> bool" where
  "rb_shape m p par \<langle>\<rangle> \<longleftrightarrow> p = None"
| "rb_shape m p par \<langle>l, a, r\<rangle> \<longleftrightarrow> p = Some a \<and> (\<exists>n. m a = Some n \<and> rbe_parent n = par
     \<and> rb_shape m (rbe_left n) (Some a) l \<and> rb_shape m (rbe_right n) (Some a) r)"

lemma rb_shape_None [simp]: "rb_shape m None par t \<longleftrightarrow> t = \<langle>\<rangle>"
  by (cases t) auto

lemma rb_shape_Some:
  "rb_shape m (Some a) par t \<longleftrightarrow> (\<exists>l r n. t = \<langle>l, a, r\<rangle> \<and> m a = Some n \<and> rbe_parent n = par
     \<and> rb_shape m (rbe_left n) (Some a) l \<and> rb_shape m (rbe_right n) (Some a) r)"
  by (cases t) auto

text \<open>The children and parents do not depend on nodes outside the tree, nor on payloads and colors.\<close>

definition same_links :: "'a rb_node \<Rightarrow> 'a rb_node \<Rightarrow> bool" where
  "same_links n n' \<longleftrightarrow> rbe_left n' = rbe_left n \<and> rbe_right n' = rbe_right n \<and> rbe_parent n' = rbe_parent n"

lemma rb_shape_cong:
  assumes "\<And>a. a \<in> set_tree t \<Longrightarrow> rel_option same_links (m a) (m' a)"
  shows "rb_shape m p par t \<Longrightarrow> rb_shape m' p par t"
  using assms
proof (induction t arbitrary: p par)
  case (Node l a r)
  then obtain n where n: "m a = Some n" by auto
  with Node.prems(2) [of a] obtain n' where "m' a = Some n'" "same_links n n'"
    by (auto simp: option_rel_Some1)
  with Node n show ?case by (auto simp: same_links_def)
qed simp

lemma rb_shape_dom: "rb_shape m p par t \<Longrightarrow> set_tree t \<subseteq> dom m"
  by (induction t arbitrary: p par) (auto, blast+)

section \<open>Keys\<close>

definition key_at :: "('a \<Rightarrow> 'k) \<Rightarrow> (ptr \<rightharpoonup> 'a rb_node) \<Rightarrow> ptr \<Rightarrow> 'k" where
  "key_at key m a = key (elm (the (m a)))"

definition rb_keys :: "('a \<Rightarrow> 'k) \<Rightarrow> (ptr \<rightharpoonup> 'a rb_node) \<Rightarrow> ptr tree \<Rightarrow> 'k list" where
  "rb_keys key m t = map (key_at key m) (inorder t)"

text \<open>A well-formed table: a tree from the root, with strictly ascending keys.\<close>

definition rb_wf :: "('a \<Rightarrow> 'k::linorder) \<Rightarrow> 'a rb_table \<Rightarrow> ptr tree \<Rightarrow> bool" where
  "rb_wf key h t \<longleftrightarrow> rb_shape (mem h) (rbh_root h) None t \<and> sorted_wrt (<) (rb_keys key (mem h) t)"

text \<open>The abstract view: the finite map from keys to the nodes that hold them.\<close>

definition rb_assoc :: "('a \<Rightarrow> 'k) \<Rightarrow> (ptr \<rightharpoonup> 'a rb_node) \<Rightarrow> ptr tree \<Rightarrow> 'k \<rightharpoonup> ptr" where
  "rb_assoc key m t = map_of (map (\<lambda>a. (key_at key m a, a)) (inorder t))"

lemma rb_assoc_Leaf [simp]: "rb_assoc key m \<langle>\<rangle> k = None"
  by (simp add: rb_assoc_def)

lemma rb_assoc_None: "rb_assoc key m t k = None \<longleftrightarrow> k \<notin> set (rb_keys key m t)"
  by (auto simp: rb_assoc_def rb_keys_def map_of_eq_None_iff image_image)

lemma rb_assoc_Node:
  fixes key :: "'a \<Rightarrow> 'k::linorder"
  assumes "sorted_wrt (<) (rb_keys key m \<langle>l, a, r\<rangle>)"
  shows "rb_assoc key m \<langle>l, a, r\<rangle> k =
    (if k < key_at key m a then rb_assoc key m l k
     else if key_at key m a < k then rb_assoc key m r k else Some a)"
proof -
  have lt: "x \<in> set (rb_keys key m l) \<Longrightarrow> x < key_at key m a"
    and gt: "x \<in> set (rb_keys key m r) \<Longrightarrow> key_at key m a < x" for x
    using assms by (auto simp: rb_keys_def sorted_wrt_append)
  have split: "rb_assoc key m \<langle>l, a, r\<rangle> k = (case rb_assoc key m l k of Some b \<Rightarrow> Some b
     | None \<Rightarrow> if k = key_at key m a then Some a else rb_assoc key m r k)"
    by (simp add: rb_assoc_def map_add_def split: option.split)
  have l: "key_at key m a \<le> k \<Longrightarrow> rb_assoc key m l k = None"
    using lt [of k] by (meson leD rb_assoc_None)
  have r: "k \<le> key_at key m a \<Longrightarrow> rb_assoc key m r k = None"
    using gt [of k] by (meson leD rb_assoc_None)
  show ?thesis
    unfolding split using l r by (cases k "key_at key m a" rule: linorder_cases) (auto split: option.split)
qed

lemma rb_assoc_SomeD: "rb_assoc key m t k = Some a \<Longrightarrow> a \<in> set_tree t \<and> key_at key m a = k"
  by (auto simp: rb_assoc_def dest!: map_of_SomeD)

lemma sorted_rb_keys_sub:
  assumes "sorted_wrt (<) (rb_keys key m \<langle>l, a, r\<rangle>)"
  shows "sorted_wrt (<) (rb_keys key m l)" "sorted_wrt (<) (rb_keys key m r)"
  using assms by (auto simp: rb_keys_def sorted_wrt_append)

lemmas rb_access = RB_LEFT_def RB_RIGHT_def RB_PARENT_def RB_COLOR_def RB_ELM_def

text \<open>What agrees on the links and the keys of the tree's nodes represents the same tree and map.\<close>

definition agree_on :: "('a \<Rightarrow> 'k) \<Rightarrow> ptr set \<Rightarrow> (ptr \<rightharpoonup> 'a rb_node) \<Rightarrow> (ptr \<rightharpoonup> 'a rb_node) \<Rightarrow> bool" where
  "agree_on key A m m' \<longleftrightarrow> (\<forall>a \<in> A. rel_option (\<lambda>n n'. same_links n n' \<and> key (elm n') = key (elm n)) (m a) (m' a))"

lemma agree_on_keys:
  assumes "agree_on key (set_tree t) m m'" "set_tree t \<subseteq> dom m"
  shows "a \<in> set_tree t \<Longrightarrow> key_at key m' a = key_at key m a"
  using assms by (fastforce simp: agree_on_def key_at_def option_rel_Some1)

lemma agree_on_assoc:
  assumes "agree_on key (set_tree t) m m'" "set_tree t \<subseteq> dom m"
  shows "rb_assoc key m' t = rb_assoc key m t" "rb_keys key m' t = rb_keys key m t"
proof -
  have "map (\<lambda>a. (key_at key m' a, a)) (inorder t) = map (\<lambda>a. (key_at key m a, a)) (inorder t)"
    and k: "map (key_at key m') (inorder t) = map (key_at key m) (inorder t)"
    using agree_on_keys [OF assms] by simp_all
  then show "rb_assoc key m' t = rb_assoc key m t" by (simp only: rb_assoc_def)
  show "rb_keys key m' t = rb_keys key m t" using k by (simp only: rb_keys_def)
qed

lemma agree_on_wf:
  assumes "rb_wf key h t" "agree_on key (set_tree t) (mem h) (mem h')" "rbh_root h' = rbh_root h"
  shows "rb_wf key h' t" "rb_assoc key (mem h') t = rb_assoc key (mem h) t"
proof -
  have sh: "rb_shape (mem h) (rbh_root h) None t" using assms(1) by (simp add: rb_wf_def)
  note sub = rb_shape_dom [OF sh]
  have "rb_shape (mem h') (rbh_root h) None t"
    using assms(2) by (intro rb_shape_cong [OF _ sh]) (auto simp: agree_on_def elim: option.rel_mono_strong)
  then show "rb_wf key h' t"
    using assms(1,3) agree_on_assoc(2) [OF assms(2) sub] by (simp add: rb_wf_def)
  show "rb_assoc key (mem h') t = rb_assoc key (mem h) t" by (rule agree_on_assoc(1) [OF assms(2) sub])
qed

section \<open>The contract of the comparison\<close>

locale table_order =
  fixes cmp :: "'a \<Rightarrow> 'a \<Rightarrow> int" and key :: "'a \<Rightarrow> 'k::linorder"
  assumes cmp_neg: "cmp a b < 0 \<longleftrightarrow> key a < key b"
    and cmp_pos: "cmp a b > 0 \<longleftrightarrow> key b < key a"
begin

lemma find_loop_assoc:
  assumes "rb_shape (mem h) p par t" "sorted_wrt (<) (rb_keys key (mem h) t)"
  shows "rb_find_loop cmp h x p = Some (rb_assoc key (mem h) t (key x))"
  using assms
proof (induction t arbitrary: p par)
  case Leaf
  then show ?case by (simp add: rb_find_loop.simps)
next
  case (Node l a r)
  then obtain n where n: "mem h a = Some n" "p = Some a" "rb_shape (mem h) (rbe_left n) (Some a) l"
    "rb_shape (mem h) (rbe_right n) (Some a) r" by auto
  note sub = sorted_rb_keys_sub [OF Node.prems(2)]
  have "key_at key (mem h) a = key (elm n)" using n by (simp add: key_at_def)
  then show ?case
    using n Node.IH(1) [OF n(3) sub(1)] Node.IH(2) [OF n(4) sub(2)]
    by (subst rb_find_loop.simps) (auto simp: rb_access rb_assoc_Node [OF Node.prems(2)] cmp_neg cmp_pos)
qed

lemma find_assoc:
  "rb_wf key h t \<Longrightarrow> RB_FIND cmp h x = Some (rb_assoc key (mem h) t (key x))"
  using find_loop_assoc [of h "rbh_root h" None t x] by (simp add: rb_wf_def RB_FIND_def)

text \<open>The search of \<open>RB_INSERT\<close> agrees with \<open>RB_FIND\<close> where the key is present.\<close>

lemma insert_descend_found:
  assumes "rb_shape (mem h) p par t" "sorted_wrt (<) (rb_keys key (mem h) t)"
    and "rb_assoc key (mem h) t (key x) = Some a"
  shows "rb_insert_descend cmp h x p q c = Some (Inl (Some a))"
  using assms
proof (induction t arbitrary: p par q c)
  case (Node l b r)
  then obtain n where n: "mem h b = Some n" "p = Some b" "rb_shape (mem h) (rbe_left n) (Some b) l"
    "rb_shape (mem h) (rbe_right n) (Some b) r" by auto
  note sub = sorted_rb_keys_sub [OF Node.prems(2)]
  have "key_at key (mem h) b = key (elm n)" using n by (simp add: key_at_def)
  then show ?case
    using n Node.IH(1) [OF n(3) sub(1)] Node.IH(2) [OF n(4) sub(2)] Node.prems(3)
    by (subst rb_insert_descend.simps)
      (auto simp: rb_access rb_assoc_Node [OF Node.prems(2)] cmp_neg cmp_pos split: if_splits)
qed simp

lemma insert_existing:
  assumes "rb_wf key h t" "mem h p = Some n" "rb_assoc key (mem h) t (key (elm n)) = Some a"
  shows "RB_INSERT cmp h (Some p) = Some (h, Some a)"
  using assms insert_descend_found [where p = "rbh_root h" and par = None and h = h and x = "elm n" and t = t and a = a]
  by (simp add: rb_wf_def RB_INSERT_def rb_access)

text \<open>Where the key is absent, the new node is linked and null is returned, if the repair returns.\<close>

lemma insert_descend_absent:
  assumes "rb_shape (mem h) p par t" "sorted_wrt (<) (rb_keys key (mem h) t)"
    and "rb_assoc key (mem h) t (key x) = None"
  shows "\<exists>q' c'. rb_insert_descend cmp h x p q c = Some (Inr (q', c'))"
  using assms
proof (induction t arbitrary: p par q c)
  case Leaf
  then show ?case by (simp add: rb_insert_descend.simps)
next
  case (Node l b r)
  then obtain n where n: "mem h b = Some n" "p = Some b" "rb_shape (mem h) (rbe_left n) (Some b) l"
    "rb_shape (mem h) (rbe_right n) (Some b) r" by auto
  note sub = sorted_rb_keys_sub [OF Node.prems(2)]
  have "key_at key (mem h) b = key (elm n)" using n by (simp add: key_at_def)
  then show ?case
    using n Node.IH(1) [OF n(3) sub(1)] Node.IH(2) [OF n(4) sub(2)] Node.prems(3)
    by (subst rb_insert_descend.simps)
      (auto simp: rb_access rb_assoc_Node [OF Node.prems(2)] cmp_neg cmp_pos split: if_splits)
qed

lemma insert_absent:
  assumes "rb_wf key h t" "mem h p = Some n" "rb_assoc key (mem h) t (key (elm n)) = None"
    and "RB_INSERT cmp h (Some p) = Some (h', q)"
  shows "q = None"
proof -
  obtain q' c' where "rb_insert_descend cmp h (elm n) (rbh_root h) None 0 = Some (Inr (q', c'))"
    using assms insert_descend_absent [where p = "rbh_root h" and par = None and h = h and x = "elm n" and t = t]
    unfolding rb_wf_def by blast
  then show ?thesis using assms(2,4) by (auto simp: RB_INSERT_def rb_access fault_simps)
qed

text \<open>\<open>RB_NFIND\<close>: the first node in order whose key is not below the wanted one.\<close>

lemma nfind_loop_first:
  assumes "rb_shape (mem h) p par t" "sorted_wrt (<) (rb_keys key (mem h) t)"
  shows "rb_nfind_loop cmp h x p res = Some (case find (\<lambda>a. key x \<le> key_at key (mem h) a) (inorder t) of
     Some a \<Rightarrow> Some a | None \<Rightarrow> res)"
  using assms
proof (induction t arbitrary: p par res)
  case Leaf
  then show ?case by (simp add: rb_nfind_loop.simps)
next
  case (Node l a r)
  let ?P = "\<lambda>a. key x \<le> key_at key (mem h) a"
  obtain n where n: "mem h a = Some n" "p = Some a" "rb_shape (mem h) (rbe_left n) (Some a) l"
    "rb_shape (mem h) (rbe_right n) (Some a) r" using Node.prems by auto
  note sub = sorted_rb_keys_sub [OF Node.prems(2)]
  have ka: "key_at key (mem h) a = key (elm n)" using n by (simp add: key_at_def)
  have "find ?P (inorder l) = None" if "key_at key (mem h) a \<le> key x"
    using that Node.prems(2) by (force simp: find_None_iff rb_keys_def sorted_wrt_append)
  moreover have "find P (xs @ ys) = (case find P xs of None \<Rightarrow> find P ys | Some z \<Rightarrow> Some z)"
    for P :: "ptr \<Rightarrow> bool" and xs ys by (induction xs) auto
  ultimately show ?case
    using n ka Node.IH(1) [OF n(3) sub(1)] Node.IH(2) [OF n(4) sub(2)]
    by (subst rb_nfind_loop.simps)
      (auto simp: rb_access cmp_neg cmp_pos not_less not_le split: option.split)
qed

lemma nfind_first:
  "rb_wf key h t \<Longrightarrow>
     RB_NFIND cmp h x = Some (find (\<lambda>a. key x \<le> key_at key (mem h) a) (inorder t))"
  using nfind_loop_first [of h "rbh_root h" None t x None]
  by (simp add: rb_wf_def RB_NFIND_def split: option.split)

end

section \<open>Minimum and maximum\<close>

lemma minmax_loop_neg:
  "rb_shape (mem h) p par t \<Longrightarrow> val < 0 \<Longrightarrow>
     rb_minmax_loop h val p q = Some (if t = \<langle>\<rangle> then q else Some (hd (inorder t)))"
proof (induction t arbitrary: p par q)
  case Leaf
  then show ?case by (simp add: rb_minmax_loop.simps)
next
  case (Node l a r)
  then show ?case
    by (subst rb_minmax_loop.simps) (auto simp: rb_access hd_append eq_inorder_Nil)
qed

lemma minmax_loop_pos:
  "rb_shape (mem h) p par t \<Longrightarrow> \<not> val < 0 \<Longrightarrow>
     rb_minmax_loop h val p q = Some (if t = \<langle>\<rangle> then q else Some (last (inorder t)))"
proof (induction t arbitrary: p par q)
  case Leaf
  then show ?case by (simp add: rb_minmax_loop.simps)
next
  case (Node l a r)
  then show ?case
    by (subst rb_minmax_loop.simps) (auto simp: rb_access eq_inorder_Nil)
qed

lemma rb_min_first:
  "rb_wf key h t \<Longrightarrow> RB_MIN h = Some (if t = \<langle>\<rangle> then None else Some (hd (inorder t)))"
  using minmax_loop_neg [where p = "rbh_root h" and par = None and h = h and t = t]
  by (simp add: rb_wf_def RB_MIN_def RB_MINMAX_def)

lemma rb_max_last:
  "rb_wf key h t \<Longrightarrow> RB_MAX h = Some (if t = \<langle>\<rangle> then None else Some (last (inorder t)))"
  using minmax_loop_pos [where p = "rbh_root h" and par = None and h = h and t = t]
  by (simp add: rb_wf_def RB_MAX_def RB_MINMAX_def)

lemma rb_wf_empty [simp]: "rb_wf key h \<langle>\<rangle> \<longleftrightarrow> RB_EMPTY h"
  by (simp add: rb_wf_def rb_keys_def RB_EMPTY_def)

end
