(* ===== verification/Jbd2_Tables.thy ===== *)
theory Jbd2_Tables
  imports Jbd2_Tags Drv_Tree_Search
begin

text \<open>
  \<open>jbd2/jbd2.c\<close>, lines 38 to 284: transaction numbers, the comparison of table entries, and the
  reference-counted entries of the tables of logged blocks and of revoked blocks.

  An allocation takes an address from the look-aside list with the stale object it holds; freeing
  removes the object from the heap, so that a later access is a fault.  The two \<open>get\<close> and the two
  \<open>put\<close> functions of the code have the same body over two types; \<open>node_get\<close> and \<open>node_put\<close> are
  these bodies, over the fields of the entry type.
\<close>

section \<open>Transaction numbers\<close>

text \<open>\<open>__s32\<close> is unsigned: so are both comparisons with zero.\<close>

definition jbd2_tid_cmp :: "jbd2_tid_t \<Rightarrow> jbd2_tid_t \<Rightarrow> int" where
  "jbd2_tid_cmp a b = (if s32_lt (a - b) 0 then - 1 else if s32_lt 0 (a - b) then 1 else 0)"

lemma s32_lt_0: "s32_lt 0 x \<longleftrightarrow> x \<noteq> 0" "\<not> s32_lt x 0"
  by (auto simp: s32_lt_def word_neq_0_conv simp del: s32_lt_uint)

text \<open>
  The comparison of transaction numbers does not order them: it is 0 for equal numbers and 1
  for any two different ones, whichever is the earlier.
\<close>

theorem jbd2_tid_cmp_eq: "jbd2_tid_cmp a b = (if a = b then 0 else 1)"
  by (simp_all add: jbd2_tid_cmp_def s32_lt_0 del: s32_lt_uint)

lemma tid_cmp_simps [simp]:
  "jbd2_tid_cmp a b > 0 \<longleftrightarrow> a \<noteq> b" "jbd2_tid_cmp a b \<le> 0 \<longleftrightarrow> a = b"
  by (simp_all add: jbd2_tid_cmp_def s32_lt_0 del: s32_lt_uint)

section \<open>The comparison of entries\<close>

definition jbd2_generic_table_cmp :: "jbd2_node_hdr \<Rightarrow> jbd2_node_hdr \<Rightarrow> int" where
  "jbd2_generic_table_cmp hdr_a hdr_b =
     (if u64_lt (th_block hdr_a) (th_block hdr_b) then - 1
      else if u64_lt (th_block hdr_b) (th_block hdr_a) then 1
      else 0)"

definition lbcb_cmp :: "jbd2_lbcb \<Rightarrow> jbd2_lbcb \<Rightarrow> int" where
  "lbcb_cmp a b = jbd2_generic_table_cmp (jl_header a) (jl_header b)"

definition revoke_cmp :: "jbd2_revoke_entry \<Rightarrow> jbd2_revoke_entry \<Rightarrow> int" where
  "revoke_cmp a b = jbd2_generic_table_cmp (re_header a) (re_header b)"

text \<open>The key of an entry is its block number, read as the signed integer that \<open>__u64\<close> is.\<close>

definition lbcb_key :: "jbd2_lbcb \<Rightarrow> int" where
  "lbcb_key e = sint (th_block (jl_header e))"

definition revoke_key :: "jbd2_revoke_entry \<Rightarrow> int" where
  "revoke_key e = sint (th_block (re_header e))"

interpretation lbcb_table: table_order lbcb_cmp lbcb_key
  by unfold_locales (auto simp: lbcb_cmp_def lbcb_key_def jbd2_generic_table_cmp_def)

interpretation revoke_table: table_order revoke_cmp revoke_key
  by unfold_locales (auto simp: revoke_cmp_def revoke_key_def jbd2_generic_table_cmp_def)

section \<open>Reference-counted entries\<close>

definition free_node :: "'a rb_table \<Rightarrow> ptr option \<Rightarrow> 'a rb_table option" where
  "free_node h p = do { a \<leftarrow> p; _ \<leftarrow> mem h a; Some (h\<lparr>mem := (mem h)(a := None)\<rparr>) }"

text \<open>The look-aside list that each table allocates from.\<close>

definition jbd2_lbcb_alloc :: "jbd2_env \<Rightarrow> jbd2_handle \<Rightarrow> (ptr \<times> jbd2_lbcb rb_node) option" where
  "jbd2_lbcb_alloc env handle = alloc_lbcb env (mem (jh_lbcb_table handle))"

definition jbd2_revoke_entry_alloc :: "jbd2_env \<Rightarrow> jbd2_handle \<Rightarrow> (ptr \<times> jbd2_revoke_entry rb_node) option" where
  "jbd2_revoke_entry_alloc env handle = alloc_revoke env (mem (jh_revoke_table handle))"

declare jbd2_lbcb_alloc_def [simp] jbd2_revoke_entry_alloc_def [simp]

text \<open>
  \<open>prepare\<close> fills in the allocated object, \<open>old\<close> clears its \<open>is_new\<close> flag and \<open>inc\<close> increments its
  reference count.
\<close>

definition node_get :: "('a \<Rightarrow> 'a \<Rightarrow> int) \<Rightarrow> (ptr \<times> 'a rb_node) option \<Rightarrow> ('a \<Rightarrow> 'a) \<Rightarrow> ('a \<Rightarrow> 'a) \<Rightarrow> ('a \<Rightarrow> 'a)
    \<Rightarrow> 'a rb_table \<Rightarrow> ('a rb_table \<times> ptr option) option" where
  "node_get cmp alloc prepare old inc h =
     (case alloc of
        None \<Rightarrow> Some (h, None)
      | Some (tmp, n) \<Rightarrow> do {
          r \<leftarrow> RB_INSERT cmp (h\<lparr>mem := (mem h)(tmp \<mapsto> n\<lparr>elm := prepare (elm n)\<rparr>)\<rparr>) (Some tmp);
          let h = fst r; let ret = snd r;
          h \<leftarrow> (if ret \<noteq> Some tmp then do {
                 h \<leftarrow> free_node h (Some tmp);
                 set_elm h ret old }
               else Some h);
          h \<leftarrow> set_elm h ret inc;
          Some (h, ret) })"

definition node_put :: "('a \<Rightarrow> atomic) \<Rightarrow> (atomic \<Rightarrow> 'a \<Rightarrow> 'a) \<Rightarrow> 'a rb_table \<Rightarrow> ptr option \<Rightarrow> 'a rb_table option" where
  "node_put refcount set_refcount h p = do {
     e \<leftarrow> RB_ELM h p;
     let r = drv_atomic_sub_and_test (refcount e) 1;
     h \<leftarrow> set_elm h p (set_refcount (fst r));
     if \<not> snd r then do {
       h \<leftarrow> RB_REMOVE h p;
       free_node h p }
     else Some h }"

definition hdr_set_refcount :: "atomic \<Rightarrow> jbd2_node_hdr \<Rightarrow> jbd2_node_hdr" where
  "hdr_set_refcount v hdr = hdr\<lparr>th_refcount := v\<rparr>"

definition hdr_inc :: "jbd2_node_hdr \<Rightarrow> jbd2_node_hdr" where
  "hdr_inc hdr = hdr\<lparr>th_refcount := drv_atomic_inc (th_refcount hdr)\<rparr>"

definition hdr_prepare :: "jbd2_node_type \<Rightarrow> jbd2_fsblk_t \<Rightarrow> jbd2_node_hdr \<Rightarrow> jbd2_node_hdr" where
  "hdr_prepare ty blocknr hdr =
     hdr\<lparr>th_block := blocknr, th_node_type := ty, th_refcount := drv_atomic_init 0\<rparr>"

definition jbc2_lbcb_get :: "jbd2_env \<Rightarrow> jbd2_handle \<Rightarrow> jbd2_fsblk_t \<Rightarrow> (jbd2_handle \<times> ptr option) option" where
  "jbc2_lbcb_get env handle blocknr = map_option (\<lambda>(t, p). (handle\<lparr>jh_lbcb_table := t\<rparr>, p))
     (node_get lbcb_cmp (jbd2_lbcb_alloc env handle)
       (\<lambda>e. e\<lparr>jl_header := hdr_prepare JBD2_NODE_LBCB blocknr (jl_header e), jl_is_new := True\<rparr>)
       (jl_is_new_update (\<lambda>_. False)) (jl_header_update hdr_inc) (jh_lbcb_table handle))"

definition jbd2_lbcb_put :: "jbd2_handle \<Rightarrow> ptr option \<Rightarrow> jbd2_handle option" where
  "jbd2_lbcb_put handle lbcb = map_option (\<lambda>t. handle\<lparr>jh_lbcb_table := t\<rparr>)
     (node_put (\<lambda>e. th_refcount (jl_header e)) (\<lambda>v. jl_header_update (hdr_set_refcount v))
       (jh_lbcb_table handle) lbcb)"

definition jbd2_revoke_entry_get :: "jbd2_env \<Rightarrow> jbd2_handle \<Rightarrow> jbd2_fsblk_t \<Rightarrow> (jbd2_handle \<times> ptr option) option" where
  "jbd2_revoke_entry_get env handle blocknr = map_option (\<lambda>(t, p). (handle\<lparr>jh_revoke_table := t\<rparr>, p))
     (node_get revoke_cmp (jbd2_revoke_entry_alloc env handle)
       (\<lambda>e. e\<lparr>re_header := hdr_prepare JBD2_NODE_REVOKE blocknr (re_header e), re_is_new := True\<rparr>)
       (re_is_new_update (\<lambda>_. False)) (re_header_update hdr_inc) (jh_revoke_table handle))"

text \<open>The entry on the stack that is searched for; of it the search reads only the block number.\<close>

definition stack_entry :: "jbd2_fsblk_t \<Rightarrow> jbd2_revoke_entry" where
  "stack_entry blocknr =
     \<lparr>re_header = \<lparr>th_node_type = JBD2_NODE_REVOKE, th_block = blocknr, th_newly = False, th_refcount = 0\<rparr>,
      re_is_new = False, re_tid = 0\<rparr>"

definition jbd2_revoke_entry_find :: "jbd2_handle \<Rightarrow> jbd2_fsblk_t \<Rightarrow> (jbd2_handle \<times> ptr option) option" where
  "jbd2_revoke_entry_find handle blocknr = do {
     re_ret \<leftarrow> RB_FIND revoke_cmp (jh_revoke_table handle) (stack_entry blocknr);
     if re_ret \<noteq> None then do {
       t \<leftarrow> set_elm (jh_revoke_table handle) re_ret (re_header_update hdr_inc);
       Some (handle\<lparr>jh_revoke_table := t\<rparr>, re_ret) }
     else Some (handle, re_ret) }"

definition jbd2_revoke_entry_put :: "jbd2_handle \<Rightarrow> ptr option \<Rightarrow> jbd2_handle option" where
  "jbd2_revoke_entry_put handle re = map_option (\<lambda>t. handle\<lparr>jh_revoke_table := t\<rparr>)
     (node_put (\<lambda>e. th_refcount (re_header e)) (\<lambda>v. re_header_update (hdr_set_refcount v))
       (jh_revoke_table handle) re)"

definition jbd2_revoke_table_clear :: "jbd2_handle \<Rightarrow> jbd2_handle option" where
  "jbd2_revoke_table_clear handle =
     RB_FOREACH_SAFE jh_revoke_table (\<lambda>re handle. jbd2_revoke_entry_put handle (Some re)) handle"

lemmas table_op_defs = jbc2_lbcb_get_def jbd2_lbcb_put_def jbd2_revoke_entry_get_def
  jbd2_revoke_entry_find_def jbd2_revoke_entry_put_def

section \<open>Looking an entry up and putting it back\<close>

definition revoke_wf :: "jbd2_handle \<Rightarrow> ptr tree \<Rightarrow> bool" where
  "revoke_wf handle t \<longleftrightarrow> rb_wf revoke_key (jh_revoke_table handle) t"

text \<open>The abstract table: the entry of a block number.\<close>

definition revoke_lookup :: "jbd2_handle \<Rightarrow> ptr tree \<Rightarrow> jbd2_fsblk_t \<Rightarrow> ptr option" where
  "revoke_lookup handle t blocknr = rb_assoc revoke_key (mem (jh_revoke_table handle)) t (sint blocknr)"

definition entry_at :: "jbd2_handle \<Rightarrow> ptr \<Rightarrow> jbd2_revoke_entry option" where
  "entry_at handle p = map_option elm (mem (jh_revoke_table handle) p)"

lemma set_elm_at:
  "mem h a = Some n \<Longrightarrow> set_elm h (Some a) f = Some (h\<lparr>mem := (mem h)(a \<mapsto> n\<lparr>elm := f (elm n)\<rparr>)\<rparr>)"
  by (simp add: set_elm_def upd_node_def)

lemma set_elm_null [simp]: "set_elm h None f = None"
  by (simp add: set_elm_def upd_node_def)

lemma agree_on_elm:
  assumes "mem h a = Some n" "key (f (elm n)) = key (elm n)"
  shows "agree_on key A (mem h) ((mem h)(a \<mapsto> n\<lparr>elm := f (elm n)\<rparr>))"
  using assms by (auto simp: agree_on_def same_links_def rel_option_reflI)

lemma agree_on_fresh: "a \<notin> A \<Longrightarrow> agree_on key A m (m(a := x))"
  by (auto simp: agree_on_def same_links_def rel_option_reflI)

lemma revoke_key_hdr [simp]:
  "revoke_key (re_header_update hdr_inc e) = revoke_key e"
  "revoke_key (re_header_update (hdr_set_refcount v) e) = revoke_key e"
  "revoke_key (re_is_new_update b e) = revoke_key e"
  "revoke_key (stack_entry blocknr) = sint blocknr"
  by (simp_all add: revoke_key_def hdr_inc_def hdr_set_refcount_def stack_entry_def)

lemma sint_eq_iff: "sint a = sint b \<longleftrightarrow> a = (b :: 'a::len word)"
  using word_eq_iff_signed [of a b] by auto

lemma revoke_lookup_SomeD:
  assumes "revoke_wf handle t" "revoke_lookup handle t blocknr = Some p"
  shows "\<exists>n. mem (jh_revoke_table handle) p = Some n \<and> th_block (re_header (elm n)) = blocknr"
proof -
  have "p \<in> set_tree t" "key_at revoke_key (mem (jh_revoke_table handle)) p = sint blocknr"
    using rb_assoc_SomeD assms(2) by (fastforce simp: revoke_lookup_def)+
  moreover have "set_tree t \<subseteq> dom (mem (jh_revoke_table handle))"
    using assms(1) rb_shape_dom unfolding revoke_wf_def rb_wf_def by blast
  ultimately obtain n where "mem (jh_revoke_table handle) p = Some n" "revoke_key (elm n) = sint blocknr"
    by (auto simp: key_at_def)
  then show ?thesis by (auto simp: revoke_key_def sint_eq_iff)
qed

lemma revoke_entry_find_eq:
  assumes "revoke_wf handle t"
  shows "jbd2_revoke_entry_find handle blocknr =
    (case revoke_lookup handle t blocknr of
       None \<Rightarrow> Some (handle, None)
     | Some p \<Rightarrow> Some (handle\<lparr>jh_revoke_table := (jh_revoke_table handle)\<lparr>mem := (mem (jh_revoke_table handle))
         (p \<mapsto> (the (mem (jh_revoke_table handle) p))\<lparr>elm := re_header_update hdr_inc
              (elm (the (mem (jh_revoke_table handle) p)))\<rparr>)\<rparr>\<rparr>, Some p))"
proof -
  have "RB_FIND revoke_cmp (jh_revoke_table handle) (stack_entry blocknr) = Some (revoke_lookup handle t blocknr)"
    using revoke_table.find_assoc assms by (simp add: revoke_wf_def revoke_lookup_def)
  then show ?thesis
    using revoke_lookup_SomeD [OF assms, of blocknr]
    by (cases "revoke_lookup handle t blocknr") (auto simp: jbd2_revoke_entry_find_def set_elm_at)
qed

lemma hdr_inc_put: "hdr_set_refcount (th_refcount (hdr_inc h) - 1) (hdr_inc h) = h"
  by (simp add: hdr_set_refcount_def hdr_inc_def drv_atomic_inc_def InterlockedIncrement_def)

text \<open>Putting an entry whose count was raised from 0 lowers it to 0 and leaves it in the table.\<close>

lemma node_put_last:
  assumes "mem h p = Some n" "refcount (elm n) = 1"
  shows "node_put refcount set_refcount h (Some p) =
    Some (h\<lparr>mem := (mem h)(p \<mapsto> n\<lparr>elm := set_refcount 0 (elm n)\<rparr>)\<rparr>)"
  using assms by (simp add: node_put_def RB_ELM_def set_elm_at drv_atomic_sub_and_test_def)

lemma find_put_restores:
  assumes "revoke_wf handle t"
    and "\<And>p e. entry_at handle p = Some e \<Longrightarrow> th_refcount (re_header e) = 0"
  shows "\<exists>handle'. jbd2_revoke_entry_find handle blocknr = Some (handle', revoke_lookup handle t blocknr) \<and>
    (case revoke_lookup handle t blocknr of
       None \<Rightarrow> handle' = handle
     | Some p \<Rightarrow> entry_at handle' p = map_option (re_header_update hdr_inc) (entry_at handle p) \<and>
         jbd2_revoke_entry_put handle' (Some p) = Some handle)"
proof (cases "revoke_lookup handle t blocknr")
  case None
  then show ?thesis by (simp add: revoke_entry_find_eq [OF assms(1)])
next
  case (Some p)
  from revoke_lookup_SomeD [OF assms(1) Some] obtain n
    where n: "mem (jh_revoke_table handle) p = Some n" by auto
  have "th_refcount (re_header (elm n)) = 0" using assms(2) [of p] n by (simp add: entry_at_def)
  then have inc: "re_header_update (hdr_set_refcount 0) (re_header_update hdr_inc (elm n)) = elm n"
    "th_refcount (re_header (re_header_update hdr_inc (elm n))) = 1"
    by (simp_all add: hdr_set_refcount_def hdr_inc_def drv_atomic_inc_def InterlockedIncrement_def)
  have "handle\<lparr>jh_revoke_table := (jh_revoke_table handle)\<lparr>mem := (mem (jh_revoke_table handle))(p \<mapsto> n)\<rparr>\<rparr> = handle"
    using n by (intro jbd2_handle.equality rb_table.equality) (simp_all add: fun_upd_idem)
  then show ?thesis
    using n inc
    by (simp add: revoke_entry_find_eq [OF assms(1)] Some entry_at_def jbd2_revoke_entry_put_def
        node_put_last)
qed

text \<open>A handle whose revoke table holds one entry, for block 5, at address 7.\<close>

definition example_revoke_node :: "jbd2_revoke_entry rb_node" where
  "example_revoke_node = \<lparr>rbe_left = None, rbe_right = None, rbe_parent = None,
     rbe_color = RB_BLACK, elm = stack_entry 5\<rparr>"

definition example_revoke_handle :: jbd2_handle where
  "example_revoke_handle = example_handle 0 1024 8
     \<lparr>jh_revoke_table := \<lparr>rbh_root = Some 7, mem = [7 \<mapsto> example_revoke_node]\<rparr>\<rparr>"

lemma example_revoke_handle_facts:
  "revoke_wf example_revoke_handle \<langle>\<langle>\<rangle>, 7, \<langle>\<rangle>\<rangle>"
  "revoke_lookup example_revoke_handle \<langle>\<langle>\<rangle>, 7, \<langle>\<rangle>\<rangle> 5 = Some 7"
  "entry_at example_revoke_handle = [7 \<mapsto> stack_entry 5]"
  by (auto simp: example_revoke_handle_def example_revoke_node_def revoke_wf_def rb_wf_def rb_keys_def
      revoke_lookup_def rb_assoc_def key_at_def revoke_key_def stack_entry_def entry_at_def)

lemma fresh_table:
  assumes "rb_wf key h t" "tmp \<notin> dom (mem h)"
  shows "rb_wf key (h\<lparr>mem := (mem h)(tmp \<mapsto> n)\<rparr>) t"
    "rb_assoc key ((mem h)(tmp \<mapsto> n)) t = rb_assoc key (mem h) t"
proof -
  have "set_tree t \<subseteq> dom (mem h)" using assms(1) rb_shape_dom unfolding rb_wf_def by blast
  then have "agree_on key (set_tree t) (mem h) (mem (h\<lparr>mem := (mem h)(tmp \<mapsto> n)\<rparr>))"
    using assms(2) by (auto intro: agree_on_fresh)
  from agree_on_wf [OF assms(1) this] show "rb_wf key (h\<lparr>mem := (mem h)(tmp \<mapsto> n)\<rparr>) t"
    "rb_assoc key ((mem h)(tmp \<mapsto> n)) t = rb_assoc key (mem h) t" by simp_all
qed

context table_order
begin

lemma node_get_existing:
  assumes "rb_wf key h t" "tmp \<notin> dom (mem h)" "mem h p = Some e"
    and "rb_assoc key (mem h) t (key (prepare (elm n))) = Some p"
  shows "node_get cmp (Some (tmp, n)) prepare old inc h =
    Some (h\<lparr>mem := (mem h)(p \<mapsto> e\<lparr>elm := inc (old (elm e))\<rparr>)\<rparr>, Some p)"
proof -
  let ?h = "h\<lparr>mem := (mem h)(tmp \<mapsto> n\<lparr>elm := prepare (elm n)\<rparr>)\<rparr>"
  note fresh = fresh_table [OF assms(1,2), of "n\<lparr>elm := prepare (elm n)\<rparr>"]
  have "RB_INSERT cmp ?h (Some tmp) = Some (?h, Some p)"
    by (rule insert_existing [OF fresh(1), where n = "n\<lparr>elm := prepare (elm n)\<rparr>"]) (simp_all add: fresh(2) assms(4))
  moreover have "p \<noteq> tmp" using assms(2,3) by auto
  moreover have "(mem h)(tmp := None) = mem h" using assms(2) by (auto simp: fun_upd_idem domIff)
  ultimately show ?thesis
    using assms(3) by (simp add: node_get_def free_node_def set_elm_at)
qed

lemma node_get_absent:
  assumes "rb_wf key h t" "tmp \<notin> dom (mem h)" "rb_assoc key (mem h) t (key (prepare (elm n))) = None"
  shows "node_get cmp (Some (tmp, n)) prepare old inc h = None"
proof -
  let ?h = "h\<lparr>mem := (mem h)(tmp \<mapsto> n\<lparr>elm := prepare (elm n)\<rparr>)\<rparr>"
  note fresh = fresh_table [OF assms(1,2), of "n\<lparr>elm := prepare (elm n)\<rparr>"]
  have "q = None" if "RB_INSERT cmp ?h (Some tmp) = Some (h', q)" for h' q
    by (rule insert_absent [OF fresh(1) _ _ that, where n = "n\<lparr>elm := prepare (elm n)\<rparr>"]) (simp_all add: fresh(2) assms(3))
  then show ?thesis
    by (cases "RB_INSERT cmp ?h (Some tmp)") (auto simp: node_get_def fault_simps Let_def)
qed

end

text \<open>
  C18. \<open>jbd2_revoke_entry_get\<close> on a block that has an entry returns that entry with its count
  raised and marked as not new, and gives the fresh object back; on a block that has none it
  reaches no result: it frees the object it has just linked into the tree and follows null.
\<close>

theorem revoke_entry_get_cases:
  assumes "revoke_wf handle t" "alloc_revoke env (mem (jh_revoke_table handle)) = Some (tmp, n)"
    and "tmp \<notin> dom (mem (jh_revoke_table handle))"
  shows "case revoke_lookup handle t blocknr of
      None \<Rightarrow> jbd2_revoke_entry_get env handle blocknr = None
    | Some p \<Rightarrow> (\<exists>handle'. jbd2_revoke_entry_get env handle blocknr = Some (handle', Some p) \<and>
        revoke_wf handle' t \<and> revoke_lookup handle' t = revoke_lookup handle t \<and>
        entry_at handle' = (entry_at handle)(p := map_option
          (\<lambda>e. e\<lparr>re_header := hdr_inc (re_header e), re_is_new := False\<rparr>) (entry_at handle p)))"
proof (cases "revoke_lookup handle t blocknr")
  case None
  then show ?thesis
    using assms revoke_table.node_get_absent [of "jh_revoke_table handle" t tmp _ n]
    by (simp add: jbd2_revoke_entry_get_def revoke_wf_def revoke_lookup_def revoke_key_def hdr_prepare_def)
next
  case (Some p)
  let ?h = "jh_revoke_table handle"
  from revoke_lookup_SomeD [OF assms(1) Some] obtain e where e: "mem ?h p = Some e" by auto
  let ?e = "e\<lparr>elm := re_header_update hdr_inc (re_is_new_update (\<lambda>_. False) (elm e))\<rparr>"
  let ?t' = "?h\<lparr>mem := (mem ?h)(p \<mapsto> ?e)\<rparr>"
  have get: "jbd2_revoke_entry_get env handle blocknr = Some (handle\<lparr>jh_revoke_table := ?t'\<rparr>, Some p)"
    using assms Some e
    by (simp add: jbd2_revoke_entry_get_def revoke_wf_def revoke_lookup_def
        revoke_table.node_get_existing revoke_key_def hdr_prepare_def)
  have "agree_on revoke_key (set_tree t) (mem ?h) (mem ?t')"
    using agree_on_elm [OF e, of revoke_key "\<lambda>x. re_header_update hdr_inc (re_is_new_update (\<lambda>_. False) x)"]
    by simp
  from agree_on_wf [OF assms(1) [unfolded revoke_wf_def] this] get e Some show ?thesis
    by (auto simp: revoke_wf_def revoke_lookup_def entry_at_def)
qed

theorem revoke_entry_get_cases_witness:
  "\<exists>handle'. jbd2_revoke_entry_get
     (example_env False (\<lambda>_. None)\<lparr>alloc_revoke := \<lambda>_. Some (9, example_revoke_node)\<rparr>)
     example_revoke_handle 5 = Some (handle', Some 7)"
proof -
  have "9 \<notin> dom (mem (jh_revoke_table example_revoke_handle))"
    by (simp add: example_revoke_handle_def)
  from revoke_entry_get_cases [OF example_revoke_handle_facts(1) _ this, where blocknr = 5 and n = example_revoke_node
      and env = "example_env False (\<lambda>_. None)\<lparr>alloc_revoke := \<lambda>_. Some (9, example_revoke_node)\<rparr>"]
  show ?thesis by (auto simp: example_revoke_handle_facts)
qed

end
