(* ===== verification/Jbd2_Recovery.thy ===== *)
theory Jbd2_Recovery
  imports Jbd2_Tables
begin

text \<open>
  \<open>jbd2/jbd2.c\<close>, lines 5 to 32 and 655 to 1066: replaying the log.

  The log is read through \<open>CcPinRead_log\<close> and is never changed (the checks restore the words they
  zero).  The client file is the list of the writes done to it, in order, each an offset and the
  bytes.  Unpinning a buffer has no effect on either.  An exception of the cache manager is not
  modelled: a read succeeds or fails.

  The endless \<open>while (1)\<close> of \<open>jbd2_replay_one_pass\<close> is a step function and a
  \<open>partial_function\<close> that iterates it, so that a pass that never ends has the value \<open>None\<close>.
\<close>

section \<open>State\<close>

datatype jbd2_phase = JBD2_PHASE_SCAN | JBD2_PHASE_SCAN_REVOKE | JBD2_PHASE_REPLAY

record recovery_info =
  ri_start_txn :: jbd2_tid_t
  ri_end_txn :: jbd2_tid_t
  ri_has_txn :: bool

record jbd2_sys =
  sys_handle :: jbd2_handle
  sys_writes :: "(s64 \<times> byte list) list"

definition jbd2_wrap :: "jbd2_handle \<Rightarrow> jbd2_logblk_t \<Rightarrow> jbd2_logblk_t" where
  "jbd2_wrap handle var = (if u32_lt (jh_end handle) var then var - (jh_end handle - jh_start handle + 1) else var)"

text \<open>The block of the log at a block number: \<open>blocknr_to_offset\<close> takes the sign-extended number.\<close>

definition read_log :: "jbd2_env \<Rightarrow> jbd2_handle \<Rightarrow> jbd2_logblk_t \<Rightarrow> byte list option" where
  "read_log env handle blocknr =
     CcPinRead_log env (blocknr_to_offset (u64_of_u32 blocknr) (jh_blocksize handle))"

section \<open>The blocks of a descriptor\<close>

definition blocks_csum_body :: "jbd2_env \<Rightarrow> jbd2_handle \<Rightarrow> jbd2_logblk_t \<Rightarrow> byte list
    \<Rightarrow> nat \<Rightarrow> 32 word \<Rightarrow> NTSTATUS \<Rightarrow> (NTSTATUS + NTSTATUS) option" where
  "blocks_csum_body env handle blocknr buf tag nr status = do {
     _ \<leftarrow> jbd2_tag_blocknr handle buf tag;
     (case read_log env handle (blocknr + nr) of
        None \<Rightarrow> Some (Inl STATUS_UNEXPECTED_IO_ERROR)
      | Some from_buf \<Rightarrow> do {
          c \<leftarrow> jbd2_chksum env handle (jh_csum_seed handle) from_buf (unat (jh_blocksize handle));
          let calculated = (if jbd2_has_feature_csum2 (jh_as_superblock handle) then c AND 0xffff else c);
          t \<leftarrow> jbd2_tag_csum handle buf tag;
          if calculated \<noteq> t then Some (Inl STATUS_UNSUCCESSFUL)
          else do {
            f \<leftarrow> jbd2_test_flag handle buf tag JBD2_FLAG_LAST_TAG;
            if f then Some (Inl status) else Some (Inr status) } }) }"

definition jbd2_blocks_csum_verify :: "jbd2_env \<Rightarrow> jbd2_handle \<Rightarrow> jbd2_logblk_t \<Rightarrow> byte list \<Rightarrow> NTSTATUS option" where
  "jbd2_blocks_csum_verify env handle blocknr buf =
     (if \<not> jbd2_has_csum_v2or3 env handle then Some STATUS_SUCCESS
      else map_option snd (tag_for handle buf (sint (jh_blocksize handle))
        (blocks_csum_body env handle blocknr buf) sizeof_journal_header 1 STATUS_SUCCESS))"

text \<open>The copy of a log block to its place in the file system, and its unescaping.\<close>

definition replayed_block :: "jbd2_handle \<Rightarrow> byte list \<Rightarrow> nat \<Rightarrow> byte list \<Rightarrow> byte list option" where
  "replayed_block handle buf tag from_buf = do {
     to_buf \<leftarrow> ld_bytes from_buf 0 (unat (jh_blocksize handle));
     f \<leftarrow> jbd2_test_flag handle buf tag JBD2_FLAG_ESCAPE;
     if f then st to_buf 0 (cpu_to_be32 JBD2_MAGIC_NUMBER) else Some to_buf }"

definition replay_descr_body :: "jbd2_env \<Rightarrow> jbd2_tid_t \<Rightarrow> jbd2_logblk_t \<Rightarrow> byte list
    \<Rightarrow> nat \<Rightarrow> 32 word \<Rightarrow> jbd2_sys \<times> NTSTATUS \<Rightarrow> (jbd2_sys \<times> NTSTATUS + jbd2_sys \<times> NTSTATUS) option" where
  "replay_descr_body env tid blocknr buf tag nr ss = do {
     let sys = fst ss;
     fs_blocknr \<leftarrow> jbd2_tag_blocknr (sys_handle sys) buf tag;
     (handle, entry) \<leftarrow> jbd2_revoke_entry_find (sys_handle sys) fs_blocknr;
     (handle, skip) \<leftarrow> (if entry \<noteq> None then do {
          e \<leftarrow> RB_ELM (jh_revoke_table handle) entry;
          handle \<leftarrow> jbd2_revoke_entry_put handle entry;
          Some (handle, jbd2_tid_cmp tid (re_tid e) \<le> 0) }
        else Some (handle, False));
     let sys = sys\<lparr>sys_handle := handle\<rparr>;
     if skip then Some (Inr (sys, snd ss))
     else (case read_log env handle (blocknr + nr) of
        None \<Rightarrow> Some (Inl (sys, STATUS_UNEXPECTED_IO_ERROR))
      | Some from_buf \<Rightarrow> do {
          let off = blocknr_to_offset fs_blocknr (jh_blocksize handle);
          if \<not> CcPreparePinWrite_client env off then Some (Inl (sys, STATUS_UNEXPECTED_IO_ERROR))
          else do {
            to_buf \<leftarrow> replayed_block handle buf tag from_buf;
            let sys = sys\<lparr>sys_writes := sys_writes sys @ [(off, to_buf)]\<rparr>;
            f \<leftarrow> jbd2_test_flag handle buf tag JBD2_FLAG_LAST_TAG;
            if f then Some (Inl (sys, snd ss)) else Some (Inr (sys, snd ss)) } }) }"

definition jbd2_replay_descr_block :: "jbd2_env \<Rightarrow> jbd2_sys \<Rightarrow> jbd2_tid_t \<Rightarrow> jbd2_logblk_t \<Rightarrow> byte list \<Rightarrow> (jbd2_sys \<times> NTSTATUS) option" where
  "jbd2_replay_descr_block env sys tid blocknr buf =
     map_option snd (tag_for (sys_handle sys) buf (tag_limit env (sys_handle sys))
       (replay_descr_body env tid blocknr buf) sizeof_journal_header 1 (sys, STATUS_SUCCESS))"

section \<open>The entries of a revoke block\<close>

text \<open>A \<open>__u32\<close> converted to \<open>size_t\<close>, and the difference of two \<open>size_t\<close>.\<close>

definition size_t_modulus :: "jbd2_env \<Rightarrow> int" where
  "size_t_modulus env = (case size_t_bits env of Size32 \<Rightarrow> 2 ^ 32 | Size64 \<Rightarrow> 2 ^ 64)"

definition to_size_t :: "jbd2_env \<Rightarrow> int \<Rightarrow> nat" where
  "to_size_t env i = nat (i mod size_t_modulus env)"

partial_function (option) scan_revoke_loop :: "jbd2_env \<Rightarrow> jbd2_handle \<Rightarrow> jbd2_tid_t \<Rightarrow> byte list \<Rightarrow> nat \<Rightarrow> nat \<Rightarrow> nat
    \<Rightarrow> (jbd2_handle \<times> NTSTATUS) option" where
  "scan_revoke_loop env handle tid buf entry_sz rcount bufp =
     (if bufp + entry_sz \<le> rcount then do {
        fs_blocknr \<leftarrow> jbd2_revoke_entry_blocknr handle buf bufp;
        r \<leftarrow> jbd2_revoke_entry_get env handle fs_blocknr;
        if snd r = None then Some (fst r, STATUS_INSUFFICIENT_RESOURCES)
        else do {
          t \<leftarrow> set_elm (jh_revoke_table (fst r)) (snd r) (re_tid_update (\<lambda>_. tid));
          handle \<leftarrow> jbd2_revoke_entry_put ((fst r)\<lparr>jh_revoke_table := t\<rparr>) (snd r);
          scan_revoke_loop env handle tid buf entry_sz rcount (bufp + entry_sz) } }
      else Some (handle, STATUS_SUCCESS))"

declare scan_revoke_loop.simps [code]

definition jbd2_scan_revoke_entries :: "jbd2_env \<Rightarrow> jbd2_handle \<Rightarrow> jbd2_tid_t \<Rightarrow> byte list \<Rightarrow> (jbd2_handle \<times> NTSTATUS) option" where
  "jbd2_scan_revoke_entries env handle tid buf = do {
     let csum_size = (if jbd2_has_csum_v2or3 env handle then sizeof_journal_block_tail else 0);
     c \<leftarrow> revoke_r_count buf;
     let rcount = to_size_t env (sint (be32_to_cpu c));
     if to_size_t env (sint (jh_blocksize handle) - int csum_size) < rcount
     then Some (handle, STATUS_DISK_CORRUPT_ERROR)
     else scan_revoke_loop env handle tid buf (jbd2_revoke_entry_size handle) rcount sizeof_journal_header }"

section \<open>One pass over the log\<close>

record pass_state =
  ps_sys :: jbd2_sys
  ps_info :: recovery_info
  ps_blocknr :: jbd2_logblk_t
  ps_tid :: jbd2_tid_t
  ps_status :: NTSTATUS

abbreviation ps_handle :: "pass_state \<Rightarrow> jbd2_handle" where
  "ps_handle s \<equiv> sys_handle (ps_sys s)"

text \<open>\<open>curr_blocknr += n; jbd2_wrap(handle, curr_blocknr)\<close>\<close>

definition ps_advance :: "jbd2_logblk_t \<Rightarrow> pass_state \<Rightarrow> pass_state" where
  "ps_advance n s = s\<lparr>ps_blocknr := jbd2_wrap (ps_handle s) (ps_blocknr s + n)\<rparr>"

text \<open>A block that is not valid ends the log for the first pass, and is a corruption for the others.\<close>

definition invalid_block_status :: "jbd2_phase \<Rightarrow> NTSTATUS" where
  "invalid_block_status phase = (if phase = JBD2_PHASE_SCAN then STATUS_SUCCESS else STATUS_DISK_CORRUPT_ERROR)"

definition ps_end :: "pass_state \<Rightarrow> NTSTATUS \<Rightarrow> (pass_state + pass_state) option" where
  "ps_end s status = Some (Inl (s\<lparr>ps_status := status\<rparr>))"

definition replay_descriptor :: "jbd2_env \<Rightarrow> jbd2_phase \<Rightarrow> byte list \<Rightarrow> pass_state \<Rightarrow> (pass_state + pass_state) option" where
  "replay_descriptor env phase buf s = do {
     (veri, buf) \<leftarrow> jbd2_verify_descr_block env (ps_handle s) buf;
     if \<not> veri then ps_end s (invalid_block_status phase)
     else do {
       nr_tags \<leftarrow> jbd2_count_tags env (ps_handle s) buf;
       if phase \<noteq> JBD2_PHASE_REPLAY then do {
         status \<leftarrow> (if phase = JBD2_PHASE_SCAN
                    then jbd2_blocks_csum_verify env (ps_handle s) (ps_blocknr s) buf
                    else Some (ps_status s));
         if phase = JBD2_PHASE_SCAN \<and> \<not> NT_SUCCESS status then ps_end s status
         else Some (Inr (ps_advance (nr_tags + 1) (s\<lparr>ps_status := status\<rparr>))) }
       else do {
         (sys, status) \<leftarrow> jbd2_replay_descr_block env (ps_sys s) (ps_tid s) (ps_blocknr s) buf;
         let s = s\<lparr>ps_sys := sys\<rparr>;
         if \<not> NT_SUCCESS status then ps_end s status
         else Some (Inr (ps_advance (nr_tags + 1) (s\<lparr>ps_status := status\<rparr>))) } } }"

definition replay_commit :: "jbd2_env \<Rightarrow> jbd2_phase \<Rightarrow> byte list \<Rightarrow> pass_state \<Rightarrow> (pass_state + pass_state) option" where
  "replay_commit env phase buf s = do {
     (veri, buf) \<leftarrow> jbd2_verify_commit_block env (ps_handle s) buf;
     if \<not> veri then ps_end s (invalid_block_status phase)
     else do {
       let s = (if phase = JBD2_PHASE_SCAN
                then s\<lparr>ps_info := (ps_info s)\<lparr>ri_end_txn := ps_tid s, ri_has_txn := True\<rparr>\<rparr> else s);
       Some (Inr (ps_advance 1 (s\<lparr>ps_tid := ps_tid s + 1\<rparr>))) } }"

definition replay_revoke :: "jbd2_env \<Rightarrow> jbd2_phase \<Rightarrow> byte list \<Rightarrow> pass_state \<Rightarrow> (pass_state + pass_state) option" where
  "replay_revoke env phase buf s = do {
     (veri, buf) \<leftarrow> jbd2_verify_revoke_block env (ps_handle s) buf;
     if \<not> veri then ps_end s (invalid_block_status phase)
     else do {
       s \<leftarrow> (if phase = JBD2_PHASE_SCAN_REVOKE then do {
               (handle, status) \<leftarrow> jbd2_scan_revoke_entries env (ps_handle s) (ps_tid s) buf;
               Some (s\<lparr>ps_sys := (ps_sys s)\<lparr>sys_handle := handle\<rparr>\<rparr>) }
             else Some s);
       Some (Inr (ps_advance 1 s)) } }"

text \<open>
  One round of \<open>while (1)\<close>: \<open>Inl\<close> the state at \<open>end\<close>, \<open>Inr\<close> the state of the next round.  The
  \<open>switch\<close> has no case for the block types 3 and 4 (and those below 0, which pass the signed
  comparison of \<open>jbd2_verify_metadata_block\<close>).
\<close>

definition replay_step :: "jbd2_env \<Rightarrow> jbd2_phase \<Rightarrow> pass_state \<Rightarrow> (pass_state + pass_state) option" where
  "replay_step env phase s =
     (if phase \<noteq> JBD2_PHASE_SCAN \<and> jbd2_tid_cmp (ps_tid s) (ri_end_txn (ps_info s)) > 0
      then Some (Inl s)
      else (case read_log env (ps_handle s) (ps_blocknr s) of
          None \<Rightarrow> ps_end s STATUS_UNEXPECTED_IO_ERROR
        | Some buf \<Rightarrow> do {
            hdr \<leftarrow> load_journal_header buf;
            if \<not> jbd2_verify_metadata_block hdr \<or> be32_to_cpu (h_sequence hdr) \<noteq> ps_tid s
            then ps_end s (invalid_block_status phase)
            else if be32_to_cpu (h_blocktype hdr) = JBD2_DESCRIPTOR_BLOCK then replay_descriptor env phase buf s
            else if be32_to_cpu (h_blocktype hdr) = JBD2_COMMIT_BLOCK then replay_commit env phase buf s
            else if be32_to_cpu (h_blocktype hdr) = JBD2_REVOKE_BLOCK then replay_revoke env phase buf s
            else Some (Inr s) }))"

partial_function (option) replay_loop :: "jbd2_env \<Rightarrow> jbd2_phase \<Rightarrow> pass_state \<Rightarrow> pass_state option" where
  "replay_loop env phase s = do {
     r \<leftarrow> replay_step env phase s;
     if isl r then Some (projl r) else replay_loop env phase (projr r) }"

declare replay_loop.simps [code]

definition pass_start :: "jbd2_sys \<Rightarrow> jbd2_phase \<Rightarrow> pass_state" where
  "pass_start sys phase = (let tid = be32_to_cpu (s_sequence (jh_sb (sys_handle sys))) in
     \<lparr>ps_sys = sys,
      ps_info = \<lparr>ri_start_txn = (if phase = JBD2_PHASE_SCAN then tid else 0), ri_end_txn = 0, ri_has_txn = False\<rparr>,
      ps_blocknr = be32_to_cpu (s_start (jh_sb (sys_handle sys))),
      ps_tid = tid, ps_status = STATUS_SUCCESS\<rparr>)"

definition jbd2_replay_one_pass :: "jbd2_env \<Rightarrow> jbd2_sys \<Rightarrow> jbd2_phase \<Rightarrow> (jbd2_sys \<times> recovery_info \<times> NTSTATUS) option" where
  "jbd2_replay_one_pass env sys phase = do {
     s \<leftarrow> replay_loop env phase (pass_start sys phase);
     Some (ps_sys s, ps_info s, ps_status s) }"

section \<open>The three passes\<close>

text \<open>\<open>if (!status) goto cleanup\<close>: a pass that succeeds ends the replay.\<close>

definition replay_cleanup :: "jbd2_sys \<Rightarrow> NTSTATUS \<Rightarrow> (jbd2_sys \<times> NTSTATUS) option" where
  "replay_cleanup sys status = do {
     handle \<leftarrow> jbd2_revoke_table_clear (sys_handle sys);
     Some (sys\<lparr>sys_handle := handle\<rparr>, status) }"

definition jbd2_replay_journal :: "jbd2_env \<Rightarrow> jbd2_sys \<Rightarrow> (jbd2_sys \<times> NTSTATUS) option" where
  "jbd2_replay_journal env sys = do {
     (sys, info, status) \<leftarrow> jbd2_replay_one_pass env sys JBD2_PHASE_SCAN;
     if status = STATUS_SUCCESS then replay_cleanup sys status
     else do {
       (sys, info, status) \<leftarrow> jbd2_replay_one_pass env sys JBD2_PHASE_SCAN_REVOKE;
       if status = STATUS_SUCCESS then replay_cleanup sys status
       else do {
         (sys, info, status) \<leftarrow> jbd2_replay_one_pass env sys JBD2_PHASE_REPLAY;
         replay_cleanup sys status } } }"

end
