(* ===== verification/Jbd2_Replay.thy ===== *)
theory Jbd2_Replay
  imports Jbd2_Recovery
begin

text \<open>
  What a replay of the log does.

  The scan is compared with a description of the log as a list of records (\<open>log_at\<close>), the replay
  of one descriptor block with the list of copies it stands for (\<open>descr_copies\<close>).
\<close>

section \<open>Wrapping around the end of the log\<close>

lemma sint_of_int_small: "- (2 ^ 31) \<le> k \<Longrightarrow> k < 2 ^ 31 \<Longrightarrow> sint (of_int k :: 32 word) = k"
  by (simp add: int_word_sint)

lemma sint_wrapped:
  assumes "0 \<le> sint start" "sint start \<le> sint end'" "sint end' < sint var"
  shows "sint (var - (end' - start + 1)) = sint (var :: 32 word) - (sint end' - sint start + 1)"
proof -
  have "var - (end' - start + 1) = of_int (sint var - (sint end' - sint start + 1))" by simp
  moreover have "sint var < 2 ^ 31" using sint_lt [of var] by simp
  ultimately show ?thesis using assms by (simp only:) (rule sint_of_int_small; simp)
qed

text \<open>
  A block number at most one log length past the end of the log is wrapped to the block of
  the log that is congruent to it modulo the length.
\<close>

theorem jbd2_wrap_correct:
  assumes "0 \<le> sint (jh_start handle)" "sint (jh_start handle) \<le> sint (jh_end handle)"
    and "sint (jh_start handle) \<le> sint var"
    and "sint var \<le> sint (jh_end handle) + (sint (jh_end handle) - sint (jh_start handle) + 1)"
  shows "sint (jbd2_wrap handle var) = sint (jh_start handle) +
      (sint var - sint (jh_start handle)) mod (sint (jh_end handle) - sint (jh_start handle) + 1)"
proof -
  let ?len = "sint (jh_end handle) - sint (jh_start handle) + 1"
  let ?d = "sint var - sint (jh_start handle)"
  show ?thesis
  proof (cases "sint (jh_end handle) < sint var")
    case False
    then have "?d mod ?len = ?d" using assms by simp
    with False show ?thesis by (simp add: jbd2_wrap_def)
  next
    case True
    then have "?d mod ?len = (?d - ?len) mod ?len" by (simp only: minus_mod_self2)
    also have "\<dots> = ?d - ?len" using assms True by (intro mod_pos_pos_trivial) auto
    finally show ?thesis
      using True sint_wrapped [OF assms(1,2) True] by (simp add: jbd2_wrap_def)
  qed
qed

theorem jbd2_wrap_correct_witness:
  "sint (jbd2_wrap (example_handle 0 1024 8) 9) = 1 + (9 - 1) mod 7"
proof -
  have "jbd2_wrap (example_handle 0 1024 8) 9 = 2"
    by (simp add: jbd2_wrap_def example_defs)
  then show ?thesis
    using jbd2_wrap_correct [of "example_handle 0 1024 8" 9] by (simp add: example_defs)
qed

section \<open>Scanning\<close>

lemma ps_advance_simps [simp]:
  "ps_sys (ps_advance n s) = ps_sys s" "ps_info (ps_advance n s) = ps_info s"
  "ps_tid (ps_advance n s) = ps_tid s" "ps_status (ps_advance n s) = ps_status s"
  "ps_blocknr (ps_advance n s) = jbd2_wrap (ps_handle s) (ps_blocknr s + n)"
  by (simp_all add: ps_advance_def)

definition metadata_at :: "jbd2_env \<Rightarrow> jbd2_handle \<Rightarrow> jbd2_logblk_t \<Rightarrow> jbd2_tid_t \<Rightarrow> u32 \<Rightarrow> byte list \<Rightarrow> bool" where
  "metadata_at env handle blocknr tid ty buf \<longleftrightarrow> read_log env handle blocknr = Some buf \<and>
     (case load_journal_header buf of
        None \<Rightarrow> False
      | Some hdr \<Rightarrow> jbd2_verify_metadata_block hdr \<and> be32_to_cpu (h_sequence hdr) = tid \<and>
          be32_to_cpu (h_blocktype hdr) = ty)"

text \<open>
  The format of the log (\<open>jbd2_fs.h\<close>), for logs without checksums of metadata.  A record is a descriptor block with as many
  data blocks behind it as it has tags, a commit block, or a revoke block.  The last tag of a descriptor carries a flag, unless
  the tags fill the block.  A data block never starts with the magic number, because such a block is escaped.  Block numbers
  wrap around at the end of the log, and the log ends where a block does not carry the number of the expected transaction.
\<close>

datatype log_rec = Log_Descriptor "nat list" bool | Log_Commit | Log_Revoke

definition log_block :: "jbd2_env \<Rightarrow> jbd2_handle \<Rightarrow> jbd2_logblk_t \<Rightarrow> (byte list \<Rightarrow> bool) \<Rightarrow> bool" where
  "log_block env handle blocknr P \<longleftrightarrow>
     (case read_log env handle blocknr of None \<Rightarrow> False | Some buf \<Rightarrow> 12 \<le> length buf \<and> P buf)"

definition has_magic :: "byte list \<Rightarrow> bool" where
  "has_magic buf \<longleftrightarrow> word_of_be (take 4 buf) = JBD2_MAGIC_NUMBER"

definition log_header :: "u32 \<Rightarrow> jbd2_tid_t \<Rightarrow> byte list \<Rightarrow> bool" where
  "log_header ty tid buf \<longleftrightarrow> has_magic buf \<and> word_of_be (take 4 (drop 4 buf)) = ty \<and> word_of_be (take 4 (drop 8 buf)) = tid"

fun log_at :: "jbd2_env \<Rightarrow> jbd2_handle \<Rightarrow> jbd2_logblk_t \<Rightarrow> jbd2_tid_t \<Rightarrow> log_rec list \<Rightarrow> bool" where
  "log_at env handle blocknr tid [] \<longleftrightarrow>
     log_block env handle blocknr (\<lambda>buf. \<not> (has_magic buf \<and> word_of_be (take 4 (drop 8 buf)) = tid))"
| "log_at env handle blocknr tid (Log_Descriptor ts flagged # rs) \<longleftrightarrow>
     log_block env handle blocknr (\<lambda>buf. log_header JBD2_DESCRIPTOR_BLOCK tid buf
       \<and> tags_at handle buf (sint (jh_blocksize handle)) sizeof_journal_header ts \<and> (last_flagged handle buf ts \<longleftrightarrow> flagged))
     \<and> (\<forall>i \<in> {1..length ts}. log_block env handle (jbd2_wrap handle (blocknr + of_nat i)) (\<lambda>buf. \<not> has_magic buf))
     \<and> log_at env handle (jbd2_wrap handle (blocknr + of_nat (length ts) + 1)) tid rs"
| "log_at env handle blocknr tid (Log_Commit # rs) \<longleftrightarrow>
     log_block env handle blocknr (log_header JBD2_COMMIT_BLOCK tid) \<and> log_at env handle (jbd2_wrap handle (blocknr + 1)) (tid + 1) rs"
| "log_at env handle blocknr tid (Log_Revoke # rs) \<longleftrightarrow>
     log_block env handle blocknr (log_header JBD2_REVOKE_BLOCK tid) \<and> log_at env handle (jbd2_wrap handle (blocknr + 1)) tid rs"

text \<open>The descriptor blocks whose tags \<open>jbd2_count_tags\<close> counts as they are.\<close>

fun well_counted :: "log_rec \<Rightarrow> bool" where
  "well_counted (Log_Descriptor ts flagged) \<longleftrightarrow> \<not> flagged"
| "well_counted _ \<longleftrightarrow> True"

definition commits :: "log_rec list \<Rightarrow> nat" where
  "commits rs = length (filter ((=) Log_Commit) rs)"

lemma commits_simps [simp]:
  "commits [] = 0" "commits (Log_Commit # rs) = Suc (commits rs)"
  "commits (Log_Descriptor ts l # rs) = commits rs" "commits (Log_Revoke # rs) = commits rs"
  by (simp_all add: commits_def)

definition scanned :: "jbd2_tid_t \<Rightarrow> nat \<Rightarrow> recovery_info \<Rightarrow> recovery_info" where
  "scanned tid n info =
     (if n = 0 then info else info\<lparr>ri_end_txn := tid + of_nat n - 1, ri_has_txn := True\<rparr>)"

lemma scanned_Suc:
  "scanned (tid + 1) n (info\<lparr>ri_end_txn := tid, ri_has_txn := True\<rparr>) = scanned tid (Suc n) info"
  by (simp add: scanned_def algebra_simps)

lemma replay_loop_next: "replay_step env phase s = Some (Inr s') \<Longrightarrow> replay_loop env phase s = replay_loop env phase s'"
  by (subst replay_loop.simps) simp

lemma replay_loop_done: "replay_step env phase s = Some (Inl s') \<Longrightarrow> replay_loop env phase s = Some s'"
  by (subst replay_loop.simps) simp

lemma blocktype_neq [simp]:
  "JBD2_DESCRIPTOR_BLOCK \<noteq> JBD2_COMMIT_BLOCK" "JBD2_COMMIT_BLOCK \<noteq> JBD2_DESCRIPTOR_BLOCK"
  "JBD2_REVOKE_BLOCK \<noteq> JBD2_DESCRIPTOR_BLOCK" "JBD2_REVOKE_BLOCK \<noteq> JBD2_COMMIT_BLOCK"
  "JBD2_DESCRIPTOR_BLOCK \<noteq> JBD2_REVOKE_BLOCK" "JBD2_COMMIT_BLOCK \<noteq> JBD2_REVOKE_BLOCK"
  by (simp_all add: jbd2_blocktype_defs)

lemma replay_step_metadata:
  assumes "metadata_at env (ps_handle s) (ps_blocknr s) (ps_tid s) ty buf"
  shows "replay_step env JBD2_PHASE_SCAN s =
    (if ty = JBD2_DESCRIPTOR_BLOCK then replay_descriptor env JBD2_PHASE_SCAN buf s
     else if ty = JBD2_COMMIT_BLOCK then replay_commit env JBD2_PHASE_SCAN buf s
     else if ty = JBD2_REVOKE_BLOCK then replay_revoke env JBD2_PHASE_SCAN buf s
     else Some (Inr s))"
  using assms by (auto simp: replay_step_def metadata_at_def split: option.splits)

lemma header_fields:
  assumes "12 \<le> length buf"
  shows "\<exists>hdr. load_journal_header buf = Some hdr \<and> be32_to_cpu (h_magic hdr) = word_of_be (take 4 buf)
    \<and> be32_to_cpu (h_blocktype hdr) = word_of_be (take 4 (drop 4 buf)) \<and> be32_to_cpu (h_sequence hdr) = word_of_be (take 4 (drop 8 buf))"
  using assms be_field(2) [of 0 buf] be_field(2) [of 4 buf] be_field(2) [of 8 buf]
  by (auto simp: load_journal_header_def)

lemma log_block_metadata:
  assumes "log_block env handle blocknr (\<lambda>buf. log_header ty tid buf \<and> P buf)"
    and "ty \<in> {JBD2_DESCRIPTOR_BLOCK, JBD2_COMMIT_BLOCK, JBD2_REVOKE_BLOCK}" "\<not> jbd2_has_csum_v2or3 env handle"
  shows "\<exists>buf. metadata_at env handle blocknr tid ty buf \<and> P buf \<and> jbd2_verify_descr_block env handle buf = Some (True, buf)
    \<and> jbd2_verify_commit_block env handle buf = Some (True, buf) \<and> jbd2_verify_revoke_block env handle buf = Some (True, buf)"
proof -
  obtain buf where buf: "read_log env handle blocknr = Some buf" "12 \<le> length buf" "log_header ty tid buf" "P buf"
    using assms(1) by (auto simp: log_block_def split: option.splits)
  then show ?thesis
    using assms(2,3) header_fields [OF buf(2)]
    by (auto simp: metadata_at_def jbd2_verify_metadata_block_def jbd2_verify_defs log_header_def has_magic_def jbd2_blocktype_defs)
qed

text \<open>A scan ends with success at a block that does not belong to the expected transaction.\<close>

lemma scan_ends:
  assumes "log_block env (ps_handle s) (ps_blocknr s) (\<lambda>buf. \<not> (has_magic buf \<and> word_of_be (take 4 (drop 8 buf)) = ps_tid s))"
    and "ps_status s = STATUS_SUCCESS"
  shows "replay_loop env JBD2_PHASE_SCAN s = Some s"
proof (rule replay_loop_done)
  obtain buf where buf: "read_log env (ps_handle s) (ps_blocknr s) = Some buf" "12 \<le> length buf"
    "\<not> (has_magic buf \<and> word_of_be (take 4 (drop 8 buf)) = ps_tid s)"
    using assms(1) by (auto simp: log_block_def split: option.splits)
  then show "replay_step env JBD2_PHASE_SCAN s = Some (Inl s)"
    using header_fields [OF buf(2)] assms(2)
    by (auto simp: replay_step_def ps_end_def invalid_block_status_def has_magic_def jbd2_verify_metadata_block_def)
qed

lemma scan_log:
  "log_at env (ps_handle s) (ps_blocknr s) (ps_tid s) rs \<Longrightarrow> \<not> jbd2_has_csum_v2or3 env (ps_handle s) \<Longrightarrow> ps_status s = STATUS_SUCCESS \<Longrightarrow>
     \<exists>s'. replay_loop env JBD2_PHASE_SCAN s = Some s' \<and> ps_sys s' = ps_sys s \<and>
       ps_info s' = scanned (ps_tid s) (commits (takeWhile well_counted rs)) (ps_info s) \<and> ps_status s' = STATUS_SUCCESS"
proof (induction rs arbitrary: s)
  case Nil
  then show ?case using scan_ends [of env s] by (simp add: scanned_def)
next
  case (Cons r rs)
  note block = log_block_metadata [OF _ _ Cons.prems(2), of "ps_blocknr s" _ "ps_tid s"]
  show ?case
  proof (cases r)
    case (Log_Descriptor ts flagged)
    have limit: "tag_limit env (ps_handle s) = sint (jh_blocksize (ps_handle s))" using Cons.prems(2) by (simp add: tag_limit_def)
    from Log_Descriptor Cons.prems(1) have "log_block env (ps_handle s) (ps_blocknr s) (\<lambda>buf. log_header JBD2_DESCRIPTOR_BLOCK (ps_tid s) buf
        \<and> (tags_at (ps_handle s) buf (tag_limit env (ps_handle s)) sizeof_journal_header ts \<and> last_flagged (ps_handle s) buf ts = flagged))"
      by (simp add: limit)
    from block [OF this] obtain buf where buf: "metadata_at env (ps_handle s) (ps_blocknr s) (ps_tid s) JBD2_DESCRIPTOR_BLOCK buf"
      "jbd2_verify_descr_block env (ps_handle s) buf = Some (True, buf)"
      "tags_at (ps_handle s) buf (tag_limit env (ps_handle s)) sizeof_journal_header ts" "last_flagged (ps_handle s) buf ts = flagged"
      by auto
    define n :: "32 word" where "n = of_nat (if flagged then length ts - 1 else length ts) + 1"
    let ?s = "ps_advance n s"
    have "jbd2_count_tags env (ps_handle s) buf = Some (n - 1)" using jbd2_count_tags_eq [OF buf(3)] buf(4) by (simp add: n_def)
    then have "replay_step env JBD2_PHASE_SCAN s = Some (Inr (ps_advance n (s\<lparr>ps_status := STATUS_SUCCESS\<rparr>)))"
      using buf(1,2) Cons.prems(2) by (simp add: replay_step_metadata replay_descriptor_def jbd2_blocks_csum_verify_def)
    then have step: "replay_loop env JBD2_PHASE_SCAN s = replay_loop env JBD2_PHASE_SCAN ?s"
      using replay_loop_next Cons.prems(3) by (metis pass_state.surjective pass_state.update_convs(5))
    show ?thesis
    proof (cases flagged)
      case True
      then have "ts \<noteq> []" using buf(4) by (simp add: last_flagged_def)
      then have len: "length ts \<in> {1..length ts}" by (cases ts) simp_all
      have "n = of_nat (length ts)" using True \<open>ts \<noteq> []\<close> by (cases ts) (simp_all add: n_def)
      then have "ps_blocknr ?s = jbd2_wrap (ps_handle s) (ps_blocknr s + of_nat (length ts))" by simp
      moreover have "log_block env (ps_handle s) (jbd2_wrap (ps_handle s) (ps_blocknr s + of_nat (length ts))) (\<lambda>buf. \<not> has_magic buf)"
        using Cons.prems(1) Log_Descriptor len by (simp del: atLeastAtMost_iff)
      ultimately have "log_block env (ps_handle ?s) (ps_blocknr ?s) (\<lambda>buf. \<not> (has_magic buf \<and> word_of_be (take 4 (drop 8 buf)) = ps_tid ?s))"
        by (auto simp: log_block_def split: option.splits)
      from scan_ends [OF this] show ?thesis
        using step Cons.prems(3) Log_Descriptor True by (simp add: scanned_def)
    next
      case False
      then have "ps_blocknr ?s = jbd2_wrap (ps_handle s) (ps_blocknr s + of_nat (length ts) + 1)" by (simp add: n_def add.assoc)
      then show ?thesis using step Cons.IH [of ?s] Cons.prems Log_Descriptor False by simp
    qed
  next
    case Log_Commit
    let ?s = "ps_advance 1 (s\<lparr>ps_info := (ps_info s)\<lparr>ri_end_txn := ps_tid s, ri_has_txn := True\<rparr>, ps_tid := ps_tid s + 1\<rparr>)"
    from Log_Commit Cons.prems(1) obtain buf where
      "metadata_at env (ps_handle s) (ps_blocknr s) (ps_tid s) JBD2_COMMIT_BLOCK buf"
      "jbd2_verify_commit_block env (ps_handle s) buf = Some (True, buf)" using block [of JBD2_COMMIT_BLOCK "\<lambda>_. True"] by auto
    then have "replay_step env JBD2_PHASE_SCAN s = Some (Inr ?s)"
      by (simp add: replay_step_metadata replay_commit_def)
    from replay_loop_next [OF this] Cons.IH [of ?s] Cons.prems Log_Commit show ?thesis
      by (simp add: scanned_Suc)
  next
    case Log_Revoke
    from Log_Revoke Cons.prems(1) obtain buf where
      "metadata_at env (ps_handle s) (ps_blocknr s) (ps_tid s) JBD2_REVOKE_BLOCK buf"
      "jbd2_verify_revoke_block env (ps_handle s) buf = Some (True, buf)" using block [of JBD2_REVOKE_BLOCK "\<lambda>_. True"] by auto
    then have "replay_step env JBD2_PHASE_SCAN s = Some (Inr (ps_advance 1 s))"
      by (simp add: replay_step_metadata replay_revoke_def)
    from replay_loop_next [OF this] Cons.IH [of "ps_advance 1 s"] Cons.prems Log_Revoke show ?thesis
      by simp
  qed
qed

text \<open>
  C10. Scanning a log without checksums of metadata that holds the records \<open>rs\<close> from the superblock's start and sequence
  number on ends with success, changes nothing, and finds the transactions that were committed before the first
  descriptor block whose last tag carries the flag of the last tag: there \<open>jbd2_count_tags\<close> is one too small, and the scan
  takes the last data block of the descriptor for the end of the log.  A log without such a descriptor is scanned to its end.
\<close>

theorem jbd2_scan_correct:
  fixes sys
  defines "handle \<equiv> sys_handle sys"
  defines "tid \<equiv> be32_to_cpu (s_sequence (jh_sb handle))"
  assumes "log_at env handle (be32_to_cpu (s_start (jh_sb handle))) tid rs" "\<not> jbd2_has_csum_v2or3 env handle"
  shows "jbd2_replay_one_pass env sys JBD2_PHASE_SCAN = Some (sys,
    let n = commits (takeWhile well_counted rs) in
    \<lparr>ri_start_txn = tid, ri_end_txn = (if n = 0 then 0 else tid + of_nat n - 1), ri_has_txn = (n \<noteq> 0)\<rparr>, STATUS_SUCCESS)"
  using scan_log [of env "pass_start sys JBD2_PHASE_SCAN" rs] assms
  by (auto simp: jbd2_replay_one_pass_def pass_start_def scanned_def Let_def)

text \<open>A log with one committed transaction: a commit block in block 1, and nothing after it.\<close>

definition example_log :: "s64 \<Rightarrow> byte list option" where
  "example_log off = Some (if off = 16 then [0xc0, 0x3b, 0x39, 0x98, 0, 0, 0, 2, 0, 0, 0, 1, 0, 0, 0, 0]
     else replicate 16 0)"

definition example_sys :: jbd2_sys where
  "example_sys = \<lparr>sys_handle = example_handle 0 16 8, sys_writes = []\<rparr>"

lemma be32_to_cpu_eval:
  "be32_to_cpu w = word_of_le (rev [ucast w, ucast (drop_bit 8 w), ucast (drop_bit 16 w), ucast (drop_bit 24 w)])"
  by (simp add: endian_defs bswap_def le_of_word_eval)

lemmas log_eval = log_block_def log_header_def has_magic_def word_of_be_def read_log_def blocknr_to_offset_def u64_of_u32_def
  jbd2_wrap_def JBD2_MAGIC_NUMBER_def jbd2_blocktype_defs

lemma example_log_at:
  "log_at (example_env False example_log) (example_handle 0 16 8) 1 1 [Log_Commit]"
  by (simp add: log_eval example_defs example_log_def)

text \<open>
  A log with two committed transactions in blocks of 32 bytes.  The tags of the first descriptor, in block 1, fill its block;
  the second descriptor, in block 5, has room for no third tag either, but its last tag carries the flag.
\<close>

definition example_txns :: "s64 \<Rightarrow> byte list option" where
  "example_txns off = Some (
     if off = 32 then [0xc0, 0x3b, 0x39, 0x98, 0, 0, 0, 1, 0, 0, 0, 1, 0, 0, 0, 5, 0, 0, 0, 2, 0, 0, 0, 6, 0, 0, 0, 2, 0, 0, 0, 0]
     else if off = 128 then [0xc0, 0x3b, 0x39, 0x98, 0, 0, 0, 2, 0, 0, 0, 1] @ replicate 20 0
     else if off = 160 then [0xc0, 0x3b, 0x39, 0x98, 0, 0, 0, 1, 0, 0, 0, 2, 0, 0, 0, 7, 0, 0, 0, 2, 0, 0, 0, 8, 0, 0, 0, 10, 0, 0, 0, 0]
     else if off = 256 then [0xc0, 0x3b, 0x39, 0x98, 0, 0, 0, 2, 0, 0, 0, 2] @ replicate 20 0
     else replicate 32 0)"

lemma example_tag_eval:
  "jbd2_min_tag_size (example_handle 0 32 n) = 8"
  "jbd2_test_flag (example_handle 0 32 n) buf t f = map_option (\<lambda>w. u32_of_u16 (be16_to_cpu w) AND f \<noteq> 0) (ld buf (t + 6))"
  "jbd2_tag_size (example_handle 0 32 n) buf t =
     map_option (\<lambda>w. if u32_of_u16 (be16_to_cpu w) AND JBD2_FLAG_SAME_UUID = 0 then 8 + UUID_SIZE else 8) (ld buf (t + 6))"
  by (cases "ld buf (t + 6) :: u16 option"; simp add: jbd2_min_tag_size_def jbd2_sizeof_defs jbd2_test_flag_def jbd2_tag_size_def
      tag_t_flags_def Let_def)+

lemma example_log_start [simp]:
  "be32_to_cpu (s_start (jh_sb (example_handle f bs n))) = 1" "be32_to_cpu (s_sequence (jh_sb (example_handle f bs n))) = 1"
  "\<not> jbd2_has_csum_v2or3 (example_env False log) h"
  by (simp_all add: example_defs)

lemma example_txns_at:
  "log_at (example_env False example_txns) (example_handle 0 32 16) 1 1
     [Log_Descriptor [12, 20] False, Log_Commit, Log_Descriptor [12, 20] True, Log_Commit]"
proof -
  let ?env = "example_env False example_txns" and ?h = "example_handle 0 32 16"
  have read: "log_block ?env ?h b P \<longleftrightarrow> (case example_txns (blocknr_to_offset (u64_of_u32 b) 32) of Some buf \<Rightarrow> 12 \<le> length buf \<and> P buf)" for b P
    by (simp add: log_block_def read_log_def example_defs split: option.split) (simp add: example_txns_def)
  have wrap: "jbd2_wrap ?h b = (if u32_lt 15 b then b - 15 else b)" for b by (simp add: jbd2_wrap_def example_defs)
  have bs: "jh_blocksize ?h = 32" by (simp add: example_defs)
  have data: "{1..length [12 :: nat, 20]} = {1, 2}" by auto
  show ?thesis
    unfolding log_at.simps read wrap bs data
    by (simp add: example_txns_def blocknr_to_offset_def u64_of_u32_def log_header_def has_magic_def word_of_be_def
        JBD2_MAGIC_NUMBER_def jbd2_blocktype_defs sizeof_journal_header_def last_flagged_def example_tag_eval ld_def
        jbd2_flag_defs u32_of_u16_def endian_defs bswap_def le_of_word_eval)
qed

theorem jbd2_scan_correct_witness:
  "jbd2_replay_one_pass (example_env False example_txns) \<lparr>sys_handle = example_handle 0 32 16, sys_writes = []\<rparr> JBD2_PHASE_SCAN =
    Some (\<lparr>sys_handle = example_handle 0 32 16, sys_writes = []\<rparr>, \<lparr>ri_start_txn = 1, ri_end_txn = 1, ri_has_txn = True\<rparr>, STATUS_SUCCESS)"
  using jbd2_scan_correct [of "example_env False example_txns" "\<lparr>sys_handle = example_handle 0 32 16, sys_writes = []\<rparr>"
      "[Log_Descriptor [12, 20] False, Log_Commit, Log_Descriptor [12, 20] True, Log_Commit]"] example_txns_at
  by (simp add: Let_def del: log_at.simps)

section \<open>Invariants of a pass\<close>

text \<open>A property that every step keeps, until the last one establishes \<open>Q\<close>.\<close>

lemma replay_loop_induct:
  assumes "replay_loop env phase s = Some s'" "P s"
    and step: "\<And>s r. P s \<Longrightarrow> replay_step env phase s = Some (Inr r) \<Longrightarrow> P r"
    and final: "\<And>s r. P s \<Longrightarrow> replay_step env phase s = Some (Inl r) \<Longrightarrow> Q r"
  shows "Q s'"
proof -
  have "e = env \<longrightarrow> ph = phase \<longrightarrow> P s \<longrightarrow> Q s'" if "replay_loop e ph s = Some s'" for e ph s s'
  proof (rule replay_loop.raw_induct [OF _ that, where P = "\<lambda>e ph s s'. e = env \<longrightarrow> ph = phase \<longrightarrow> P s \<longrightarrow> Q s'"],
      intro impI)
    fix loop e ph s s'
    assume IH: "\<And>e ph s s'. loop e ph s = Some s' \<Longrightarrow> e = env \<longrightarrow> ph = phase \<longrightarrow> P s \<longrightarrow> Q s'"
      and body: "Option.bind (replay_step e ph s) (\<lambda>r. if isl r then Some (projl r) else loop e ph (projr r)) = Some s'"
      and eq: "e = env" "ph = phase" and P: "P s"
    from body obtain r where r: "replay_step env phase s = Some r"
      "(if isl r then Some (projl r) else loop env phase (projr r)) = Some s'"
      unfolding eq by (auto simp: fault_simps)
    show "Q s'"
    proof (cases r)
      case (Inl x)
      with r final [OF P] show ?thesis by simp
    next
      case (Inr x)
      with r step [OF P] have "P x" "loop env phase x = Some s'" by simp_all
      with IH show ?thesis by blast
    qed
  qed
  with assms(1,2) show ?thesis by blast
qed

lemma scan_step_keeps:
  assumes "replay_step env JBD2_PHASE_SCAN s = Some r"
  shows "ps_sys (case r of Inl s' \<Rightarrow> s' | Inr s' \<Rightarrow> s') = ps_sys s"
  using assms
  by (auto simp: replay_step_def replay_descriptor_def replay_commit_def replay_revoke_def ps_end_def
      fault_simps split: option.splits if_splits)

lemma scan_keeps_sys:
  assumes "replay_loop env JBD2_PHASE_SCAN s = Some s'"
  shows "ps_sys s' = ps_sys s"
  by (rule replay_loop_induct [OF assms, where P = "\<lambda>x. ps_sys x = ps_sys s"])
    (auto dest: scan_step_keeps)

text \<open>
  C32. Whatever the log holds: a scan writes nothing and leaves the handle as it was.
\<close>

theorem jbd2_scan_reads_only:
  assumes "jbd2_replay_one_pass env sys JBD2_PHASE_SCAN = Some (sys', info, status)"
  shows "sys' = sys"
  using assms scan_keeps_sys [of env "pass_start sys JBD2_PHASE_SCAN"]
  by (auto simp: jbd2_replay_one_pass_def fault_simps pass_start_def Let_def)

theorem jbd2_scan_reads_only_witness:
  "\<exists>sys' info. jbd2_replay_one_pass (example_env False example_log) example_sys JBD2_PHASE_SCAN
     = Some (sys', info, STATUS_SUCCESS) \<and> sys' = example_sys"
proof -
  have "\<exists>s'. replay_loop (example_env False example_log) JBD2_PHASE_SCAN
      (pass_start example_sys JBD2_PHASE_SCAN) = Some s' \<and> ps_status s' = STATUS_SUCCESS"
    using scan_log [of "example_env False example_log" "pass_start example_sys JBD2_PHASE_SCAN" "[Log_Commit]"]
      example_log_at by (auto simp: pass_start_def example_sys_def Let_def)
  then obtain s' where s': "replay_loop (example_env False example_log) JBD2_PHASE_SCAN
      (pass_start example_sys JBD2_PHASE_SCAN) = Some s'" "ps_status s' = STATUS_SUCCESS" by blast
  then have "jbd2_replay_one_pass (example_env False example_log) example_sys JBD2_PHASE_SCAN
      = Some (ps_sys s', ps_info s', STATUS_SUCCESS)" by (simp add: jbd2_replay_one_pass_def)
  then show ?thesis using jbd2_scan_reads_only by blast
qed

text \<open>
  C33. A block that is typed as a superblock and carries the expected sequence number stops every
  pass from ending: the round leaves the state as it was, and the loop has no result.
\<close>

lemma fixpoint_diverges:
  assumes "replay_step env phase s = Some (Inr s)"
  shows "replay_loop env phase s = None"
proof (rule ccontr)
  assume "replay_loop env phase s \<noteq> None"
  then obtain s' where "replay_loop env phase s = Some s'" by auto
  then have False by (rule replay_loop_induct [where P = "\<lambda>x. x = s" and Q = "\<lambda>_. False"]) (auto simp: assms)
  then show False .
qed

theorem superblock_in_log_diverges:
  assumes "metadata_at env (ps_handle s) (ps_blocknr s) (ps_tid s) ty buf"
    and "ty = JBD2_SUPERBLOCK_V1 \<or> ty = JBD2_SUPERBLOCK_V2"
    and "phase = JBD2_PHASE_SCAN \<or> ps_tid s = ri_end_txn (ps_info s)"
  shows "replay_step env phase s = Some (Inr s) \<and> replay_loop env phase s = None"
proof -
  have "replay_step env phase s = Some (Inr s)"
    using assms by (auto simp: replay_step_def metadata_at_def jbd2_blocktype_defs split: option.splits)
  with fixpoint_diverges show ?thesis by blast
qed

theorem superblock_in_log_diverges_witness:
  "let log = (\<lambda>_. Some [0xc0, 0x3b, 0x39, 0x98, 0, 0, 0, 3, 0, 0, 0, 1, 0, 0, 0, 0])
   in replay_loop (example_env False log) JBD2_PHASE_SCAN (pass_start example_sys JBD2_PHASE_SCAN) = None"
proof -
  let ?buf = "[0xc0, 0x3b, 0x39, 0x98, 0, 0, 0, 3, 0, 0, 0, 1, 0, 0, 0, 0] :: byte list"
  let ?s = "pass_start example_sys JBD2_PHASE_SCAN"
  have "metadata_at (example_env False (\<lambda>_. Some ?buf)) (ps_handle ?s) (ps_blocknr ?s) (ps_tid ?s)
      JBD2_SUPERBLOCK_V1 ?buf"
    by (simp add: metadata_at_def read_log_def example_env_def pass_start_def example_sys_def Let_def
        example_handle_def example_superblock_def load_journal_header_def ld_def be32_to_cpu_eval
        jbd2_verify_metadata_block_def JBD2_MAGIC_NUMBER_def jbd2_blocktype_defs)
      (simp add: endian_defs bswap_def le_of_word_eval)
  from superblock_in_log_diverges [OF this] show ?thesis by (simp add: Let_def)
qed

section \<open>The replay as a whole\<close>

lemma revoke_table_clear_empty:
  "RB_EMPTY (jh_revoke_table handle) \<Longrightarrow> jbd2_revoke_table_clear handle = Some handle"
  using rb_min_first [of _ "jh_revoke_table handle" "\<langle>\<rangle>"]
  by (simp add: jbd2_revoke_table_clear_def RB_FOREACH_SAFE_def rb_walk_safe.simps)

lemma late_pass_ends:
  assumes "s_sequence (jh_sb (sys_handle sys)) \<noteq> 0" "phase \<noteq> JBD2_PHASE_SCAN"
  shows "jbd2_replay_one_pass env sys phase = Some (sys, \<lparr>ri_start_txn = 0, ri_end_txn = 0, ri_has_txn = False\<rparr>, STATUS_SUCCESS)"
proof -
  have "be32_to_cpu (s_sequence (jh_sb (sys_handle sys))) \<noteq> 0"
    using assms(1) be32_to_cpu_inject [of _ 0] by (simp add: endian_defs)
  then have "replay_step env phase (pass_start sys phase) = Some (Inl (pass_start sys phase))"
    using assms(2) by (simp add: replay_step_def pass_start_def Let_def)
  from replay_loop_done [OF this] show ?thesis
    using assms(2) by (simp add: jbd2_replay_one_pass_def pass_start_def Let_def)
qed

text \<open>
  C16. With a sequence number other than zero, no replay that returns has written a block to the
  file system, whatever the log holds, and its status is success: a successful scan ends it, and
  after a failed one the later passes, whose recovery information has been cleared, stop at
  once with success.
\<close>

theorem jbd2_replay_journal_writes_nothing:
  assumes "s_sequence (jh_sb (sys_handle sys)) \<noteq> 0"
    and "jbd2_replay_journal env sys = Some (sys', status)"
  shows "sys_writes sys' = sys_writes sys \<and> status = STATUS_SUCCESS"
proof -
  obtain sys1 info st where scan: "jbd2_replay_one_pass env sys JBD2_PHASE_SCAN = Some (sys1, info, st)"
    using assms(2) by (auto simp: jbd2_replay_journal_def fault_simps)
  have "sys1 = sys"
    using scan scan_keeps_sys [of env "pass_start sys JBD2_PHASE_SCAN"]
    by (auto simp: jbd2_replay_one_pass_def fault_simps pass_start_def Let_def)
  with scan assms(2) late_pass_ends [OF assms(1), of JBD2_PHASE_SCAN_REVOKE env]
  have "replay_cleanup sys STATUS_SUCCESS = Some (sys', status)"
    by (cases "st = STATUS_SUCCESS") (simp_all add: jbd2_replay_journal_def)
  then show ?thesis by (auto simp: replay_cleanup_def fault_simps)
qed

text \<open>It does return where the log is well formed and the revoke table is empty.\<close>

lemma replay_journal_returns:
  assumes "log_at env (sys_handle sys) (be32_to_cpu (s_start (jh_sb (sys_handle sys))))
      (be32_to_cpu (s_sequence (jh_sb (sys_handle sys)))) rs" "\<not> jbd2_has_csum_v2or3 env (sys_handle sys)"
    and "RB_EMPTY (jh_revoke_table (sys_handle sys))"
  shows "jbd2_replay_journal env sys = Some (sys, STATUS_SUCCESS)"
  using scan_log [of env "pass_start sys JBD2_PHASE_SCAN" rs] assms revoke_table_clear_empty [OF assms(3)]
  by (auto simp: jbd2_replay_journal_def jbd2_replay_one_pass_def pass_start_def Let_def replay_cleanup_def)

theorem jbd2_replay_journal_writes_nothing_witness:
  "jbd2_replay_journal (example_env False example_log) example_sys = Some (example_sys, STATUS_SUCCESS) \<and>
   sys_writes example_sys = sys_writes example_sys"
proof -
  have "jbd2_replay_journal (example_env False example_log) example_sys = Some (example_sys, STATUS_SUCCESS)"
    using replay_journal_returns [of "example_env False example_log" example_sys "[Log_Commit]"] example_log_at
    by (simp add: example_sys_def RB_EMPTY_def) (simp add: example_handle_def)
  moreover have "s_sequence (jh_sb (sys_handle example_sys)) \<noteq> 0"
    using be32_to_cpu_inject [of "cpu_to_be32 1" 0]
    by (simp add: example_sys_def example_handle_def example_superblock_def) (simp add: endian_defs)
  ultimately show ?thesis using jbd2_replay_journal_writes_nothing by blast
qed

section \<open>Replaying a descriptor block\<close>

text \<open>
  A block of transaction \<open>tid\<close> is revoked if its entry in the revoke table carries this transaction or a later one; numbers of
  transactions wrap around, so the sign of their difference orders them.
\<close>

definition later_txn :: "jbd2_tid_t \<Rightarrow> jbd2_tid_t \<Rightarrow> bool" where
  "later_txn a b \<longleftrightarrow> 0 < sint (a - b)"

definition revoke_tid :: "jbd2_handle \<Rightarrow> ptr tree \<Rightarrow> jbd2_fsblk_t \<Rightarrow> jbd2_tid_t option" where
  "revoke_tid handle T fs_blocknr = map_option re_tid (Option.bind (revoke_lookup handle T fs_blocknr) (entry_at handle))"

definition revoked :: "jbd2_handle \<Rightarrow> ptr tree \<Rightarrow> jbd2_tid_t \<Rightarrow> jbd2_fsblk_t \<Rightarrow> bool" where
  "revoked handle T tid fs_blocknr \<longleftrightarrow>
     (case revoke_tid handle T fs_blocknr of None \<Rightarrow> False | Some r \<Rightarrow> \<not> later_txn tid r)"

text \<open>What the code skips: \<open>jbd2_tid_cmp\<close> compares unsigned numbers, and so only recognises the transaction itself.\<close>

definition skipped :: "jbd2_handle \<Rightarrow> ptr tree \<Rightarrow> jbd2_tid_t \<Rightarrow> jbd2_fsblk_t \<Rightarrow> bool" where
  "skipped handle T tid fs_blocknr \<longleftrightarrow> revoke_tid handle T fs_blocknr = Some tid"


text \<open>So a block that a later transaction has revoked is replayed.\<close>

lemma later_revoke_ignored:
  assumes "revoke_tid handle T fs = Some r" "later_txn r tid"
  shows "revoked handle T tid fs \<and> \<not> skipped handle T tid fs"
proof -
  have "sint (tid - r) = - sint (r - tid)"
  proof -
    have "tid - r = of_int (- sint (r - tid))" by simp
    also have "sint (\<dots> :: 32 word) = - sint (r - tid)"
      using assms(2) sint_lt [of "r - tid"] by (intro sint_of_int_small) (auto simp: later_txn_def)
    finally show ?thesis .
  qed
  then show ?thesis using assms by (auto simp: revoked_def skipped_def later_txn_def)
qed







text \<open>
  An escaped block gets the magic number back as its first word and keeps the rest; any other
  block is copied as it is.
\<close>

lemma replayed_block_content:
  assumes "replayed_block handle buf tag blk = Some to_buf" "length blk = unat (jh_blocksize handle)"
  shows "to_buf = blk \<or> jbd2_test_flag handle buf tag JBD2_FLAG_ESCAPE = Some True \<and>
    ld to_buf 0 = Some (cpu_to_be32 JBD2_MAGIC_NUMBER) \<and> drop 4 to_buf = drop 4 blk"
  using assms ld_st_same [of blk 0 "cpu_to_be32 JBD2_MAGIC_NUMBER" to_buf 4]
  by (auto simp: replayed_block_def ld_bytes_def fault_simps split: if_splits)
    (auto simp: st_def split: if_splits)











end
