(* ===== verification/Ledger.thy ===== *)
theory Ledger
  imports Prelude
begin

text \<open>
  Ledgers of what is held of the kernel: a set that a function passes along.  Acquiring what is already
  held and releasing what is not are faults.
\<close>

definition acquire :: "'r \<Rightarrow> 'r set \<Rightarrow> 'r set option" where
  "acquire r live = (if r \<in> live then None else Some (insert r live))"

definition release :: "'r \<Rightarrow> 'r set \<Rightarrow> 'r set option" where
  "release r live = (if r \<in> live then Some (live - {r}) else None)"

definition release_if :: "bool \<Rightarrow> 'r \<Rightarrow> 'r set \<Rightarrow> 'r set option" where
  "release_if b r live = (if b then release r live else Some live)"

lemma acquire_fresh [simp]: "r \<notin> live \<Longrightarrow> acquire r live = Some (insert r live)"
  by (simp add: acquire_def)

lemma release_insert [simp]: "r \<notin> A \<Longrightarrow> release r (insert r A) = Some A"
  by (simp add: release_def)

lemma release_held: "r \<in> live \<Longrightarrow> release r live = Some (live - {r})"
  by (simp add: release_def)

text \<open>What a flag says is held.\<close>

definition opt :: "bool \<Rightarrow> 'r \<Rightarrow> 'r set \<Rightarrow> 'r set" where
  "opt b r A = (if b then insert r A else A)"

lemma in_opt [simp]: "x \<in> opt b r A \<longleftrightarrow> b \<and> x = r \<or> x \<in> A"
  by (auto simp: opt_def)

lemma release_opt [simp]: "r \<notin> A \<Longrightarrow> release_if b r (opt b r A) = Some A"
  by (simp add: release_if_def release_def opt_def)

end
