(* ===== verification/Jbd2_Handle.thy ===== *)
theory Jbd2_Handle
  imports Jbd2_Tags Ledger
begin

text \<open>
  \<open>jbd2/jbd2.c\<close>, lines 1101 to 1323: opening and closing a journal.

  What the two functions hold of the kernel is a ledger (\<open>Ledger\<close>) that is passed along.  A \<open>__leave\<close> skips to the \<open>__finally\<close> block.
  The cache manager and the pool are parameters.  \<open>handle_view\<close> is what the bytes of the handle
  read as when they are taken for a superblock (see \<open>jh_as_superblock\<close>).
\<close>

section \<open>Resources\<close>

text \<open>What one journal holds, and what else the system holds.\<close>

datatype jbd2_resource = Pool_handle | Cache_map | Pinned_bcb | Pool_superblock | Mutex
  | Lbcb_cache | Revoke_cache | Other nat

section \<open>Opening\<close>

record open_env =
  pool_handle_ok :: bool
  pool_superblock_ok :: bool
  pin_log :: "s64 \<Rightarrow> 32 word \<Rightarrow> byte list option"
  handle_view :: "journal_superblock \<Rightarrow> journal_superblock"

text \<open>The fields of the handle, from the copy of the superblock; \<open>jh_uuid\<close> is copied from its start.\<close>

definition init_handle :: "open_env \<Rightarrow> ptr \<Rightarrow> ptr \<Rightarrow> 32 word \<Rightarrow> byte list \<Rightarrow> journal_superblock \<Rightarrow> jbd2_handle" where
  "init_handle env client_file log_file blocksize sb_buf jh_sb' =
    (let blockcnt = be32_to_cpu (s_maxlen jh_sb'); first = be32_to_cpu (s_first jh_sb') in
     \<lparr>jh_as_superblock = handle_view env jh_sb', jh_log_file = log_file, jh_client_file = client_file,
      jh_csum_seed = 0, jh_blocksize = blocksize, jh_blockcnt = blockcnt,
      jh_uuid = take UUID_SIZE sb_buf,
      jh_max_txn = be32_to_cpu (s_max_transaction jh_sb'),
      jh_running_txn = None, jh_txn_queue = [],
      jh_start = first, jh_end = blockcnt - 1,
      jh_free_start = first, jh_free_end = blockcnt - 1, jh_free_blockcnt = blockcnt - 1,
      jh_sb = jh_sb',
      jh_lbcb_table = RB_INIT \<lparr>rbh_root = None, mem = Map.empty\<rparr>,
      jh_revoke_table = RB_INIT \<lparr>rbh_root = None, mem = Map.empty\<rparr>\<rparr>)"

text \<open>The local variables that the \<open>__finally\<close> block reads, and the handle once its fields are filled in.\<close>

record open_locals =
  ol_bcb :: bool
  ol_jh_sb :: bool
  ol_lock_inited :: bool
  ol_lbcb_cache_inited :: bool
  ol_revoke_cache_inited :: bool
  ol_status :: NTSTATUS
  ol_handle :: "jbd2_handle option"

definition open_locals_init :: open_locals where
  "open_locals_init = \<lparr>ol_bcb = False, ol_jh_sb = False, ol_lock_inited = False,
     ol_lbcb_cache_inited = False, ol_revoke_cache_inited = False, ol_status = STATUS_UNSUCCESSFUL,
     ol_handle = None\<rparr>"

text \<open>The allocations and initialisations at the end of the \<open>__try\<close> block.\<close>

definition open_fill :: "open_env \<Rightarrow> ptr \<Rightarrow> ptr \<Rightarrow> 32 word \<Rightarrow> byte list \<Rightarrow> journal_superblock
    \<Rightarrow> open_locals \<Rightarrow> jbd2_resource set \<Rightarrow> (open_locals \<times> jbd2_resource set) option" where
  "open_fill env client_file log_file blocksize sb_buf sb l live =
    (if \<not> pool_superblock_ok env then Some (l\<lparr>ol_status := STATUS_INSUFFICIENT_RESOURCES\<rparr>, live)
     else do {
       live \<leftarrow> acquire Pool_superblock live;
       live \<leftarrow> acquire Mutex live;
       live \<leftarrow> acquire Lbcb_cache live;
       live \<leftarrow> acquire Revoke_cache live;
       Some (l\<lparr>ol_jh_sb := True, ol_lock_inited := True, ol_lbcb_cache_inited := True,
         ol_revoke_cache_inited := True,
         ol_handle := Some (init_handle env client_file log_file blocksize sb_buf sb)\<rparr>, live) })"

definition open_try :: "open_env \<Rightarrow> ptr \<Rightarrow> ptr \<Rightarrow> s64 \<Rightarrow> 32 word \<Rightarrow> jbd2_resource set
    \<Rightarrow> (open_locals \<times> jbd2_resource set) option" where
  "open_try env client_file log_file log_size blocksize live =
    (let l = open_locals_init in
     case pin_log env (blocknr_to_offset log_size blocksize) blocksize of
       None \<Rightarrow> Some (l, live)
     | Some sb_buf \<Rightarrow> do {
         live \<leftarrow> acquire Pinned_bcb live;
         let l = l\<lparr>ol_bcb := True\<rparr>;
         sb \<leftarrow> load_journal_superblock sb_buf;
         if \<not> jbd2_verify_superblock sb then Some (l\<lparr>ol_status := STATUS_DISK_CORRUPT_ERROR\<rparr>, live)
         else if be32_to_cpu (s_blocksize sb) \<noteq> blocksize
         then Some (l\<lparr>ol_status := STATUS_DISK_CORRUPT_ERROR\<rparr>, live)
         else do {
           blocks \<leftarrow> offset_to_blocknr log_size blocksize;
           if u64_of_u32 (be32_to_cpu (s_maxlen sb)) < blocks
           then Some (l\<lparr>ol_status := STATUS_DISK_CORRUPT_ERROR\<rparr>, live)
           else if jbd2_features_supported (s_feature_incompat sb) JBD2_KNOWN_INCOMPAT_FEATURES
           then Some (l\<lparr>ol_status := STATUS_UNRECOGNIZED_VOLUME\<rparr>, live)
           else if jbd2_features_supported (s_feature_ro_compat sb) JBD2_KNOWN_ROCOMPAT_FEATURES
           then Some (l\<lparr>ol_status := STATUS_UNRECOGNIZED_VOLUME\<rparr>, live)
           else open_fill env client_file log_file blocksize sb_buf sb l live } })"

definition open_finally :: "open_locals \<Rightarrow> jbd2_resource set \<Rightarrow> (jbd2_handle option \<times> jbd2_resource set) option" where
  "open_finally l live = do {
     live \<leftarrow> release_if (ol_bcb l) Pinned_bcb live;
     if \<not> NT_SUCCESS (ol_status l) then do {
       live \<leftarrow> release_if (ol_jh_sb l) Pool_superblock live;
       live \<leftarrow> release_if (ol_lock_inited l) Mutex live;
       live \<leftarrow> release_if (ol_lbcb_cache_inited l) Lbcb_cache live;
       live \<leftarrow> release_if (ol_revoke_cache_inited l) Revoke_cache live;
       live \<leftarrow> release Cache_map live;
       live \<leftarrow> release Pool_handle live;
       Some (None, live) }
     else Some (ol_handle l, live) }"

definition jbd2_open_handle :: "open_env \<Rightarrow> ptr \<Rightarrow> ptr \<Rightarrow> s64 \<Rightarrow> 32 word \<Rightarrow> jbd2_resource set
    \<Rightarrow> (NTSTATUS \<times> jbd2_handle option \<times> jbd2_resource set) option" where
  "jbd2_open_handle env client_file log_file log_size blocksize live =
    (if \<not> pool_handle_ok env then Some (STATUS_INSUFFICIENT_RESOURCES, None, live)
     else do {
       live \<leftarrow> acquire Pool_handle live;
       live \<leftarrow> acquire Cache_map live;
       (l, live) \<leftarrow> open_try env client_file log_file log_size blocksize live;
       (handle_ret, live) \<leftarrow> open_finally l live;
       Some (ol_status l, handle_ret, live) })"

section \<open>Closing\<close>

text \<open>\<open>jbd2_flush\<close> does nothing; the status stays what it was initialised with.\<close>

definition jbd2_flush :: "NTSTATUS \<Rightarrow> NTSTATUS" where
  "jbd2_flush status = status"

definition jbd2_close_handle :: "jbd2_resource set \<Rightarrow> (NTSTATUS \<times> jbd2_resource set) option" where
  "jbd2_close_handle live = do {
     let status = jbd2_flush STATUS_UNSUCCESSFUL;
     live \<leftarrow> release Pool_superblock live;
     live \<leftarrow> release Mutex live;
     live \<leftarrow> release Lbcb_cache live;
     live \<leftarrow> release Revoke_cache live;
     live \<leftarrow> release Cache_map live;
     live \<leftarrow> release Pool_handle live;
     Some (status, live) }"

section \<open>Every path of opening gives back what it took\<close>

text \<open>What the local variables say is held.\<close>

definition held :: "open_locals \<Rightarrow> jbd2_resource set \<Rightarrow> jbd2_resource set" where
  "held l live = opt (ol_bcb l) Pinned_bcb (opt (ol_jh_sb l) Pool_superblock (opt (ol_lock_inited l) Mutex
     (opt (ol_lbcb_cache_inited l) Lbcb_cache (opt (ol_revoke_cache_inited l) Revoke_cache
       (insert Cache_map (insert Pool_handle live))))))"

lemma only_other: "live \<subseteq> range Other \<Longrightarrow> Pinned_bcb \<notin> live \<and> Pool_superblock \<notin> live \<and> Mutex \<notin> live \<and>
    Lbcb_cache \<notin> live \<and> Revoke_cache \<notin> live \<and> Cache_map \<notin> live \<and> Pool_handle \<notin> live"
  by auto

lemma open_finally_releases:
  "live \<subseteq> range Other \<Longrightarrow> ol_status l \<noteq> STATUS_SUCCESS \<Longrightarrow> open_finally l (held l live) = Some (None, live)"
  using only_other [of live] by (simp add: open_finally_def held_def)

lemma insert_last: "insert Revoke_cache (insert Lbcb_cache (insert Mutex (insert Pool_superblock (insert Pinned_bcb A)))) =
    insert Pinned_bcb (insert Pool_superblock (insert Mutex (insert Lbcb_cache (insert Revoke_cache A))))"
  by blast

lemma open_fill_holds:
  assumes "live \<subseteq> range Other"
  shows "\<exists>l. open_fill env client_file log_file blocksize sb_buf sb (open_locals_init\<lparr>ol_bcb := True\<rparr>)
      (insert Pinned_bcb (insert Cache_map (insert Pool_handle live))) = Some (l, held l live) \<and>
    ol_status l \<noteq> STATUS_SUCCESS"
  using only_other [OF assms]
  by (cases "pool_superblock_ok env")
    (simp_all add: open_fill_def acquire_def held_def opt_def open_locals_init_def insert_last)

lemma open_try_holds:
  assumes "live \<subseteq> range Other" "blocksize \<noteq> 0"
    and "\<And>off sb_buf. pin_log env off blocksize = Some sb_buf \<Longrightarrow> sizeof_journal_superblock \<le> length sb_buf"
  shows "\<exists>l. open_try env client_file log_file log_size blocksize (insert Cache_map (insert Pool_handle live)) =
      Some (l, held l live) \<and> ol_status l \<noteq> STATUS_SUCCESS"
proof (cases "pin_log env (blocknr_to_offset log_size blocksize) blocksize")
  case None
  then show ?thesis by (simp add: open_try_def open_locals_init_def held_def opt_def)
next
  case (Some sb_buf)
  obtain sb where "load_journal_superblock sb_buf = Some sb"
    using load_journal_superblock_defined assms(3) [OF Some] by blast
  moreover have "\<exists>l. Some (open_locals_init\<lparr>ol_bcb := True, ol_status := st\<rparr>, insert Pinned_bcb (insert Cache_map
      (insert Pool_handle live))) = Some (l, held l live) \<and> ol_status l \<noteq> STATUS_SUCCESS"
    if "st \<noteq> STATUS_SUCCESS" for st
    using that by (simp add: open_locals_init_def held_def opt_def)
  ultimately show ?thesis
    using Some assms(1,2) only_other [OF assms(1)] open_fill_holds [OF assms(1)]
    by (simp add: open_try_def acquire_def offset_to_blocknr_def Let_def)
qed

text \<open>
  C19. Whatever the log file holds: opening a journal gives back on every path exactly what it has
  acquired, nothing twice.  No path ends in success, so no handle is ever returned.
\<close>

theorem jbd2_open_handle_no_leak:
  assumes "live \<subseteq> range Other"
    and "\<And>off sb_buf. pin_log env off blocksize = Some sb_buf \<Longrightarrow> sizeof_journal_superblock \<le> length sb_buf"
    and "blocksize \<noteq> 0"
  shows "\<exists>status. jbd2_open_handle env client_file log_file log_size blocksize live = Some (status, None, live) \<and>
    status \<noteq> STATUS_SUCCESS"
proof (cases "pool_handle_ok env")
  case True
  have "\<exists>l. open_try env client_file log_file log_size blocksize (insert Cache_map (insert Pool_handle live)) =
      Some (l, held l live) \<and> ol_status l \<noteq> STATUS_SUCCESS"
    by (rule open_try_holds [OF assms(1,3)]) (rule assms(2))
  then obtain l where l: "open_try env client_file log_file log_size blocksize (insert Cache_map (insert Pool_handle live)) =
      Some (l, held l live)" "ol_status l \<noteq> STATUS_SUCCESS" by blast
  with open_finally_releases [OF assms(1) l(2)] True only_other [OF assms(1)]
  show ?thesis by (simp add: jbd2_open_handle_def acquire_def)
qed (simp add: jbd2_open_handle_def)

theorem jbd2_open_handle_no_leak_witness:
  "\<exists>status. jbd2_open_handle \<lparr>pool_handle_ok = True, pool_superblock_ok = True,
      pin_log = (\<lambda>_ _. Some (replicate 1024 0)), handle_view = id\<rparr> 2 1 8192 1024 {Other 3}
    = Some (status, None, {Other 3}) \<and> status \<noteq> STATUS_SUCCESS"
  by (rule jbd2_open_handle_no_leak) (auto simp: sizeof_journal_superblock_def)

text \<open>Closing releases what an open journal holds, and reports a failure.\<close>

lemma jbd2_close_handle_releases:
  assumes "live \<subseteq> range Other"
  shows "jbd2_close_handle (insert Pool_superblock (insert Mutex (insert Lbcb_cache (insert Revoke_cache
    (insert Cache_map (insert Pool_handle live)))))) = Some (STATUS_UNSUCCESSFUL, live)"
  using only_other [OF assms] by (simp add: jbd2_close_handle_def jbd2_flush_def)

text \<open>
  The check of the features is the wrong way round: a superblock none of whose incompatible
  features is unknown is the one that is refused.
\<close>

lemma known_features_refused:
  assumes "pin_log env (blocknr_to_offset log_size blocksize) blocksize = Some sb_buf"
    and "load_journal_superblock sb_buf = Some sb" "jbd2_verify_superblock sb"
    and "be32_to_cpu (s_blocksize sb) = blocksize" "blocksize \<noteq> 0" "Pinned_bcb \<notin> live"
    and "\<not> u64_of_u32 (be32_to_cpu (s_maxlen sb)) < log_size div ucast blocksize"
    and "be32_to_cpu (s_feature_incompat sb) AND NOT JBD2_KNOWN_INCOMPAT_FEATURES = 0"
  shows "\<exists>l. open_try env client_file log_file log_size blocksize live = Some (l, insert Pinned_bcb live) \<and>
    ol_status l = STATUS_UNRECOGNIZED_VOLUME"
  using assms
  by (simp add: open_try_def acquire_def offset_to_blocknr_def jbd2_features_supported_def Let_def)

end
