(* ===== verification/Drv_Lock.thy ===== *)
theory Drv_Lock
  imports Nt_Status Drv_Types
begin

text \<open>
  \<open>include/drv_common/drv_lock.h\<close>: the read-write lock and the mutex.

  The functions of the kernel are parameters: \<open>ex_ops\<close> for the \<open>ERESOURCE\<close> and \<open>fm_ops\<close> for the
  \<open>FAST_MUTEX\<close>.  Each is given the thread that calls it, and \<open>None\<close> is a call that does not return
  because the thread waits.  A Boolean argument is a \<open>bool\<close>, a Boolean result of the kernel a byte.
\<close>

section \<open>Resources\<close>

record 'r ex_ops =
  ExInitializeResourceLite :: "'r \<Rightarrow> status_code \<times> 'r"
  ExDeleteResourceLite :: "'r \<Rightarrow> status_code \<times> 'r"
  ExAcquireResourceSharedLite :: "nat \<Rightarrow> 'r \<Rightarrow> bool \<Rightarrow> (BOOLEAN \<times> 'r) option"
  ExReleaseResourceLite :: "nat \<Rightarrow> 'r \<Rightarrow> 'r"
  ExConvertExclusiveToSharedLite :: "nat \<Rightarrow> 'r \<Rightarrow> 'r"
  ExIsResourceAcquiredLite :: "nat \<Rightarrow> 'r \<Rightarrow> 32 word"
  ExIsResourceAcquiredExclusiveLite :: "nat \<Rightarrow> 'r \<Rightarrow> BOOLEAN"

definition drv_resource_init :: "('r, 'z) ex_ops_scheme \<Rightarrow> 'r \<Rightarrow> status_code \<times> 'r" where
  "drv_resource_init ops resource = ExInitializeResourceLite ops resource"

definition drv_resource_destroy :: "('r, 'z) ex_ops_scheme \<Rightarrow> 'r \<Rightarrow> status_code \<times> 'r" where
  "drv_resource_destroy ops resource = ExDeleteResourceLite ops resource"

definition drv_resource_acquire_shared :: "('r, 'z) ex_ops_scheme \<Rightarrow> nat \<Rightarrow> 'r \<Rightarrow> bool \<Rightarrow> (NTSTATUS \<times> 'r) option" where
  "drv_resource_acquire_shared ops thread resource wait = do {
     (ret, resource) \<leftarrow> ExAcquireResourceSharedLite ops thread resource wait;
     Some (if ret = TRUE then STATUS_SUCCESS else STATUS_CANT_WAIT, resource) }"

text \<open>The function for exclusive access calls the kernel's function for shared access too.\<close>

definition drv_resource_acquire_exclusive :: "('r, 'z) ex_ops_scheme \<Rightarrow> nat \<Rightarrow> 'r \<Rightarrow> bool \<Rightarrow> (NTSTATUS \<times> 'r) option" where
  "drv_resource_acquire_exclusive ops thread resource wait = do {
     (ret, resource) \<leftarrow> ExAcquireResourceSharedLite ops thread resource wait;
     Some (if ret = TRUE then STATUS_SUCCESS else STATUS_CANT_WAIT, resource) }"

definition drv_resource_release :: "('r, 'z) ex_ops_scheme \<Rightarrow> nat \<Rightarrow> 'r \<Rightarrow> 'r" where
  "drv_resource_release ops thread resource = ExReleaseResourceLite ops thread resource"

definition drv_resource_acquire_downgrade :: "('r, 'z) ex_ops_scheme \<Rightarrow> nat \<Rightarrow> 'r \<Rightarrow> 'r" where
  "drv_resource_acquire_downgrade ops thread resource = ExConvertExclusiveToSharedLite ops thread resource"

definition drv_resource_acquired_count :: "('r, 'z) ex_ops_scheme \<Rightarrow> nat \<Rightarrow> 'r \<Rightarrow> 32 word" where
  "drv_resource_acquired_count ops thread resource = ExIsResourceAcquiredLite ops thread resource"

definition drv_resource_is_acquired_exclusively :: "('r, 'z) ex_ops_scheme \<Rightarrow> nat \<Rightarrow> 'r \<Rightarrow> bool" where
  "drv_resource_is_acquired_exclusively ops thread resource \<longleftrightarrow> ExIsResourceAcquiredExclusiveLite ops thread resource \<noteq> 0"

section \<open>Mutexes\<close>

record 'm fm_ops =
  ExInitializeFastMutex :: "'m \<Rightarrow> 'm"
  ExAcquireFastMutex :: "nat \<Rightarrow> 'm \<Rightarrow> 'm option"
  ExTryToAcquireFastMutex :: "nat \<Rightarrow> 'm \<Rightarrow> BOOLEAN \<times> 'm"
  ExReleaseFastMutex :: "nat \<Rightarrow> 'm \<Rightarrow> 'm"

definition drv_mutex_init :: "('m, 'z) fm_ops_scheme \<Rightarrow> 'm \<Rightarrow> 'm" where
  "drv_mutex_init ops mutex = ExInitializeFastMutex ops mutex"

definition drv_mutex_destroy :: "'m \<Rightarrow> 'm" where
  "drv_mutex_destroy mutex = mutex"

definition drv_mutex_acquire :: "('m, 'z) fm_ops_scheme \<Rightarrow> nat \<Rightarrow> 'm \<Rightarrow> bool \<Rightarrow> (NTSTATUS \<times> 'm) option" where
  "drv_mutex_acquire ops thread mutex wait =
     (if wait then do { mutex \<leftarrow> ExAcquireFastMutex ops thread mutex; Some (STATUS_SUCCESS, mutex) }
      else let (ret, mutex) = ExTryToAcquireFastMutex ops thread mutex
           in Some (if ret = TRUE then STATUS_SUCCESS else STATUS_CANT_WAIT, mutex))"

definition drv_mutex_release :: "('m, 'z) fm_ops_scheme \<Rightarrow> nat \<Rightarrow> 'm \<Rightarrow> 'm" where
  "drv_mutex_release ops thread mutex = ExReleaseFastMutex ops thread mutex"

section \<open>What the locks guarantee\<close>

text \<open>Threads acquire the resource one after the other; the list holds what each is told.\<close>

fun acquire_exclusive_by :: "('r, 'z) ex_ops_scheme \<Rightarrow> nat list \<Rightarrow> bool \<Rightarrow> 'r \<Rightarrow> (NTSTATUS list \<times> 'r) option" where
  "acquire_exclusive_by ops [] wait r = Some ([], r)"
| "acquire_exclusive_by ops (t # ts) wait r = do {
     (status, r) \<leftarrow> drv_resource_acquire_exclusive ops t r wait;
     (statuses, r) \<leftarrow> acquire_exclusive_by ops ts wait r;
     Some (status # statuses, r) }"

text \<open>
  The documented behaviour of the kernel, for the states \<open>S\<close> of a resource that is free or held
  shared and that no thread waits for: shared access is granted at once, the resource stays in \<open>S\<close>,
  and no thread holds it exclusively.
\<close>

definition grants_shared :: "('r, 'z) ex_ops_scheme \<Rightarrow> 'r set \<Rightarrow> bool" where
  "grants_shared ops S \<longleftrightarrow> (\<forall>r \<in> S. \<forall>t.
     (\<forall>wait. \<exists>r' \<in> S. ExAcquireResourceSharedLite ops t r wait = Some (TRUE, r')) \<and>
     ExIsResourceAcquiredExclusiveLite ops t r = FALSE)"

lemma acquire_exclusive_granted:
  assumes "grants_shared ops S" "r \<in> S"
  shows "\<exists>r' \<in> S. drv_resource_acquire_exclusive ops t r wait = Some (STATUS_SUCCESS, r')"
proof -
  obtain r' where "r' \<in> S" "ExAcquireResourceSharedLite ops t r wait = Some (TRUE, r')"
    using assms unfolding grants_shared_def by blast
  then show ?thesis by (simp add: drv_resource_acquire_exclusive_def)
qed

text \<open>
  C39. \<open>drv_resource_acquire_exclusive\<close> excludes nobody: on a free resource any number of threads, one
  after the other and none releasing it, are all told at once that they have exclusive access, and in the end
  \<open>drv_resource_is_acquired_exclusively\<close> is false for every thread.
\<close>

theorem acquire_exclusive_shares:
  assumes "grants_shared ops S" "r \<in> S"
  shows "\<exists>r'. acquire_exclusive_by ops ts wait r = Some (replicate (length ts) STATUS_SUCCESS, r') \<and>
    (\<forall>t. \<not> drv_resource_is_acquired_exclusively ops t r')"
proof -
  have "\<exists>r' \<in> S. acquire_exclusive_by ops ts wait r = Some (replicate (length ts) STATUS_SUCCESS, r')"
    using assms(2)
  proof (induction ts arbitrary: r)
    case (Cons t ts)
    from acquire_exclusive_granted [OF assms(1) Cons.prems] obtain r'
      where "r' \<in> S" "drv_resource_acquire_exclusive ops t r wait = Some (STATUS_SUCCESS, r')" by blast
    with Cons.IH show ?case by fastforce
  qed auto
  then show ?thesis
    using assms(1) by (fastforce simp: grants_shared_def drv_resource_is_acquired_exclusively_def FALSE_def)
qed

text \<open>A resource that counts its owners, and grants shared access only.\<close>

definition counting_ops :: "nat ex_ops" where
  "counting_ops = \<lparr>ExInitializeResourceLite = \<lambda>_. (0, 0), ExDeleteResourceLite = \<lambda>_. (0, 0),
     ExAcquireResourceSharedLite = \<lambda>_ r _. Some (TRUE, Suc r), ExReleaseResourceLite = \<lambda>_ r. r - 1,
     ExConvertExclusiveToSharedLite = \<lambda>_ r. r, ExIsResourceAcquiredLite = \<lambda>_ r. of_nat r,
     ExIsResourceAcquiredExclusiveLite = \<lambda>_ _. FALSE\<rparr>"

theorem acquire_exclusive_shares_witness:
  "\<exists>r'. acquire_exclusive_by counting_ops [1, 2, 3] False 0 =
     Some ([STATUS_SUCCESS, STATUS_SUCCESS, STATUS_SUCCESS], r') \<and>
    (\<forall>t. \<not> drv_resource_is_acquired_exclusively counting_ops t r')"
  using acquire_exclusive_shares [of counting_ops UNIV 0 "[1, 2, 3]" False]
  by (simp add: grants_shared_def counting_ops_def numeral_3_eq_3)

text \<open>The comment of \<open>drv_mutex_acquire\<close> promises success without waiting; the code promises it with waiting.\<close>

lemma drv_mutex_acquire_wait:
  "drv_mutex_acquire ops t m True = Some (status, m') \<Longrightarrow> status = STATUS_SUCCESS"
  "ExTryToAcquireFastMutex ops t m = (FALSE, m) \<Longrightarrow> drv_mutex_acquire ops t m False = Some (STATUS_CANT_WAIT, m)"
  by (auto simp: drv_mutex_acquire_def fault_simps TRUE_def FALSE_def)

end
