(* ===== verification/Drv_Tree_Zip.thy ===== *)
theory Drv_Tree_Zip
  imports Drv_Tree_Search
begin

text \<open>
  The heap of a red-black tree, seen at one node.

  A tree carries the address, the color and the payload of each node, so that a heap that holds it
  (\<open>rb_heap\<close>) is determined by it.  A path of frames leads from a node up to the root; \<open>rb_at\<close> says
  that the heap holds a tree below a path.  Moving along the path does not change what is
  said of the heap, so the pointer code of the rotations is described at the node it works on.
\<close>

section \<open>Trees and paths\<close>

type_synonym 'a rbt = "(ptr \<times> rb_color \<times> 'a) tree"

datatype 'a frame = In_left ptr rb_color 'a "'a rbt" | In_right "'a rbt" ptr rb_color 'a

fun root_ptr :: "'a rbt \<Rightarrow> ptr option" where
  "root_ptr \<langle>\<rangle> = None"
| "root_ptr \<langle>l, (a, c, e), r\<rangle> = Some a"

fun frame_ptr :: "'a frame \<Rightarrow> ptr" where
  "frame_ptr (In_left a c e r) = a"
| "frame_ptr (In_right l a c e) = a"

fun path_ptr :: "'a frame list \<Rightarrow> ptr option" where
  "path_ptr [] = None"
| "path_ptr (f # k) = Some (frame_ptr f)"

fun rb_heap :: "(ptr \<rightharpoonup> 'a rb_node) \<Rightarrow> ptr option \<Rightarrow> 'a rbt \<Rightarrow> bool" where
  "rb_heap m par \<langle>\<rangle> \<longleftrightarrow> True"
| "rb_heap m par \<langle>l, (a, c, e), r\<rangle> \<longleftrightarrow>
     m a = Some \<lparr>rbe_left = root_ptr l, rbe_right = root_ptr r, rbe_parent = par, rbe_color = c, elm = e\<rparr>
     \<and> rb_heap m (Some a) l \<and> rb_heap m (Some a) r"

fun rb_path :: "'a rb_table \<Rightarrow> ptr option \<Rightarrow> 'a frame list \<Rightarrow> bool" where
  "rb_path h p [] \<longleftrightarrow> rbh_root h = p"
| "rb_path h p (In_left a c e r # k) \<longleftrightarrow>
     mem h a = Some \<lparr>rbe_left = p, rbe_right = root_ptr r, rbe_parent = path_ptr k, rbe_color = c, elm = e\<rparr>
     \<and> rb_heap (mem h) (Some a) r \<and> rb_path h (Some a) k"
| "rb_path h p (In_right l a c e # k) \<longleftrightarrow>
     mem h a = Some \<lparr>rbe_left = root_ptr l, rbe_right = p, rbe_parent = path_ptr k, rbe_color = c, elm = e\<rparr>
     \<and> rb_heap (mem h) (Some a) l \<and> rb_path h (Some a) k"

fun plug :: "'a frame list \<Rightarrow> 'a rbt \<Rightarrow> 'a rbt" where
  "plug [] t = t"
| "plug (In_left a c e r # k) t = plug k \<langle>t, (a, c, e), r\<rangle>"
| "plug (In_right l a c e # k) t = plug k \<langle>l, (a, c, e), t\<rangle>"

text \<open>The addresses, and those with the payloads in order.\<close>

definition addrs :: "'a rbt \<Rightarrow> ptr set" where
  "addrs t = fst ` set_tree t"

fun path_addrs :: "'a frame list \<Rightarrow> ptr set" where
  "path_addrs [] = {}"
| "path_addrs (In_left a c e r # k) = insert a (addrs r \<union> path_addrs k)"
| "path_addrs (In_right l a c e # k) = insert a (addrs l \<union> path_addrs k)"

definition entries :: "'a rbt \<Rightarrow> (ptr \<times> 'a) list" where
  "entries t = map (\<lambda>(a, c, e). (a, e)) (inorder t)"

fun before :: "'a frame list \<Rightarrow> (ptr \<times> 'a) list" where
  "before [] = []"
| "before (In_left a c e r # k) = before k"
| "before (In_right l a c e # k) = before k @ entries l @ [(a, e)]"

fun after :: "'a frame list \<Rightarrow> (ptr \<times> 'a) list" where
  "after [] = []"
| "after (In_left a c e r # k) = (a, e) # entries r @ after k"
| "after (In_right l a c e # k) = after k"

lemma addrs_simps [simp]:
  "addrs \<langle>\<rangle> = {}" "addrs \<langle>l, (a, c, e), r\<rangle> = insert a (addrs l \<union> addrs r)"
  by (auto simp: addrs_def)

lemma entries_simps [simp]:
  "entries \<langle>\<rangle> = []" "entries \<langle>l, (a, c, e), r\<rangle> = entries l @ (a, e) # entries r"
  by (simp_all add: entries_def)

lemma entries_plug [simp]: "entries (plug k t) = before k @ entries t @ after k"
  by (induction k t rule: plug.induct) simp_all

lemma addrs_entries: "addrs t = fst ` set (entries t)"
  by (force simp: addrs_def entries_def)

text \<open>No address occurs twice.\<close>

fun apart :: "'a rbt \<Rightarrow> bool" where
  "apart \<langle>\<rangle> \<longleftrightarrow> True"
| "apart \<langle>l, (a, c, e), r\<rangle> \<longleftrightarrow> a \<notin> addrs l \<and> a \<notin> addrs r \<and> addrs l \<inter> addrs r = {} \<and> apart l \<and> apart r"

fun path_apart :: "'a frame list \<Rightarrow> bool" where
  "path_apart [] \<longleftrightarrow> True"
| "path_apart (In_left a c e r # k) \<longleftrightarrow>
     a \<notin> addrs r \<and> a \<notin> path_addrs k \<and> addrs r \<inter> path_addrs k = {} \<and> apart r \<and> path_apart k"
| "path_apart (In_right l a c e # k) \<longleftrightarrow>
     a \<notin> addrs l \<and> a \<notin> path_addrs k \<and> addrs l \<inter> path_addrs k = {} \<and> apart l \<and> path_apart k"

lemma path_addrs_eq: "path_addrs k = fst ` set (before k) \<union> fst ` set (after k)"
  by (induction k rule: before.induct) (auto simp: addrs_entries)

section \<open>A tree below a path\<close>

definition rb_at :: "'a rb_table \<Rightarrow> 'a rbt \<Rightarrow> 'a frame list \<Rightarrow> bool" where
  "rb_at h t k \<longleftrightarrow> rb_heap (mem h) (path_ptr k) t \<and> rb_path h (root_ptr t) k
     \<and> apart t \<and> path_apart k \<and> addrs t \<inter> path_addrs k = {}"

lemma rb_at_left: "rb_at h l (In_left a c e r # k) \<longleftrightarrow> rb_at h \<langle>l, (a, c, e), r\<rangle> k"
  by (auto simp: rb_at_def)

lemma rb_at_right: "rb_at h r (In_right l a c e # k) \<longleftrightarrow> rb_at h \<langle>l, (a, c, e), r\<rangle> k"
  by (auto simp: rb_at_def)

lemma rb_at_plug: "rb_at h t k \<longleftrightarrow> rb_at h (plug k t) []"
  by (induction k t rule: plug.induct) (simp_all add: rb_at_left rb_at_right)

text \<open>Nodes outside the tree and the path do not matter.\<close>

lemma rb_heap_upd [simp]: "a \<notin> addrs t \<Longrightarrow> rb_heap (m(a := x)) par t = rb_heap m par t"
  by (induction m par t rule: rb_heap.induct) auto

lemma rb_path_upd [simp]: "a \<notin> path_addrs k \<Longrightarrow> rb_path (h\<lparr>mem := (mem h)(a := x)\<rparr>) p k = rb_path h p k"
  by (induction h p k rule: rb_path.induct) auto

lemma rb_path_mem: "mem h' = mem h \<Longrightarrow> rbh_root h' = rbh_root h \<Longrightarrow> rb_path h' p k = rb_path h p k"
  by (induction h p k rule: rb_path.induct) auto

lemma root_ptr_addrs [simp]: "root_ptr t = Some a \<Longrightarrow> a \<in> addrs t"
  by (cases t rule: root_ptr.cases) auto

lemma path_ptr_addrs: "path_ptr k = Some a \<Longrightarrow> a \<in> path_addrs k"
  by (cases k rule: path_addrs.cases) auto

lemma root_ptr_None [simp]: "root_ptr t = None \<longleftrightarrow> t = \<langle>\<rangle>"
  by (cases t rule: root_ptr.cases) auto

section \<open>Reading and writing at a node\<close>

lemma rb_at_node:
  assumes "rb_at h \<langle>l, (a, c, e), r\<rangle> k"
  shows "RB_LEFT h (Some a) = Some (root_ptr l)" "RB_RIGHT h (Some a) = Some (root_ptr r)"
    "RB_PARENT h (Some a) = Some (path_ptr k)" "RB_COLOR h (Some a) = Some c" "RB_ELM h (Some a) = Some e"
  using assms by (auto simp: rb_at_def rb_access)

text \<open>The memory that is not the tree's stays as it is.\<close>

definition keeps_outside :: "'a rbt \<Rightarrow> 'a rb_table \<Rightarrow> 'a rb_table \<Rightarrow> bool" where
  "keeps_outside t h h' \<longleftrightarrow> (\<forall>b. b \<notin> addrs t \<longrightarrow> mem h' b = mem h b)"

definition rb_goes :: "'a rb_table \<Rightarrow> 'a rbt \<Rightarrow> 'a frame list \<Rightarrow> 'a rb_table \<Rightarrow> 'a rbt \<Rightarrow> 'a frame list \<Rightarrow> bool" where
  "rb_goes h t k h' t' k' \<longleftrightarrow> rb_at h' t' k' \<and> entries (plug k' t') = entries (plug k t) \<and> keeps_outside (plug k t) h h'"

lemma rb_goes_trans: "rb_goes h t k h' t' k' \<Longrightarrow> rb_goes h' t' k' h'' t'' k'' \<Longrightarrow> rb_goes h t k h'' t'' k''"
  by (auto simp: rb_goes_def keeps_outside_def addrs_entries)

lemma rb_goes_refl: "rb_at h t k \<Longrightarrow> rb_goes h t k h t k"
  by (simp add: rb_goes_def keeps_outside_def)

lemma rb_goes_at: "rb_goes h t k h' t' k' \<Longrightarrow> rb_at h' t' k'"
  by (simp add: rb_goes_def)

text \<open>Moving along the path.\<close>

lemma rb_goes_left:
  "rb_goes h l (In_left a c e r # k) h' l' (In_left a' c' e' r' # k') \<longleftrightarrow>
    rb_goes h \<langle>l, (a, c, e), r\<rangle> k h' \<langle>l', (a', c', e'), r'\<rangle> k'"
  by (simp add: rb_goes_def rb_at_left)

lemma rb_goes_right:
  "rb_goes h r (In_right l a c e # k) h' r' (In_right l' a' c' e' # k') \<longleftrightarrow>
    rb_goes h \<langle>l, (a, c, e), r\<rangle> k h' \<langle>l', (a', c', e'), r'\<rangle> k'"
  by (simp add: rb_goes_def rb_at_right)

lemma rb_goes_plug: "rb_goes h t k h' t' k' \<longleftrightarrow> rb_goes h (plug k t) [] h' (plug k' t') []"
  by (simp add: rb_goes_def rb_at_plug [of _ _ k'])

lemmas rb_move = rb_at_left rb_at_right rb_goes_left rb_goes_right

lemma addrs_plug [simp]: "addrs (plug k t) = addrs t \<union> path_addrs k"
  by (auto simp: addrs_entries path_addrs_eq)

lemmas rb_set_defs = set_left_def set_right_def set_parent_def set_color_def upd_node_def

lemma set_color_at:
  assumes "rb_at h \<langle>l, (a, c, e), r\<rangle> k"
  shows "\<exists>h'. set_color h (Some a) c' = Some h' \<and> rb_goes h \<langle>l, (a, c, e), r\<rangle> k h' \<langle>l, (a, c', e), r\<rangle> k"
  using assms by (auto simp: rb_at_def rb_set_defs rb_goes_def keeps_outside_def)

section \<open>Rotations\<close>

lemma rb_heap_frame: "(\<And>b. b \<in> addrs t \<Longrightarrow> m' b = m b) \<Longrightarrow> rb_heap m' par t = rb_heap m par t"
  by (induction m par t rule: rb_heap.induct) auto

lemma rb_path_frame:
  "(\<And>b. b \<in> path_addrs k \<Longrightarrow> mem h' b = mem h b) \<Longrightarrow> rbh_root h' = rbh_root h \<Longrightarrow> rb_path h' p k = rb_path h p k"
proof (induction k arbitrary: p)
  case (Cons f k)
  then show ?case
    using rb_heap_frame [of _ "mem h'" "mem h"] by (cases f) auto
qed simp

lemma rb_table_same [simp]: "h\<lparr>mem := mem h\<rparr> = h"
  by simp

lemma rb_path_upds [simp]:
  "a \<notin> path_addrs k \<Longrightarrow> rb_path (h\<lparr>mem := m(a := x)\<rparr>) p k = rb_path (h\<lparr>mem := m\<rparr>) p k"
  by (rule rb_path_frame) auto

text \<open>The node above, or the head, is made to point to another node.\<close>

lemma replace_child_path:
  assumes "rb_path h (Some a) k" "path_apart k" "a \<notin> path_addrs k"
  shows "\<exists>h'. replace_child h (path_ptr k) (Some a) q = Some h' \<and> rb_path h' q k \<and>
    (\<forall>b. b \<notin> path_addrs k \<longrightarrow> mem h' b = mem h b)"
proof (cases k rule: path_addrs.cases)
  case 1
  then show ?thesis by (simp add: replace_child_def)
next
  case (2 b c e r k')
  then show ?thesis using assms by (auto simp: replace_child_def rb_access rb_set_defs)
next
  case (3 l b c e k')
  then have "root_ptr l \<noteq> Some a" using assms by auto
  then show ?thesis using 3 assms by (auto simp: replace_child_def rb_access rb_set_defs)
qed

lemma set_parent_root:
  assumes "rb_heap (mem h) par t" "apart t" 
  shows "\<exists>h'. (if root_ptr t \<noteq> None then set_parent h (root_ptr t) par' else Some h) = Some h' \<and>
    rb_heap (mem h') par' t \<and> rbh_root h' = rbh_root h \<and> (\<forall>b. b \<notin> addrs t \<longrightarrow> mem h' b = mem h b)"
  using assms by (cases t rule: root_ptr.cases) (auto simp: rb_set_defs)

text \<open>
  What both rotations do besides writing the two nodes \<open>a\<close> and \<open>b\<close>: the tree \<open>B\<close> between them changes its
  parent to \<open>a\<close>, and what pointed to \<open>a\<close> points to \<open>b\<close>.
\<close>

definition node_at :: "'a rb_table \<Rightarrow> ptr \<Rightarrow> 'a rb_node \<Rightarrow> 'a rb_table" where
  "node_at h a n = h\<lparr>mem := (mem h)(a \<mapsto> n)\<rparr>"

lemma node_at_simps [simp]:
  "mem (node_at h a n) = (mem h)(a \<mapsto> n)" "rbh_root (node_at h a n) = rbh_root h"
  by (simp_all add: node_at_def)

lemma set_node_at:
  assumes "mem h a = Some n"
  shows "set_left h (Some a) v = Some (node_at h a (n\<lparr>rbe_left := v\<rparr>))"
    "set_right h (Some a) v = Some (node_at h a (n\<lparr>rbe_right := v\<rparr>))"
    "set_parent h (Some a) v = Some (node_at h a (n\<lparr>rbe_parent := v\<rparr>))"
  using assms by (simp_all add: rb_set_defs node_at_def)

lemma relink_middle:
  assumes "rb_heap (mem h) pB B" "apart B" "rb_path h (Some a) k" "path_apart k"
    and "a \<noteq> b" "{a, b} \<inter> addrs B = {}" "{a, b} \<inter> path_addrs k = {}" "addrs B \<inter> path_addrs k = {}"
  obtains h2 h4
  where "(if root_ptr B \<noteq> None then set_parent (node_at h a n1) (root_ptr B) (Some a) else Some (node_at h a n1)) = Some h2"
    "mem h2 a = Some n1" "mem h2 b = mem h b"
    "replace_child (node_at h2 b n2) (path_ptr k) (Some a) (Some b) = Some h4"
    "mem h4 a = Some n1" "mem h4 b = Some n2"
    "rb_heap (mem (node_at (node_at h4 b n3) a n4)) (Some a) B"
    "rb_path (node_at (node_at h4 b n3) a n4) (Some b) k"
    "\<forall>x. x \<notin> {a, b} \<union> addrs B \<union> path_addrs k \<longrightarrow> mem (node_at (node_at h4 b n3) a n4) x = mem h x"
proof -
  have "rb_heap (mem (node_at h a n1)) pB B" using assms(1,6) by simp
  from set_parent_root [OF this assms(2), of "Some a"] obtain h2
    where h2: "(if root_ptr B \<noteq> None then set_parent (node_at h a n1) (root_ptr B) (Some a) else Some (node_at h a n1)) = Some h2"
      "rb_heap (mem h2) (Some a) B" "rbh_root h2 = rbh_root h" "\<forall>x. x \<notin> addrs B \<longrightarrow> mem h2 x = ((mem h)(a \<mapsto> n1)) x"
    by auto
  have "x \<in> path_addrs k \<Longrightarrow> x \<noteq> a \<and> x \<noteq> b \<and> x \<notin> addrs B" for x using assms(7,8) by blast
  then have "rb_path (node_at h2 b n2) (Some a) k = rb_path h (Some a) k"
    using h2(3,4) by (intro rb_path_frame) auto
  then have "rb_path (node_at h2 b n2) (Some a) k" "a \<notin> path_addrs k" using assms(3,7) by simp_all
  from replace_child_path [OF this(1) assms(4) this(2), of "Some b"] obtain h4
    where h4: "replace_child (node_at h2 b n2) (path_ptr k) (Some a) (Some b) = Some h4" "rb_path h4 (Some b) k"
      "\<forall>x. x \<notin> path_addrs k \<longrightarrow> mem h4 x = ((mem h2)(b \<mapsto> n2)) x" by auto
  have "rb_heap (mem (node_at (node_at h4 b n3) a n4)) (Some a) B = rb_heap (mem h2) (Some a) B"
    using assms(6,8) h4(3) by (intro rb_heap_frame) (auto simp: disjoint_iff)
  then have 1: "rb_heap (mem (node_at (node_at h4 b n3) a n4)) (Some a) B" using h2(2) by simp
  have "rb_path (node_at (node_at h4 b n3) a n4) (Some b) k = rb_path h4 (Some b) k"
    using assms(7) by (intro rb_path_frame) (auto simp: disjoint_iff)
  then have 2: "rb_path (node_at (node_at h4 b n3) a n4) (Some b) k" using h4(2) by simp
  have 3: "mem h2 a = Some n1" "mem h2 b = mem h b" "mem h4 a = Some n1" "mem h4 b = Some n2"
    using assms(5-7) h2(4) h4(3) by (auto simp: disjoint_iff)
  have "\<forall>x. x \<notin> {a, b} \<union> addrs B \<union> path_addrs k \<longrightarrow> mem (node_at (node_at h4 b n3) a n4) x = mem h x"
    using h2(4) h4(3) by simp
  from that [OF h2(1) 3(1,2) h4(1) 3(3,4) 1 2 this] show ?thesis .
qed

lemma rb_heap_outside:
  assumes "\<forall>x. x \<notin> X \<longrightarrow> m' x = m x" "addrs t \<inter> X = {}"
  shows "rb_heap m' par t = rb_heap m par t"
proof (rule rb_heap_frame)
  fix b assume "b \<in> addrs t"
  then have "b \<notin> X" using assms(2) by blast
  then show "m' b = m b" using assms(1) by simp
qed

lemma rotate_left_at:
  assumes "rb_at h \<langle>A, (a, c, e), \<langle>B, (b, d, f), C\<rangle>\<rangle> k"
  shows "\<exists>h'. RB_ROTATE_LEFT h (Some a) = Some h' \<and>
    rb_goes h \<langle>A, (a, c, e), \<langle>B, (b, d, f), C\<rangle>\<rangle> k h' \<langle>\<langle>A, (a, c, e), B\<rangle>, (b, d, f), C\<rangle> k"
proof -
  let ?na = "\<lparr>rbe_left = root_ptr A, rbe_right = root_ptr B, rbe_parent = path_ptr k, rbe_color = c, elm = e\<rparr>"
  let ?nb = "\<lparr>rbe_left = root_ptr B, rbe_right = root_ptr C, rbe_parent = path_ptr k, rbe_color = d, elm = f\<rparr>"
  let ?nb' = "?nb\<lparr>rbe_left := Some a\<rparr>" and ?na' = "?na\<lparr>rbe_parent := Some b\<rparr>"
  have m: "mem h a = Some \<lparr>rbe_left = root_ptr A, rbe_right = Some b, rbe_parent = path_ptr k, rbe_color = c, elm = e\<rparr>"
    "mem h b = Some \<lparr>rbe_left = root_ptr B, rbe_right = root_ptr C, rbe_parent = Some a, rbe_color = d, elm = f\<rparr>"
    "rb_heap (mem h) (Some a) A" "rb_heap (mem h) (Some b) B" "rb_heap (mem h) (Some b) C" "rb_path h (Some a) k"
    "apart A" "apart B" "apart C" "path_apart k"
    and d: "a \<noteq> b" "{a, b} \<inter> addrs A = {}" "{a, b} \<inter> addrs B = {}" "{a, b} \<inter> addrs C = {}" "{a, b} \<inter> path_addrs k = {}"
    "addrs A \<inter> addrs B = {}" "addrs A \<inter> addrs C = {}" "addrs B \<inter> addrs C = {}"
    "addrs A \<inter> path_addrs k = {}" "addrs B \<inter> path_addrs k = {}" "addrs C \<inter> path_addrs k = {}"
    using assms by (simp_all add: rb_at_def Int_Un_distrib Int_Un_distrib2)
  obtain h2 h4
    where s: "(if root_ptr B \<noteq> None then set_parent (node_at h a ?na) (root_ptr B) (Some a) else Some (node_at h a ?na)) = Some h2"
      "mem h2 a = Some ?na" "mem h2 b = mem h b"
      "replace_child (node_at h2 b ?nb) (path_ptr k) (Some a) (Some b) = Some h4" "mem h4 a = Some ?na" "mem h4 b = Some ?nb"
    and r: "rb_heap (mem (node_at (node_at h4 b ?nb') a ?na')) (Some a) B"
      "rb_path (node_at (node_at h4 b ?nb') a ?na') (Some b) k"
      "\<forall>x. x \<notin> {a, b} \<union> addrs B \<union> path_addrs k \<longrightarrow> mem (node_at (node_at h4 b ?nb') a ?na') x = mem h x"
    by (rule relink_middle [OF m(4,8,6,10) d(1,3,5,10), of ?na ?nb ?nb' ?na'])
  define h5 where "h5 = node_at (node_at h4 b ?nb') a ?na'"
  note r = r [folded h5_def]
  have h5: "mem h5 a = Some ?na'" "mem h5 b = Some ?nb'" using d(1) by (simp_all add: h5_def)
  have rot: "RB_ROTATE_LEFT h (Some a) = Some h5"
    using m(1,2) s d(1) by (simp add: RB_ROTATE_LEFT_def rb_access set_node_at h5_def del: root_ptr_None)
  have "addrs A \<inter> ({a, b} \<union> addrs B \<union> path_addrs k) = {}" using d(2,6,9) by blast
  note rb_heap_outside [OF r(3) this]
  moreover have "addrs C \<inter> ({a, b} \<union> addrs B \<union> path_addrs k) = {}" using d(4,8,11) by blast
  note rb_heap_outside [OF r(3) this]
  ultimately have "rb_at h5 \<langle>\<langle>A, (a, c, e), B\<rangle>, (b, d, f), C\<rangle> k"
    using m d r(1,2) h5 by (simp add: rb_at_def Int_Un_distrib2)
  moreover have "keeps_outside (plug k \<langle>A, (a, c, e), \<langle>B, (b, d, f), C\<rangle>\<rangle>) h h5"
    using r(3) by (simp add: keeps_outside_def)
  ultimately show ?thesis using rot by (simp add: rb_goes_def)
qed

lemma rotate_right_at:
  assumes "rb_at h \<langle>\<langle>C, (b, d, f), B\<rangle>, (a, c, e), A\<rangle> k"
  shows "\<exists>h'. RB_ROTATE_RIGHT h (Some a) = Some h' \<and>
    rb_goes h \<langle>\<langle>C, (b, d, f), B\<rangle>, (a, c, e), A\<rangle> k h' \<langle>C, (b, d, f), \<langle>B, (a, c, e), A\<rangle>\<rangle> k"
proof -
  let ?na = "\<lparr>rbe_left = root_ptr B, rbe_right = root_ptr A, rbe_parent = path_ptr k, rbe_color = c, elm = e\<rparr>"
  let ?nb = "\<lparr>rbe_left = root_ptr C, rbe_right = root_ptr B, rbe_parent = path_ptr k, rbe_color = d, elm = f\<rparr>"
  let ?nb' = "?nb\<lparr>rbe_right := Some a\<rparr>" and ?na' = "?na\<lparr>rbe_parent := Some b\<rparr>"
  have m: "mem h a = Some \<lparr>rbe_left = Some b, rbe_right = root_ptr A, rbe_parent = path_ptr k, rbe_color = c, elm = e\<rparr>"
    "mem h b = Some \<lparr>rbe_left = root_ptr C, rbe_right = root_ptr B, rbe_parent = Some a, rbe_color = d, elm = f\<rparr>"
    "rb_heap (mem h) (Some a) A" "rb_heap (mem h) (Some b) B" "rb_heap (mem h) (Some b) C" "rb_path h (Some a) k"
    "apart A" "apart B" "apart C" "path_apart k"
    and d: "a \<noteq> b" "{a, b} \<inter> addrs A = {}" "{a, b} \<inter> addrs B = {}" "{a, b} \<inter> addrs C = {}" "{a, b} \<inter> path_addrs k = {}"
    "addrs A \<inter> addrs B = {}" "addrs A \<inter> addrs C = {}" "addrs B \<inter> addrs C = {}"
    "addrs A \<inter> path_addrs k = {}" "addrs B \<inter> path_addrs k = {}" "addrs C \<inter> path_addrs k = {}"
    using assms by (simp_all add: rb_at_def Int_Un_distrib Int_Un_distrib2 Int_commute)
  obtain h2 h4
    where s: "(if root_ptr B \<noteq> None then set_parent (node_at h a ?na) (root_ptr B) (Some a) else Some (node_at h a ?na)) = Some h2"
      "mem h2 a = Some ?na" "mem h2 b = mem h b"
      "replace_child (node_at h2 b ?nb) (path_ptr k) (Some a) (Some b) = Some h4" "mem h4 a = Some ?na" "mem h4 b = Some ?nb"
    and r: "rb_heap (mem (node_at (node_at h4 b ?nb') a ?na')) (Some a) B"
      "rb_path (node_at (node_at h4 b ?nb') a ?na') (Some b) k"
      "\<forall>x. x \<notin> {a, b} \<union> addrs B \<union> path_addrs k \<longrightarrow> mem (node_at (node_at h4 b ?nb') a ?na') x = mem h x"
    by (rule relink_middle [OF m(4,8,6,10) d(1,3,5,10), of ?na ?nb ?nb' ?na'])
  define h5 where "h5 = node_at (node_at h4 b ?nb') a ?na'"
  note r = r [folded h5_def]
  have h5: "mem h5 a = Some ?na'" "mem h5 b = Some ?nb'" using d(1) by (simp_all add: h5_def)
  have rot: "RB_ROTATE_RIGHT h (Some a) = Some h5"
    using m(1,2) s d(1) by (simp add: RB_ROTATE_RIGHT_def rb_access set_node_at h5_def del: root_ptr_None)
  have "addrs A \<inter> ({a, b} \<union> addrs B \<union> path_addrs k) = {}" using d(2,6,9) by blast
  note rb_heap_outside [OF r(3) this]
  moreover have "addrs C \<inter> ({a, b} \<union> addrs B \<union> path_addrs k) = {}" using d(4,8,11) by blast
  note rb_heap_outside [OF r(3) this]
  ultimately have "rb_at h5 \<langle>C, (b, d, f), \<langle>B, (a, c, e), A\<rangle>\<rangle> k"
    using m d r(1,2) h5 by (simp add: rb_at_def Int_Un_distrib Int_Un_distrib2 Int_commute)
  moreover have "keeps_outside (plug k \<langle>\<langle>C, (b, d, f), B\<rangle>, (a, c, e), A\<rangle>) h h5"
    using r(3) by (simp add: keeps_outside_def)
  ultimately show ?thesis using rot by (simp add: rb_goes_def)
qed


end
