(* ===== verification/Drv_Tree_Insert.thy ===== *)
theory Drv_Tree_Insert
  imports Drv_Tree_Zip
begin

text \<open>
  Insertion into the red-black trees of \<open>drv_tree.h\<close>: the repair after an insertion returns, keeps
  the order of the nodes, and restores the two rules that the comment at the head of the file names: no red
  node has a red parent, and every path to a leaf has the same number of black nodes.
\<close>

section \<open>The rules of a red-black tree\<close>

lemma not_red [simp]: "c \<noteq> RB_RED \<longleftrightarrow> c = RB_BLACK" "c \<noteq> RB_BLACK \<longleftrightarrow> c = RB_RED"
  by (cases c; simp)+

fun root_color :: "'a rbt \<Rightarrow> rb_color" where
  "root_color \<langle>\<rangle> = RB_BLACK"
| "root_color \<langle>l, (a, c, e), r\<rangle> = c"

fun no_red_red :: "'a rbt \<Rightarrow> bool" where
  "no_red_red \<langle>\<rangle> \<longleftrightarrow> True"
| "no_red_red \<langle>l, (a, c, e), r\<rangle> \<longleftrightarrow> no_red_red l \<and> no_red_red r \<and>
     (c = RB_RED \<longrightarrow> root_color l = RB_BLACK \<and> root_color r = RB_BLACK)"

fun black_height :: "'a rbt \<Rightarrow> nat" where
  "black_height \<langle>\<rangle> = 0"
| "black_height \<langle>l, (a, c, e), r\<rangle> = black_height l + (if c = RB_BLACK then 1 else 0)"

fun balanced :: "'a rbt \<Rightarrow> bool" where
  "balanced \<langle>\<rangle> \<longleftrightarrow> True"
| "balanced \<langle>l, (a, c, e), r\<rangle> \<longleftrightarrow> black_height l = black_height r \<and> balanced l \<and> balanced r"

text \<open>The same of the path above a tree of black height \<open>n\<close>.\<close>

fun frame_color :: "'a frame \<Rightarrow> rb_color" where
  "frame_color (In_left a c e r) = c"
| "frame_color (In_right l a c e) = c"

fun frame_tree :: "'a frame \<Rightarrow> 'a rbt" where
  "frame_tree (In_left a c e r) = r"
| "frame_tree (In_right l a c e) = l"

fun path_no_red_red :: "'a frame list \<Rightarrow> bool" where
  "path_no_red_red [] \<longleftrightarrow> True"
| "path_no_red_red (f # k) \<longleftrightarrow> no_red_red (frame_tree f) \<and> path_no_red_red k \<and>
     (frame_color f = RB_RED \<longrightarrow> root_color (frame_tree f) = RB_BLACK \<and> k \<noteq> [] \<and> frame_color (hd k) = RB_BLACK)"

fun path_balanced :: "nat \<Rightarrow> 'a frame list \<Rightarrow> bool" where
  "path_balanced n [] \<longleftrightarrow> True"
| "path_balanced n (f # k) \<longleftrightarrow> black_height (frame_tree f) = n \<and> balanced (frame_tree f) \<and>
     path_balanced (n + (if frame_color f = RB_BLACK then 1 else 0)) k"

lemma balanced_plug: "balanced t \<Longrightarrow> path_balanced (black_height t) k \<Longrightarrow> balanced (plug k t)"
  by (induction k t rule: plug.induct) auto

lemma no_red_red_plug:
  "no_red_red t \<Longrightarrow> path_no_red_red k \<Longrightarrow> (root_color t = RB_RED \<longrightarrow> k = [] \<or> frame_color (hd k) = RB_BLACK)
    \<Longrightarrow> no_red_red (plug k t)"
  by (induction k t rule: plug.induct) auto

section \<open>One round of the repair\<close>

lemma set_blackred_at:
  assumes "rb_at h \<langle>\<langle>pl, (p, c, pe), pr\<rangle>, (g, d, ge), u\<rangle> k"
  shows "\<exists>h'. RB_SET_BLACKRED h (Some p) (Some g) = Some h' \<and>
    rb_goes h \<langle>\<langle>pl, (p, c, pe), pr\<rangle>, (g, d, ge), u\<rangle> k h' \<langle>\<langle>pl, (p, RB_BLACK, pe), pr\<rangle>, (g, RB_RED, ge), u\<rangle> k"
proof -
  have "rb_at h \<langle>pl, (p, c, pe), pr\<rangle> (In_left g d ge u # k)" using assms by (simp add: rb_move)
  from set_color_at [OF this, of RB_BLACK] obtain h1
    where h1: "set_color h (Some p) RB_BLACK = Some h1"
      "rb_goes h \<langle>\<langle>pl, (p, c, pe), pr\<rangle>, (g, d, ge), u\<rangle> k h1 \<langle>\<langle>pl, (p, RB_BLACK, pe), pr\<rangle>, (g, d, ge), u\<rangle> k"
    unfolding rb_move by blast
  from set_color_at [OF rb_goes_at [OF h1(2)], of RB_RED] h1 show ?thesis
    by (auto simp: RB_SET_BLACKRED_def intro: rb_goes_trans)
qed

lemma fix_left_red:
  assumes "rb_at h \<langle>\<langle>pl, (p, c, pe), pr\<rangle>, (g, d, ge), \<langle>ul, (u, RB_RED, ue), ur\<rangle>\<rangle> k"
  shows "\<exists>h'. rb_insert_fix_left h x (Some p) (Some g) = Some (h', Some g) \<and>
    rb_goes h \<langle>\<langle>pl, (p, c, pe), pr\<rangle>, (g, d, ge), \<langle>ul, (u, RB_RED, ue), ur\<rangle>\<rangle> k
      h' \<langle>\<langle>pl, (p, RB_BLACK, pe), pr\<rangle>, (g, RB_RED, ge), \<langle>ul, (u, RB_BLACK, ue), ur\<rangle>\<rangle> k"
proof -
  have u: "rb_at h \<langle>ul, (u, RB_RED, ue), ur\<rangle> (In_right \<langle>pl, (p, c, pe), pr\<rangle> g d ge # k)"
    using assms by (simp add: rb_move)
  from set_color_at [OF this, of RB_BLACK] obtain h1
    where h1: "set_color h (Some u) RB_BLACK = Some h1"
      "rb_goes h \<langle>\<langle>pl, (p, c, pe), pr\<rangle>, (g, d, ge), \<langle>ul, (u, RB_RED, ue), ur\<rangle>\<rangle> k
        h1 \<langle>\<langle>pl, (p, c, pe), pr\<rangle>, (g, d, ge), \<langle>ul, (u, RB_BLACK, ue), ur\<rangle>\<rangle> k"
    unfolding rb_move by blast
  from set_blackred_at [OF rb_goes_at [OF h1(2)]] h1 show ?thesis
    using rb_at_node(2) [OF assms] rb_at_node(4) [OF u]
    by (auto simp: rb_insert_fix_left_def intro: rb_goes_trans)
qed

text \<open>The uncle is black: recolor, and rotate at the grandparent.\<close>

lemma rotate_black_left:
  assumes "rb_at h \<langle>\<langle>X, (p, c, pe), pr\<rangle>, (g, d, ge), u\<rangle> k"
  shows "\<exists>h1 h'. RB_SET_BLACKRED h (Some p) (Some g) = Some h1 \<and> RB_ROTATE_RIGHT h1 (Some g) = Some h' \<and>
    rb_goes h \<langle>\<langle>X, (p, c, pe), pr\<rangle>, (g, d, ge), u\<rangle> k h' \<langle>X, (p, RB_BLACK, pe), \<langle>pr, (g, RB_RED, ge), u\<rangle>\<rangle> k"
proof -
  from set_blackred_at [OF assms] obtain h1 where h1: "RB_SET_BLACKRED h (Some p) (Some g) = Some h1"
    "rb_goes h \<langle>\<langle>X, (p, c, pe), pr\<rangle>, (g, d, ge), u\<rangle> k h1 \<langle>\<langle>X, (p, RB_BLACK, pe), pr\<rangle>, (g, RB_RED, ge), u\<rangle> k" by blast
  from rotate_right_at [OF rb_goes_at [OF h1(2)]] h1 show ?thesis by (auto intro: rb_goes_trans)
qed

lemma root_color_at:
  assumes "rb_at h t k"
  shows "(if root_ptr t \<noteq> None then RB_COLOR h (root_ptr t) else Some RB_BLACK) = Some (root_color t)"
  using assms by (cases t rule: root_color.cases) (auto simp: rb_at_node)

lemma root_ptr_apart:
  "rb_at h \<langle>l, (a, c, e), r\<rangle> k \<Longrightarrow> l \<noteq> \<langle>\<rangle> \<or> r \<noteq> \<langle>\<rangle> \<Longrightarrow> root_ptr l \<noteq> root_ptr r"
  by (cases l rule: root_ptr.cases; cases r rule: root_ptr.cases) (auto simp: rb_at_def)

lemma fix_left_black:
  assumes "rb_at h \<langle>P, (g, d, ge), u\<rangle> k" "root_color u = RB_BLACK"
  shows "rb_insert_fix_left h x parent (Some g) = do {
      pr \<leftarrow> RB_RIGHT h parent;
      (h, parent, x) \<leftarrow> (if pr = x then do { h \<leftarrow> RB_ROTATE_LEFT h parent; Some (h, x, parent) }
                          else Some (h, parent, x));
      h \<leftarrow> RB_SET_BLACKRED h parent (Some g);
      h \<leftarrow> RB_ROTATE_RIGHT h (Some g);
      Some (h, x) }"
proof -
  have "rb_at h u (In_right P g d ge # k)" using assms(1) by (simp add: rb_move)
  from root_color_at [OF this] show ?thesis
    using rb_at_node(2) [OF assms(1)] assms(2) by (simp add: rb_insert_fix_left_def del: root_ptr_None)
qed

lemma fix_left_outer:
  assumes "rb_at h \<langle>\<langle>X, (p, c, pe), pr\<rangle>, (g, d, ge), u\<rangle> k" "root_color u = RB_BLACK" "X \<noteq> \<langle>\<rangle>"
  shows "\<exists>h'. rb_insert_fix_left h (root_ptr X) (Some p) (Some g) = Some (h', root_ptr X) \<and>
    rb_goes h \<langle>\<langle>X, (p, c, pe), pr\<rangle>, (g, d, ge), u\<rangle> k h' \<langle>X, (p, RB_BLACK, pe), \<langle>pr, (g, RB_RED, ge), u\<rangle>\<rangle> k"
proof -
  have p: "rb_at h \<langle>X, (p, c, pe), pr\<rangle> (In_left g d ge u # k)"
    using assms(1) by (simp_all add: rb_move)
  have "root_ptr pr \<noteq> root_ptr X" using root_ptr_apart [OF p] assms(3) by auto
  moreover from rotate_black_left [OF assms(1)] obtain h1 h'
    where "RB_SET_BLACKRED h (Some p) (Some g) = Some h1" "RB_ROTATE_RIGHT h1 (Some g) = Some h'"
      "rb_goes h \<langle>\<langle>X, (p, c, pe), pr\<rangle>, (g, d, ge), u\<rangle> k h' \<langle>X, (p, RB_BLACK, pe), \<langle>pr, (g, RB_RED, ge), u\<rangle>\<rangle> k" by blast
  ultimately show ?thesis
    using fix_left_black [OF assms(1,2)] rb_at_node(2) [OF p] by simp
qed

lemma fix_left_inner:
  assumes "rb_at h \<langle>\<langle>pl, (p, c, pe), \<langle>xl, (x, b, xe), xr\<rangle>\<rangle>, (g, d, ge), u\<rangle> k" "root_color u = RB_BLACK"
  shows "\<exists>h'. rb_insert_fix_left h (Some x) (Some p) (Some g) = Some (h', Some p) \<and>
    rb_goes h \<langle>\<langle>pl, (p, c, pe), \<langle>xl, (x, b, xe), xr\<rangle>\<rangle>, (g, d, ge), u\<rangle> k
      h' \<langle>\<langle>pl, (p, c, pe), xl\<rangle>, (x, RB_BLACK, xe), \<langle>xr, (g, RB_RED, ge), u\<rangle>\<rangle> k"
proof -
  have p: "rb_at h \<langle>pl, (p, c, pe), \<langle>xl, (x, b, xe), xr\<rangle>\<rangle> (In_left g d ge u # k)"
    using assms(1) by (simp add: rb_move)
  from rotate_left_at [OF p] obtain h1 where h1: "RB_ROTATE_LEFT h (Some p) = Some h1"
    "rb_goes h \<langle>\<langle>pl, (p, c, pe), \<langle>xl, (x, b, xe), xr\<rangle>\<rangle>, (g, d, ge), u\<rangle> k
      h1 \<langle>\<langle>\<langle>pl, (p, c, pe), xl\<rangle>, (x, b, xe), xr\<rangle>, (g, d, ge), u\<rangle> k" by (auto simp: rb_move)
  from rotate_black_left [OF rb_goes_at [OF h1(2)]] obtain h2 h'
    where "RB_SET_BLACKRED h1 (Some x) (Some g) = Some h2" "RB_ROTATE_RIGHT h2 (Some g) = Some h'"
      "rb_goes h1 \<langle>\<langle>\<langle>pl, (p, c, pe), xl\<rangle>, (x, b, xe), xr\<rangle>, (g, d, ge), u\<rangle> k
        h' \<langle>\<langle>pl, (p, c, pe), xl\<rangle>, (x, RB_BLACK, xe), \<langle>xr, (g, RB_RED, ge), u\<rangle>\<rangle> k" by blast
  then show ?thesis
    using fix_left_black [OF assms] rb_at_node(2) [OF p] h1 by (auto intro: rb_goes_trans)
qed

text \<open>The other half, mirrored.\<close>

lemma set_blackred_right:
  assumes "rb_at h \<langle>u, (g, d, ge), \<langle>pr, (p, c, pe), pl\<rangle>\<rangle> k"
  shows "\<exists>h'. RB_SET_BLACKRED h (Some p) (Some g) = Some h' \<and>
    rb_goes h \<langle>u, (g, d, ge), \<langle>pr, (p, c, pe), pl\<rangle>\<rangle> k h' \<langle>u, (g, RB_RED, ge), \<langle>pr, (p, RB_BLACK, pe), pl\<rangle>\<rangle> k"
proof -
  have "rb_at h \<langle>pr, (p, c, pe), pl\<rangle> (In_right u g d ge # k)" using assms by (simp add: rb_move)
  from set_color_at [OF this, of RB_BLACK] obtain h1
    where h1: "set_color h (Some p) RB_BLACK = Some h1"
      "rb_goes h \<langle>u, (g, d, ge), \<langle>pr, (p, c, pe), pl\<rangle>\<rangle> k h1 \<langle>u, (g, d, ge), \<langle>pr, (p, RB_BLACK, pe), pl\<rangle>\<rangle> k"
    unfolding rb_move by blast
  from set_color_at [OF rb_goes_at [OF h1(2)], of RB_RED] h1 show ?thesis
    by (auto simp: RB_SET_BLACKRED_def intro: rb_goes_trans)
qed

lemma fix_right_red:
  assumes "rb_at h \<langle>\<langle>ur, (u, RB_RED, ue), ul\<rangle>, (g, d, ge), \<langle>pr, (p, c, pe), pl\<rangle>\<rangle> k"
  shows "\<exists>h'. rb_insert_fix_right h x (Some p) (Some g) = Some (h', Some g) \<and>
    rb_goes h \<langle>\<langle>ur, (u, RB_RED, ue), ul\<rangle>, (g, d, ge), \<langle>pr, (p, c, pe), pl\<rangle>\<rangle> k
      h' \<langle>\<langle>ur, (u, RB_BLACK, ue), ul\<rangle>, (g, RB_RED, ge), \<langle>pr, (p, RB_BLACK, pe), pl\<rangle>\<rangle> k"
proof -
  have u: "rb_at h \<langle>ur, (u, RB_RED, ue), ul\<rangle> (In_left g d ge \<langle>pr, (p, c, pe), pl\<rangle> # k)"
    using assms by (simp add: rb_move)
  from set_color_at [OF this, of RB_BLACK] obtain h1
    where h1: "set_color h (Some u) RB_BLACK = Some h1"
      "rb_goes h \<langle>\<langle>ur, (u, RB_RED, ue), ul\<rangle>, (g, d, ge), \<langle>pr, (p, c, pe), pl\<rangle>\<rangle> k
        h1 \<langle>\<langle>ur, (u, RB_BLACK, ue), ul\<rangle>, (g, d, ge), \<langle>pr, (p, c, pe), pl\<rangle>\<rangle> k"
    unfolding rb_move by blast
  from set_blackred_right [OF rb_goes_at [OF h1(2)]] h1 show ?thesis
    using rb_at_node(1) [OF assms] rb_at_node(4) [OF u]
    by (auto simp: rb_insert_fix_right_def intro: rb_goes_trans)
qed

lemma rotate_black_right:
  assumes "rb_at h \<langle>u, (g, d, ge), \<langle>pr, (p, c, pe), X\<rangle>\<rangle> k"
  shows "\<exists>h1 h'. RB_SET_BLACKRED h (Some p) (Some g) = Some h1 \<and> RB_ROTATE_LEFT h1 (Some g) = Some h' \<and>
    rb_goes h \<langle>u, (g, d, ge), \<langle>pr, (p, c, pe), X\<rangle>\<rangle> k h' \<langle>\<langle>u, (g, RB_RED, ge), pr\<rangle>, (p, RB_BLACK, pe), X\<rangle> k"
proof -
  from set_blackred_right [OF assms] obtain h1 where h1: "RB_SET_BLACKRED h (Some p) (Some g) = Some h1"
    "rb_goes h \<langle>u, (g, d, ge), \<langle>pr, (p, c, pe), X\<rangle>\<rangle> k h1 \<langle>u, (g, RB_RED, ge), \<langle>pr, (p, RB_BLACK, pe), X\<rangle>\<rangle> k" by blast
  from rotate_left_at [OF rb_goes_at [OF h1(2)]] h1 show ?thesis by (auto intro: rb_goes_trans)
qed

lemma fix_right_black:
  assumes "rb_at h \<langle>u, (g, d, ge), P\<rangle> k" "root_color u = RB_BLACK"
  shows "rb_insert_fix_right h x parent (Some g) = do {
      pr \<leftarrow> RB_LEFT h parent;
      (h, parent, x) \<leftarrow> (if pr = x then do { h \<leftarrow> RB_ROTATE_RIGHT h parent; Some (h, x, parent) }
                          else Some (h, parent, x));
      h \<leftarrow> RB_SET_BLACKRED h parent (Some g);
      h \<leftarrow> RB_ROTATE_LEFT h (Some g);
      Some (h, x) }"
proof -
  have "rb_at h u (In_left g d ge P # k)" using assms(1) by (simp add: rb_move)
  from root_color_at [OF this] show ?thesis
    using rb_at_node(1) [OF assms(1)] assms(2) by (simp add: rb_insert_fix_right_def del: root_ptr_None)
qed

lemma fix_right_outer:
  assumes "rb_at h \<langle>u, (g, d, ge), \<langle>pr, (p, c, pe), X\<rangle>\<rangle> k" "root_color u = RB_BLACK" "X \<noteq> \<langle>\<rangle>"
  shows "\<exists>h'. rb_insert_fix_right h (root_ptr X) (Some p) (Some g) = Some (h', root_ptr X) \<and>
    rb_goes h \<langle>u, (g, d, ge), \<langle>pr, (p, c, pe), X\<rangle>\<rangle> k h' \<langle>\<langle>u, (g, RB_RED, ge), pr\<rangle>, (p, RB_BLACK, pe), X\<rangle> k"
proof -
  have p: "rb_at h \<langle>pr, (p, c, pe), X\<rangle> (In_right u g d ge # k)"
    using assms(1) by (simp_all add: rb_move)
  have "root_ptr pr \<noteq> root_ptr X" using root_ptr_apart [OF p] assms(3) by auto
  moreover from rotate_black_right [OF assms(1)] obtain h1 h'
    where "RB_SET_BLACKRED h (Some p) (Some g) = Some h1" "RB_ROTATE_LEFT h1 (Some g) = Some h'"
      "rb_goes h \<langle>u, (g, d, ge), \<langle>pr, (p, c, pe), X\<rangle>\<rangle> k h' \<langle>\<langle>u, (g, RB_RED, ge), pr\<rangle>, (p, RB_BLACK, pe), X\<rangle> k" by blast
  ultimately show ?thesis
    using fix_right_black [OF assms(1,2)] rb_at_node(1) [OF p] by simp
qed

lemma fix_right_inner:
  assumes "rb_at h \<langle>u, (g, d, ge), \<langle>\<langle>xr, (x, b, xe), xl\<rangle>, (p, c, pe), pl\<rangle>\<rangle> k" "root_color u = RB_BLACK"
  shows "\<exists>h'. rb_insert_fix_right h (Some x) (Some p) (Some g) = Some (h', Some p) \<and>
    rb_goes h \<langle>u, (g, d, ge), \<langle>\<langle>xr, (x, b, xe), xl\<rangle>, (p, c, pe), pl\<rangle>\<rangle> k
      h' \<langle>\<langle>u, (g, RB_RED, ge), xr\<rangle>, (x, RB_BLACK, xe), \<langle>xl, (p, c, pe), pl\<rangle>\<rangle> k"
proof -
  have p: "rb_at h \<langle>\<langle>xr, (x, b, xe), xl\<rangle>, (p, c, pe), pl\<rangle> (In_right u g d ge # k)"
    using assms(1) by (simp add: rb_move)
  from rotate_right_at [OF p] obtain h1 where h1: "RB_ROTATE_RIGHT h (Some p) = Some h1"
    "rb_goes h \<langle>u, (g, d, ge), \<langle>\<langle>xr, (x, b, xe), xl\<rangle>, (p, c, pe), pl\<rangle>\<rangle> k
      h1 \<langle>u, (g, d, ge), \<langle>xr, (x, b, xe), \<langle>xl, (p, c, pe), pl\<rangle>\<rangle>\<rangle> k" by (auto simp: rb_move)
  from rotate_black_right [OF rb_goes_at [OF h1(2)]] obtain h2 h'
    where "RB_SET_BLACKRED h1 (Some x) (Some g) = Some h2" "RB_ROTATE_LEFT h2 (Some g) = Some h'"
      "rb_goes h1 \<langle>u, (g, d, ge), \<langle>xr, (x, b, xe), \<langle>xl, (p, c, pe), pl\<rangle>\<rangle>\<rangle> k
        h' \<langle>\<langle>u, (g, RB_RED, ge), xr\<rangle>, (x, RB_BLACK, xe), \<langle>xl, (p, c, pe), pl\<rangle>\<rangle> k" by blast
  then show ?thesis
    using fix_right_black [OF assms] rb_at_node(1) [OF p] h1 by (auto intro: rb_goes_trans)
qed

section \<open>The loop\<close>

text \<open>It stops at a node whose parent is black, and at the root.\<close>

lemma insert_loop_stops:
  assumes "rb_at h t k" "t \<noteq> \<langle>\<rangle>" "k = [] \<or> frame_color (hd k) = RB_BLACK"
  shows "rb_insert_color_loop h (root_ptr t) = Some h"
proof -
  obtain l a c e r where t: "t = \<langle>l, (a, c, e), r\<rangle>" using assms(2) by (cases t rule: root_color.cases) auto
  have "RB_COLOR h (path_ptr k) = Some RB_BLACK" if "k \<noteq> []"
    using assms(1,3) that by (cases k rule: path_addrs.cases) (auto simp: rb_move rb_at_node)
  moreover have "k = [] \<longleftrightarrow> path_ptr k = None" by (cases k) auto
  ultimately show ?thesis
    using rb_at_node(3) [OF assms(1) [unfolded t]]
    by (subst rb_insert_color_loop.simps) (auto simp: t)
qed

text \<open>What a round leaves: the subtree of the grandparent is in order, and if its root is black the loop is over.\<close>

definition repaired :: "'a rb_table \<Rightarrow> ptr option \<Rightarrow> 'a rbt \<Rightarrow> nat \<Rightarrow> bool" where
  "repaired h x t n \<longleftrightarrow> no_red_red t \<and> balanced t \<and> black_height t = n \<and>
     (if root_color t = RB_RED then x = root_ptr t else rb_insert_color_loop h x = Some h)"

lemma left_round_red:
  assumes "rb_at h \<langle>\<langle>pl, (p, RB_RED, pe), pr\<rangle>, (g, RB_BLACK, ge), u\<rangle> k" "root_color u = RB_RED"
    and "no_red_red pl" "no_red_red pr" "no_red_red u" "balanced pl" "balanced pr" "balanced u"
    and "black_height pl = n" "black_height pr = n" "black_height u = n"
  shows "\<exists>h' x' t'. rb_insert_fix_left h x (Some p) (Some g) = Some (h', x') \<and>
    rb_goes h \<langle>\<langle>pl, (p, RB_RED, pe), pr\<rangle>, (g, RB_BLACK, ge), u\<rangle> k h' t' k \<and> repaired h' x' t' (Suc n)"
proof -
  obtain ul v ue ur where u: "u = \<langle>ul, (v, RB_RED, ue), ur\<rangle>" using assms(2) by (cases u rule: root_color.cases) auto
  from fix_left_red [OF assms(1) [unfolded u]] show ?thesis
    using assms(3-11) unfolding u by (fastforce simp: repaired_def)
qed

lemma left_round_outer:
  assumes "rb_at h \<langle>\<langle>t, (p, RB_RED, pe), pr\<rangle>, (g, RB_BLACK, ge), u\<rangle> k" "root_color u = RB_BLACK" "t \<noteq> \<langle>\<rangle>"
    and "no_red_red t" "no_red_red pr" "no_red_red u" "balanced t" "balanced pr" "balanced u" "root_color pr = RB_BLACK"
    and "black_height t = n" "black_height pr = n" "black_height u = n"
  shows "\<exists>h' x' t'. rb_insert_fix_left h (root_ptr t) (Some p) (Some g) = Some (h', x') \<and>
    rb_goes h \<langle>\<langle>t, (p, RB_RED, pe), pr\<rangle>, (g, RB_BLACK, ge), u\<rangle> k h' t' k \<and> repaired h' x' t' (Suc n)"
proof -
  let ?t' = "\<langle>t, (p, RB_BLACK, pe), \<langle>pr, (g, RB_RED, ge), u\<rangle>\<rangle>"
  from fix_left_outer [OF assms(1-3)] obtain h'
    where h': "rb_insert_fix_left h (root_ptr t) (Some p) (Some g) = Some (h', root_ptr t)"
      "rb_goes h \<langle>\<langle>t, (p, RB_RED, pe), pr\<rangle>, (g, RB_BLACK, ge), u\<rangle> k h' ?t' k" by blast
  have "rb_at h' t (In_left p RB_BLACK pe \<langle>pr, (g, RB_RED, ge), u\<rangle> # k)"
    using rb_goes_at [OF h'(2)] by (simp add: rb_move)
  then have "rb_insert_color_loop h' (root_ptr t) = Some h'" by (rule insert_loop_stops) (simp_all add: assms(3))
  then have "repaired h' (root_ptr t) ?t' (Suc n)" using assms(2,4-13) by (simp add: repaired_def)
  then show ?thesis using h' by blast
qed

lemma left_round_inner:
  assumes "rb_at h \<langle>\<langle>pl, (p, RB_RED, pe), t\<rangle>, (g, RB_BLACK, ge), u\<rangle> k" "root_color u = RB_BLACK" "root_color t = RB_RED"
    and "no_red_red t" "no_red_red pl" "no_red_red u" "balanced t" "balanced pl" "balanced u" "root_color pl = RB_BLACK"
    and "black_height t = n" "black_height pl = n" "black_height u = n"
  shows "\<exists>h' x' t'. rb_insert_fix_left h (root_ptr t) (Some p) (Some g) = Some (h', x') \<and>
    rb_goes h \<langle>\<langle>pl, (p, RB_RED, pe), t\<rangle>, (g, RB_BLACK, ge), u\<rangle> k h' t' k \<and> repaired h' x' t' (Suc n)"
proof -
  obtain xl x xe xr where t: "t = \<langle>xl, (x, RB_RED, xe), xr\<rangle>" using assms(3) by (cases t rule: root_color.cases) auto
  let ?t' = "\<langle>\<langle>pl, (p, RB_RED, pe), xl\<rangle>, (x, RB_BLACK, xe), \<langle>xr, (g, RB_RED, ge), u\<rangle>\<rangle>"
  from fix_left_inner [OF assms(1) [unfolded t] assms(2)] obtain h'
    where h': "rb_insert_fix_left h (root_ptr t) (Some p) (Some g) = Some (h', Some p)"
      "rb_goes h \<langle>\<langle>pl, (p, RB_RED, pe), t\<rangle>, (g, RB_BLACK, ge), u\<rangle> k h' ?t' k" unfolding t by auto
  have "rb_at h' \<langle>pl, (p, RB_RED, pe), xl\<rangle> (In_left x RB_BLACK xe \<langle>xr, (g, RB_RED, ge), u\<rangle> # k)"
    using rb_goes_at [OF h'(2)] by (simp add: rb_move)
  then have "rb_insert_color_loop h' (root_ptr \<langle>pl, (p, RB_RED, pe), xl\<rangle>) = Some h'"
    by (rule insert_loop_stops) simp_all
  then have "repaired h' (Some p) ?t' (Suc n)" using assms(2,4-13) by (simp add: repaired_def t)
  then show ?thesis using h' by blast
qed

text \<open>Mirrored.\<close>

lemma right_round_red:
  assumes "rb_at h \<langle>u, (g, RB_BLACK, ge), \<langle>pr, (p, RB_RED, pe), pl\<rangle>\<rangle> k" "root_color u = RB_RED"
    and "no_red_red pl" "no_red_red pr" "no_red_red u" "balanced pl" "balanced pr" "balanced u"
    and "black_height pl = n" "black_height pr = n" "black_height u = n"
  shows "\<exists>h' x' t'. rb_insert_fix_right h x (Some p) (Some g) = Some (h', x') \<and>
    rb_goes h \<langle>u, (g, RB_BLACK, ge), \<langle>pr, (p, RB_RED, pe), pl\<rangle>\<rangle> k h' t' k \<and> repaired h' x' t' (Suc n)"
proof -
  obtain ul v ue ur where u: "u = \<langle>ur, (v, RB_RED, ue), ul\<rangle>" using assms(2) by (cases u rule: root_color.cases) auto
  from fix_right_red [OF assms(1) [unfolded u]] show ?thesis
    using assms(3-11) unfolding u by (fastforce simp: repaired_def)
qed

lemma right_round_outer:
  assumes "rb_at h \<langle>u, (g, RB_BLACK, ge), \<langle>pr, (p, RB_RED, pe), t\<rangle>\<rangle> k" "root_color u = RB_BLACK" "t \<noteq> \<langle>\<rangle>"
    and "no_red_red t" "no_red_red pr" "no_red_red u" "balanced t" "balanced pr" "balanced u" "root_color pr = RB_BLACK"
    and "black_height t = n" "black_height pr = n" "black_height u = n"
  shows "\<exists>h' x' t'. rb_insert_fix_right h (root_ptr t) (Some p) (Some g) = Some (h', x') \<and>
    rb_goes h \<langle>u, (g, RB_BLACK, ge), \<langle>pr, (p, RB_RED, pe), t\<rangle>\<rangle> k h' t' k \<and> repaired h' x' t' (Suc n)"
proof -
  let ?t' = "\<langle>\<langle>u, (g, RB_RED, ge), pr\<rangle>, (p, RB_BLACK, pe), t\<rangle>"
  from fix_right_outer [OF assms(1-3)] obtain h'
    where h': "rb_insert_fix_right h (root_ptr t) (Some p) (Some g) = Some (h', root_ptr t)"
      "rb_goes h \<langle>u, (g, RB_BLACK, ge), \<langle>pr, (p, RB_RED, pe), t\<rangle>\<rangle> k h' ?t' k" by blast
  have "rb_at h' t (In_right \<langle>u, (g, RB_RED, ge), pr\<rangle> p RB_BLACK pe # k)"
    using rb_goes_at [OF h'(2)] by (simp add: rb_move)
  then have "rb_insert_color_loop h' (root_ptr t) = Some h'" by (rule insert_loop_stops) (simp_all add: assms(3))
  then have "repaired h' (root_ptr t) ?t' (Suc n)" using assms(2,4-13) by (simp add: repaired_def)
  then show ?thesis using h' by blast
qed

lemma right_round_inner:
  assumes "rb_at h \<langle>u, (g, RB_BLACK, ge), \<langle>t, (p, RB_RED, pe), pl\<rangle>\<rangle> k" "root_color u = RB_BLACK" "root_color t = RB_RED"
    and "no_red_red t" "no_red_red pl" "no_red_red u" "balanced t" "balanced pl" "balanced u" "root_color pl = RB_BLACK"
    and "black_height t = n" "black_height pl = n" "black_height u = n"
  shows "\<exists>h' x' t'. rb_insert_fix_right h (root_ptr t) (Some p) (Some g) = Some (h', x') \<and>
    rb_goes h \<langle>u, (g, RB_BLACK, ge), \<langle>t, (p, RB_RED, pe), pl\<rangle>\<rangle> k h' t' k \<and> repaired h' x' t' (Suc n)"
proof -
  obtain xl x xe xr where t: "t = \<langle>xr, (x, RB_RED, xe), xl\<rangle>" using assms(3) by (cases t rule: root_color.cases) auto
  let ?t' = "\<langle>\<langle>u, (g, RB_RED, ge), xr\<rangle>, (x, RB_BLACK, xe), \<langle>xl, (p, RB_RED, pe), pl\<rangle>\<rangle>"
  from fix_right_inner [OF assms(1) [unfolded t] assms(2)] obtain h'
    where h': "rb_insert_fix_right h (root_ptr t) (Some p) (Some g) = Some (h', Some p)"
      "rb_goes h \<langle>u, (g, RB_BLACK, ge), \<langle>t, (p, RB_RED, pe), pl\<rangle>\<rangle> k h' ?t' k" unfolding t by auto
  have "rb_at h' \<langle>xl, (p, RB_RED, pe), pl\<rangle> (In_right \<langle>u, (g, RB_RED, ge), xr\<rangle> x RB_BLACK xe # k)"
    using rb_goes_at [OF h'(2)] by (simp add: rb_move)
  then have "rb_insert_color_loop h' (root_ptr \<langle>xl, (p, RB_RED, pe), pl\<rangle>) = Some h'"
    by (rule insert_loop_stops) simp_all
  then have "repaired h' (Some p) ?t' (Suc n)" using assms(2,4-13) by (simp add: repaired_def t)
  then show ?thesis using h' by blast
qed

text \<open>A round at any place of the tree, below a red node whose parent is black.\<close>

lemma insert_round:
  assumes "rb_at h t (f # gf # k)" "root_color t = RB_RED" "frame_color f = RB_RED"
    and "no_red_red t" "balanced t" "path_balanced (black_height t) (f # gf # k)" "path_no_red_red (f # gf # k)"
  shows "\<exists>h' x' t'. rb_insert_fix h (root_ptr t) (Some (frame_ptr f)) = Some (h', x') \<and>
    rb_goes h t (f # gf # k) h' t' k \<and> repaired h' x' t' (Suc (black_height t))"
proof (cases gf)
  case (In_left g d ge u)
  have ne: "t \<noteq> \<langle>\<rangle>" using assms(2) by auto
  have gf: "gf = In_left g RB_BLACK ge u" using assms(3,7) In_left by auto
  have *: "rb_insert_fix h x (Some p) = rb_insert_fix_left h x (Some p) (Some g)"
    if "rb_at h \<langle>\<langle>l, (p, c, e), r\<rangle>, (g, RB_BLACK, ge), u\<rangle> k" for l p c e r x
    using rb_at_node(1) [OF that] rb_at_node(3) [of h l p c e r "gf # k"] that gf
    by (simp add: rb_insert_fix_def rb_move)
  show ?thesis
  proof (cases f)
    case (In_left p c pe pr)
    then have f: "f = In_left p RB_RED pe pr" using assms(3) by simp
    with gf assms(1) have at: "rb_at h \<langle>\<langle>t, (p, RB_RED, pe), pr\<rangle>, (g, RB_BLACK, ge), u\<rangle> k" by (simp add: rb_move)
    have "rb_goes h t (f # gf # k) h' t' k = rb_goes h \<langle>\<langle>t, (p, RB_RED, pe), pr\<rangle>, (g, RB_BLACK, ge), u\<rangle> k h' t' k" for h' t'
      by (simp add: f gf rb_goes_plug [of h t] rb_goes_plug [of h "\<langle>_, _, _\<rangle>"])
    then show ?thesis
      using left_round_red [OF at, of "black_height t" "root_ptr t"] left_round_outer [OF at, of "black_height t"] assms(2,4-7) ne
      by (cases "root_color u") (simp_all add: f gf * [OF at])
  next
    case (In_right pl p c pe)
    then have f: "f = In_right pl p RB_RED pe" using assms(3) by simp
    with gf assms(1) have at: "rb_at h \<langle>\<langle>pl, (p, RB_RED, pe), t\<rangle>, (g, RB_BLACK, ge), u\<rangle> k" by (simp add: rb_move)
    have "rb_goes h t (f # gf # k) h' t' k = rb_goes h \<langle>\<langle>pl, (p, RB_RED, pe), t\<rangle>, (g, RB_BLACK, ge), u\<rangle> k h' t' k" for h' t'
      by (simp add: f gf rb_goes_plug [of h t] rb_goes_plug [of h "\<langle>_, _, _\<rangle>"])
    then show ?thesis
      using left_round_red [OF at, of "black_height t" "root_ptr t"] left_round_inner [OF at, of "black_height t"] assms(2,4-7) ne
      by (cases "root_color u") (simp_all add: f gf * [OF at])
  qed
next
  case (In_right u g d ge)
  have ne: "t \<noteq> \<langle>\<rangle>" using assms(2) by auto
  have gf: "gf = In_right u g RB_BLACK ge" using assms(3,7) In_right by auto
  have *: "rb_insert_fix h x (Some p) = rb_insert_fix_right h x (Some p) (Some g)"
    if "rb_at h \<langle>u, (g, RB_BLACK, ge), \<langle>r, (p, c, e), l\<rangle>\<rangle> k" for l p c e r x
    using rb_at_node(1) [OF that] root_ptr_apart [OF that] rb_at_node(3) [of h r p c e l "gf # k"] that gf
    by (simp add: rb_insert_fix_def rb_move)
  show ?thesis
  proof (cases f)
    case (In_right pr p c pe)
    then have f: "f = In_right pr p RB_RED pe" using assms(3) by simp
    with gf assms(1) have at: "rb_at h \<langle>u, (g, RB_BLACK, ge), \<langle>pr, (p, RB_RED, pe), t\<rangle>\<rangle> k" by (simp add: rb_move)
    have "rb_goes h t (f # gf # k) h' t' k = rb_goes h \<langle>u, (g, RB_BLACK, ge), \<langle>pr, (p, RB_RED, pe), t\<rangle>\<rangle> k h' t' k" for h' t'
      by (simp add: f gf rb_goes_plug [of h t] rb_goes_plug [of h "\<langle>_, _, _\<rangle>"])
    then show ?thesis
      using right_round_red [OF at, of "black_height t" "root_ptr t"] right_round_outer [OF at, of "black_height t"] assms(2,4-7) ne
      by (cases "root_color u") (simp_all add: f gf * [OF at])
  next
    case (In_left p c pe pl)
    then have f: "f = In_left p RB_RED pe pl" using assms(3) by simp
    with gf assms(1) have at: "rb_at h \<langle>u, (g, RB_BLACK, ge), \<langle>t, (p, RB_RED, pe), pl\<rangle>\<rangle> k" by (simp add: rb_move)
    have "rb_goes h t (f # gf # k) h' t' k = rb_goes h \<langle>u, (g, RB_BLACK, ge), \<langle>t, (p, RB_RED, pe), pl\<rangle>\<rangle> k h' t' k" for h' t'
      by (simp add: f gf rb_goes_plug [of h t] rb_goes_plug [of h "\<langle>_, _, _\<rangle>"])
    then show ?thesis
      using right_round_red [OF at, of "black_height t" "root_ptr t"] right_round_inner [OF at, of "black_height t"] assms(2,4-7) ne
      by (cases "root_color u") (simp_all add: f gf * [OF at])
  qed
qed

lemma rb_goes_root: "rb_at h t k \<Longrightarrow> rb_goes h t k h (plug k t) []"
  using rb_at_plug [of h t k] by (simp add: rb_goes_def keeps_outside_def)

lemma insert_loop_continues:
  assumes "rb_at h t (f # k)" "root_color t = RB_RED" "frame_color f = RB_RED"
    and "rb_insert_fix h (root_ptr t) (Some (frame_ptr f)) = Some (h', x')"
  shows "rb_insert_color_loop h (root_ptr t) = rb_insert_color_loop h' x'"
proof -
  obtain l a e r where t: "t = \<langle>l, (a, RB_RED, e), r\<rangle>" using assms(2) by (cases t rule: root_color.cases) auto
  have "RB_COLOR h (Some (frame_ptr f)) = Some RB_RED"
    using assms(1,3) by (cases f) (auto simp: rb_move rb_at_node)
  then show ?thesis
    using rb_at_node(3) [OF assms(1) [unfolded t]] assms(4)
    by (subst rb_insert_color_loop.simps) (simp add: t)
qed

lemma insert_color_loop_ok:
  assumes "rb_at h t k" "root_color t = RB_RED" "no_red_red t" "balanced t"
    and "path_balanced (black_height t) k" "path_no_red_red k"
  shows "\<exists>h' t'. rb_insert_color_loop h (root_ptr t) = Some h' \<and> rb_goes h t k h' t' [] \<and> no_red_red t' \<and> balanced t'"
  using assms
proof (induction "length k" arbitrary: h t k rule: less_induct)
  case less
  show ?case
  proof (cases "k = [] \<or> frame_color (hd k) = RB_BLACK")
    case True
    have "t \<noteq> \<langle>\<rangle>" using less.prems(2) by auto
    from insert_loop_stops [OF less.prems(1) this True] rb_goes_root [OF less.prems(1)] show ?thesis
      using no_red_red_plug [OF less.prems(3,6)] balanced_plug [OF less.prems(4,5)] True by blast
  next
    case False
    then obtain f k1 where f: "k = f # k1" "frame_color f = RB_RED" by (cases k) auto
    moreover from this less.prems(6) obtain gf k' where "k1 = gf # k'" by (cases k1) auto
    ultimately have k: "k = f # gf # k'" by simp
    from insert_round [OF less.prems(1) [unfolded k] less.prems(2) f(2) less.prems(3,4) less.prems(5,6) [unfolded k]]
    obtain h1 x1 t1 where r: "rb_insert_fix h (root_ptr t) (Some (frame_ptr f)) = Some (h1, x1)"
      "rb_goes h t k h1 t1 k'" "repaired h1 x1 t1 (Suc (black_height t))" unfolding k by blast
    have step: "rb_insert_color_loop h (root_ptr t) = rb_insert_color_loop h1 x1"
      using insert_loop_continues [OF less.prems(1) [unfolded k] less.prems(2) f(2) r(1)] .
    note at = rb_goes_at [OF r(2)]
    have k': "frame_color gf = RB_BLACK" "path_balanced (Suc (black_height t)) k'" "path_no_red_red k'"
      using less.prems(5,6) f(2) by (auto simp: k)
    have t1: "no_red_red t1" "balanced t1" "path_balanced (black_height t1) k'"
      using r(3) k' by (simp_all add: repaired_def)
    show ?thesis
    proof (cases "root_color t1 = RB_RED")
      case True
      have "length k' < length k" by (simp add: k)
      from less.hyps [OF this at True t1 k'(3)] show ?thesis
        using True r step by (auto simp: repaired_def intro: rb_goes_trans)
    next
      case False
      then have "rb_insert_color_loop h1 x1 = Some h1" using r(3) by (simp add: repaired_def)
      moreover have "no_red_red (plug k' t1)" "balanced (plug k' t1)"
        using False no_red_red_plug [OF t1(1) k'(3)] balanced_plug [OF t1(2,3)] by simp_all
      ultimately show ?thesis using step rb_goes_trans [OF r(2) rb_goes_root [OF at]] by auto
    qed
  qed
qed

text \<open>The whole repair: the root is made black.\<close>

lemma insert_color_ok:
  assumes "rb_at h t k" "root_color t = RB_RED" "no_red_red t" "balanced t"
    and "path_balanced (black_height t) k" "path_no_red_red k"
  shows "\<exists>h' t'. RB_INSERT_COLOR h (root_ptr t) = Some h' \<and> rb_goes h t k h' t' [] \<and>
    no_red_red t' \<and> balanced t' \<and> root_color t' = RB_BLACK"
proof -
  from insert_color_loop_ok [OF assms] obtain h1 t1
    where h1: "rb_insert_color_loop h (root_ptr t) = Some h1" "rb_goes h t k h1 t1 []" "no_red_red t1" "balanced t1" by blast
  have "entries t1 \<noteq> []" using h1(2) assms(2) by (cases t rule: root_color.cases) (auto simp: rb_goes_def)
  then obtain l a c e r where t1: "t1 = \<langle>l, (a, c, e), r\<rangle>" by (cases t1 rule: root_color.cases) auto
  have "rbh_root h1 = Some a" using rb_goes_at [OF h1(2)] by (simp add: rb_at_def t1)
  moreover from set_color_at [OF rb_goes_at [OF h1(2), unfolded t1], of RB_BLACK] obtain h2
    where h2: "set_color h1 (Some a) RB_BLACK = Some h2" "rb_goes h1 t1 [] h2 \<langle>l, (a, RB_BLACK, e), r\<rangle> []"
    unfolding t1 by blast
  ultimately have "RB_INSERT_COLOR h (root_ptr t) = Some h2" using h1(1) by (simp add: RB_INSERT_COLOR_def)
  then show ?thesis using rb_goes_trans [OF h1(2) h2(2)] h1(3,4)
    by (intro exI [of _ h2] exI [of _ "\<langle>l, (a, RB_BLACK, e), r\<rangle>"]) (simp add: t1)
qed

section \<open>Insertion\<close>

text \<open>A decomposition of a tree in order has an ordered path.\<close>

lemma balanced_plugD: "balanced (plug k t) \<Longrightarrow> balanced t \<and> path_balanced (black_height t) k"
  by (induction k t rule: plug.induct) (auto split: if_splits)

lemma no_red_red_plugD:
  "no_red_red (plug k t) \<Longrightarrow> root_color (plug k t) = RB_BLACK \<Longrightarrow>
    no_red_red t \<and> path_no_red_red k \<and> (root_color t = RB_RED \<longrightarrow> k \<noteq> [] \<and> frame_color (hd k) = RB_BLACK)"
  by (induction k t rule: plug.induct) auto

text \<open>The last comparison tells the side on which the new node hangs.\<close>

fun hangs :: "int \<Rightarrow> 'a frame list \<Rightarrow> bool" where
  "hangs c [] \<longleftrightarrow> True"
| "hangs c (In_left a d e r # k) \<longleftrightarrow> c < 0"
| "hangs c (In_right l a d e # k) \<longleftrightarrow> \<not> c < 0"

lemma insert_link_at:
  assumes "rb_at h \<langle>\<rangle> k" "hangs c k" "mem h p = Some n" "p \<notin> path_addrs k"
  shows "\<exists>h'. rb_insert_link h (Some p) (path_ptr k) c = Some h' \<and> rb_at h' \<langle>\<langle>\<rangle>, (p, RB_RED, elm n), \<langle>\<rangle>\<rangle> k \<and>
    (\<forall>b. b \<notin> insert p (path_addrs k) \<longrightarrow> mem h' b = mem h b)"
  using assms
  by (cases "(c, k)" rule: hangs.cases) (auto simp: rb_insert_link_def RB_SET_def rb_set_defs rb_at_def)

text \<open>A table in order: a tree from the root, ascending keys, and the rules of the colors.\<close>

definition rb_ok :: "('a \<Rightarrow> 'k::linorder) \<Rightarrow> 'a rb_table \<Rightarrow> 'a rbt \<Rightarrow> bool" where
  "rb_ok key h t \<longleftrightarrow> rb_at h t [] \<and> sorted_wrt (<) (map (\<lambda>x. key (snd x)) (entries t)) \<and>
     no_red_red t \<and> balanced t \<and> root_color t = RB_BLACK"

context table_order
begin

lemma insert_descend_place:
  assumes "rb_at h t k" "sorted_wrt (<) (map (\<lambda>x. key (snd x)) (entries t))" "key x \<notin> (\<lambda>x. key (snd x)) ` set (entries t)"
    and "hangs c k" "\<forall>(a, e) \<in> set (before k). key e < key x" "\<forall>(a, e) \<in> set (after k). key x < key e"
  shows "\<exists>k' c'. rb_insert_descend cmp h x (root_ptr t) (path_ptr k) c = Some (Inr (path_ptr k', c')) \<and>
    plug k' \<langle>\<rangle> = plug k t \<and> hangs c' k' \<and>
    (\<forall>(a, e) \<in> set (before k'). key e < key x) \<and> (\<forall>(a, e) \<in> set (after k'). key x < key e)"
  using assms
proof (induction t arbitrary: k c)
  case Leaf
  then show ?case by (subst rb_insert_descend.simps) auto
next
  case (Node l n r)
  obtain a d e where n: "n = (a, d, e)" by (cases n) auto
  note nd = rb_at_node [OF Node.prems(1) [unfolded n]]
  have s: "sorted_wrt (<) (map (\<lambda>x. key (snd x)) (entries l))" "sorted_wrt (<) (map (\<lambda>x. key (snd x)) (entries r))"
    "\<forall>(b, f) \<in> set (entries l). key f < key e" "\<forall>(b, f) \<in> set (entries r). key e < key f"
    using Node.prems(2) by (auto simp: n sorted_wrt_append)
  have ne: "key x \<noteq> key e" using Node.prems(3) by (auto simp: n)
  show ?case
  proof (cases "key x < key e")
    case True
    have "\<exists>k' c'. rb_insert_descend cmp h x (root_ptr l) (path_ptr (In_left a d e r # k)) (cmp x e) = Some (Inr (path_ptr k', c')) \<and>
      plug k' \<langle>\<rangle> = plug (In_left a d e r # k) l \<and> hangs c' k' \<and>
      (\<forall>(a, e) \<in> set (before k'). key e < key x) \<and> (\<forall>(a, e) \<in> set (after k'). key x < key e)"
      using Node.prems True s n by (intro Node.IH(1)) (auto simp: rb_move cmp_neg)
    then show ?thesis using True nd by (subst rb_insert_descend.simps) (auto simp: n cmp_neg)
  next
    case False
    then have gt: "key e < key x" using ne by simp
    have "\<exists>k' c'. rb_insert_descend cmp h x (root_ptr r) (path_ptr (In_right l a d e # k)) (cmp x e) = Some (Inr (path_ptr k', c')) \<and>
      plug k' \<langle>\<rangle> = plug (In_right l a d e # k) r \<and> hangs c' k' \<and>
      (\<forall>(a, e) \<in> set (before k'). key e < key x) \<and> (\<forall>(a, e) \<in> set (after k'). key x < key e)"
      using Node.prems gt s n by (intro Node.IH(2)) (auto simp: rb_move cmp_neg)
    then show ?thesis using False gt nd by (subst rb_insert_descend.simps) (auto simp: n cmp_neg cmp_pos)
  qed
qed

lemma insert_new:
  assumes "rb_ok key h t" "mem h p = Some n" "p \<notin> addrs t" "key (elm n) \<notin> (\<lambda>x. key (snd x)) ` set (entries t)"
  shows "\<exists>h' t'. RB_INSERT cmp h (Some p) = Some (h', None) \<and> rb_ok key h' t' \<and>
    set (entries t') = insert (p, elm n) (set (entries t)) \<and> (\<forall>b. b \<notin> insert p (addrs t) \<longrightarrow> mem h' b = mem h b)"
proof -
  note ok = assms(1) [unfolded rb_ok_def]
  have root: "rbh_root h = root_ptr t" using ok by (simp add: rb_at_def)
  from insert_descend_place [of h t "[]" "elm n" 0] ok assms(4) obtain k c
    where d: "rb_insert_descend cmp h (elm n) (rbh_root h) None 0 = Some (Inr (path_ptr k, c))" "plug k \<langle>\<rangle> = t" "hangs c k"
      "\<forall>(a, e) \<in> set (before k). key e < key (elm n)" "\<forall>(a, e) \<in> set (after k). key (elm n) < key e"
    by (auto simp: root)
  have at: "rb_at h \<langle>\<rangle> k" using ok rb_at_plug [of h "\<langle>\<rangle>" k] by (simp add: d(2))
  have pk: "path_addrs k = addrs t" "p \<notin> path_addrs k" using assms(3) addrs_plug [of k "\<langle>\<rangle>"] by (simp_all add: d(2))
  from insert_link_at [OF at d(3) assms(2) pk(2)] obtain h1
    where h1: "rb_insert_link h (Some p) (path_ptr k) c = Some h1" "rb_at h1 \<langle>\<langle>\<rangle>, (p, RB_RED, elm n), \<langle>\<rangle>\<rangle> k"
      "\<forall>b. b \<notin> insert p (addrs t) \<longrightarrow> mem h1 b = mem h b" by (auto simp: pk)
  have "path_balanced 0 k" "path_no_red_red k"
    using ok balanced_plugD [of k "\<langle>\<rangle>"] no_red_red_plugD [of k "\<langle>\<rangle>"] by (simp_all add: d(2))
  with insert_color_ok [OF h1(2)] obtain h2 t2 where h2: "RB_INSERT_COLOR h1 (Some p) = Some h2"
    "rb_goes h1 \<langle>\<langle>\<rangle>, (p, RB_RED, elm n), \<langle>\<rangle>\<rangle> k h2 t2 []" "no_red_red t2" "balanced t2" "root_color t2 = RB_BLACK" by auto
  have e: "entries t = before k @ after k" "entries t2 = before k @ (p, elm n) # after k"
    using entries_plug [of k "\<langle>\<rangle>"] h2(2) by (auto simp: d(2) rb_goes_def)
  have "sorted_wrt (<) (map (\<lambda>x. key (snd x)) (entries t2))"
    using ok d(4,5) unfolding e by (fastforce simp: sorted_wrt_append)
  then have "rb_ok key h2 t2" using h2(2-5) by (simp add: rb_ok_def rb_goes_def)
  moreover have "\<forall>b. b \<notin> insert p (addrs t) \<longrightarrow> mem h2 b = mem h b"
    using h2(2) h1(3) pk(1) by (auto simp: rb_goes_def keeps_outside_def)
  moreover have "RB_INSERT cmp h (Some p) = Some (h2, None)"
    using assms(2) d(1) h1(1) h2(1) by (simp add: RB_INSERT_def RB_ELM_def)
  ultimately show ?thesis using e by (intro exI [of _ h2] exI [of _ t2]) auto
qed

end

section \<open>What the rules promise\<close>

text \<open>The height is at most twice the binary logarithm of the number of nodes plus one.\<close>

lemma black_height_height:
  "no_red_red t \<Longrightarrow> balanced t \<Longrightarrow> height t \<le> 2 * black_height t + (if root_color t = RB_RED then 1 else 0)"
  by (induction t rule: balanced.induct) (auto split: if_splits)

lemma black_height_size: "balanced t \<Longrightarrow> 2 ^ black_height t \<le> size t + 1"
  by (induction t rule: balanced.induct) auto

lemma rb_ok_height:
  assumes "rb_ok key h t"
  shows "2 ^ height t \<le> (size t + 1) ^ 2"
proof -
  have "height t \<le> 2 * black_height t" "2 ^ black_height t \<le> size t + 1"
    using assms black_height_height [of t] black_height_size [of t] by (simp_all add: rb_ok_def)
  then have "(2 :: nat) ^ height t \<le> 2 ^ (2 * black_height t)" by (intro power_increasing) simp_all
  also have "\<dots> = (2 ^ black_height t) ^ 2" by (simp add: power_mult mult.commute)
  also have "\<dots> \<le> (size t + 1) ^ 2" by (rule power_mono) (use black_height_size [of t] assms in \<open>simp_all add: rb_ok_def\<close>)
  finally show ?thesis .
qed

text \<open>A table in order is one that the searches work on.\<close>

lemma root_ptr_shape: "rb_heap m par t \<Longrightarrow> rb_shape m (root_ptr t) par (map_tree fst t)"
  by (induction m par t rule: rb_heap.induct) auto

lemma key_at_entries: "rb_heap m par t \<Longrightarrow> (a, e) \<in> set (entries t) \<Longrightarrow> key_at key m a = key e"
  by (induction m par t rule: rb_heap.induct) (auto simp: key_at_def)

lemma inorder_entries: "inorder (map_tree fst t) = map fst (entries t)"
  by (induction t rule: balanced.induct) simp_all

definition lookup :: "('a \<Rightarrow> 'k) \<Rightarrow> 'a rbt \<Rightarrow> 'k \<rightharpoonup> ptr" where
  "lookup key t = map_of (map (\<lambda>x. (key (snd x), fst x)) (entries t))"

lemma rb_ok_wf:
  assumes "rb_ok key h t"
  shows "rb_wf key h (map_tree fst t)" "rb_assoc key (mem h) (map_tree fst t) = lookup key t"
proof -
  have hp: "rb_heap (mem h) None t" "rbh_root h = root_ptr t" using assms by (auto simp: rb_ok_def rb_at_def)
  have k: "key_at key (mem h) (fst x) = key (snd x)" if "x \<in> set (entries t)" for x
    using key_at_entries [OF hp(1), of "fst x" "snd x" key] that by simp
  have "rb_keys key (mem h) (map_tree fst t) = map (\<lambda>x. key (snd x)) (entries t)"
    unfolding rb_keys_def inorder_entries using k by simp
  then show "rb_wf key h (map_tree fst t)"
    using assms root_ptr_shape [OF hp(1)] hp(2) by (simp add: rb_wf_def rb_ok_def)
  show "rb_assoc key (mem h) (map_tree fst t) = lookup key t"
    unfolding rb_assoc_def lookup_def inorder_entries using k by (simp cong: map_cong)
qed

lemma lookup_Some:
  assumes "sorted_wrt (<) (map (\<lambda>x. key (snd x)) (entries t))"
  shows "lookup key t k = Some a \<longleftrightarrow> (\<exists>e. (a, e) \<in> set (entries t) \<and> key e = (k :: 'k::linorder))"
proof -
  have "distinct (map (\<lambda>x. key (snd x)) (entries t))" using assms by (simp only: strict_sorted_iff)
  then have "distinct (map fst (map (\<lambda>x. (key (snd x), fst x)) (entries t)))" by (simp add: o_def)
  from map_of_eq_Some_iff [OF this] show ?thesis unfolding lookup_def by force
qed

lemma option_eqI: "(\<And>a. x = Some a \<longleftrightarrow> y = Some a) \<Longrightarrow> x = y"
  by (cases x; cases y) auto

lemma lookup_insert:
  fixes key :: "'a \<Rightarrow> 'k::linorder"
  assumes "sorted_wrt (<) (map (\<lambda>x. key (snd x)) (entries t))" "sorted_wrt (<) (map (\<lambda>x. key (snd x)) (entries t'))"
    and "set (entries t') = insert (p, e) (set (entries t))" "lookup key t (key e) = None"
  shows "lookup key t' k = (if k = key e then Some p else lookup key t k)"
proof (rule option_eqI)
  fix a
  have "\<nexists>a f. (a, f) \<in> set (entries t) \<and> key f = key e"
    using lookup_Some [OF assms(1), of "key e"] assms(4) by auto
  then show "lookup key t' k = Some a \<longleftrightarrow> (if k = key e then Some p else lookup key t k) = Some a"
    unfolding lookup_Some [OF assms(2)] assms(3) using lookup_Some [OF assms(1), of k] by auto
qed

text \<open>
  C6. \<open>RB_INSERT\<close> on a table in order, for any comparison of a key in a linear order: if a node
  has the key of the new one, its address is returned and nothing changes.  Otherwise null is returned; the
  table is in order again, so that its height is logarithmic, it holds the old nodes and the new one,
  \<open>RB_FIND\<close> finds the new node by its key and the others as before, and the rest of the memory is untouched.
\<close>

theorem rb_insert_correct:
  fixes key :: "'a \<Rightarrow> 'k::linorder"
  assumes "\<And>a b. cmp a b < 0 \<longleftrightarrow> key a < key b" "\<And>a b. cmp a b > 0 \<longleftrightarrow> key b < key a"
    and "rb_ok key h t" "mem h p = Some n" "p \<notin> addrs t"
  shows "case lookup key t (key (elm n)) of
      Some a \<Rightarrow> RB_INSERT cmp h (Some p) = Some (h, Some a)
    | None \<Rightarrow> (\<exists>h' t'. RB_INSERT cmp h (Some p) = Some (h', None) \<and> rb_ok key h' t' \<and>
        2 ^ height t' \<le> (size t' + 1) ^ 2 \<and>
        set (entries t') = insert (p, elm n) (set (entries t)) \<and>
        (\<forall>x. RB_FIND cmp h' x = (if key x = key (elm n) then Some (Some p) else RB_FIND cmp h x)) \<and>
        (\<forall>b. b \<notin> insert p (addrs t) \<longrightarrow> mem h' b = mem h b))"
proof -
  have ord: "table_order cmp key" using assms(1,2) by unfold_locales
  have sorted: "sorted_wrt (<) (map (\<lambda>x. key (snd x)) (entries u))" if "rb_ok key g u" for g u
    using that by (simp add: rb_ok_def)
  show ?thesis
  proof (cases "lookup key t (key (elm n))")
    case (Some a)
    then show ?thesis
      using table_order.insert_existing [OF ord rb_ok_wf(1) [OF assms(3)] assms(4)] rb_ok_wf(2) [OF assms(3)] by simp
  next
    case None
    then have "key (elm n) \<notin> (\<lambda>x. key (snd x)) ` set (entries t)"
      by (auto simp: lookup_def map_of_eq_None_iff image_image)
    from table_order.insert_new [OF ord assms(3-5) this] obtain h' t'
      where i: "RB_INSERT cmp h (Some p) = Some (h', None)" "rb_ok key h' t'"
        "set (entries t') = insert (p, elm n) (set (entries t))" "\<forall>b. b \<notin> insert p (addrs t) \<longrightarrow> mem h' b = mem h b" by blast
    have "lookup key t' k = (if k = key (elm n) then Some p else lookup key t k)" for k
      using lookup_insert [OF sorted [OF assms(3)] sorted [OF i(2)] i(3) None] .
    then have "RB_FIND cmp h' x = (if key x = key (elm n) then Some (Some p) else RB_FIND cmp h x)" for x
      using table_order.find_assoc [OF ord rb_ok_wf(1) [OF i(2)]] table_order.find_assoc [OF ord rb_ok_wf(1) [OF assms(3)]]
      by (simp add: rb_ok_wf(2) [OF i(2)] rb_ok_wf(2) [OF assms(3)])
    then show ?thesis using None i rb_ok_height [OF i(2)] by auto
  qed
qed

text \<open>Inserting 3 into a table that holds 1 at its root and 2 to the right of it needs a rotation.\<close>

definition example_table :: "int rb_table" where
  "example_table = \<lparr>rbh_root = Some 4, mem =
    [4 \<mapsto> \<lparr>rbe_left = None, rbe_right = Some 5, rbe_parent = None, rbe_color = RB_BLACK, elm = 1\<rparr>,
     5 \<mapsto> \<lparr>rbe_left = None, rbe_right = None, rbe_parent = Some 4, rbe_color = RB_RED, elm = 2\<rparr>,
     6 \<mapsto> \<lparr>rbe_left = None, rbe_right = None, rbe_parent = None, rbe_color = RB_BLACK, elm = 3\<rparr>]\<rparr>"

lemma example_table_ok: "rb_ok id example_table \<langle>\<langle>\<rangle>, (4, RB_BLACK, 1), \<langle>\<langle>\<rangle>, (5, RB_RED, 2), \<langle>\<rangle>\<rangle>\<rangle>"
  by (simp add: example_table_def rb_ok_def rb_at_def)

theorem rb_insert_correct_witness:
  "\<exists>h' t'. RB_INSERT (-) example_table (Some 6) = Some (h', None) \<and> rb_ok id h' t' \<and>
     set (entries t') = {(4, 1), (5, 2), (6, 3)} \<and> RB_FIND (-) h' 3 = Some (Some 6)"
proof -
  have m: "mem example_table 6 = Some \<lparr>rbe_left = None, rbe_right = None, rbe_parent = None, rbe_color = RB_BLACK, elm = 3\<rparr>"
    by (simp add: example_table_def)
  from rb_insert_correct [of "(-)" id, OF _ _ example_table_ok m] obtain h' t'
    where "RB_INSERT (-) example_table (Some 6) = Some (h', None)" "rb_ok id h' t'"
      "set (entries t') = {(6, 3), (4, 1), (5, 2)}" "\<forall>x. RB_FIND (-) h' x = (if x = 3 then Some (Some 6) else RB_FIND (-) example_table x)"
    by (auto simp: lookup_def)
  moreover have "{(6, 3), (4, 1), (5, 2)} = {(4, 1), (5, 2), (6 :: nat, 3 :: int)}" by auto
  ultimately show ?thesis by auto
qed

end
