(* ===== verification/Drv_Tree_Remove.thy ===== *)
theory Drv_Tree_Remove
  imports Drv_Tree_Insert
begin

text \<open>
  Removal from the red-black trees of \<open>drv_tree.h\<close>: the node is unlinked, or its successor takes its place; where
  a black node is gone, the repair moves up the path until the subtree below it has its black height back.
\<close>

section \<open>Unlinking\<close>

text \<open>What a removal step leaves of the heap: a tree below a path, and the memory elsewhere as it was.\<close>

definition rb_leaves :: "ptr set \<Rightarrow> 'a rb_table \<Rightarrow> 'a rb_table \<Rightarrow> 'a rbt \<Rightarrow> 'a frame list \<Rightarrow> bool" where
  "rb_leaves A h h' t k \<longleftrightarrow> rb_at h' t k \<and> (\<forall>b. b \<notin> A \<longrightarrow> mem h' b = mem h b)"

lemma unlink_one_child_at:
  assumes "rb_at h \<langle>l, (x, c, e), r\<rangle> k" "l = \<langle>\<rangle> \<and> s = r \<or> r = \<langle>\<rangle> \<and> s = l"
  shows "\<exists>h'. rb_unlink_one_child h (Some x) (root_ptr s) = Some (h', path_ptr k, root_ptr s, c) \<and>
    rb_leaves (addrs s \<union> path_addrs k) h h' s k"
proof -
  have s: "rb_heap (mem h) (Some x) s" "apart s" "x \<notin> addrs s" "addrs s \<inter> path_addrs k = {}"
    and k: "rb_path h (Some x) k" "path_apart k" "x \<notin> path_addrs k" using assms by (auto simp: rb_at_def)
  from set_parent_root [OF s(1,2), of "path_ptr k"] obtain h1
    where h1: "(if root_ptr s \<noteq> None then set_parent h (root_ptr s) (path_ptr k) else Some h) = Some h1"
      "rb_heap (mem h1) (path_ptr k) s" "rbh_root h1 = rbh_root h" "\<forall>b. b \<notin> addrs s \<longrightarrow> mem h1 b = mem h b" by auto
  have "rb_path h1 (Some x) k = rb_path h (Some x) k" using s(4) h1(3,4) by (intro rb_path_frame) auto
  with replace_child_path [of h1 x k "root_ptr s"] k obtain h2
    where h2: "replace_child h1 (path_ptr k) (Some x) (root_ptr s) = Some h2" "rb_path h2 (root_ptr s) k"
      "\<forall>b. b \<notin> path_addrs k \<longrightarrow> mem h2 b = mem h1 b" by auto
  have "rb_heap (mem h2) (path_ptr k) s = rb_heap (mem h1) (path_ptr k) s"
    using h2(3) s(4) by (intro rb_heap_frame) auto
  then have "rb_at h2 s k" using h1(2) h2(2) s k by (simp add: rb_at_def)
  moreover have "rb_unlink_one_child h (Some x) (root_ptr s) = Some (h2, path_ptr k, root_ptr s, c)"
    using rb_at_node [OF assms(1)] h1(1) h2(1) by (simp add: rb_unlink_one_child_def del: root_ptr_None)
  ultimately show ?thesis using h1(4) h2(3) by (intro exI [of _ h2]) (simp add: rb_leaves_def)
qed

text \<open>A node that is not in the tree takes the place of one that is.\<close>

definition take_place :: "'a rb_table \<Rightarrow> ptr option \<Rightarrow> ptr option \<Rightarrow> 'a rb_table option" where
  "take_place h old x = do {
     fields \<leftarrow> deref (mem h) old;
     h \<leftarrow> upd_node h x (\<lambda>n. n\<lparr>rbe_left := rbe_left fields, rbe_right := rbe_right fields,
            rbe_parent := rbe_parent fields, rbe_color := rbe_color fields\<rparr>);
     oldp \<leftarrow> RB_PARENT h old;
     h \<leftarrow> replace_child h oldp old x;
     oldl \<leftarrow> RB_LEFT h old;
     h \<leftarrow> set_parent h oldl x;
     oldr \<leftarrow> RB_RIGHT h old;
     if oldr \<noteq> None then set_parent h oldr x else Some h }"

lemma take_place_at:
  assumes "rb_at h \<langle>l, (a, c, e), r\<rangle> k" "l \<noteq> \<langle>\<rangle>" "mem h x = Some n" "x \<notin> insert a (addrs l \<union> addrs r \<union> path_addrs k)"
  shows "\<exists>h'. take_place h (Some a) (Some x) = Some h' \<and>
    rb_leaves (insert x (addrs l \<union> addrs r \<union> path_addrs k)) h h' \<langle>l, (x, c, elm n), r\<rangle> k"
proof -
  let ?n = "n\<lparr>rbe_left := root_ptr l, rbe_right := root_ptr r, rbe_parent := path_ptr k, rbe_color := c\<rparr>"
  have m: "mem h a = Some \<lparr>rbe_left = root_ptr l, rbe_right = root_ptr r, rbe_parent = path_ptr k, rbe_color = c, elm = e\<rparr>"
    and l: "rb_heap (mem h) (Some a) l" "apart l" and r: "rb_heap (mem h) (Some a) r" "apart r"
    and k: "rb_path h (Some a) k" "path_apart k" "a \<notin> path_addrs k"
    and d: "a \<notin> addrs l" "a \<notin> addrs r" "addrs l \<inter> addrs r = {}" "addrs l \<inter> path_addrs k = {}" "addrs r \<inter> path_addrs k = {}"
    using assms(1) by (auto simp: rb_at_def)
  define h1 where "h1 = node_at h x ?n"
  have h1: "upd_node h (Some x) (\<lambda>n. n\<lparr>rbe_left := root_ptr l, rbe_right := root_ptr r,
            rbe_parent := path_ptr k, rbe_color := c\<rparr>) = Some h1"
    using assms(3) by (simp add: upd_node_def h1_def node_at_def)
  have "rb_path h1 (Some a) k = rb_path h (Some a) k" using assms(4) by (intro rb_path_frame) (auto simp: h1_def)
  with replace_child_path [of h1 a k "Some x"] k obtain h2
    where h2: "replace_child h1 (path_ptr k) (Some a) (Some x) = Some h2" "rb_path h2 (Some x) k"
      "\<forall>b. b \<notin> path_addrs k \<longrightarrow> mem h2 b = mem h1 b" by auto
  have "rb_heap (mem h2) (Some a) l = rb_heap (mem h) (Some a) l" "rb_heap (mem h2) (Some a) r = rb_heap (mem h) (Some a) r"
    using h2(3) d assms(4) by (auto intro!: rb_heap_frame simp: h1_def)
  with l r have lr: "rb_heap (mem h2) (Some a) l" "rb_heap (mem h2) (Some a) r" by simp_all
  from set_parent_root [OF lr(1) l(2), of "Some x"] assms(2) obtain h3
    where h3: "set_parent h2 (root_ptr l) (Some x) = Some h3" "rb_heap (mem h3) (Some x) l" "rbh_root h3 = rbh_root h2"
      "\<forall>b. b \<notin> addrs l \<longrightarrow> mem h3 b = mem h2 b" by auto
  have "rb_heap (mem h3) (Some a) r = rb_heap (mem h2) (Some a) r" using h3(4) d(3) by (intro rb_heap_frame) auto
  with set_parent_root [of h3 "Some a" r "Some x"] lr(2) r(2) obtain h4
    where h4: "(if root_ptr r \<noteq> None then set_parent h3 (root_ptr r) (Some x) else Some h3) = Some h4"
      "rb_heap (mem h4) (Some x) r" "rbh_root h4 = rbh_root h3" "\<forall>b. b \<notin> addrs r \<longrightarrow> mem h4 b = mem h3 b" by auto
  have a: "mem h1 a = mem h a" "mem h2 a = mem h a" "mem h3 a = mem h a"
    using assms(4) k(3) d(1) h2(3) h3(4) by (auto simp: h1_def)
  have "take_place h (Some a) (Some x) = Some h4"
    using a m h1 h2(1) h3(1) h4(1) by (simp add: take_place_def rb_access del: root_ptr_None)
  moreover have "rb_at h4 \<langle>l, (x, c, elm n), r\<rangle> k"
  proof -
    have "mem h4 x = Some ?n" using assms(4) h2(3) h3(4) h4(4) by (simp add: h1_def)
    then have "mem h4 x = Some \<lparr>rbe_left = root_ptr l, rbe_right = root_ptr r, rbe_parent = path_ptr k, rbe_color = c, elm = elm n\<rparr>"
      by (cases n) simp
    moreover have "rb_heap (mem h4) (Some x) l = rb_heap (mem h3) (Some x) l" using h4(4) d(3) by (intro rb_heap_frame) auto
    moreover have "rb_path h4 (Some x) k = rb_path h2 (Some x) k"
    proof (rule rb_path_frame)
      fix b assume "b \<in> path_addrs k"
      then have "b \<notin> addrs l" "b \<notin> addrs r" using d(4,5) by blast+
      then show "mem h4 b = mem h2 b" using h3(4) h4(4) by simp
    qed (simp add: h3(3) h4(3))
    ultimately show ?thesis using h2(2) h3(2) h4(2) l(2) r(2) k(2) d(3-5) assms(4)
      by (simp add: rb_at_def Int_Un_distrib2)
  qed
  moreover have "\<forall>b. b \<notin> insert x (addrs l \<union> addrs r \<union> path_addrs k) \<longrightarrow> mem h4 b = mem h b"
    using h2(3) h3(4) h4(4) by (simp add: h1_def)
  ultimately show ?thesis by (simp add: rb_leaves_def)
qed

text \<open>The way down to the leftmost node.\<close>

fun left_spine :: "'a frame list \<Rightarrow> bool" where
  "left_spine [] \<longleftrightarrow> True"
| "left_spine (In_left a c e r # k) \<longleftrightarrow> left_spine k"
| "left_spine (In_right l a c e # k) \<longleftrightarrow> False"

lemma leftmost_at:
  assumes "rb_at h t k" "t \<noteq> \<langle>\<rangle>"
  shows "\<exists>s x c e r. left_spine s \<and> t = plug s \<langle>\<langle>\<rangle>, (x, c, e), r\<rangle> \<and> rb_leftmost h (root_ptr t) = Some (Some x) \<and>
    rb_at h \<langle>\<langle>\<rangle>, (x, c, e), r\<rangle> (s @ k)"
  using assms
proof (induction t arbitrary: k)
  case (Node l n r)
  obtain a c e where n: "n = (a, c, e)" by (cases n) auto
  note nd = rb_at_node(1) [OF Node.prems(1) [unfolded n]]
  show ?case
  proof (cases "l = \<langle>\<rangle>")
    case True
    then show ?thesis using Node.prems(1) nd n
      by (intro exI [of _ "[]"]) (auto simp: rb_leftmost.simps)
  next
    case False
    have "rb_at h l (In_left a c e r # k)" using Node.prems(1) by (simp add: rb_move n)
    from Node.IH(1) [OF this False] obtain s x d f q
      where s: "left_spine s" "l = plug s \<langle>\<langle>\<rangle>, (x, d, f), q\<rangle>" "rb_leftmost h (root_ptr l) = Some (Some x)"
        "rb_at h \<langle>\<langle>\<rangle>, (x, d, f), q\<rangle> (s @ In_left a c e r # k)" by blast
    have "rb_leftmost h (root_ptr \<langle>l, n, r\<rangle>) = rb_leftmost h (root_ptr l)"
      using nd False n by (subst rb_leftmost.simps) simp
    moreover have "left_spine (s @ [In_left a c e r])" "plug (s @ [In_left a c e r]) t = \<langle>plug s t, (a, c, e), r\<rangle>" for t
      using s(1) by (induction s arbitrary: t rule: left_spine.induct) simp_all
    ultimately show ?thesis using s n
      by (intro exI [of _ "s @ [In_left a c e r]"] exI [of _ x] exI [of _ d] exI [of _ f] exI [of _ q]) simp
  qed
qed simp

lemma plug_append: "plug (s @ k) t = plug k (plug s t)"
  by (induction s t rule: plug.induct) simp_all

lemma rb_at_append: "rb_at h t (s @ k) \<longleftrightarrow> rb_at h (plug s t) k"
  by (simp add: rb_at_plug [of h t] rb_at_plug [of h "plug s t"] plug_append)

lemma path_addrs_append [simp]: "path_addrs (s @ k) = path_addrs s \<union> path_addrs k"
  by (induction s rule: path_addrs.induct) auto

lemma path_apart_append [simp]:
  "path_apart (s @ k) \<longleftrightarrow> path_apart s \<and> path_apart k \<and> path_addrs s \<inter> path_addrs k = {}"
  by (induction s rule: path_apart.induct) auto

lemma path_ptr_append: "path_ptr (s @ k) = (if s = [] then path_ptr k else path_ptr s)"
  by (cases s) simp_all

lemma unlink_successor_eq:
  assumes "rb_at h \<langle>l, (a, c, e), r\<rangle> k" "rb_leftmost h (root_ptr r) = Some (Some x)" "RB_RIGHT h (Some x) = Some child"
    and "rb_unlink_one_child h (Some x) child = Some (h1, parent, child, d)" "mem h1 x = mem h x"
    and "take_place h1 (Some a) (Some x) = Some h2"
  shows "rb_unlink_successor h (Some a) =
    Some (h2, if parent = Some a then Some x else parent, child, d)"
proof -
  obtain h0 where "RB_PARENT h (Some x) = Some parent" "RB_COLOR h (Some x) = Some d"
    "(if child \<noteq> None then set_parent h child parent else Some h) = Some h0" "replace_child h0 parent (Some x) child = Some h1"
    using assms(4) by (auto simp: rb_unlink_one_child_def fault_simps)
  moreover from this(1) have "RB_PARENT h1 (Some x) = Some parent" using assms(5) by (simp add: RB_PARENT_def)
  ultimately show ?thesis
    using rb_at_node(2) [OF assms(1)] assms(2,3,6)
    by (auto simp: rb_unlink_successor_def take_place_def fault_simps simp del: root_ptr_None)
qed

lemma unlink_successor_at:
  assumes "rb_at h \<langle>l, (a, c, e), r\<rangle> k" "l \<noteq> \<langle>\<rangle>" "r \<noteq> \<langle>\<rangle>"
  shows "\<exists>h' s x d f q. r = plug s \<langle>\<langle>\<rangle>, (x, d, f), q\<rangle> \<and> left_spine s \<and>
    rb_unlink_successor h (Some a) = Some (h', path_ptr (s @ In_right l x c f # k), root_ptr q, d) \<and>
    rb_leaves (addrs \<langle>l, (a, c, e), r\<rangle> \<union> path_addrs k) h h' q (s @ In_right l x c f # k)"
proof -
  have "rb_at h r (In_right l a c e # k)" using assms(1) by (simp add: rb_move)
  from leftmost_at [OF this assms(3)] obtain s x d f q
    where s: "left_spine s" "r = plug s \<langle>\<langle>\<rangle>, (x, d, f), q\<rangle>" "rb_leftmost h (root_ptr r) = Some (Some x)"
      "rb_at h \<langle>\<langle>\<rangle>, (x, d, f), q\<rangle> (s @ In_right l a c e # k)" by blast
  from unlink_one_child_at [OF s(4), of q] obtain h1
    where h1: "rb_unlink_one_child h (Some x) (root_ptr q) = Some (h1, path_ptr (s @ In_right l a c e # k), root_ptr q, d)"
      "rb_at h1 q (s @ In_right l a c e # k)"
      "\<forall>b. b \<notin> addrs q \<union> path_addrs (s @ In_right l a c e # k) \<longrightarrow> mem h1 b = mem h b" by (auto simp: rb_leaves_def)
  have x: "x \<notin> addrs q \<union> path_addrs (s @ In_right l a c e # k)" "a \<notin> path_addrs s"
    using s(4) h1(2) by (auto simp: rb_at_def rb_at_append)
  with h1(3) s(4) have "\<exists>n. mem h1 x = Some n \<and> elm n = f \<and> mem h1 x = mem h x" by (auto simp: rb_at_def)
  then obtain n where n: "mem h1 x = Some n" "elm n = f" "mem h1 x = mem h x" by blast
  have "rb_at h1 \<langle>l, (a, c, e), plug s q\<rangle> k" using h1(2) by (simp add: rb_at_append rb_move)
  from take_place_at [OF this assms(2) n(1)] x obtain h2
    where h2: "take_place h1 (Some a) (Some x) = Some h2" "rb_at h2 \<langle>l, (x, c, f), plug s q\<rangle> k"
      "\<forall>b. b \<notin> insert x (addrs l \<union> addrs (plug s q) \<union> path_addrs k) \<longrightarrow> mem h2 b = mem h1 b"
    by (auto simp: rb_leaves_def n(2))
  have "(if path_ptr (s @ In_right l a c e # k) = Some a then Some x else path_ptr (s @ In_right l a c e # k)) =
      path_ptr (s @ In_right l x c f # k)"
    using x(2) path_ptr_addrs [of s a] by (auto simp: path_ptr_append)
  moreover have "RB_RIGHT h (Some x) = Some (root_ptr q)" using rb_at_node(2) [OF s(4)] .
  ultimately have "rb_unlink_successor h (Some a) = Some (h2, path_ptr (s @ In_right l x c f # k), root_ptr q, d)"
    using unlink_successor_eq [OF assms(1) s(3) _ h1(1) n(3) h2(1)] by simp
  moreover have "rb_at h2 q (s @ In_right l x c f # k)" using h2(2) by (simp add: rb_at_append rb_move)
  moreover have "\<forall>b. b \<notin> addrs \<langle>l, (a, c, e), r\<rangle> \<union> path_addrs k \<longrightarrow> mem h2 b = mem h b"
    using h1(3) h2(3) by (simp add: s(2))
  ultimately show ?thesis using s(1,2) unfolding rb_leaves_def by blast
qed

section \<open>One round of the repair\<close>

text \<open>The round, once the sibling \<open>tmp\<close> is black.\<close>

definition remove_final_left :: "'a rb_table \<Rightarrow> ptr option \<Rightarrow> ptr option \<Rightarrow> ('a rb_table \<times> ptr option \<times> ptr option \<times> bool) option" where
  "remove_final_left h parent tmp = do {
      pc \<leftarrow> RB_COLOR h parent;
      h \<leftarrow> set_color h tmp pc;
      h \<leftarrow> set_color h parent RB_BLACK;
      tr \<leftarrow> RB_RIGHT h tmp;
      h \<leftarrow> (if tr \<noteq> None then set_color h tr RB_BLACK else Some h);
      h \<leftarrow> RB_ROTATE_LEFT h parent;
      Some (h, parent, rbh_root h, False) }"

definition remove_tail_left :: "'a rb_table \<Rightarrow> ptr option \<Rightarrow> ptr option \<Rightarrow> ('a rb_table \<times> ptr option \<times> ptr option \<times> bool) option" where
  "remove_tail_left h parent tmp = do {
    tl \<leftarrow> RB_LEFT h tmp;
    lb \<leftarrow> null_or_black h tl;
    tr \<leftarrow> RB_RIGHT h tmp;
    rb \<leftarrow> null_or_black h tr;
    if lb \<and> rb then do {
      h \<leftarrow> set_color h tmp RB_RED;
      pp \<leftarrow> RB_PARENT h parent;
      Some (h, pp, parent, True) }
    else do {
      (h, tmp) \<leftarrow> (if rb then do {
          h \<leftarrow> (if tl \<noteq> None then set_color h tl RB_BLACK else Some h);
          h \<leftarrow> set_color h tmp RB_RED;
          h \<leftarrow> RB_ROTATE_RIGHT h tmp;
          tmp \<leftarrow> RB_RIGHT h parent;
          Some (h, tmp) }
        else Some (h, tmp));
      remove_final_left h parent tmp } }"

lemma null_or_black_at: "rb_at h t k \<Longrightarrow> null_or_black h (root_ptr t) = Some (root_color t = RB_BLACK)"
  by (cases t rule: root_color.cases) (auto simp: null_or_black_def rb_at_node)

lemma final_left_at:
  assumes "rb_at h \<langle>t, (p, c, pe), \<langle>sl, (s, d, se), \<langle>bl, (b, bc, be), br\<rangle>\<rangle>\<rangle> k"
  shows "\<exists>h'. remove_final_left h (Some p) (Some s) = Some (h', Some p, rbh_root h', False) \<and>
    rb_goes h \<langle>t, (p, c, pe), \<langle>sl, (s, d, se), \<langle>bl, (b, bc, be), br\<rangle>\<rangle>\<rangle> k
      h' \<langle>\<langle>t, (p, RB_BLACK, pe), sl\<rangle>, (s, c, se), \<langle>bl, (b, RB_BLACK, be), br\<rangle>\<rangle> k"
proof -
  have "rb_at h \<langle>sl, (s, d, se), \<langle>bl, (b, bc, be), br\<rangle>\<rangle> (In_right t p c pe # k)" using assms by (simp add: rb_move)
  from set_color_at [OF this, of c] obtain h1 where h1: "set_color h (Some s) c = Some h1"
    "rb_goes h \<langle>t, (p, c, pe), \<langle>sl, (s, d, se), \<langle>bl, (b, bc, be), br\<rangle>\<rangle>\<rangle> k
       h1 \<langle>t, (p, c, pe), \<langle>sl, (s, c, se), \<langle>bl, (b, bc, be), br\<rangle>\<rangle>\<rangle> k" unfolding rb_move by blast
  from set_color_at [OF rb_goes_at [OF h1(2)], of RB_BLACK] obtain h2 where h2: "set_color h1 (Some p) RB_BLACK = Some h2"
    "rb_goes h1 \<langle>t, (p, c, pe), \<langle>sl, (s, c, se), \<langle>bl, (b, bc, be), br\<rangle>\<rangle>\<rangle> k
       h2 \<langle>t, (p, RB_BLACK, pe), \<langle>sl, (s, c, se), \<langle>bl, (b, bc, be), br\<rangle>\<rangle>\<rangle> k" by blast
  from rb_goes_at [OF h2(2)] have s2: "rb_at h2 \<langle>sl, (s, c, se), \<langle>bl, (b, bc, be), br\<rangle>\<rangle> (In_right t p RB_BLACK pe # k)"
    "rb_at h2 \<langle>bl, (b, bc, be), br\<rangle> (In_right sl s c se # In_right t p RB_BLACK pe # k)" by (simp_all add: rb_move)
  from set_color_at [OF s2(2), of RB_BLACK] obtain h3 where h3: "set_color h2 (Some b) RB_BLACK = Some h3"
    "rb_goes h2 \<langle>t, (p, RB_BLACK, pe), \<langle>sl, (s, c, se), \<langle>bl, (b, bc, be), br\<rangle>\<rangle>\<rangle> k
       h3 \<langle>t, (p, RB_BLACK, pe), \<langle>sl, (s, c, se), \<langle>bl, (b, RB_BLACK, be), br\<rangle>\<rangle>\<rangle> k" unfolding rb_move by blast
  from rotate_left_at [OF rb_goes_at [OF h3(2)]] obtain h4 where h4: "RB_ROTATE_LEFT h3 (Some p) = Some h4"
    "rb_goes h3 \<langle>t, (p, RB_BLACK, pe), \<langle>sl, (s, c, se), \<langle>bl, (b, RB_BLACK, be), br\<rangle>\<rangle>\<rangle> k
       h4 \<langle>\<langle>t, (p, RB_BLACK, pe), sl\<rangle>, (s, c, se), \<langle>bl, (b, RB_BLACK, be), br\<rangle>\<rangle> k" by blast
  have "remove_final_left h (Some p) (Some s) = Some (h4, Some p, rbh_root h4, False)"
    using rb_at_node(4) [OF assms] rb_at_node(2) [OF s2(1)] h1(1) h2(1) h3(1) h4(1) by (simp add: remove_final_left_def)
  then show ?thesis using rb_goes_trans [OF h1(2) rb_goes_trans [OF h2(2) rb_goes_trans [OF h3(2) h4(2)]]] by blast
qed

lemma tail_left_both:
  assumes "rb_at h \<langle>t, (p, c, pe), \<langle>sl, (s, d, se), sr\<rangle>\<rangle> k" "root_color sl = RB_BLACK" "root_color sr = RB_BLACK"
  shows "\<exists>h'. remove_tail_left h (Some p) (Some s) = Some (h', path_ptr k, Some p, True) \<and>
    rb_goes h \<langle>t, (p, c, pe), \<langle>sl, (s, d, se), sr\<rangle>\<rangle> k h' \<langle>t, (p, c, pe), \<langle>sl, (s, RB_RED, se), sr\<rangle>\<rangle> k"
proof -
  have at: "rb_at h \<langle>sl, (s, d, se), sr\<rangle> (In_right t p c pe # k)" "rb_at h sl (In_left s d se sr # In_right t p c pe # k)"
    "rb_at h sr (In_right sl s d se # In_right t p c pe # k)" using assms(1) by (simp_all add: rb_move)
  from set_color_at [OF at(1), of RB_RED] obtain h' where h': "set_color h (Some s) RB_RED = Some h'"
    "rb_goes h \<langle>t, (p, c, pe), \<langle>sl, (s, d, se), sr\<rangle>\<rangle> k h' \<langle>t, (p, c, pe), \<langle>sl, (s, RB_RED, se), sr\<rangle>\<rangle> k" unfolding rb_move by blast
  then show ?thesis
    using rb_at_node(1,2) [OF at(1)] null_or_black_at [OF at(2)] null_or_black_at [OF at(3)] assms(2,3)
      rb_at_node(3) [OF rb_goes_at [OF h'(2)]] by (simp add: remove_tail_left_def)
qed

lemma tail_left_far:
  assumes "rb_at h \<langle>t, (p, c, pe), \<langle>sl, (s, d, se), \<langle>bl, (b, RB_RED, be), br\<rangle>\<rangle>\<rangle> k"
  shows "\<exists>h'. remove_tail_left h (Some p) (Some s) = Some (h', Some p, rbh_root h', False) \<and>
    rb_goes h \<langle>t, (p, c, pe), \<langle>sl, (s, d, se), \<langle>bl, (b, RB_RED, be), br\<rangle>\<rangle>\<rangle> k
      h' \<langle>\<langle>t, (p, RB_BLACK, pe), sl\<rangle>, (s, c, se), \<langle>bl, (b, RB_BLACK, be), br\<rangle>\<rangle> k"
proof -
  have at: "rb_at h \<langle>sl, (s, d, se), \<langle>bl, (b, RB_RED, be), br\<rangle>\<rangle> (In_right t p c pe # k)"
    "rb_at h sl (In_left s d se \<langle>bl, (b, RB_RED, be), br\<rangle> # In_right t p c pe # k)"
    "rb_at h \<langle>bl, (b, RB_RED, be), br\<rangle> (In_right sl s d se # In_right t p c pe # k)" using assms by (simp_all add: rb_move)
  then show ?thesis
    using rb_at_node(1,2) [OF at(1)] null_or_black_at [OF at(2)] null_or_black_at [OF at(3)] final_left_at [OF assms]
    by (simp add: remove_tail_left_def)
qed

lemma tail_left_near:
  assumes "rb_at h \<langle>t, (p, c, pe), \<langle>\<langle>bl, (b, RB_RED, be), br\<rangle>, (s, d, se), sr\<rangle>\<rangle> k" "root_color sr = RB_BLACK"
  shows "\<exists>h'. remove_tail_left h (Some p) (Some s) = Some (h', Some p, rbh_root h', False) \<and>
    rb_goes h \<langle>t, (p, c, pe), \<langle>\<langle>bl, (b, RB_RED, be), br\<rangle>, (s, d, se), sr\<rangle>\<rangle> k
      h' \<langle>\<langle>t, (p, RB_BLACK, pe), bl\<rangle>, (b, c, be), \<langle>br, (s, RB_BLACK, se), sr\<rangle>\<rangle> k"
proof -
  have at: "rb_at h \<langle>\<langle>bl, (b, RB_RED, be), br\<rangle>, (s, d, se), sr\<rangle> (In_right t p c pe # k)"
    "rb_at h \<langle>bl, (b, RB_RED, be), br\<rangle> (In_left s d se sr # In_right t p c pe # k)"
    "rb_at h sr (In_right \<langle>bl, (b, RB_RED, be), br\<rangle> s d se # In_right t p c pe # k)" using assms(1) by (simp_all add: rb_move)
  from set_color_at [OF at(2), of RB_BLACK] obtain h1 where h1: "set_color h (Some b) RB_BLACK = Some h1"
    "rb_goes h \<langle>t, (p, c, pe), \<langle>\<langle>bl, (b, RB_RED, be), br\<rangle>, (s, d, se), sr\<rangle>\<rangle> k
      h1 \<langle>t, (p, c, pe), \<langle>\<langle>bl, (b, RB_BLACK, be), br\<rangle>, (s, d, se), sr\<rangle>\<rangle> k" unfolding rb_move by blast
  from rb_goes_at [OF h1(2)] have "rb_at h1 \<langle>\<langle>bl, (b, RB_BLACK, be), br\<rangle>, (s, d, se), sr\<rangle> (In_right t p c pe # k)"
    by (simp add: rb_move)
  from set_color_at [OF this, of RB_RED] obtain h2 where h2: "set_color h1 (Some s) RB_RED = Some h2"
    "rb_goes h1 \<langle>\<langle>bl, (b, RB_BLACK, be), br\<rangle>, (s, d, se), sr\<rangle> (In_right t p c pe # k)
      h2 \<langle>\<langle>bl, (b, RB_BLACK, be), br\<rangle>, (s, RB_RED, se), sr\<rangle> (In_right t p c pe # k)" by blast
  from rotate_right_at [OF rb_goes_at [OF h2(2)]] obtain h3 where h3: "RB_ROTATE_RIGHT h2 (Some s) = Some h3"
    "rb_goes h2 \<langle>\<langle>bl, (b, RB_BLACK, be), br\<rangle>, (s, RB_RED, se), sr\<rangle> (In_right t p c pe # k)
      h3 \<langle>bl, (b, RB_BLACK, be), \<langle>br, (s, RB_RED, se), sr\<rangle>\<rangle> (In_right t p c pe # k)" by blast
  note g = h2(2) [unfolded rb_move] h3(2) [unfolded rb_move]
  note at3 = rb_goes_at [OF g(2)]
  from final_left_at [OF at3] obtain h4
    where h4: "remove_final_left h3 (Some p) (Some b) = Some (h4, Some p, rbh_root h4, False)"
      "rb_goes h3 \<langle>t, (p, c, pe), \<langle>bl, (b, RB_BLACK, be), \<langle>br, (s, RB_RED, se), sr\<rangle>\<rangle>\<rangle> k
        h4 \<langle>\<langle>t, (p, RB_BLACK, pe), bl\<rangle>, (b, c, be), \<langle>br, (s, RB_BLACK, se), sr\<rangle>\<rangle> k" by blast
  have "remove_tail_left h (Some p) (Some s) = Some (h4, Some p, rbh_root h4, False)"
    using rb_at_node(1,2) [OF at(1)] null_or_black_at [OF at(2)] null_or_black_at [OF at(3)] assms(2)
      h1(1) h2(1) h3(1) h4(1) rb_at_node(2) [OF at3] by (simp add: remove_tail_left_def)
  then show ?thesis using rb_goes_trans [OF h1(2) rb_goes_trans [OF g(1) rb_goes_trans [OF g(2) h4(2)]]] by blast
qed

text \<open>
  What a round leaves of a subtree whose root has the color \<open>c\<close>, one of whose children has the black height \<open>n\<close>
  and lacks one.  If the loop goes on, the whole subtree lacks one, and its root may be red below a
  red child; otherwise it is in order.
\<close>

fun blacken :: "'a rbt \<Rightarrow> 'a rbt" where
  "blacken \<langle>\<rangle> = \<langle>\<rangle>"
| "blacken \<langle>l, (a, c, e), r\<rangle> = \<langle>l, (a, RB_BLACK, e), r\<rangle>"

definition refilled :: "('a rb_table \<times> ptr option \<times> ptr option \<times> bool) \<Rightarrow> 'a rbt \<Rightarrow> 'a frame list \<Rightarrow> nat \<Rightarrow> rb_color \<Rightarrow> bool" where
  "refilled res t k n c \<longleftrightarrow> (case res of (h, parent, x, goes_on) \<Rightarrow> balanced t \<and> root_color t = c \<and>
     (if goes_on then parent = path_ptr k \<and> x = root_ptr t \<and> t \<noteq> \<langle>\<rangle> \<and> no_red_red (blacken t) \<and>
        black_height t = n + (if c = RB_BLACK then 1 else 0)
      else x = rbh_root h \<and> no_red_red t \<and> black_height t = Suc n + (if c = RB_BLACK then 1 else 0)))"

lemma tail_left:
  assumes "rb_at h \<langle>t, (p, c, pe), S\<rangle> k" "root_color t = RB_BLACK" "root_color S = RB_BLACK"
    and "no_red_red t" "no_red_red S" "balanced t" "balanced S" "black_height t = n" "black_height S = Suc n"
  shows "\<exists>h' par x goes_on t'. remove_tail_left h (Some p) (root_ptr S) = Some (h', par, x, goes_on) \<and>
    rb_goes h \<langle>t, (p, c, pe), S\<rangle> k h' t' k \<and> refilled (h', par, x, goes_on) t' k n c"
proof -
  obtain sl s se sr where S: "S = \<langle>sl, (s, RB_BLACK, se), sr\<rangle>"
    using assms(3,9) by (cases S rule: root_color.cases) auto
  consider "root_color sl = RB_BLACK" "root_color sr = RB_BLACK" | "root_color sr = RB_RED"
    | "root_color sl = RB_RED" "root_color sr = RB_BLACK" by (meson not_red(1))
  then show ?thesis
  proof cases
    case 1
    from tail_left_both [OF assms(1) [unfolded S] 1] show ?thesis
      using assms(2-9) 1 by (fastforce simp: S refilled_def)
  next
    case 2
    then obtain bl b be br where sr: "sr = \<langle>bl, (b, RB_RED, be), br\<rangle>" by (cases sr rule: root_color.cases) auto
    from tail_left_far [OF assms(1) [unfolded S sr]] obtain h' where
      "remove_tail_left h (Some p) (root_ptr S) = Some (h', Some p, rbh_root h', False)"
      "rb_goes h \<langle>t, (p, c, pe), S\<rangle> k h' \<langle>\<langle>t, (p, RB_BLACK, pe), sl\<rangle>, (s, c, se), \<langle>bl, (b, RB_BLACK, be), br\<rangle>\<rangle> k"
      unfolding S sr by auto
    moreover have "refilled (h', Some p, rbh_root h', False)
        \<langle>\<langle>t, (p, RB_BLACK, pe), sl\<rangle>, (s, c, se), \<langle>bl, (b, RB_BLACK, be), br\<rangle>\<rangle> k n c"
      using assms(2-9) by (simp add: S sr refilled_def)
    ultimately show ?thesis by blast
  next
    case 3
    then obtain bl b be br where sl: "sl = \<langle>bl, (b, RB_RED, be), br\<rangle>" by (cases sl rule: root_color.cases) auto
    from tail_left_near [OF assms(1) [unfolded S sl] 3(2)] obtain h' where
      "remove_tail_left h (Some p) (root_ptr S) = Some (h', Some p, rbh_root h', False)"
      "rb_goes h \<langle>t, (p, c, pe), S\<rangle> k h' \<langle>\<langle>t, (p, RB_BLACK, pe), bl\<rangle>, (b, c, be), \<langle>br, (s, RB_BLACK, se), sr\<rangle>\<rangle> k"
      unfolding S sl by auto
    moreover have "refilled (h', Some p, rbh_root h', False)
        \<langle>\<langle>t, (p, RB_BLACK, pe), bl\<rangle>, (b, c, be), \<langle>br, (s, RB_BLACK, se), sr\<rangle>\<rangle> k n c"
      using assms(2-9) 3 by (simp add: S sl refilled_def)
    ultimately show ?thesis by blast
  qed
qed

text \<open>A red sibling is rotated away first.\<close>

lemma remove_fix_left_eq:
  "rb_remove_fix_left h parent = do {
    tmp \<leftarrow> RB_RIGHT h parent;
    tc \<leftarrow> RB_COLOR h tmp;
    (h, tmp) \<leftarrow> (if tc = RB_RED then do {
        h \<leftarrow> RB_SET_BLACKRED h tmp parent;
        h \<leftarrow> RB_ROTATE_LEFT h parent;
        tmp \<leftarrow> RB_RIGHT h parent;
        Some (h, tmp) }
      else Some (h, tmp));
    remove_tail_left h parent tmp }"
  unfolding rb_remove_fix_left_def remove_tail_left_def remove_final_left_def by (rule refl)

lemma fix_left_black_sibling:
  assumes "rb_at h \<langle>t, (p, c, pe), S\<rangle> k" "root_color S = RB_BLACK" "S \<noteq> \<langle>\<rangle>"
  shows "rb_remove_fix_left h (Some p) = remove_tail_left h (Some p) (root_ptr S)"
proof -
  obtain sl s se sr where S: "S = \<langle>sl, (s, RB_BLACK, se), sr\<rangle>" using assms(2,3) by (cases S rule: root_color.cases) auto
  have "rb_at h \<langle>sl, (s, RB_BLACK, se), sr\<rangle> (In_right t p c pe # k)" using assms(1) by (simp add: S rb_move)
  from rb_at_node(4) [OF this] show ?thesis
    using rb_at_node(2) [OF assms(1)] by (simp add: remove_fix_left_eq S)
qed

lemma fix_left_red_sibling:
  assumes "rb_at h \<langle>t, (p, c, pe), \<langle>sl, (s, RB_RED, se), sr\<rangle>\<rangle> k"
  shows "\<exists>h'. rb_remove_fix_left h (Some p) = remove_tail_left h' (Some p) (root_ptr sl) \<and>
    rb_goes h \<langle>t, (p, c, pe), \<langle>sl, (s, RB_RED, se), sr\<rangle>\<rangle> k h' \<langle>\<langle>t, (p, RB_RED, pe), sl\<rangle>, (s, RB_BLACK, se), sr\<rangle> k"
proof -
  have at: "rb_at h \<langle>sl, (s, RB_RED, se), sr\<rangle> (In_right t p c pe # k)" using assms(1) by (simp add: rb_move)
  from set_blackred_right [OF assms] obtain h1 where h1: "RB_SET_BLACKRED h (Some s) (Some p) = Some h1"
    "rb_goes h \<langle>t, (p, c, pe), \<langle>sl, (s, RB_RED, se), sr\<rangle>\<rangle> k h1 \<langle>t, (p, RB_RED, pe), \<langle>sl, (s, RB_BLACK, se), sr\<rangle>\<rangle> k" by blast
  from rotate_left_at [OF rb_goes_at [OF h1(2)]] obtain h2 where h2: "RB_ROTATE_LEFT h1 (Some p) = Some h2"
    "rb_goes h1 \<langle>t, (p, RB_RED, pe), \<langle>sl, (s, RB_BLACK, se), sr\<rangle>\<rangle> k
      h2 \<langle>\<langle>t, (p, RB_RED, pe), sl\<rangle>, (s, RB_BLACK, se), sr\<rangle> k" by blast
  from rb_goes_at [OF h2(2)] have "rb_at h2 \<langle>t, (p, RB_RED, pe), sl\<rangle> (In_left s RB_BLACK se sr # k)" by (simp add: rb_move)
  from rb_at_node(2) [OF this] have "rb_remove_fix_left h (Some p) = remove_tail_left h2 (Some p) (root_ptr sl)"
    using rb_at_node(2) [OF assms] rb_at_node(4) [OF at] h1(1) h2(1) by (simp add: remove_fix_left_eq)
  then show ?thesis using rb_goes_trans [OF h1(2) h2(2)] by blast
qed

text \<open>The round as a whole, and the path above the subtree that it leaves.\<close>

definition round_ok :: "'a rb_table \<Rightarrow> 'a rbt \<Rightarrow> 'a frame list \<Rightarrow> nat \<Rightarrow> ('a rb_table \<times> ptr option \<times> ptr option \<times> bool) \<Rightarrow> bool" where
  "round_ok h t k n res \<longleftrightarrow> (\<exists>t' k' c. rb_goes h t k (fst res) t' k' \<and> refilled res t' k' n c \<and>
     path_balanced (Suc n + (if c = RB_BLACK then 1 else 0)) k' \<and> path_no_red_red k' \<and>
     (if c = RB_RED then k' \<noteq> [] \<and> frame_color (hd k') = RB_BLACK else k' = tl k))"

lemma round_left:
  assumes "rb_at h t (In_left p c pe S # k)" "root_color t = RB_BLACK" "no_red_red t" "balanced t"
    and "path_balanced (Suc (black_height t)) (In_left p c pe S # k)" "path_no_red_red (In_left p c pe S # k)"
  shows "\<exists>res. rb_remove_fix_left h (Some p) = Some res \<and> round_ok h t (In_left p c pe S # k) (black_height t) res"
proof -
  let ?n = "black_height t"
  have at: "rb_at h \<langle>t, (p, c, pe), S\<rangle> k" using assms(1) by (simp add: rb_move)
  have S: "balanced S" "black_height S = Suc ?n" "no_red_red S" "S \<noteq> \<langle>\<rangle>" using assms(5,6) by auto
  have goes: "rb_goes h t (In_left p c pe S # k) h' t' k' = rb_goes h \<langle>t, (p, c, pe), S\<rangle> k h' t' k'" for h' t' k'
    by (simp add: rb_goes_plug [of h t] rb_goes_plug [of h "\<langle>_, _, _\<rangle>"])
  show ?thesis
  proof (cases "root_color S")
    case RB_BLACK
    from tail_left [OF at assms(2) RB_BLACK assms(3) S(3) assms(4) S(1) refl S(2)] obtain h' par x go t'
      where r: "remove_tail_left h (Some p) (root_ptr S) = Some (h', par, x, go)"
        "rb_goes h \<langle>t, (p, c, pe), S\<rangle> k h' t' k" "refilled (h', par, x, go) t' k ?n c" by blast
    then have "round_ok h t (In_left p c pe S # k) ?n (h', par, x, go)"
      using assms(5,6) unfolding round_ok_def goes by (intro exI [of _ t'] exI [of _ k] exI [of _ c]) auto
    then show ?thesis using r(1) fix_left_black_sibling [OF at RB_BLACK S(4)] by simp
  next
    case RB_RED
    then obtain sl s se sr where s: "S = \<langle>sl, (s, RB_RED, se), sr\<rangle>" by (cases S rule: root_color.cases) auto
    have c: "c = RB_BLACK" using RB_RED assms(6) by (cases c) auto
    from fix_left_red_sibling [OF at [unfolded s]] obtain h1
      where h1: "rb_remove_fix_left h (Some p) = remove_tail_left h1 (Some p) (root_ptr sl)"
        "rb_goes h \<langle>t, (p, c, pe), S\<rangle> k h1 \<langle>\<langle>t, (p, RB_RED, pe), sl\<rangle>, (s, RB_BLACK, se), sr\<rangle> k" unfolding s by blast
    let ?k = "In_left s RB_BLACK se sr # k"
    have at1: "rb_at h1 \<langle>t, (p, RB_RED, pe), sl\<rangle> ?k" using rb_goes_at [OF h1(2)] by (simp add: rb_move)
    have sl: "root_color sl = RB_BLACK" "no_red_red sl" "balanced sl" "black_height sl = Suc ?n" using S by (simp_all add: s)
    from tail_left [OF at1 assms(2) sl(1) assms(3) sl(2) assms(4) sl(3) refl sl(4)] obtain h' par x go t'
      where r: "remove_tail_left h1 (Some p) (root_ptr sl) = Some (h', par, x, go)"
        "rb_goes h1 \<langle>t, (p, RB_RED, pe), sl\<rangle> ?k h' t' ?k" "refilled (h', par, x, go) t' ?k ?n RB_RED" by blast
    have "rb_goes h t (In_left p c pe S # k) h' t' ?k"
      unfolding goes using rb_goes_trans [OF h1(2)] r(2) rb_goes_plug [of h1 "\<langle>t, (p, RB_RED, pe), sl\<rangle>" ?k h' t' ?k]
        rb_goes_plug [of h1 "\<langle>\<langle>t, (p, RB_RED, pe), sl\<rangle>, (s, RB_BLACK, se), sr\<rangle>" k h' t' ?k] by simp
    then have "round_ok h t (In_left p c pe S # k) ?n (h', par, x, go)"
      using r(3) assms(5,6) S unfolding round_ok_def s c
      by (intro exI [of _ t'] exI [of _ ?k] exI [of _ RB_RED]) auto
    then show ?thesis using r(1) h1(1) by simp
  qed
qed

text \<open>The other half, mirrored.\<close>

definition remove_final_right :: "'a rb_table \<Rightarrow> ptr option \<Rightarrow> ptr option \<Rightarrow> ('a rb_table \<times> ptr option \<times> ptr option \<times> bool) option" where
  "remove_final_right h parent tmp = do {
      pc \<leftarrow> RB_COLOR h parent;
      h \<leftarrow> set_color h tmp pc;
      h \<leftarrow> set_color h parent RB_BLACK;
      tl \<leftarrow> RB_LEFT h tmp;
      h \<leftarrow> (if tl \<noteq> None then set_color h tl RB_BLACK else Some h);
      h \<leftarrow> RB_ROTATE_RIGHT h parent;
      Some (h, parent, rbh_root h, False) }"

definition remove_tail_right :: "'a rb_table \<Rightarrow> ptr option \<Rightarrow> ptr option \<Rightarrow> ('a rb_table \<times> ptr option \<times> ptr option \<times> bool) option" where
  "remove_tail_right h parent tmp = do {
    tl \<leftarrow> RB_LEFT h tmp;
    lb \<leftarrow> null_or_black h tl;
    tr \<leftarrow> RB_RIGHT h tmp;
    rb \<leftarrow> null_or_black h tr;
    if lb \<and> rb then do {
      h \<leftarrow> set_color h tmp RB_RED;
      pp \<leftarrow> RB_PARENT h parent;
      Some (h, pp, parent, True) }
    else do {
      (h, tmp) \<leftarrow> (if lb then do {
          h \<leftarrow> (if tr \<noteq> None then set_color h tr RB_BLACK else Some h);
          h \<leftarrow> set_color h tmp RB_RED;
          h \<leftarrow> RB_ROTATE_LEFT h tmp;
          tmp \<leftarrow> RB_LEFT h parent;
          Some (h, tmp) }
        else Some (h, tmp));
      remove_final_right h parent tmp } }"

lemma remove_fix_right_eq:
  "rb_remove_fix_right h parent = do {
    tmp \<leftarrow> RB_LEFT h parent;
    tc \<leftarrow> RB_COLOR h tmp;
    (h, tmp) \<leftarrow> (if tc = RB_RED then do {
        h \<leftarrow> RB_SET_BLACKRED h tmp parent;
        h \<leftarrow> RB_ROTATE_RIGHT h parent;
        tmp \<leftarrow> RB_LEFT h parent;
        Some (h, tmp) }
      else Some (h, tmp));
    remove_tail_right h parent tmp }"
  unfolding rb_remove_fix_right_def remove_tail_right_def remove_final_right_def by (rule refl)

lemma final_right_at:
  assumes "rb_at h \<langle>\<langle>\<langle>br, (b, bc, be), bl\<rangle>, (s, d, se), sl\<rangle>, (p, c, pe), t\<rangle> k"
  shows "\<exists>h'. remove_final_right h (Some p) (Some s) = Some (h', Some p, rbh_root h', False) \<and>
    rb_goes h \<langle>\<langle>\<langle>br, (b, bc, be), bl\<rangle>, (s, d, se), sl\<rangle>, (p, c, pe), t\<rangle> k
      h' \<langle>\<langle>br, (b, RB_BLACK, be), bl\<rangle>, (s, c, se), \<langle>sl, (p, RB_BLACK, pe), t\<rangle>\<rangle> k"
proof -
  have "rb_at h \<langle>\<langle>br, (b, bc, be), bl\<rangle>, (s, d, se), sl\<rangle> (In_left p c pe t # k)" using assms by (simp add: rb_move)
  from set_color_at [OF this, of c] obtain h1 where h1: "set_color h (Some s) c = Some h1"
    "rb_goes h \<langle>\<langle>\<langle>br, (b, bc, be), bl\<rangle>, (s, d, se), sl\<rangle>, (p, c, pe), t\<rangle> k
       h1 \<langle>\<langle>\<langle>br, (b, bc, be), bl\<rangle>, (s, c, se), sl\<rangle>, (p, c, pe), t\<rangle> k" unfolding rb_move by blast
  from set_color_at [OF rb_goes_at [OF h1(2)], of RB_BLACK] obtain h2 where h2: "set_color h1 (Some p) RB_BLACK = Some h2"
    "rb_goes h1 \<langle>\<langle>\<langle>br, (b, bc, be), bl\<rangle>, (s, c, se), sl\<rangle>, (p, c, pe), t\<rangle> k
       h2 \<langle>\<langle>\<langle>br, (b, bc, be), bl\<rangle>, (s, c, se), sl\<rangle>, (p, RB_BLACK, pe), t\<rangle> k" by blast
  from rb_goes_at [OF h2(2)] have s2: "rb_at h2 \<langle>\<langle>br, (b, bc, be), bl\<rangle>, (s, c, se), sl\<rangle> (In_left p RB_BLACK pe t # k)"
    "rb_at h2 \<langle>br, (b, bc, be), bl\<rangle> (In_left s c se sl # In_left p RB_BLACK pe t # k)" by (simp_all add: rb_move)
  from set_color_at [OF s2(2), of RB_BLACK] obtain h3 where h3: "set_color h2 (Some b) RB_BLACK = Some h3"
    "rb_goes h2 \<langle>\<langle>\<langle>br, (b, bc, be), bl\<rangle>, (s, c, se), sl\<rangle>, (p, RB_BLACK, pe), t\<rangle> k
       h3 \<langle>\<langle>\<langle>br, (b, RB_BLACK, be), bl\<rangle>, (s, c, se), sl\<rangle>, (p, RB_BLACK, pe), t\<rangle> k" unfolding rb_move by blast
  from rotate_right_at [OF rb_goes_at [OF h3(2)]] obtain h4 where h4: "RB_ROTATE_RIGHT h3 (Some p) = Some h4"
    "rb_goes h3 \<langle>\<langle>\<langle>br, (b, RB_BLACK, be), bl\<rangle>, (s, c, se), sl\<rangle>, (p, RB_BLACK, pe), t\<rangle> k
       h4 \<langle>\<langle>br, (b, RB_BLACK, be), bl\<rangle>, (s, c, se), \<langle>sl, (p, RB_BLACK, pe), t\<rangle>\<rangle> k" by blast
  have "remove_final_right h (Some p) (Some s) = Some (h4, Some p, rbh_root h4, False)"
    using rb_at_node(4) [OF assms] rb_at_node(1) [OF s2(1)] h1(1) h2(1) h3(1) h4(1) by (simp add: remove_final_right_def)
  then show ?thesis using rb_goes_trans [OF h1(2) rb_goes_trans [OF h2(2) rb_goes_trans [OF h3(2) h4(2)]]] by blast
qed

lemma tail_right_both:
  assumes "rb_at h \<langle>\<langle>sr, (s, d, se), sl\<rangle>, (p, c, pe), t\<rangle> k" "root_color sl = RB_BLACK" "root_color sr = RB_BLACK"
  shows "\<exists>h'. remove_tail_right h (Some p) (Some s) = Some (h', path_ptr k, Some p, True) \<and>
    rb_goes h \<langle>\<langle>sr, (s, d, se), sl\<rangle>, (p, c, pe), t\<rangle> k h' \<langle>\<langle>sr, (s, RB_RED, se), sl\<rangle>, (p, c, pe), t\<rangle> k"
proof -
  have at: "rb_at h \<langle>sr, (s, d, se), sl\<rangle> (In_left p c pe t # k)" "rb_at h sl (In_right sr s d se # In_left p c pe t # k)"
    "rb_at h sr (In_left s d se sl # In_left p c pe t # k)" using assms(1) by (simp_all add: rb_move)
  from set_color_at [OF at(1), of RB_RED] obtain h' where h': "set_color h (Some s) RB_RED = Some h'"
    "rb_goes h \<langle>\<langle>sr, (s, d, se), sl\<rangle>, (p, c, pe), t\<rangle> k h' \<langle>\<langle>sr, (s, RB_RED, se), sl\<rangle>, (p, c, pe), t\<rangle> k" unfolding rb_move by blast
  then show ?thesis
    using rb_at_node(1,2) [OF at(1)] null_or_black_at [OF at(2)] null_or_black_at [OF at(3)] assms(2,3)
      rb_at_node(3) [OF rb_goes_at [OF h'(2)]] by (simp add: remove_tail_right_def)
qed

lemma tail_right_far:
  assumes "rb_at h \<langle>\<langle>\<langle>br, (b, RB_RED, be), bl\<rangle>, (s, d, se), sl\<rangle>, (p, c, pe), t\<rangle> k"
  shows "\<exists>h'. remove_tail_right h (Some p) (Some s) = Some (h', Some p, rbh_root h', False) \<and>
    rb_goes h \<langle>\<langle>\<langle>br, (b, RB_RED, be), bl\<rangle>, (s, d, se), sl\<rangle>, (p, c, pe), t\<rangle> k
      h' \<langle>\<langle>br, (b, RB_BLACK, be), bl\<rangle>, (s, c, se), \<langle>sl, (p, RB_BLACK, pe), t\<rangle>\<rangle> k"
proof -
  have at: "rb_at h \<langle>\<langle>br, (b, RB_RED, be), bl\<rangle>, (s, d, se), sl\<rangle> (In_left p c pe t # k)"
    "rb_at h sl (In_right \<langle>br, (b, RB_RED, be), bl\<rangle> s d se # In_left p c pe t # k)"
    "rb_at h \<langle>br, (b, RB_RED, be), bl\<rangle> (In_left s d se sl # In_left p c pe t # k)" using assms by (simp_all add: rb_move)
  then show ?thesis
    using rb_at_node(1,2) [OF at(1)] null_or_black_at [OF at(2)] null_or_black_at [OF at(3)] final_right_at [OF assms]
    by (simp add: remove_tail_right_def)
qed

lemma tail_right_near:
  assumes "rb_at h \<langle>\<langle>sr, (s, d, se), \<langle>br, (b, RB_RED, be), bl\<rangle>\<rangle>, (p, c, pe), t\<rangle> k" "root_color sr = RB_BLACK"
  shows "\<exists>h'. remove_tail_right h (Some p) (Some s) = Some (h', Some p, rbh_root h', False) \<and>
    rb_goes h \<langle>\<langle>sr, (s, d, se), \<langle>br, (b, RB_RED, be), bl\<rangle>\<rangle>, (p, c, pe), t\<rangle> k
      h' \<langle>\<langle>sr, (s, RB_BLACK, se), br\<rangle>, (b, c, be), \<langle>bl, (p, RB_BLACK, pe), t\<rangle>\<rangle> k"
proof -
  have at: "rb_at h \<langle>sr, (s, d, se), \<langle>br, (b, RB_RED, be), bl\<rangle>\<rangle> (In_left p c pe t # k)"
    "rb_at h \<langle>br, (b, RB_RED, be), bl\<rangle> (In_right sr s d se # In_left p c pe t # k)"
    "rb_at h sr (In_left s d se \<langle>br, (b, RB_RED, be), bl\<rangle> # In_left p c pe t # k)" using assms(1) by (simp_all add: rb_move)
  from set_color_at [OF at(2), of RB_BLACK] obtain h1 where h1: "set_color h (Some b) RB_BLACK = Some h1"
    "rb_goes h \<langle>\<langle>sr, (s, d, se), \<langle>br, (b, RB_RED, be), bl\<rangle>\<rangle>, (p, c, pe), t\<rangle> k
      h1 \<langle>\<langle>sr, (s, d, se), \<langle>br, (b, RB_BLACK, be), bl\<rangle>\<rangle>, (p, c, pe), t\<rangle> k" unfolding rb_move by blast
  from rb_goes_at [OF h1(2)] have "rb_at h1 \<langle>sr, (s, d, se), \<langle>br, (b, RB_BLACK, be), bl\<rangle>\<rangle> (In_left p c pe t # k)"
    by (simp add: rb_move)
  from set_color_at [OF this, of RB_RED] obtain h2 where h2: "set_color h1 (Some s) RB_RED = Some h2"
    "rb_goes h1 \<langle>sr, (s, d, se), \<langle>br, (b, RB_BLACK, be), bl\<rangle>\<rangle> (In_left p c pe t # k)
      h2 \<langle>sr, (s, RB_RED, se), \<langle>br, (b, RB_BLACK, be), bl\<rangle>\<rangle> (In_left p c pe t # k)" by blast
  from rotate_left_at [OF rb_goes_at [OF h2(2)]] obtain h3 where h3: "RB_ROTATE_LEFT h2 (Some s) = Some h3"
    "rb_goes h2 \<langle>sr, (s, RB_RED, se), \<langle>br, (b, RB_BLACK, be), bl\<rangle>\<rangle> (In_left p c pe t # k)
      h3 \<langle>\<langle>sr, (s, RB_RED, se), br\<rangle>, (b, RB_BLACK, be), bl\<rangle> (In_left p c pe t # k)" by blast
  note g = h2(2) [unfolded rb_move] h3(2) [unfolded rb_move]
  note at3 = rb_goes_at [OF g(2)]
  from final_right_at [OF at3] obtain h4
    where h4: "remove_final_right h3 (Some p) (Some b) = Some (h4, Some p, rbh_root h4, False)"
      "rb_goes h3 \<langle>\<langle>\<langle>sr, (s, RB_RED, se), br\<rangle>, (b, RB_BLACK, be), bl\<rangle>, (p, c, pe), t\<rangle> k
        h4 \<langle>\<langle>sr, (s, RB_BLACK, se), br\<rangle>, (b, c, be), \<langle>bl, (p, RB_BLACK, pe), t\<rangle>\<rangle> k" by blast
  have "remove_tail_right h (Some p) (Some s) = Some (h4, Some p, rbh_root h4, False)"
    using rb_at_node(1,2) [OF at(1)] null_or_black_at [OF at(2)] null_or_black_at [OF at(3)] assms(2)
      h1(1) h2(1) h3(1) h4(1) rb_at_node(1) [OF at3] by (simp add: remove_tail_right_def)
  then show ?thesis using rb_goes_trans [OF h1(2) rb_goes_trans [OF g(1) rb_goes_trans [OF g(2) h4(2)]]] by blast
qed

lemma tail_right:
  assumes "rb_at h \<langle>S, (p, c, pe), t\<rangle> k" "root_color t = RB_BLACK" "root_color S = RB_BLACK"
    and "no_red_red t" "no_red_red S" "balanced t" "balanced S" "black_height t = n" "black_height S = Suc n"
  shows "\<exists>h' par x goes_on t'. remove_tail_right h (Some p) (root_ptr S) = Some (h', par, x, goes_on) \<and>
    rb_goes h \<langle>S, (p, c, pe), t\<rangle> k h' t' k \<and> refilled (h', par, x, goes_on) t' k n c"
proof -
  obtain sl s se sr where S: "S = \<langle>sr, (s, RB_BLACK, se), sl\<rangle>"
    using assms(3,9) by (cases S rule: root_color.cases) auto
  consider "root_color sl = RB_BLACK" "root_color sr = RB_BLACK" | "root_color sr = RB_RED"
    | "root_color sl = RB_RED" "root_color sr = RB_BLACK" by (meson not_red(1))
  then show ?thesis
  proof cases
    case 1
    from tail_right_both [OF assms(1) [unfolded S] 1] show ?thesis
      using assms(2-9) 1 by (fastforce simp: S refilled_def)
  next
    case 2
    then obtain bl b be br where sr: "sr = \<langle>br, (b, RB_RED, be), bl\<rangle>" by (cases sr rule: root_color.cases) auto
    from tail_right_far [OF assms(1) [unfolded S sr]] obtain h' where
      "remove_tail_right h (Some p) (root_ptr S) = Some (h', Some p, rbh_root h', False)"
      "rb_goes h \<langle>S, (p, c, pe), t\<rangle> k h' \<langle>\<langle>br, (b, RB_BLACK, be), bl\<rangle>, (s, c, se), \<langle>sl, (p, RB_BLACK, pe), t\<rangle>\<rangle> k"
      unfolding S sr by auto
    moreover have "refilled (h', Some p, rbh_root h', False)
        \<langle>\<langle>br, (b, RB_BLACK, be), bl\<rangle>, (s, c, se), \<langle>sl, (p, RB_BLACK, pe), t\<rangle>\<rangle> k n c"
      using assms(2-9) by (simp add: S sr refilled_def)
    ultimately show ?thesis by blast
  next
    case 3
    then obtain bl b be br where sl: "sl = \<langle>br, (b, RB_RED, be), bl\<rangle>" by (cases sl rule: root_color.cases) auto
    from tail_right_near [OF assms(1) [unfolded S sl] 3(2)] obtain h' where
      "remove_tail_right h (Some p) (root_ptr S) = Some (h', Some p, rbh_root h', False)"
      "rb_goes h \<langle>S, (p, c, pe), t\<rangle> k h' \<langle>\<langle>sr, (s, RB_BLACK, se), br\<rangle>, (b, c, be), \<langle>bl, (p, RB_BLACK, pe), t\<rangle>\<rangle> k"
      unfolding S sl by auto
    moreover have "refilled (h', Some p, rbh_root h', False)
        \<langle>\<langle>sr, (s, RB_BLACK, se), br\<rangle>, (b, c, be), \<langle>bl, (p, RB_BLACK, pe), t\<rangle>\<rangle> k n c"
      using assms(2-9) 3 by (simp add: S sl refilled_def)
    ultimately show ?thesis by blast
  qed
qed

lemma fix_right_black_sibling:
  assumes "rb_at h \<langle>S, (p, c, pe), t\<rangle> k" "root_color S = RB_BLACK" "S \<noteq> \<langle>\<rangle>"
  shows "rb_remove_fix_right h (Some p) = remove_tail_right h (Some p) (root_ptr S)"
proof -
  obtain sl s se sr where S: "S = \<langle>sr, (s, RB_BLACK, se), sl\<rangle>" using assms(2,3) by (cases S rule: root_color.cases) auto
  have "rb_at h \<langle>sr, (s, RB_BLACK, se), sl\<rangle> (In_left p c pe t # k)" using assms(1) by (simp add: S rb_move)
  from rb_at_node(4) [OF this] show ?thesis
    using rb_at_node(1) [OF assms(1)] by (simp add: remove_fix_right_eq S)
qed

lemma fix_right_red_sibling:
  assumes "rb_at h \<langle>\<langle>sr, (s, RB_RED, se), sl\<rangle>, (p, c, pe), t\<rangle> k"
  shows "\<exists>h'. rb_remove_fix_right h (Some p) = remove_tail_right h' (Some p) (root_ptr sl) \<and>
    rb_goes h \<langle>\<langle>sr, (s, RB_RED, se), sl\<rangle>, (p, c, pe), t\<rangle> k h' \<langle>sr, (s, RB_BLACK, se), \<langle>sl, (p, RB_RED, pe), t\<rangle>\<rangle> k"
proof -
  have at: "rb_at h \<langle>sr, (s, RB_RED, se), sl\<rangle> (In_left p c pe t # k)" using assms(1) by (simp add: rb_move)
  from set_blackred_at [OF assms] obtain h1 where h1: "RB_SET_BLACKRED h (Some s) (Some p) = Some h1"
    "rb_goes h \<langle>\<langle>sr, (s, RB_RED, se), sl\<rangle>, (p, c, pe), t\<rangle> k h1 \<langle>\<langle>sr, (s, RB_BLACK, se), sl\<rangle>, (p, RB_RED, pe), t\<rangle> k" by blast
  from rotate_right_at [OF rb_goes_at [OF h1(2)]] obtain h2 where h2: "RB_ROTATE_RIGHT h1 (Some p) = Some h2"
    "rb_goes h1 \<langle>\<langle>sr, (s, RB_BLACK, se), sl\<rangle>, (p, RB_RED, pe), t\<rangle> k
      h2 \<langle>sr, (s, RB_BLACK, se), \<langle>sl, (p, RB_RED, pe), t\<rangle>\<rangle> k" by blast
  from rb_goes_at [OF h2(2)] have "rb_at h2 \<langle>sl, (p, RB_RED, pe), t\<rangle> (In_right sr s RB_BLACK se # k)" by (simp add: rb_move)
  from rb_at_node(1) [OF this] have "rb_remove_fix_right h (Some p) = remove_tail_right h2 (Some p) (root_ptr sl)"
    using rb_at_node(1) [OF assms] rb_at_node(4) [OF at] h1(1) h2(1) by (simp add: remove_fix_right_eq)
  then show ?thesis using rb_goes_trans [OF h1(2) h2(2)] by blast
qed

lemma round_right:
  assumes "rb_at h t (In_right S p c pe # k)" "root_color t = RB_BLACK" "no_red_red t" "balanced t"
    and "path_balanced (Suc (black_height t)) (In_right S p c pe # k)" "path_no_red_red (In_right S p c pe # k)"
  shows "\<exists>res. rb_remove_fix_right h (Some p) = Some res \<and> round_ok h t (In_right S p c pe # k) (black_height t) res"
proof -
  let ?n = "black_height t"
  have at: "rb_at h \<langle>S, (p, c, pe), t\<rangle> k" using assms(1) by (simp add: rb_move)
  have S: "balanced S" "black_height S = Suc ?n" "no_red_red S" "S \<noteq> \<langle>\<rangle>" using assms(5,6) by auto
  have goes: "rb_goes h t (In_right S p c pe # k) h' t' k' = rb_goes h \<langle>S, (p, c, pe), t\<rangle> k h' t' k'" for h' t' k'
    by (simp add: rb_goes_plug [of h t] rb_goes_plug [of h "\<langle>_, _, _\<rangle>"])
  show ?thesis
  proof (cases "root_color S")
    case RB_BLACK
    from tail_right [OF at assms(2) RB_BLACK assms(3) S(3) assms(4) S(1) refl S(2)] obtain h' par x go t'
      where r: "remove_tail_right h (Some p) (root_ptr S) = Some (h', par, x, go)"
        "rb_goes h \<langle>S, (p, c, pe), t\<rangle> k h' t' k" "refilled (h', par, x, go) t' k ?n c" by blast
    then have "round_ok h t (In_right S p c pe # k) ?n (h', par, x, go)"
      using assms(5,6) unfolding round_ok_def goes by (intro exI [of _ t'] exI [of _ k] exI [of _ c]) auto
    then show ?thesis using r(1) fix_right_black_sibling [OF at RB_BLACK S(4)] by simp
  next
    case RB_RED
    then obtain sl s se sr where s: "S = \<langle>sr, (s, RB_RED, se), sl\<rangle>" by (cases S rule: root_color.cases) auto
    have c: "c = RB_BLACK" using RB_RED assms(6) by (cases c) auto
    from fix_right_red_sibling [OF at [unfolded s]] obtain h1
      where h1: "rb_remove_fix_right h (Some p) = remove_tail_right h1 (Some p) (root_ptr sl)"
        "rb_goes h \<langle>S, (p, c, pe), t\<rangle> k h1 \<langle>sr, (s, RB_BLACK, se), \<langle>sl, (p, RB_RED, pe), t\<rangle>\<rangle> k" unfolding s by blast
    let ?k = "In_right sr s RB_BLACK se # k"
    have at1: "rb_at h1 \<langle>sl, (p, RB_RED, pe), t\<rangle> ?k" using rb_goes_at [OF h1(2)] by (simp add: rb_move)
    have sl: "root_color sl = RB_BLACK" "no_red_red sl" "balanced sl" "black_height sl = Suc ?n" using S by (simp_all add: s)
    from tail_right [OF at1 assms(2) sl(1) assms(3) sl(2) assms(4) sl(3) refl sl(4)] obtain h' par x go t'
      where r: "remove_tail_right h1 (Some p) (root_ptr sl) = Some (h', par, x, go)"
        "rb_goes h1 \<langle>sl, (p, RB_RED, pe), t\<rangle> ?k h' t' ?k" "refilled (h', par, x, go) t' ?k ?n RB_RED" by blast
    have "rb_goes h t (In_right S p c pe # k) h' t' ?k"
      unfolding goes using rb_goes_trans [OF h1(2)] r(2) rb_goes_plug [of h1 "\<langle>sl, (p, RB_RED, pe), t\<rangle>" ?k h' t' ?k]
        rb_goes_plug [of h1 "\<langle>sr, (s, RB_BLACK, se), \<langle>sl, (p, RB_RED, pe), t\<rangle>\<rangle>" k h' t' ?k] by simp
    then have "round_ok h t (In_right S p c pe # k) ?n (h', par, x, go)"
      using r(3) assms(5,6) S unfolding round_ok_def s c
      by (intro exI [of _ t'] exI [of _ ?k] exI [of _ RB_RED]) auto
    then show ?thesis using r(1) h1(1) by simp
  qed
qed

section \<open>The loop\<close>

lemma blacken_inv [simp]:
  "entries (blacken t) = entries t" "balanced (blacken t) = balanced t" "root_color (blacken t) = RB_BLACK"
  "root_color t = RB_BLACK \<Longrightarrow> blacken t = t"
  "root_color t = RB_RED \<Longrightarrow> black_height (blacken t) = Suc (black_height t)"
  "no_red_red t \<Longrightarrow> no_red_red (blacken t)"
  by (cases t rule: root_color.cases; simp)+

lemma remove_loop_red:
  "rb_at h t k \<Longrightarrow> root_color t = RB_RED \<Longrightarrow> rb_remove_color_loop h parent (root_ptr t) = Some (h, root_ptr t)"
  using null_or_black_at [of h t k] by (subst rb_remove_color_loop.simps) simp

lemma remove_loop_root:
  "rb_at h t [] \<Longrightarrow> rb_remove_color_loop h parent (root_ptr t) = Some (h, root_ptr t)"
  using null_or_black_at [of h t "[]"] by (subst rb_remove_color_loop.simps) (simp add: rb_at_def)

lemma root_above: "rb_path h p k \<Longrightarrow> k \<noteq> [] \<Longrightarrow> \<exists>a \<in> path_addrs k. rbh_root h = Some a"
proof (induction k arbitrary: p)
  case (Cons f k)
  then show ?case by (cases f; cases "k = []") auto
qed simp

lemma not_root: "rb_at h t (f # k) \<Longrightarrow> root_ptr t \<noteq> rbh_root h"
  using root_above [of h "root_ptr t" "f # k"] by (auto simp: rb_at_def dest!: root_ptr_addrs)

lemma remove_loop_round:
  assumes "rb_at h t (f # k)" "root_color t = RB_BLACK" "rb_remove_fix h (Some (frame_ptr f)) (root_ptr t) = Some (h', par, x, goes_on)"
  shows "rb_remove_color_loop h (Some (frame_ptr f)) (root_ptr t) =
    (if goes_on then rb_remove_color_loop h' par x else Some (h', x))"
  using null_or_black_at [OF assms(1)] not_root [OF assms(1)] assms(2,3)
  by (subst rb_remove_color_loop.simps) simp

lemma remove_round:
  assumes "rb_at h t (f # k)" "root_color t = RB_BLACK" "no_red_red t" "balanced t"
    and "path_balanced (Suc (black_height t)) (f # k)" "path_no_red_red (f # k)"
  shows "\<exists>res. rb_remove_fix h (Some (frame_ptr f)) (root_ptr t) = Some res \<and> round_ok h t (f # k) (black_height t) res"
proof (cases f)
  case (In_left p c pe S)
  have "rb_at h \<langle>t, (p, c, pe), S\<rangle> k" using assms(1) In_left by (simp add: rb_move)
  from rb_at_node(1) [OF this] round_left [OF assms(1) [unfolded In_left]] show ?thesis
    using assms(2-6) In_left by (simp add: rb_remove_fix_def)
next
  case (In_right S p c pe)
  have at: "rb_at h \<langle>S, (p, c, pe), t\<rangle> k" using assms(1) In_right by (simp add: rb_move)
  moreover have "S \<noteq> \<langle>\<rangle>" using assms(5) In_right by auto
  ultimately show ?thesis
    using rb_at_node(1) [OF at] root_ptr_apart [OF at] round_right [OF assms(1) [unfolded In_right]] assms(2-6) In_right
    by (simp add: rb_remove_fix_def)
qed

text \<open>What the loop ends with: once the node it stops at is made black, the whole tree is in order.\<close>

definition loop_ends :: "'a rb_table \<Rightarrow> 'a rbt \<Rightarrow> 'a frame list \<Rightarrow> 'a rb_table \<Rightarrow> ptr option \<Rightarrow> bool" where
  "loop_ends h t k h' x \<longleftrightarrow> (\<exists>t' k'. rb_goes h t k h' t' k' \<and> x = root_ptr t' \<and>
     no_red_red (plug k' (blacken t')) \<and> balanced (plug k' (blacken t')) \<and> root_color (plug k' (blacken t')) = RB_BLACK)"

lemma root_color_plug:
  "path_no_red_red k \<Longrightarrow> (k = [] \<Longrightarrow> root_color t = RB_BLACK) \<Longrightarrow> root_color (plug k t) = RB_BLACK"
proof (induction k t rule: plug.induct)
  case (2 a c e r k t)
  then show ?case by (cases c) auto
next
  case (3 l a c e k t)
  then show ?case by (cases c) auto
qed simp

lemma loop_ends_red:
  assumes "rb_at h t k" "root_color t = RB_RED" "no_red_red (blacken t)" "balanced t"
    and "path_balanced (Suc (black_height t)) k" "path_no_red_red k"
  shows "loop_ends h t k h (root_ptr t)"
proof -
  have "no_red_red (plug k (blacken t))" "balanced (plug k (blacken t))" "root_color (plug k (blacken t)) = RB_BLACK"
    using no_red_red_plug [of "blacken t" k] balanced_plug [of "blacken t" k] root_color_plug [of k "blacken t"] assms by simp_all
  then show ?thesis using rb_goes_refl [OF assms(1)] unfolding loop_ends_def by blast
qed

lemma loop_ends_trans: "rb_goes h t k h1 t1 k1 \<Longrightarrow> loop_ends h1 t1 k1 h' x \<Longrightarrow> loop_ends h t k h' x"
  unfolding loop_ends_def by (blast intro: rb_goes_trans)

lemma loop_ends_done:
  assumes "rb_at h t k" "no_red_red t" "balanced t" "path_balanced (black_height t) k" "path_no_red_red k"
    and "root_color t = RB_RED \<longrightarrow> k \<noteq> [] \<and> frame_color (hd k) = RB_BLACK"
  shows "loop_ends h t k h (rbh_root h)"
proof -
  have black: "root_color (plug k t) = RB_BLACK"
    using assms(6) by (intro root_color_plug [OF assms(5)]) (cases "root_color t", simp_all)
  have "root_ptr (plug k t) = rbh_root h" using assms(1) rb_at_plug [of h t k] by (simp add: rb_at_def)
  moreover have "no_red_red (plug k t)" using no_red_red_plug [OF assms(2,5)] assms(6) by blast
  ultimately show ?thesis
    using rb_goes_root [OF assms(1)] balanced_plug [OF assms(3,4)] black
    unfolding loop_ends_def by (intro exI [of _ "plug k t"] exI [of _ "[]"]) simp
qed

lemma remove_loop_ok:
  assumes "rb_at h t k" "no_red_red (blacken t)" "balanced t" "path_balanced (Suc (black_height t)) k" "path_no_red_red k"
  shows "\<exists>h' x. rb_remove_color_loop h (path_ptr k) (root_ptr t) = Some (h', x) \<and> loop_ends h t k h' x"
  using assms
proof (induction "length k" arbitrary: h t k rule: less_induct)
  case less
  show ?case
  proof (cases "root_color t")
    case RB_RED
    then show ?thesis using remove_loop_red [OF less.prems(1) RB_RED] loop_ends_red [OF less.prems(1) RB_RED less.prems(2-5)] by blast
  next
    case RB_BLACK
    show ?thesis
    proof (cases k)
      case Nil
      then show ?thesis
        using remove_loop_root less.prems rb_goes_refl [OF less.prems(1)] by (fastforce simp: loop_ends_def)
    next
      case (Cons f k')
      from remove_round [OF less.prems(1) [unfolded Cons] RB_BLACK _ less.prems(3) less.prems(4,5) [unfolded Cons]] less.prems(2) RB_BLACK
      obtain h1 par x go where r: "rb_remove_fix h (Some (frame_ptr f)) (root_ptr t) = Some (h1, par, x, go)"
        "round_ok h t k (black_height t) (h1, par, x, go)" by (auto simp: Cons)
      from r(2) obtain t1 k1 c where o: "rb_goes h t k h1 t1 k1" "refilled (h1, par, x, go) t1 k1 (black_height t) c"
        "path_balanced (Suc (black_height t) + (if c = RB_BLACK then 1 else 0)) k1" "path_no_red_red k1"
        "if c = RB_RED then k1 \<noteq> [] \<and> frame_color (hd k1) = RB_BLACK else k1 = k'" by (auto simp: round_ok_def Cons)
      note step = remove_loop_round [OF less.prems(1) [unfolded Cons] RB_BLACK r(1)]
      note at = rb_goes_at [OF o(1)]
      have path: "Some (frame_ptr f) = path_ptr k" by (simp add: Cons)
      show ?thesis
      proof (cases go)
        case False
        then have t1: "no_red_red t1" "balanced t1" "path_balanced (black_height t1) k1" "root_color t1 = c" "x = rbh_root h1"
          using o by (auto simp: refilled_def)
        have "loop_ends h1 t1 k1 h1 (rbh_root h1)" using o(5) t1(4) by (intro loop_ends_done [OF at t1(1-3) o(4)]) auto
        then show ?thesis using step False t1(5) loop_ends_trans [OF o(1)] by (auto simp: path)
      next
        case True
        then have t1: "par = path_ptr k1" "x = root_ptr t1" "no_red_red (blacken t1)" "balanced t1"
          "path_balanced (Suc (black_height t1)) k1" "root_color t1 = c" using o by (auto simp: refilled_def)
        have "\<exists>h' x'. rb_remove_color_loop h1 par x = Some (h', x') \<and> loop_ends h1 t1 k1 h' x'"
        proof (cases c)
          case RB_RED
          then show ?thesis
            using remove_loop_red [OF at] loop_ends_red [OF at _ t1(3-5) o(4)] t1(2,6) by blast
        next
          case RB_BLACK
          then have "length k1 < length k" using o(5) by (simp add: Cons)
          from less.hyps [OF this at t1(3-5) o(4)] show ?thesis by (simp add: t1(1,2))
        qed
        then show ?thesis using step True loop_ends_trans [OF o(1)] by (auto simp: path)
      qed
    qed
  qed
qed

text \<open>The whole repair.\<close>

lemma remove_color_ok:
  assumes "rb_at h t k" "no_red_red (blacken t)" "balanced t" "path_balanced (Suc (black_height t)) k" "path_no_red_red k"
  shows "\<exists>h' t'. RB_REMOVE_COLOR h (path_ptr k) (root_ptr t) = Some h' \<and> rb_goes h t k h' t' [] \<and>
    no_red_red t' \<and> balanced t' \<and> root_color t' = RB_BLACK"
proof -
  from remove_loop_ok [OF assms] obtain h1 x t1 k1 where l: "rb_remove_color_loop h (path_ptr k) (root_ptr t) = Some (h1, x)"
    "rb_goes h t k h1 t1 k1" "x = root_ptr t1" "no_red_red (plug k1 (blacken t1))" "balanced (plug k1 (blacken t1))"
    "root_color (plug k1 (blacken t1)) = RB_BLACK" unfolding loop_ends_def by blast
  have "\<exists>h2. (if x \<noteq> None then set_color h1 x RB_BLACK else Some h1) = Some h2 \<and> rb_goes h1 t1 k1 h2 (blacken t1) k1"
  proof (cases t1 rule: root_color.cases)
    case 1
    then show ?thesis using rb_goes_refl [OF rb_goes_at [OF l(2)]] by (simp add: l(3))
  next
    case (2 a c e r)
    then show ?thesis using set_color_at [of h1 a c e r _ k1 RB_BLACK] rb_goes_at [OF l(2)] by (auto simp: l(3))
  qed
  then obtain h2 where h2: "(if x \<noteq> None then set_color h1 x RB_BLACK else Some h1) = Some h2"
    "rb_goes h1 t1 k1 h2 (blacken t1) k1" by blast
  have "RB_REMOVE_COLOR h (path_ptr k) (root_ptr t) = Some h2" using l(1) h2(1) by (cases x) (simp_all add: RB_REMOVE_COLOR_def)
  moreover have "rb_goes h t k h2 (plug k1 (blacken t1)) []"
    using rb_goes_trans [OF rb_goes_trans [OF l(2) h2(2)] rb_goes_root [OF rb_goes_at [OF h2(2)]]] .
  ultimately show ?thesis using l(4-6) by blast
qed

section \<open>Removal\<close>

lemma entry_place:
  "(a, e) \<in> set (entries t) \<Longrightarrow> \<exists>k l c r. t = plug k \<langle>l, (a, c, e), r\<rangle>"
proof (induction t)
  case (Node l n r)
  obtain b d f where n: "n = (b, d, f)" by (cases n) auto
  from Node.prems consider "(a, e) \<in> set (entries l)" | "(a, e) = (b, f)" | "(a, e) \<in> set (entries r)" by (auto simp: n)
  then show ?case
  proof cases
    case 1
    with Node.IH(1) obtain k l' c r' where "l = plug k \<langle>l', (a, c, e), r'\<rangle>" by blast
    then have "\<langle>l, n, r\<rangle> = plug (k @ [In_left b d f r]) \<langle>l', (a, c, e), r'\<rangle>" by (simp add: plug_append n)
    then show ?thesis by blast
  next
    case 2
    then have "\<langle>l, n, r\<rangle> = plug [] \<langle>l, (a, d, e), r\<rangle>" by (simp add: n)
    then show ?thesis by blast
  next
    case 3
    with Node.IH(2) obtain k l' c r' where "r = plug k \<langle>l', (a, c, e), r'\<rangle>" by blast
    then have "\<langle>l, n, r\<rangle> = plug (k @ [In_right l b d f]) \<langle>l', (a, c, e), r'\<rangle>" by (simp add: plug_append n)
    then show ?thesis by blast
  qed
qed simp

lemma same_frames:
  "path_balanced n (s @ In_right l a c e # k) = path_balanced n (s @ In_right l x c f # k)"
  "path_no_red_red (s @ In_right l a c e # k) = path_no_red_red (s @ In_right l x c f # k)"
proof -
  show "path_balanced n (s @ In_right l a c e # k) = path_balanced n (s @ In_right l x c f # k)"
    by (induction s arbitrary: n) auto
  have "frame_color (hd (s @ In_right l a c e # k)) = frame_color (hd (s @ In_right l x c f # k))" for s
    by (cases s) auto
  then show "path_no_red_red (s @ In_right l a c e # k) = path_no_red_red (s @ In_right l x c f # k)"
    by (induction s) auto
qed

lemma entries_left_spine: "left_spine s \<Longrightarrow> entries (plug s t) = entries t @ after s"
  by (induction s arbitrary: t rule: left_spine.induct) auto

text \<open>What is left when the node is unlinked, by either way, and a node of the color \<open>d\<close> is missing.\<close>

definition unlinked :: "'a rb_table \<Rightarrow> 'a rbt \<Rightarrow> (ptr \<times> 'a) list \<Rightarrow> 'a rb_table \<Rightarrow> 'a rbt \<Rightarrow> 'a frame list \<Rightarrow> rb_color \<Rightarrow> bool" where
  "unlinked h t es h' s k d \<longleftrightarrow> rb_leaves (addrs t) h h' s k \<and> entries (plug k s) = es \<and>
     no_red_red s \<and> balanced s \<and> path_no_red_red k \<and>
     (if d = RB_BLACK then path_balanced (Suc (black_height s)) k else path_balanced (black_height s) k \<and> root_color s = RB_BLACK)"

lemma remove_eq:
  assumes "rb_at h \<langle>l, (a, c, e), r\<rangle> k"
    and "(if l = \<langle>\<rangle> then rb_unlink_one_child h (Some a) (root_ptr r)
          else if r = \<langle>\<rangle> then rb_unlink_one_child h (Some a) (root_ptr l)
          else rb_unlink_successor h (Some a)) = Some (h', parent, child, d)"
  shows "RB_REMOVE h (Some a) = (if d = RB_BLACK then RB_REMOVE_COLOR h' parent child else Some h')"
  using rb_at_node(1,2) [OF assms(1)] assms(2) by (auto simp: RB_REMOVE_def split: if_splits)

lemma unlink_ok:
  assumes "rb_at h \<langle>l, (a, c, e), r\<rangle> k" "t = plug k \<langle>l, (a, c, e), r\<rangle>"
    and "no_red_red t" "balanced t" "root_color t = RB_BLACK"
  shows "\<exists>h' s k' d. RB_REMOVE h (Some a) = (if d = RB_BLACK then RB_REMOVE_COLOR h' (path_ptr k') (root_ptr s) else Some h') \<and>
    unlinked h t (before k @ entries l @ entries r @ after k) h' s k' d"
proof (cases "l = \<langle>\<rangle> \<or> r = \<langle>\<rangle>")
  case True
  define s where "s = (if l = \<langle>\<rangle> then r else l)"
  have node: "no_red_red \<langle>l, (a, c, e), r\<rangle>" "balanced \<langle>l, (a, c, e), r\<rangle>" "path_no_red_red k"
    "path_balanced (black_height \<langle>l, (a, c, e), r\<rangle>) k"
    using balanced_plugD no_red_red_plugD assms(2-5) by blast+
  from unlink_one_child_at [OF assms(1), of s] True obtain h'
    where h': "rb_unlink_one_child h (Some a) (root_ptr s) = Some (h', path_ptr k, root_ptr s, c)"
      "rb_at h' s k" "\<forall>b. b \<notin> addrs s \<union> path_addrs k \<longrightarrow> mem h' b = mem h b" by (auto simp: s_def rb_leaves_def)
  have "unlinked h t (before k @ entries l @ entries r @ after k) h' s k c"
    using node h'(2,3) True by (cases c) (auto simp: unlinked_def rb_leaves_def s_def assms(2) split: if_splits)
  moreover have "RB_REMOVE h (Some a) = (if c = RB_BLACK then RB_REMOVE_COLOR h' (path_ptr k) (root_ptr s) else Some h')"
    using h'(1) True by (intro remove_eq [OF assms(1)]) (auto simp: s_def split: if_splits)
  ultimately show ?thesis by blast
next
  case False
  with unlink_successor_at [OF assms(1)] obtain h' s x d f q
    where u: "r = plug s \<langle>\<langle>\<rangle>, (x, d, f), q\<rangle>" "left_spine s"
      "rb_unlink_successor h (Some a) = Some (h', path_ptr (s @ In_right l x c f # k), root_ptr q, d)"
      "rb_leaves (addrs \<langle>l, (a, c, e), r\<rangle> \<union> path_addrs k) h h' q (s @ In_right l x c f # k)" by blast
  have "t = plug (s @ In_right l a c e # k) \<langle>\<langle>\<rangle>, (x, d, f), q\<rangle>" by (simp add: assms(2) u(1) plug_append)
  then have "no_red_red \<langle>\<langle>\<rangle>, (x, d, f), q\<rangle>" "balanced \<langle>\<langle>\<rangle>, (x, d, f), q\<rangle>" "path_no_red_red (s @ In_right l a c e # k)"
    "path_balanced (black_height \<langle>\<langle>\<rangle>, (x, d, f), q\<rangle>) (s @ In_right l a c e # k)"
    using balanced_plugD no_red_red_plugD assms(3-5) by blast+
  note node = this [unfolded same_frames(1) [of _ s l a c e k x f] same_frames(2) [of s l a c e k x f]]
  have "entries (plug (s @ In_right l x c f # k) q) = before k @ entries l @ entries r @ after k"
    using entries_left_spine [OF u(2)] by (simp add: plug_append u(1) del: entries_plug) simp
  then have "unlinked h t (before k @ entries l @ entries r @ after k) h' q (s @ In_right l x c f # k) d"
    using node u(4) by (cases d) (auto simp: unlinked_def assms(2))
  moreover have "RB_REMOVE h (Some a) =
      (if d = RB_BLACK then RB_REMOVE_COLOR h' (path_ptr (s @ In_right l x c f # k)) (root_ptr q) else Some h')"
    using u(3) False by (intro remove_eq [OF assms(1)]) simp
  ultimately show ?thesis by blast
qed

lemma remove_ok:
  assumes "rb_ok key h t" "(a, e) \<in> set (entries t)"
  shows "\<exists>h' t'. RB_REMOVE h (Some a) = Some h' \<and> rb_ok key h' t' \<and> entries t' = removeAll (a, e) (entries t) \<and>
    (\<forall>b. b \<notin> addrs t \<longrightarrow> mem h' b = mem h b)"
proof -
  note ok = assms(1) [unfolded rb_ok_def]
  obtain k l c r where t: "t = plug k \<langle>l, (a, c, e), r\<rangle>" using entry_place [OF assms(2)] by blast
  have "rb_at h \<langle>l, (a, c, e), r\<rangle> k" using ok rb_at_plug [of h "\<langle>l, (a, c, e), r\<rangle>" k] by (simp add: t)
  from unlink_ok [OF this t] ok obtain h1 s k1 d
    where u: "RB_REMOVE h (Some a) = (if d = RB_BLACK then RB_REMOVE_COLOR h1 (path_ptr k1) (root_ptr s) else Some h1)"
      "unlinked h t (before k @ entries l @ entries r @ after k) h1 s k1 d" by blast
  have "\<exists>h' t'. RB_REMOVE h (Some a) = Some h' \<and> rb_goes h1 s k1 h' t' [] \<and> no_red_red t' \<and> balanced t' \<and> root_color t' = RB_BLACK"
  proof (cases d)
    case RB_BLACK
    have "\<exists>h' t'. RB_REMOVE_COLOR h1 (path_ptr k1) (root_ptr s) = Some h' \<and> rb_goes h1 s k1 h' t' [] \<and>
        no_red_red t' \<and> balanced t' \<and> root_color t' = RB_BLACK"
      using u(2) RB_BLACK by (intro remove_color_ok) (auto simp: unlinked_def rb_leaves_def)
    then show ?thesis using u(1) RB_BLACK by simp
  next
    case RB_RED
    then have s: "rb_at h1 s k1" "no_red_red s" "balanced s" "path_no_red_red k1" "path_balanced (black_height s) k1"
      "root_color s = RB_BLACK" using u(2) by (auto simp: unlinked_def rb_leaves_def)
    then show ?thesis
      using u(1) RB_RED rb_goes_root [OF s(1)] no_red_red_plug [OF s(2,4)] balanced_plug [OF s(3,5)]
        root_color_plug [OF s(4) s(6)] by auto
  qed
  then obtain h' t' where h': "RB_REMOVE h (Some a) = Some h'" "rb_goes h1 s k1 h' t' []"
    "no_red_red t'" "balanced t'" "root_color t' = RB_BLACK" by blast
  have es: "entries t = before k @ entries l @ (a, e) # entries r @ after k"
    "entries t' = before k @ entries l @ entries r @ after k" "entries (plug k1 s) = entries t'"
    using h'(2) u(2) by (simp_all add: t rb_goes_def unlinked_def)
  have sorted: "sorted_wrt (<) (map (\<lambda>x. key (snd x)) (entries t))" using ok by simp
  then have "sorted_wrt (<) (map (\<lambda>x. key (snd x)) (entries t'))" unfolding es by (auto simp: sorted_wrt_append)
  then have "rb_ok key h' t'" using h' by (simp add: rb_ok_def rb_goes_def)
  moreover have "distinct (entries t)" using sorted by (simp add: strict_sorted_iff distinct_map)
  then have "(a, e) \<notin> set (entries t')" unfolding es by auto
  then have "entries t' = removeAll (a, e) (entries t)" unfolding es by simp
  moreover have "\<forall>b. b \<notin> addrs t \<longrightarrow> mem h' b = mem h b"
  proof (intro allI impI)
    fix b assume b: "b \<notin> addrs t"
    have "addrs (plug k1 s) \<subseteq> addrs t" unfolding addrs_entries es by auto
    then show "mem h' b = mem h b" using b h'(2) u(2) by (auto simp: rb_goes_def keeps_outside_def unlinked_def rb_leaves_def)
  qed
  ultimately show ?thesis using h'(1) by blast
qed

lemma lookup_remove:
  fixes key :: "'a \<Rightarrow> 'k::linorder"
  assumes "sorted_wrt (<) (map (\<lambda>x. key (snd x)) (entries t))" "sorted_wrt (<) (map (\<lambda>x. key (snd x)) (entries t'))"
    and "entries t' = removeAll (a, e) (entries t)" "(a, e) \<in> set (entries t)"
  shows "lookup key t' k = (if k = key e then None else lookup key t k)"
proof (rule option_eqI)
  fix b
  have "c = a \<and> f = e" if "(c, f) \<in> set (entries t)" "key f = key e" for c f
  proof -
    have "inj_on (\<lambda>x. key (snd x)) (set (entries t))"
      using assms(1) by (simp add: strict_sorted_iff distinct_map)
    from inj_onD [OF this _ that(1) assms(4)] that(2) show ?thesis by simp
  qed
  then show "lookup key t' k = Some b \<longleftrightarrow> (if k = key e then None else lookup key t k) = Some b"
    unfolding lookup_Some [OF assms(2)] assms(3) using lookup_Some [OF assms(1), of k] by auto
qed

text \<open>
  C7. \<open>RB_REMOVE\<close> of a node of a table in order, for any comparison of a key in a linear order: it returns; the
  table is in order again, so that its height is logarithmic; it holds the other nodes with their payloads and
  not the removed one; \<open>RB_FIND\<close> finds them as before and nothing under the key of the removed node; and
  the rest of the memory is untouched.
\<close>

theorem rb_remove_correct:
  fixes key :: "'a \<Rightarrow> 'k::linorder"
  assumes "\<And>a b. cmp a b < 0 \<longleftrightarrow> key a < key b" "\<And>a b. cmp a b > 0 \<longleftrightarrow> key b < key a"
    and "rb_ok key h t" "(p, e) \<in> set (entries t)"
  shows "\<exists>h' t'. RB_REMOVE h (Some p) = Some h' \<and> rb_ok key h' t' \<and> 2 ^ height t' \<le> (size t' + 1) ^ 2 \<and>
    entries t' = removeAll (p, e) (entries t) \<and>
    (\<forall>x. RB_FIND cmp h' x = (if key x = key e then Some None else RB_FIND cmp h x)) \<and>
    (\<forall>b. b \<notin> addrs t \<longrightarrow> mem h' b = mem h b)"
proof -
  have ord: "table_order cmp key" using assms(1,2) by unfold_locales
  from remove_ok [OF assms(3,4)] obtain h' t'
    where r: "RB_REMOVE h (Some p) = Some h'" "rb_ok key h' t'" "entries t' = removeAll (p, e) (entries t)"
      "\<forall>b. b \<notin> addrs t \<longrightarrow> mem h' b = mem h b" by blast
  have "RB_FIND cmp g x = Some (lookup key u (key x))" if "rb_ok key g u" for g u x
    using table_order.find_assoc [OF ord rb_ok_wf(1) [OF that]] by (simp add: rb_ok_wf(2) [OF that])
  from this [OF r(2)] this [OF assms(3)]
  have "RB_FIND cmp h' x = (if key x = key e then Some None else RB_FIND cmp h x)" for x
    using lookup_remove [OF _ _ r(3) assms(4), of key "key x"] assms(3) r(2) by (simp add: rb_ok_def)
  then show ?thesis using r rb_ok_height [OF r(2)] by blast
qed

text \<open>Three black nodes: taking the left one away needs a round of the repair.\<close>

definition three_blacks :: "int rb_table" where
  "three_blacks = \<lparr>rbh_root = Some 5, mem =
    [4 \<mapsto> \<lparr>rbe_left = None, rbe_right = None, rbe_parent = Some 5, rbe_color = RB_BLACK, elm = 1\<rparr>,
     5 \<mapsto> \<lparr>rbe_left = Some 4, rbe_right = Some 6, rbe_parent = None, rbe_color = RB_BLACK, elm = 2\<rparr>,
     6 \<mapsto> \<lparr>rbe_left = None, rbe_right = None, rbe_parent = Some 5, rbe_color = RB_BLACK, elm = 3\<rparr>]\<rparr>"

lemma three_blacks_ok:
  "rb_ok id three_blacks \<langle>\<langle>\<langle>\<rangle>, (4, RB_BLACK, 1), \<langle>\<rangle>\<rangle>, (5, RB_BLACK, 2), \<langle>\<langle>\<rangle>, (6, RB_BLACK, 3), \<langle>\<rangle>\<rangle>\<rangle>"
  by (simp add: three_blacks_def rb_ok_def rb_at_def)

theorem rb_remove_correct_witness:
  "\<exists>h' t'. RB_REMOVE three_blacks (Some 4) = Some h' \<and> rb_ok id h' t' \<and> entries t' = [(5, 2), (6, 3)] \<and>
     RB_FIND (-) h' 1 = Some None"
  using rb_remove_correct [of "(-)" id, OF _ _ three_blacks_ok, of 4 1] by fastforce

end
