(* ===== verification/Drv_Tree_Walk.thy ===== *)
theory Drv_Tree_Walk
  imports Drv_Tree_Remove
begin

text \<open>
  Walking a table in order: \<open>RB_NEXT\<close> and \<open>RB_PREV\<close> go to the neighbour in the order of the keys, and the
  \<open>RB_FOREACH\<close> loops are folds over the entries in that order.
\<close>

section \<open>Neighbours\<close>

definition first_ptr :: "(ptr \<times> 'a) list \<Rightarrow> ptr option" where
  "first_ptr es = (case es of [] \<Rightarrow> None | x # _ \<Rightarrow> Some (fst x))"

lemma first_ptr_simps [simp]: "first_ptr [] = None" "first_ptr (x # xs) = Some (fst x)"
  by (simp_all add: first_ptr_def)

lemma first_ptr_append [simp]: "xs \<noteq> [] \<Longrightarrow> first_ptr (xs @ ys) = first_ptr xs"
  by (cases xs) simp_all

lemma entries_Nil [simp]: "entries t = [] \<longleftrightarrow> t = \<langle>\<rangle>"
  by (cases t rule: root_ptr.cases) simp_all

lemma leftmost_first:
  "rb_at h t k \<Longrightarrow> t \<noteq> \<langle>\<rangle> \<Longrightarrow> rb_leftmost h (root_ptr t) = Some (first_ptr (entries t))"
proof (induction t arbitrary: k)
  case (Node l n r)
  obtain a c e where n: "n = (a, c, e)" by (cases n) auto
  have "rb_at h l (In_left a c e r # k)" using Node.prems(1) by (simp add: rb_move n)
  from Node.IH(1) [OF this] rb_at_node(1) [OF Node.prems(1) [unfolded n]] show ?case
    by (subst rb_leftmost.simps) (cases "l = \<langle>\<rangle>"; auto simp: n)
qed simp

lemma rightmost_last:
  "rb_at h t k \<Longrightarrow> t \<noteq> \<langle>\<rangle> \<Longrightarrow> rb_rightmost h (root_ptr t) = Some (first_ptr (rev (entries t)))"
proof (induction t arbitrary: k)
  case (Node l n r)
  obtain a c e where n: "n = (a, c, e)" by (cases n) auto
  have "rb_at h r (In_right l a c e # k)" using Node.prems(1) by (simp add: rb_move n)
  from Node.IH(2) [OF this] rb_at_node(2) [OF Node.prems(1) [unfolded n]] show ?case
    by (subst rb_rightmost.simps) (cases "r = \<langle>\<rangle>"; auto simp: n)
qed simp

lemma up_from_right_at:
  "rb_at h \<langle>l, (a, c, e), r\<rangle> k \<Longrightarrow> rb_up_from_right h (Some a) = Some (first_ptr (after k))"
proof (induction k arbitrary: l a c e r rule: after.induct)
  case (2 b d f q k)
  have n: "rb_at h \<langle>\<langle>l, (a, c, e), r\<rangle>, (b, d, f), q\<rangle> k" using 2(2) by (simp add: rb_move)
  then have "root_ptr q \<noteq> Some a" by (auto simp: rb_at_def)
  then show ?case
    using rb_at_node(3) [OF 2(2)] rb_at_node(2) [OF n] by (subst rb_up_from_right.simps) auto
next
  case (3 q b d f k)
  have n: "rb_at h \<langle>q, (b, d, f), \<langle>l, (a, c, e), r\<rangle>\<rangle> k" using 3(2) by (simp add: rb_move)
  show ?case
    using rb_at_node(3) [OF 3(2)] rb_at_node(2) [OF n] 3(1) [OF n] by (subst rb_up_from_right.simps) simp
qed (simp add: rb_at_node rb_up_from_right.simps)

lemma rb_next_at:
  assumes "rb_at h \<langle>l, (a, c, e), r\<rangle> k"
  shows "RB_NEXT h (Some a) = Some (first_ptr (entries r @ after k))"
proof (cases "r = \<langle>\<rangle>")
  case True
  show ?thesis
  proof (cases k rule: path_addrs.cases)
    case 1
    then show ?thesis using rb_at_node [OF assms] up_from_right_at [OF assms] by (simp add: RB_NEXT_def True)
  next
    case (2 b d f q k')
    have "rb_at h \<langle>\<langle>l, (a, c, e), r\<rangle>, (b, d, f), q\<rangle> k'" using assms by (simp add: rb_move 2)
    from rb_at_node [OF this] show ?thesis using rb_at_node [OF assms] by (simp add: RB_NEXT_def True 2)
  next
    case (3 q b d f k')
    have n: "rb_at h \<langle>q, (b, d, f), \<langle>l, (a, c, e), r\<rangle>\<rangle> k'" using assms by (simp add: rb_move 3)
    then have "root_ptr q \<noteq> Some a" by (auto simp: rb_at_def)
    then show ?thesis
      using rb_at_node [OF n] rb_at_node [OF assms] up_from_right_at [OF assms] by (auto simp: RB_NEXT_def True 3)
  qed
next
  case False
  have "rb_at h r (In_right l a c e # k)" using assms by (simp add: rb_move)
  from leftmost_first [OF this False] show ?thesis
    using rb_at_node [OF assms] False by (simp add: RB_NEXT_def)
qed

lemma up_from_left_at:
  "rb_at h \<langle>l, (a, c, e), r\<rangle> k \<Longrightarrow> rb_up_from_left h (Some a) = Some (first_ptr (rev (before k)))"
proof (induction k arbitrary: l a c e r rule: before.induct)
  case (3 q b d f k)
  have n: "rb_at h \<langle>q, (b, d, f), \<langle>l, (a, c, e), r\<rangle>\<rangle> k" using 3(2) by (simp add: rb_move)
  then have "root_ptr q \<noteq> Some a" by (auto simp: rb_at_def)
  then show ?case
    using rb_at_node(3) [OF 3(2)] rb_at_node(1) [OF n] by (subst rb_up_from_left.simps) auto
next
  case (2 b d f q k)
  have n: "rb_at h \<langle>\<langle>l, (a, c, e), r\<rangle>, (b, d, f), q\<rangle> k" using 2(2) by (simp add: rb_move)
  show ?case
    using rb_at_node(3) [OF 2(2)] rb_at_node(1) [OF n] 2(1) [OF n] by (subst rb_up_from_left.simps) simp
qed (simp add: rb_at_node rb_up_from_left.simps)

lemma rb_prev_at:
  assumes "rb_at h \<langle>l, (a, c, e), r\<rangle> k"
  shows "RB_PREV h (Some a) = Some (first_ptr (rev (before k @ entries l)))"
proof (cases "l = \<langle>\<rangle>")
  case True
  show ?thesis
  proof (cases k rule: path_addrs.cases)
    case 1
    then show ?thesis using rb_at_node [OF assms] up_from_left_at [OF assms] by (simp add: RB_PREV_def True)
  next
    case (3 q b d f k')
    have "rb_at h \<langle>q, (b, d, f), \<langle>l, (a, c, e), r\<rangle>\<rangle> k'" using assms by (simp add: rb_move 3)
    from rb_at_node [OF this] show ?thesis using rb_at_node [OF assms] by (simp add: RB_PREV_def True 3)
  next
    case (2 b d f q k')
    have n: "rb_at h \<langle>\<langle>l, (a, c, e), r\<rangle>, (b, d, f), q\<rangle> k'" using assms by (simp add: rb_move 2)
    then have "root_ptr q \<noteq> Some a" by (auto simp: rb_at_def)
    then show ?thesis
      using rb_at_node [OF n] rb_at_node [OF assms] up_from_left_at [OF assms] by (auto simp: RB_PREV_def True 2)
  qed
next
  case False
  have "rb_at h l (In_left a c e r # k)" using assms by (simp add: rb_move)
  from rightmost_last [OF this False] show ?thesis
    using rb_at_node [OF assms] False by (simp add: RB_PREV_def)
qed

text \<open>The same on the whole table: the neighbours in the list of its entries.\<close>

lemma split_at_key:
  assumes "distinct (map fst (xs @ (a, e) # ys))" "xs @ (a, e) # ys = xs' @ (a, e') # ys'"
  shows "xs' = xs" "ys' = ys"
proof -
  have "(a, e') \<in> set (xs @ (a, e) # ys)" unfolding assms(2) by simp
  from eq_key_imp_eq_value [OF assms(1) _ this, of e] have e: "e' = e" by simp
  have "(a, e) \<notin> set xs" "(a, e) \<notin> set ys" using assms(1) by force+
  from append_Cons_eq_iff [OF this, of xs' ys'] show "xs' = xs" "ys' = ys"
    using assms(2) [unfolded e] by simp_all
qed

lemma rb_at_distinct: "rb_at h t k \<Longrightarrow> distinct (map fst (entries t))"
proof -
  have "distinct (map fst (entries t))" if "apart t" for t :: "'a rbt"
    using that by (induction t rule: apart.induct) (auto simp: addrs_entries)
  then show "rb_at h t k \<Longrightarrow> distinct (map fst (entries t))" by (simp add: rb_at_def)
qed

lemma rb_neighbours:
  assumes "rb_at h t []" "entries t = xs @ (a, e) # ys"
  shows "RB_NEXT h (Some a) = Some (first_ptr ys)" "RB_PREV h (Some a) = Some (first_ptr (rev xs))"
proof -
  have "(a, e) \<in> set (entries t)" by (simp add: assms(2))
  from entry_place [OF this] obtain k l c r where t: "t = plug k \<langle>l, (a, c, e), r\<rangle>" by blast
  then have n: "rb_at h \<langle>l, (a, c, e), r\<rangle> k" using assms(1) rb_at_plug [of h "\<langle>l, (a, c, e), r\<rangle>" k] by simp
  have d: "distinct (map fst (xs @ (a, e) # ys))" using rb_at_distinct [OF assms(1)] unfolding assms(2) .
  have "xs @ (a, e) # ys = (before k @ entries l) @ (a, e) # entries r @ after k"
    using assms(2) unfolding t by simp
  from split_at_key [OF d this] show "RB_NEXT h (Some a) = Some (first_ptr ys)"
    "RB_PREV h (Some a) = Some (first_ptr (rev xs))"
    using rb_next_at [OF n] rb_prev_at [OF n] by simp_all
qed

lemma rb_ends:
  assumes "rb_at h t []"
  shows "RB_MIN h = Some (first_ptr (entries t))" "RB_MAX h = Some (first_ptr (rev (entries t)))"
proof -
  have "rb_minmax_loop h (- 1) (root_ptr t) p = Some (if t = \<langle>\<rangle> then p else first_ptr (entries t))"
    if "rb_at h t k" for h :: "'a rb_table" and t k p
    using that
  proof (induction t arbitrary: k p)
    case (Node l n r)
    obtain a c e where n: "n = (a, c, e)" by (cases n) auto
    have "rb_at h l (In_left a c e r # k)" using Node.prems by (simp add: rb_move n)
    from Node.IH(1) [OF this] rb_at_node(1) [OF Node.prems [unfolded n]] show ?case
      by (subst rb_minmax_loop.simps) (simp add: n)
  qed (simp add: rb_minmax_loop.simps)
  from this [OF assms] show "RB_MIN h = Some (first_ptr (entries t))"
    using assms by (cases "t = \<langle>\<rangle>") (auto simp: RB_MIN_def RB_MINMAX_def rb_at_def)
  have "rb_minmax_loop h 1 (root_ptr t) p = Some (if t = \<langle>\<rangle> then p else first_ptr (rev (entries t)))"
    if "rb_at h t k" for h :: "'a rb_table" and t k p
    using that
  proof (induction t arbitrary: k p)
    case (Node l n r)
    obtain a c e where n: "n = (a, c, e)" by (cases n) auto
    have "rb_at h r (In_right l a c e # k)" using Node.prems by (simp add: rb_move n)
    from Node.IH(2) [OF this] rb_at_node(2) [OF Node.prems [unfolded n]] show ?case
      by (subst rb_minmax_loop.simps) (simp add: n)
  qed (simp add: rb_minmax_loop.simps)
  from this [OF assms] show "RB_MAX h = Some (first_ptr (rev (entries t)))"
    using assms by (cases "t = \<langle>\<rangle>") (auto simp: RB_MAX_def RB_MINMAX_def rb_at_def)
qed

section \<open>The loops are folds\<close>

text \<open>The statement runs on one address after the other.\<close>

fun each :: "(ptr \<Rightarrow> 's \<Rightarrow> 's option) \<Rightarrow> ptr list \<Rightarrow> 's \<Rightarrow> 's option" where
  "each body [] s = Some s"
| "each body (a # as) s = do { s \<leftarrow> body a s; each body as s }"

text \<open>A table in order holds these nodes, in the order of their keys.\<close>

definition table_lists :: "('a \<Rightarrow> 'k::linorder) \<Rightarrow> 'a rb_table \<Rightarrow> ptr list \<Rightarrow> bool" where
  "table_lists key h as \<longleftrightarrow> (\<exists>t. rb_ok key h t \<and> map fst (entries t) = as)"

definition head_ptr :: "ptr list \<Rightarrow> ptr option" where
  "head_ptr as = (case as of [] \<Rightarrow> None | a # _ \<Rightarrow> Some a)"

lemma head_ptr_simps [simp]: "head_ptr [] = None" "head_ptr (a # as) = Some a"
  by (simp_all add: head_ptr_def)

lemma first_ptr_head: "first_ptr es = head_ptr (map fst es)"
  by (cases es) simp_all

lemma table_lists_neighbours:
  assumes "table_lists key h (xs @ a # ys)"
  shows "RB_NEXT h (Some a) = Some (head_ptr ys)" "RB_PREV h (Some a) = Some (head_ptr (rev xs))"
proof -
  from assms obtain t where t: "rb_ok key h t" "map fst (entries t) = xs @ a # ys" by (auto simp: table_lists_def)
  from t(2) obtain us x vs where es: "entries t = us @ x # vs" "map fst us = xs" "fst x = a" "map fst vs = ys"
    by (auto simp: map_eq_append_conv map_eq_Cons_conv)
  have "rb_at h t []" using t(1) by (simp add: rb_ok_def)
  from rb_neighbours [OF this, of us a "snd x" vs] es show "RB_NEXT h (Some a) = Some (head_ptr ys)"
    "RB_PREV h (Some a) = Some (head_ptr (rev xs))" by (auto simp: first_ptr_head rev_map)
qed

lemma table_lists_ends:
  assumes "table_lists key h as"
  shows "RB_MIN h = Some (head_ptr as)" "RB_MAX h = Some (head_ptr (rev as))"
  using assms rb_ends [of h] by (auto simp: table_lists_def rb_ok_def first_ptr_head rev_map)

text \<open>What a statement may do: nothing to the table's order, or remove the node it is at.\<close>

definition removes_at_most :: "('a \<Rightarrow> 'k::linorder) \<Rightarrow> ('s \<Rightarrow> 'a rb_table) \<Rightarrow> (ptr \<Rightarrow> 's \<Rightarrow> 's option) \<Rightarrow> bool" where
  "removes_at_most key tab body \<longleftrightarrow> (\<forall>a s s' xs ys. body a s = Some s' \<longrightarrow> table_lists key (tab s) (xs @ a # ys) \<longrightarrow>
     table_lists key (tab s') (xs @ a # ys) \<or> table_lists key (tab s') (xs @ ys))"

definition keeps_nodes_of :: "('a \<Rightarrow> 'k::linorder) \<Rightarrow> ('s \<Rightarrow> 'a rb_table) \<Rightarrow> (ptr \<Rightarrow> 's \<Rightarrow> 's option) \<Rightarrow> bool" where
  "keeps_nodes_of key tab body \<longleftrightarrow>
     (\<forall>a s s' as. body a s = Some s' \<longrightarrow> table_lists key (tab s) as \<longrightarrow> table_lists key (tab s') as)"

lemma walk_each:
  assumes "keeps_nodes_of key tab body" "table_lists key (tab s) (xs @ ys)"
  shows "rb_walk RB_NEXT tab body (head_ptr ys) s = each body ys s"
  using assms(2)
proof (induction ys arbitrary: xs s)
  case (Cons a ys)
  have "table_lists key (tab s') (xs @ a # ys)" if "body a s = Some s'" for s'
    using assms(1) Cons.prems that by (auto simp: keeps_nodes_of_def)
  with Cons.IH [of _ "xs @ [a]"] table_lists_neighbours(1) [of key _ xs a ys] show ?case
    by (subst rb_walk.simps) (auto split: bind_splits)
qed (simp add: rb_walk.simps)

lemma walk_back_each:
  assumes "keeps_nodes_of key tab body" "table_lists key (tab s) (rev xs @ ys)"
  shows "rb_walk RB_PREV tab body (head_ptr xs) s = each body xs s"
  using assms(2)
proof (induction xs arbitrary: ys s)
  case (Cons a xs)
  have "table_lists key (tab s') (rev xs @ a # ys)" if "body a s = Some s'" for s'
    using assms(1) Cons.prems that by (auto simp: keeps_nodes_of_def)
  with Cons.IH [of _ "a # ys"] table_lists_neighbours(2) [of key _ "rev xs" a ys] show ?case
    by (subst rb_walk.simps) (auto split: bind_splits)
qed (simp add: rb_walk.simps)

lemma walk_safe_each:
  assumes "removes_at_most key tab body" "table_lists key (tab s) (xs @ ys)"
  shows "rb_walk_safe RB_NEXT tab body (head_ptr ys) s = each body ys s"
  using assms(2)
proof (induction ys arbitrary: xs s)
  case (Cons a ys)
  have "rb_walk_safe RB_NEXT tab body (head_ptr ys) s' = each body ys s'" if "body a s = Some s'" for s'
    using assms(1) [unfolded removes_at_most_def] Cons.prems that Cons.IH [of s' "xs @ [a]"] Cons.IH [of s' xs] by auto blast
  with table_lists_neighbours(1) [OF Cons.prems] show ?case
    by (subst rb_walk_safe.simps) (auto split: bind_splits)
qed (simp add: rb_walk_safe.simps)

lemma walk_back_safe_each:
  assumes "removes_at_most key tab body" "table_lists key (tab s) (rev xs @ ys)"
  shows "rb_walk_safe RB_PREV tab body (head_ptr xs) s = each body xs s"
  using assms(2)
proof (induction xs arbitrary: ys s)
  case (Cons a xs)
  have "rb_walk_safe RB_PREV tab body (head_ptr xs) s' = each body xs s'" if "body a s = Some s'" for s'
    using assms(1) Cons.prems that Cons.IH [of s' "a # ys"] Cons.IH [of s' ys]
    by (fastforce simp: removes_at_most_def)
  with table_lists_neighbours(2) [of key _ "rev xs" a ys] Cons.prems show ?case
    by (subst rb_walk_safe.simps) (auto split: bind_splits)
qed (simp add: rb_walk_safe.simps)

lemma foreach_each:
  assumes "keeps_nodes_of key tab body" "table_lists key (tab s) as"
  shows "RB_FOREACH tab body s = each body as s" "RB_FOREACH_REVERSE tab body s = each body (rev as) s"
  using assms table_lists_ends [OF assms(2)] walk_each [OF assms(1), of s "[]" as] walk_back_each [OF assms(1), of s "rev as" "[]"]
  by (simp_all add: RB_FOREACH_def RB_FOREACH_REVERSE_def)

lemma foreach_safe_each:
  assumes "removes_at_most key tab body" "table_lists key (tab s) as"
  shows "RB_FOREACH_SAFE tab body s = each body as s" "RB_FOREACH_REVERSE_SAFE tab body s = each body (rev as) s"
  using assms table_lists_ends [OF assms(2)] walk_safe_each [OF assms(1), of s "[]" as]
    walk_back_safe_each [OF assms(1), of s "rev as" "[]"]
  by (simp_all add: RB_FOREACH_SAFE_def RB_FOREACH_REVERSE_SAFE_def)

lemma foreach_from_each:
  assumes "removes_at_most key tab body" "table_lists key (tab s) (xs @ a # ys)"
  shows "RB_FOREACH_FROM tab body (Some a) s = each body (a # ys) s"
    "RB_FOREACH_REVERSE_FROM tab body (Some a) s = each body (a # rev xs) s"
  using assms walk_safe_each [OF assms] walk_back_safe_each [OF assms(1), of s "a # rev xs" ys]
  by (simp_all add: RB_FOREACH_FROM_def RB_FOREACH_REVERSE_FROM_def)

text \<open>
  C23. The \<open>RB_FOREACH\<close> loops are folds over the nodes of the table in the order of their keys, and the
  \<open>REVERSE\<close> ones in the opposite order: each runs its statement once on every node, whatever it does to the
  rest of the program, and returns if every statement does.  The \<open>SAFE\<close> and \<open>FROM\<close> loops allow the
  statement to remove the node it is at, as \<open>jbd2_revoke_table_clear\<close> does; the plain ones need it to stay.
\<close>

theorem rb_foreach_folds:
  fixes key :: "'a \<Rightarrow> 'k::linorder"
  assumes "rb_ok key (tab s) t" "removes_at_most key tab body"
  shows "RB_FOREACH_SAFE tab body s = each body (map fst (entries t)) s \<and>
    RB_FOREACH_REVERSE_SAFE tab body s = each body (rev (map fst (entries t))) s \<and>
    (\<forall>xs a ys. map fst (entries t) = xs @ a # ys \<longrightarrow>
       RB_FOREACH_FROM tab body (Some a) s = each body (a # ys) s \<and>
       RB_FOREACH_REVERSE_FROM tab body (Some a) s = each body (a # rev xs) s) \<and>
    (keeps_nodes_of key tab body \<longrightarrow>
       RB_FOREACH tab body s = each body (map fst (entries t)) s \<and>
       RB_FOREACH_REVERSE tab body s = each body (rev (map fst (entries t))) s)"
proof -
  have l: "table_lists key (tab s) (map fst (entries t))" using assms(1) by (auto simp: table_lists_def)
  from foreach_from_each [OF assms(2)] have "RB_FOREACH_FROM tab body (Some a) s = each body (a # ys) s \<and>
      RB_FOREACH_REVERSE_FROM tab body (Some a) s = each body (a # rev xs) s"
    if "map fst (entries t) = xs @ a # ys" for xs a ys
    using l that by metis
  then show ?thesis
    using foreach_safe_each [OF assms(2) l] foreach_each [of key tab body s, OF _ l] by blast
qed

text \<open>A statement that removes the node and notes its address.\<close>

definition remove_and_note :: "ptr \<Rightarrow> 'a rb_table \<times> ptr list \<Rightarrow> ('a rb_table \<times> ptr list) option" where
  "remove_and_note a s = do { h \<leftarrow> RB_REMOVE (fst s) (Some a); Some (h, snd s @ [a]) }"

lemma remove_table_lists:
  assumes "table_lists key h (xs @ a # ys)" "RB_REMOVE h (Some a) = Some h'"
  shows "table_lists key h' (xs @ ys)"
proof -
  from assms(1) obtain t where t: "rb_ok key h t" "map fst (entries t) = xs @ a # ys" by (auto simp: table_lists_def)
  then have "a \<in> fst ` set (entries t)" by (metis in_set_conv_decomp set_map)
  then obtain e where e: "(a, e) \<in> set (entries t)" by auto
  from remove_ok [OF t(1) e] assms(2) obtain t' where t': "rb_ok key h' t'" "entries t' = removeAll (a, e) (entries t)"
    by auto
  have "distinct (map fst (entries t))" using t(1) rb_at_distinct by (auto simp: rb_ok_def)
  then have "map fst (removeAll (a, e) es) = removeAll a (map fst es)" if "set es \<subseteq> set (entries t)" for es
    using that e by (induction es) (auto dest: eq_key_imp_eq_value)
  from this [of "entries t"] have "map fst (entries t') = removeAll a (xs @ a # ys)" using t(2) t'(2) by simp
  also have "\<dots> = xs @ ys" using \<open>distinct (map fst (entries t))\<close> t(2) by simp
  finally show ?thesis using t'(1) by (auto simp: table_lists_def)
qed

lemma remove_and_note_removes: "removes_at_most key fst remove_and_note"
  unfolding removes_at_most_def
  by (auto simp: remove_and_note_def split: bind_splits dest: remove_table_lists)

theorem rb_foreach_folds_witness:
  "map_option snd (RB_FOREACH_SAFE fst remove_and_note (three_blacks, [])) = Some [4, 5, 6] \<and>
   map_option snd (RB_FOREACH_REVERSE_SAFE fst remove_and_note (three_blacks, [])) = Some [6, 5, 4]"
proof -
  have ok: "rb_ok id (fst (three_blacks, [])) \<langle>\<langle>\<langle>\<rangle>, (4, RB_BLACK, 1), \<langle>\<rangle>\<rangle>, (5, RB_BLACK, 2), \<langle>\<langle>\<rangle>, (6, RB_BLACK, 3), \<langle>\<rangle>\<rangle>\<rangle>"
    using three_blacks_ok by simp
  have "map_option snd (each remove_and_note [4, 5, 6] (three_blacks, [])) = Some [4, 5, 6]"
    "map_option snd (each remove_and_note [6, 5, 4] (three_blacks, [])) = Some [6, 5, 4]"
    by code_simp+
  then show ?thesis
    using rb_foreach_folds [where body = remove_and_note and tab = fst, OF ok remove_and_note_removes] by simp
qed

end
