(* ===== verification/Jbd2_Revoke.thy ===== *)
theory Jbd2_Revoke
  imports Jbd2_Tables Drv_Tree_Walk
begin

text \<open>
  The tables of \<open>jbd2/jbd2.c\<close> as maps: looking up and putting an entry of a table in order, and
  \<open>jbd2_revoke_table_clear\<close>, which walks the table and puts every entry.
\<close>

section \<open>Removing leaves the payloads\<close>

text \<open>The payloads of all nodes, of the table or not; the removal changes links only.\<close>

definition elms :: "'a rb_table \<Rightarrow> ptr \<rightharpoonup> 'a" where
  "elms h = (\<lambda>a. map_option elm (mem h a))"

lemma elms_upd_node: "upd_node h p f = Some h' \<Longrightarrow> (\<And>n. elm (f n) = elm n) \<Longrightarrow> elms h' = elms h"
  by (cases p) (auto simp: upd_node_def elms_def fault_simps)

lemma elms_set:
  "set_left h p v = Some h' \<Longrightarrow> elms h' = elms h" "set_right h p v = Some h' \<Longrightarrow> elms h' = elms h"
  "set_parent h p v = Some h' \<Longrightarrow> elms h' = elms h" "set_color h p c = Some h' \<Longrightarrow> elms h' = elms h"
  by (auto simp: set_left_def set_right_def set_parent_def set_color_def dest!: elms_upd_node)

lemma elms_root [simp]: "elms (h\<lparr>rbh_root := r\<rparr>) = elms h"
  by (simp add: elms_def)

lemma elms_if_set:
  "(if b then set_parent h p v else Some h) = Some h' \<Longrightarrow> elms h' = elms h"
  "(if b then set_color h p c else Some h) = Some h' \<Longrightarrow> elms h' = elms h"
  by (auto dest: elms_set split: if_splits)

lemma elms_replace_child: "replace_child h par p q = Some h' \<Longrightarrow> elms h' = elms h"
  by (auto simp: replace_child_def split: bind_splits if_splits dest!: elms_set)

lemmas elms_steps = elms_set elms_if_set elms_replace_child

lemma elms_rotate:
  "RB_ROTATE_LEFT h p = Some h' \<Longrightarrow> elms h' = elms h" "RB_ROTATE_RIGHT h p = Some h' \<Longrightarrow> elms h' = elms h"
  by (auto simp: RB_ROTATE_LEFT_def RB_ROTATE_RIGHT_def split: bind_splits dest!: elms_steps)

lemma elms_blackred: "RB_SET_BLACKRED h p q = Some h' \<Longrightarrow> elms h' = elms h"
  by (auto simp: RB_SET_BLACKRED_def split: bind_splits dest!: elms_steps)

lemma elms_final_left: "remove_final_left h par tmp = Some r \<Longrightarrow> elms (fst r) = elms h"
  unfolding remove_final_left_def
  by (auto split: bind_splits dest!: elms_set elms_if_set elms_rotate)

lemma elms_tail_left: "remove_tail_left h par tmp = Some r \<Longrightarrow> elms (fst r) = elms h"
  unfolding remove_tail_left_def
  by (auto split: bind_splits if_split_asm dest!: elms_set(4) elms_if_set(2) elms_rotate elms_final_left)

lemma elms_remove_fix_left: "rb_remove_fix_left h par = Some r \<Longrightarrow> elms (fst r) = elms h"
  unfolding remove_fix_left_eq
  by (auto split: bind_splits if_split_asm dest!: elms_blackred elms_rotate elms_tail_left)

lemma elms_final_right: "remove_final_right h par tmp = Some r \<Longrightarrow> elms (fst r) = elms h"
  unfolding remove_final_right_def
  by (auto split: bind_splits dest!: elms_set elms_if_set elms_rotate)

lemma elms_tail_right: "remove_tail_right h par tmp = Some r \<Longrightarrow> elms (fst r) = elms h"
  unfolding remove_tail_right_def
  by (auto split: bind_splits if_split_asm dest!: elms_set(4) elms_if_set(2) elms_rotate elms_final_right)

lemma elms_remove_fix_right: "rb_remove_fix_right h par = Some r \<Longrightarrow> elms (fst r) = elms h"
  unfolding remove_fix_right_eq
  by (auto split: bind_splits if_split_asm dest!: elms_blackred elms_rotate elms_tail_right)

lemma elms_unlink_successor: "rb_unlink_successor h p = Some r \<Longrightarrow> elms (fst r) = elms h"
  unfolding rb_unlink_successor_def
  by (auto split: bind_splits dest!: elms_steps elms_upd_node)

lemma elms_unlink_one_child: "rb_unlink_one_child h p q = Some r \<Longrightarrow> elms (fst r) = elms h"
  unfolding rb_unlink_one_child_def
  by (auto split: bind_splits dest!: elms_steps)

lemma elms_remove_color_loop:
  assumes "rb_remove_color_loop h par x = Some r"
  shows "elms (fst r) = elms h"
proof -
  note ind = rb_remove_color_loop.raw_induct [of "\<lambda>h par x r. elms (fst r) = elms h" "((h, par), x)" r, unfolded prod.case]
  show ?thesis
  proof (rule ind [OF _ assms])
    fix f :: "'a rb_table \<Rightarrow> ptr option \<Rightarrow> ptr option \<Rightarrow> ('a rb_table \<times> ptr option) option" and h par x r
    assume IH: "\<And>h par x r. f h par x = Some r \<Longrightarrow> elms (fst r) = elms h"
      and body: "do { b \<leftarrow> null_or_black h x;
       if b \<and> x \<noteq> rbh_root h then do {
         r \<leftarrow> rb_remove_fix h par x;
         if snd (snd (snd r)) then f (fst r) (fst (snd r)) (fst (snd (snd r)))
         else Some (fst r, fst (snd (snd r))) }
       else Some (h, x) } = Some r"
    have "elms (fst q) = elms h" if "rb_remove_fix h par x = Some q" for q
      using that by (auto simp: rb_remove_fix_def split: bind_splits if_splits
          dest!: elms_remove_fix_left elms_remove_fix_right)
    then show "elms (fst r) = elms h"
      using body IH by (auto split: bind_splits if_splits)
  qed
qed

lemma elms_remove_color: "RB_REMOVE_COLOR h par x = Some h' \<Longrightarrow> elms h' = elms h"
  by (auto simp: RB_REMOVE_COLOR_def split: bind_splits if_splits dest!: elms_remove_color_loop elms_set)

lemma elms_remove: "RB_REMOVE h p = Some h' \<Longrightarrow> elms h' = elms h"
  unfolding RB_REMOVE_def
  by (auto split: bind_splits if_splits dest!: elms_remove_color elms_unlink_successor elms_unlink_one_child)

section \<open>Changing a payload\<close>

definition update_entry :: "ptr \<Rightarrow> ('a \<Rightarrow> 'a) \<Rightarrow> (ptr \<times> 'a) list \<Rightarrow> (ptr \<times> 'a) list" where
  "update_entry a f es = map (\<lambda>(b, x). (b, if b = a then f x else x)) es"

fun update_tree :: "ptr \<Rightarrow> ('a \<Rightarrow> 'a) \<Rightarrow> 'a rbt \<Rightarrow> 'a rbt" where
  "update_tree a f \<langle>\<rangle> = \<langle>\<rangle>"
| "update_tree a f \<langle>l, (b, c, x), r\<rangle> = \<langle>update_tree a f l, (b, c, if b = a then f x else x), update_tree a f r\<rangle>"

lemma update_entry_simps [simp]:
  "update_entry a f [] = []" "update_entry a f ((b, x) # es) = (b, if b = a then f x else x) # update_entry a f es"
  "update_entry a f (xs @ ys) = update_entry a f xs @ update_entry a f ys"
  by (simp_all add: update_entry_def)

lemma update_entry_id: "a \<notin> fst ` set es \<Longrightarrow> update_entry a f es = es"
  by (induction es) auto

lemma update_entry_key: "(\<And>x. key (f x) = key x) \<Longrightarrow>
    map (\<lambda>x. key (snd x)) (update_entry a f es) = map (\<lambda>x. key (snd x)) es"
  by (auto simp: update_entry_def)

lemma update_tree_root [simp]: "root_ptr (update_tree a f t) = root_ptr t" "root_color (update_tree a f t) = root_color t"
  by (cases t rule: root_ptr.cases; simp)+

lemma update_tree_simps [simp]:
  "entries (update_tree a f t) = update_entry a f (entries t)" "addrs (update_tree a f t) = addrs t"
  "no_red_red (update_tree a f t) = no_red_red t" "black_height (update_tree a f t) = black_height t"
  "balanced (update_tree a f t) = balanced t"
  by (induction a f t rule: update_tree.induct) auto

lemma update_tree_apart [simp]: "apart (update_tree a f t) = apart t"
  by (induction a f t rule: update_tree.induct) auto

lemma update_tree_outside: "a \<notin> addrs t \<Longrightarrow> update_tree a f t = t"
  by (induction a f t rule: update_tree.induct) auto

lemma update_tree_heap:
  "rb_heap m par t \<Longrightarrow> apart t \<Longrightarrow> m a = Some n \<Longrightarrow> rb_heap (m(a \<mapsto> n\<lparr>elm := f (elm n)\<rparr>)) par (update_tree a f t)"
  by (induction m par t rule: rb_heap.induct) (auto simp: update_tree_outside)

lemma set_elm_ok:
  assumes "rb_ok key h t" "(a, e) \<in> set (entries t)" "\<And>x. key (f x) = key x"
  shows "\<exists>h'. set_elm h (Some a) f = Some h' \<and> rb_ok key h' (update_tree a f t) \<and>
    (\<forall>b. b \<notin> addrs t \<longrightarrow> mem h' b = mem h b)"
proof -
  have t: "rb_heap (mem h) None t" "apart t" "rbh_root h = root_ptr t" using assms(1) by (auto simp: rb_ok_def rb_at_def)
  obtain k l c r where p: "t = plug k \<langle>l, (a, c, e), r\<rangle>" using entry_place [OF assms(2)] by blast
  have "rb_at h \<langle>l, (a, c, e), r\<rangle> k" using assms(1) rb_at_plug [of h "\<langle>l, (a, c, e), r\<rangle>" k] by (simp add: rb_ok_def p)
  then obtain n where n: "mem h a = Some n" by (auto simp: rb_at_def)
  have "a \<in> addrs t" using assms(2) by (force simp: addrs_entries)
  then show ?thesis
    using assms(1) update_tree_heap [OF t(1,2) n, of f] t n
    by (auto simp: set_elm_at rb_ok_def rb_at_def update_entry_key [where key = key and f = f, OF assms(3)])
qed

section \<open>Putting an entry\<close>

text \<open>What the puts of the entries \<open>es\<close> leave in the table: those with a count of one, at zero.\<close>

definition settled :: "('a \<Rightarrow> atomic) \<Rightarrow> (atomic \<Rightarrow> 'a \<Rightarrow> 'a) \<Rightarrow> (ptr \<times> 'a) list \<Rightarrow> (ptr \<times> 'a) list" where
  "settled rc set_rc es = map (\<lambda>(a, e). (a, set_rc 0 e)) (filter (\<lambda>(a, e). rc e = 1) es)"

lemma settled_simps [simp]:
  "settled rc set_rc [] = []"
  "settled rc set_rc ((a, e) # es) = (if rc e = 1 then [(a, set_rc 0 e)] else []) @ settled rc set_rc es"
  by (simp_all add: settled_def)

lemma node_put_ok:
  assumes "rb_ok key h t" "entries t = xs @ (a, e) # ys" "\<And>v x. key (set_rc v x) = key x"
  shows "\<exists>h' t'. node_put rc set_rc h (Some a) = Some h' \<and> rb_ok key h' t' \<and>
    entries t' = xs @ settled rc set_rc [(a, e)] @ ys \<and> (rc e \<noteq> 1 \<longrightarrow> mem h' a = None) \<and>
    (\<forall>b. b \<notin> addrs t \<longrightarrow> mem h' b = mem h b)"
proof -
  have in_t: "(a, e) \<in> set (entries t)" by (simp add: assms(2))
  have at: "rb_at h t []" using assms(1) by (simp add: rb_ok_def)
  have out: "a \<notin> fst ` set xs" "a \<notin> fst ` set ys" using rb_at_distinct [OF at] by (auto simp: assms(2))
  have elm: "RB_ELM h (Some a) = Some e"
  proof -
    obtain k l c r where p: "t = plug k \<langle>l, (a, c, e), r\<rangle>" using entry_place [OF in_t] by blast
    have "rb_at h \<langle>l, (a, c, e), r\<rangle> k" using at rb_at_plug [of h "\<langle>l, (a, c, e), r\<rangle>" k] by (simp add: p)
    then show ?thesis by (rule rb_at_node(5))
  qed
  let ?f = "set_rc (rc e - 1)"
  from set_elm_ok [OF assms(1) in_t, of ?f] assms(3) obtain h1
    where h1: "set_elm h (Some a) ?f = Some h1" "rb_ok key h1 (update_tree a ?f t)"
      "\<forall>b. b \<notin> addrs t \<longrightarrow> mem h1 b = mem h b" by blast
  have es: "entries (update_tree a ?f t) = xs @ (a, ?f e) # ys"
    by (simp add: assms(2) update_entry_id [OF out(1)] update_entry_id [OF out(2)])
  show ?thesis
  proof (cases "rc e = 1")
    case True
    then show ?thesis
      using h1 elm es by (intro exI [of _ h1] exI [of _ "update_tree a ?f t"])
        (simp add: node_put_def drv_atomic_sub_and_test_def)
  next
    case False
    have "(a, ?f e) \<in> set (entries (update_tree a ?f t))" unfolding es by simp
    from remove_ok [OF h1(2) this] obtain h2 t2
      where h2: "RB_REMOVE h1 (Some a) = Some h2" "rb_ok key h2 t2"
        "entries t2 = removeAll (a, ?f e) (entries (update_tree a ?f t))"
        "\<forall>b. b \<notin> addrs t \<longrightarrow> mem h2 b = mem h1 b" by auto
    have d: "distinct (entries (update_tree a ?f t))"
      using rb_at_distinct [of h1 "update_tree a ?f t" "[]"] h1(2) by (simp only: rb_ok_def distinct_map)
    then have "entries t2 = xs @ ys" using out h2(3) unfolding es by (force simp: removeAll_id)
    moreover have "mem h1 a \<noteq> None" using h1(1) by (auto simp: set_elm_def upd_node_def fault_simps)
    then have "elms h2 a \<noteq> None" unfolding elms_remove [OF h2(1)] by (simp add: elms_def)
    then obtain n where "mem h2 a = Some n" by (auto simp: elms_def)
    then have "free_node h2 (Some a) = Some (h2\<lparr>mem := (mem h2)(a := None)\<rparr>)" by (simp add: free_node_def)
    moreover have "a \<notin> addrs t2" using out by (simp add: addrs_entries image_Un \<open>entries t2 = xs @ ys\<close>)
    then have "rb_ok key (h2\<lparr>mem := (mem h2)(a := None)\<rparr>) t2" using h2(2) by (simp add: rb_ok_def rb_at_def)
    moreover have "a \<in> addrs t" using in_t by (force simp: addrs_entries)
    ultimately show ?thesis
      using h1(1,3) h2(1,4) elm False
      by (intro exI [of _ "h2\<lparr>mem := (mem h2)(a := None)\<rparr>"] exI [of _ t2])
        (auto simp: node_put_def drv_atomic_sub_and_test_def)
  qed
qed

abbreviation re_refcount :: "jbd2_revoke_entry \<Rightarrow> atomic" where
  "re_refcount e \<equiv> th_refcount (re_header e)"

abbreviation re_set_refcount :: "atomic \<Rightarrow> jbd2_revoke_entry \<Rightarrow> jbd2_revoke_entry" where
  "re_set_refcount v \<equiv> re_header_update (hdr_set_refcount v)"

section \<open>Looking a block up and putting its entry back\<close>

lemma revoke_find_lookup:
  assumes "rb_ok revoke_key h t"
  shows "RB_FIND revoke_cmp h (stack_entry b) = Some (lookup revoke_key t (sint b))"
  using revoke_table.find_assoc [OF rb_ok_wf(1) [OF assms], of "stack_entry b"] by (simp add: rb_ok_wf(2) [OF assms])

lemma re_inc:
  "re_refcount (re_header_update hdr_inc e) = re_refcount e + 1"
  "re_refcount e = 0 \<Longrightarrow> re_set_refcount 0 (re_header_update hdr_inc e) = e"
  by (simp_all add: hdr_inc_def hdr_set_refcount_def drv_atomic_inc_def InterlockedIncrement_def)

text \<open>The entry of a block of the table, and the node that holds it.\<close>

definition entry_of_block :: "jbd2_revoke_entry rbt \<Rightarrow> jbd2_fsblk_t \<Rightarrow> (ptr \<times> jbd2_revoke_entry) option" where
  "entry_of_block t b = find (\<lambda>(a, e). th_block (re_header e) = b) (entries t)"

lemma entry_of_block_None:
  assumes "rb_ok revoke_key h t" "entry_of_block t b = None"
  shows "lookup revoke_key t (sint b) = None"
  using assms(2) by (auto simp: lookup_def entry_of_block_def find_None_iff map_of_eq_None_iff revoke_key_def sint_eq_iff) blast

lemma entry_of_block_Some:
  assumes "rb_ok revoke_key h t" "entry_of_block t b = Some (a, e)"
  shows "(a, e) \<in> set (entries t)" "lookup revoke_key t (sint b) = Some a" "\<exists>n. mem h a = Some n \<and> elm n = e"
proof -
  show in_t: "(a, e) \<in> set (entries t)" using assms(2) unfolding entry_of_block_def find_Some_iff by (metis nth_mem)
  have "revoke_key e = sint b" using assms(2) by (auto simp: entry_of_block_def find_Some_iff revoke_key_def)
  then show "lookup revoke_key t (sint b) = Some a"
    using in_t lookup_Some [of revoke_key t "sint b" a] assms(1) by (auto simp: rb_ok_def)
  obtain k l c r where p: "t = plug k \<langle>l, (a, c, e), r\<rangle>" using entry_place [OF in_t] by blast
  have "rb_at h \<langle>l, (a, c, e), r\<rangle> k" using assms(1) rb_at_plug [of h "\<langle>l, (a, c, e), r\<rangle>" k] by (simp add: p rb_ok_def)
  then show "\<exists>n. mem h a = Some n \<and> elm n = e" by (auto simp: rb_at_def)
qed

text \<open>
  C17. In a revoke table in order, looking a block up finds its entry, if it has one, and counts the reference; and putting
  the entry back restores the handle exactly if nobody else held the entry.  An entry that was held is unlinked and freed by the
  put, because its test is the wrong way round, and the table is in order without it.
\<close>

theorem revoke_find_put_roundtrip:
  assumes "rb_ok revoke_key (jh_revoke_table handle) t"
  shows "case entry_of_block t b of
      None \<Rightarrow> jbd2_revoke_entry_find handle b = Some (handle, None)
    | Some (a, e) \<Rightarrow> \<exists>handle'. jbd2_revoke_entry_find handle b = Some (handle', Some a)
        \<and> entry_at handle' a = Some (re_header_update hdr_inc e)
        \<and> (if re_refcount e = 0 then jbd2_revoke_entry_put handle' (Some a) = Some handle
           else \<exists>h' t'. jbd2_revoke_entry_put handle' (Some a) = Some (handle\<lparr>jh_revoke_table := h'\<rparr>) \<and> rb_ok revoke_key h' t'
             \<and> entries t' = removeAll (a, e) (entries t) \<and> mem h' a = None
             \<and> (\<forall>c. c \<notin> addrs t \<longrightarrow> mem h' c = mem (jh_revoke_table handle) c))"
proof (cases "entry_of_block t b")
  case None
  then show ?thesis
    using revoke_find_lookup [OF assms, of b] entry_of_block_None [OF assms None] by (simp add: jbd2_revoke_entry_find_def)
next
  case (Some q)
  let ?h = "jh_revoke_table handle" and ?inc = "re_header_update hdr_inc"
  obtain a e where q: "q = (a, e)" by (cases q)
  note found = entry_of_block_Some [OF assms Some [unfolded q]]
  from found(3) obtain n where n: "mem ?h a = Some n" "elm n = e" by blast
  obtain h1 where h1: "set_elm ?h (Some a) ?inc = Some h1" "rb_ok revoke_key h1 (update_tree a ?inc t)"
    "\<forall>c. c \<notin> addrs t \<longrightarrow> mem h1 c = mem ?h c"
    using set_elm_ok [OF assms found(1), of ?inc] by auto
  have h1_eq: "h1 = ?h\<lparr>mem := (mem ?h)(a \<mapsto> n\<lparr>elm := ?inc e\<rparr>)\<rparr>" using h1(1) n by (simp add: set_elm_at)
  let ?handle = "handle\<lparr>jh_revoke_table := h1\<rparr>"
  have find: "jbd2_revoke_entry_find handle b = Some (?handle, Some a)"
    using revoke_find_lookup [OF assms, of b] found(2) h1(1) by (simp add: jbd2_revoke_entry_find_def)
  have at: "entry_at ?handle a = Some (?inc e)" by (simp add: entry_at_def h1_eq)
  obtain xs ys where es: "entries t = xs @ (a, e) # ys" using found(1) by (meson split_list)
  have d: "distinct (map fst (entries t))" using assms rb_at_distinct unfolding rb_ok_def by blast
  then have out: "a \<notin> fst ` set xs" "a \<notin> fst ` set ys" by (auto simp: es)
  show ?thesis
  proof (cases "re_refcount e = 0")
    case True
    let ?n = "n\<lparr>elm := ?inc e\<rparr>"
    have at1: "mem h1 a = Some ?n" by (simp add: h1_eq)
    have "re_refcount (elm ?n) = 1" using True re_inc(1) [of e] by simp
    from node_put_last [where refcount = re_refcount and set_refcount = re_set_refcount, OF at1 this] have
      put: "node_put re_refcount re_set_refcount h1 (Some a) = Some (h1\<lparr>mem := (mem h1)(a \<mapsto> ?n\<lparr>elm := re_set_refcount 0 (elm ?n)\<rparr>)\<rparr>)" .
    have "?n\<lparr>elm := re_set_refcount 0 (elm ?n)\<rparr> = n" using n(2) re_inc(2) [OF True] by (intro rb_node.equality) simp_all
    then have "h1\<lparr>mem := (mem h1)(a \<mapsto> ?n\<lparr>elm := re_set_refcount 0 (elm ?n)\<rparr>)\<rparr> = ?h"
      unfolding h1_eq using n(1) by (intro rb_table.equality) (simp_all only:, simp_all add: fun_upd_idem)
    then have "jbd2_revoke_entry_put ?handle (Some a) = Some handle"
      using put by (simp add: jbd2_revoke_entry_put_def)
    then show ?thesis unfolding Some q option.case prod.case if_P [OF True]
      by (intro exI [of _ ?handle] conjI [OF find conjI [OF at]])
  next
    case False
    have "entries (update_tree a ?inc t) = xs @ (a, ?inc e) # ys"
      by (simp add: es update_entry_id [OF out(1)] update_entry_id [OF out(2)])
    from node_put_ok [OF h1(2) this, of re_set_refcount re_refcount] re_inc(1) [of e] False obtain h' t'
      where p: "node_put re_refcount re_set_refcount h1 (Some a) = Some h'" "rb_ok revoke_key h' t'" "entries t' = xs @ ys"
        "mem h' a = None" "\<forall>c. c \<notin> addrs t \<longrightarrow> mem h' c = mem h1 c" by auto
    have "(a, e) \<notin> set xs" "(a, e) \<notin> set ys" using out by force+
    then have "removeAll (a, e) (entries t) = xs @ ys" by (simp add: es)
    moreover have "jbd2_revoke_entry_put ?handle (Some a) = Some (handle\<lparr>jh_revoke_table := h'\<rparr>)"
      using p(1) by (simp add: jbd2_revoke_entry_put_def)
    moreover have "\<forall>c. c \<notin> addrs t \<longrightarrow> mem h' c = mem ?h c" using p(5) h1(3) by simp
    ultimately have gone: "jbd2_revoke_entry_put ?handle (Some a) = Some (handle\<lparr>jh_revoke_table := h'\<rparr>) \<and> rb_ok revoke_key h' t'
        \<and> entries t' = removeAll (a, e) (entries t) \<and> mem h' a = None \<and> (\<forall>c. c \<notin> addrs t \<longrightarrow> mem h' c = mem ?h c)"
      using p(2-4) by (intro conjI) (simp_all only:)
    show ?thesis unfolding Some q option.case prod.case if_not_P [OF False]
      by (intro exI [of _ ?handle] exI [of _ h'] exI [of _ t'] conjI [OF find conjI [OF at]] gone)
  qed
qed

section \<open>Clearing the table\<close>

text \<open>The loop on the table: puts of entries that are still in the table, and nothing else.\<close>

lemma each_put:
  assumes "\<And>v x. key (set_rc v x) = key x"
  shows "rb_ok key h t \<Longrightarrow> entries t = xs @ es \<Longrightarrow>
    \<exists>h' t'. each (\<lambda>a h. node_put rc set_rc h (Some a)) (map fst es) h = Some h' \<and> rb_ok key h' t' \<and>
      entries t' = xs @ settled rc set_rc es \<and> (\<forall>(a, e) \<in> set es. rc e \<noteq> 1 \<longrightarrow> mem h' a = None) \<and>
      (\<forall>b. b \<notin> addrs t \<longrightarrow> mem h' b = mem h b)"
proof (induction es arbitrary: h t xs)
  case (Cons x es)
  obtain a e where x: "x = (a, e)" by (cases x)
  from node_put_ok [where rc = rc and set_rc = set_rc and key = key, OF Cons.prems(1) Cons.prems(2) [unfolded x] assms] obtain h1 t1
    where h1: "node_put rc set_rc h (Some a) = Some h1" "rb_ok key h1 t1"
      "entries t1 = xs @ settled rc set_rc [(a, e)] @ es" "rc e \<noteq> 1 \<longrightarrow> mem h1 a = None"
      "\<forall>b. b \<notin> addrs t \<longrightarrow> mem h1 b = mem h b" by blast
  have "entries t1 = (xs @ settled rc set_rc [(a, e)]) @ es" using h1(3) by simp
  from Cons.IH [OF h1(2) this] obtain h2 t2
    where h2: "each (\<lambda>a h. node_put rc set_rc h (Some a)) (map fst es) h1 = Some h2" "rb_ok key h2 t2"
      "entries t2 = (xs @ settled rc set_rc [(a, e)]) @ settled rc set_rc es"
      "\<forall>(a, e) \<in> set es. rc e \<noteq> 1 \<longrightarrow> mem h2 a = None" "\<forall>b. b \<notin> addrs t1 \<longrightarrow> mem h2 b = mem h1 b" by blast
  have "distinct (map fst (entries t))" using Cons.prems(1) rb_at_distinct unfolding rb_ok_def by blast
  then have "a \<notin> fst ` set xs" "a \<notin> fst ` set es" by (simp_all add: Cons.prems(2) x)
  then have sub: "addrs t1 \<subseteq> addrs t" "rc e \<noteq> 1 \<Longrightarrow> a \<notin> addrs t1"
    unfolding addrs_entries h1(3) Cons.prems(2) x by auto
  have "rc e \<noteq> 1 \<longrightarrow> mem h2 a = None" using sub(2) h1(4) h2(5) by simp
  moreover have "\<forall>b. b \<notin> addrs t \<longrightarrow> mem h2 b = mem h b" using h1(5) h2(5) sub(1) by auto
  moreover have "entries t2 = xs @ settled rc set_rc (x # es)" using h2(3) by (simp add: x)
  moreover have "each (\<lambda>a h. node_put rc set_rc h (Some a)) (map fst (x # es)) h = Some h2" using h1(1) h2(1) by (simp add: x)
  ultimately show ?case using h2(2,4) x by auto
qed auto

lemma put_removes:
  assumes "\<And>v x. key (set_rc v x) = key x"
    and put: "\<And>a s s'. body a s = Some s' \<Longrightarrow> node_put rc set_rc (tab s) (Some a) = Some (tab s')"
  shows "removes_at_most key tab body"
  unfolding removes_at_most_def
proof (intro allI impI)
  fix a s s' xs ys
  assume b: "body a s = Some s'" and l: "table_lists key (tab s) (xs @ a # ys)"
  from l obtain t where t: "rb_ok key (tab s) t" "map fst (entries t) = xs @ a # ys" by (auto simp: table_lists_def)
  from t(2) obtain us e vs where es: "entries t = us @ (a, e) # vs" "map fst us = xs" "map fst vs = ys"
    by (auto simp: map_eq_append_conv map_eq_Cons_conv)
  from node_put_ok [OF t(1) es(1), of set_rc rc] assms(1) put [OF b] obtain t'
    where "rb_ok key (tab s') t'" "entries t' = us @ settled rc set_rc [(a, e)] @ vs" by auto
  with es(2,3) show "table_lists key (tab s') (xs @ a # ys) \<or> table_lists key (tab s') (xs @ ys)"
    by (cases "rc e = 1") (auto simp: table_lists_def)
qed

text \<open>The handle is the state of the loop, its revoke table the table.\<close>

lemma each_in_handle:
  "each (\<lambda>re handle. jbd2_revoke_entry_put handle (Some re)) as handle =
   map_option (\<lambda>h'. handle\<lparr>jh_revoke_table := h'\<rparr>)
     (each (\<lambda>a h. node_put re_refcount re_set_refcount h (Some a)) as (jh_revoke_table handle))"
proof (induction "as" arbitrary: handle)
  case (Cons a as)
  have "jbd2_revoke_entry_put handle (Some a) = map_option (\<lambda>h'. handle\<lparr>jh_revoke_table := h'\<rparr>)
      (node_put re_refcount re_set_refcount (jh_revoke_table handle) (Some a))"
    by (simp add: jbd2_revoke_entry_put_def)
  then show ?case
    by (cases "node_put re_refcount re_set_refcount (jh_revoke_table handle) (Some a)") (simp_all add: Cons.IH)
qed simp

lemma clear_ok:
  assumes "rb_ok revoke_key (jh_revoke_table handle) t"
  shows "\<exists>h' t'. jbd2_revoke_table_clear handle = Some (handle\<lparr>jh_revoke_table := h'\<rparr>) \<and> rb_ok revoke_key h' t' \<and>
    entries t' = settled re_refcount re_set_refcount (entries t) \<and>
    (\<forall>(a, e) \<in> set (entries t). re_refcount e \<noteq> 1 \<longrightarrow> mem h' a = None) \<and>
    (\<forall>b. b \<notin> addrs t \<longrightarrow> mem h' b = mem (jh_revoke_table handle) b)"
proof -
  have "table_lists revoke_key (jh_revoke_table handle) (map fst (entries t))" using assms by (auto simp: table_lists_def)
  moreover have "removes_at_most revoke_key jh_revoke_table (\<lambda>re handle. jbd2_revoke_entry_put handle (Some re))"
    by (rule put_removes [where rc = re_refcount and set_rc = re_set_refcount]) (auto simp: jbd2_revoke_entry_put_def)
  ultimately have "jbd2_revoke_table_clear handle =
      each (\<lambda>re handle. jbd2_revoke_entry_put handle (Some re)) (map fst (entries t)) handle"
    unfolding jbd2_revoke_table_clear_def by (intro foreach_safe_each(1))
  moreover have "revoke_key (re_set_refcount v x) = revoke_key x" for v x by simp
  from each_put [where key = revoke_key and set_rc = re_set_refcount, OF this assms, of "[]" "entries t" re_refcount]
  have "\<exists>h' t'. each (\<lambda>a h. node_put re_refcount re_set_refcount h (Some a)) (map fst (entries t)) (jh_revoke_table handle) =
      Some h' \<and> rb_ok revoke_key h' t' \<and> entries t' = settled re_refcount re_set_refcount (entries t) \<and>
      (\<forall>(a, e) \<in> set (entries t). re_refcount e \<noteq> 1 \<longrightarrow> mem h' a = None) \<and>
      (\<forall>b. b \<notin> addrs t \<longrightarrow> mem h' b = mem (jh_revoke_table handle) b)" by simp
  ultimately show ?thesis unfolding each_in_handle by force
qed

text \<open>
  C8. \<open>jbd2_revoke_table_clear\<close> on a revoke table in order: it returns, and puts every entry once.  The
  entries with a reference count other than one, those at rest with zero among them, are unlinked and their
  memory is given back; the ones with a count of one stay in the table with a count of zero.  What is left is a
  table in order, and neither the rest of the handle nor the memory of other objects is touched.  A table
  whose entries are all at rest is empty afterwards.
\<close>

theorem jbd2_revoke_table_clear_correct:
  assumes "rb_ok revoke_key (jh_revoke_table handle) t"
  shows "\<exists>h' t'. jbd2_revoke_table_clear handle = Some (handle\<lparr>jh_revoke_table := h'\<rparr>) \<and> rb_ok revoke_key h' t' \<and>
    entries t' = map (\<lambda>(a, e). (a, re_set_refcount 0 e)) (filter (\<lambda>(a, e). re_refcount e = 1) (entries t)) \<and>
    (\<forall>(a, e) \<in> set (entries t). re_refcount e \<noteq> 1 \<longrightarrow> mem h' a = None) \<and>
    (\<forall>b. b \<notin> addrs t \<longrightarrow> mem h' b = mem (jh_revoke_table handle) b) \<and>
    ((\<forall>(a, e) \<in> set (entries t). re_refcount e = 0) \<longrightarrow> RB_EMPTY h')"
proof -
  from clear_ok [OF assms] obtain h' t'
    where c: "jbd2_revoke_table_clear handle = Some (handle\<lparr>jh_revoke_table := h'\<rparr>)" "rb_ok revoke_key h' t'"
      "entries t' = settled re_refcount re_set_refcount (entries t)"
      "\<forall>(a, e) \<in> set (entries t). re_refcount e \<noteq> 1 \<longrightarrow> mem h' a = None"
      "\<forall>b. b \<notin> addrs t \<longrightarrow> mem h' b = mem (jh_revoke_table handle) b" by blast
  have "RB_EMPTY h'" if "\<forall>(a, e) \<in> set (entries t). re_refcount e = 0"
  proof -
    have "entries t' = []" unfolding c(3) settled_def using that by (auto simp: filter_empty_conv)
    then show ?thesis using c(2) by (simp add: RB_EMPTY_def rb_ok_def rb_at_def)
  qed
  with c show ?thesis unfolding settled_def by blast
qed

text \<open>Two entries: the one at rest goes, the one that somebody holds stays.\<close>

definition held_entry :: jbd2_revoke_entry where
  "held_entry = re_header_update hdr_inc (stack_entry 9)"

definition two_revoked :: jbd2_handle where
  "two_revoked = example_handle 0 1024 8\<lparr>jh_revoke_table := \<lparr>rbh_root = Some 7, mem =
     [7 \<mapsto> \<lparr>rbe_left = None, rbe_right = Some 8, rbe_parent = None, rbe_color = RB_BLACK, elm = stack_entry 5\<rparr>,
      8 \<mapsto> \<lparr>rbe_left = None, rbe_right = None, rbe_parent = Some 7, rbe_color = RB_RED, elm = held_entry\<rparr>]\<rparr>\<rparr>"

lemma two_revoked_ok:
  "rb_ok revoke_key (jh_revoke_table two_revoked) \<langle>\<langle>\<rangle>, (7, RB_BLACK, stack_entry 5), \<langle>\<langle>\<rangle>, (8, RB_RED, held_entry), \<langle>\<rangle>\<rangle>\<rangle>"
  by (simp add: two_revoked_def rb_ok_def rb_at_def held_entry_def)

theorem jbd2_revoke_table_clear_correct_witness:
  "\<exists>h' t'. jbd2_revoke_table_clear two_revoked = Some (two_revoked\<lparr>jh_revoke_table := h'\<rparr>) \<and> rb_ok revoke_key h' t' \<and>
     entries t' = [(8, stack_entry 9)] \<and> mem h' 7 = None"
proof -
  have e: "re_refcount (stack_entry 5) = 0" "re_refcount held_entry = 1" "re_set_refcount 0 held_entry = stack_entry 9"
    by (simp_all add: held_entry_def stack_entry_def hdr_inc_def hdr_set_refcount_def drv_atomic_inc_def InterlockedIncrement_def)
  from jbd2_revoke_table_clear_correct [OF two_revoked_ok] obtain h' t'
    where "jbd2_revoke_table_clear two_revoked = Some (two_revoked\<lparr>jh_revoke_table := h'\<rparr>)" "rb_ok revoke_key h' t'"
      "entries t' = [(8, stack_entry 9)]" "mem h' 7 = None" by (simp add: e split: if_splits) (elim exE conjE, rule that)
  then show ?thesis by blast
qed

text \<open>The entry at rest, of block 5, comes back as it was; the held one, of block 9, is gone.\<close>

theorem revoke_find_put_roundtrip_witness:
  "(\<exists>handle'. jbd2_revoke_entry_find two_revoked 5 = Some (handle', Some 7) \<and> jbd2_revoke_entry_put handle' (Some 7) = Some two_revoked)
   \<and> (\<exists>handle' h'. jbd2_revoke_entry_find two_revoked 9 = Some (handle', Some 8)
        \<and> jbd2_revoke_entry_put handle' (Some 8) = Some (two_revoked\<lparr>jh_revoke_table := h'\<rparr>) \<and> mem h' 8 = None)"
proof -
  let ?t = "\<langle>\<langle>\<rangle>, (7, RB_BLACK, stack_entry 5), \<langle>\<langle>\<rangle>, (8, RB_RED, held_entry), \<langle>\<rangle>\<rangle>\<rangle>"
  have e: "entry_of_block ?t 5 = Some (7, stack_entry 5)" "entry_of_block ?t 9 = Some (8, held_entry)"
    "re_refcount (stack_entry 5) = 0" "re_refcount held_entry = 1"
    by (simp_all add: entry_of_block_def held_entry_def stack_entry_def hdr_inc_def drv_atomic_inc_def InterlockedIncrement_def)
  show ?thesis
    using revoke_find_put_roundtrip [OF two_revoked_ok, of 5] revoke_find_put_roundtrip [OF two_revoked_ok, of 9]
    by (fastforce simp: e)
qed

end
