(* ===== verification/Drv_Splay.thy ===== *)
theory Drv_Splay
  imports Drv_Tree_Search
begin

text \<open>
  \<open>include/drv_common/drv_tree.h\<close>, the splay trees that the \<open>SPLAY_*\<close> macros generate, on a heap of
  nodes as in \<open>Drv_Tree\<close>: following a null pointer and not returning are both \<open>None\<close>.

  \<open>SPLAY\<close> works top-down.  It hangs the nodes smaller than the one it looks for on \<open>__left\<close>, the larger
  ones on \<open>__right\<close>, and both trees on the two links of \<open>__node\<close>, which lives on the stack.  A pointer that may
  point to \<open>__node\<close> is a \<open>splay_place\<close>, and a \<open>splay_run\<close> holds the local variables of the loop.
\<close>

section \<open>Nodes and fields\<close>

record 'a splay_node =
  spe_left :: "ptr option"
  spe_right :: "ptr option"
  sp_elm :: 'a

record 'a splay_head =
  sph_root :: "ptr option"
  sp_mem :: "ptr \<rightharpoonup> 'a splay_node"

definition SPLAY_INIT :: "'a splay_head \<Rightarrow> 'a splay_head" where
  "SPLAY_INIT h = h\<lparr>sph_root := None\<rparr>"

definition SPLAY_EMPTY :: "'a splay_head \<Rightarrow> bool" where
  "SPLAY_EMPTY h \<longleftrightarrow> sph_root h = None"

definition SPLAY_LEFT :: "'a splay_head \<Rightarrow> ptr option \<Rightarrow> ptr option option" where
  "SPLAY_LEFT h p = map_option spe_left (deref (sp_mem h) p)"

definition SPLAY_RIGHT :: "'a splay_head \<Rightarrow> ptr option \<Rightarrow> ptr option option" where
  "SPLAY_RIGHT h p = map_option spe_right (deref (sp_mem h) p)"

definition SPLAY_ELM :: "'a splay_head \<Rightarrow> ptr option \<Rightarrow> 'a option" where
  "SPLAY_ELM h p = map_option sp_elm (deref (sp_mem h) p)"

definition set_spe_left :: "'a splay_head \<Rightarrow> ptr option \<Rightarrow> ptr option \<Rightarrow> 'a splay_head option" where
  "set_spe_left h p v = map_option (\<lambda>m. h\<lparr>sp_mem := m\<rparr>) (modify (sp_mem h) p (\<lambda>n. n\<lparr>spe_left := v\<rparr>))"

definition set_spe_right :: "'a splay_head \<Rightarrow> ptr option \<Rightarrow> ptr option \<Rightarrow> 'a splay_head option" where
  "set_spe_right h p v = map_option (\<lambda>m. h\<lparr>sp_mem := m\<rparr>) (modify (sp_mem h) p (\<lambda>n. n\<lparr>spe_right := v\<rparr>))"

section \<open>Rotating, linking and assembling\<close>

definition SPLAY_ROTATE_RIGHT :: "'a splay_head \<Rightarrow> ptr option \<Rightarrow> 'a splay_head option" where
  "SPLAY_ROTATE_RIGHT h tmp = do {
     r \<leftarrow> SPLAY_RIGHT h tmp;
     h \<leftarrow> set_spe_left h (sph_root h) r;
     h \<leftarrow> set_spe_right h tmp (sph_root h);
     Some (h\<lparr>sph_root := tmp\<rparr>) }"

definition SPLAY_ROTATE_LEFT :: "'a splay_head \<Rightarrow> ptr option \<Rightarrow> 'a splay_head option" where
  "SPLAY_ROTATE_LEFT h tmp = do {
     l \<leftarrow> SPLAY_LEFT h tmp;
     h \<leftarrow> set_spe_right h (sph_root h) l;
     h \<leftarrow> set_spe_left h tmp (sph_root h);
     Some (h\<lparr>sph_root := tmp\<rparr>) }"

datatype splay_place = Stack_node | Heap_node ptr

record 'a splay_run =
  run_head :: "'a splay_head"
  node_left :: "ptr option"
  node_right :: "ptr option"
  run_left :: splay_place
  run_right :: splay_place

definition put_left :: "'a splay_run \<Rightarrow> splay_place \<Rightarrow> ptr option \<Rightarrow> 'a splay_run option" where
  "put_left s pl v =
     (case pl of
        Stack_node \<Rightarrow> Some (s\<lparr>node_left := v\<rparr>)
      | Heap_node a \<Rightarrow> map_option (\<lambda>h. s\<lparr>run_head := h\<rparr>) (set_spe_left (run_head s) (Some a) v))"

definition put_right :: "'a splay_run \<Rightarrow> splay_place \<Rightarrow> ptr option \<Rightarrow> 'a splay_run option" where
  "put_right s pl v =
     (case pl of
        Stack_node \<Rightarrow> Some (s\<lparr>node_right := v\<rparr>)
      | Heap_node a \<Rightarrow> map_option (\<lambda>h. s\<lparr>run_head := h\<rparr>) (set_spe_right (run_head s) (Some a) v))"

text \<open>\<open>tmp\<close> of these two macros is \<open>__right\<close> and \<open>__left\<close>.\<close>

definition SPLAY_LINKLEFT :: "'a splay_run \<Rightarrow> 'a splay_run option" where
  "SPLAY_LINKLEFT s = do {
     s \<leftarrow> put_left s (run_right s) (sph_root (run_head s));
     a \<leftarrow> sph_root (run_head s);
     l \<leftarrow> SPLAY_LEFT (run_head s) (Some a);
     Some (s\<lparr>run_right := Heap_node a, run_head := (run_head s)\<lparr>sph_root := l\<rparr>\<rparr>) }"

definition SPLAY_LINKRIGHT :: "'a splay_run \<Rightarrow> 'a splay_run option" where
  "SPLAY_LINKRIGHT s = do {
     s \<leftarrow> put_right s (run_left s) (sph_root (run_head s));
     a \<leftarrow> sph_root (run_head s);
     r \<leftarrow> SPLAY_RIGHT (run_head s) (Some a);
     Some (s\<lparr>run_left := Heap_node a, run_head := (run_head s)\<lparr>sph_root := r\<rparr>\<rparr>) }"

definition SPLAY_ASSEMBLE :: "'a splay_run \<Rightarrow> 'a splay_head option" where
  "SPLAY_ASSEMBLE s = do {
     l \<leftarrow> SPLAY_LEFT (run_head s) (sph_root (run_head s));
     s \<leftarrow> put_right s (run_left s) l;
     r \<leftarrow> SPLAY_RIGHT (run_head s) (sph_root (run_head s));
     s \<leftarrow> put_left s (run_right s) r;
     h \<leftarrow> set_spe_left (run_head s) (sph_root (run_head s)) (node_right s);
     set_spe_right h (sph_root h) (node_left s) }"

section \<open>Splaying\<close>

text \<open>
  The two halves of an iteration, for a node below the root and for one above.  \<open>test\<close> is the
  comparison with the child \<open>__tmp\<close>.  The result says whether the loop goes on.
\<close>

definition splay_down_left :: "('a splay_head \<Rightarrow> ptr option \<Rightarrow> bool option) \<Rightarrow> 'a splay_run \<Rightarrow> ('a splay_run \<times> bool) option" where
  "splay_down_left test s = do {
     tmp \<leftarrow> SPLAY_LEFT (run_head s) (sph_root (run_head s));
     if tmp = None then Some (s, False)
     else do {
       b \<leftarrow> test (run_head s) tmp;
       if b then do {
         h \<leftarrow> SPLAY_ROTATE_RIGHT (run_head s) tmp;
         l \<leftarrow> SPLAY_LEFT h (sph_root h);
         s \<leftarrow> Some (s\<lparr>run_head := h\<rparr>);
         if l = None then Some (s, False)
         else do { s \<leftarrow> SPLAY_LINKLEFT s; Some (s, True) } }
       else do { s \<leftarrow> SPLAY_LINKLEFT s; Some (s, True) } } }"

definition splay_down_right :: "('a splay_head \<Rightarrow> ptr option \<Rightarrow> bool option) \<Rightarrow> 'a splay_run \<Rightarrow> ('a splay_run \<times> bool) option" where
  "splay_down_right test s = do {
     tmp \<leftarrow> SPLAY_RIGHT (run_head s) (sph_root (run_head s));
     if tmp = None then Some (s, False)
     else do {
       b \<leftarrow> test (run_head s) tmp;
       if b then do {
         h \<leftarrow> SPLAY_ROTATE_LEFT (run_head s) tmp;
         r \<leftarrow> SPLAY_RIGHT h (sph_root h);
         s \<leftarrow> Some (s\<lparr>run_head := h\<rparr>);
         if r = None then Some (s, False)
         else do { s \<leftarrow> SPLAY_LINKRIGHT s; Some (s, True) } }
       else do { s \<leftarrow> SPLAY_LINKRIGHT s; Some (s, True) } } }"

definition splay_step :: "('a \<Rightarrow> 'a \<Rightarrow> int) \<Rightarrow> 'a \<Rightarrow> 'a splay_run \<Rightarrow> ('a splay_run \<times> bool) option" where
  "splay_step cmp x s = do {
     e \<leftarrow> SPLAY_ELM (run_head s) (sph_root (run_head s));
     if cmp x e = 0 then Some (s, False)
     else if cmp x e < 0 then splay_down_left (\<lambda>h tmp. map_option (\<lambda>e. cmp x e < 0) (SPLAY_ELM h tmp)) s
     else splay_down_right (\<lambda>h tmp. map_option (\<lambda>e. cmp x e > 0) (SPLAY_ELM h tmp)) s }"

definition splay_minmax_step :: "int \<Rightarrow> 'a splay_run \<Rightarrow> ('a splay_run \<times> bool) option" where
  "splay_minmax_step val s =
     (if val < 0 then splay_down_left (\<lambda>h tmp. Some (val < 0)) s
      else if val > 0 then splay_down_right (\<lambda>h tmp. Some (val > 0)) s
      else Some (s, True))"

partial_function (option) splay_loop :: "('a splay_run \<Rightarrow> ('a splay_run \<times> bool) option) \<Rightarrow> 'a splay_run \<Rightarrow> 'a splay_run option" where
  "splay_loop step s = do {
     r \<leftarrow> step s;
     if snd r then splay_loop step (fst r) else Some (fst r) }"

definition splay_start :: "'a splay_head \<Rightarrow> 'a splay_run" where
  "splay_start h = \<lparr>run_head = h, node_left = None, node_right = None, run_left = Stack_node, run_right = Stack_node\<rparr>"

definition SPLAY :: "('a \<Rightarrow> 'a \<Rightarrow> int) \<Rightarrow> 'a splay_head \<Rightarrow> 'a \<Rightarrow> 'a splay_head option" where
  "SPLAY cmp h x = do { s \<leftarrow> splay_loop (splay_step cmp x) (splay_start h); SPLAY_ASSEMBLE s }"

definition SPLAY_MINMAX :: "'a splay_head \<Rightarrow> int \<Rightarrow> 'a splay_head option" where
  "SPLAY_MINMAX h val = do { s \<leftarrow> splay_loop (splay_minmax_step val) (splay_start h); SPLAY_ASSEMBLE s }"

section \<open>The operations\<close>

definition SPLAY_FIND :: "('a \<Rightarrow> 'a \<Rightarrow> int) \<Rightarrow> 'a splay_head \<Rightarrow> 'a \<Rightarrow> ('a splay_head \<times> ptr option) option" where
  "SPLAY_FIND cmp h x =
     (if SPLAY_EMPTY h then Some (h, None)
      else do {
        h \<leftarrow> SPLAY cmp h x;
        e \<leftarrow> SPLAY_ELM h (sph_root h);
        Some (h, if cmp x e = 0 then sph_root h else None) })"

partial_function (option) splay_leftmost :: "'a splay_head \<Rightarrow> ptr option \<Rightarrow> ptr option option" where
  "splay_leftmost h p = do {
     l \<leftarrow> SPLAY_LEFT h p;
     if l \<noteq> None then splay_leftmost h l else Some p }"

definition SPLAY_NEXT :: "('a \<Rightarrow> 'a \<Rightarrow> int) \<Rightarrow> 'a splay_head \<Rightarrow> ptr option \<Rightarrow> ('a splay_head \<times> ptr option) option" where
  "SPLAY_NEXT cmp h p = do {
     x \<leftarrow> SPLAY_ELM h p;
     h \<leftarrow> SPLAY cmp h x;
     r \<leftarrow> SPLAY_RIGHT h p;
     if r \<noteq> None then do { q \<leftarrow> splay_leftmost h r; Some (h, q) }
     else Some (h, None) }"

definition SPLAY_MIN_MAX :: "'a splay_head \<Rightarrow> int \<Rightarrow> ('a splay_head \<times> ptr option) option" where
  "SPLAY_MIN_MAX h val = do { h \<leftarrow> SPLAY_MINMAX h val; Some (h, sph_root h) }"

definition SPLAY_MIN :: "'a splay_head \<Rightarrow> ('a splay_head \<times> ptr option) option" where
  "SPLAY_MIN h = (if SPLAY_EMPTY h then Some (h, None) else SPLAY_MIN_MAX h (- 1))"

definition SPLAY_MAX :: "'a splay_head \<Rightarrow> ('a splay_head \<times> ptr option) option" where
  "SPLAY_MAX h = (if SPLAY_EMPTY h then Some (h, None) else SPLAY_MIN_MAX h 1)"

definition SPLAY_INSERT :: "('a \<Rightarrow> 'a \<Rightarrow> int) \<Rightarrow> 'a splay_head \<Rightarrow> ptr option \<Rightarrow> ('a splay_head \<times> ptr option) option" where
  "SPLAY_INSERT cmp h p =
     (if SPLAY_EMPTY h then do {
        h \<leftarrow> set_spe_right h p None;
        h \<leftarrow> set_spe_left h p None;
        Some (h\<lparr>sph_root := p\<rparr>, None) }
      else do {
        x \<leftarrow> SPLAY_ELM h p;
        h \<leftarrow> SPLAY cmp h x;
        e \<leftarrow> SPLAY_ELM h (sph_root h);
        if cmp x e < 0 then do {
          l \<leftarrow> SPLAY_LEFT h (sph_root h);
          h \<leftarrow> set_spe_left h p l;
          h \<leftarrow> set_spe_right h p (sph_root h);
          h \<leftarrow> set_spe_left h (sph_root h) None;
          Some (h\<lparr>sph_root := p\<rparr>, None) }
        else if cmp x e > 0 then do {
          r \<leftarrow> SPLAY_RIGHT h (sph_root h);
          h \<leftarrow> set_spe_right h p r;
          h \<leftarrow> set_spe_left h p (sph_root h);
          h \<leftarrow> set_spe_right h (sph_root h) None;
          Some (h\<lparr>sph_root := p\<rparr>, None) }
        else Some (h, sph_root h) })"

definition SPLAY_REMOVE :: "('a \<Rightarrow> 'a \<Rightarrow> int) \<Rightarrow> 'a splay_head \<Rightarrow> ptr option \<Rightarrow> ('a splay_head \<times> ptr option) option" where
  "SPLAY_REMOVE cmp h p =
     (if SPLAY_EMPTY h then Some (h, None)
      else do {
        x \<leftarrow> SPLAY_ELM h p;
        h \<leftarrow> SPLAY cmp h x;
        e \<leftarrow> SPLAY_ELM h (sph_root h);
        if cmp x e = 0 then do {
          l \<leftarrow> SPLAY_LEFT h (sph_root h);
          r \<leftarrow> SPLAY_RIGHT h (sph_root h);
          h \<leftarrow> (if l = None then Some (h\<lparr>sph_root := r\<rparr>)
                else do {
                  h \<leftarrow> SPLAY cmp (h\<lparr>sph_root := l\<rparr>) x;
                  set_spe_right h (sph_root h) r });
          Some (h, p) }
        else Some (h, None) })"

text \<open>\<open>SPLAY_FOREACH\<close> around a statement that works on the table and the rest of the state.\<close>

partial_function (option) splay_walk :: "('a \<Rightarrow> 'a \<Rightarrow> int) \<Rightarrow> (ptr \<Rightarrow> 'a splay_head \<times> 's \<Rightarrow> ('a splay_head \<times> 's) option)
    \<Rightarrow> ptr option \<Rightarrow> 'a splay_head \<times> 's \<Rightarrow> ('a splay_head \<times> 's) option" where
  "splay_walk cmp body x s =
     (case x of
        None \<Rightarrow> Some s
      | Some a \<Rightarrow> do {
          s \<leftarrow> body a s;
          r \<leftarrow> SPLAY_NEXT cmp (fst s) x;
          splay_walk cmp body (snd r) (fst r, snd s) })"

definition SPLAY_FOREACH :: "('a \<Rightarrow> 'a \<Rightarrow> int) \<Rightarrow> (ptr \<Rightarrow> 'a splay_head \<times> 's \<Rightarrow> ('a splay_head \<times> 's) option)
    \<Rightarrow> 'a splay_head \<times> 's \<Rightarrow> ('a splay_head \<times> 's) option" where
  "SPLAY_FOREACH cmp body s = do {
     r \<leftarrow> SPLAY_MIN (fst s);
     splay_walk cmp body (snd r) (fst r, snd s) }"

declare splay_loop.simps [code]
declare splay_leftmost.simps [code]
declare splay_walk.simps [code]

end
