(* ===== verification/Drv_Splay_Loop.thy ===== *)
theory Drv_Splay_Loop
  imports Drv_Splay Drv_Tree_Walk
begin

text \<open>
  \<open>SPLAY\<close>: the heap below the head is a binary tree, whose inorder traversal is the list of the table's
  entries, and splaying keeps that list and brings the entry searched for, or a neighbour of it, to the root.
\<close>

section \<open>The heap as a tree\<close>

type_synonym 'a spt = "(ptr \<times> 'a) tree"

fun sp_ptr :: "'a spt \<Rightarrow> ptr option" where
  "sp_ptr \<langle>\<rangle> = None"
| "sp_ptr \<langle>l, (a, e), r\<rangle> = Some a"

fun sp_heap :: "(ptr \<rightharpoonup> 'a splay_node) \<Rightarrow> 'a spt \<Rightarrow> bool" where
  "sp_heap m \<langle>\<rangle> \<longleftrightarrow> True"
| "sp_heap m \<langle>l, (a, e), r\<rangle> \<longleftrightarrow>
     m a = Some \<lparr>spe_left = sp_ptr l, spe_right = sp_ptr r, sp_elm = e\<rparr> \<and> sp_heap m l \<and> sp_heap m r"

definition sp_addrs :: "(ptr \<times> 'a) list \<Rightarrow> ptr set" where
  "sp_addrs es = fst ` set es"

lemma sp_addrs_simps [simp]:
  "sp_addrs [] = {}" "sp_addrs ((a, e) # es) = insert a (sp_addrs es)" "sp_addrs (xs @ ys) = sp_addrs xs \<union> sp_addrs ys"
  by (auto simp: sp_addrs_def)

lemma sp_ptr_None [simp]: "sp_ptr t = None \<longleftrightarrow> t = \<langle>\<rangle>"
  by (cases t rule: sp_ptr.cases) auto

lemma None_sp_ptr [simp]: "None = sp_ptr t \<longleftrightarrow> t = \<langle>\<rangle>"
  by (cases t rule: sp_ptr.cases) auto

lemma sp_heap_upd [simp]: "a \<notin> sp_addrs (inorder t) \<Longrightarrow> sp_heap (m(a := x)) t = sp_heap m t"
  by (induction m t rule: sp_heap.induct) auto

text \<open>
  The trees on \<open>__left\<close> and \<open>__right\<close>, the node added last first: each node with the subtree it took along.
  \<open>v\<close> is what the link at the end of the chain holds.
\<close>

type_synonym 'a chain = "(ptr \<times> 'a \<times> 'a spt) list"

fun left_chain :: "(ptr \<rightharpoonup> 'a splay_node) \<Rightarrow> ptr option \<Rightarrow> ptr option \<Rightarrow> 'a chain \<Rightarrow> bool" where
  "left_chain m q v [] \<longleftrightarrow> q = v"
| "left_chain m q v ((a, e, t) # ls) \<longleftrightarrow>
     m a = Some \<lparr>spe_left = sp_ptr t, spe_right = v, sp_elm = e\<rparr> \<and> sp_heap m t \<and> left_chain m q (Some a) ls"

fun right_chain :: "(ptr \<rightharpoonup> 'a splay_node) \<Rightarrow> ptr option \<Rightarrow> ptr option \<Rightarrow> 'a chain \<Rightarrow> bool" where
  "right_chain m q v [] \<longleftrightarrow> q = v"
| "right_chain m q v ((a, e, t) # rs) \<longleftrightarrow>
     m a = Some \<lparr>spe_left = v, spe_right = sp_ptr t, sp_elm = e\<rparr> \<and> sp_heap m t \<and> right_chain m q (Some a) rs"

fun lefts :: "'a chain \<Rightarrow> (ptr \<times> 'a) list" where
  "lefts [] = []"
| "lefts ((a, e, t) # ls) = lefts ls @ inorder t @ [(a, e)]"

fun rights :: "'a chain \<Rightarrow> (ptr \<times> 'a) list" where
  "rights [] = []"
| "rights ((a, e, t) # rs) = (a, e) # inorder t @ rights rs"

fun chain_end :: "'a chain \<Rightarrow> splay_place" where
  "chain_end [] = Stack_node"
| "chain_end ((a, e, t) # c) = Heap_node a"

fun hang_left :: "'a chain \<Rightarrow> 'a spt \<Rightarrow> 'a spt" where
  "hang_left [] s = s"
| "hang_left ((a, e, t) # ls) s = hang_left ls \<langle>t, (a, e), s\<rangle>"

fun hang_right :: "'a chain \<Rightarrow> 'a spt \<Rightarrow> 'a spt" where
  "hang_right [] s = s"
| "hang_right ((a, e, t) # rs) s = hang_right rs \<langle>s, (a, e), t\<rangle>"

lemma inorder_hang_left [simp]: "inorder (hang_left ls s) = lefts ls @ inorder s"
  by (induction ls s rule: hang_left.induct) simp_all

lemma inorder_hang_right [simp]: "inorder (hang_right rs s) = inorder s @ rights rs"
  by (induction rs s rule: hang_right.induct) simp_all

lemma sp_heap_frame: "(\<And>b. b \<in> sp_addrs (inorder t) \<Longrightarrow> m' b = m b) \<Longrightarrow> sp_heap m' t = sp_heap m t"
  by (induction m t rule: sp_heap.induct) auto

lemma left_chain_frame:
  "(\<And>b. b \<in> sp_addrs (lefts ls) \<Longrightarrow> m' b = m b) \<Longrightarrow> left_chain m' q v ls = left_chain m q v ls"
  by (induction m q v ls rule: left_chain.induct) (auto simp: sp_heap_frame [of _ m'])

lemma right_chain_frame:
  "(\<And>b. b \<in> sp_addrs (rights rs) \<Longrightarrow> m' b = m b) \<Longrightarrow> right_chain m' q v rs = right_chain m q v rs"
  by (induction m q v rs rule: right_chain.induct) (auto simp: sp_heap_frame [of _ m'])

lemma left_chain_upd [simp]: "a \<notin> sp_addrs (lefts ls) \<Longrightarrow> left_chain (m(a := x)) q v ls = left_chain m q v ls"
  by (rule left_chain_frame) auto

lemma right_chain_upd [simp]: "a \<notin> sp_addrs (rights rs) \<Longrightarrow> right_chain (m(a := x)) q v rs = right_chain m q v rs"
  by (rule right_chain_frame) auto

lemma hang_left_heap:
  "left_chain m q (sp_ptr s) ls \<Longrightarrow> sp_heap m s \<Longrightarrow> sp_heap m (hang_left ls s) \<and> q = sp_ptr (hang_left ls s)"
  by (induction ls s rule: hang_left.induct) simp_all

lemma hang_right_heap:
  "right_chain m q (sp_ptr s) rs \<Longrightarrow> sp_heap m s \<Longrightarrow> sp_heap m (hang_right rs s) \<and> q = sp_ptr (hang_right rs s)"
  by (induction rs s rule: hang_right.induct) simp_all

section \<open>The invariant of the loop\<close>

definition splay_inv :: "(ptr \<rightharpoonup> 'a splay_node) \<Rightarrow> (ptr \<times> 'a) list \<Rightarrow> 'a splay_run \<Rightarrow> 'a chain \<Rightarrow> 'a spt \<Rightarrow> 'a chain \<Rightarrow> bool" where
  "splay_inv m0 es s ls t rs \<longleftrightarrow> sph_root (run_head s) = sp_ptr t \<and> sp_heap (sp_mem (run_head s)) t \<and> t \<noteq> \<langle>\<rangle> \<and>
     (\<exists>v. left_chain (sp_mem (run_head s)) (node_right s) v ls) \<and> run_left s = chain_end ls \<and>
     (\<exists>v. right_chain (sp_mem (run_head s)) (node_left s) v rs) \<and> run_right s = chain_end rs \<and>
     lefts ls @ inorder t @ rights rs = es \<and> distinct (map fst es) \<and>
     (\<forall>b. b \<notin> sp_addrs es \<longrightarrow> sp_mem (run_head s) b = m0 b)"

lemmas splay_access = SPLAY_LEFT_def SPLAY_RIGHT_def SPLAY_ELM_def set_spe_left_def set_spe_right_def

text \<open>The link at the end of a chain is set.\<close>

lemma put_left_chain:
  assumes "right_chain (sp_mem (run_head s)) (node_left s) v rs" "distinct (map fst (rights rs))"
  shows "\<exists>m p. put_left s (chain_end rs) w = Some (s\<lparr>run_head := (run_head s)\<lparr>sp_mem := m\<rparr>, node_left := p\<rparr>) \<and>
    right_chain m p w rs \<and> (\<forall>b. b \<notin> sp_addrs (rights rs) \<longrightarrow> m b = sp_mem (run_head s) b)"
proof (cases rs rule: rights.cases)
  case 1
  then show ?thesis by (intro exI [of _ "sp_mem (run_head s)"] exI [of _ w]) (simp add: put_left_def)
next
  case (2 a e t rs')
  let ?m = "(sp_mem (run_head s))(a \<mapsto> \<lparr>spe_left = w, spe_right = sp_ptr t, sp_elm = e\<rparr>)"
  have "put_left s (chain_end rs) w = Some (s\<lparr>run_head := (run_head s)\<lparr>sp_mem := ?m\<rparr>, node_left := node_left s\<rparr>)"
    using assms(1) by (simp add: 2 put_left_def splay_access)
  moreover have "right_chain ?m (node_left s) w rs"
  proof -
    have "a \<notin> sp_addrs (inorder t)" "a \<notin> sp_addrs (rights rs')" using assms(2) by (auto simp: 2 sp_addrs_def)
    then show ?thesis using assms(1) by (simp add: 2 right_chain_frame [where m' = ?m and m = "sp_mem (run_head s)"])
  qed
  ultimately show ?thesis by (intro exI [of _ ?m] exI [of _ "node_left s"]) (simp add: 2)
qed

lemma put_right_chain:
  assumes "left_chain (sp_mem (run_head s)) (node_right s) v ls" "distinct (map fst (lefts ls))"
  shows "\<exists>m p. put_right s (chain_end ls) w = Some (s\<lparr>run_head := (run_head s)\<lparr>sp_mem := m\<rparr>, node_right := p\<rparr>) \<and>
    left_chain m p w ls \<and> (\<forall>b. b \<notin> sp_addrs (lefts ls) \<longrightarrow> m b = sp_mem (run_head s) b)"
proof (cases ls rule: lefts.cases)
  case 1
  then show ?thesis by (intro exI [of _ "sp_mem (run_head s)"] exI [of _ w]) (simp add: put_right_def)
next
  case (2 a e t ls')
  let ?m = "(sp_mem (run_head s))(a \<mapsto> \<lparr>spe_left = sp_ptr t, spe_right = w, sp_elm = e\<rparr>)"
  have "put_right s (chain_end ls) w = Some (s\<lparr>run_head := (run_head s)\<lparr>sp_mem := ?m\<rparr>, node_right := node_right s\<rparr>)"
    using assms(1) by (simp add: 2 put_right_def splay_access)
  moreover have "left_chain ?m (node_right s) w ls"
  proof -
    have "a \<notin> sp_addrs (inorder t)" "a \<notin> sp_addrs (lefts ls')" using assms(2) by (auto simp: 2 sp_addrs_def)
    then show ?thesis using assms(1) by (simp add: 2 left_chain_frame [where m' = ?m and m = "sp_mem (run_head s)"])
  qed
  ultimately show ?thesis by (intro exI [of _ ?m] exI [of _ "node_right s"]) (simp add: 2)
qed

lemma distinct_parts:
  assumes "distinct (map fst (xs @ ys @ zs))"
  shows "distinct (map fst xs)" "distinct (map fst ys)" "distinct (map fst zs)"
    "sp_addrs xs \<inter> sp_addrs ys = {}" "sp_addrs xs \<inter> sp_addrs zs = {}" "sp_addrs ys \<inter> sp_addrs zs = {}"
  using assms unfolding sp_addrs_def by auto

lemma link_left_ok:
  assumes "splay_inv m0 es s ls \<langle>T, (a, e), C\<rangle> rs" "T \<noteq> \<langle>\<rangle>"
  shows "\<exists>s'. SPLAY_LINKLEFT s = Some s' \<and> splay_inv m0 es s' ls T ((a, e, C) # rs)"
proof -
  note inv = assms(1) [unfolded splay_inv_def]
  obtain v where v: "right_chain (sp_mem (run_head s)) (node_left s) v rs" using inv by blast
  have d: "distinct (map fst (lefts ls @ inorder \<langle>T, (a, e), C\<rangle> @ rights rs))" using inv by blast
  note d = distinct_parts [OF d]
  from put_left_chain [OF v d(3), of "Some a"] obtain m p
    where m: "put_left s (chain_end rs) (Some a) = Some (s\<lparr>run_head := (run_head s)\<lparr>sp_mem := m\<rparr>, node_left := p\<rparr>)"
      "right_chain m p (Some a) rs" "\<forall>b. b \<notin> sp_addrs (rights rs) \<longrightarrow> m b = sp_mem (run_head s) b" by blast
  have mt: "m b = sp_mem (run_head s) b" if "b \<in> sp_addrs (inorder \<langle>T, (a, e), C\<rangle>)" for b using m(3) d(6) that by blast
  have h: "sp_heap m \<langle>T, (a, e), C\<rangle>" using inv sp_heap_frame [of "\<langle>T, (a, e), C\<rangle>" m] mt by blast
  have "left_chain m q v ls = left_chain (sp_mem (run_head s)) q v ls" for q v
    using m(3) d(5) by (intro left_chain_frame) blast
  moreover have "\<forall>b. b \<notin> sp_addrs es \<longrightarrow> m b = m0 b" using inv m(3) by auto
  ultimately show ?thesis
    using inv m(1,2) h assms(2) by (auto simp: SPLAY_LINKLEFT_def splay_access splay_inv_def)
qed

lemma rotate_right_ok:
  assumes "splay_inv m0 es s ls \<langle>\<langle>A, (b, f), B\<rangle>, (a, e), C\<rangle> rs"
  shows "\<exists>h. SPLAY_ROTATE_RIGHT (run_head s) (Some b) = Some h \<and>
    splay_inv m0 es (s\<lparr>run_head := h\<rparr>) ls \<langle>A, (b, f), \<langle>B, (a, e), C\<rangle>\<rangle> rs"
proof -
  note inv = assms [unfolded splay_inv_def]
  have d: "distinct (map fst (lefts ls @ inorder \<langle>\<langle>A, (b, f), B\<rangle>, (a, e), C\<rangle> @ rights rs))" using inv by blast
  have ab: "a \<noteq> b" "a \<notin> sp_addrs (inorder A)" "b \<notin> sp_addrs (inorder A)" "a \<notin> sp_addrs (inorder B)"
    "b \<notin> sp_addrs (inorder B)" "a \<notin> sp_addrs (inorder C)" "b \<notin> sp_addrs (inorder C)"
    "a \<notin> sp_addrs (lefts ls)" "b \<notin> sp_addrs (lefts ls)" "a \<notin> sp_addrs (rights rs)" "b \<notin> sp_addrs (rights rs)"
    "a \<in> sp_addrs es" "b \<in> sp_addrs es"
    using d inv by (auto simp: sp_addrs_def)
  let ?m = "(sp_mem (run_head s))(a \<mapsto> \<lparr>spe_left = sp_ptr B, spe_right = sp_ptr C, sp_elm = e\<rparr>,
    b \<mapsto> \<lparr>spe_left = sp_ptr A, spe_right = Some a, sp_elm = f\<rparr>)"
  have "SPLAY_ROTATE_RIGHT (run_head s) (Some b) = Some (\<lparr>sph_root = Some b, sp_mem = ?m\<rparr>)"
    using inv ab(1) by (simp add: SPLAY_ROTATE_RIGHT_def splay_access)
  moreover have "splay_inv m0 es (s\<lparr>run_head := \<lparr>sph_root = Some b, sp_mem = ?m\<rparr>\<rparr>) ls \<langle>A, (b, f), \<langle>B, (a, e), C\<rangle>\<rangle> rs"
    using inv ab by (simp add: splay_inv_def)
  ultimately show ?thesis by blast
qed

lemma link_right_ok:
  assumes "splay_inv m0 es s ls \<langle>C, (a, e), T\<rangle> rs" "T \<noteq> \<langle>\<rangle>"
  shows "\<exists>s'. SPLAY_LINKRIGHT s = Some s' \<and> splay_inv m0 es s' ((a, e, C) # ls) T rs"
proof -
  note inv = assms(1) [unfolded splay_inv_def]
  obtain v where v: "left_chain (sp_mem (run_head s)) (node_right s) v ls" using inv by blast
  have d: "distinct (map fst (lefts ls @ inorder \<langle>C, (a, e), T\<rangle> @ rights rs))" using inv by blast
  note d = distinct_parts [OF d]
  from put_right_chain [OF v d(1), of "Some a"] obtain m p
    where m: "put_right s (chain_end ls) (Some a) = Some (s\<lparr>run_head := (run_head s)\<lparr>sp_mem := m\<rparr>, node_right := p\<rparr>)"
      "left_chain m p (Some a) ls" "\<forall>b. b \<notin> sp_addrs (lefts ls) \<longrightarrow> m b = sp_mem (run_head s) b" by blast
  have mt: "m b = sp_mem (run_head s) b" if "b \<in> sp_addrs (inorder \<langle>C, (a, e), T\<rangle>)" for b using m(3) d(4) that by blast
  have h: "sp_heap m \<langle>C, (a, e), T\<rangle>" using inv sp_heap_frame [of "\<langle>C, (a, e), T\<rangle>" m] mt by blast
  have "right_chain m q v rs = right_chain (sp_mem (run_head s)) q v rs" for q v
    using m(3) d(5) by (intro right_chain_frame) blast
  moreover have "\<forall>b. b \<notin> sp_addrs es \<longrightarrow> m b = m0 b" using inv m(3) by auto
  ultimately show ?thesis
    using inv m(1,2) h assms(2) by (auto simp: SPLAY_LINKRIGHT_def splay_access splay_inv_def)
qed

lemma rotate_left_ok:
  assumes "splay_inv m0 es s ls \<langle>C, (a, e), \<langle>B, (b, f), A\<rangle>\<rangle> rs"
  shows "\<exists>h. SPLAY_ROTATE_LEFT (run_head s) (Some b) = Some h \<and>
    splay_inv m0 es (s\<lparr>run_head := h\<rparr>) ls \<langle>\<langle>C, (a, e), B\<rangle>, (b, f), A\<rangle> rs"
proof -
  note inv = assms [unfolded splay_inv_def]
  have d: "distinct (map fst (lefts ls @ inorder \<langle>C, (a, e), \<langle>B, (b, f), A\<rangle>\<rangle> @ rights rs))" using inv by blast
  have ab: "a \<noteq> b" "a \<notin> sp_addrs (inorder A)" "b \<notin> sp_addrs (inorder A)" "a \<notin> sp_addrs (inorder B)"
    "b \<notin> sp_addrs (inorder B)" "a \<notin> sp_addrs (inorder C)" "b \<notin> sp_addrs (inorder C)"
    "a \<notin> sp_addrs (lefts ls)" "b \<notin> sp_addrs (lefts ls)" "a \<notin> sp_addrs (rights rs)" "b \<notin> sp_addrs (rights rs)"
    "a \<in> sp_addrs es" "b \<in> sp_addrs es"
    using d inv by (auto simp: sp_addrs_def)
  let ?m = "(sp_mem (run_head s))(a \<mapsto> \<lparr>spe_left = sp_ptr C, spe_right = sp_ptr B, sp_elm = e\<rparr>,
    b \<mapsto> \<lparr>spe_left = Some a, spe_right = sp_ptr A, sp_elm = f\<rparr>)"
  have "SPLAY_ROTATE_LEFT (run_head s) (Some b) = Some (\<lparr>sph_root = Some b, sp_mem = ?m\<rparr>)"
    using inv ab(1) by (simp add: SPLAY_ROTATE_LEFT_def splay_access)
  moreover have "splay_inv m0 es (s\<lparr>run_head := \<lparr>sph_root = Some b, sp_mem = ?m\<rparr>\<rparr>) ls \<langle>\<langle>C, (a, e), B\<rangle>, (b, f), A\<rangle> rs"
    using inv ab by (simp add: splay_inv_def)
  ultimately show ?thesis by blast
qed

text \<open>The two halves of an iteration, on trees.\<close>

fun down_left :: "('a \<Rightarrow> bool) \<Rightarrow> 'a spt \<Rightarrow> 'a chain \<Rightarrow> 'a spt \<times> 'a chain \<times> bool" where
  "down_left P \<langle>\<langle>A, (b, f), B\<rangle>, (a, e), C\<rangle> rs =
     (if P f then if A = \<langle>\<rangle> then (\<langle>A, (b, f), \<langle>B, (a, e), C\<rangle>\<rangle>, rs, False) else (A, (b, f, \<langle>B, (a, e), C\<rangle>) # rs, True)
      else (\<langle>A, (b, f), B\<rangle>, (a, e, C) # rs, True))"
| "down_left P \<langle>\<rangle> rs = (\<langle>\<rangle>, rs, False)"
| "down_left P \<langle>\<langle>\<rangle>, n, C\<rangle> rs = (\<langle>\<langle>\<rangle>, n, C\<rangle>, rs, False)"

fun down_right :: "('a \<Rightarrow> bool) \<Rightarrow> 'a spt \<Rightarrow> 'a chain \<Rightarrow> 'a spt \<times> 'a chain \<times> bool" where
  "down_right P \<langle>C, (a, e), \<langle>B, (b, f), A\<rangle>\<rangle> ls =
     (if P f then if A = \<langle>\<rangle> then (\<langle>\<langle>C, (a, e), B\<rangle>, (b, f), A\<rangle>, ls, False) else (A, (b, f, \<langle>C, (a, e), B\<rangle>) # ls, True)
      else (\<langle>B, (b, f), A\<rangle>, (a, e, C) # ls, True))"
| "down_right P \<langle>\<rangle> ls = (\<langle>\<rangle>, ls, False)"
| "down_right P \<langle>C, n, \<langle>\<rangle>\<rangle> ls = (\<langle>C, n, \<langle>\<rangle>\<rangle>, ls, False)"

lemma splay_inv_root:
  assumes "splay_inv m0 es s ls \<langle>l, (a, e), r\<rangle> rs"
  shows "sph_root (run_head s) = Some a" "SPLAY_LEFT (run_head s) (Some a) = Some (sp_ptr l)"
    "SPLAY_RIGHT (run_head s) (Some a) = Some (sp_ptr r)" "SPLAY_ELM (run_head s) (Some a) = Some e"
  using assms by (simp_all add: splay_inv_def splay_access)

lemma splay_inv_child:
  assumes "splay_inv m0 es s ls \<langle>l, (a, e), r\<rangle> rs"
  shows "l = \<langle>A, (b, f), B\<rangle> \<Longrightarrow> SPLAY_ELM (run_head s) (Some b) = Some f"
    "r = \<langle>A, (b, f), B\<rangle> \<Longrightarrow> SPLAY_ELM (run_head s) (Some b) = Some f"
  using assms by (simp_all add: splay_inv_def splay_access)

lemma down_left_ok:
  assumes "splay_inv m0 es s ls t rs" "down_left P t rs = (t', rs', go_on)"
    and test: "\<And>h b f. SPLAY_ELM h (Some b) = Some f \<Longrightarrow> test h (Some b) = Some (P f)"
  shows "\<exists>s'. splay_down_left test s = Some (s', go_on) \<and> splay_inv m0 es s' ls t' rs'"
  using assms(1,2)
proof (cases "(P, t, rs)" rule: down_left.cases)
  case (1 P' A b f B a e C rs')
  then have t: "t = \<langle>\<langle>A, (b, f), B\<rangle>, (a, e), C\<rangle>" by simp
  note inv = assms(1) [unfolded t]
  note root = splay_inv_root [OF inv] splay_inv_child(1) [OF inv refl]
  from rotate_right_ok [OF inv] obtain h where h: "SPLAY_ROTATE_RIGHT (run_head s) (Some b) = Some h"
    "splay_inv m0 es (s\<lparr>run_head := h\<rparr>) ls \<langle>A, (b, f), \<langle>B, (a, e), C\<rangle>\<rangle> rs" by blast
  note root' = splay_inv_root [OF h(2)]
  show ?thesis
  proof (cases "P f")
    case True
    then show ?thesis
      using assms(2) root root' h test [OF root(5)] link_left_ok [OF h(2)]
      by (auto simp: splay_down_left_def t)
  next
    case False
    then show ?thesis
      using assms(2) root test [OF root(5)] link_left_ok [OF inv] by (auto simp: splay_down_left_def t)
  qed
next
  case (2 P' rs')
  then show ?thesis using assms(1) by (simp add: splay_inv_def)
next
  case (3 P' n C rs')
  then obtain a e where t: "t = \<langle>\<langle>\<rangle>, (a, e), C\<rangle>" by (cases n) auto
  then show ?thesis using assms(2) splay_inv_root [OF assms(1) [unfolded t]] assms(1) by (auto simp: splay_down_left_def)
qed

lemma down_right_ok:
  assumes "splay_inv m0 es s ls t rs" "down_right P t ls = (t', ls', go_on)"
    and test: "\<And>h b f. SPLAY_ELM h (Some b) = Some f \<Longrightarrow> test h (Some b) = Some (P f)"
  shows "\<exists>s'. splay_down_right test s = Some (s', go_on) \<and> splay_inv m0 es s' ls' t' rs"
  using assms(1,2)
proof (cases "(P, t, ls)" rule: down_right.cases)
  case (1 P' C a e B b f A ls')
  then have t: "t = \<langle>C, (a, e), \<langle>B, (b, f), A\<rangle>\<rangle>" by simp
  note inv = assms(1) [unfolded t]
  note root = splay_inv_root [OF inv] splay_inv_child(2) [OF inv refl]
  from rotate_left_ok [OF inv] obtain h where h: "SPLAY_ROTATE_LEFT (run_head s) (Some b) = Some h"
    "splay_inv m0 es (s\<lparr>run_head := h\<rparr>) ls \<langle>\<langle>C, (a, e), B\<rangle>, (b, f), A\<rangle> rs" by blast
  note root' = splay_inv_root [OF h(2)]
  show ?thesis
  proof (cases "P f")
    case True
    then show ?thesis
      using assms(2) root root' h test [OF root(5)] link_right_ok [OF h(2)]
      by (auto simp: splay_down_right_def t)
  next
    case False
    then show ?thesis
      using assms(2) root test [OF root(5)] link_right_ok [OF inv] by (auto simp: splay_down_right_def t)
  qed
next
  case (2 P' ls')
  then show ?thesis using assms(1) by (simp add: splay_inv_def)
next
  case (3 P' C n ls')
  then obtain a e where t: "t = \<langle>C, (a, e), \<langle>\<rangle>\<rangle>" by (cases n) auto
  then show ?thesis using assms(2) splay_inv_root [OF assms(1) [unfolded t]] assms(1) by (auto simp: splay_down_right_def)
qed

section \<open>The whole loop\<close>

definition sp_at :: "(ptr \<rightharpoonup> 'a splay_node) \<Rightarrow> (ptr \<times> 'a) list \<Rightarrow> 'a splay_head \<Rightarrow> 'a spt \<Rightarrow> bool" where
  "sp_at m0 es h t \<longleftrightarrow> sph_root h = sp_ptr t \<and> sp_heap (sp_mem h) t \<and> inorder t = es \<and> distinct (map fst es) \<and>
     (\<forall>b. b \<notin> sp_addrs es \<longrightarrow> sp_mem h b = m0 b)"

lemma splay_start_inv: "sp_at m0 es h t \<Longrightarrow> t \<noteq> \<langle>\<rangle> \<Longrightarrow> splay_inv m0 es (splay_start h) [] t []"
  by (simp add: sp_at_def splay_inv_def splay_start_def)

lemma assemble_ok:
  assumes "splay_inv m0 es s ls \<langle>l, (a, e), r\<rangle> rs"
  shows "\<exists>h. SPLAY_ASSEMBLE s = Some h \<and> sp_at m0 es h \<langle>hang_left ls l, (a, e), hang_right rs r\<rangle>"
proof -
  note inv = assms [unfolded splay_inv_def]
  note root = splay_inv_root [OF assms]
  have d: "distinct (map fst (lefts ls @ inorder \<langle>l, (a, e), r\<rangle> @ rights rs))" using inv by blast
  note d = distinct_parts [OF d]
  have da: "a \<notin> sp_addrs (inorder l)" "a \<notin> sp_addrs (inorder r)" using d(2) by (auto simp: sp_addrs_def)
  obtain v w where vw: "left_chain (sp_mem (run_head s)) (node_right s) v ls"
    "right_chain (sp_mem (run_head s)) (node_left s) w rs" using inv by blast
  from put_right_chain [OF vw(1) d(1), of "sp_ptr l"] obtain m1 p
    where m1: "put_right s (chain_end ls) (sp_ptr l) = Some (s\<lparr>run_head := (run_head s)\<lparr>sp_mem := m1\<rparr>, node_right := p\<rparr>)"
      "left_chain m1 p (sp_ptr l) ls" "\<forall>b. b \<notin> sp_addrs (lefts ls) \<longrightarrow> m1 b = sp_mem (run_head s) b" by blast
  let ?s1 = "s\<lparr>run_head := (run_head s)\<lparr>sp_mem := m1\<rparr>, node_right := p\<rparr>"
  have "right_chain m1 (node_left s) w rs"
    using vw(2) right_chain_frame [of rs m1 "sp_mem (run_head s)"] m1(3) d(5) by blast
  with put_left_chain [of ?s1 w rs "sp_ptr r"] d(3) obtain m2 q
    where m2: "put_left ?s1 (chain_end rs) (sp_ptr r) = Some (?s1\<lparr>run_head := (run_head ?s1)\<lparr>sp_mem := m2\<rparr>, node_left := q\<rparr>)"
      "right_chain m2 q (sp_ptr r) rs" "\<forall>b. b \<notin> sp_addrs (rights rs) \<longrightarrow> m2 b = m1 b" by auto
  have lc: "left_chain m2 p (sp_ptr l) ls" using m1(2) left_chain_frame [of ls m2 m1] m2(3) d(5) by blast
  have same: "m2 b = sp_mem (run_head s) b" if "b \<in> sp_addrs (inorder \<langle>l, (a, e), r\<rangle>)" for b
    using that m1(3) m2(3) d(4,6) by (metis disjoint_iff)
  have h: "sp_heap m2 \<langle>l, (a, e), r\<rangle>" using inv sp_heap_frame [of "\<langle>l, (a, e), r\<rangle>" m2] same by blast
  let ?m = "m2(a \<mapsto> \<lparr>spe_left = p, spe_right = q, sp_elm = e\<rparr>)"
  have out: "a \<notin> sp_addrs (lefts ls)" "a \<notin> sp_addrs (rights rs)" "a \<in> sp_addrs es"
    using d(4,6) inv by auto
  have "SPLAY_RIGHT (run_head ?s1) (Some a) = Some (sp_ptr r)"
    using root(3) m1(3) out(1) by (simp add: splay_access)
  then have "SPLAY_ASSEMBLE s = Some ((run_head s)\<lparr>sp_mem := ?m\<rparr>)"
    using inv root m1(1) m2(1) h by (simp add: SPLAY_ASSEMBLE_def) (simp add: splay_access)
  moreover have "sp_heap ?m (hang_left ls l) \<and> p = sp_ptr (hang_left ls l)"
    using lc h da(1) out(1) by (intro hang_left_heap) simp_all
  moreover have "sp_heap ?m (hang_right rs r) \<and> q = sp_ptr (hang_right rs r)"
    using m2(2) h da(2) out(2) by (intro hang_right_heap) simp_all
  moreover have "\<forall>b. b \<notin> sp_addrs es \<longrightarrow> ?m b = m0 b" using inv m1(3) m2(3) out(3) by auto
  ultimately have "SPLAY_ASSEMBLE s = Some ((run_head s)\<lparr>sp_mem := ?m\<rparr>)"
    "sp_at m0 es ((run_head s)\<lparr>sp_mem := ?m\<rparr>) \<langle>hang_left ls l, (a, e), hang_right rs r\<rangle>"
    using inv by (blast, auto simp: sp_at_def)
  then show ?thesis by blast
qed

lemma splay_loop_ok:
  assumes step: "\<And>s ls t rs. splay_inv m0 es s ls t rs \<Longrightarrow> P ls t rs \<Longrightarrow> \<exists>s' ls' t' rs' go_on. step s = Some (s', go_on) \<and>
      splay_inv m0 es s' ls' t' rs' \<and> P ls' t' rs' \<and> (if go_on then size t' < size t else Q t')"
  shows "splay_inv m0 es s ls t rs \<Longrightarrow> P ls t rs \<Longrightarrow> \<exists>s' ls' t' rs'. splay_loop step s = Some s' \<and>
      splay_inv m0 es s' ls' t' rs' \<and> P ls' t' rs' \<and> Q t'"
proof (induction "size t" arbitrary: s ls t rs rule: less_induct)
  case less
  from step [OF less.prems] obtain s' ls' t' rs' go_on
    where s: "step s = Some (s', go_on)" "splay_inv m0 es s' ls' t' rs'" "P ls' t' rs'"
      "if go_on then size t' < size t else Q t'" by blast
  show ?case
  proof (cases go_on)
    case True
    have "splay_loop step s = splay_loop step s'" using s(1) True by (subst splay_loop.simps) simp
    then show ?thesis using less.hyps [OF _ s(2,3)] s(4) True by simp
  next
    case False
    have "splay_loop step s = Some s'" using s(1) False by (subst splay_loop.simps) simp
    then show ?thesis using s False by auto
  qed
qed

section \<open>Where the loop stops\<close>

lemma down_left_stops:
  assumes "down_left P \<langle>l, (a, e), r\<rangle> rs = (t', rs', go_on)"
  shows "if go_on then size t' < size \<langle>l, (a, e), r\<rangle> \<and> t' \<noteq> \<langle>\<rangle> else (\<exists>b f q. t' = \<langle>\<langle>\<rangle>, (b, f), q\<rangle> \<and> (f = e \<or> P f))"
  using assms by (cases "(P, \<langle>l, (a, e), r\<rangle>, rs)" rule: down_left.cases) (auto split: if_splits)

lemma down_left_order:
  fixes key :: "'a \<Rightarrow> 'k::linorder"
  assumes "down_left (\<lambda>f. k < key f) \<langle>l, (a, e), r\<rangle> rs = (t', rs', go_on)"
    and "sorted_wrt (<) (map (\<lambda>x. key (snd x)) (inorder \<langle>l, (a, e), r\<rangle>))"
    and "k < key e" "\<forall>x \<in> set (rights rs). k < key (snd x)"
  shows "\<forall>x \<in> set (rights rs'). k < key (snd x)"
  using assms
  by (cases "(\<lambda>f. k < key f, \<langle>l, (a, e), r\<rangle>, rs)" rule: down_left.cases)
    (auto simp: sorted_wrt_append split: if_splits; metis less_trans snd_conv)+

lemma down_right_stops:
  assumes "down_right P \<langle>l, (a, e), r\<rangle> ls = (t', ls', go_on)"
  shows "if go_on then size t' < size \<langle>l, (a, e), r\<rangle> \<and> t' \<noteq> \<langle>\<rangle> else (\<exists>b f q. t' = \<langle>q, (b, f), \<langle>\<rangle>\<rangle> \<and> (f = e \<or> P f))"
  using assms by (cases "(P, \<langle>l, (a, e), r\<rangle>, ls)" rule: down_right.cases) (auto split: if_splits)

lemma down_right_order:
  fixes key :: "'a \<Rightarrow> 'k::linorder"
  assumes "down_right (\<lambda>f. key f < k) \<langle>l, (a, e), r\<rangle> ls = (t', ls', go_on)"
    and "sorted_wrt (<) (map (\<lambda>x. key (snd x)) (inorder \<langle>l, (a, e), r\<rangle>))"
    and "key e < k" "\<forall>x \<in> set (lefts ls). key (snd x) < k"
  shows "\<forall>x \<in> set (lefts ls'). key (snd x) < k"
  using assms
  by (cases "(\<lambda>f. key f < k, \<langle>l, (a, e), r\<rangle>, ls)" rule: down_right.cases)
    (force simp: sorted_wrt_append split: if_splits)+

lemma sorted_middle:
  "sorted_wrt (<) (map f (xs @ ys @ zs)) \<Longrightarrow> sorted_wrt (<) (map f ys)"
  by (simp add: sorted_wrt_append)

text \<open>The nodes around the root after \<open>SPLAY\<close> lie on the two sides of the key.\<close>

definition splits_at :: "('a \<Rightarrow> 'k::linorder) \<Rightarrow> 'k \<Rightarrow> (ptr \<times> 'a) list \<Rightarrow> (ptr \<times> 'a) list \<Rightarrow> bool" where
  "splits_at key k xs ys \<longleftrightarrow> (\<forall>x \<in> set xs. key (snd x) < k) \<and> (\<forall>y \<in> set ys. k < key (snd y))"

definition stops_at :: "('a \<Rightarrow> 'k::linorder) \<Rightarrow> 'k \<Rightarrow> 'a spt \<Rightarrow> bool" where
  "stops_at key k t \<longleftrightarrow> (\<exists>l a e r. t = \<langle>l, (a, e), r\<rangle> \<and>
     (key e = k \<or> k < key e \<and> l = \<langle>\<rangle> \<or> key e < k \<and> r = \<langle>\<rangle>))"

context table_order
begin

lemma splay_step_ok:
  assumes "splay_inv m0 es s ls t rs" "splits_at key (key x) (lefts ls) (rights rs)"
    and "sorted_wrt (<) (map (\<lambda>x. key (snd x)) es)"
  shows "\<exists>s' ls' t' rs' go_on. splay_step cmp x s = Some (s', go_on) \<and> splay_inv m0 es s' ls' t' rs' \<and>
    splits_at key (key x) (lefts ls') (rights rs') \<and> (if go_on then size t' < size t else stops_at key (key x) t')"
proof -
  obtain l a e r where t: "t = \<langle>l, (a, e), r\<rangle>" using assms(1) by (cases t rule: sp_ptr.cases) (auto simp: splay_inv_def)
  note root = splay_inv_root [OF assms(1) [unfolded t]]
  have es: "lefts ls @ inorder t @ rights rs = es" using assms(1) by (simp add: splay_inv_def)
  have sorted: "sorted_wrt (<) (map (\<lambda>x. key (snd x)) (inorder \<langle>l, (a, e), r\<rangle>))"
    using sorted_middle assms(3) unfolding t [symmetric] es [symmetric] .
  consider "key x = key e" | "key x < key e" | "key e < key x" by (meson less_linear)
  then show ?thesis
  proof cases
    case 1
    then have "cmp x e = 0" using cmp_neg [of x e] cmp_pos [of x e] by simp
    then have "splay_step cmp x s = Some (s, False)" using root by (simp add: splay_step_def)
    moreover have "stops_at key (key x) t" using 1 by (auto simp: stops_at_def t)
    ultimately show ?thesis using assms(1,2) by force
  next
    case 2
    then have "cmp x e < 0" by (simp add: cmp_neg)
    then have step: "splay_step cmp x s = splay_down_left (\<lambda>h tmp. map_option (\<lambda>e. cmp x e < 0) (SPLAY_ELM h tmp)) s"
      using root by (simp add: splay_step_def)
    obtain t' rs' go_on where d: "down_left (\<lambda>f. key x < key f) t rs = (t', rs', go_on)" by (metis prod_cases3)
    from down_left_ok [OF assms(1) d, of "\<lambda>h tmp. map_option (\<lambda>e. cmp x e < 0) (SPLAY_ELM h tmp)"] obtain s'
      where s': "splay_step cmp x s = Some (s', go_on)" "splay_inv m0 es s' ls t' rs'" unfolding step by (auto simp: cmp_neg)
    have "splits_at key (key x) (lefts ls) (rights rs')"
      using down_left_order [OF d [unfolded t] sorted 2] assms(2) by (simp add: splits_at_def)
    moreover have "if go_on then size t' < size t else stops_at key (key x) t'"
      using down_left_stops [OF d [unfolded t]] 2 by (auto simp: stops_at_def t split: if_splits)
    ultimately show ?thesis using s' by blast
  next
    case 3
    then have "cmp x e > 0" by (simp add: cmp_pos)
    then have step: "splay_step cmp x s = splay_down_right (\<lambda>h tmp. map_option (\<lambda>e. cmp x e > 0) (SPLAY_ELM h tmp)) s"
      using root by (simp add: splay_step_def)
    obtain t' ls' go_on where d: "down_right (\<lambda>f. key f < key x) t ls = (t', ls', go_on)" by (metis prod_cases3)
    from down_right_ok [OF assms(1) d, of "\<lambda>h tmp. map_option (\<lambda>e. cmp x e > 0) (SPLAY_ELM h tmp)"] obtain s'
      where s': "splay_step cmp x s = Some (s', go_on)" "splay_inv m0 es s' ls' t' rs" unfolding step by (auto simp: cmp_pos)
    have "splits_at key (key x) (lefts ls') (rights rs)"
      using down_right_order [OF d [unfolded t] sorted 3] assms(2) by (simp add: splits_at_def)
    moreover have "if go_on then size t' < size t else stops_at key (key x) t'"
      using down_right_stops [OF d [unfolded t]] 3 by (auto simp: stops_at_def t split: if_splits)
    ultimately show ?thesis using s' by blast
  qed
qed

lemma splay_ok:
  assumes "sp_at m0 es h t" "t \<noteq> \<langle>\<rangle>" "sorted_wrt (<) (map (\<lambda>x. key (snd x)) es)"
  shows "\<exists>h' l a e r. SPLAY cmp h x = Some h' \<and> sp_at m0 es h' \<langle>l, (a, e), r\<rangle> \<and>
    splits_at key (key x) (inorder l) (inorder r)"
proof -
  let ?P = "\<lambda>ls t rs. splits_at key (key x) (lefts ls) (rights rs)"
  have "\<exists>s ls t' rs. splay_loop (splay_step cmp x) (splay_start h) = Some s \<and> splay_inv m0 es s ls t' rs \<and>
      ?P ls t' rs \<and> stops_at key (key x) t'"
  proof (rule splay_loop_ok)
    show "splay_inv m0 es (splay_start h) [] t []" using splay_start_inv assms(1,2) .
    show "?P [] t []" by (simp add: splits_at_def)
  next
    fix s ls t rs
    assume "splay_inv m0 es s ls t rs" "?P ls t rs"
    from splay_step_ok [OF this assms(3)]
    show "\<exists>s' ls' t' rs' go_on. splay_step cmp x s = Some (s', go_on) \<and> splay_inv m0 es s' ls' t' rs' \<and>
      ?P ls' t' rs' \<and> (if go_on then size t' < size t else stops_at key (key x) t')" .
  qed
  then obtain s ls t' rs
    where s: "splay_loop (splay_step cmp x) (splay_start h) = Some s" "splay_inv m0 es s ls t' rs"
      "splits_at key (key x) (lefts ls) (rights rs)" "stops_at key (key x) t'" by blast
  from s(4) obtain l a e r where t': "t' = \<langle>l, (a, e), r\<rangle>" by (auto simp: stops_at_def)
  have es: "es = lefts ls @ inorder t' @ rights rs" using s(2) by (simp add: splay_inv_def)
  from sorted_middle [OF assms(3) [unfolded es]]
  have "\<forall>y \<in> set (inorder l). key (snd y) < key e" "\<forall>y \<in> set (inorder r). key e < key (snd y)"
    by (auto simp: t' sorted_wrt_append)
  moreover from s(4) have "key e = key x \<or> key x < key e \<and> l = \<langle>\<rangle> \<or> key e < key x \<and> r = \<langle>\<rangle>"
    by (auto simp: stops_at_def t')
  ultimately have "splits_at key (key x) (inorder (hang_left ls l)) (inorder (hang_right rs r))"
    using s(3) by (auto simp: splits_at_def intro: less_trans)
  moreover from assemble_ok [OF s(2) [unfolded t']] obtain h'
    where "SPLAY_ASSEMBLE s = Some h'" "sp_at m0 es h' \<langle>hang_left ls l, (a, e), hang_right rs r\<rangle>" by blast
  ultimately show ?thesis
    using s(1) by (intro exI [of _ h'] exI [of _ "hang_left ls l"] exI [of _ a] exI [of _ e] exI [of _ "hang_right rs r"])
      (simp add: SPLAY_def)
qed

end

end
