(* ===== verification/Drv_Splay_Correct.thy ===== *)
theory Drv_Splay_Correct
  imports Drv_Splay_Loop
begin

text \<open>
  The operations on splay trees as operations on the ordered list of the table's entries.
\<close>

section \<open>The operations\<close>

definition sp_table :: "('a \<Rightarrow> 'k::linorder) \<Rightarrow> 'a splay_head \<Rightarrow> (ptr \<times> 'a) list \<Rightarrow> bool" where
  "sp_table key h es \<longleftrightarrow> sorted_wrt (<) (map (\<lambda>x. key (snd x)) es) \<and> (\<exists>t. sp_at (sp_mem h) es h t)"

definition sp_lookup :: "('a \<Rightarrow> 'k) \<Rightarrow> (ptr \<times> 'a) list \<Rightarrow> 'k \<rightharpoonup> ptr" where
  "sp_lookup key es = map_of (map (\<lambda>x. (key (snd x), fst x)) es)"

lemma sp_tableI: "sp_at m0 es h t \<Longrightarrow> sorted_wrt (<) (map (\<lambda>x. key (snd x)) es) \<Longrightarrow> sp_table key h es"
  by (auto simp: sp_table_def sp_at_def)

lemma sp_at_outside: "sp_at m0 es h t \<Longrightarrow> \<forall>b. b \<notin> sp_addrs es \<longrightarrow> sp_mem h b = m0 b"
  by (simp add: sp_at_def)

lemma sp_table_empty: "SPLAY_EMPTY h \<Longrightarrow> sp_table key h es \<longleftrightarrow> es = []"
  by (auto simp: sp_table_def sp_at_def SPLAY_EMPTY_def)

lemma sp_lookup_split:
  assumes "splits_at key k xs ys"
  shows "sp_lookup key (xs @ (a, e) # ys) k = (if key e = k then Some a else None)"
proof -
  have "k \<notin> (\<lambda>x. key (snd x)) ` set xs" "k \<notin> (\<lambda>x. key (snd x)) ` set ys" using assms by (auto simp: splits_at_def)
  then show ?thesis
    by (auto simp: sp_lookup_def map_of_eq_None_iff map_add_def image_image split: option.splits dest!: map_of_SomeD)
qed

context table_order
begin

lemma table_splay:
  assumes "sp_table key h es" "\<not> SPLAY_EMPTY h"
  shows "\<exists>h' l a e r. SPLAY cmp h x = Some h' \<and> sp_at (sp_mem h) es h' \<langle>l, (a, e), r\<rangle> \<and>
    splits_at key (key x) (inorder l) (inorder r) \<and> es = inorder l @ (a, e) # inorder r"
proof -
  from assms(1) obtain t where t: "sp_at (sp_mem h) es h t" "sorted_wrt (<) (map (\<lambda>x. key (snd x)) es)"
    by (auto simp: sp_table_def)
  moreover have "t \<noteq> \<langle>\<rangle>" using t(1) assms(2) by (auto simp: sp_at_def SPLAY_EMPTY_def)
  ultimately obtain h' l a e r where "SPLAY cmp h x = Some h'" "sp_at (sp_mem h) es h' \<langle>l, (a, e), r\<rangle>"
    "splits_at key (key x) (inorder l) (inorder r)" using splay_ok by blast
  then show ?thesis by (auto simp: sp_at_def)
qed

lemma cmp_zero: "cmp a b = 0 \<longleftrightarrow> key a = key b"
  using cmp_neg [of a b] cmp_pos [of a b] by (metis less_irrefl linorder_neqE)

lemma splay_find_ok:
  assumes "sp_table key h es"
  shows "\<exists>h'. SPLAY_FIND cmp h x = Some (h', sp_lookup key es (key x)) \<and> sp_table key h' es \<and>
    (\<forall>b. b \<notin> sp_addrs es \<longrightarrow> sp_mem h' b = sp_mem h b)"
proof (cases "SPLAY_EMPTY h")
  case True
  then have "es = []" using sp_table_empty assms by blast
  then show ?thesis using assms by (auto simp: SPLAY_FIND_def True sp_lookup_def)
next
  case False
  from table_splay [OF assms False, of x] obtain h' l a e r where h': "SPLAY cmp h x = Some h'"
    "sp_at (sp_mem h) es h' \<langle>l, (a, e), r\<rangle>" "splits_at key (key x) (inorder l) (inorder r)"
    "es = inorder l @ (a, e) # inorder r" by blast
  have "SPLAY_FIND cmp h x = Some (h', sp_lookup key es (key x))"
    using h'(1,2) False sp_lookup_split [OF h'(3)] 
    by (auto simp: SPLAY_FIND_def h'(4) cmp_zero) (auto simp: sp_at_def SPLAY_ELM_def cmp_zero)
  moreover have "sp_table key h' es" using sp_tableI [OF h'(2), of key] assms by (simp add: sp_table_def)
  ultimately show ?thesis using sp_at_outside [OF h'(2)] by blast
qed

lemma links_set [simp]:
  "n\<lparr>spe_left := x, spe_right := y\<rparr> = \<lparr>spe_left = x, spe_right = y, sp_elm = sp_elm n\<rparr>"
  "n\<lparr>spe_right := y, spe_left := x\<rparr> = \<lparr>spe_left = x, spe_right = y, sp_elm = sp_elm n\<rparr>"
  for n :: "'b splay_node" by (cases n; simp)+

text \<open>The new node above or below the root, after splaying.\<close>

lemma insert_at_root:
  assumes "sp_at m0 es h1 \<langle>l, (a, e), r\<rangle>" "q \<notin> sp_addrs es" "sp_mem h1 q = Some n"
  shows "sp_at (m0(q := x)) (inorder l @ (q, sp_elm n) # (a, e) # inorder r)
      (h1\<lparr>sp_mem := (sp_mem h1)(q \<mapsto> \<lparr>spe_left = sp_ptr l, spe_right = Some a, sp_elm = sp_elm n\<rparr>,
        a \<mapsto> \<lparr>spe_left = None, spe_right = sp_ptr r, sp_elm = e\<rparr>), sph_root := Some q\<rparr>) \<langle>l, (q, sp_elm n), \<langle>\<langle>\<rangle>, (a, e), r\<rangle>\<rangle>"
    and "sp_at (m0(q := x)) (inorder l @ (a, e) # (q, sp_elm n) # inorder r)
      (h1\<lparr>sp_mem := (sp_mem h1)(q \<mapsto> \<lparr>spe_left = Some a, spe_right = sp_ptr r, sp_elm = sp_elm n\<rparr>,
        a \<mapsto> \<lparr>spe_left = sp_ptr l, spe_right = None, sp_elm = e\<rparr>), sph_root := Some q\<rparr>) \<langle>\<langle>l, (a, e), \<langle>\<rangle>\<rangle>, (q, sp_elm n), r\<rangle>"
proof -
  have at: "sph_root h1 = Some a" "sp_heap (sp_mem h1) l" "sp_heap (sp_mem h1) r" "es = inorder l @ (a, e) # inorder r"
    "distinct (map fst es)" "\<forall>b. b \<notin> sp_addrs es \<longrightarrow> sp_mem h1 b = m0 b" using assms(1) by (auto simp: sp_at_def)
  have q: "q \<notin> sp_addrs (inorder l)" "q \<noteq> a" "q \<notin> sp_addrs (inorder r)" "a \<notin> sp_addrs (inorder l)" "a \<notin> sp_addrs (inorder r)"
    using assms(2) at(5) unfolding at(4) by (auto simp: sp_addrs_def)
  have d: "distinct (map fst (inorder l @ (q, sp_elm n) # (a, e) # inorder r))"
    "distinct (map fst (inorder l @ (a, e) # (q, sp_elm n) # inorder r))"
    using at(5) q(1-3) unfolding at(4) by (auto simp: sp_addrs_def)
  show "sp_at (m0(q := x)) (inorder l @ (q, sp_elm n) # (a, e) # inorder r)
      (h1\<lparr>sp_mem := (sp_mem h1)(q \<mapsto> \<lparr>spe_left = sp_ptr l, spe_right = Some a, sp_elm = sp_elm n\<rparr>,
        a \<mapsto> \<lparr>spe_left = None, spe_right = sp_ptr r, sp_elm = e\<rparr>), sph_root := Some q\<rparr>) \<langle>l, (q, sp_elm n), \<langle>\<langle>\<rangle>, (a, e), r\<rangle>\<rangle>"
    using at(1-3,6) q d(1) unfolding at(4) by (simp add: sp_at_def)
  show "sp_at (m0(q := x)) (inorder l @ (a, e) # (q, sp_elm n) # inorder r)
      (h1\<lparr>sp_mem := (sp_mem h1)(q \<mapsto> \<lparr>spe_left = Some a, spe_right = sp_ptr r, sp_elm = sp_elm n\<rparr>,
        a \<mapsto> \<lparr>spe_left = sp_ptr l, spe_right = None, sp_elm = e\<rparr>), sph_root := Some q\<rparr>) \<langle>\<langle>l, (a, e), \<langle>\<rangle>\<rangle>, (q, sp_elm n), r\<rangle>"
    using at(1-3,6) q d(2) unfolding at(4) by (simp add: sp_at_def)
qed

lemma splay_insert_ok:
  assumes "sp_table key h es" "sp_mem h q = Some n" "q \<notin> sp_addrs es"
  shows "\<exists>h' es'. SPLAY_INSERT cmp h (Some q) = Some (h', sp_lookup key es (key (sp_elm n))) \<and> sp_table key h' es' \<and>
    set es' = (if sp_lookup key es (key (sp_elm n)) = None then insert (q, sp_elm n) (set es) else set es) \<and>
    (\<forall>b. b \<notin> insert q (sp_addrs es) \<longrightarrow> sp_mem h' b = sp_mem h b)"
proof (cases "SPLAY_EMPTY h")
  case True
  then have es: "es = []" using sp_table_empty assms(1) by blast
  let ?h = "h\<lparr>sp_mem := (sp_mem h)(q \<mapsto> n\<lparr>spe_right := None, spe_left := None\<rparr>), sph_root := Some q\<rparr>"
  have "SPLAY_INSERT cmp h (Some q) = Some (?h, None)" using assms(2) True by (simp add: SPLAY_INSERT_def splay_access)
  moreover have "sp_at (sp_mem ?h) [(q, sp_elm n)] ?h \<langle>\<langle>\<rangle>, (q, sp_elm n), \<langle>\<rangle>\<rangle>" by (simp add: sp_at_def)
  from sp_tableI [OF this, of key] have "sp_table key ?h [(q, sp_elm n)]" by simp
  ultimately show ?thesis by (intro exI [of _ ?h] exI [of _ "[(q, sp_elm n)]"]) (simp add: es sp_lookup_def)
next
  case False
  let ?x = "sp_elm n"
  from table_splay [OF assms(1) False, of ?x] obtain h1 l a e r where h1: "SPLAY cmp h ?x = Some h1"
    "sp_at (sp_mem h) es h1 \<langle>l, (a, e), r\<rangle>" "splits_at key (key ?x) (inorder l) (inorder r)"
    "es = inorder l @ (a, e) # inorder r" by blast
  have sorted: "sorted_wrt (<) (map (\<lambda>x. key (snd x)) es)" using assms(1) by (simp add: sp_table_def)
  have q: "sp_mem h1 q = Some n" using h1(2) assms(2,3) by (simp add: sp_at_def)
  have a: "sph_root h1 = Some a" "sp_mem h1 a = Some \<lparr>spe_left = sp_ptr l, spe_right = sp_ptr r, sp_elm = e\<rparr>" "a \<noteq> q"
    using h1(2) assms(3) by (auto simp: sp_at_def h1(4))
  note lookup = sp_lookup_split [OF h1(3), of a e, folded h1(4)]
  note new = insert_at_root [OF h1(2) assms(3) q, of "sp_mem h q"]
  consider "key ?x = key e" | "key ?x < key e" | "key e < key ?x" by (meson less_linear)
  then show ?thesis
  proof cases
    case 1
    have "SPLAY_INSERT cmp h (Some q) = Some (h1, Some a)"
      using False assms(2) h1(1) a 1 cmp_zero [of ?x e] by (simp add: SPLAY_INSERT_def SPLAY_ELM_def)
    moreover have "sp_table key h1 es" using sp_tableI [OF h1(2) sorted] .
    ultimately show ?thesis using lookup 1 sp_at_outside [OF h1(2)] by auto
  next
    case 2
    then have "cmp ?x e < 0" by (simp add: cmp_neg)
    let ?h = "h1\<lparr>sp_mem := (sp_mem h1)(q \<mapsto> \<lparr>spe_left = sp_ptr l, spe_right = Some a, sp_elm = ?x\<rparr>,
        a \<mapsto> \<lparr>spe_left = None, spe_right = sp_ptr r, sp_elm = e\<rparr>), sph_root := Some q\<rparr>"
    have "SPLAY_INSERT cmp h (Some q) = Some (?h, None)"
      using False assms(2) h1(1) a q \<open>cmp ?x e < 0\<close> by (simp add: SPLAY_INSERT_def splay_access)
    moreover have "sorted_wrt (<) (map (\<lambda>x. key (snd x)) (inorder l @ (q, ?x) # (a, e) # inorder r))"
      using sorted h1(3) 2 unfolding h1(4) by (auto simp: sorted_wrt_append splits_at_def)
    from sp_tableI [OF new(1) this] have "sp_table key ?h (inorder l @ (q, ?x) # (a, e) # inorder r)" .
    ultimately show ?thesis
      using lookup 2 sp_at_outside [OF new(1)]
      by (intro exI [of _ ?h] exI [of _ "inorder l @ (q, ?x) # (a, e) # inorder r"]) (auto simp: h1(4))
  next
    case 3
    then have c: "cmp ?x e > 0" by (simp add: cmp_pos)
    let ?h = "h1\<lparr>sp_mem := (sp_mem h1)(q \<mapsto> \<lparr>spe_left = Some a, spe_right = sp_ptr r, sp_elm = ?x\<rparr>,
        a \<mapsto> \<lparr>spe_left = sp_ptr l, spe_right = None, sp_elm = e\<rparr>), sph_root := Some q\<rparr>"
    have "SPLAY_INSERT cmp h (Some q) = Some (?h, None)"
      using False assms(2) h1(1) a q c by (simp add: SPLAY_INSERT_def splay_access)
    moreover have "sorted_wrt (<) (map (\<lambda>x. key (snd x)) (inorder l @ (a, e) # (q, ?x) # inorder r))"
      using sorted h1(3) 3 unfolding h1(4) by (auto simp: sorted_wrt_append splits_at_def)
    from sp_tableI [OF new(2) this] have "sp_table key ?h (inorder l @ (a, e) # (q, ?x) # inorder r)" .
    ultimately show ?thesis
      using lookup 3 sp_at_outside [OF new(2)]
      by (intro exI [of _ ?h] exI [of _ "inorder l @ (a, e) # (q, ?x) # inorder r"]) (auto simp: h1(4))
  qed
qed

text \<open>The two parts of the tree below a root are put together when the root goes.\<close>

lemma join_parts:
  assumes "sp_at m0 es h1 \<langle>l, (a, e), r\<rangle>" "sorted_wrt (<) (map (\<lambda>x. key (snd x)) es)" "key x = key e"
  shows "\<exists>h' t. (if sp_ptr l = None then Some (h1\<lparr>sph_root := sp_ptr r\<rparr>)
      else do { h \<leftarrow> SPLAY cmp (h1\<lparr>sph_root := sp_ptr l\<rparr>) x; set_spe_right h (sph_root h) (sp_ptr r) }) = Some h' \<and>
    sph_root h' = sp_ptr t \<and> sp_heap (sp_mem h') t \<and> inorder t = inorder l @ inorder r \<and>
    (\<forall>b. b \<notin> sp_addrs es \<longrightarrow> sp_mem h' b = m0 b)"
proof -
  have at: "sp_heap (sp_mem h1) l" "sp_heap (sp_mem h1) r" "es = inorder l @ (a, e) # inorder r"
    "distinct (map fst es)" "\<forall>b. b \<notin> sp_addrs es \<longrightarrow> sp_mem h1 b = m0 b" using assms(1) by (auto simp: sp_at_def)
  show ?thesis
  proof (cases "l = \<langle>\<rangle>")
    case True
    then show ?thesis using at by (intro exI [of _ "h1\<lparr>sph_root := sp_ptr r\<rparr>"] exI [of _ r]) simp
  next
    case False
    have "sp_at (sp_mem h1) (inorder l) (h1\<lparr>sph_root := sp_ptr l\<rparr>) l" using at by (simp add: sp_at_def)
    moreover have "sorted_wrt (<) (map (\<lambda>x. key (snd x)) (inorder l))"
      using assms(2) unfolding at(3) by (simp add: sorted_wrt_append)
    ultimately obtain h2 l' b f r' where h2: "SPLAY cmp (h1\<lparr>sph_root := sp_ptr l\<rparr>) x = Some h2"
      "sp_at (sp_mem h1) (inorder l) h2 \<langle>l', (b, f), r'\<rangle>" "splits_at key (key x) (inorder l') (inorder r')"
      using splay_ok False by blast
    have es2: "inorder l = inorder l' @ (b, f) # inorder r'" using h2(2) by (simp add: sp_at_def)
    have "\<forall>y \<in> set (inorder l). key (snd y) < key x" using assms(2,3) unfolding at(3) by (simp add: sorted_wrt_append)
    then have "inorder r' = []" using h2(3) unfolding es2 splits_at_def by (metis Un_iff list.set_intros(2) list.set_sel(1) not_less_iff_gr_or_eq set_append)
    then have r': "r' = \<langle>\<rangle>" by (simp add: eq_inorder_Nil)
    have out: "b \<notin> sp_addrs (inorder r)" "b \<notin> sp_addrs (inorder l')" "b \<in> sp_addrs es"
      using at(4) unfolding at(3) es2 by (auto simp: sp_addrs_def)
    let ?m = "(sp_mem h2)(b \<mapsto> \<lparr>spe_left = sp_ptr l', spe_right = sp_ptr r, sp_elm = f\<rparr>)"
    have "sp_mem h2 c = sp_mem h1 c" if "c \<in> sp_addrs (inorder r)" for c
      using h2(2) distinct_parts(5) [of "inorder l" "[(a, e)]" "inorder r"] at(4) that unfolding at(3) by (auto simp: sp_at_def)
    then have "sp_heap (sp_mem h2) r" using at(2) sp_heap_frame [of r "sp_mem h2" "sp_mem h1"] by blast
    moreover have "\<forall>b. b \<notin> sp_addrs es \<longrightarrow> ?m b = m0 b"
      using h2(2) at(5) out(3) unfolding at(3) by (auto simp: sp_at_def)
    moreover have "set_spe_right h2 (sph_root h2) (sp_ptr r) = Some (h2\<lparr>sp_mem := ?m\<rparr>)"
      using h2(2) by (simp add: sp_at_def splay_access)
    ultimately show ?thesis
      using h2(1,2) out(1,2) False es2
      by (intro exI [of _ "h2\<lparr>sp_mem := ?m\<rparr>"] exI [of _ "\<langle>l', (b, f), r\<rangle>"]) (simp add: sp_at_def r')
  qed
qed

lemma splay_remove_ok:
  assumes "sp_table key h es" "sp_mem h p = Some n"
  shows "\<exists>h'. SPLAY_REMOVE cmp h (Some p) =
      Some (h', if key (sp_elm n) \<in> (\<lambda>x. key (snd x)) ` set es then Some p else None) \<and>
    sp_table key h' (filter (\<lambda>x. key (snd x) \<noteq> key (sp_elm n)) es) \<and>
    (\<forall>b. b \<notin> sp_addrs es \<longrightarrow> sp_mem h' b = sp_mem h b)"
proof (cases "SPLAY_EMPTY h")
  case True
  then have "es = []" using sp_table_empty assms(1) by blast
  then show ?thesis using assms(1) True by (simp add: SPLAY_REMOVE_def)
next
  case False
  let ?x = "sp_elm n"
  from table_splay [OF assms(1) False, of ?x] obtain h1 l a e r where h1: "SPLAY cmp h ?x = Some h1"
    "sp_at (sp_mem h) es h1 \<langle>l, (a, e), r\<rangle>" "splits_at key (key ?x) (inorder l) (inorder r)"
    "es = inorder l @ (a, e) # inorder r" by blast
  have sorted: "sorted_wrt (<) (map (\<lambda>x. key (snd x)) es)" using assms(1) by (simp add: sp_table_def)
  have x: "SPLAY_ELM h (Some p) = Some ?x" using assms(2) by (simp add: SPLAY_ELM_def)
  have a: "sph_root h1 = Some a" "SPLAY_ELM h1 (Some a) = Some e" "SPLAY_LEFT h1 (Some a) = Some (sp_ptr l)"
    "SPLAY_RIGHT h1 (Some a) = Some (sp_ptr r)" using h1(2) by (auto simp: sp_at_def splay_access)
  have out: "key ?x \<notin> (\<lambda>x. key (snd x)) ` set (inorder l)" "key ?x \<notin> (\<lambda>x. key (snd x)) ` set (inorder r)"
    using h1(3) by (auto simp: splits_at_def)
  have parts: "filter (\<lambda>x. key (snd x) \<noteq> key ?x) (inorder l) = inorder l" "filter (\<lambda>x. key (snd x) \<noteq> key ?x) (inorder r) = inorder r"
    using h1(3) by (fastforce simp: splits_at_def filter_id_conv)+
  show ?thesis
  proof (cases "key ?x = key e")
    case True
    from join_parts [OF h1(2) sorted True] obtain h' t
      where h': "(if sp_ptr l = None then Some (h1\<lparr>sph_root := sp_ptr r\<rparr>)
          else do { h \<leftarrow> SPLAY cmp (h1\<lparr>sph_root := sp_ptr l\<rparr>) ?x; set_spe_right h (sph_root h) (sp_ptr r) }) = Some h'"
        "sph_root h' = sp_ptr t" "sp_heap (sp_mem h') t" "inorder t = inorder l @ inorder r"
        "\<forall>b. b \<notin> sp_addrs es \<longrightarrow> sp_mem h' b = sp_mem h b" by blast
    have "SPLAY_REMOVE cmp h (Some p) = Some (h', Some p)"
      using False x h1(1) a True h'(1) by (simp add: SPLAY_REMOVE_def cmp_zero)
    moreover have "sp_table key h' (inorder l @ inorder r)"
      using h'(2-4) sorted h1(2) unfolding h1(4) by (auto simp: sp_table_def sp_at_def sorted_wrt_append intro!: exI [of _ t])
    ultimately show ?thesis using h'(5) True by (auto simp: h1(4) parts [unfolded True])
  next
    case neq: False
    have "SPLAY_REMOVE cmp h (Some p) = Some (h1, None)"
      using False x h1(1) a neq by (simp add: SPLAY_REMOVE_def cmp_zero)
    moreover have "filter (\<lambda>x. key (snd x) \<noteq> key ?x) es = es" using neq by (simp add: h1(4) parts)
    moreover have "key ?x \<notin> (\<lambda>x. key (snd x)) ` set es" using neq out by (auto simp: h1(4))
    ultimately show ?thesis using sp_tableI [OF h1(2) sorted] sp_at_outside [OF h1(2)] by auto
  qed
qed

lemma splay_leftmost_first:
  "sp_heap (sp_mem h) t \<Longrightarrow> t \<noteq> \<langle>\<rangle> \<Longrightarrow> splay_leftmost h (sp_ptr t) = Some (first_ptr (inorder t))"
proof (induction t)
  case (Node l n r)
  obtain a e where "n = (a, e)" by (cases n)
  with Node show ?case
    by (subst splay_leftmost.simps) (cases "l = \<langle>\<rangle>"; auto simp: SPLAY_LEFT_def)
qed simp

lemma sp_heap_elm: "sp_heap m t \<Longrightarrow> (c, g) \<in> set_tree t \<Longrightarrow> \<exists>n. m c = Some n \<and> sp_elm n = g"
  by (induction m t rule: sp_heap.induct) auto

lemma sp_table_elm:
  assumes "sp_table key h (xs @ (a, e) # ys)"
  shows "SPLAY_ELM h (Some a) = Some e"
proof -
  from assms obtain t where t: "sp_heap (sp_mem h) t" "inorder t = xs @ (a, e) # ys"
    by (auto simp: sp_table_def sp_at_def)
  have "(a, e) \<in> set (inorder t)" unfolding t(2) by simp
  with sp_heap_elm [OF t(1), of a e] show ?thesis by (auto simp: SPLAY_ELM_def)
qed

lemma splay_next_ok:
  assumes "sp_table key h (xs @ (a, e) # ys)"
  shows "\<exists>h'. SPLAY_NEXT cmp h (Some a) = Some (h', first_ptr ys) \<and> sp_table key h' (xs @ (a, e) # ys) \<and>
    (\<forall>b. b \<notin> sp_addrs (xs @ (a, e) # ys) \<longrightarrow> sp_mem h' b = sp_mem h b)"
proof -
  let ?es = "xs @ (a, e) # ys"
  have sorted: "sorted_wrt (<) (map (\<lambda>x. key (snd x)) ?es)" using assms by (simp add: sp_table_def)
  have "?es \<noteq> []" by simp
  then have "\<not> SPLAY_EMPTY h" using sp_table_empty assms by blast
  from table_splay [OF assms this, of e] obtain h' l b f r where h': "SPLAY cmp h e = Some h'"
    "sp_at (sp_mem h) ?es h' \<langle>l, (b, f), r\<rangle>" "splits_at key (key e) (inorder l) (inorder r)"
    "?es = inorder l @ (b, f) # inorder r" by blast
  have "(a, e) \<in> set (inorder l @ (b, f) # inorder r)" unfolding h'(4) [symmetric] by simp
  then have ba: "(b, f) = (a, e)" using h'(3) unfolding splits_at_def by fastforce
  have d: "distinct (map fst ?es)" using h'(2) unfolding sp_at_def by blast
  have "?es = inorder l @ (a, e) # inorder r" using h'(4) unfolding ba .
  from split_at_key(2) [OF d this] have r: "inorder r = ys" .
  have "SPLAY_ELM h (Some a) = Some e" by (rule sp_table_elm [OF assms])
  moreover have "SPLAY_RIGHT h' (Some a) = Some (sp_ptr r)" "sp_heap (sp_mem h') r"
    using h'(2) unfolding ba by (simp_all add: sp_at_def SPLAY_RIGHT_def)
  ultimately have "SPLAY_NEXT cmp h (Some a) = Some (h', first_ptr ys)"
    using h'(1) splay_leftmost_first [of h' r] r by (cases "r = \<langle>\<rangle>") (auto simp: SPLAY_NEXT_def)
  then show ?thesis using sp_tableI [OF h'(2) sorted] sp_at_outside [OF h'(2)] by blast
qed

end

lemma splay_min_ok:
  assumes "sp_table key h es"
  shows "\<exists>h'. SPLAY_MIN h = Some (h', first_ptr es) \<and> sp_table key h' es \<and>
    (\<forall>b. b \<notin> sp_addrs es \<longrightarrow> sp_mem h' b = sp_mem h b)"
proof (cases "SPLAY_EMPTY h")
  case True
  then have "es = []" using sp_table_empty assms by blast
  then show ?thesis using assms True by (simp add: SPLAY_MIN_def)
next
  case False
  from assms obtain t where t: "sp_at (sp_mem h) es h t" and sorted: "sorted_wrt (<) (map (\<lambda>x. key (snd x)) es)"
    by (auto simp: sp_table_def)
  have "t \<noteq> \<langle>\<rangle>" using t False by (auto simp: sp_at_def SPLAY_EMPTY_def)
  have "\<exists>s ls t' rs. splay_loop (splay_minmax_step (- 1)) (splay_start h) = Some s \<and> splay_inv (sp_mem h) es s ls t' rs \<and>
      ls = [] \<and> (\<exists>b f q. t' = \<langle>\<langle>\<rangle>, (b, f), q\<rangle>)"
  proof (rule splay_loop_ok)
    show "splay_inv (sp_mem h) es (splay_start h) [] t []" using splay_start_inv [OF t \<open>t \<noteq> \<langle>\<rangle>\<close>] .
  next
    fix s ls t rs
    assume inv: "splay_inv (sp_mem h) es s ls t rs" and ls: "ls = []"
    obtain l a e r where t: "t = \<langle>l, (a, e), r\<rangle>" using inv by (cases t rule: sp_ptr.cases) (auto simp: splay_inv_def)
    obtain t' rs' go_on where d: "down_left (\<lambda>f. True) t rs = (t', rs', go_on)" by (metis prod_cases3)
    from down_left_ok [OF inv d, of "\<lambda>h tmp. Some (- 1 < (0::int))"] obtain s'
      where "splay_minmax_step (- 1) s = Some (s', go_on)" "splay_inv (sp_mem h) es s' ls t' rs'"
      by (auto simp: splay_minmax_step_def)
    moreover have "if go_on then size t' < size t else (\<exists>b f q. t' = \<langle>\<langle>\<rangle>, (b, f), q\<rangle>)"
      using down_left_stops [OF d [unfolded t]] by (auto simp: t split: if_splits)
    ultimately show "\<exists>s' ls' t' rs' go_on. splay_minmax_step (- 1) s = Some (s', go_on) \<and> splay_inv (sp_mem h) es s' ls' t' rs' \<and>
        ls' = [] \<and> (if go_on then size t' < size t else (\<exists>b f q. t' = \<langle>\<langle>\<rangle>, (b, f), q\<rangle>))" using ls by blast
  qed simp
  then obtain s b f q rs where s: "splay_loop (splay_minmax_step (- 1)) (splay_start h) = Some s"
    "splay_inv (sp_mem h) es s [] \<langle>\<langle>\<rangle>, (b, f), q\<rangle> rs" by blast
  from assemble_ok [OF s(2)] obtain h' where h': "SPLAY_ASSEMBLE s = Some h'"
    "sp_at (sp_mem h) es h' \<langle>\<langle>\<rangle>, (b, f), hang_right rs q\<rangle>" by auto
  have "SPLAY_MIN h = Some (h', first_ptr es)"
    using s(1) h' False by (auto simp: SPLAY_MIN_def SPLAY_MIN_MAX_def SPLAY_MINMAX_def sp_at_def)
  then show ?thesis using sp_tableI [OF h'(2) sorted] sp_at_outside [OF h'(2)] by blast
qed

lemma splay_max_ok:
  assumes "sp_table key h es"
  shows "\<exists>h'. SPLAY_MAX h = Some (h', first_ptr (rev es)) \<and> sp_table key h' es \<and>
    (\<forall>b. b \<notin> sp_addrs es \<longrightarrow> sp_mem h' b = sp_mem h b)"
proof (cases "SPLAY_EMPTY h")
  case True
  then have "es = []" using sp_table_empty assms by blast
  then show ?thesis using assms True by (simp add: SPLAY_MAX_def)
next
  case False
  from assms obtain t where t: "sp_at (sp_mem h) es h t" and sorted: "sorted_wrt (<) (map (\<lambda>x. key (snd x)) es)"
    by (auto simp: sp_table_def)
  have "t \<noteq> \<langle>\<rangle>" using t False by (auto simp: sp_at_def SPLAY_EMPTY_def)
  have "\<exists>s ls t' rs. splay_loop (splay_minmax_step 1) (splay_start h) = Some s \<and> splay_inv (sp_mem h) es s ls t' rs \<and>
      rs = [] \<and> (\<exists>b f q. t' = \<langle>q, (b, f), \<langle>\<rangle>\<rangle>)"
  proof (rule splay_loop_ok)
    show "splay_inv (sp_mem h) es (splay_start h) [] t []" using splay_start_inv [OF t \<open>t \<noteq> \<langle>\<rangle>\<close>] .
  next
    fix s ls t rs
    assume inv: "splay_inv (sp_mem h) es s ls t rs" and rs: "rs = []"
    obtain l a e r where t: "t = \<langle>l, (a, e), r\<rangle>" using inv by (cases t rule: sp_ptr.cases) (auto simp: splay_inv_def)
    obtain t' ls' go_on where d: "down_right (\<lambda>f. True) t ls = (t', ls', go_on)" by (metis prod_cases3)
    from down_right_ok [OF inv d, of "\<lambda>h tmp. Some (1 > (0::int))"] obtain s'
      where "splay_minmax_step 1 s = Some (s', go_on)" "splay_inv (sp_mem h) es s' ls' t' rs"
      by (auto simp: splay_minmax_step_def)
    moreover have "if go_on then size t' < size t else (\<exists>b f q. t' = \<langle>q, (b, f), \<langle>\<rangle>\<rangle>)"
      using down_right_stops [OF d [unfolded t]] by (auto simp: t split: if_splits)
    ultimately show "\<exists>s' ls' t' rs' go_on. splay_minmax_step 1 s = Some (s', go_on) \<and> splay_inv (sp_mem h) es s' ls' t' rs' \<and>
        rs' = [] \<and> (if go_on then size t' < size t else (\<exists>b f q. t' = \<langle>q, (b, f), \<langle>\<rangle>\<rangle>))" using rs by blast
  qed simp
  then obtain s b f q ls where s: "splay_loop (splay_minmax_step 1) (splay_start h) = Some s"
    "splay_inv (sp_mem h) es s ls \<langle>q, (b, f), \<langle>\<rangle>\<rangle> []" by blast
  from assemble_ok [OF s(2)] obtain h' where h': "SPLAY_ASSEMBLE s = Some h'"
    "sp_at (sp_mem h) es h' \<langle>hang_left ls q, (b, f), \<langle>\<rangle>\<rangle>" by auto
  have "SPLAY_MAX h = Some (h', first_ptr (rev es))"
    using s(1) h' False by (auto simp: SPLAY_MAX_def SPLAY_MIN_MAX_def SPLAY_MINMAX_def sp_at_def)
  then show ?thesis using sp_tableI [OF h'(2) sorted] sp_at_outside [OF h'(2)] by blast
qed

text \<open>\<open>SPLAY_MINMAX\<close> with neither sign would go round for ever.\<close>

lemma splay_minmax_zero: "splay_loop (splay_minmax_step 0) s = None"
proof -
  have "step \<noteq> splay_minmax_step 0" if "splay_loop step s = Some r" for step s and r :: "'a splay_run"
  proof (rule splay_loop.raw_induct [OF _ that, where P = "\<lambda>step s r. step \<noteq> splay_minmax_step 0"])
    fix loop :: "('a splay_run \<Rightarrow> ('a splay_run \<times> bool) option) \<Rightarrow> 'a splay_run \<Rightarrow> 'a splay_run option" and step s r
    assume IH: "\<And>step s r. loop step s = Some r \<Longrightarrow> step \<noteq> splay_minmax_step 0"
      and body: "do { r \<leftarrow> step s; if snd r then loop step (fst r) else Some (fst r) } = Some r"
    show "step \<noteq> splay_minmax_step 0"
    proof
      assume "step = splay_minmax_step 0"
      with body have "loop step s = Some r" by (simp add: splay_minmax_step_def)
      from IH [OF this] \<open>step = splay_minmax_step 0\<close> show False by simp
    qed
  qed
  then show ?thesis by (cases "splay_loop (splay_minmax_step 0) s") auto
qed

context table_order
begin

text \<open>\<open>SPLAY_FOREACH\<close> around a statement \<open>f\<close> on the rest of the state.\<close>

lemma splay_walk_ok:
  "sp_table key h (xs @ ys) \<Longrightarrow>
    map_option snd (splay_walk cmp (\<lambda>a s. map_option (Pair (fst s)) (f a (snd s))) (first_ptr ys) (h, s)) = each f (map fst ys) s"
proof (induction ys arbitrary: xs h s)
  case Nil
  then show ?case by (simp add: splay_walk.simps)
next
  case (Cons y ys)
  obtain a e where y: "y = (a, e)" by (cases y)
  from splay_next_ok [OF Cons.prems [unfolded y]] obtain h'
    where h': "SPLAY_NEXT cmp h (Some a) = Some (h', first_ptr ys)" "sp_table key h' ((xs @ [(a, e)]) @ ys)" by auto
  from Cons.IH [OF h'(2)] show ?case
    using h'(1) by (cases "f a s") (simp_all add: y splay_walk.simps [of _ _ "Some a"])
qed

lemma splay_foreach_ok:
  assumes "sp_table key h es"
  shows "map_option snd (SPLAY_FOREACH cmp (\<lambda>a s. map_option (Pair (fst s)) (f a (snd s))) (h, s)) = each f (map fst es) s"
proof -
  from splay_min_ok [OF assms] obtain h' where "SPLAY_MIN h = Some (h', first_ptr es)" "sp_table key h' ([] @ es)" by auto
  with splay_walk_ok [OF this(2), of f s] show ?thesis by (simp add: SPLAY_FOREACH_def)
qed

end

text \<open>
  C22. Looking up and inserting in a splay tree, for any comparison of a key in a linear order.  On a table in
  order \<open>SPLAY_FIND\<close> returns the entry of the key or \<open>NULL\<close>.  \<open>SPLAY_INSERT\<close> of a node that is not in the table
  returns the entry that has the key already, and then only reshapes the tree, or links the node and returns
  \<open>NULL\<close>.  Both return, keep the order and every other entry, and touch no other memory.
\<close>

theorem splay_insert_correct:
  fixes key :: "'a \<Rightarrow> 'k::linorder"
  assumes "\<And>a b. cmp a b < 0 \<longleftrightarrow> key a < key b" "\<And>a b. cmp a b > 0 \<longleftrightarrow> key b < key a"
    and "sp_table key h es"
  shows "(\<forall>x. \<exists>h'. SPLAY_FIND cmp h x = Some (h', sp_lookup key es (key x)) \<and> sp_table key h' es \<and>
      (\<forall>b. b \<notin> sp_addrs es \<longrightarrow> sp_mem h' b = sp_mem h b)) \<and>
    (\<forall>q n. sp_mem h q = Some n \<longrightarrow> q \<notin> sp_addrs es \<longrightarrow>
      (\<exists>h' es'. SPLAY_INSERT cmp h (Some q) = Some (h', sp_lookup key es (key (sp_elm n))) \<and> sp_table key h' es' \<and>
        set es' = (if sp_lookup key es (key (sp_elm n)) = None then insert (q, sp_elm n) (set es) else set es) \<and>
        (\<forall>b. b \<notin> insert q (sp_addrs es) \<longrightarrow> sp_mem h' b = sp_mem h b)))"
proof -
  have ord: "table_order cmp key" using assms(1,2) by unfold_locales
  show ?thesis
    using table_order.splay_find_ok [OF ord assms(3)] table_order.splay_insert_ok [OF ord assms(3)] by blast
qed

text \<open>
  C21. \<open>SPLAY_REMOVE\<close> on a splay tree in order unlinks the entry with the key of its argument and no other, and
  joins the two parts of the tree, which stay in order; it returns its argument if there was such an entry,
  even when that was another node, and \<open>NULL\<close> otherwise.  It returns and touches no other memory.  Walking
  what is left with \<open>SPLAY_FOREACH\<close> visits the other entries in the order of their keys.
\<close>

theorem splay_remove_correct:
  fixes key :: "'a \<Rightarrow> 'k::linorder"
  assumes "\<And>a b. cmp a b < 0 \<longleftrightarrow> key a < key b" "\<And>a b. cmp a b > 0 \<longleftrightarrow> key b < key a"
    and "sp_table key h es" "sp_mem h p = Some n"
  shows "\<exists>h'. SPLAY_REMOVE cmp h (Some p) =
      Some (h', if key (sp_elm n) \<in> (\<lambda>x. key (snd x)) ` set es then Some p else None) \<and>
    sp_table key h' (filter (\<lambda>x. key (snd x) \<noteq> key (sp_elm n)) es) \<and>
    (\<forall>b. b \<notin> sp_addrs es \<longrightarrow> sp_mem h' b = sp_mem h b) \<and>
    (\<forall>f s. map_option snd (SPLAY_FOREACH cmp (\<lambda>a s. map_option (Pair (fst s)) (f a (snd s))) (h', s)) =
      each f (map fst (filter (\<lambda>x. key (snd x) \<noteq> key (sp_elm n)) es)) (s :: 's))"
proof -
  have ord: "table_order cmp key" using assms(1,2) by unfold_locales
  from table_order.splay_remove_ok [OF ord assms(3,4)] obtain h'
    where h': "SPLAY_REMOVE cmp h (Some p) =
      Some (h', if key (sp_elm n) \<in> (\<lambda>x. key (snd x)) ` set es then Some p else None)"
    "sp_table key h' (filter (\<lambda>x. key (snd x) \<noteq> key (sp_elm n)) es)"
    "\<forall>b. b \<notin> sp_addrs es \<longrightarrow> sp_mem h' b = sp_mem h b" by blast
  with table_order.splay_foreach_ok [OF ord h'(2)] show ?thesis by blast
qed

definition example_splay_node :: "ptr option \<Rightarrow> ptr option \<Rightarrow> int \<Rightarrow> int splay_node" where
  "example_splay_node l r e = \<lparr>spe_left = l, spe_right = r, sp_elm = e\<rparr>"

text \<open>The entries 1, 2 and 3 in a chain, and a node with the payload 4 that is not linked.\<close>

definition splay_example :: "int splay_head" where
  "splay_example = \<lparr>sph_root = Some 6, sp_mem = [4 \<mapsto> example_splay_node None None 1, 5 \<mapsto> example_splay_node (Some 4) None 2,
     6 \<mapsto> example_splay_node (Some 5) None 3, 7 \<mapsto> example_splay_node None None 4]\<rparr>"

lemma splay_example_ok: "sp_table id splay_example [(4, 1), (5, 2), (6, 3)]"
proof -
  have "sp_at (sp_mem splay_example) [(4, 1), (5, 2), (6, 3)] splay_example
      \<langle>\<langle>\<langle>\<langle>\<rangle>, (4, 1), \<langle>\<rangle>\<rangle>, (5, 2), \<langle>\<rangle>\<rangle>, (6, 3), \<langle>\<rangle>\<rangle>"
    by (simp add: sp_at_def splay_example_def example_splay_node_def)
  then show ?thesis by (rule sp_tableI) simp
qed

theorem splay_insert_correct_witness:
  "\<exists>h' es'. SPLAY_INSERT (-) splay_example (Some 7) = Some (h', None) \<and> sp_table id h' es' \<and>
     set es' = {(7, 4), (4, 1), (5, 2), (6, 3)}"
proof -
  have m: "sp_mem splay_example 7 = Some (example_splay_node None None 4)" by (simp add: splay_example_def)
  have "sp_lookup id [(4, 1), (5, 2), (6, 3)] (4 :: int) = None" by (simp add: sp_lookup_def)
  with splay_insert_correct [of "(-)" id, OF _ _ splay_example_ok] m show ?thesis
    by (fastforce simp: example_splay_node_def)
qed

theorem splay_remove_correct_witness:
  "\<exists>h'. SPLAY_REMOVE (-) splay_example (Some 5) = Some (h', Some 5) \<and> sp_table id h' [(4, 1), (6, 3)] \<and>
     map_option snd (SPLAY_FOREACH (-) (\<lambda>a s. map_option (Pair (fst s)) (Some (snd s @ [a]))) (h', [])) = Some [4, 6]"
proof -
  have m: "sp_mem splay_example 5 = Some (example_splay_node (Some 4) None 2)" by (simp add: splay_example_def)
  from splay_remove_correct [of "(-)" id, OF _ _ splay_example_ok m] obtain h'
    where h': "SPLAY_REMOVE (-) splay_example (Some 5) = Some (h', Some 5)" "sp_table id h' [(4, 1), (6, 3)]"
      "\<forall>f s. map_option snd (SPLAY_FOREACH (-) (\<lambda>a s. map_option (Pair (fst s)) (f a (snd s))) (h', s)) =
        each f [4, 6] (s :: ptr list)"
    by (auto simp: example_splay_node_def)
  have "each (\<lambda>a s. Some (s @ [a])) [4, 6] [] = Some [4, 6 :: nat]" by simp
  with h'(1,2) h'(3) [THEN spec, THEN spec, of "\<lambda>a s. Some (s @ [a])" "[]"] show ?thesis by auto
qed

end
