(* ===== verification/Drv_Tree_Reach.thy ===== *)
theory Drv_Tree_Reach
  imports Drv_Tree_Walk
begin

text \<open>
  The tables a program can build: it starts with \<open>RB_INIT\<close>, inserts nodes that are not linked, removes nodes that
  are, and does what it likes with other memory.  No such table makes an operation fault or run for ever, and its
  searches see exactly the nodes that are linked.
\<close>

text \<open>\<open>E\<close> holds the addresses and the payloads of the nodes that are linked.\<close>

inductive table_reach :: "('a \<Rightarrow> 'a \<Rightarrow> int) \<Rightarrow> 'a rb_table \<Rightarrow> (ptr \<times> 'a) set \<Rightarrow> bool" for cmp where
  init: "table_reach cmp (RB_INIT h) {}"
| insert_new: "table_reach cmp h E \<Longrightarrow> p \<notin> fst ` E \<Longrightarrow> mem h p = Some n \<Longrightarrow>
    RB_INSERT cmp h (Some p) = Some (h', None) \<Longrightarrow> table_reach cmp h' (insert (p, elm n) E)"
| insert_old: "table_reach cmp h E \<Longrightarrow> p \<notin> fst ` E \<Longrightarrow> mem h p = Some n \<Longrightarrow>
    RB_INSERT cmp h (Some p) = Some (h', Some q) \<Longrightarrow> table_reach cmp h' E"
| remove: "table_reach cmp h E \<Longrightarrow> (p, e) \<in> E \<Longrightarrow> RB_REMOVE h (Some p) = Some h' \<Longrightarrow> table_reach cmp h' (E - {(p, e)})"
| other: "table_reach cmp h E \<Longrightarrow> p \<notin> fst ` E \<Longrightarrow> table_reach cmp (h\<lparr>mem := (mem h)(p := x)\<rparr>) E"

lemma rb_ok_init: "rb_ok key (RB_INIT h) \<langle>\<rangle>"
  by (simp add: rb_ok_def rb_at_def RB_INIT_def)

lemma rb_ok_other: "rb_ok key h t \<Longrightarrow> p \<notin> addrs t \<Longrightarrow> rb_ok key (h\<lparr>mem := (mem h)(p := x)\<rparr>) t"
  by (simp add: rb_ok_def rb_at_def)

context table_order
begin

lemma insert_cases:
  assumes "rb_ok key h t" "mem h p = Some n" "p \<notin> addrs t"
  obtains (old) a where "lookup key t (key (elm n)) = Some a" "RB_INSERT cmp h (Some p) = Some (h, Some a)"
  | (new) h' t' where "RB_INSERT cmp h (Some p) = Some (h', None)" "rb_ok key h' t'"
      "set (entries t') = insert (p, elm n) (set (entries t))"
proof (cases "lookup key t (key (elm n))")
  case (Some a)
  then show ?thesis
    using old insert_existing [OF rb_ok_wf(1) [OF assms(1)] assms(2)] rb_ok_wf(2) [OF assms(1)] by simp
next
  case None
  then have "key (elm n) \<notin> (\<lambda>x. key (snd x)) ` set (entries t)"
    by (auto simp: lookup_def map_of_eq_None_iff image_image)
  from insert_new [OF assms this] show ?thesis using new by blast
qed

lemma reach_ok: "table_reach cmp h E \<Longrightarrow> \<exists>t. rb_ok key h t \<and> set (entries t) = E"
proof (induction rule: table_reach.induct)
  case (init h)
  then show ?case using rb_ok_init by fastforce
next
  case (insert_new h E p n h')
  then obtain t where t: "rb_ok key h t" "set (entries t) = E" by blast
  then have "p \<notin> addrs t" using insert_new.hyps(2) by (simp add: addrs_entries)
  from insert_cases [OF t(1) insert_new.hyps(3) this] show ?case
    using insert_new.hyps(4) t(2) by cases auto
next
  case (insert_old h E p n h' q)
  then obtain t where t: "rb_ok key h t" "set (entries t) = E" by blast
  then have "p \<notin> addrs t" using insert_old.hyps(2) by (simp add: addrs_entries)
  from insert_cases [OF t(1) insert_old.hyps(3) this] show ?case
    using insert_old.hyps(4) t by cases auto
next
  case (remove h E p e h')
  then obtain t where t: "rb_ok key h t" "set (entries t) = E" by blast
  with remove_ok [OF t(1), of p e] remove.hyps(2,3) show ?case by fastforce
next
  case (other h E p x)
  then obtain t where t: "rb_ok key h t" "set (entries t) = E" by blast
  with rb_ok_other [OF t(1), of p x] other.hyps(2) show ?case by (auto simp: addrs_entries)
qed

end

text \<open>
  C20. A type of tables: every table that initialisation, insertions of unlinked nodes and removals of linked
  nodes lead to, in any order and with any other use of memory between them, is a red-black tree in order, of
  logarithmic height, that holds exactly the linked nodes.  On such a table every operation returns without a fault:
  \<open>RB_FIND\<close>, and it finds exactly the linked nodes, \<open>RB_INSERT\<close> of an unlinked node, and \<open>RB_REMOVE\<close>,
  \<open>RB_NEXT\<close> and \<open>RB_PREV\<close> of a linked one.
\<close>

theorem rb_tables_never_fault:
  fixes key :: "'a \<Rightarrow> 'k::linorder"
  assumes "\<And>a b. cmp a b < 0 \<longleftrightarrow> key a < key b" "\<And>a b. cmp a b > 0 \<longleftrightarrow> key b < key a"
    and "table_reach cmp h E"
  shows "(\<exists>t. rb_ok key h t \<and> set (entries t) = E \<and> 2 ^ height t \<le> (size t + 1) ^ 2) \<and>
    (\<forall>x. \<exists>r. RB_FIND cmp h x = Some r \<and> (\<forall>a. r = Some a \<longleftrightarrow> (\<exists>e. (a, e) \<in> E \<and> key e = key x))) \<and>
    (\<forall>p n. mem h p = Some n \<longrightarrow> p \<notin> fst ` E \<longrightarrow> RB_INSERT cmp h (Some p) \<noteq> None) \<and>
    (\<forall>(p, e) \<in> E. RB_REMOVE h (Some p) \<noteq> None \<and> RB_NEXT h (Some p) \<noteq> None \<and> RB_PREV h (Some p) \<noteq> None)"
proof -
  have ord: "table_order cmp key" using assms(1,2) by unfold_locales
  from table_order.reach_ok [OF ord assms(3)] obtain t where t: "rb_ok key h t" "set (entries t) = E" by blast
  have sorted: "sorted_wrt (<) (map (\<lambda>x. key (snd x)) (entries t))" "rb_at h t []" using t(1) by (auto simp: rb_ok_def)
  have "RB_FIND cmp h x = Some (lookup key t (key x))" for x
    using table_order.find_assoc [OF ord rb_ok_wf(1) [OF t(1)]] by (simp add: rb_ok_wf(2) [OF t(1)])
  then have "\<forall>x. \<exists>r. RB_FIND cmp h x = Some r \<and> (\<forall>a. r = Some a \<longleftrightarrow> (\<exists>e. (a, e) \<in> E \<and> key e = key x))"
    using lookup_Some [OF sorted(1)] t(2) by simp
  moreover have "RB_INSERT cmp h (Some p) \<noteq> None" if p: "mem h p = Some n" "p \<notin> fst ` E" for p n
  proof -
    have "p \<notin> addrs t" using p(2) t(2) by (simp add: addrs_entries)
    from table_order.insert_cases [OF ord t(1) p(1) this] show ?thesis by cases auto
  qed
  moreover have "RB_REMOVE h (Some p) \<noteq> None \<and> RB_NEXT h (Some p) \<noteq> None \<and> RB_PREV h (Some p) \<noteq> None" if "(p, e) \<in> E" for p e
  proof -
    from that t(2) obtain xs ys where "entries t = xs @ (p, e) # ys" by (metis in_set_conv_decomp)
    from rb_neighbours [OF sorted(2) this] show ?thesis using remove_ok [OF t(1), of p e] that t(2) by auto
  qed
  ultimately show ?thesis using t rb_ok_height [OF t(1)] by blast
qed

text \<open>Three loose nodes, two of which are inserted.\<close>

definition loose_nodes :: "int rb_table" where
  "loose_nodes = \<lparr>rbh_root = None, mem =
    [4 \<mapsto> \<lparr>rbe_left = None, rbe_right = None, rbe_parent = None, rbe_color = RB_BLACK, elm = 1\<rparr>,
     5 \<mapsto> \<lparr>rbe_left = None, rbe_right = None, rbe_parent = None, rbe_color = RB_BLACK, elm = 2\<rparr>]\<rparr>"

lemma two_inserted:
  "\<exists>h1 h2. RB_INSERT (-) loose_nodes (Some 4) = Some (h1, None) \<and> RB_INSERT (-) h1 (Some 5) = Some (h2, None) \<and>
     map_option elm (mem h1 5) = Some 2"
proof -
  have "(case RB_INSERT (-) loose_nodes (Some 4) of Some (h1, None) \<Rightarrow> map_option elm (mem h1 5) = Some 2 \<and>
      (case RB_INSERT (-) h1 (Some 5) of Some (h2, None) \<Rightarrow> True | _ \<Rightarrow> False) | _ \<Rightarrow> False)" by code_simp
  then show ?thesis by (auto split: option.splits prod.splits)
qed

theorem rb_tables_never_fault_witness:
  "\<exists>h :: int rb_table. table_reach (-) h {(5, 2), (4, 1)} \<and> RB_REMOVE h (Some 4) \<noteq> None \<and> RB_FIND (-) h 2 = Some (Some 5)"
proof -
  obtain h1 h2 where h: "RB_INSERT (-) loose_nodes (Some 4) = Some (h1, None)"
    "RB_INSERT (-) h1 (Some 5) = Some (h2, None)" "map_option elm (mem h1 5) = Some 2" using two_inserted by blast
  from h(3) obtain n where n: "mem h1 5 = Some n" "elm n = 2" by auto
  have "loose_nodes = RB_INIT loose_nodes" by (simp add: loose_nodes_def RB_INIT_def)
  then have "table_reach (-) loose_nodes {}" using table_reach.init by metis
  from table_reach.insert_new [OF this _ _ h(1)] have "table_reach (-) h1 {(4, 1)}" by (simp add: loose_nodes_def)
  from table_reach.insert_new [OF this _ n(1) h(2)] have r: "table_reach (-) h2 {(5, 2), (4, 1)}" by (simp add: n(2))
  have f: "\<forall>x. \<exists>q. RB_FIND (-) h2 x = Some q \<and> (\<forall>a. q = Some a \<longleftrightarrow> (\<exists>e. (a, e) \<in> {(5, 2), (4, 1)} \<and> id e = id x))"
    and rm: "RB_REMOVE h2 (Some 4) \<noteq> None"
    using rb_tables_never_fault [of "(-)" id, OF _ _ r] by simp_all
  from f [THEN spec, of 2] obtain q where q: "RB_FIND (-) h2 2 = Some q" "\<forall>a. q = Some a \<longleftrightarrow> a = 5" by auto
  then have "q = Some 5" by simp
  then show ?thesis using r rm q(1) by (intro exI [of _ h2]) simp
qed

end
