(* ===== verification/Ext4_Fs.thy ===== *)
theory Ext4_Fs
  imports Drv_Types
begin

text \<open>
  \<open>include/ext4_fs.h\<close>, lines 17 to 714: the layout of the on-disk structures, the features of a
  file system, and the time stamps of an inode.

  A structure is the list of its fields with their sizes, in the order of the header file, which
  packs them without padding; \<open>field_offset\<close> computes where a field lies.  The few fields of the
  superblock that the macros read become a record that is loaded from those offsets.
\<close>

section \<open>Layout\<close>

type_synonym layout = "(string \<times> nat) list"

definition layout_size :: "layout \<Rightarrow> nat" where
  "layout_size fields = sum_list (map snd fields)"

fun field_offset :: "layout \<Rightarrow> string \<Rightarrow> nat option" where
  "field_offset [] f = None"
| "field_offset ((g, n) # fields) f = (if g = f then Some 0 else map_option ((+) n) (field_offset fields f))"

definition ext4_super_block_layout :: layout where
  "ext4_super_block_layout = [
    (''s_inodes_count'', 4), (''s_blocks_count_lo'', 4), (''s_r_blocks_count_lo'', 4),
    (''s_free_blocks_count_lo'', 4), (''s_free_inodes_count'', 4), (''s_first_data_block'', 4),
    (''s_log_block_size'', 4), (''s_log_cluster_size'', 4), (''s_blocks_per_group'', 4),
    (''s_clusters_per_group'', 4), (''s_inodes_per_group'', 4), (''s_mtime'', 4),
    (''s_wtime'', 4), (''s_mnt_count'', 2), (''s_max_mnt_count'', 2), (''s_magic'', 2),
    (''s_state'', 2), (''s_errors'', 2), (''s_minor_rev_level'', 2), (''s_lastcheck'', 4),
    (''s_checkinterval'', 4), (''s_creator_os'', 4), (''s_rev_level'', 4), (''s_def_resuid'', 2),
    (''s_def_resgid'', 2), (''s_first_ino'', 4), (''s_inode_size'', 2),
    (''s_block_group_nr'', 2), (''s_feature_compat'', 4), (''s_feature_incompat'', 4),
    (''s_feature_ro_compat'', 4), (''s_uuid'', 16), (''s_volume_name'', 16),
    (''s_last_mounted'', 64), (''s_algorithm_usage_bitmap'', 4), (''s_prealloc_blocks'', 1),
    (''s_prealloc_dir_blocks'', 1), (''s_reserved_gdt_blocks'', 2), (''s_journal_uuid'', 16),
    (''s_journal_inum'', 4), (''s_journal_dev'', 4), (''s_last_orphan'', 4),
    (''s_hash_seed'', 16), (''s_def_hash_version'', 1), (''s_jnl_backup_type'', 1),
    (''s_desc_size'', 2), (''s_default_mount_opts'', 4), (''s_first_meta_bg'', 4),
    (''s_mkfs_time'', 4), (''s_jnl_blocks'', 68), (''s_blocks_count_hi'', 4),
    (''s_r_blocks_count_hi'', 4), (''s_free_blocks_count_hi'', 4), (''s_min_extra_isize'', 2),
    (''s_want_extra_isize'', 2), (''s_flags'', 4), (''s_raid_stride'', 2),
    (''s_mmp_update_interval'', 2), (''s_mmp_block'', 8), (''s_raid_stripe_width'', 4),
    (''s_log_groups_per_flex'', 1), (''s_checksum_type'', 1), (''s_encryption_level'', 1),
    (''s_reserved_pad'', 1), (''s_kbytes_written'', 8), (''s_snapshot_inum'', 4),
    (''s_snapshot_id'', 4), (''s_snapshot_r_blocks_count'', 8), (''s_snapshot_list'', 4),
    (''s_error_count'', 4), (''s_first_error_time'', 4), (''s_first_error_ino'', 4),
    (''s_first_error_block'', 8), (''s_first_error_func'', 32), (''s_first_error_line'', 4),
    (''s_last_error_time'', 4), (''s_last_error_ino'', 4), (''s_last_error_line'', 4),
    (''s_last_error_block'', 8), (''s_last_error_func'', 32), (''s_mount_opts'', 64),
    (''s_usr_quota_inum'', 4), (''s_grp_quota_inum'', 4), (''s_overhead_clusters'', 4),
    (''s_backup_bgs'', 8), (''s_encrypt_algos'', 4), (''s_encrypt_pw_salt'', 16),
    (''s_lpf_ino'', 4), (''s_prj_quota_inum'', 4), (''s_checksum_seed'', 4),
    (''s_reserved'', 392), (''s_checksum'', 4)]"

definition ext4_group_desc_layout :: layout where
  "ext4_group_desc_layout = [
    (''bg_block_bitmap_lo'', 4), (''bg_inode_bitmap_lo'', 4), (''bg_inode_table_lo'', 4),
    (''bg_free_blocks_count_lo'', 2), (''bg_free_inodes_count_lo'', 2),
    (''bg_used_dirs_count_lo'', 2), (''bg_flags'', 2), (''bg_exclude_bitmap_lo'', 4),
    (''bg_block_bitmap_csum_lo'', 2), (''bg_inode_bitmap_csum_lo'', 2),
    (''bg_itable_unused_lo'', 2), (''bg_checksum'', 2), (''bg_block_bitmap_hi'', 4),
    (''bg_inode_bitmap_hi'', 4), (''bg_inode_table_hi'', 4), (''bg_free_blocks_count_hi'', 2),
    (''bg_free_inodes_count_hi'', 2), (''bg_used_dirs_count_hi'', 2),
    (''bg_itable_unused_hi'', 2), (''bg_exclude_bitmap_hi'', 4),
    (''bg_block_bitmap_csum_hi'', 2), (''bg_inode_bitmap_csum_hi'', 2), (''bg_reserved'', 4)]"

text \<open>The unions of the inode are laid out as their Linux member; the other members have the same size.\<close>

definition ext4_inode_layout :: layout where
  "ext4_inode_layout = [
    (''i_mode'', 2), (''i_uid'', 2), (''i_size_lo'', 4), (''i_atime'', 4), (''i_ctime'', 4),
    (''i_mtime'', 4), (''i_dtime'', 4), (''i_gid'', 2), (''i_links_count'', 2),
    (''i_blocks_lo'', 4), (''i_flags'', 4), (''l_i_version'', 4), (''i_block'', 60),
    (''i_generation'', 4), (''i_file_acl_lo'', 4), (''i_size_high'', 4), (''i_obso_faddr'', 4),
    (''l_i_blocks_high'', 2), (''l_i_file_acl_high'', 2), (''l_i_uid_high'', 2),
    (''l_i_gid_high'', 2), (''l_i_checksum_lo'', 2), (''l_i_reserved'', 2),
    (''i_extra_isize'', 2), (''i_checksum_hi'', 2), (''i_ctime_extra'', 4),
    (''i_mtime_extra'', 4), (''i_atime_extra'', 4), (''i_crtime'', 4), (''i_crtime_extra'', 4),
    (''i_version_hi'', 4), (''i_projid'', 4)]"

definition osd1_layouts :: "layout list" where
  "osd1_layouts = [[(''l_i_version'', 4)], [(''h_i_translator'', 4)], [(''m_i_reserved1'', 4)]]"

definition osd2_layouts :: "layout list" where
  "osd2_layouts = [[
    (''l_i_blocks_high'', 2), (''l_i_file_acl_high'', 2), (''l_i_uid_high'', 2),
    (''l_i_gid_high'', 2), (''l_i_checksum_lo'', 2), (''l_i_reserved'', 2)], [
    (''h_i_reserved1'', 2), (''h_i_mode_high'', 2), (''h_i_uid_high'', 2), (''h_i_gid_high'', 2),
    (''h_i_author'', 4)], [
    (''h_i_reserved1'', 2), (''m_i_file_acl_high'', 2), (''m_i_reserved2'', 8)]]"

text \<open>The offsets that the comments of the superblock give, and the sizes of the structures.\<close>

lemma ext4_super_block_commented_offsets:
  "map (field_offset ext4_super_block_layout) [''s_inodes_count'', ''s_free_inodes_count'',
     ''s_blocks_per_group'', ''s_wtime'', ''s_lastcheck'', ''s_def_resuid'', ''s_feature_incompat'',
     ''s_uuid'', ''s_volume_name'', ''s_last_mounted'', ''s_algorithm_usage_bitmap'',
     ''s_journal_uuid'', ''s_journal_inum'', ''s_default_mount_opts'', ''s_blocks_count_hi'', ''s_checksum'']
   = map Some [0x0, 0x10, 0x20, 0x30, 0x40, 0x50, 0x60, 0x68, 0x78, 0x88, 0xC8, 0xD0, 0xE0, 0x100, 0x150, 0x3FC]"
  by code_simp

lemma ext4_layout_sizes:
  "layout_size ext4_super_block_layout = 1024" "layout_size ext4_group_desc_layout = 64"
  "layout_size ext4_inode_layout = 160"
  by code_simp+

lemma ext4_inode_offsets:
  "field_offset ext4_inode_layout ''i_block'' = Some 40"
  "field_offset ext4_inode_layout ''i_extra_isize'' = Some 128"
  "list_all (\<lambda>l. layout_size l = 4) osd1_layouts" "list_all (\<lambda>l. layout_size l = 12) osd2_layouts"
  by code_simp+

section \<open>Features\<close>

record ext4_super_block =
  s_log_block_size :: u32
  s_rev_level :: u32
  s_first_ino :: u32
  s_inode_size :: u16
  s_feature_compat :: u32
  s_feature_incompat :: u32
  s_feature_ro_compat :: u32

definition load_ext4_super_block :: "byte list \<Rightarrow> ext4_super_block option" where
  "load_ext4_super_block buf = do {
     lb \<leftarrow> ld buf 0x18; rl \<leftarrow> ld buf 0x4C; fi \<leftarrow> ld buf 0x54; isz \<leftarrow> ld buf 0x58;
     c \<leftarrow> ld buf 0x5C; ic \<leftarrow> ld buf 0x60; ro \<leftarrow> ld buf 0x64;
     Some \<lparr>s_log_block_size = lb, s_rev_level = rl, s_first_ino = fi, s_inode_size = isz,
       s_feature_compat = c, s_feature_incompat = ic, s_feature_ro_compat = ro\<rparr> }"

lemma load_ext4_super_block_offsets:
  "map (field_offset ext4_super_block_layout) [''s_log_block_size'', ''s_rev_level'', ''s_first_ino'',
     ''s_inode_size'', ''s_feature_compat'', ''s_feature_incompat'', ''s_feature_ro_compat'']
   = map Some [0x18, 0x4C, 0x54, 0x58, 0x5C, 0x60, 0x64]"
  by code_simp

definition EXT4_FEATURE_COMPAT_DIR_PREALLOC :: u32 where "EXT4_FEATURE_COMPAT_DIR_PREALLOC = 0x0001"
definition EXT4_FEATURE_COMPAT_IMAGIC_INODES :: u32 where "EXT4_FEATURE_COMPAT_IMAGIC_INODES = 0x0002"
definition EXT4_FEATURE_COMPAT_HAS_JOURNAL :: u32 where "EXT4_FEATURE_COMPAT_HAS_JOURNAL = 0x0004"
definition EXT4_FEATURE_COMPAT_EXT_ATTR :: u32 where "EXT4_FEATURE_COMPAT_EXT_ATTR = 0x0008"
definition EXT4_FEATURE_COMPAT_RESIZE_INODE :: u32 where "EXT4_FEATURE_COMPAT_RESIZE_INODE = 0x0010"
definition EXT4_FEATURE_COMPAT_DIR_INDEX :: u32 where "EXT4_FEATURE_COMPAT_DIR_INDEX = 0x0020"
definition EXT4_FEATURE_COMPAT_SPARSE_SUPER2 :: u32 where "EXT4_FEATURE_COMPAT_SPARSE_SUPER2 = 0x0200"
definition EXT4_FEATURE_RO_COMPAT_SPARSE_SUPER :: u32 where "EXT4_FEATURE_RO_COMPAT_SPARSE_SUPER = 0x0001"
definition EXT4_FEATURE_RO_COMPAT_LARGE_FILE :: u32 where "EXT4_FEATURE_RO_COMPAT_LARGE_FILE = 0x0002"
definition EXT4_FEATURE_RO_COMPAT_BTREE_DIR :: u32 where "EXT4_FEATURE_RO_COMPAT_BTREE_DIR = 0x0004"
definition EXT4_FEATURE_RO_COMPAT_HUGE_FILE :: u32 where "EXT4_FEATURE_RO_COMPAT_HUGE_FILE = 0x0008"
definition EXT4_FEATURE_RO_COMPAT_GDT_CSUM :: u32 where "EXT4_FEATURE_RO_COMPAT_GDT_CSUM = 0x0010"
definition EXT4_FEATURE_RO_COMPAT_DIR_NLINK :: u32 where "EXT4_FEATURE_RO_COMPAT_DIR_NLINK = 0x0020"
definition EXT4_FEATURE_RO_COMPAT_EXTRA_ISIZE :: u32 where "EXT4_FEATURE_RO_COMPAT_EXTRA_ISIZE = 0x0040"
definition EXT4_FEATURE_RO_COMPAT_QUOTA :: u32 where "EXT4_FEATURE_RO_COMPAT_QUOTA = 0x0100"
definition EXT4_FEATURE_RO_COMPAT_BIGALLOC :: u32 where "EXT4_FEATURE_RO_COMPAT_BIGALLOC = 0x0200"
definition EXT4_FEATURE_RO_COMPAT_METADATA_CSUM :: u32 where "EXT4_FEATURE_RO_COMPAT_METADATA_CSUM = 0x0400"
definition EXT4_FEATURE_RO_COMPAT_READONLY :: u32 where "EXT4_FEATURE_RO_COMPAT_READONLY = 0x1000"
definition EXT4_FEATURE_RO_COMPAT_PROJECT :: u32 where "EXT4_FEATURE_RO_COMPAT_PROJECT = 0x2000"
definition EXT4_FEATURE_INCOMPAT_COMPRESSION :: u32 where "EXT4_FEATURE_INCOMPAT_COMPRESSION = 0x0001"
definition EXT4_FEATURE_INCOMPAT_FILETYPE :: u32 where "EXT4_FEATURE_INCOMPAT_FILETYPE = 0x0002"
definition EXT4_FEATURE_INCOMPAT_RECOVER :: u32 where "EXT4_FEATURE_INCOMPAT_RECOVER = 0x0004"
definition EXT4_FEATURE_INCOMPAT_JOURNAL_DEV :: u32 where "EXT4_FEATURE_INCOMPAT_JOURNAL_DEV = 0x0008"
definition EXT4_FEATURE_INCOMPAT_META_BG :: u32 where "EXT4_FEATURE_INCOMPAT_META_BG = 0x0010"
definition EXT4_FEATURE_INCOMPAT_EXTENTS :: u32 where "EXT4_FEATURE_INCOMPAT_EXTENTS = 0x0040"
definition EXT4_FEATURE_INCOMPAT_64BIT :: u32 where "EXT4_FEATURE_INCOMPAT_64BIT = 0x0080"
definition EXT4_FEATURE_INCOMPAT_MMP :: u32 where "EXT4_FEATURE_INCOMPAT_MMP = 0x0100"
definition EXT4_FEATURE_INCOMPAT_FLEX_BG :: u32 where "EXT4_FEATURE_INCOMPAT_FLEX_BG = 0x0200"
definition EXT4_FEATURE_INCOMPAT_EA_INODE :: u32 where "EXT4_FEATURE_INCOMPAT_EA_INODE = 0x0400"
definition EXT4_FEATURE_INCOMPAT_DIRDATA :: u32 where "EXT4_FEATURE_INCOMPAT_DIRDATA = 0x1000"
definition EXT4_FEATURE_INCOMPAT_CSUM_SEED :: u32 where "EXT4_FEATURE_INCOMPAT_CSUM_SEED = 0x2000"
definition EXT4_FEATURE_INCOMPAT_LARGEDIR :: u32 where "EXT4_FEATURE_INCOMPAT_LARGEDIR = 0x4000"
definition EXT4_FEATURE_INCOMPAT_INLINE_DATA :: u32 where "EXT4_FEATURE_INCOMPAT_INLINE_DATA = 0x8000"
definition EXT4_FEATURE_INCOMPAT_ENCRYPT :: u32 where "EXT4_FEATURE_INCOMPAT_ENCRYPT = 0x10000"

definition ext4_compat_flags :: "u32 list" where
  "ext4_compat_flags = [EXT4_FEATURE_COMPAT_DIR_PREALLOC,
     EXT4_FEATURE_COMPAT_IMAGIC_INODES,
     EXT4_FEATURE_COMPAT_HAS_JOURNAL,
     EXT4_FEATURE_COMPAT_EXT_ATTR,
     EXT4_FEATURE_COMPAT_RESIZE_INODE,
     EXT4_FEATURE_COMPAT_DIR_INDEX,
     EXT4_FEATURE_COMPAT_SPARSE_SUPER2]"

lemmas ext4_compat_flag_defs = EXT4_FEATURE_COMPAT_DIR_PREALLOC_def EXT4_FEATURE_COMPAT_IMAGIC_INODES_def EXT4_FEATURE_COMPAT_HAS_JOURNAL_def EXT4_FEATURE_COMPAT_EXT_ATTR_def EXT4_FEATURE_COMPAT_RESIZE_INODE_def EXT4_FEATURE_COMPAT_DIR_INDEX_def EXT4_FEATURE_COMPAT_SPARSE_SUPER2_def

definition ext4_has_compat :: "u32 \<Rightarrow> ext4_super_block \<Rightarrow> bool" where
  "ext4_has_compat flag s \<longleftrightarrow> s_feature_compat s AND cpu_to_le32 flag \<noteq> 0"

definition ext4_set_compat :: "u32 \<Rightarrow> ext4_super_block \<Rightarrow> ext4_super_block" where
  "ext4_set_compat flag s = s\<lparr>s_feature_compat := s_feature_compat s OR cpu_to_le32 flag\<rparr>"

definition ext4_clear_compat :: "u32 \<Rightarrow> ext4_super_block \<Rightarrow> ext4_super_block" where
  "ext4_clear_compat flag s = s\<lparr>s_feature_compat := s_feature_compat s AND NOT (cpu_to_le32 flag)\<rparr>"

definition ext4_ro_compat_flags :: "u32 list" where
  "ext4_ro_compat_flags = [EXT4_FEATURE_RO_COMPAT_SPARSE_SUPER,
     EXT4_FEATURE_RO_COMPAT_LARGE_FILE,
     EXT4_FEATURE_RO_COMPAT_BTREE_DIR,
     EXT4_FEATURE_RO_COMPAT_HUGE_FILE,
     EXT4_FEATURE_RO_COMPAT_GDT_CSUM,
     EXT4_FEATURE_RO_COMPAT_DIR_NLINK,
     EXT4_FEATURE_RO_COMPAT_EXTRA_ISIZE,
     EXT4_FEATURE_RO_COMPAT_QUOTA,
     EXT4_FEATURE_RO_COMPAT_BIGALLOC,
     EXT4_FEATURE_RO_COMPAT_METADATA_CSUM,
     EXT4_FEATURE_RO_COMPAT_READONLY,
     EXT4_FEATURE_RO_COMPAT_PROJECT]"

lemmas ext4_ro_compat_flag_defs = EXT4_FEATURE_RO_COMPAT_SPARSE_SUPER_def EXT4_FEATURE_RO_COMPAT_LARGE_FILE_def EXT4_FEATURE_RO_COMPAT_BTREE_DIR_def EXT4_FEATURE_RO_COMPAT_HUGE_FILE_def EXT4_FEATURE_RO_COMPAT_GDT_CSUM_def EXT4_FEATURE_RO_COMPAT_DIR_NLINK_def EXT4_FEATURE_RO_COMPAT_EXTRA_ISIZE_def EXT4_FEATURE_RO_COMPAT_QUOTA_def EXT4_FEATURE_RO_COMPAT_BIGALLOC_def EXT4_FEATURE_RO_COMPAT_METADATA_CSUM_def EXT4_FEATURE_RO_COMPAT_READONLY_def EXT4_FEATURE_RO_COMPAT_PROJECT_def

definition ext4_has_ro_compat :: "u32 \<Rightarrow> ext4_super_block \<Rightarrow> bool" where
  "ext4_has_ro_compat flag s \<longleftrightarrow> s_feature_ro_compat s AND cpu_to_le32 flag \<noteq> 0"

definition ext4_set_ro_compat :: "u32 \<Rightarrow> ext4_super_block \<Rightarrow> ext4_super_block" where
  "ext4_set_ro_compat flag s = s\<lparr>s_feature_ro_compat := s_feature_ro_compat s OR cpu_to_le32 flag\<rparr>"

definition ext4_clear_ro_compat :: "u32 \<Rightarrow> ext4_super_block \<Rightarrow> ext4_super_block" where
  "ext4_clear_ro_compat flag s = s\<lparr>s_feature_ro_compat := s_feature_ro_compat s AND NOT (cpu_to_le32 flag)\<rparr>"

definition ext4_incompat_flags :: "u32 list" where
  "ext4_incompat_flags = [EXT4_FEATURE_INCOMPAT_COMPRESSION,
     EXT4_FEATURE_INCOMPAT_FILETYPE,
     EXT4_FEATURE_INCOMPAT_RECOVER,
     EXT4_FEATURE_INCOMPAT_JOURNAL_DEV,
     EXT4_FEATURE_INCOMPAT_META_BG,
     EXT4_FEATURE_INCOMPAT_EXTENTS,
     EXT4_FEATURE_INCOMPAT_64BIT,
     EXT4_FEATURE_INCOMPAT_MMP,
     EXT4_FEATURE_INCOMPAT_FLEX_BG,
     EXT4_FEATURE_INCOMPAT_EA_INODE,
     EXT4_FEATURE_INCOMPAT_DIRDATA,
     EXT4_FEATURE_INCOMPAT_CSUM_SEED,
     EXT4_FEATURE_INCOMPAT_LARGEDIR,
     EXT4_FEATURE_INCOMPAT_INLINE_DATA,
     EXT4_FEATURE_INCOMPAT_ENCRYPT]"

lemmas ext4_incompat_flag_defs = EXT4_FEATURE_INCOMPAT_COMPRESSION_def EXT4_FEATURE_INCOMPAT_FILETYPE_def EXT4_FEATURE_INCOMPAT_RECOVER_def EXT4_FEATURE_INCOMPAT_JOURNAL_DEV_def EXT4_FEATURE_INCOMPAT_META_BG_def EXT4_FEATURE_INCOMPAT_EXTENTS_def EXT4_FEATURE_INCOMPAT_64BIT_def EXT4_FEATURE_INCOMPAT_MMP_def EXT4_FEATURE_INCOMPAT_FLEX_BG_def EXT4_FEATURE_INCOMPAT_EA_INODE_def EXT4_FEATURE_INCOMPAT_DIRDATA_def EXT4_FEATURE_INCOMPAT_CSUM_SEED_def EXT4_FEATURE_INCOMPAT_LARGEDIR_def EXT4_FEATURE_INCOMPAT_INLINE_DATA_def EXT4_FEATURE_INCOMPAT_ENCRYPT_def

definition ext4_has_incompat :: "u32 \<Rightarrow> ext4_super_block \<Rightarrow> bool" where
  "ext4_has_incompat flag s \<longleftrightarrow> s_feature_incompat s AND cpu_to_le32 flag \<noteq> 0"

definition ext4_set_incompat :: "u32 \<Rightarrow> ext4_super_block \<Rightarrow> ext4_super_block" where
  "ext4_set_incompat flag s = s\<lparr>s_feature_incompat := s_feature_incompat s OR cpu_to_le32 flag\<rparr>"

definition ext4_clear_incompat :: "u32 \<Rightarrow> ext4_super_block \<Rightarrow> ext4_super_block" where
  "ext4_clear_incompat flag s = s\<lparr>s_feature_incompat := s_feature_incompat s AND NOT (cpu_to_le32 flag)\<rparr>"

definition ext4_has_feature_dir_prealloc :: "ext4_super_block \<Rightarrow> bool" where
  "ext4_has_feature_dir_prealloc = ext4_has_compat EXT4_FEATURE_COMPAT_DIR_PREALLOC"
definition ext4_has_feature_imagic_inodes :: "ext4_super_block \<Rightarrow> bool" where
  "ext4_has_feature_imagic_inodes = ext4_has_compat EXT4_FEATURE_COMPAT_IMAGIC_INODES"
definition ext4_has_feature_journal :: "ext4_super_block \<Rightarrow> bool" where
  "ext4_has_feature_journal = ext4_has_compat EXT4_FEATURE_COMPAT_HAS_JOURNAL"
definition ext4_has_feature_xattr :: "ext4_super_block \<Rightarrow> bool" where
  "ext4_has_feature_xattr = ext4_has_compat EXT4_FEATURE_COMPAT_EXT_ATTR"
definition ext4_has_feature_resize_inode :: "ext4_super_block \<Rightarrow> bool" where
  "ext4_has_feature_resize_inode = ext4_has_compat EXT4_FEATURE_COMPAT_RESIZE_INODE"
definition ext4_has_feature_dir_index :: "ext4_super_block \<Rightarrow> bool" where
  "ext4_has_feature_dir_index = ext4_has_compat EXT4_FEATURE_COMPAT_DIR_INDEX"
definition ext4_has_feature_sparse_super2 :: "ext4_super_block \<Rightarrow> bool" where
  "ext4_has_feature_sparse_super2 = ext4_has_compat EXT4_FEATURE_COMPAT_SPARSE_SUPER2"
definition ext4_has_feature_sparse_super :: "ext4_super_block \<Rightarrow> bool" where
  "ext4_has_feature_sparse_super = ext4_has_ro_compat EXT4_FEATURE_RO_COMPAT_SPARSE_SUPER"
definition ext4_has_feature_large_file :: "ext4_super_block \<Rightarrow> bool" where
  "ext4_has_feature_large_file = ext4_has_ro_compat EXT4_FEATURE_RO_COMPAT_LARGE_FILE"
definition ext4_has_feature_btree_dir :: "ext4_super_block \<Rightarrow> bool" where
  "ext4_has_feature_btree_dir = ext4_has_ro_compat EXT4_FEATURE_RO_COMPAT_BTREE_DIR"
definition ext4_has_feature_huge_file :: "ext4_super_block \<Rightarrow> bool" where
  "ext4_has_feature_huge_file = ext4_has_ro_compat EXT4_FEATURE_RO_COMPAT_HUGE_FILE"
definition ext4_has_feature_gdt_csum :: "ext4_super_block \<Rightarrow> bool" where
  "ext4_has_feature_gdt_csum = ext4_has_ro_compat EXT4_FEATURE_RO_COMPAT_GDT_CSUM"
definition ext4_has_feature_dir_nlink :: "ext4_super_block \<Rightarrow> bool" where
  "ext4_has_feature_dir_nlink = ext4_has_ro_compat EXT4_FEATURE_RO_COMPAT_DIR_NLINK"
definition ext4_has_feature_extra_isize :: "ext4_super_block \<Rightarrow> bool" where
  "ext4_has_feature_extra_isize = ext4_has_ro_compat EXT4_FEATURE_RO_COMPAT_EXTRA_ISIZE"
definition ext4_has_feature_quota :: "ext4_super_block \<Rightarrow> bool" where
  "ext4_has_feature_quota = ext4_has_ro_compat EXT4_FEATURE_RO_COMPAT_QUOTA"
definition ext4_has_feature_bigalloc :: "ext4_super_block \<Rightarrow> bool" where
  "ext4_has_feature_bigalloc = ext4_has_ro_compat EXT4_FEATURE_RO_COMPAT_BIGALLOC"
definition ext4_has_feature_metadata_csum :: "ext4_super_block \<Rightarrow> bool" where
  "ext4_has_feature_metadata_csum = ext4_has_ro_compat EXT4_FEATURE_RO_COMPAT_METADATA_CSUM"
definition ext4_has_feature_readonly :: "ext4_super_block \<Rightarrow> bool" where
  "ext4_has_feature_readonly = ext4_has_ro_compat EXT4_FEATURE_RO_COMPAT_READONLY"
definition ext4_has_feature_project :: "ext4_super_block \<Rightarrow> bool" where
  "ext4_has_feature_project = ext4_has_ro_compat EXT4_FEATURE_RO_COMPAT_PROJECT"
definition ext4_has_feature_compression :: "ext4_super_block \<Rightarrow> bool" where
  "ext4_has_feature_compression = ext4_has_incompat EXT4_FEATURE_INCOMPAT_COMPRESSION"
definition ext4_has_feature_filetype :: "ext4_super_block \<Rightarrow> bool" where
  "ext4_has_feature_filetype = ext4_has_incompat EXT4_FEATURE_INCOMPAT_FILETYPE"
definition ext4_has_feature_journal_needs_recovery :: "ext4_super_block \<Rightarrow> bool" where
  "ext4_has_feature_journal_needs_recovery = ext4_has_incompat EXT4_FEATURE_INCOMPAT_RECOVER"
definition ext4_has_feature_journal_dev :: "ext4_super_block \<Rightarrow> bool" where
  "ext4_has_feature_journal_dev = ext4_has_incompat EXT4_FEATURE_INCOMPAT_JOURNAL_DEV"
definition ext4_has_feature_meta_bg :: "ext4_super_block \<Rightarrow> bool" where
  "ext4_has_feature_meta_bg = ext4_has_incompat EXT4_FEATURE_INCOMPAT_META_BG"
definition ext4_has_feature_extents :: "ext4_super_block \<Rightarrow> bool" where
  "ext4_has_feature_extents = ext4_has_incompat EXT4_FEATURE_INCOMPAT_EXTENTS"
definition ext4_has_feature_64bit :: "ext4_super_block \<Rightarrow> bool" where
  "ext4_has_feature_64bit = ext4_has_incompat EXT4_FEATURE_INCOMPAT_64BIT"
definition ext4_has_feature_mmp :: "ext4_super_block \<Rightarrow> bool" where
  "ext4_has_feature_mmp = ext4_has_incompat EXT4_FEATURE_INCOMPAT_MMP"
definition ext4_has_feature_flex_bg :: "ext4_super_block \<Rightarrow> bool" where
  "ext4_has_feature_flex_bg = ext4_has_incompat EXT4_FEATURE_INCOMPAT_FLEX_BG"
definition ext4_has_feature_ea_inode :: "ext4_super_block \<Rightarrow> bool" where
  "ext4_has_feature_ea_inode = ext4_has_incompat EXT4_FEATURE_INCOMPAT_EA_INODE"
definition ext4_has_feature_dirdata :: "ext4_super_block \<Rightarrow> bool" where
  "ext4_has_feature_dirdata = ext4_has_incompat EXT4_FEATURE_INCOMPAT_DIRDATA"
definition ext4_has_feature_csum_seed :: "ext4_super_block \<Rightarrow> bool" where
  "ext4_has_feature_csum_seed = ext4_has_incompat EXT4_FEATURE_INCOMPAT_CSUM_SEED"
definition ext4_has_feature_largedir :: "ext4_super_block \<Rightarrow> bool" where
  "ext4_has_feature_largedir = ext4_has_incompat EXT4_FEATURE_INCOMPAT_LARGEDIR"
definition ext4_has_feature_inline_data :: "ext4_super_block \<Rightarrow> bool" where
  "ext4_has_feature_inline_data = ext4_has_incompat EXT4_FEATURE_INCOMPAT_INLINE_DATA"
definition ext4_has_feature_encrypt :: "ext4_super_block \<Rightarrow> bool" where
  "ext4_has_feature_encrypt = ext4_has_incompat EXT4_FEATURE_INCOMPAT_ENCRYPT"

definition EXT2_FEATURE_COMPAT_SUPP :: u32 where
  "EXT2_FEATURE_COMPAT_SUPP = EXT4_FEATURE_COMPAT_EXT_ATTR"
definition EXT2_FEATURE_INCOMPAT_SUPP :: u32 where
  "EXT2_FEATURE_INCOMPAT_SUPP = EXT4_FEATURE_INCOMPAT_FILETYPE OR
     EXT4_FEATURE_INCOMPAT_META_BG"
definition EXT2_FEATURE_RO_COMPAT_SUPP :: u32 where
  "EXT2_FEATURE_RO_COMPAT_SUPP = EXT4_FEATURE_RO_COMPAT_SPARSE_SUPER OR
     EXT4_FEATURE_RO_COMPAT_LARGE_FILE OR
     EXT4_FEATURE_RO_COMPAT_BTREE_DIR"
definition EXT3_FEATURE_COMPAT_SUPP :: u32 where
  "EXT3_FEATURE_COMPAT_SUPP = EXT4_FEATURE_COMPAT_EXT_ATTR"
definition EXT3_FEATURE_INCOMPAT_SUPP :: u32 where
  "EXT3_FEATURE_INCOMPAT_SUPP = EXT4_FEATURE_INCOMPAT_FILETYPE OR
     EXT4_FEATURE_INCOMPAT_RECOVER OR
     EXT4_FEATURE_INCOMPAT_META_BG"
definition EXT3_FEATURE_RO_COMPAT_SUPP :: u32 where
  "EXT3_FEATURE_RO_COMPAT_SUPP = EXT4_FEATURE_RO_COMPAT_SPARSE_SUPER OR
     EXT4_FEATURE_RO_COMPAT_LARGE_FILE OR
     EXT4_FEATURE_RO_COMPAT_BTREE_DIR"
definition EXT4_FEATURE_COMPAT_SUPP :: u32 where
  "EXT4_FEATURE_COMPAT_SUPP = EXT4_FEATURE_COMPAT_EXT_ATTR"
definition EXT4_FEATURE_INCOMPAT_SUPP :: u32 where
  "EXT4_FEATURE_INCOMPAT_SUPP = EXT4_FEATURE_INCOMPAT_FILETYPE OR
     EXT4_FEATURE_INCOMPAT_RECOVER OR
     EXT4_FEATURE_INCOMPAT_META_BG OR
     EXT4_FEATURE_INCOMPAT_EXTENTS OR
     EXT4_FEATURE_INCOMPAT_64BIT OR
     EXT4_FEATURE_INCOMPAT_FLEX_BG OR
     EXT4_FEATURE_INCOMPAT_MMP OR
     EXT4_FEATURE_INCOMPAT_INLINE_DATA OR
     EXT4_FEATURE_INCOMPAT_ENCRYPT OR
     EXT4_FEATURE_INCOMPAT_CSUM_SEED"
definition EXT4_FEATURE_RO_COMPAT_SUPP :: u32 where
  "EXT4_FEATURE_RO_COMPAT_SUPP = EXT4_FEATURE_RO_COMPAT_SPARSE_SUPER OR
     EXT4_FEATURE_RO_COMPAT_LARGE_FILE OR
     EXT4_FEATURE_RO_COMPAT_GDT_CSUM OR
     EXT4_FEATURE_RO_COMPAT_DIR_NLINK OR
     EXT4_FEATURE_RO_COMPAT_EXTRA_ISIZE OR
     EXT4_FEATURE_RO_COMPAT_BTREE_DIR OR
     EXT4_FEATURE_RO_COMPAT_HUGE_FILE OR
     EXT4_FEATURE_RO_COMPAT_BIGALLOC OR
     EXT4_FEATURE_RO_COMPAT_METADATA_CSUM OR
     EXT4_FEATURE_RO_COMPAT_QUOTA OR
     EXT4_FEATURE_RO_COMPAT_PROJECT"

definition ext4_has_unknown_ext2_compat_features :: "ext4_super_block \<Rightarrow> bool" where
  "ext4_has_unknown_ext2_compat_features s \<longleftrightarrow> s_feature_compat s AND cpu_to_le32 (NOT EXT2_FEATURE_COMPAT_SUPP) \<noteq> 0"
definition ext4_has_unknown_ext2_ro_compat_features :: "ext4_super_block \<Rightarrow> bool" where
  "ext4_has_unknown_ext2_ro_compat_features s \<longleftrightarrow> s_feature_ro_compat s AND cpu_to_le32 (NOT EXT2_FEATURE_RO_COMPAT_SUPP) \<noteq> 0"
definition ext4_has_unknown_ext2_incompat_features :: "ext4_super_block \<Rightarrow> bool" where
  "ext4_has_unknown_ext2_incompat_features s \<longleftrightarrow> s_feature_incompat s AND cpu_to_le32 (NOT EXT2_FEATURE_INCOMPAT_SUPP) \<noteq> 0"
definition ext4_has_unknown_ext3_compat_features :: "ext4_super_block \<Rightarrow> bool" where
  "ext4_has_unknown_ext3_compat_features s \<longleftrightarrow> s_feature_compat s AND cpu_to_le32 (NOT EXT3_FEATURE_COMPAT_SUPP) \<noteq> 0"
definition ext4_has_unknown_ext3_ro_compat_features :: "ext4_super_block \<Rightarrow> bool" where
  "ext4_has_unknown_ext3_ro_compat_features s \<longleftrightarrow> s_feature_ro_compat s AND cpu_to_le32 (NOT EXT3_FEATURE_RO_COMPAT_SUPP) \<noteq> 0"
definition ext4_has_unknown_ext3_incompat_features :: "ext4_super_block \<Rightarrow> bool" where
  "ext4_has_unknown_ext3_incompat_features s \<longleftrightarrow> s_feature_incompat s AND cpu_to_le32 (NOT EXT3_FEATURE_INCOMPAT_SUPP) \<noteq> 0"
definition ext4_has_unknown_ext4_compat_features :: "ext4_super_block \<Rightarrow> bool" where
  "ext4_has_unknown_ext4_compat_features s \<longleftrightarrow> s_feature_compat s AND cpu_to_le32 (NOT EXT4_FEATURE_COMPAT_SUPP) \<noteq> 0"
definition ext4_has_unknown_ext4_ro_compat_features :: "ext4_super_block \<Rightarrow> bool" where
  "ext4_has_unknown_ext4_ro_compat_features s \<longleftrightarrow> s_feature_ro_compat s AND cpu_to_le32 (NOT EXT4_FEATURE_RO_COMPAT_SUPP) \<noteq> 0"
definition ext4_has_unknown_ext4_incompat_features :: "ext4_super_block \<Rightarrow> bool" where
  "ext4_has_unknown_ext4_incompat_features s \<longleftrightarrow> s_feature_incompat s AND cpu_to_le32 (NOT EXT4_FEATURE_INCOMPAT_SUPP) \<noteq> 0"
definition ext4_has_compat_features :: "ext4_super_block \<Rightarrow> bool" where
  "ext4_has_compat_features s \<longleftrightarrow> s_feature_compat s \<noteq> 0"
definition ext4_has_ro_compat_features :: "ext4_super_block \<Rightarrow> bool" where
  "ext4_has_ro_compat_features s \<longleftrightarrow> s_feature_ro_compat s \<noteq> 0"
definition ext4_has_incompat_features :: "ext4_super_block \<Rightarrow> bool" where
  "ext4_has_incompat_features s \<longleftrightarrow> s_feature_incompat s \<noteq> 0"
text \<open>Every feature is one bit of its field, and no two features of a field share one.\<close>

definition distinct_bits :: "u32 list \<Rightarrow> bool" where
  "distinct_bits fs \<longleftrightarrow> sorted_wrt (\<lambda>f g. f AND g = 0) fs \<and> (0 :: u32) \<notin> set fs"

lemma ext4_flags_distinct_bits:
  "distinct_bits ext4_compat_flags" "distinct_bits ext4_ro_compat_flags" "distinct_bits ext4_incompat_flags"
  by (simp_all add: distinct_bits_def ext4_compat_flags_def ext4_ro_compat_flags_def ext4_incompat_flags_def
      ext4_compat_flag_defs ext4_ro_compat_flag_defs ext4_incompat_flag_defs)

lemma distinct_bits_disjoint:
  "distinct_bits fs \<Longrightarrow> f \<in> set fs \<Longrightarrow> g \<in> set fs \<Longrightarrow> f AND g = 0 \<longleftrightarrow> f \<noteq> g"
  by (induction fs) (auto simp: distinct_bits_def and.commute)

lemma flag_in_or: "(a OR b) AND f \<noteq> (0 :: u32) \<longleftrightarrow> a AND f \<noteq> 0 \<or> b AND f \<noteq> 0"
  by (auto simp: bit_eq_iff bit_simps)

lemma flag_in_and_not: "f AND g = (0 :: u32) \<Longrightarrow> (a AND NOT g) AND f \<noteq> 0 \<longleftrightarrow> a AND f \<noteq> 0"
  by (auto simp: bit_eq_iff bit_simps)

lemma flag_in_and_not_same: "(a AND NOT f) AND f = (0 :: u32)"
  by (auto simp: bit_eq_iff bit_simps)

text \<open>
  Setting or clearing an incompatible feature decides that feature and leaves every other
  feature of the file system as it was, of whichever of the three fields.
\<close>

theorem ext4_incompat_set_clear:
  assumes "f \<in> set ext4_incompat_flags" "g \<in> set ext4_incompat_flags"
  shows "(ext4_has_incompat f (ext4_set_incompat g s) \<longleftrightarrow> f = g \<or> ext4_has_incompat f s)
       \<and> (ext4_has_incompat f (ext4_clear_incompat g s) \<longleftrightarrow> f \<noteq> g \<and> ext4_has_incompat f s)
       \<and> ext4_has_compat h (ext4_set_incompat g s) = ext4_has_compat h s
       \<and> ext4_has_ro_compat h (ext4_set_incompat g s) = ext4_has_ro_compat h s"
proof -
  note disj = distinct_bits_disjoint [OF ext4_flags_distinct_bits(3) assms]
  have "ext4_has_incompat f (ext4_clear_incompat g s) \<longleftrightarrow> f \<noteq> g \<and> ext4_has_incompat f s"
  proof (cases "f = g")
    case True
    then show ?thesis
      by (simp add: ext4_has_incompat_def ext4_clear_incompat_def endian_defs flag_in_and_not_same)
  next
    case False
    then show ?thesis using disj
      by (simp add: ext4_has_incompat_def ext4_clear_incompat_def endian_defs flag_in_and_not)
  qed
  moreover have "g AND f \<noteq> 0 \<longleftrightarrow> f = g" using disj by (auto simp: and.commute)
  ultimately show ?thesis
    by (auto simp: ext4_has_incompat_def ext4_set_incompat_def ext4_has_compat_def ext4_has_ro_compat_def
        endian_defs flag_in_or)
qed

theorem ext4_incompat_set_clear_witness:
  "\<exists>s. ext4_has_incompat EXT4_FEATURE_INCOMPAT_EXTENTS (ext4_set_incompat EXT4_FEATURE_INCOMPAT_64BIT s) \<and>
     \<not> ext4_has_incompat EXT4_FEATURE_INCOMPAT_64BIT (ext4_clear_incompat EXT4_FEATURE_INCOMPAT_64BIT s)"
proof -
  have in_flags: "EXT4_FEATURE_INCOMPAT_EXTENTS \<in> set ext4_incompat_flags"
    "EXT4_FEATURE_INCOMPAT_64BIT \<in> set ext4_incompat_flags"
    by (simp_all add: ext4_incompat_flags_def)
  let ?s = "\<lparr>s_log_block_size = 0, s_rev_level = 0, s_first_ino = 0, s_inode_size = 0,
      s_feature_compat = 0, s_feature_incompat = 0xC0, s_feature_ro_compat = 0\<rparr>"
  have "ext4_has_incompat EXT4_FEATURE_INCOMPAT_EXTENTS ?s"
    by (simp add: ext4_has_incompat_def endian_defs EXT4_FEATURE_INCOMPAT_EXTENTS_def)
  with ext4_incompat_set_clear [OF in_flags] ext4_incompat_set_clear [OF in_flags(2,2)] show ?thesis by blast
qed

section \<open>Block and inode sizes\<close>

definition EXT4_MIN_BLOCK_SIZE :: "32 word" where "EXT4_MIN_BLOCK_SIZE = 1024"

text \<open>A shift of the \<open>int\<close> 1024 that is negative or overflows is a fault.\<close>

definition EXT4_BLOCK_SIZE :: "ext4_super_block \<Rightarrow> 32 word option" where
  "EXT4_BLOCK_SIZE s = (let n = sint (le32_to_cpu (s_log_block_size s)) in
     if 0 \<le> n \<and> n \<le> 20 then Some (push_bit (nat n) EXT4_MIN_BLOCK_SIZE) else None)"

definition EXT4_ADDR_PER_BLOCK :: "ext4_super_block \<Rightarrow> nat option" where
  "EXT4_ADDR_PER_BLOCK s = map_option (\<lambda>b. unat b div 4) (EXT4_BLOCK_SIZE s)"

definition EXT4_BLOCK_SIZE_BITS :: "ext4_super_block \<Rightarrow> 32 word" where
  "EXT4_BLOCK_SIZE_BITS s = le32_to_cpu (s_log_block_size s) + 10"

definition EXT4_GOOD_OLD_FIRST_INO :: "32 word" where "EXT4_GOOD_OLD_FIRST_INO = 11"

text \<open>\<open>EXT4_GOOD_OLD_REV\<close> and \<open>EXT4_GOOD_OLD_INODE_SIZE\<close> are used and nowhere defined.\<close>

definition EXT4_INODE_SIZE :: "u32 \<Rightarrow> 32 word \<Rightarrow> ext4_super_block \<Rightarrow> 32 word" where
  "EXT4_INODE_SIZE good_old_rev good_old_inode_size s =
     (if le32_to_cpu (s_rev_level s) = good_old_rev then good_old_inode_size
      else u32_of_u16 (le16_to_cpu (s_inode_size s)))"

definition EXT4_FIRST_INO :: "u32 \<Rightarrow> ext4_super_block \<Rightarrow> 32 word" where
  "EXT4_FIRST_INO good_old_rev s =
     (if le32_to_cpu (s_rev_level s) = good_old_rev then EXT4_GOOD_OLD_FIRST_INO
      else u32_of_u16 (le16_to_cpu (ucast (s_first_ino s))))"

lemma EXT4_BLOCK_SIZE_bits:
  assumes "EXT4_BLOCK_SIZE s = Some b"
  shows "unat b = 2 ^ unat (EXT4_BLOCK_SIZE_BITS s)"
proof -
  let ?w = "s_log_block_size s"
  have n: "sint ?w \<le> 20" "0 \<le> sint ?w" and b: "b = push_bit (nat (sint ?w)) EXT4_MIN_BLOCK_SIZE"
    using assms by (auto simp: EXT4_BLOCK_SIZE_def le32_to_cpu_def Let_def split: if_splits)
  have w: "nat (sint ?w) = unat ?w" using sint_nonneg_unat [OF n(2)] by (metis nat_int)
  have w20: "unat ?w \<le> 20" using n sint_nonneg_unat [OF n(2)] by linarith
  have "unat (?w + 10) = unat ?w + 10" using w20 by (simp add: unat_word_ariths)
  moreover have "unat b = 2 ^ (unat ?w + 10)"
  proof -
    have lt: "(2 :: nat) ^ (unat ?w + 10) < 2 ^ 32" using w20 by (intro power_strict_increasing) auto
    have "b = of_nat (2 ^ (unat ?w + 10))"
      unfolding b w EXT4_MIN_BLOCK_SIZE_def by (simp add: push_bit_eq_mult power_add)
    then show ?thesis by (simp only: unat_of_nat_32 [OF lt])
  qed
  ultimately show ?thesis by (simp add: EXT4_BLOCK_SIZE_BITS_def le32_to_cpu_def)
qed

section \<open>Time stamps\<close>

text \<open>
  \<open>struct drv_timespec\<close> has members of the unsigned type \<open>__s64\<close>.  The cast to \<open>__s32\<close> in the
  encoder is a cast to an unsigned type, so the difference is the upper half.
\<close>

record drv_timespec =
  tv_sec :: s64
  tv_nsec :: s64

definition EXT4_EPOCH_MASK :: "32 word" where "EXT4_EPOCH_MASK = 3"
definition EXT4_NSEC_MASK :: "32 word" where "EXT4_NSEC_MASK = push_bit 2 (NOT 0)"

definition ext4_encode_extra_time :: "drv_timespec \<Rightarrow> u32" where
  "ext4_encode_extra_time time =
    (let extra = ucast (drop_bit 32 (tv_sec time - ucast (ucast (tv_sec time) :: s32)) AND ucast EXT4_EPOCH_MASK) :: u32
     in cpu_to_le32 (ucast (u64_of_u32 extra OR push_bit 2 (tv_nsec time))))"

definition ext4_decode_extra_time :: "drv_timespec \<Rightarrow> u32 \<Rightarrow> drv_timespec" where
  "ext4_decode_extra_time time extra =
    (let time = (if extra AND cpu_to_le32 EXT4_EPOCH_MASK \<noteq> 0
                 then time\<lparr>tv_sec := tv_sec time + push_bit 32 (u64_of_u32 (le32_to_cpu extra AND EXT4_EPOCH_MASK))\<rparr>
                 else time)
     in time\<lparr>tv_nsec := ucast (drop_bit 2 (le32_to_cpu extra AND EXT4_NSEC_MASK))\<rparr>)"

text \<open>
  The macros that move a time stamp between an inode in memory and its buffer: the field of the
  seconds and the extra field.  \<open>fits\<close> and \<open>fits_extra\<close> are the two uses of
  \<open>EXT4_FITS_IN_INODE\<close>; where a field does not fit, the buffer keeps its old value.
\<close>

definition EXT4_EINODE_SET_XTIME :: "bool \<Rightarrow> bool \<Rightarrow> drv_timespec \<Rightarrow> u32 \<times> u32 \<Rightarrow> u32 \<times> u32" where
  "EXT4_EINODE_SET_XTIME fits fits_extra time raw =
    (if fits then cpu_to_le32 (ucast (tv_sec time)) else fst raw,
     if fits_extra then ext4_encode_extra_time time else snd raw)"

definition EXT4_INODE_SET_XTIME :: "bool \<Rightarrow> drv_timespec \<Rightarrow> u32 \<times> u32 \<Rightarrow> u32 \<times> u32" where
  "EXT4_INODE_SET_XTIME fits_extra time raw =
    (cpu_to_le32 (ucast (tv_sec time)),
     if fits_extra then ext4_encode_extra_time time else snd raw)"

definition EXT4_EINODE_GET_XTIME :: "bool \<Rightarrow> bool \<Rightarrow> drv_timespec \<Rightarrow> u32 \<times> u32 \<Rightarrow> drv_timespec" where
  "EXT4_EINODE_GET_XTIME fits fits_extra time raw =
    (let time = (if fits then time\<lparr>tv_sec := scast (le32_to_cpu (fst raw))\<rparr> else time\<lparr>tv_sec := 0\<rparr>)
     in if fits_extra then ext4_decode_extra_time time (snd raw) else time\<lparr>tv_nsec := 0\<rparr>)"

definition EXT4_INODE_GET_XTIME :: "bool \<Rightarrow> drv_timespec \<Rightarrow> u32 \<times> u32 \<Rightarrow> drv_timespec" where
  "EXT4_INODE_GET_XTIME fits_extra time raw =
    (let time = time\<lparr>tv_sec := scast (le32_to_cpu (fst raw))\<rparr>
     in if fits_extra then ext4_decode_extra_time time (snd raw) else time\<lparr>tv_nsec := 0\<rparr>)"

text \<open>The extra field holds two bits of the seconds and thirty of the nanoseconds.\<close>

lemma upper_half: "drop_bit 32 (t - ucast (ucast t :: 32 word)) = drop_bit 32 (t :: 64 word)"
proof -
  let ?hi = "push_bit 32 (drop_bit 32 t)" and ?lo = "ucast (ucast t :: 32 word) :: 64 word"
  have "t = ?hi OR ?lo" by (rule bit_word_eqI) (auto simp: bit_simps)
  also have "\<dots> = ?hi + ?lo" by (rule disjunctive_add [symmetric]) (auto simp: bit_simps)
  finally have "t - ?lo = ?hi" by (metis add_diff_cancel_right')
  moreover have "drop_bit 32 ?hi = drop_bit 32 t" by (rule bit_word_eqI) (auto simp: bit_simps dest: bit_imp_le_length)
  ultimately show ?thesis by simp
qed

lemma bit_3 [simp]: "bit (3 :: int) i \<longleftrightarrow> i < 2"
proof -
  have "(3 :: int) = mask 2" by (simp add: mask_eq_exp_minus_1)
  then show ?thesis by (simp only: bit_mask_iff) simp
qed

lemma bit_encode:
  "bit (ext4_encode_extra_time time) i \<longleftrightarrow>
     i < 32 \<and> (if i < 2 then bit (tv_sec time) (32 + i) else bit (tv_nsec time) (i - 2))"
proof -
  have "ucast EXT4_EPOCH_MASK = (3 :: 64 word)" by (simp add: EXT4_EPOCH_MASK_def)
  then show ?thesis
    by (auto simp: ext4_encode_extra_time_def Let_def upper_half cpu_to_le32_def u64_of_u32_def bit_simps)
qed

lemma decode_sec: "tv_sec (ext4_decode_extra_time time extra) =
    tv_sec time + push_bit 32 (u64_of_u32 (extra AND EXT4_EPOCH_MASK))"
  by (simp add: ext4_decode_extra_time_def endian_defs u64_of_u32_def Let_def)

lemma decode_nsec: "tv_nsec (ext4_decode_extra_time time extra) = ucast (drop_bit 2 (extra AND EXT4_NSEC_MASK))"
  by (simp add: ext4_decode_extra_time_def endian_defs Let_def)

text \<open>
  C34. A time stamp written to an inode with room for the extra field is read back as it was, as
  long as bit 31 of its seconds is clear, the seconds are below \<open>2 ^ 34\<close> and the nanoseconds below
  \<open>2 ^ 30\<close>.
\<close>

theorem ext4_xtime_roundtrip:
  assumes "\<not> bit (tv_sec time) 31" "drop_bit 34 (tv_sec time) = 0" "drop_bit 30 (tv_nsec time) = 0"
  shows "EXT4_EINODE_GET_XTIME True True time' (EXT4_EINODE_SET_XTIME True True time raw) = time"
proof -
  let ?e = "ext4_encode_extra_time time"
  have sec0: "\<not> bit (tv_sec time) n" if "34 \<le> n" for n
    using bit_drop_bit_eq [of 34 "tv_sec time"] that assms(2) by (simp add: fun_eq_iff) (metis le_add_diff_inverse)
  have nsec0: "\<not> bit (tv_nsec time) n" if "30 \<le> n" for n
    using bit_drop_bit_eq [of 30 "tv_nsec time"] that assms(3) by (simp add: fun_eq_iff) (metis le_add_diff_inverse)
  have m: "EXT4_EPOCH_MASK = 3" by (simp add: EXT4_EPOCH_MASK_def)
  let ?lo = "scast (ucast (tv_sec time) :: u32) :: u64" and ?hi = "push_bit 32 (u64_of_u32 (?e AND 3))"
  have lo: "bit ?lo n \<longleftrightarrow> n < 32 \<and> bit (tv_sec time) n" for n
    using assms(1) by (cases "n = 31") (auto simp: bit_simps min_def)
  have hi: "bit ?hi n \<longleftrightarrow> 32 \<le> n \<and> n < 34 \<and> bit (tv_sec time) n" for n
    by (auto simp: bit_simps bit_encode u64_of_u32_def min_def)
  have "?lo + ?hi = ?lo OR ?hi" by (rule disjunctive_add) (auto simp: lo hi)
  also have "\<dots> = tv_sec time"
  proof (rule bit_word_eqI)
    show "bit (?lo OR ?hi) n = bit (tv_sec time) n" for n
      using sec0 [of n] by (cases "n < 34") (auto simp: bit_or_iff lo hi)
  qed
  finally have sec: "?lo + ?hi = tv_sec time" .
  have nsec: "ucast (drop_bit 2 (?e AND EXT4_NSEC_MASK)) = tv_nsec time"
  proof (rule bit_word_eqI)
    show "bit (ucast (drop_bit 2 (?e AND EXT4_NSEC_MASK)) :: u64) n = bit (tv_nsec time) n" for n
      using nsec0 [of n] by (cases "n < 30") (auto simp: bit_simps bit_encode EXT4_NSEC_MASK_def)
  qed
  show ?thesis
    using sec nsec
    by (cases time) (simp add: EXT4_EINODE_GET_XTIME_def EXT4_EINODE_SET_XTIME_def Let_def endian_defs
        drv_timespec.equality decode_sec decode_nsec m)
qed

theorem ext4_xtime_roundtrip_witness:
  "EXT4_EINODE_GET_XTIME True True \<lparr>tv_sec = 0, tv_nsec = 0\<rparr>
     (EXT4_EINODE_SET_XTIME True True \<lparr>tv_sec = 0x37654321F, tv_nsec = 999999999\<rparr> (0, 0)) =
   \<lparr>tv_sec = 0x37654321F, tv_nsec = 999999999\<rparr>"
  by (rule ext4_xtime_roundtrip) simp_all

text \<open>
  With bit 31 set it is not: \<open>0x80000000\<close> (in the year 2038) is read back as a time in 1901, where the
  table in the comment of the header gives it the epoch bits \<open>01\<close>.
\<close>

lemma ext4_xtime_2038:
  "EXT4_EINODE_GET_XTIME True True time (EXT4_EINODE_SET_XTIME True True \<lparr>tv_sec = 0x80000000, tv_nsec = 0\<rparr> raw) =
     \<lparr>tv_sec = - 0x80000000, tv_nsec = 0\<rparr>"
  by (simp add: EXT4_EINODE_GET_XTIME_def EXT4_EINODE_SET_XTIME_def ext4_encode_extra_time_def
      ext4_decode_extra_time_def endian_defs Let_def EXT4_EPOCH_MASK_def EXT4_NSEC_MASK_def u64_of_u32_def)

end
