(* ===== verification/Ext4_Inode.thy ===== *)
theory Ext4_Inode
  imports Ext4_Fs Drv_Crc32
begin

text \<open>
  \<open>ext4_fs.h\<close>: the flags of an inode and of a block group, the block pointers of an inode, the
  descriptors of block groups, and the test whether a field fits in an inode.
\<close>

section \<open>Inode flags\<close>

definition EXT4_SECRM_FL :: "32 word" where "EXT4_SECRM_FL = 0x1"
definition EXT4_UNRM_FL :: "32 word" where "EXT4_UNRM_FL = 0x2"
definition EXT4_COMPR_FL :: "32 word" where "EXT4_COMPR_FL = 0x4"
definition EXT4_SYNC_FL :: "32 word" where "EXT4_SYNC_FL = 0x8"
definition EXT4_IMMUTABLE_FL :: "32 word" where "EXT4_IMMUTABLE_FL = 0x10"
definition EXT4_APPEND_FL :: "32 word" where "EXT4_APPEND_FL = 0x20"
definition EXT4_NODUMP_FL :: "32 word" where "EXT4_NODUMP_FL = 0x40"
definition EXT4_NOATIME_FL :: "32 word" where "EXT4_NOATIME_FL = 0x80"
definition EXT4_DIRTY_FL :: "32 word" where "EXT4_DIRTY_FL = 0x100"
definition EXT4_COMPRBLK_FL :: "32 word" where "EXT4_COMPRBLK_FL = 0x200"
definition EXT4_NOCOMPR_FL :: "32 word" where "EXT4_NOCOMPR_FL = 0x400"
definition EXT4_ENCRYPT_FL :: "32 word" where "EXT4_ENCRYPT_FL = 0x800"
definition EXT4_INDEX_FL :: "32 word" where "EXT4_INDEX_FL = 0x1000"
definition EXT4_IMAGIC_FL :: "32 word" where "EXT4_IMAGIC_FL = 0x2000"
definition EXT4_JOURNAL_DATA_FL :: "32 word" where "EXT4_JOURNAL_DATA_FL = 0x4000"
definition EXT4_NOTAIL_FL :: "32 word" where "EXT4_NOTAIL_FL = 0x8000"
definition EXT4_DIRSYNC_FL :: "32 word" where "EXT4_DIRSYNC_FL = 0x10000"
definition EXT4_TOPDIR_FL :: "32 word" where "EXT4_TOPDIR_FL = 0x20000"
definition EXT4_HUGE_FILE_FL :: "32 word" where "EXT4_HUGE_FILE_FL = 0x40000"
definition EXT4_EXTENTS_FL :: "32 word" where "EXT4_EXTENTS_FL = 0x80000"
definition EXT4_EA_INODE_FL :: "32 word" where "EXT4_EA_INODE_FL = 0x200000"
definition EXT4_EOFBLOCKS_FL :: "32 word" where "EXT4_EOFBLOCKS_FL = 0x400000"
definition EXT4_INLINE_DATA_FL :: "32 word" where "EXT4_INLINE_DATA_FL = 0x10000000"
definition EXT4_PROJINHERIT_FL :: "32 word" where "EXT4_PROJINHERIT_FL = 0x20000000"
definition EXT4_RESERVED_FL :: "32 word" where "EXT4_RESERVED_FL = 0x80000000"

definition ext4_inode_flags :: "u32 list" where
  "ext4_inode_flags = [EXT4_SECRM_FL, EXT4_UNRM_FL, EXT4_COMPR_FL, EXT4_SYNC_FL, EXT4_IMMUTABLE_FL,
     EXT4_APPEND_FL, EXT4_NODUMP_FL, EXT4_NOATIME_FL, EXT4_DIRTY_FL, EXT4_COMPRBLK_FL, EXT4_NOCOMPR_FL,
     EXT4_ENCRYPT_FL, EXT4_INDEX_FL, EXT4_IMAGIC_FL, EXT4_JOURNAL_DATA_FL, EXT4_NOTAIL_FL,
     EXT4_DIRSYNC_FL, EXT4_TOPDIR_FL, EXT4_HUGE_FILE_FL, EXT4_EXTENTS_FL, EXT4_EA_INODE_FL,
     EXT4_EOFBLOCKS_FL, EXT4_INLINE_DATA_FL, EXT4_PROJINHERIT_FL, EXT4_RESERVED_FL]"

lemmas ext4_inode_flag_defs = EXT4_SECRM_FL_def EXT4_UNRM_FL_def EXT4_COMPR_FL_def EXT4_SYNC_FL_def
  EXT4_IMMUTABLE_FL_def EXT4_APPEND_FL_def EXT4_NODUMP_FL_def EXT4_NOATIME_FL_def EXT4_DIRTY_FL_def
  EXT4_COMPRBLK_FL_def EXT4_NOCOMPR_FL_def EXT4_ENCRYPT_FL_def EXT4_INDEX_FL_def EXT4_IMAGIC_FL_def
  EXT4_JOURNAL_DATA_FL_def EXT4_NOTAIL_FL_def EXT4_DIRSYNC_FL_def EXT4_TOPDIR_FL_def EXT4_HUGE_FILE_FL_def
  EXT4_EXTENTS_FL_def EXT4_EA_INODE_FL_def EXT4_EOFBLOCKS_FL_def EXT4_INLINE_DATA_FL_def EXT4_PROJINHERIT_FL_def
  EXT4_RESERVED_FL_def

text \<open>The sets of flags.  The first two are numbers in the code.\<close>

definition EXT4_FL_USER_VISIBLE :: u32 where "EXT4_FL_USER_VISIBLE = 0x304BDFFF"
definition EXT4_FL_USER_MODIFIABLE :: u32 where "EXT4_FL_USER_MODIFIABLE = 0x204380FF"

definition EXT4_FL_XFLAG_VISIBLE :: u32 where
  "EXT4_FL_XFLAG_VISIBLE = EXT4_SYNC_FL OR EXT4_IMMUTABLE_FL OR EXT4_APPEND_FL OR EXT4_NODUMP_FL
     OR EXT4_NOATIME_FL OR EXT4_PROJINHERIT_FL"

definition EXT4_FL_INHERITED :: u32 where
  "EXT4_FL_INHERITED = EXT4_SECRM_FL OR EXT4_UNRM_FL OR EXT4_COMPR_FL OR EXT4_SYNC_FL OR EXT4_NODUMP_FL
     OR EXT4_NOATIME_FL OR EXT4_NOCOMPR_FL OR EXT4_JOURNAL_DATA_FL OR EXT4_NOTAIL_FL OR EXT4_DIRSYNC_FL
     OR EXT4_PROJINHERIT_FL"

definition EXT4_REG_FLMASK :: u32 where
  "EXT4_REG_FLMASK = NOT (EXT4_DIRSYNC_FL OR EXT4_TOPDIR_FL)"

definition EXT4_OTHER_FLMASK :: u32 where
  "EXT4_OTHER_FLMASK = EXT4_NODUMP_FL OR EXT4_NOATIME_FL"

lemmas ext4_flag_set_defs = EXT4_FL_USER_VISIBLE_def EXT4_FL_USER_MODIFIABLE_def EXT4_FL_XFLAG_VISIBLE_def
  EXT4_FL_INHERITED_def EXT4_REG_FLMASK_def EXT4_OTHER_FLMASK_def

text \<open>Every inode flag is a bit of its own.\<close>

lemma ext4_inode_flags_distinct_bits: "distinct_bits ext4_inode_flags"
  by (simp add: distinct_bits_def ext4_inode_flags_def ext4_inode_flag_defs)

text \<open>
  A user may change only flags that a user sees, the flags of the extended interface are visible, and what a
  directory hands down to a regular file keeps nothing that only a directory has.
\<close>

lemma ext4_flag_sets:
  "EXT4_FL_USER_MODIFIABLE AND NOT EXT4_FL_USER_VISIBLE = 0" "EXT4_FL_XFLAG_VISIBLE AND NOT EXT4_FL_USER_VISIBLE = 0"
  "EXT4_OTHER_FLMASK AND NOT EXT4_REG_FLMASK = 0"
  "EXT4_FL_INHERITED AND EXT4_REG_FLMASK = EXT4_FL_INHERITED AND NOT EXT4_DIRSYNC_FL"
  by (simp_all add: ext4_flag_set_defs ext4_inode_flag_defs)

section \<open>Block groups and block pointers\<close>

definition EXT4_BG_INODE_UNINIT :: u16 where "EXT4_BG_INODE_UNINIT = 0x0001"
definition EXT4_BG_BLOCK_UNINIT :: u16 where "EXT4_BG_BLOCK_UNINIT = 0x0002"
definition EXT4_BG_INODE_ZEROED :: u16 where "EXT4_BG_INODE_ZEROED = 0x0004"

text \<open>The end of a field of a structure, from its layout.\<close>

definition field_end :: "layout \<Rightarrow> string \<Rightarrow> nat option" where
  "field_end l f = do { start \<leftarrow> field_offset l f; n \<leftarrow> map_of l f; Some (start + n) }"

definition EXT4_BG_INODE_BITMAP_CSUM_HI_END :: "nat option" where
  "EXT4_BG_INODE_BITMAP_CSUM_HI_END = field_end ext4_group_desc_layout ''bg_inode_bitmap_csum_hi''"

definition EXT4_BG_BLOCK_BITMAP_CSUM_HI_END :: "nat option" where
  "EXT4_BG_BLOCK_BITMAP_CSUM_HI_END = field_end ext4_group_desc_layout ''bg_block_bitmap_csum_hi''"

definition EXT4_MIN_DESC_SIZE :: nat where "EXT4_MIN_DESC_SIZE = 32"
definition EXT4_MIN_DESC_SIZE_64BIT :: nat where "EXT4_MIN_DESC_SIZE_64BIT = 64"

lemma group_desc_ends:
  "EXT4_BG_BLOCK_BITMAP_CSUM_HI_END = Some 0x3A" "EXT4_BG_INODE_BITMAP_CSUM_HI_END = Some 0x3C"
  "field_end ext4_group_desc_layout ''bg_checksum'' = Some EXT4_MIN_DESC_SIZE"
  "layout_size ext4_group_desc_layout = EXT4_MIN_DESC_SIZE_64BIT"
  by code_simp+

definition EXT4_NDIR_BLOCKS :: nat where "EXT4_NDIR_BLOCKS = 12"
definition EXT4_IND_BLOCK :: nat where "EXT4_IND_BLOCK = EXT4_NDIR_BLOCKS"
definition EXT4_DIND_BLOCK :: nat where "EXT4_DIND_BLOCK = EXT4_IND_BLOCK + 1"
definition EXT4_TIND_BLOCK :: nat where "EXT4_TIND_BLOCK = EXT4_DIND_BLOCK + 1"
definition EXT4_N_BLOCKS :: nat where "EXT4_N_BLOCKS = EXT4_TIND_BLOCK + 1"

text \<open>The block pointers fill \<open>i_block\<close>, which the root of the extent tree takes instead.\<close>

lemma i_block_pointers: "map_of ext4_inode_layout ''i_block'' = Some (4 * EXT4_N_BLOCKS)"
  by code_simp

section \<open>Numbers\<close>

definition EXT4_MAX_BLOCK_FILE_PHYS :: nat where "EXT4_MAX_BLOCK_FILE_PHYS = 0xFFFFFFFF"
definition EXT4_DFL_MAX_MNT_COUNT :: nat where "EXT4_DFL_MAX_MNT_COUNT = 20"
definition EXT4_DFL_CHECKINTERVAL :: nat where "EXT4_DFL_CHECKINTERVAL = 0"
definition EXT4_ERRORS_CONTINUE :: nat where "EXT4_ERRORS_CONTINUE = 1"
definition EXT4_ERRORS_RO :: nat where "EXT4_ERRORS_RO = 2"
definition EXT4_ERRORS_PANIC :: nat where "EXT4_ERRORS_PANIC = 3"
definition EXT4_ERRORS_DEFAULT :: nat where "EXT4_ERRORS_DEFAULT = EXT4_ERRORS_CONTINUE"
definition EXT4_CRC32C_CHKSUM :: nat where "EXT4_CRC32C_CHKSUM = 1"
definition EXT4_BAD_INO :: nat where "EXT4_BAD_INO = 1"
definition EXT4_ROOT_INO :: nat where "EXT4_ROOT_INO = 2"
definition EXT4_USR_QUOTA_INO :: nat where "EXT4_USR_QUOTA_INO = 3"
definition EXT4_GRP_QUOTA_INO :: nat where "EXT4_GRP_QUOTA_INO = 4"
definition EXT4_BOOT_LOADER_INO :: nat where "EXT4_BOOT_LOADER_INO = 5"
definition EXT4_UNDEL_DIR_INO :: nat where "EXT4_UNDEL_DIR_INO = 6"
definition EXT4_RESIZE_INO :: nat where "EXT4_RESIZE_INO = 7"
definition EXT4_JOURNAL_INO :: nat where "EXT4_JOURNAL_INO = 8"
definition EXT4_LINK_MAX :: nat where "EXT4_LINK_MAX = 65000"
definition EXT4_MAX_BLOCK_SIZE :: nat where "EXT4_MAX_BLOCK_SIZE = 65536"
definition EXT4_MIN_BLOCK_LOG_SIZE :: nat where "EXT4_MIN_BLOCK_LOG_SIZE = 10"
definition EXT4_MAX_BLOCK_LOG_SIZE :: nat where "EXT4_MAX_BLOCK_LOG_SIZE = 16"

text \<open>The inodes below the first free one are reserved, and the block sizes are those of the logarithms.\<close>

lemma ext4_reserved_inodes:
  "list_all (\<lambda>i. i < unat EXT4_GOOD_OLD_FIRST_INO) [EXT4_BAD_INO, EXT4_ROOT_INO, EXT4_USR_QUOTA_INO,
     EXT4_GRP_QUOTA_INO, EXT4_BOOT_LOADER_INO, EXT4_UNDEL_DIR_INO, EXT4_RESIZE_INO, EXT4_JOURNAL_INO]"
  "unat EXT4_MIN_BLOCK_SIZE = 2 ^ EXT4_MIN_BLOCK_LOG_SIZE" "EXT4_MAX_BLOCK_SIZE = 2 ^ EXT4_MAX_BLOCK_LOG_SIZE"
  by (simp_all add: EXT4_GOOD_OLD_FIRST_INO_def EXT4_BAD_INO_def EXT4_ROOT_INO_def EXT4_USR_QUOTA_INO_def
      EXT4_GRP_QUOTA_INO_def EXT4_BOOT_LOADER_INO_def EXT4_UNDEL_DIR_INO_def EXT4_RESIZE_INO_def EXT4_JOURNAL_INO_def
      EXT4_MIN_BLOCK_SIZE_def EXT4_MIN_BLOCK_LOG_SIZE_def EXT4_MAX_BLOCK_SIZE_def EXT4_MAX_BLOCK_LOG_SIZE_def)

section \<open>Fields beyond the old inode\<close>

text \<open>
  \<open>EXT4_FITS_IN_INODE\<close>.  The left side has the type \<open>size_t\<close>, so the sum on the right, an \<open>int\<close>, is
  converted to it.  The macro \<open>EXT4_GOOD_OLD_INODE_SIZE\<close> and the structure of an inode in memory, whose
  \<open>i_extra_isize\<close> is read, are nowhere defined; both are parameters.
\<close>

definition size_t_of_int :: "size_t_width \<Rightarrow> 32 word \<Rightarrow> nat" where
  "size_t_of_int width x = (case width of Size32 \<Rightarrow> unat x | Size64 \<Rightarrow> unat (scast x :: 64 word))"

definition EXT4_FITS_IN_INODE :: "size_t_width \<Rightarrow> 32 word \<Rightarrow> 32 word \<Rightarrow> string \<Rightarrow> bool option" where
  "EXT4_FITS_IN_INODE width good_old_inode_size extra_isize field =
     map_option (\<lambda>n. n \<le> size_t_of_int width (good_old_inode_size + extra_isize)) (field_end ext4_inode_layout field)"

text \<open>
  With an old inode of 128 bytes, as the other drivers for this file system define it, a time stamp's extra
  field fits as soon as the extra size reaches behind it, up to the whole of the structure.
\<close>

lemma fits_in_inode_iff:
  assumes "field_end ext4_inode_layout field = Some n" "uint extra_isize < 2 ^ 16"
  shows "EXT4_FITS_IN_INODE width 128 extra_isize field = Some (n \<le> 128 + unat extra_isize)"
proof -
  define x :: "32 word" where "x = 128 + extra_isize"
  note e = assms(2)
  then have x: "uint x = 128 + uint extra_isize"
    unfolding x_def uint_word_ariths by (simp add: mod_pos_pos_trivial)
  then have small: "uint x < 2 ^ 31" using e by simp
  have "sint x = uint x" using small by (intro sint_eq_uint_small) simp
  then have s: "scast x = (word_of_int (uint x) :: 64 word)" by (simp add: scast_eq)
  have "uint (word_of_int (uint x) :: 64 word) = uint x"
    using small unfolding uint_word_of_int by (intro mod_pos_pos_trivial) simp_all
  then have "unat (scast x :: 64 word) = unat x" unfolding s unat_eq_nat_uint by simp
  moreover have "unat x = 128 + unat extra_isize" unfolding unat_eq_nat_uint x by (simp add: nat_add_distrib)
  ultimately show ?thesis
    using assms(1) by (cases width) (simp_all add: EXT4_FITS_IN_INODE_def size_t_of_int_def flip: x_def)
qed

lemma time_stamp_ends:
  "map (field_end ext4_inode_layout) [''i_ctime_extra'', ''i_mtime_extra'', ''i_atime_extra'', ''i_crtime'', ''i_crtime_extra'']
   = map Some [136, 140, 144, 148, 152]"
  by code_simp

end
