(* ===== verification/Ext4_Control.thy ===== *)
theory Ext4_Control
  imports Ext4_Inode Drv_Atomic Nt_Status
begin

text \<open>
  \<open>ext4.h\<close> and \<open>ext4_txn.c\<close>: the control blocks of volumes, of inodes and of requests, and the two
  operations on transactions, whose bodies are empty.  The fields of a record are the members of the
  structure in their order; \<open>'w\<close> is the work item of the NT kernel.
\<close>

type_synonym ext4_grpblk_t = u32
type_synonym ext4_ino_t = u32
type_synonym ext4_group_t = u32
type_synonym ext4_uid_t = u32
type_synonym ext4_gid_t = u32
type_synonym ext4_umode_t = u32

text \<open>The tags that tell the control blocks apart; the first member of each holds one.\<close>

datatype ext4_nid = EXT4_NID_VCB | EXT4_NID_ICB | EXT4_NID_IRP_CTX

fun ext4_nid_value :: "ext4_nid \<Rightarrow> int" where
  "ext4_nid_value EXT4_NID_VCB = 1603821"
| "ext4_nid_value EXT4_NID_ICB = 1603822"
| "ext4_nid_value EXT4_NID_IRP_CTX = 1603823"

lemma ext4_nid_value_inj: "ext4_nid_value a = ext4_nid_value b \<longleftrightarrow> a = b"
  by (cases a; cases b) simp_all

record ext4_vcb =
  v_nid :: ext4_nid
  v_refcount :: atomic
  v_sb :: ext4_super_block

record ext4_icb =
  i_nid :: ext4_nid
  i_refcount :: atomic
  i_size :: s64
  i_atime :: drv_timespec
  i_ctime :: drv_timespec
  i_mtime :: drv_timespec
  i_crtime :: drv_timespec
  i_buf :: "ptr option"
  i_vcb :: "ptr option"

record 'w ext4_irp_ctx =
  ic_nid :: ext4_nid
  ic_irp :: "ptr option"
  ic_flags :: "32 word"
  ic_major_func :: "8 word"
  ic_minor_func :: "8 word"
  ic_device_object :: "ptr option"
  ic_real_device :: "ptr option"
  ic_file_object :: "ptr option"
  ic_fcb :: "ptr option"
  ic_top_level :: bool
  ic_wq_item :: 'w
  ic_in_exception :: bool
  ic_exception :: status_code

text \<open>\<open>'s\<close> is the state of the driver.\<close>

definition ext4_txn_start :: "'w ext4_irp_ctx \<Rightarrow> u32 \<Rightarrow> 's \<Rightarrow> 's" where
  "ext4_txn_start irp_ctx blk_cnt s = s"

definition ext4_txn_stop :: "'w ext4_irp_ctx \<Rightarrow> 's \<Rightarrow> 's" where
  "ext4_txn_stop irp_ctx s = s"

end
