(* ===== verification/Ext4_Driver.thy ===== *)
theory Ext4_Driver
  imports Ledger Nt_Status
begin

text \<open>
  \<open>ext4_init.c\<close> and \<open>ext4_data.c\<close>: loading and unloading the driver.

  The I/O manager is a ledger of the device objects, of the registered file systems and of the
  references to devices.  What \<open>IoCreateDevice\<close> answers is a parameter; if it succeeds, the device is a
  new entry of the ledger.  \<open>IoDeleteDevice\<close> gives up the device and nothing else.  The code under \<open>#if 0\<close>
  is not compiled.
\<close>

datatype ext4_device = Ext4CdromFsd | Ext4Fsd

datatype io_resource = Device_object ptr | File_system ptr | Device_reference ptr

record driver_state =
  ext4_disk_fsd_object :: "ptr option"
  ext4_cdrom_fsd_object :: "ptr option"
  DriverUnload_set :: bool
  io_live :: "io_resource set"

type_synonym io_env = "ext4_device \<Rightarrow> status_code \<times> ptr"

text \<open>A call of the I/O manager on the device that a global variable points to.\<close>

definition io_acquire :: "(ptr \<Rightarrow> io_resource) \<Rightarrow> ptr option \<Rightarrow> driver_state \<Rightarrow> driver_state option" where
  "io_acquire r p s = do { a \<leftarrow> p; live \<leftarrow> acquire (r a) (io_live s); Some (s\<lparr>io_live := live\<rparr>) }"

definition io_release :: "(ptr \<Rightarrow> io_resource) \<Rightarrow> ptr option \<Rightarrow> driver_state \<Rightarrow> driver_state option" where
  "io_release r p s = do { a \<leftarrow> p; live \<leftarrow> release (r a) (io_live s); Some (s\<lparr>io_live := live\<rparr>) }"

definition register_devices :: "driver_state \<Rightarrow> driver_state option" where
  "register_devices s = do {
     s \<leftarrow> io_acquire File_system (ext4_disk_fsd_object s) s;
     s \<leftarrow> io_acquire Device_reference (ext4_disk_fsd_object s) s;
     s \<leftarrow> io_acquire File_system (ext4_cdrom_fsd_object s) s;
     io_acquire Device_reference (ext4_cdrom_fsd_object s) s }"

definition DriverEntry :: "io_env \<Rightarrow> driver_state \<Rightarrow> (status_code \<times> driver_state) option" where
  "DriverEntry env s =
    (let s = s\<lparr>DriverUnload_set := True\<rparr>;
         (status, cdrom) = env Ext4CdromFsd
     in if \<not> nt_success_code status then Some (status, s)
        else do {
          s \<leftarrow> io_acquire Device_object (Some cdrom) s;
          let s = s\<lparr>ext4_cdrom_fsd_object := Some cdrom\<rparr>;
          let (status, disk) = env Ext4Fsd;
          if \<not> nt_success_code status then Some (status, s)
          else do {
            s \<leftarrow> io_acquire Device_object (Some disk) s;
            let s = s\<lparr>ext4_disk_fsd_object := Some disk\<rparr>;
            s \<leftarrow> register_devices s;
            Some (0, s) } })"

definition ext4_unload :: "driver_state \<Rightarrow> driver_state option" where
  "ext4_unload s = do {
     s \<leftarrow> io_release Device_object (ext4_disk_fsd_object s) s;
     io_release Device_object (ext4_cdrom_fsd_object s) s }"

section \<open>What loading and unloading leave behind\<close>

definition no_entry :: "ptr \<Rightarrow> io_resource set \<Rightarrow> bool" where
  "no_entry p live \<longleftrightarrow> Device_object p \<notin> live \<and> File_system p \<notin> live \<and> Device_reference p \<notin> live"

lemmas driver_defs = io_acquire_def io_release_def register_devices_def no_entry_def

lemma driver_entry_success:
  assumes "env Ext4CdromFsd = (st1, c)" "env Ext4Fsd = (st2, d)" "nt_success_code st1" "nt_success_code st2"
    and "no_entry c (io_live s)" "no_entry d (io_live s)" "c \<noteq> d"
  shows "\<exists>s'. DriverEntry env s = Some (0, s') \<and> DriverUnload_set s' \<and>
    ext4_cdrom_fsd_object s' = Some c \<and> ext4_disk_fsd_object s' = Some d \<and>
    io_live s' = {Device_object c, File_system c, Device_reference c,
      Device_object d, File_system d, Device_reference d} \<union> io_live s"
  using assms by (auto simp: DriverEntry_def driver_defs)

text \<open>
  C40. Loading and unloading on every path.  If the first device cannot be created, nothing is left; if the
  second cannot, the first device stays, although the driver reports a failure and so is never unloaded.
  If both can, each is registered and referenced once, and unloading deletes the devices and leaves the
  registrations and the references.
\<close>

theorem driver_load_unload:
  assumes "env Ext4CdromFsd = (st1, c)" "env Ext4Fsd = (st2, d)"
    and "no_entry c (io_live s)" "no_entry d (io_live s)" "c \<noteq> d"
  shows "\<exists>status s'. DriverEntry env s = Some (status, s') \<and>
    (if \<not> nt_success_code st1 then status = st1 \<and> io_live s' = io_live s
     else if \<not> nt_success_code st2 then status = st2 \<and> io_live s' = insert (Device_object c) (io_live s)
     else status = 0 \<and> (\<exists>s''. ext4_unload s' = Some s'' \<and>
       io_live s'' = {File_system c, Device_reference c, File_system d, Device_reference d} \<union> io_live s))"
proof (cases "nt_success_code st1 \<and> nt_success_code st2")
  case True
  with driver_entry_success [OF assms(1,2) _ _ assms(3-5)] obtain s'
    where s': "DriverEntry env s = Some (0, s')" "ext4_cdrom_fsd_object s' = Some c" "ext4_disk_fsd_object s' = Some d"
      "io_live s' = {Device_object c, File_system c, Device_reference c,
        Device_object d, File_system d, Device_reference d} \<union> io_live s" by blast
  moreover have "\<exists>s''. ext4_unload s' = Some s'' \<and>
       io_live s'' = {File_system c, Device_reference c, File_system d, Device_reference d} \<union> io_live s"
    using s' assms(3-5) by (auto simp: ext4_unload_def driver_defs release_held)
  ultimately show ?thesis using True by simp
next
  case False
  then show ?thesis using assms by (cases "nt_success_code st1") (auto simp: DriverEntry_def driver_defs)
qed

definition example_io_env :: io_env where
  "example_io_env d = (case d of Ext4CdromFsd \<Rightarrow> (0, 1) | Ext4Fsd \<Rightarrow> (0xC0000035, 2))"

definition unloaded :: driver_state where
  "unloaded = \<lparr>ext4_disk_fsd_object = None, ext4_cdrom_fsd_object = None, DriverUnload_set = False, io_live = {}\<rparr>"

theorem driver_load_unload_witness:
  "\<exists>s'. DriverEntry example_io_env unloaded = Some (0xC0000035, s') \<and> io_live s' = {Device_object 1}"
  using driver_load_unload [of example_io_env 0 1 "0xC0000035" 2 unloaded]
  by (simp add: example_io_env_def unloaded_def no_entry_def)

end
