(* ===== verification/Ext4_Cache.thy ===== *)
theory Ext4_Cache
  imports Nt_Status Drv_Types
begin

text \<open>
  \<open>ext4_cachesup.c\<close>, \<open>jbd2/jbd2_cachesup.c\<close>, and \<open>jbd2_init\<close> and \<open>jbd2_cache_sync_uninit_map\<close> of
  \<open>jbd2/jbd2.c\<close>: the wrappers of the cache manager and the callbacks given to it.

  The cache manager is a parameter, \<open>cc_ops\<close>, that works on a state of its own.  A failed assertion is a
  fault; a wait that does not end is \<open>None\<close> too.
\<close>

section \<open>The cache manager\<close>

record cc_file_sizes =
  AllocationSize :: "64 word"
  FileSize :: "64 word"
  ValidDataLength :: "64 word"

record io_status_block =
  Status :: status_code
  Information :: "64 word"

record cache_manager_callbacks =
  AcquireForLazyWrite :: "ptr \<Rightarrow> bool \<Rightarrow> bool"
  ReleaseFromLazyWrite :: "ptr \<Rightarrow> unit"
  AcquireForReadAhead :: "ptr \<Rightarrow> bool \<Rightarrow> bool"
  ReleaseFromReadAhead :: "ptr \<Rightarrow> unit"

record 'c cc_ops =
  PIN_WAIT :: "32 word"
  PIN_EXCLUSIVE :: "32 word"
  CcInitializeCacheMap :: "ptr \<Rightarrow> cc_file_sizes \<Rightarrow> bool \<Rightarrow> cache_manager_callbacks \<Rightarrow> ptr option \<Rightarrow> 'c \<Rightarrow> 'c"
  CcUninitializeCacheMap :: "ptr \<Rightarrow> 64 word \<Rightarrow> 'c \<Rightarrow> 'c"
  KeWaitForUninitEvent :: "'c \<Rightarrow> (status_code \<times> 'c) option"
  CcPinRead :: "ptr \<Rightarrow> 64 word \<Rightarrow> 32 word \<Rightarrow> 32 word \<Rightarrow> 'c \<Rightarrow> (bool \<times> ptr option \<times> ptr option) \<times> 'c"
  CcPreparePinWrite :: "ptr \<Rightarrow> 64 word \<Rightarrow> 32 word \<Rightarrow> bool \<Rightarrow> 32 word \<Rightarrow> 'c \<Rightarrow> (bool \<times> ptr option \<times> ptr option) \<times> 'c"
  CcSetDirtyPinnedData :: "ptr \<Rightarrow> 64 word \<Rightarrow> 'c \<Rightarrow> 'c"
  CcUnpinData :: "ptr \<Rightarrow> 'c \<Rightarrow> 'c"
  CcRepinBcb :: "ptr \<Rightarrow> 'c \<Rightarrow> 'c"
  CcUnpinRepinnedBcb :: "ptr \<Rightarrow> bool \<Rightarrow> 'c \<Rightarrow> io_status_block \<times> 'c"

section \<open>The wrappers\<close>

definition ext4_cache_init_map :: "('c, 'z) cc_ops_scheme \<Rightarrow> ptr \<Rightarrow> cc_file_sizes \<Rightarrow> bool \<Rightarrow> cache_manager_callbacks
    \<Rightarrow> ptr option \<Rightarrow> 'c \<Rightarrow> 'c" where
  "ext4_cache_init_map cc file_object file_size pin_access callbacks lazy_write_ctx =
     CcInitializeCacheMap cc file_object file_size pin_access callbacks lazy_write_ctx"

definition ext4_cache_sync_uninit_map :: "('c, 'z) cc_ops_scheme \<Rightarrow> ptr \<Rightarrow> 'c \<Rightarrow> 'c option" where
  "ext4_cache_sync_uninit_map cc file_object c = do {
     let c = CcUninitializeCacheMap cc file_object 0 c;
     (wait_status, c) \<leftarrow> KeWaitForUninitEvent cc c;
     check (wait_status = 0);
     Some c }"

definition jbd2_cache_sync_uninit_map :: "('c, 'z) cc_ops_scheme \<Rightarrow> ptr \<Rightarrow> 'c \<Rightarrow> 'c option" where
  "jbd2_cache_sync_uninit_map cc file_object c = do {
     let c = CcUninitializeCacheMap cc file_object 0 c;
     (wait_status, c) \<leftarrow> KeWaitForUninitEvent cc c;
     check (wait_status = 0);
     Some c }"

definition ext4_cache_pin_read :: "('c, 'z) cc_ops_scheme \<Rightarrow> ptr \<Rightarrow> s64 \<Rightarrow> 32 word \<Rightarrow> bool \<Rightarrow> bool \<Rightarrow> 'c
    \<Rightarrow> (bool \<times> ptr option \<times> ptr option) \<times> 'c" where
  "ext4_cache_pin_read cc file_object file_offset len wait exclusive c =
    (let flags = 0;
         flags = (if wait then PIN_WAIT cc else flags);
         flags = (if exclusive then flags OR PIN_EXCLUSIVE cc else flags)
     in CcPinRead cc file_object file_offset len flags c)"

definition ext4_cache_pin_write :: "('c, 'z) cc_ops_scheme \<Rightarrow> ptr \<Rightarrow> s64 \<Rightarrow> 32 word \<Rightarrow> bool \<Rightarrow> bool \<Rightarrow> 'c
    \<Rightarrow> (bool \<times> ptr option \<times> ptr option) \<times> 'c" where
  "ext4_cache_pin_write cc file_object file_offset len zero wait c =
    (let flags = PIN_EXCLUSIVE cc;
         flags = (if wait then flags OR PIN_WAIT cc else flags)
     in CcPreparePinWrite cc file_object file_offset len zero flags c)"

text \<open>\<open>lsn_ll.QuadPart = lsn\<close> widens a \<open>__u32\<close>, which is signed.\<close>

definition ext4_cache_set_dirty :: "('c, 'z) cc_ops_scheme \<Rightarrow> ptr \<Rightarrow> u32 \<Rightarrow> 'c \<Rightarrow> 'c" where
  "ext4_cache_set_dirty cc bcb lsn = CcSetDirtyPinnedData cc bcb (u64_of_u32 lsn)"

definition ext4_cache_unpin_bcb :: "('c, 'z) cc_ops_scheme \<Rightarrow> ptr \<Rightarrow> 'c \<Rightarrow> 'c" where
  "ext4_cache_unpin_bcb cc bcb = CcUnpinData cc bcb"

definition ext4_cache_repin_bcb :: "('c, 'z) cc_ops_scheme \<Rightarrow> ptr \<Rightarrow> 'c \<Rightarrow> 'c" where
  "ext4_cache_repin_bcb cc bcb = CcRepinBcb cc bcb"

text \<open>The assertion tests \<open>Information\<close>, cut to the 32 bits of an \<open>NTSTATUS\<close>, and not \<open>Status\<close>.\<close>

definition ext4_cache_unpin_repinned_bcb :: "('c, 'z) cc_ops_scheme \<Rightarrow> ptr \<Rightarrow> 'c \<Rightarrow> 'c option" where
  "ext4_cache_unpin_repinned_bcb cc bcb c =
    (let (io_status, c) = CcUnpinRepinnedBcb cc bcb False c
     in do { check (nt_success_code (ucast (Information io_status))); Some c })"

section \<open>The callbacks of the journal\<close>

definition jbd2_cc_acquire_for_lazywrite :: "ptr \<Rightarrow> bool \<Rightarrow> bool" where
  "jbd2_cc_acquire_for_lazywrite context' wait = True"

definition jbd2_cc_release_from_lazywrite :: "ptr \<Rightarrow> unit" where
  "jbd2_cc_release_from_lazywrite context' = ()"

definition jbd2_cc_acquire_for_readahead :: "ptr \<Rightarrow> bool \<Rightarrow> bool" where
  "jbd2_cc_acquire_for_readahead context' wait = True"

definition jbd2_cc_release_from_readahead :: "ptr \<Rightarrow> unit" where
  "jbd2_cc_release_from_readahead context' = ()"

definition jbd2_init :: "cache_manager_callbacks \<Rightarrow> cache_manager_callbacks" where
  "jbd2_init callbacks = callbacks\<lparr>AcquireForLazyWrite := jbd2_cc_acquire_for_lazywrite,
     ReleaseFromLazyWrite := jbd2_cc_release_from_lazywrite,
     AcquireForReadAhead := jbd2_cc_acquire_for_readahead,
     ReleaseFromReadAhead := jbd2_cc_release_from_readahead\<rparr>"

section \<open>What the wrappers pass on\<close>

text \<open>Where the two flags are different bits, a read is pinned with the flags that were asked for.\<close>

lemma pin_flag_bits:
  assumes "w AND e = 0" "w \<noteq> 0" "e \<noteq> (0 :: 32 word)"
  shows "(let flags = if a then w else 0; flags = if b then flags OR e else flags in
     (flags AND w \<noteq> 0 \<longleftrightarrow> a) \<and> (flags AND e \<noteq> 0 \<longleftrightarrow> b))"
proof -
  have "(w OR e) AND w = w" "(w OR e) AND e = e" by (simp_all add: word_ao_absorbs)
  moreover have "e AND w = 0" using assms(1) by (simp add: and.commute)
  ultimately show ?thesis using assms by (cases a; cases b) simp_all
qed

lemma ext4_cache_pin_read_flags:
  assumes "PIN_WAIT cc AND PIN_EXCLUSIVE cc = 0" "PIN_WAIT cc \<noteq> 0" "PIN_EXCLUSIVE cc \<noteq> 0"
  shows "\<exists>flags. ext4_cache_pin_read cc file off len wait exclusive c = CcPinRead cc file off len flags c \<and>
    (flags AND PIN_WAIT cc \<noteq> 0 \<longleftrightarrow> wait) \<and> (flags AND PIN_EXCLUSIVE cc \<noteq> 0 \<longleftrightarrow> exclusive)"
  using pin_flag_bits [OF assms, of wait exclusive]
  by (auto simp: ext4_cache_pin_read_def Let_def split del: if_split)

lemma ext4_cache_pin_write_flags:
  assumes "PIN_WAIT cc AND PIN_EXCLUSIVE cc = 0" "PIN_WAIT cc \<noteq> 0" "PIN_EXCLUSIVE cc \<noteq> 0"
  shows "\<exists>flags. ext4_cache_pin_write cc file off len zero wait c = CcPreparePinWrite cc file off len zero flags c \<and>
    (flags AND PIN_WAIT cc \<noteq> 0 \<longleftrightarrow> wait) \<and> flags AND PIN_EXCLUSIVE cc \<noteq> 0"
  using pin_flag_bits [OF assms, of wait True]
  by (auto simp: ext4_cache_pin_write_def Let_def or.commute split: if_splits)

text \<open>A log sequence number with its top bit set reaches the cache manager as a negative number.\<close>

lemma ext4_cache_set_dirty_lsn:
  "\<exists>q. ext4_cache_set_dirty cc bcb lsn = CcSetDirtyPinnedData cc bcb q \<and> sint q = sint lsn"
  by (auto simp: ext4_cache_set_dirty_def)

text \<open>
  \<open>ext4_cache_unpin_repinned_bcb\<close> does not notice that the cache could not be written: whatever the
  status of the write, it returns if the low half of the number of bytes is not negative, as after a write that
  failed and moved none; and it stops at its assertion if that half is negative, though the write succeeded.
\<close>

theorem unpin_repinned_ignores_status:
  assumes "CcUnpinRepinnedBcb cc bcb False c = (io_status, c')"
  shows "ext4_cache_unpin_repinned_bcb cc bcb c =
    (if uint (Information io_status) mod 2 ^ 32 < 2 ^ 31 then Some c' else None)"
proof -
  have "0 \<le> sint w \<longleftrightarrow> uint w < 2 ^ 31" for w :: "32 word"
    using uint_lt2p [of w] uint_ge_0 [of w]
    by (cases "uint w < 2 ^ 31") (simp_all add: sint_uint bit_iff_odd div_pos_geq div_pos_pos_trivial)
  then show ?thesis using assms by (simp add: ext4_cache_unpin_repinned_bcb_def unsigned_ucast_eq take_bit_eq_mod)
qed

text \<open>A write that fails with an input-output error and moves no byte.\<close>

definition failing_cc :: "unit cc_ops" where
  "failing_cc = \<lparr>PIN_WAIT = 1, PIN_EXCLUSIVE = 2, CcInitializeCacheMap = \<lambda>_ _ _ _ _ c. c,
     CcUninitializeCacheMap = \<lambda>_ _ c. c, KeWaitForUninitEvent = \<lambda>c. Some (0, c),
     CcPinRead = \<lambda>_ _ _ _ c. ((False, None, None), c), CcPreparePinWrite = \<lambda>_ _ _ _ _ c. ((False, None, None), c),
     CcSetDirtyPinnedData = \<lambda>_ _ c. c, CcUnpinData = \<lambda>_ c. c, CcRepinBcb = \<lambda>_ c. c,
     CcUnpinRepinnedBcb = \<lambda>_ _ c. (\<lparr>Status = 0xC0000185, Information = 0\<rparr>, c)\<rparr>"

theorem unpin_repinned_ignores_status_witness: "ext4_cache_unpin_repinned_bcb failing_cc 1 () = Some ()"
  using unpin_repinned_ignores_status [of failing_cc 1 "()" "\<lparr>Status = 0xC0000185, Information = 0\<rparr>" "()"]
  by (simp add: failing_cc_def)

end
