(* ===== verification/Ext4_Extent_Fs.thy ===== *)
theory Ext4_Extent_Fs
  imports Drv_Types
begin

text \<open>
  \<open>include/ext4_fs.h\<close>, lines 716 to 945: the nodes of the extent tree and the accessors of their
  entries.

  A node is a header of twelve bytes followed by entries of twelve bytes.  The entries of a leaf are
  read as \<open>struct ext4_extent\<close> and those of an inner node as \<open>struct ext4_extent_idx\<close>; the two share
  their first member and lay the remaining eight bytes out differently.  An entry is therefore its
  block number and four 16-bit words, and the members of the two structures are views of them.
\<close>

section \<open>Entries and headers\<close>

record ext4_entry =
  e_block :: u32
  e_h0 :: u16
  e_h1 :: u16
  e_h2 :: u16
  e_h3 :: u16

text \<open>\<open>struct ext4_extent\<close>: \<open>ee_block\<close> is \<open>e_block\<close>, then \<open>ee_len\<close>, \<open>ee_start_hi\<close>, \<open>ee_start_lo\<close>.\<close>

definition ee_len :: "ext4_entry \<Rightarrow> u16" where "ee_len e = e_h0 e"
definition ee_start_hi :: "ext4_entry \<Rightarrow> u16" where "ee_start_hi e = e_h1 e"
definition ee_start_lo :: "ext4_entry \<Rightarrow> u32" where "ee_start_lo e = word_cat (e_h3 e) (e_h2 e)"

definition set_ee_len :: "u16 \<Rightarrow> ext4_entry \<Rightarrow> ext4_entry" where
  "set_ee_len len e = e\<lparr>e_h0 := len\<rparr>"
definition set_ee_start :: "u16 \<Rightarrow> u32 \<Rightarrow> ext4_entry \<Rightarrow> ext4_entry" where
  "set_ee_start hi lo e = e\<lparr>e_h1 := hi, e_h2 := ucast lo, e_h3 := ucast (drop_bit 16 lo)\<rparr>"

text \<open>\<open>struct ext4_extent_idx\<close>: \<open>ei_block\<close> is \<open>e_block\<close>, then \<open>ei_leaf_lo\<close>, \<open>ei_leaf_hi\<close>, \<open>ei_unused\<close>.\<close>

definition ei_leaf_lo :: "ext4_entry \<Rightarrow> u32" where "ei_leaf_lo e = word_cat (e_h1 e) (e_h0 e)"
definition ei_leaf_hi :: "ext4_entry \<Rightarrow> u16" where "ei_leaf_hi e = e_h2 e"
definition ei_unused :: "ext4_entry \<Rightarrow> u16" where "ei_unused e = e_h3 e"

definition set_ei_leaf :: "u16 \<Rightarrow> u32 \<Rightarrow> ext4_entry \<Rightarrow> ext4_entry" where
  "set_ei_leaf hi lo e = e\<lparr>e_h2 := hi, e_h0 := ucast lo, e_h1 := ucast (drop_bit 16 lo)\<rparr>"

record ext4_extent_header =
  eh_magic :: u16
  eh_entries :: u16
  eh_max :: u16
  eh_depth :: u16
  eh_generation :: u32

definition EXT4_EXT_MAGIC :: u16 where "EXT4_EXT_MAGIC = cpu_to_le16 0xf30a"

text \<open>The tail follows the \<open>eh_max\<close> entries; its offset is counted in bytes from the header.\<close>

definition EXT4_EXTENT_TAIL_OFFSET :: "ext4_extent_header \<Rightarrow> int" where
  "EXT4_EXTENT_TAIL_OFFSET hdr = 12 + 12 * sint (le16_to_cpu (eh_max hdr))"

text \<open>
  The first and last entry and the last slot, as indices of the entries after the header.  The counts
  are signed, so that an index can be negative.
\<close>

definition EXT_FIRST :: int where "EXT_FIRST = 0"

definition EXT_LAST :: "ext4_extent_header \<Rightarrow> int" where
  "EXT_LAST hdr = EXT_FIRST + sint (le16_to_cpu (eh_entries hdr)) - 1"

definition EXT_MAX :: "ext4_extent_header \<Rightarrow> int" where
  "EXT_MAX hdr = EXT_FIRST + sint (le16_to_cpu (eh_max hdr)) - 1"

definition EXT_HAS_FREE_INDEX :: "ext4_extent_header \<Rightarrow> bool" where
  "EXT_HAS_FREE_INDEX hdr \<longleftrightarrow> sint (le16_to_cpu (eh_entries hdr)) < sint (le16_to_cpu (eh_max hdr))"

text \<open>\<open>ext_depth\<close> of the root's header: an unsigned short.\<close>

definition ext_depth :: "ext4_extent_header \<Rightarrow> 16 word" where
  "ext_depth hdr = le16_to_cpu (eh_depth hdr)"

lemmas ext_pos_defs = EXT_FIRST_def EXT_LAST_def EXT_MAX_def

section \<open>Lengths\<close>

text \<open>
  \<open>EXT_INIT_MAX_LEN\<close> is an unsigned 32-bit constant, so the signed 16-bit length it is compared with
  is extended by its sign and then read as unsigned.
\<close>

definition EXT_INIT_MAX_LEN :: "32 word" where "EXT_INIT_MAX_LEN = push_bit 15 1"
definition EXT_UNWRITTEN_MAX_LEN :: "32 word" where "EXT_UNWRITTEN_MAX_LEN = EXT_INIT_MAX_LEN - 1"

definition ext4_ext_mark_unwritten :: "ext4_entry \<Rightarrow> ext4_entry option" where
  "ext4_ext_mark_unwritten ext = do {
     check (\<not> (u32_of_u16 (le16_to_cpu (ee_len ext)) AND NOT EXT_INIT_MAX_LEN = 0));
     Some (set_ee_len (ee_len ext OR cpu_to_le16 (ucast EXT_INIT_MAX_LEN)) ext)
   }"

definition ext4_ext_is_unwritten :: "ext4_entry \<Rightarrow> bool" where
  "ext4_ext_is_unwritten ext \<longleftrightarrow> u32_of_u16 (le16_to_cpu (ee_len ext)) > EXT_INIT_MAX_LEN"

definition ext4_ext_get_actual_len :: "ext4_entry \<Rightarrow> 32 word" where
  "ext4_ext_get_actual_len ext =
    (if u32_of_u16 (le16_to_cpu (ee_len ext)) \<le> EXT_INIT_MAX_LEN
     then u32_of_u16 (le16_to_cpu (ee_len ext))
     else u32_of_u16 (le16_to_cpu (ee_len ext)) - EXT_INIT_MAX_LEN)"

definition ext4_ext_mark_initialized :: "ext4_entry \<Rightarrow> ext4_entry" where
  "ext4_ext_mark_initialized ext = set_ee_len (cpu_to_le16 (ucast (ext4_ext_get_actual_len ext))) ext"

section \<open>Block numbers\<close>

type_synonym ext4_fsblk_t = u64
type_synonym ext4_lblk_t = u32

definition ext4_ext_pblk :: "ext4_entry \<Rightarrow> ext4_fsblk_t" where
  "ext4_ext_pblk ex = u64_of_u32 (le32_to_cpu (ee_start_lo ex)) OR
     push_bit 1 (push_bit 31 (scast (le16_to_cpu (ee_start_hi ex))))"

definition ext4_idx_pblk :: "ext4_entry \<Rightarrow> ext4_fsblk_t" where
  "ext4_idx_pblk ix = u64_of_u32 (le32_to_cpu (ei_leaf_lo ix)) OR
     push_bit 1 (push_bit 31 (scast (le16_to_cpu (ei_leaf_hi ix))))"

definition ext4_ext_lblk :: "ext4_entry \<Rightarrow> ext4_lblk_t" where
  "ext4_ext_lblk ex = le32_to_cpu (e_block ex)"

definition ext4_idx_lblk :: "ext4_entry \<Rightarrow> ext4_lblk_t" where
  "ext4_idx_lblk ix = le32_to_cpu (e_block ix)"

definition ext4_ext_store_pblk :: "ext4_fsblk_t \<Rightarrow> ext4_entry \<Rightarrow> ext4_entry" where
  "ext4_ext_store_pblk pb ex =
     set_ee_start (cpu_to_le16 (ucast (ucast (signed_drop_bit 1 (signed_drop_bit 31 pb)) AND 0xffff :: 32 word)))
       (cpu_to_le32 (ucast (pb AND 0xffffffff))) ex"

definition ext4_idx_store_pblk :: "ext4_fsblk_t \<Rightarrow> ext4_entry \<Rightarrow> ext4_entry" where
  "ext4_idx_store_pblk pb ix =
     set_ei_leaf (cpu_to_le16 (ucast (ucast (signed_drop_bit 1 (signed_drop_bit 31 pb)) AND 0xffff :: 32 word)))
       (cpu_to_le32 (ucast (pb AND 0xffffffff))) ix"

definition ext4_ext_store_lblk :: "ext4_lblk_t \<Rightarrow> ext4_entry \<Rightarrow> ext4_entry" where
  "ext4_ext_store_lblk lb ex = ex\<lparr>e_block := cpu_to_le32 lb\<rparr>"

definition ext4_idx_store_lblk :: "ext4_lblk_t \<Rightarrow> ext4_entry \<Rightarrow> ext4_entry" where
  "ext4_idx_store_lblk lb ix = ix\<lparr>e_block := cpu_to_le32 lb\<rparr>"

section \<open>Facts of the accessors\<close>

lemma halves: "word_cat (ucast (drop_bit 16 lo) :: u16) (ucast lo :: u16) = (lo :: u32)"
  by (rule bit_word_eqI) (auto simp: bit_word_cat_iff bit_simps)

lemma ee_views [simp]:
  "ee_len (set_ee_start hi lo e) = ee_len e" "ee_start_hi (set_ee_start hi lo e) = hi"
  "ee_start_lo (set_ee_start hi lo e) = lo" "ee_len (set_ee_len n e) = n"
  "ee_start_hi (set_ee_len n e) = ee_start_hi e" "ee_start_lo (set_ee_len n e) = ee_start_lo e"
  "e_block (set_ee_start hi lo e) = e_block e" "e_block (set_ee_len n e) = e_block e"
  "set_ee_len n (set_ee_len m e) = set_ee_len n e" "set_ee_len (ee_len e) e = e"
  by (simp_all add: ee_len_def ee_start_hi_def ee_start_lo_def set_ee_len_def set_ee_start_def halves)

lemma ei_views [simp]:
  "ei_leaf_hi (set_ei_leaf hi lo e) = hi" "ei_leaf_lo (set_ei_leaf hi lo e) = lo"
  "ei_unused (set_ei_leaf hi lo e) = ei_unused e" "e_block (set_ei_leaf hi lo e) = e_block e"
  by (simp_all add: ei_leaf_hi_def ei_leaf_lo_def ei_unused_def set_ei_leaf_def halves)

text \<open>The low half is extended by its sign and the high half is shifted above it.\<close>

definition join_pblk :: "u16 \<Rightarrow> u32 \<Rightarrow> u64" where
  "join_pblk hi lo = u64_of_u32 lo OR push_bit 1 (push_bit 31 (scast hi))"

definition pblk_hi :: "u64 \<Rightarrow> u16" where
  "pblk_hi pb = ucast (ucast (signed_drop_bit 1 (signed_drop_bit 31 pb)) AND 0xffff :: 32 word)"

lemma bit_0xffff [simp]: "bit (0xffff :: int) i \<longleftrightarrow> i < 16"
proof -
  have "(0xffff :: int) = mask 16" by (simp add: mask_eq_exp_minus_1)
  then show ?thesis by (simp only: bit_mask_iff) simp
qed

lemma bit_0xffffffff [simp]: "bit (0xffffffff :: int) i \<longleftrightarrow> i < 32"
proof -
  have "(0xffffffff :: int) = mask 32" by (simp add: mask_eq_exp_minus_1)
  then show ?thesis by (simp only: bit_mask_iff) simp
qed

lemma pblk_accessors:
  "ext4_ext_pblk e = join_pblk (ee_start_hi e) (ee_start_lo e)"
  "ext4_idx_pblk e = join_pblk (ei_leaf_hi e) (ei_leaf_lo e)"
  "ext4_ext_store_pblk pb e = set_ee_start (pblk_hi pb) (ucast pb) e"
  "ext4_idx_store_pblk pb e = set_ei_leaf (pblk_hi pb) (ucast pb) e"
proof -
  have "ucast (pb AND 0xffffffff) = (ucast pb :: u32)"
    by (rule bit_word_eqI) (auto simp: bit_simps)
  then show "ext4_ext_store_pblk pb e = set_ee_start (pblk_hi pb) (ucast pb) e"
    "ext4_idx_store_pblk pb e = set_ei_leaf (pblk_hi pb) (ucast pb) e"
    by (simp_all add: ext4_ext_store_pblk_def ext4_idx_store_pblk_def pblk_hi_def endian_defs)
qed (simp_all add: ext4_ext_pblk_def ext4_idx_pblk_def join_pblk_def endian_defs)

lemma bit_pblk_hi: "bit (pblk_hi pb) i \<longleftrightarrow> i < 16 \<and> bit pb (32 + i)"
  by (auto simp: pblk_hi_def bit_simps min_def)

lemma bit_join_pblk:
  "bit (join_pblk hi lo) i \<longleftrightarrow> i < 64 \<and> (bit lo (min i 31) \<or> 32 \<le> i \<and> bit hi (min (i - 32) 15))"
  by (auto simp: join_pblk_def u64_of_u32_def bit_simps min_def)

lemma join_pblk_parts:
  assumes "\<not> bit pb 31" "drop_bit 47 pb = 0"
  shows "join_pblk (pblk_hi pb) (ucast pb) = pb"
proof (rule bit_word_eqI)
  fix i assume "i < LENGTH(64)"
  have hi: "\<not> bit pb n" if "47 \<le> n" for n
    using bit_drop_bit_eq [of 47 pb] that assms(2) by (simp add: fun_eq_iff) (metis le_add_diff_inverse)
  show "bit (join_pblk (pblk_hi pb) (ucast pb)) i = bit pb i"
    using \<open>i < LENGTH(64)\<close> assms(1) hi [of i] hi [of 47]
    by (cases "i < 32"; cases "i < 48") (auto simp: bit_join_pblk bit_pblk_hi bit_simps min_def le_antisym not_less)
qed

text \<open>
  C35. A block number below \<open>2 ^ 47\<close> with bit 31 clear is read back from an entry as it was stored,
  of an extent as well as of an index, and storing it leaves the other members as they were.
\<close>

theorem ext4_store_pblk_roundtrip:
  assumes "\<not> bit pb 31" "drop_bit 47 pb = 0"
  shows "ext4_ext_pblk (ext4_ext_store_pblk pb e) = pb \<and> ext4_idx_pblk (ext4_idx_store_pblk pb e) = pb
       \<and> ext4_ext_lblk (ext4_ext_store_pblk pb e) = ext4_ext_lblk e \<and> ee_len (ext4_ext_store_pblk pb e) = ee_len e
       \<and> ext4_idx_lblk (ext4_idx_store_pblk pb e) = ext4_idx_lblk e \<and> ei_unused (ext4_idx_store_pblk pb e) = ei_unused e"
  by (simp add: pblk_accessors join_pblk_parts [OF assms] ext4_ext_lblk_def ext4_idx_lblk_def)

theorem ext4_store_pblk_roundtrip_witness:
  "ext4_ext_pblk (ext4_ext_store_pblk 0x123456789 \<lparr>e_block = 7, e_h0 = 5, e_h1 = 1, e_h2 = 2, e_h3 = 3\<rparr>) = 0x123456789"
proof -
  have "\<not> bit (0x123456789 :: u64) 31" "drop_bit 47 (0x123456789 :: u64) = 0" by (simp_all)
  from ext4_store_pblk_roundtrip [OF this] show ?thesis by blast
qed

text \<open>With bit 31 set the sign of the low half covers the high half.\<close>

lemma ext4_store_pblk_sign:
  assumes "bit pb 31" "32 \<le> i" "i < 64"
  shows "bit (ext4_ext_pblk (ext4_ext_store_pblk pb e)) i"
  using assms by (simp add: pblk_accessors bit_join_pblk bit_simps min_def)

text \<open>
  A length up to \<open>0x7fff\<close> belongs to a written extent.  The lengths with bit 15 set, \<open>0x8000\<close> too,
  are those of unwritten ones, and their actual length is \<open>2 ^ 16\<close> too small.
\<close>

lemma uint_16: "0 \<le> uint (w :: u16)" "uint (w :: u16) < 2 ^ 16"
  using uint_lt2p [of w] by simp_all

lemma sint_16: "sint (w :: u16) = (if uint w < 2 ^ 15 then uint w else uint w - 2 ^ 16)"
proof -
  have "bit (uint w) 15 \<longleftrightarrow> uint w div 2 ^ 15 = 1"
  proof -
    have "uint w div 2 ^ 15 < 2" using uint_16 [of w] by simp
    moreover have "0 \<le> uint w div 2 ^ 15" by (rule pos_imp_zdiv_nonneg_iff [THEN iffD2]) simp_all
    ultimately have "uint w div 2 ^ 15 = 0 \<or> uint w div 2 ^ 15 = 1" by linarith
    then show ?thesis by (auto simp: bit_iff_odd)
  qed
  moreover have "uint w div 2 ^ 15 = 1 \<longleftrightarrow> 2 ^ 15 \<le> uint w" using uint_16 [of w] by auto
  moreover have "sint w = uint w - 2 ^ 16 * of_bool (bit (uint w) 15)"
    using uint_16 [of w] by (simp add: sint_uint signed_take_bit_eq_take_bit_minus take_bit_int_eq_self)
  ultimately show ?thesis by simp
qed

lemma u32_of_u16_int: "u32_of_u16 w = word_of_int (if uint w < 2 ^ 15 then uint w else uint w - 2 ^ 16)"
  unfolding u32_of_u16_def scast_eq sint_16 ..

lemma u32_of_u16_eq: "u32_of_u16 w = (if uint w < 2 ^ 15 then ucast w else ucast w - 2 ^ 16)"
  by (simp only: u32_of_u16_int ucast_eq wi_hom_sub [symmetric] split: if_split) (simp only: word_of_int_2p numeral_eq_Suc, simp)

lemma uint_u32_of_u16:
  "uint (u32_of_u16 w) = (if uint w < 2 ^ 15 then uint w else uint w + 2 ^ 32 - 2 ^ 16)"
proof (cases "uint w < 2 ^ 15")
  case True
  moreover have "uint w mod 2 ^ LENGTH(32) = uint w" using uint_16 [of w] by (intro mod_pos_pos_trivial) simp_all
  ultimately show ?thesis by (simp only: u32_of_u16_int if_True uint_word_of_int)
next
  case False
  have "u32_of_u16 w = word_of_int (uint w + 2 ^ 32 - 2 ^ 16)"
    using False by (simp add: u32_of_u16_int word_of_int_eq_iff take_bit_eq_mod)
  moreover have "uint (word_of_int (uint w + 2 ^ 32 - 2 ^ 16) :: u32) = uint w + 2 ^ 32 - 2 ^ 16"
    using uint_16 [of w] False by (subst uint_word_of_int) (intro mod_pos_pos_trivial; simp)
  ultimately show ?thesis using False by simp
qed

lemma is_unwritten_iff: "ext4_ext_is_unwritten e \<longleftrightarrow> 2 ^ 15 \<le> uint (ee_len e)"
  by (auto simp: ext4_ext_is_unwritten_def EXT_INIT_MAX_LEN_def endian_defs word_less_def uint_u32_of_u16)

lemma actual_len_eq:
  "ext4_ext_get_actual_len e = (if ext4_ext_is_unwritten e then ucast (ee_len e) - 2 ^ 15 - 2 ^ 16 else ucast (ee_len e))"
  by (cases "uint (ee_len e) < 2 ^ 15")
    (simp_all add: ext4_ext_get_actual_len_def is_unwritten_iff EXT_INIT_MAX_LEN_def endian_defs word_le_def
      uint_u32_of_u16, simp_all add: u32_of_u16_eq)

lemma cut: "(ucast (ucast w - 65536 :: u32) :: u16) = w"
proof -
  have "uint (ucast w :: u32) = uint w" using uint_up_ucast [of w, where ?'b = 32] by (simp add: is_up)
  then have "uint (ucast w - 65536 :: u32) = (uint w - 65536) mod 2 ^ 32"
    using uint_word_ariths(2) [of "ucast w :: u32" 65536] by simp
  moreover have "(uint w - 65536) mod 2 ^ 32 mod 2 ^ 16 = uint w mod (2 ^ 16 :: int)"
    using minus_mod_self2 [of "uint w" 65536] by (subst mod_mod_cancel) simp_all
  ultimately have "uint (ucast w - 65536 :: u32) mod 2 ^ 16 = uint w mod 2 ^ 16" by (simp only:)
  then have "word_of_int (uint (ucast w - 65536 :: u32)) = (word_of_int (uint w) :: u16)"
    unfolding word_of_int_eq_iff take_bit_eq_mod len_num1 len_bit0 by simp
  then show ?thesis unfolding ucast_eq word_of_int_uint .
qed

lemma mark_unwritten_len:
  assumes "0 < uint (ee_len e)" "uint (ee_len e) < 2 ^ 15"
  shows "uint (ee_len e OR 0x8000) = uint (ee_len e) + 2 ^ 15"
    "ext4_ext_mark_unwritten e = Some (set_ee_len (ee_len e OR 0x8000) e)"
proof -
  let ?n = "ee_len e" and ?m = "ee_len e OR 0x8000"
  have b: "bit (0x8000 :: u16) i \<longleftrightarrow> i = 15" for i
    using bit_push_bit_iff [of 15 "1 :: u16" i] by (auto simp: bit_1_iff)
  have b32: "bit (0x8000 :: u32) i \<longleftrightarrow> i = 15" for i
    using bit_push_bit_iff [of 15 "1 :: u32" i] by (auto simp: bit_1_iff)
  have "\<not> bit (uint ?n) 15" using assms(2) uint_16 [of ?n] by (simp add: bit_iff_odd)
  then have b15: "\<not> bit ?n 15" by (simp add: bit_uint_iff)
  then have disj: "?n AND 0x8000 = 0"
    by (intro bit_word_eqI) (simp only: bit_and_iff b, auto simp: bit_uint_iff)
  have m: "?m = ?n + 0x8000" using disjunctive_add [of ?n "0x8000"] disj by (metis bit_and_iff bit_0_eq bot_apply bot_bool_def)
  show "uint ?m = uint ?n + 2 ^ 15" unfolding m using assms(2) uint_16 [of ?n]
    by (subst uint_plus_simple_iff [THEN iffD1]) (simp_all add: word_le_def uint_word_ariths)
  have low: "ucast ?n AND NOT 0x8000 = (ucast ?n :: u32)"
    using b15 b32 by (intro bit_word_eqI) (auto simp only: bit_and_iff bit_not_iff bit_ucast_iff; simp)
  have "(ucast ?n :: u32) \<noteq> 0" 
  proof
    assume "(ucast ?n :: u32) = 0"
    then have "uint ?n = 0" using uint_up_ucast [of ?n, where ?'b = 32] by (simp add: is_up)
    with assms(1) show False by simp
  qed
  then show "ext4_ext_mark_unwritten e = Some (set_ee_len ?m e)"
    using assms(2) low by (simp add: ext4_ext_mark_unwritten_def endian_defs u32_of_u16_eq EXT_INIT_MAX_LEN_def)
qed

text \<open>
  Marking a written extent of one to \<open>0x7fff\<close> blocks as unwritten makes it unwritten, and
  marking it as initialized again restores it; in between the length that
  \<open>ext4_ext_get_actual_len\<close> reports is \<open>2 ^ 16\<close> too small.
\<close>

theorem ext4_mark_unwritten_roundtrip:
  assumes "0 < uint (ee_len e)" "uint (ee_len e) < 2 ^ 15"
  shows "\<exists>e'. ext4_ext_mark_unwritten e = Some e' \<and> ext4_ext_is_unwritten e' \<and> \<not> ext4_ext_is_unwritten e
       \<and> ext4_ext_mark_initialized e' = e \<and> ext4_ext_get_actual_len e' = ext4_ext_get_actual_len e - 2 ^ 16"
proof -
  let ?n = "ee_len e" and ?m = "ee_len e OR 0x8000"
  note um = mark_unwritten_len(1) [OF assms]
  have um32: "(ucast ?m :: u32) = ucast ?n + 2 ^ 15"
    using um uint_16 [of ?n] by (intro word_uint_eqI) (simp add: uint_word_ariths uint_up_ucast is_up)
  let ?e' = "set_ee_len ?m e"
  have "ext4_ext_mark_unwritten e = Some ?e'" by (rule mark_unwritten_len(2) [OF assms])
  moreover have "ext4_ext_is_unwritten ?e'" "\<not> ext4_ext_is_unwritten e"
    using assms um by (simp_all add: is_unwritten_iff)
  moreover have "ext4_ext_get_actual_len ?e' = ext4_ext_get_actual_len e - 2 ^ 16"
    using assms um by (simp add: actual_len_eq is_unwritten_iff um32)
  moreover have "ext4_ext_mark_initialized ?e' = e"
    using assms um by (simp add: ext4_ext_mark_initialized_def actual_len_eq is_unwritten_iff um32 endian_defs cut)
  ultimately show ?thesis by blast
qed

theorem ext4_mark_unwritten_roundtrip_witness:
  "\<exists>e'. ext4_ext_mark_unwritten \<lparr>e_block = 7, e_h0 = 5, e_h1 = 0, e_h2 = 100, e_h3 = 0\<rparr> = Some e' \<and>
     ext4_ext_is_unwritten e' \<and>
     ext4_ext_mark_initialized e' = \<lparr>e_block = 7, e_h0 = 5, e_h1 = 0, e_h2 = 100, e_h3 = 0\<rparr>"
  using ext4_mark_unwritten_roundtrip [of "\<lparr>e_block = 7, e_h0 = 5, e_h1 = 0, e_h2 = 100, e_h3 = 0\<rparr>"]
  by (auto simp: ee_len_def)

text \<open>The header's comment makes \<open>0x8000\<close> the length of a written extent; the code does not.\<close>

lemma full_length_is_unwritten: "ee_len e = 0x8000 \<Longrightarrow> ext4_ext_is_unwritten e"
  by (simp add: is_unwritten_iff)

end
