(* ===== verification/Ext4_Extent_State.thy ===== *)
theory Ext4_Extent_State
  imports Ext4_Extent_Fs
begin

text \<open>
  \<open>ext4_extent.c\<close>, lines 1 to 137, 198 to 319 and 486 to 493: the state of the extent tree code, what
  it relies on, and its helpers for capacities, checksums, dirty marks and headers.

  The file is taken over from another driver and spells several names differently from
  \<open>include/ext4_fs.h\<close>; the model reads them as the header's: \<open>first_block\<close> is \<open>ee_block\<close> or
  \<open>ei_block\<close>, \<open>block_count\<close> is \<open>ee_len\<close>, \<open>entries_count\<close>, \<open>max_entries_count\<close>, \<open>magic\<close> and
  \<open>depth\<close> are the \<open>eh_\<close> members, \<open>ext4_ext_pblock\<close> is \<open>ext4_ext_pblk\<close>, \<open>to_le32\<close> is
  \<open>le32_to_cpu\<close>, and \<open>ext_block_hdr (&bh)\<close> is the header in the data of the block \<open>bh\<close>.

  Memory.  A node is the root in the inode or a block, and it is its header, its entries and the
  checksum behind them.  A pointer to an entry is the index of the entry in its node; an access
  outside the entries that the node has room for is a fault.
\<close>

section \<open>Memory\<close>

record ext4_node =
  n_hdr :: ext4_extent_header
  n_slots :: "ext4_entry list"
  n_tail :: u32

datatype loc = Root | Blk ext4_fsblk_t

definition slot :: "ext4_node \<Rightarrow> int \<Rightarrow> ext4_entry option" where
  "slot n i = (if 0 \<le> i \<and> i < int (length (n_slots n)) then Some (n_slots n ! nat i) else None)"

definition set_slot :: "int \<Rightarrow> ext4_entry \<Rightarrow> ext4_node \<Rightarrow> ext4_node option" where
  "set_slot i e n = (if 0 \<le> i \<and> i < int (length (n_slots n))
     then Some (n\<lparr>n_slots := (n_slots n)[nat i := e]\<rparr>) else None)"

text \<open>\<open>memmove (to, from, len)\<close> of whole entries within a node.\<close>

definition move_slots :: "int \<Rightarrow> int \<Rightarrow> int \<Rightarrow> ext4_node \<Rightarrow> ext4_node option" where
  "move_slots to from len n =
    (if 0 \<le> len \<and> 0 \<le> from \<and> from + len \<le> int (length (n_slots n))
        \<and> 0 \<le> to \<and> to + len \<le> int (length (n_slots n))
     then Some (n\<lparr>n_slots := take (nat to) (n_slots n) @ take (nat len) (drop (nat from) (n_slots n)) @
                 drop (nat (to + len)) (n_slots n)\<rparr>)
     else None)"

definition set_entries :: "u16 \<Rightarrow> ext4_node \<Rightarrow> ext4_node" where
  "set_entries k n = n\<lparr>n_hdr := (n_hdr n)\<lparr>eh_entries := k\<rparr>\<rparr>"

text \<open>
  The members of \<open>struct ext4_extent_path\<close>; of its \<open>struct ext4_block\<close> only the block number
  \<open>lb_id\<close> is used apart from the buffer behind it.  A pointer into the node of \<open>p_header\<close> is an
  index; \<open>None\<close> is \<open>NULL\<close>.
\<close>

record ext4_extent_path =
  p_block :: ext4_fsblk_t
  p_lb_id :: ext4_fsblk_t
  p_depth :: int
  p_maxdepth :: int
  p_header :: "loc option"
  p_index :: "int option"
  p_extent :: "int option"

definition zero_path :: ext4_extent_path where
  "zero_path = \<lparr>p_block = 0, p_lb_id = 0, p_depth = 0, p_maxdepth = 0, p_header = None,
     p_index = None, p_extent = None\<rparr>"

text \<open>
  The state: the nodes in memory, the dirty flag of the inode, and the rest of the file system, which
  only the functions outside the file change.
\<close>

record 'w ext4_state =
  nodes :: "loc \<rightharpoonup> ext4_node"
  inode_dirty :: bool
  world :: 'w

datatype errno = EOK | EIO | ENOMEM | Eother int

section \<open>The environment\<close>

text \<open>
  What the file calls and \<open>src/\<close> does not define.  A function that fills a \<open>struct ext4_block\<close> takes
  the old \<open>lb_id\<close> and yields the new one.
\<close>

record 'w ext4_env =
  ext4_sb_get_block_size :: u32
  metadata_csum :: bool
  CONFIG_META_CSUM_ENABLE :: bool
  ext4_crc32c :: "u32 \<Rightarrow> byte list \<Rightarrow> u32"
  EXT4_CRC32_INIT :: u32
  sb_uuid :: "byte list"
  inode_index :: u32
  inode_generation :: u32
  ext4_trans_block_get :: "ext4_fsblk_t \<Rightarrow> ext4_fsblk_t \<Rightarrow> 'w ext4_state \<Rightarrow> errno \<times> ext4_fsblk_t \<times> 'w ext4_state"
  ext4_trans_block_get_noread :: "ext4_fsblk_t \<Rightarrow> ext4_fsblk_t \<Rightarrow> 'w ext4_state \<Rightarrow> errno \<times> ext4_fsblk_t \<times> 'w ext4_state"
  ext4_block_set :: "ext4_fsblk_t \<Rightarrow> 'w ext4_state \<Rightarrow> errno \<times> ext4_fsblk_t \<times> 'w ext4_state"
  ext4_trans_set_block_dirty :: "ext4_fsblk_t \<Rightarrow> 'w ext4_state \<Rightarrow> 'w ext4_state"
  ext4_bcache_test_dirty :: "ext4_fsblk_t \<Rightarrow> 'w ext4_state \<Rightarrow> bool"
  ext4_balloc_alloc_block :: "ext4_fsblk_t \<Rightarrow> ext4_fsblk_t \<Rightarrow> 'w ext4_state \<Rightarrow> errno \<times> ext4_fsblk_t \<times> 'w ext4_state"
  ext4_balloc_free_blocks :: "ext4_fsblk_t \<Rightarrow> u32 \<Rightarrow> 'w ext4_state \<Rightarrow> 'w ext4_state"
  ext4_fs_inode_to_goal_block :: "'w ext4_state \<Rightarrow> ext4_fsblk_t"
  calloc_ok :: "'w ext4_state \<Rightarrow> nat \<Rightarrow> bool"
  IN_RANGE :: "ext4_lblk_t \<Rightarrow> ext4_lblk_t \<Rightarrow> 32 word \<Rightarrow> bool"
  EXT_MAX_BLOCKS :: ext4_lblk_t

definition node_at :: "'w ext4_state \<Rightarrow> loc option \<Rightarrow> ext4_node option" where
  "node_at s l = Option.bind l (nodes s)"

definition put_node :: "loc \<Rightarrow> ext4_node \<Rightarrow> 'w ext4_state \<Rightarrow> 'w ext4_state" where
  "put_node l n s = s\<lparr>nodes := (nodes s)(l \<mapsto> n)\<rparr>"

text \<open>A change of the node that \<open>l\<close> points to.\<close>

definition update_node :: "loc option \<Rightarrow> (ext4_node \<Rightarrow> ext4_node option) \<Rightarrow> 'w ext4_state \<Rightarrow> 'w ext4_state option" where
  "update_node l f s = do { a \<leftarrow> l; n \<leftarrow> nodes s a; n' \<leftarrow> f n; Some (put_node a n' s) }"

definition path_at :: "ext4_extent_path list \<Rightarrow> nat \<Rightarrow> ext4_extent_path option" where
  "path_at path i = (if i < length path then Some (path ! i) else None)"

definition inode_depth :: "'w ext4_state \<Rightarrow> nat option" where
  "inode_depth s = map_option (\<lambda>n. unat (ext_depth (n_hdr n))) (nodes s Root)"

section \<open>Allocation\<close>

definition ext4_allocate_single_block ::
  "'w ext4_env \<Rightarrow> ext4_fsblk_t \<Rightarrow> ext4_fsblk_t \<Rightarrow> 'w ext4_state \<Rightarrow> errno \<times> ext4_fsblk_t \<times> 'w ext4_state" where
  "ext4_allocate_single_block env goal block s = ext4_balloc_alloc_block env goal block s"

text \<open>The block, the new \<open>*count\<close> (where it is not null) and \<open>*errp\<close>.\<close>

definition ext4_new_meta_blocks ::
  "'w ext4_env \<Rightarrow> ext4_fsblk_t \<Rightarrow> u32 option \<Rightarrow> 'w ext4_state \<Rightarrow> ext4_fsblk_t \<times> u32 option \<times> errno \<times> 'w ext4_state" where
  "ext4_new_meta_blocks env goal count s =
    (let (errp, block, s) = ext4_allocate_single_block env goal 0 s
     in (block, map_option (\<lambda>_. 1) count, errp, s))"

definition ext4_ext_free_blocks :: "'w ext4_env \<Rightarrow> ext4_fsblk_t \<Rightarrow> u32 \<Rightarrow> 'w ext4_state \<Rightarrow> 'w ext4_state" where
  "ext4_ext_free_blocks env block count s = ext4_balloc_free_blocks env block count s"

section \<open>Capacities\<close>

text \<open>
  The size is computed in the unsigned \<open>size_t\<close> and cut to the signed 16 bits of \<open>size\<close>.  The
  block size is a signed 32-bit integer, extended by its sign where \<open>size_t\<close> is wider; both widths
  agree for block sizes from 12 to \<open>2 ^ 31\<close>, and the model takes 32 bits.
\<close>

definition ext4_ext_space_block :: "'w ext4_env \<Rightarrow> u16" where
  "ext4_ext_space_block env = ucast ((ext4_sb_get_block_size env - 12) div 12)"

definition ext4_ext_space_block_idx :: "'w ext4_env \<Rightarrow> u16" where
  "ext4_ext_space_block_idx env = ucast ((ext4_sb_get_block_size env - 12) div 12)"

text \<open>The block array of the inode has 60 bytes.\<close>

definition ext4_ext_space_root :: u16 where "ext4_ext_space_root = (60 - 12) div 12"
definition ext4_ext_space_root_idx :: u16 where "ext4_ext_space_root_idx = (60 - 12) div 12"

definition ext4_ext_max_entries :: "'w ext4_env \<Rightarrow> nat \<Rightarrow> nat \<Rightarrow> u16" where
  "ext4_ext_max_entries env idepth depth =
    (if depth = idepth then if depth = 0 then ext4_ext_space_root else ext4_ext_space_root_idx
     else if depth = 0 then ext4_ext_space_block env else ext4_ext_space_block_idx env)"

definition ext4_ext_init_header :: "'w ext4_env \<Rightarrow> nat \<Rightarrow> nat \<Rightarrow> ext4_node \<Rightarrow> ext4_node" where
  "ext4_ext_init_header env idepth depth n =
     n\<lparr>n_hdr := (n_hdr n)\<lparr>eh_entries := 0,
       eh_max := cpu_to_le16 (ext4_ext_max_entries env idepth depth),
       eh_magic := EXT4_EXT_MAGIC, eh_depth := of_nat depth\<rparr>\<rparr>"

section \<open>Checksums, dirty marks, references\<close>

text \<open>The bytes of a node: the header, the entries and their members in the order of memory.\<close>

definition header_bytes :: "ext4_extent_header \<Rightarrow> byte list" where
  "header_bytes h = le_of_word 2 (eh_magic h) @ le_of_word 2 (eh_entries h) @ le_of_word 2 (eh_max h)
     @ le_of_word 2 (eh_depth h) @ le_of_word 4 (eh_generation h)"

definition entry_bytes :: "ext4_entry \<Rightarrow> byte list" where
  "entry_bytes e = le_of_word 4 (e_block e) @ concat (map (le_of_word 2) [e_h0 e, e_h1 e, e_h2 e, e_h3 e])"

definition node_bytes :: "ext4_node \<Rightarrow> byte list" where
  "node_bytes n = header_bytes (n_hdr n) @ concat (map entry_bytes (n_slots n))"

text \<open>
  The checksum of a node: over the UUID of the file system, the number and the generation of the inode, and the
  bytes of the node up to the tail.  Where checksums are not compiled in, it is 0.
\<close>

definition ext4_ext_block_csum :: "'w ext4_env \<Rightarrow> ext4_node \<Rightarrow> u32" where
  "ext4_ext_block_csum env n =
    (if CONFIG_META_CSUM_ENABLE env \<and> metadata_csum env then
       let ino_index = cpu_to_le32 (inode_index env);
           ino_gen = cpu_to_le32 (inode_generation env);
           checksum = ext4_crc32c env (EXT4_CRC32_INIT env) (take 16 (sb_uuid env));
           checksum = ext4_crc32c env checksum (le_of_word 4 ino_index);
           checksum = ext4_crc32c env checksum (le_of_word 4 ino_gen)
       in ext4_crc32c env checksum (take (nat (EXT4_EXTENT_TAIL_OFFSET (n_hdr n))) (node_bytes n))
     else 0)"

text \<open>The tail lies behind the entries, or over the first bytes of an entry where \<open>eh_max\<close> is smaller.\<close>

definition et_checksum :: "ext4_node \<Rightarrow> u32 option" where
  "et_checksum n = (let i = sint (le16_to_cpu (eh_max (n_hdr n)))
     in if i = int (length (n_slots n)) then Some (n_tail n) else map_option e_block (slot n i))"

definition ext4_extent_block_csum_set :: "'w ext4_env \<Rightarrow> ext4_node \<Rightarrow> ext4_node option" where
  "ext4_extent_block_csum_set env n =
    (let i = sint (le16_to_cpu (eh_max (n_hdr n))); csum = cpu_to_le32 (ext4_ext_block_csum env n)
     in if i = int (length (n_slots n)) then Some (n\<lparr>n_tail := csum\<rparr>)
        else do { e \<leftarrow> slot n i; set_slot i (e\<lparr>e_block := csum\<rparr>) n })"

text \<open>
  The checksum that is stored is the one a reader computes: it covers the bytes before the tail only.
\<close>

lemma header_bytes_length [simp]: "length (header_bytes h) = 12"
  by (simp add: header_bytes_def)

lemma take_entry_bytes: "k \<le> length es \<Longrightarrow> take (12 * k) (concat (map entry_bytes es)) = concat (map entry_bytes (take k es))"
proof (induction k arbitrary: es)
  case (Suc k)
  then obtain e es' where es: "es = e # es'" "k \<le> length es'" by (cases es) auto
  have "length (entry_bytes e) = 12" by (simp add: entry_bytes_def)
  then show ?case using Suc.IH [OF es(2)] by (simp add: es(1))
qed simp

lemma block_csum_set_verifies:
  assumes "ext4_extent_block_csum_set env n = Some n'"
  shows "et_checksum n' = Some (cpu_to_le32 (ext4_ext_block_csum env n'))"
proof -
  let ?i = "sint (eh_max (n_hdr n))"
  have i: "0 \<le> ?i" "nat ?i \<le> length (n_slots n)" and same: "n_hdr n' = n_hdr n" "take (nat ?i) (n_slots n') = take (nat ?i) (n_slots n)"
    "length (n_slots n') = length (n_slots n)"
    and tail: "et_checksum n' = Some (cpu_to_le32 (ext4_ext_block_csum env n))"
    using assms by (auto simp: ext4_extent_block_csum_set_def et_checksum_def slot_def set_slot_def endian_defs Let_def
        split: if_splits bind_splits)
  have off: "nat (EXT4_EXTENT_TAIL_OFFSET (n_hdr n)) = 12 + 12 * nat ?i"
    using i(1) by (simp add: EXT4_EXTENT_TAIL_OFFSET_def endian_defs nat_add_distrib nat_mult_distrib)
  have "take (12 + 12 * nat ?i) (node_bytes m) = header_bytes (n_hdr m) @ concat (map entry_bytes (take (nat ?i) (n_slots m)))"
    if "nat ?i \<le> length (n_slots m)" for m
    using take_entry_bytes [OF that] by (simp add: node_bytes_def)
  then have "ext4_ext_block_csum env n' = ext4_ext_block_csum env n"
    using i(2) same by (simp add: ext4_ext_block_csum_def off Let_def)
  then show ?thesis using tail by simp
qed

definition ext4_ext_dirty :: "'w ext4_env \<Rightarrow> ext4_extent_path \<Rightarrow> 'w ext4_state \<Rightarrow> errno \<times> 'w ext4_state" where
  "ext4_ext_dirty env path s =
    (EOK, if p_lb_id path \<noteq> 0 then ext4_trans_set_block_dirty env (p_lb_id path) s
          else s\<lparr>inode_dirty := True\<rparr>)"

definition drop_ref :: "'w ext4_env \<Rightarrow> ext4_extent_path \<Rightarrow> 'w ext4_state \<Rightarrow> (ext4_extent_path \<times> 'w ext4_state) option" where
  "drop_ref env p s =
    (if p_lb_id p \<noteq> 0 then do {
       s \<leftarrow> (if ext4_bcache_test_dirty env (p_lb_id p) s
            then update_node (p_header p) (ext4_extent_block_csum_set env) s else Some s);
       let (_, lb, s) = ext4_block_set env (p_lb_id p) s;
       Some (p\<lparr>p_lb_id := lb\<rparr>, s)
     } else Some (p, s))"

text \<open>\<open>i\<close> counts the elements from \<open>at\<close> on that are still to be dropped.\<close>

fun drop_refs_loop :: "'w ext4_env \<Rightarrow> nat \<Rightarrow> nat \<Rightarrow> ext4_extent_path list \<Rightarrow> 'w ext4_state \<Rightarrow>
    (ext4_extent_path list \<times> 'w ext4_state) option" where
  "drop_refs_loop env 0 at path s = Some (path, s)"
| "drop_refs_loop env (Suc i) at path s = do {
     p \<leftarrow> path_at path at;
     (p, s) \<leftarrow> drop_ref env p s;
     drop_refs_loop env i (Suc at) (path[at := p]) s
   }"

definition ext4_ext_drop_refs :: "'w ext4_env \<Rightarrow> ext4_extent_path list \<Rightarrow> nat \<Rightarrow> bool \<Rightarrow> 'w ext4_state \<Rightarrow>
    (ext4_extent_path list \<times> 'w ext4_state) option" where
  "ext4_ext_drop_refs env path at keep_other s = do {
     p \<leftarrow> path_at path at;
     drop_refs_loop env (nat ((if keep_other then 0 else p_depth p) + 1)) at path s
   }"

text \<open>
  \<open>EXT4_EXTENT_MAGIC\<close> is the header's \<open>EXT4_EXT_MAGIC\<close>.  With metadata checksums the tail is read,
  which faults where \<open>eh_max\<close> exceeds the room of the node; a wrong checksum is only reported.
\<close>

definition ext4_ext_check :: "'w ext4_env \<Rightarrow> ext4_node \<Rightarrow> nat \<Rightarrow> errno option" where
  "ext4_ext_check env n depth =
    (let eh = n_hdr n in
     if le16_to_cpu (eh_magic eh) \<noteq> EXT4_EXT_MAGIC then Some EIO
     else if le16_to_cpu (eh_depth eh) \<noteq> of_nat depth then Some EIO
     else if eh_max eh = 0 then Some EIO
     else if sint (le16_to_cpu (eh_entries eh)) > sint (le16_to_cpu (eh_max eh)) then Some EIO
     else if metadata_csum env \<and> \<not> (0 \<le> sint (eh_max eh) \<and> sint (eh_max eh) \<le> int (length (n_slots n))) then None
     else Some EOK)"

text \<open>The error, the new \<open>lb_id\<close> of the block and the state.\<close>

definition read_extent_tree_block ::
  "'w ext4_env \<Rightarrow> ext4_fsblk_t \<Rightarrow> nat \<Rightarrow> ext4_fsblk_t \<Rightarrow> 'w ext4_state \<Rightarrow> (errno \<times> ext4_fsblk_t \<times> 'w ext4_state) option" where
  "read_extent_tree_block env pblk depth bh s = do {
     let (err, bh, s) = ext4_trans_block_get env pblk bh s;
     err \<leftarrow> (if err \<noteq> EOK then Some err
            else do { n \<leftarrow> nodes s (Blk bh); ext4_ext_check env n depth });
     if err \<noteq> EOK
     then let (bh, s) = (if bh \<noteq> 0 then snd (ext4_block_set env bh s) else (bh, s))
          in Some (err, bh, s)
     else Some (EOK, bh, s)
   }"

lemmas node_defs = node_at_def put_node_def update_node_def

section \<open>Printing a path\<close>

text \<open>
  What \<open>print_path\<close> hands to \<open>ext4_dbg\<close>, line by line: the depth that is left, the block, and the places of the
  extent and of the index in their node, 0 for a null pointer.  The count comes from the first element only, so that
  a path that is shorter is a fault.
\<close>

definition path_line :: "int \<Rightarrow> ext4_extent_path \<Rightarrow> int \<times> ext4_fsblk_t \<times> int \<times> int" where
  "path_line i p = (i, p_block p, (case p_extent p of None \<Rightarrow> 0 | Some k \<Rightarrow> k - EXT_FIRST),
     (case p_index p of None \<Rightarrow> 0 | Some k \<Rightarrow> k - EXT_FIRST))"

fun print_path_loop :: "int \<Rightarrow> ext4_extent_path list \<Rightarrow> (int \<times> ext4_fsblk_t \<times> int \<times> int) list option" where
  "print_path_loop i [] = (if 0 \<le> i then None else Some [])"
| "print_path_loop i (p # path) =
     (if 0 \<le> i then map_option (\<lambda>out. path_line i p # out) (print_path_loop (i - 1) path) else Some [])"

definition print_path :: "ext4_extent_path list \<Rightarrow> (int \<times> ext4_fsblk_t \<times> int \<times> int) list option" where
  "print_path path = (case path of [] \<Rightarrow> None | p # _ \<Rightarrow> print_path_loop (p_depth p) path)"

end
