(* ===== verification/Ext4_Extent_Find.thy ===== *)
theory Ext4_Extent_Find
  imports Ext4_Extent_State
begin

text \<open>
  \<open>ext4_extent.c\<close>, lines 137 to 181 and 321 to 484: the binary searches in a node and the walk from the
  root to the leaf that is to hold a block, and the proof that on a well-formed tree it ends at the
  extent the whole tree has for the block.
\<close>

section \<open>Binary search\<close>

text \<open>
  Both searches run the same loop between two pointers; its result is the final \<open>l\<close>.  Logical
  block numbers are signed.
\<close>

function binsearch_loop :: "ext4_node \<Rightarrow> ext4_lblk_t \<Rightarrow> int \<Rightarrow> int \<Rightarrow> int option" where
  "binsearch_loop n block l r =
    (if l \<le> r then
       let m = l + (r - l) div 2 in
       case slot n m of
         None \<Rightarrow> None
       | Some e \<Rightarrow> if u32_lt block (le32_to_cpu (e_block e)) then binsearch_loop n block l (m - 1)
                   else binsearch_loop n block (m + 1) r
     else Some l)"
  by pat_completeness auto
termination by (relation "measure (\<lambda>(n, block, l, r). nat (r - l + 1))") auto

declare binsearch_loop.simps [simp del]

definition ext4_ext_binsearch_idx :: "'w ext4_state \<Rightarrow> ext4_extent_path \<Rightarrow> ext4_lblk_t \<Rightarrow> ext4_extent_path option" where
  "ext4_ext_binsearch_idx s path block = do {
     n \<leftarrow> node_at s (p_header path);
     l \<leftarrow> binsearch_loop n block (EXT_FIRST + 1) (EXT_LAST (n_hdr n));
     Some (path\<lparr>p_index := Some (l - 1)\<rparr>)
   }"

definition ext4_ext_binsearch :: "'w ext4_state \<Rightarrow> ext4_extent_path \<Rightarrow> ext4_lblk_t \<Rightarrow> ext4_extent_path option" where
  "ext4_ext_binsearch s path block = do {
     n \<leftarrow> node_at s (p_header path);
     if eh_entries (n_hdr n) = 0 then Some path
     else do {
       l \<leftarrow> binsearch_loop n block (EXT_FIRST + 1) (EXT_LAST (n_hdr n));
       Some (path\<lparr>p_extent := Some (l - 1)\<rparr>)
     }
   }"

section \<open>The walk\<close>

definition entry_at :: "'w ext4_state \<Rightarrow> loc option \<Rightarrow> int option \<Rightarrow> ext4_entry option" where
  "entry_at s h i = do { n \<leftarrow> node_at s h; i \<leftarrow> i; slot n i }"

text \<open>
  The loop over the levels above the leaves; \<open>i\<close> levels are left, \<open>bh\<close> is the \<open>lb_id\<close> of the local
  block.  The result is the error, the path, the position in it, and the state.
\<close>

fun find_walk :: "'w ext4_env \<Rightarrow> ext4_lblk_t \<Rightarrow> nat \<Rightarrow> nat \<Rightarrow> nat \<Rightarrow> ext4_extent_path list \<Rightarrow> ext4_fsblk_t \<Rightarrow>
    'w ext4_state \<Rightarrow> (errno \<times> ext4_extent_path list \<times> nat \<times> 'w ext4_state) option" where
  "find_walk env block depth 0 ppos path bh s = Some (EOK, path, ppos, s)"
| "find_walk env block depth (Suc i) ppos path bh s = do {
     p \<leftarrow> path_at path ppos;
     p \<leftarrow> ext4_ext_binsearch_idx s p block;
     ix \<leftarrow> entry_at s (p_header p) (p_index p);
     let buf_block = ext4_idx_pblk ix;
     let path = path[ppos := p\<lparr>p_block := buf_block, p_depth := int (Suc i), p_extent := None\<rparr>];
     let ppos = Suc ppos;
     q \<leftarrow> path_at path ppos;
     if p_lb_id q = 0 \<or> p_lb_id q \<noteq> buf_block then do {
       (ret, bh, s) \<leftarrow> read_extent_tree_block env buf_block i bh s;
       if ret \<noteq> EOK then Some (ret, path, ppos, s)
       else if ppos > depth then Some (EIO, path, ppos, snd (snd (ext4_block_set env bh s)))
       else find_walk env block depth i ppos (path[ppos := q\<lparr>p_lb_id := bh, p_header := Some (Blk bh)\<rparr>]) bh s
     } else find_walk env block depth i ppos path bh s
   }"

text \<open>
  The array of the path: the old one with its references dropped, if it is long enough, else a new
  one for one level more than the tree has.  \<open>None\<close> inside is the failure of the allocation.
\<close>

definition find_path_array :: "'w ext4_env \<Rightarrow> nat \<Rightarrow> ext4_extent_path list option \<Rightarrow> 'w ext4_state \<Rightarrow>
    (ext4_extent_path list option \<times> 'w ext4_state) option" where
  "find_path_array env depth orig_path s = do {
     (path, s) \<leftarrow> (case orig_path of
        None \<Rightarrow> Some (None, s)
      | Some path \<Rightarrow> do {
          (path, s) \<leftarrow> ext4_ext_drop_refs env path 0 False s;
          p \<leftarrow> path_at path 0;
          Some (if int depth > p_maxdepth p then (None, s) else (Some path, s))
        });
     case path of
       Some path \<Rightarrow> Some (Some path, s)
     | None \<Rightarrow> Some (if calloc_ok env s (depth + 2)
         then Some ((replicate (depth + 2) zero_path)[0 := zero_path\<lparr>p_maxdepth := int (depth + 1)\<rparr>])
         else None, s)
   }"

text \<open>The error, the new \<open>*orig_path\<close> and the state.\<close>

definition ext4_find_extent :: "'w ext4_env \<Rightarrow> ext4_lblk_t \<Rightarrow> ext4_extent_path list option \<Rightarrow> 'w ext4_state \<Rightarrow>
    (errno \<times> ext4_extent_path list option \<times> 'w ext4_state) option" where
  "ext4_find_extent env block orig_path s = do {
     depth \<leftarrow> inode_depth s;
     (path, s) \<leftarrow> find_path_array env depth orig_path s;
     case path of
       None \<Rightarrow> Some (ENOMEM, None, s)
     | Some path \<Rightarrow> do {
         p \<leftarrow> path_at path 0;
         (ret, path, ppos, s) \<leftarrow> find_walk env block depth depth 0 (path[0 := p\<lparr>p_header := Some Root, p_lb_id := 0\<rparr>]) 0 s;
         if ret \<noteq> EOK then do {
           (path, s) \<leftarrow> ext4_ext_drop_refs env path 0 False s;
           Some (ret, None, s)
         } else do {
           p \<leftarrow> path_at path ppos;
           p \<leftarrow> ext4_ext_binsearch s (p\<lparr>p_depth := 0, p_extent := None, p_index := None\<rparr>) block;
           p \<leftarrow> (case p_extent p of None \<Rightarrow> Some p
                | Some i \<Rightarrow> do { e \<leftarrow> entry_at s (p_header p) (Some i); Some (p\<lparr>p_block := ext4_ext_pblk e\<rparr>) });
           Some (EOK, Some (path[ppos := p]), s)
         }
       }
   }"

text \<open>The block to allocate near; \<open>None\<close> for the path is \<open>NULL\<close>.\<close>

definition ext4_ext_find_goal :: "'w ext4_env \<Rightarrow> ext4_extent_path list option \<Rightarrow> ext4_lblk_t \<Rightarrow> 'w ext4_state \<Rightarrow>
    ext4_fsblk_t option" where
  "ext4_ext_find_goal env path block s = (case path of
     None \<Rightarrow> Some (ext4_fs_inode_to_goal_block env s)
   | Some path \<Rightarrow> do {
       p0 \<leftarrow> path_at path 0;
       p \<leftarrow> path_at path (nat (p_depth p0));
       case p_extent p of
         Some i \<Rightarrow> do {
           ex \<leftarrow> entry_at s (p_header p) (Some i);
           let ext_pblk = ext4_ext_pblk ex;
           let ext_block = le32_to_cpu (e_block ex);
           Some (if u32_lt ext_block block then ext_pblk + u64_of_u32 (block - ext_block)
                 else ext_pblk - u64_of_u32 (ext_block - block))
         }
       | None \<Rightarrow> Some (if p_lb_id p \<noteq> 0 then p_lb_id p else ext4_fs_inode_to_goal_block env s)
     })"

definition ext4_ext_new_meta_block :: "'w ext4_env \<Rightarrow> ext4_extent_path list option \<Rightarrow> ext4_entry \<Rightarrow> 'w ext4_state \<Rightarrow>
    (ext4_fsblk_t \<times> errno \<times> 'w ext4_state) option" where
  "ext4_ext_new_meta_block env path ex s = do {
     goal \<leftarrow> ext4_ext_find_goal env path (le32_to_cpu (e_block ex)) s;
     let (newblock, _, err, s) = ext4_new_meta_blocks env goal None s;
     Some (newblock, err, s)
   }"

section \<open>What the searches promise\<close>

text \<open>The entries of a node, their keys, and the order the code keeps them in.\<close>

definition entries_of :: "ext4_node \<Rightarrow> ext4_entry list" where
  "entries_of n = take (nat (sint (eh_entries (n_hdr n)))) (n_slots n)"

definition ekey :: "ext4_entry \<Rightarrow> int" where "ekey e = sint (e_block e)"

definition node_ok :: "nat \<Rightarrow> ext4_node \<Rightarrow> bool" where
  "node_ok depth n \<longleftrightarrow> eh_magic (n_hdr n) = EXT4_EXT_MAGIC \<and> eh_depth (n_hdr n) = of_nat depth \<and> eh_max (n_hdr n) \<noteq> 0
     \<and> 0 \<le> sint (eh_entries (n_hdr n)) \<and> sint (eh_entries (n_hdr n)) \<le> sint (eh_max (n_hdr n))
     \<and> sint (eh_max (n_hdr n)) \<le> int (length (n_slots n))"

definition ordered :: "ext4_entry list \<Rightarrow> bool" where
  "ordered xs \<longleftrightarrow> sorted_wrt (\<lambda>a b. ekey a < ekey b) xs"

text \<open>The last entry that does not start behind the block, or the first one where all do.\<close>

definition closest :: "ext4_entry list \<Rightarrow> ext4_lblk_t \<Rightarrow> ext4_entry" where
  "closest xs block =
    (let ys = filter (\<lambda>e. ekey e \<le> sint block) xs in if ys = [] then hd xs else last ys)"

lemma node_ok_slot:
  assumes "node_ok d n" "0 \<le> i" "i < int (length (entries_of n))"
  shows "slot n i = Some (entries_of n ! nat i)"
  using assms by (auto simp: node_ok_def entries_of_def slot_def)

lemma node_ok_length: "node_ok d n \<Longrightarrow> int (length (entries_of n)) = sint (eh_entries (n_hdr n))"
  by (auto simp: node_ok_def entries_of_def min_def)

lemma node_ok_last: "node_ok d n \<Longrightarrow> EXT_LAST (n_hdr n) = int (length (entries_of n)) - 1"
  by (simp add: ext_pos_defs node_ok_length endian_defs)

lemma ordered_nth: "ordered xs \<Longrightarrow> i < j \<Longrightarrow> j < length xs \<Longrightarrow> ekey (xs ! i) < ekey (xs ! j)"
  unfolding ordered_def by (rule sorted_wrt_nth_less)

text \<open>
  An index is the closest one if every entry after the first up to it starts at or before the block
  and every entry behind it starts after.
\<close>

definition splits_at :: "ext4_entry list \<Rightarrow> ext4_lblk_t \<Rightarrow> nat \<Rightarrow> bool" where
  "splits_at xs block i \<longleftrightarrow> i < length xs \<and> (\<forall>j. 0 < j \<and> j \<le> i \<longrightarrow> ekey (xs ! j) \<le> sint block)
     \<and> (\<forall>j. i < j \<and> j < length xs \<longrightarrow> sint block < ekey (xs ! j))"

lemma closest_nth:
  assumes "ordered xs" "splits_at xs block i"
  shows "closest xs block = xs ! i"
proof -
  let ?P = "\<lambda>e. ekey e \<le> sint block"
  have i: "i < length xs" and le: "\<And>j. 0 < j \<Longrightarrow> j \<le> i \<Longrightarrow> ?P (xs ! j)" and gt: "\<And>j. i < j \<Longrightarrow> j < length xs \<Longrightarrow> \<not> ?P (xs ! j)"
    using assms(2) by (auto simp: splits_at_def not_le)
  have drop0: "filter ?P (drop (Suc i) xs) = []"
    using gt by (auto simp: filter_empty_conv in_set_conv_nth)
  have split: "filter ?P xs = filter ?P (take i xs) @ filter ?P [xs ! i]"
  proof -
    have "filter ?P xs = filter ?P (take i xs) @ filter ?P (xs ! i # drop (Suc i) xs)"
      by (metis id_take_nth_drop [OF i] filter_append)
    then show ?thesis using drop0 by simp
  qed
  show ?thesis
  proof (cases "?P (xs ! i)")
    case True
    with split show ?thesis by (simp add: closest_def Let_def)
  next
    case False
    then have "i = 0" using le by (cases i) auto
    with split False show ?thesis using i by (simp add: closest_def Let_def hd_conv_nth)
  qed
qed

lemma binsearch_loop_splits:
  assumes "node_ok d n" "ordered (entries_of n)" "0 < l" "l \<le> r + 1" "r < int (length (entries_of n))"
    and "\<And>j. 0 < j \<Longrightarrow> int j < l \<Longrightarrow> ekey (entries_of n ! j) \<le> sint block"
    and "\<And>j. r < int j \<Longrightarrow> j < length (entries_of n) \<Longrightarrow> sint block < ekey (entries_of n ! j)"
  shows "\<exists>k. binsearch_loop n block l r = Some k \<and> 0 < k \<and> splits_at (entries_of n) block (nat (k - 1))"
  using assms
proof (induction n block l r rule: binsearch_loop.induct)
  case (1 n block l r)
  let ?xs = "entries_of n" and ?m = "l + (r - l) div 2"
  show ?case
  proof (cases "l \<le> r")
    case False
    have "nat (l - 1) < length ?xs" "l = r + 1" using False 1(5,6,7) by linarith+
    moreover have "ekey (?xs ! j) \<le> sint block" if "0 < j" "j \<le> nat (l - 1)" for j
      using that 1(8) [of j] by linarith
    moreover have "sint block < ekey (?xs ! j)" if "nat (l - 1) < j" "j < length ?xs" for j
      using that 1(9) [of j] 1(5) \<open>l = r + 1\<close> by linarith
    ultimately have "splits_at ?xs block (nat (l - 1))" by (simp add: splits_at_def)
    moreover have "binsearch_loop n block l r = Some l" using False by (simp add: binsearch_loop.simps [of n block l r])
    ultimately show ?thesis using 1(5) by blast
  next
    case True
    have m: "l \<le> ?m" "?m \<le> r" using True by linarith+
    let ?i = "nat ?m"
    have i: "?i < length ?xs" "0 < ?i" "int ?i = ?m" using m 1(5,7) by linarith+
    have slot: "slot n ?m = Some (?xs ! ?i)" using node_ok_slot [OF 1(3), of ?m] m 1(5,7) by simp
    note IH = 1(1) [OF True refl slot] 1(2) [OF True refl slot]
    show ?thesis
    proof (cases "sint block < ekey (?xs ! ?i)")
      case gt: True
      have "sint block < ekey (?xs ! j)" if "?m - 1 < int j" "j < length ?xs" for j
        using gt that i ordered_nth [OF 1(4), of ?i j] by (cases "j = ?i") force+
      then have "\<exists>k. binsearch_loop n block l (?m - 1) = Some k \<and> 0 < k \<and> splits_at ?xs block (nat (k - 1))"
        using gt m 1(3-8) by (intro IH(1)) (auto simp: ekey_def endian_defs)
      then show ?thesis using True gt slot
        by (simp add: binsearch_loop.simps [of n block l r] Let_def ekey_def endian_defs)
    next
      case le: False
      have "ekey (?xs ! j) \<le> sint block" if "0 < j" "int j < ?m + 1" for j
        using le that i ordered_nth [OF 1(4), of j ?i] by (cases "j = ?i") force+
      then have "\<exists>k. binsearch_loop n block (?m + 1) r = Some k \<and> 0 < k \<and> splits_at ?xs block (nat (k - 1))"
        using le m 1(3-7,9) by (intro IH(2)) (auto simp: ekey_def endian_defs)
      then show ?thesis using True le slot
        by (simp add: binsearch_loop.simps [of n block l r] Let_def ekey_def endian_defs)
    qed
  qed
qed

text \<open>
  Either search, seen as a function of the node: the slot that the index or extent pointer of the
  path is left at.
\<close>

definition idx_slot :: "ext4_node \<Rightarrow> ext4_lblk_t \<Rightarrow> int option" where
  "idx_slot n block = Option.bind
     (ext4_ext_binsearch_idx \<lparr>nodes = [Root \<mapsto> n], inode_dirty = False, world = ()\<rparr>
        (zero_path\<lparr>p_header := Some Root\<rparr>) block) p_index"

definition ext_slot :: "ext4_node \<Rightarrow> ext4_lblk_t \<Rightarrow> int option" where
  "ext_slot n block = Option.bind
     (ext4_ext_binsearch \<lparr>nodes = [Root \<mapsto> n], inode_dirty = False, world = ()\<rparr>
        (zero_path\<lparr>p_header := Some Root\<rparr>) block) p_extent"

lemma idx_slot_loop: "idx_slot n block = map_option (\<lambda>l. l - 1) (binsearch_loop n block 1 (EXT_LAST (n_hdr n)))"
  by (cases "binsearch_loop n block 1 (EXT_LAST (n_hdr n))")
    (simp_all add: idx_slot_def ext4_ext_binsearch_idx_def node_at_def EXT_FIRST_def)

lemma ext_slot_loop:
  "ext_slot n block = (if eh_entries (n_hdr n) = 0 then None
     else map_option (\<lambda>l. l - 1) (binsearch_loop n block 1 (EXT_LAST (n_hdr n))))"
  by (cases "binsearch_loop n block 1 (EXT_LAST (n_hdr n))")
    (simp_all add: ext_slot_def ext4_ext_binsearch_def node_at_def EXT_FIRST_def zero_path_def)

text \<open>
  The contract of a search: in a well-formed node with ordered entries it finds the slot of the
  closest entry.
\<close>

locale node_search =
  fixes search :: "ext4_node \<Rightarrow> ext4_lblk_t \<Rightarrow> int option"
  assumes finds: "node_ok d n \<Longrightarrow> entries_of n \<noteq> [] \<Longrightarrow> ordered (entries_of n) \<Longrightarrow>
    \<exists>i. search n block = Some (int i) \<and> splits_at (entries_of n) block i"
begin

lemma search_closest:
  assumes "node_ok d n" "entries_of n \<noteq> []" "ordered (entries_of n)"
  shows "\<exists>i. search n block = Some i \<and> slot n i = Some (closest (entries_of n) block)"
proof -
  obtain i where i: "search n block = Some (int i)" "splits_at (entries_of n) block i"
    using finds [OF assms] by blast
  moreover have "slot n (int i) = Some (entries_of n ! i)"
    using i(2) node_ok_slot [OF assms(1), of "int i"] by (simp add: splits_at_def)
  ultimately show ?thesis using closest_nth [OF assms(3) i(2)] by auto
qed

lemma search_member:
  assumes "node_ok d n" "ordered (entries_of n)" "e \<in> set (entries_of n)"
    and "ekey e \<le> sint block" "\<forall>e' \<in> set (entries_of n). ekey e < ekey e' \<longrightarrow> sint block < ekey e'"
  shows "\<exists>i. search n block = Some i \<and> slot n i = Some e"
proof -
  let ?xs = "entries_of n"
  have ne: "?xs \<noteq> []" using assms(3) by auto
  obtain k where k: "k < length ?xs" "e = ?xs ! k" using assms(3) by (metis in_set_conv_nth)
  have "splits_at ?xs block k"
  proof -
    have "ekey (?xs ! j) \<le> sint block" if "0 < j" "j \<le> k" for j
      using that k assms(4) ordered_nth [OF assms(2), of j k] by (cases "j = k") auto
    moreover have "sint block < ekey (?xs ! j)" if "k < j" "j < length ?xs" for j
      using that k assms(5) ordered_nth [OF assms(2), of k j] by auto
    ultimately show ?thesis using k by (simp add: splits_at_def)
  qed
  then have "closest ?xs block = e" using closest_nth [OF assms(2)] k by simp
  then show ?thesis using search_closest [OF assms(1) ne assms(2), of block] by metis
qed

end

lemma node_search_loop:
  assumes "node_ok d n" "entries_of n \<noteq> []" "ordered (entries_of n)"
  shows "\<exists>i. map_option (\<lambda>l. l - 1) (binsearch_loop n block 1 (EXT_LAST (n_hdr n))) = Some (int i)
     \<and> splits_at (entries_of n) block i"
proof -
  have "0 < length (entries_of n)" using assms(2) by simp
  then have "\<exists>k. binsearch_loop n block 1 (int (length (entries_of n)) - 1) = Some k \<and> 0 < k \<and>
      splits_at (entries_of n) block (nat (k - 1))"
    by (intro binsearch_loop_splits [OF assms(1,3)]) (auto simp: Suc_le_eq)
  then obtain k where "binsearch_loop n block 1 (int (length (entries_of n)) - 1) = Some k" "0 < k"
    "splits_at (entries_of n) block (nat (k - 1))" by blast
  then show ?thesis using node_ok_last [OF assms(1)] by (intro exI [of _ "nat (k - 1)"]) auto
qed

interpretation idx_search: node_search idx_slot
  by unfold_locales (unfold idx_slot_loop, rule node_search_loop)

interpretation ext_search: node_search ext_slot
proof unfold_locales
  fix d n block assume n: "node_ok d n" "entries_of n \<noteq> []" "ordered (entries_of n)"
  then have "eh_entries (n_hdr n) \<noteq> 0" by (auto simp: entries_of_def)
  then show "\<exists>i. ext_slot n block = Some (int i) \<and> splits_at (entries_of n) block i"
    using node_search_loop [OF n] by (simp add: ext_slot_loop)
qed

section \<open>Trees\<close>

definition child :: "ext4_entry \<Rightarrow> loc" where "child ix = Blk (ext4_idx_pblk ix)"

text \<open>The extents of a tree of depth \<open>d\<close>, in order.\<close>

primrec extents_below :: "nat \<Rightarrow> (loc \<rightharpoonup> ext4_node) \<Rightarrow> loc \<Rightarrow> ext4_entry list" where
  "extents_below 0 m l = (case m l of None \<Rightarrow> [] | Some n \<Rightarrow> entries_of n)"
| "extents_below (Suc d) m l = (case m l of None \<Rightarrow> []
     | Some n \<Rightarrow> concat (map (\<lambda>ix. extents_below d m (child ix)) (entries_of n)))"

text \<open>The leaves of a tree, in the same order.\<close>

primrec leaves :: "nat \<Rightarrow> (loc \<rightharpoonup> ext4_node) \<Rightarrow> loc \<Rightarrow> loc list" where
  "leaves 0 m l = [l]"
| "leaves (Suc d) m l = (case m l of None \<Rightarrow> []
     | Some n \<Rightarrow> concat (map (\<lambda>ix. leaves d m (child ix)) (entries_of n)))"

text \<open>
  Every node is well-formed and has the depth of its level; an inner node has entries, each with a
  non-empty subtree whose first extent starts at the key of the entry.
\<close>

primrec tree_ok :: "nat \<Rightarrow> (loc \<rightharpoonup> ext4_node) \<Rightarrow> loc \<Rightarrow> bool" where
  "tree_ok 0 m l \<longleftrightarrow> (\<exists>n. m l = Some n \<and> node_ok 0 n)"
| "tree_ok (Suc d) m l \<longleftrightarrow> (\<exists>n. m l = Some n \<and> node_ok (Suc d) n \<and> entries_of n \<noteq> [] \<and>
     (\<forall>ix \<in> set (entries_of n). ext4_idx_pblk ix \<noteq> 0 \<and> tree_ok d m (child ix) \<and>
        extents_below d m (child ix) \<noteq> [] \<and> e_block (hd (extents_below d m (child ix))) = e_block ix))"

lemma ordered_append: "ordered (xs @ ys) \<longleftrightarrow>
    ordered xs \<and> ordered ys \<and> (\<forall>x \<in> set xs. \<forall>y \<in> set ys. ekey x < ekey y)"
  by (simp add: ordered_def sorted_wrt_append)

lemma ordered_hd: "ordered xs \<Longrightarrow> x \<in> set xs \<Longrightarrow> ekey (hd xs) \<le> ekey x"
  by (cases xs) (auto simp: ordered_def)

text \<open>Heads that are the keys of an index node put the index node in the order of the extents.\<close>

lemma ordered_concat:
  assumes "ordered (concat (map f ixs))" "\<forall>ix \<in> set ixs. f ix \<noteq> [] \<and> ekey (hd (f ix)) = ekey ix"
  shows "ordered ixs \<and> (\<forall>ix \<in> set ixs. ordered (f ix))"
  using assms
proof (induction ixs)
  case (Cons ix ixs)
  have "ekey ix < ekey jx" if "jx \<in> set ixs" for jx
  proof -
    have "hd (f ix) \<in> set (f ix)" "hd (f jx) \<in> set (concat (map f ixs))"
      using Cons.prems(2) that by force+
    then have "ekey (hd (f ix)) < ekey (hd (f jx))" using Cons.prems(1) by (auto simp: ordered_append)
    then show ?thesis using Cons.prems(2) that by simp
  qed
  with Cons show ?case by (simp add: ordered_append) (simp add: ordered_def)
qed (simp add: ordered_def)

lemma closest_concat:
  assumes "ordered (concat (map f ixs))" "\<forall>ix \<in> set ixs. f ix \<noteq> [] \<and> ekey (hd (f ix)) = ekey ix"
    and i: "splits_at ixs block i"
  shows "closest (concat (map f ixs)) block = closest (f (ixs ! i)) block"
proof -
  let ?P = "\<lambda>e. ekey e \<le> sint block" and ?x = "ixs ! i" and ?g = "\<lambda>is. filter (\<lambda>e. ekey e \<le> sint block) (concat (map f is))"
  have il: "i < length ixs" using i by (simp add: splits_at_def)
  have x: "f ?x \<noteq> []" "ekey (hd (f ?x)) = ekey ?x" using assms(2) il by auto
  have ord: "ordered (f ix)" if "ix \<in> set ixs" for ix using ordered_concat [OF assms(1,2)] that by blast
  have split: "ixs = take i ixs @ ?x # drop (Suc i) ixs" by (rule id_take_nth_drop [OF il])
  have behind: "\<not> ?P e" if "e \<in> set (concat (map f (drop (Suc i) ixs)))" for e
  proof -
    obtain jx where jx: "jx \<in> set (drop (Suc i) ixs)" "e \<in> set (f jx)" using \<open>e \<in> _\<close> by auto
    then obtain k where "k < length ixs - Suc i" "jx = drop (Suc i) ixs ! k" by (auto simp: in_set_conv_nth)
    then have "i < Suc i + k" "Suc i + k < length ixs" "jx = ixs ! (Suc i + k)" using il by simp_all
    then have "sint block < ekey jx" using i by (simp add: splits_at_def)
    moreover have "ekey jx \<le> ekey e"
      using assms(2) ord [of jx] ordered_hd [of "f jx" e] jx in_set_dropD by metis
    ultimately show ?thesis by simp
  qed
  have filt: "?g ixs = ?g (take i ixs) @ filter ?P (f ?x)"
  proof -
    have "?g (drop (Suc i) ixs) = []" using behind by (simp only: filter_empty_conv) blast
    moreover have "?g ixs = ?g (take i ixs) @ filter ?P (f ?x) @ ?g (drop (Suc i) ixs)"
      using arg_cong [OF split, of ?g] by (simp only: map_append concat_append filter_append list.map concat.simps)
    ultimately show ?thesis by simp
  qed
  show ?thesis
  proof (cases "?P ?x")
    case True
    then have "hd (f ?x) \<in> set (filter ?P (f ?x))" using x by simp
    then have "filter ?P (f ?x) \<noteq> []" by force
    then show ?thesis unfolding closest_def Let_def filt by simp
  next
    case False
    then have "i = 0" using i by (cases i) (auto simp: splits_at_def)
    moreover have "filter ?P (f ?x) = []"
      using False ordered_hd [OF ord [of ?x]] il x by (fastforce simp: filter_empty_conv)
    moreover have "hd (concat (map f ixs)) = hd (f ?x)"
      using x il \<open>i = 0\<close> by (cases ixs) auto
    ultimately show ?thesis unfolding closest_def Let_def filt by simp
  qed
qed

section \<open>The walk ends at the closest extent\<close>

text \<open>Every block with a node can be read, and reading it changes no node.\<close>

definition reads_clean :: "'w ext4_env \<Rightarrow> 'w ext4_state \<Rightarrow> bool" where
  "reads_clean env s \<longleftrightarrow> (\<forall>w b lb. nodes s (Blk b) \<noteq> None \<longrightarrow>
     (\<exists>w'. ext4_trans_block_get env b lb (s\<lparr>world := w\<rparr>) = (EOK, b, s\<lparr>world := w'\<rparr>)))"

lemma read_node_ok:
  assumes "reads_clean env s" "nodes s (Blk b) = Some n" "node_ok d n"
  shows "\<exists>w'. read_extent_tree_block env b d bh (s\<lparr>world := w\<rparr>) = Some (EOK, b, s\<lparr>world := w'\<rparr>)"
proof -
  obtain w' where "ext4_trans_block_get env b bh (s\<lparr>world := w\<rparr>) = (EOK, b, s\<lparr>world := w'\<rparr>)"
    using assms(1,2) by (fastforce simp: reads_clean_def)
  moreover have "ext4_ext_check env n d = Some EOK"
    using assms(3) by (auto simp: ext4_ext_check_def node_ok_def Let_def endian_defs)
  ultimately show ?thesis using assms(2) by (intro exI [of _ w']) (simp add: read_extent_tree_block_def)
qed

lemma binsearch_idx_found:
  assumes "nodes s l = Some n" "p_header p = Some l" "node_ok d n" "entries_of n \<noteq> []" "ordered (entries_of n)"
  shows "\<exists>i. ext4_ext_binsearch_idx s p block = Some (p\<lparr>p_index := Some (int i)\<rparr>)
     \<and> splits_at (entries_of n) block i \<and> slot n (int i) = Some (entries_of n ! i)"
proof -
  obtain i where i: "idx_slot n block = Some (int i)" "splits_at (entries_of n) block i"
    using idx_search.finds [OF assms(3-5)] by blast
  moreover have "slot n (int i) = Some (entries_of n ! i)"
    using i(2) node_ok_slot [OF assms(3), of "int i"] by (simp add: splits_at_def)
  ultimately show ?thesis using assms(1,2)
    by (auto simp: idx_slot_loop ext4_ext_binsearch_idx_def node_at_def EXT_FIRST_def)
qed

lemma binsearch_found:
  assumes "nodes s l = Some n" "p_header p = Some l" "node_ok d n" "ordered (entries_of n)"
  shows "if entries_of n = [] then ext4_ext_binsearch s p block = Some p
     else \<exists>i. ext4_ext_binsearch s p block = Some (p\<lparr>p_extent := Some (int i)\<rparr>)
       \<and> splits_at (entries_of n) block i \<and> slot n (int i) = Some (closest (entries_of n) block)"
proof (cases "entries_of n = []")
  case True
  then have "sint (eh_entries (n_hdr n)) = 0" using node_ok_length [OF assms(3)] by simp
  then have "eh_entries (n_hdr n) = 0" by (metis signed_0 signed_word_eqI)
  with True assms(1,2) show ?thesis by (simp add: ext4_ext_binsearch_def node_at_def)
next
  case False
  obtain i where i: "ext_slot n block = Some (int i)" "splits_at (entries_of n) block i"
    using ext_search.finds [OF assms(3) False assms(4)] by blast
  then have "slot n (int i) = Some (closest (entries_of n) block)"
    using node_ok_slot [OF assms(3), of "int i"] closest_nth [OF assms(4) i(2)] by (simp add: splits_at_def)
  with False i assms(1,2) show ?thesis
    by (auto simp: ext_slot_loop ext4_ext_binsearch_def node_at_def EXT_FIRST_def split: if_splits)
qed

lemma tree_ok_inner:
  assumes "tree_ok (Suc d) m l" "ordered (extents_below (Suc d) m l)"
  obtains n where "m l = Some n" "node_ok (Suc d) n" "entries_of n \<noteq> []" "ordered (entries_of n)"
    and "\<And>i. splits_at (entries_of n) block i \<Longrightarrow> ext4_idx_pblk (entries_of n ! i) \<noteq> 0
      \<and> tree_ok d m (child (entries_of n ! i)) \<and> ordered (extents_below d m (child (entries_of n ! i)))
      \<and> extents_below d m (child (entries_of n ! i)) \<noteq> []
      \<and> closest (extents_below (Suc d) m l) block = closest (extents_below d m (child (entries_of n ! i))) block"
proof -
  obtain n where n: "m l = Some n" "node_ok (Suc d) n" "entries_of n \<noteq> []" and
    sub: "\<forall>ix \<in> set (entries_of n). ext4_idx_pblk ix \<noteq> 0 \<and> tree_ok d m (child ix) \<and>
        extents_below d m (child ix) \<noteq> [] \<and> e_block (hd (extents_below d m (child ix))) = e_block ix"
    using assms(1) by auto
  let ?f = "\<lambda>ix. extents_below d m (child ix)"
  have f: "\<forall>ix \<in> set (entries_of n). ?f ix \<noteq> [] \<and> ekey (hd (?f ix)) = ekey ix"
    using sub by (auto simp: ekey_def)
  have ord: "ordered (concat (map ?f (entries_of n)))" using assms(2) n(1) by simp
  have ords: "ordered (entries_of n)" "\<forall>ix \<in> set (entries_of n). ordered (?f ix)"
    using ordered_concat [OF ord f] by auto
  show ?thesis
  proof (rule that [OF n ords(1)])
    fix i assume i: "splits_at (entries_of n) block i"
    then have "entries_of n ! i \<in> set (entries_of n)" by (auto simp: splits_at_def)
    then show "ext4_idx_pblk (entries_of n ! i) \<noteq> 0
      \<and> tree_ok d m (child (entries_of n ! i)) \<and> ordered (extents_below d m (child (entries_of n ! i)))
      \<and> extents_below d m (child (entries_of n ! i)) \<noteq> []
      \<and> closest (extents_below (Suc d) m l) block = closest (extents_below d m (child (entries_of n ! i))) block"
      using sub ords(2) closest_concat [OF ord f i] n(1) by simp
  qed
qed

text \<open>A path element that holds a block points to a well-formed node.\<close>

definition refs_ok :: "(loc \<rightharpoonup> ext4_node) \<Rightarrow> ext4_extent_path list \<Rightarrow> bool" where
  "refs_ok m path \<longleftrightarrow> (\<forall>p \<in> set path. p_lb_id p \<noteq> 0 \<longrightarrow>
     (\<exists>l n d. p_header p = Some l \<and> m l = Some n \<and> node_ok d n))"

lemma refs_ok_update:
  assumes "refs_ok m path" "p_lb_id q \<noteq> 0 \<longrightarrow> (\<exists>l n d. p_header q = Some l \<and> m l = Some n \<and> node_ok d n)"
  shows "refs_ok m (path[i := q])"
  using assms set_update_subset_insert [of path i q] by (auto simp: refs_ok_def)

lemma refs_ok_nth: "refs_ok m path \<Longrightarrow> i < length path \<Longrightarrow> p_lb_id (path ! i) \<noteq> 0 \<Longrightarrow>
    \<exists>l n d. p_header (path ! i) = Some l \<and> m l = Some n \<and> node_ok d n"
  by (simp add: refs_ok_def)

text \<open>From element \<open>k\<close> on, the elements of a path point to the nodes from \<open>l\<close> down to a leaf.\<close>

primrec path_to :: "nat \<Rightarrow> (loc \<rightharpoonup> ext4_node) \<Rightarrow> ext4_extent_path list \<Rightarrow> nat \<Rightarrow> loc \<Rightarrow> loc \<Rightarrow> bool" where
  "path_to 0 m path k l leaf \<longleftrightarrow> p_header (path ! k) = Some l \<and> leaf = l"
| "path_to (Suc d) m path k l leaf \<longleftrightarrow> p_header (path ! k) = Some l \<and> (\<exists>n j. m l = Some n \<and> j < length (entries_of n)
     \<and> p_index (path ! k) = Some (int j) \<and> path_to d m path (Suc k) (child (entries_of n ! j)) leaf)"

lemma path_to_update:
  "path_to d m path k l leaf \<Longrightarrow> p_header q = Some leaf \<Longrightarrow> k + d < length path \<Longrightarrow> path_to d m (path[k + d := q]) k l leaf"
proof (induction d arbitrary: k l)
  case (Suc d)
  from Suc.prems(1) obtain n j where n: "p_header (path ! k) = Some l" "m l = Some n" "j < length (entries_of n)"
    "p_index (path ! k) = Some (int j)" "path_to d m path (Suc k) (child (entries_of n ! j)) leaf" by auto
  have "path_to d m (path[Suc k + d := q]) (Suc k) (child (entries_of n ! j)) leaf"
    using Suc.prems(2,3) n(5) by (intro Suc.IH) simp_all
  then show ?case using n by auto
qed simp

lemma path_to_header: "path_to d m path k l leaf \<Longrightarrow> p_header (path ! (k + d)) = Some leaf"
  by (induction d arbitrary: k l) fastforce+

text \<open>The same, with each index pointer where the search for the block leaves it.\<close>

primrec path_splits :: "nat \<Rightarrow> (loc \<rightharpoonup> ext4_node) \<Rightarrow> ext4_lblk_t \<Rightarrow> ext4_extent_path list \<Rightarrow> nat \<Rightarrow> loc \<Rightarrow> bool" where
  "path_splits 0 m block path k l \<longleftrightarrow> p_header (path ! k) = Some l"
| "path_splits (Suc d) m block path k l \<longleftrightarrow> p_header (path ! k) = Some l \<and> (\<exists>n j. m l = Some n \<and> splits_at (entries_of n) block j
     \<and> p_index (path ! k) = Some (int j) \<and> path_splits d m block path (Suc k) (child (entries_of n ! j)))"

lemma path_splits_update:
  "path_splits d m block path k l \<Longrightarrow> p_header q = p_header (path ! (k + d)) \<Longrightarrow> k + d < length path \<Longrightarrow>
   path_splits d m block (path[k + d := q]) k l"
proof (induction d arbitrary: k l)
  case (Suc d)
  from Suc.prems(1) obtain n j where n: "p_header (path ! k) = Some l" "m l = Some n" "splits_at (entries_of n) block j"
    "p_index (path ! k) = Some (int j)" "path_splits d m block path (Suc k) (child (entries_of n ! j))" by auto
  have "path_splits d m block (path[Suc k + d := q]) (Suc k) (child (entries_of n ! j))"
    using Suc.prems(2,3) n(5) by (intro Suc.IH) simp_all
  then show ?case using n by auto
qed simp

text \<open>The path ends in a leaf of the tree, at the extent that the search of the leaf finds.\<close>

definition leaf_found :: "(loc \<rightharpoonup> ext4_node) \<Rightarrow> nat \<Rightarrow> ext4_lblk_t \<Rightarrow> ext4_extent_path list \<Rightarrow> loc \<Rightarrow> bool" where
  "leaf_found m d block path leaf \<longleftrightarrow> path_to d m path 0 Root leaf
     \<and> (\<exists>n. m leaf = Some n \<and> (case p_extent (path ! d) of None \<Rightarrow> entries_of n = []
          | Some i \<Rightarrow> 0 \<le> i \<and> splits_at (entries_of n) block (nat i)))"

lemma find_walk_correct:
  assumes "reads_clean env s" "tree_ok i (nodes s) l" "ordered (extents_below i (nodes s) l)"
    and "ppos + i < length path" "p_header (path ! ppos) = Some l" "ppos + i \<le> depth"
    and "\<forall>k. ppos < k \<and> k < length path \<longrightarrow> p_lb_id (path ! k) = 0" "refs_ok (nodes s) path"
  shows "\<exists>path' leaf w'. find_walk env block depth i ppos path bh (s\<lparr>world := w\<rparr>)
         = Some (EOK, path', ppos + i, s\<lparr>world := w'\<rparr>)
     \<and> length path' = length path \<and> p_header (path' ! (ppos + i)) = Some leaf
     \<and> tree_ok 0 (nodes s) leaf \<and> ordered (extents_below 0 (nodes s) leaf)
     \<and> (extents_below 0 (nodes s) leaf = [] \<longleftrightarrow> extents_below i (nodes s) l = [])
     \<and> closest (extents_below 0 (nodes s) leaf) block = closest (extents_below i (nodes s) l) block
     \<and> refs_ok (nodes s) path' \<and> (\<forall>k < ppos. path' ! k = path ! k) \<and> (0 < i \<longrightarrow> p_depth (path' ! ppos) = int i)
     \<and> path_to i (nodes s) path' ppos l leaf \<and> path_splits i (nodes s) block path' ppos l
     \<and> (\<forall>k > ppos + i. path' ! k = path ! k) \<and> p_maxdepth (path' ! ppos) = p_maxdepth (path ! ppos)"
  using assms(2-)
proof (induction i arbitrary: l ppos path bh w)
  case 0
  then show ?case by (intro exI [of _ path] exI [of _ l] exI [of _ w]) auto
next
  case (Suc i)
  obtain n where n: "nodes s l = Some n" "node_ok (Suc i) n" "entries_of n \<noteq> []" "ordered (entries_of n)"
    and sub: "\<And>j. splits_at (entries_of n) block j \<Longrightarrow> ext4_idx_pblk (entries_of n ! j) \<noteq> 0
      \<and> tree_ok i (nodes s) (child (entries_of n ! j)) \<and> ordered (extents_below i (nodes s) (child (entries_of n ! j)))
      \<and> extents_below i (nodes s) (child (entries_of n ! j)) \<noteq> []
      \<and> closest (extents_below (Suc i) (nodes s) l) block = closest (extents_below i (nodes s) (child (entries_of n ! j))) block"
    by (rule tree_ok_inner [OF Suc.prems(1,2), where block = block]) blast
  let ?p = "path ! ppos" and ?s = "s\<lparr>world := w\<rparr>"
  obtain j where j: "ext4_ext_binsearch_idx ?s ?p block = Some (?p\<lparr>p_index := Some (int j)\<rparr>)"
    "splits_at (entries_of n) block j" "slot n (int j) = Some (entries_of n ! j)"
    using binsearch_idx_found [of ?s l n ?p "Suc i"] n Suc.prems(4) by auto
  let ?ix = "entries_of n ! j"
  let ?b = "ext4_idx_pblk ?ix"
  have below: "tree_ok i (nodes s) (Blk ?b)" "ordered (extents_below i (nodes s) (Blk ?b))"
    "closest (extents_below (Suc i) (nodes s) l) block = closest (extents_below i (nodes s) (Blk ?b)) block"
    "extents_below i (nodes s) (Blk ?b) \<noteq> []"
    using sub [OF j(2)] by (simp_all add: child_def)
  obtain c where c: "nodes s (Blk ?b) = Some c" "node_ok i c" using below(1) by (cases i) auto
  obtain w1 where rd: "read_extent_tree_block env ?b i bh ?s = Some (EOK, ?b, s\<lparr>world := w1\<rparr>)"
    using read_node_ok [OF assms(1) c] by blast
  let ?path = "path[ppos := ?p\<lparr>p_index := Some (int j), p_block := ?b, p_depth := int (Suc i), p_extent := None\<rparr>]"
  let ?q = "path ! Suc ppos"
  let ?path2 = "?path[Suc ppos := ?q\<lparr>p_lb_id := ?b, p_header := Some (Blk ?b)\<rparr>]"
  have step: "find_walk env block depth (Suc i) ppos path bh ?s
      = find_walk env block depth i (Suc ppos) ?path2 ?b (s\<lparr>world := w1\<rparr>)"
    using j n(1) rd Suc.prems(3-6) by (simp add: path_at_def entry_at_def node_at_def Let_def)
  have refs: "refs_ok (nodes s) ?path2"
    using Suc.prems(3,7) refs_ok_nth [OF Suc.prems(7), of ppos] c by (intro refs_ok_update) auto
  have below_ne: "extents_below (Suc i) (nodes s) l \<noteq> []"
    using n(1) j(2) below(4) by (auto simp: child_def splits_at_def)
  have "\<exists>path' leaf w'. find_walk env block depth i (Suc ppos) ?path2 ?b (s\<lparr>world := w1\<rparr>)
        = Some (EOK, path', Suc ppos + i, s\<lparr>world := w'\<rparr>)
     \<and> length path' = length ?path2 \<and> p_header (path' ! (Suc ppos + i)) = Some leaf
     \<and> tree_ok 0 (nodes s) leaf \<and> ordered (extents_below 0 (nodes s) leaf)
     \<and> (extents_below 0 (nodes s) leaf = [] \<longleftrightarrow> extents_below i (nodes s) (Blk ?b) = [])
     \<and> closest (extents_below 0 (nodes s) leaf) block = closest (extents_below i (nodes s) (Blk ?b)) block
     \<and> refs_ok (nodes s) path' \<and> (\<forall>k < Suc ppos. path' ! k = ?path2 ! k) \<and> (0 < i \<longrightarrow> p_depth (path' ! Suc ppos) = int i)
     \<and> path_to i (nodes s) path' (Suc ppos) (Blk ?b) leaf \<and> path_splits i (nodes s) block path' (Suc ppos) (Blk ?b)
     \<and> (\<forall>k > Suc ppos + i. path' ! k = ?path2 ! k) \<and> p_maxdepth (path' ! Suc ppos) = p_maxdepth (?path2 ! Suc ppos)"
    using Suc.prems(3,5,6) by (intro Suc.IH below(1,2) refs) auto
  then obtain path' leaf w' where IH: "find_walk env block depth i (Suc ppos) ?path2 ?b (s\<lparr>world := w1\<rparr>)
        = Some (EOK, path', Suc ppos + i, s\<lparr>world := w'\<rparr>)"
    "length path' = length ?path2" "p_header (path' ! (Suc ppos + i)) = Some leaf" "tree_ok 0 (nodes s) leaf"
    "ordered (extents_below 0 (nodes s) leaf)" "extents_below 0 (nodes s) leaf = [] \<longleftrightarrow> extents_below i (nodes s) (Blk ?b) = []"
    "closest (extents_below 0 (nodes s) leaf) block = closest (extents_below i (nodes s) (Blk ?b)) block"
    "refs_ok (nodes s) path'" "\<forall>k < Suc ppos. path' ! k = ?path2 ! k"
    "path_to i (nodes s) path' (Suc ppos) (Blk ?b) leaf" "path_splits i (nodes s) block path' (Suc ppos) (Blk ?b)"
    "\<forall>k > Suc ppos + i. path' ! k = ?path2 ! k" by blast
  have "path_splits (Suc i) (nodes s) block path' ppos l"
    using IH(9,11) n(1) j(2) Suc.prems(3,4) by (auto simp: child_def)
  moreover have "path_to (Suc i) (nodes s) path' ppos l leaf"
    using IH(9,10) n(1) j(2) Suc.prems(3,4) by (auto simp: splits_at_def child_def)
  ultimately show ?case using step below(3,4) Suc.prems(3) IH below_ne
    by (intro exI [of _ path'] exI [of _ leaf] exI [of _ w']) simp
qed

text \<open>The search with any array for the path that holds no block; \<open>s0\<close> is the state once the array is there.\<close>

lemma find_extent_array:
  assumes depth: "inode_depth s0 = Some d" and tree: "tree_ok d (nodes s) Root" "ordered (extents_below d (nodes s) Root)" "reads_clean env s"
    and arr: "find_path_array env d orig s0 = Some (Some arr, s)" "d < length arr" "\<forall>k < length arr. p_lb_id (arr ! k) = 0"
  shows "\<exists>path w leaf. ext4_find_extent env block orig s0 = Some (EOK, Some path, s\<lparr>world := w\<rparr>)
     \<and> length path = length arr \<and> p_header (path ! d) = Some leaf
     \<and> (if extents_below d (nodes s) Root = [] then p_extent (path ! d) = None
        else \<exists>i. p_extent (path ! d) = Some i
          \<and> entry_at s (Some leaf) (Some i) = Some (closest (extents_below d (nodes s) Root) block)
          \<and> p_block (path ! d) = ext4_ext_pblk (closest (extents_below d (nodes s) Root) block))
     \<and> refs_ok (nodes s) path \<and> p_depth (path ! 0) = int d \<and> leaf_found (nodes s) d block path leaf
     \<and> path_splits d (nodes s) block path 0 Root \<and> (\<forall>k > d. path ! k = arr ! k) \<and> p_maxdepth (path ! 0) = p_maxdepth (arr ! 0)"
proof -
  let ?all = "extents_below d (nodes s) Root"
  let ?path0 = "arr[0 := (arr ! 0)\<lparr>p_header := Some Root, p_lb_id := 0\<rparr>]"
  have ne: "0 < length arr" using arr(2) by linarith
  have pre: "0 + d < length ?path0" "p_header (?path0 ! 0) = Some Root" "0 + d \<le> d" using arr(2) ne by simp_all
  have lb: "\<forall>k. 0 < k \<and> k < length ?path0 \<longrightarrow> p_lb_id (?path0 ! k) = 0" using arr(3) by simp
  have refs: "refs_ok (nodes s) ?path0"
    using arr(3) by (intro refs_ok_update) (auto simp: refs_ok_def in_set_conv_nth)
  obtain path leaf w where walk: "find_walk env block d d 0 ?path0 0 (s\<lparr>world := world s\<rparr>) = Some (EOK, path, d, s\<lparr>world := w\<rparr>)"
    and path: "length path = length arr" "p_header (path ! d) = Some leaf"
    and leaf: "tree_ok 0 (nodes s) leaf" "ordered (extents_below 0 (nodes s) leaf)"
      "extents_below 0 (nodes s) leaf = [] \<longleftrightarrow> ?all = []"
      "closest (extents_below 0 (nodes s) leaf) block = closest ?all block"
    and more: "refs_ok (nodes s) path" "0 < d \<Longrightarrow> p_depth (path ! 0) = int d"
      "path_to d (nodes s) path 0 Root leaf" "path_splits d (nodes s) block path 0 Root"
      "\<forall>k > d. path ! k = ?path0 ! k" "p_maxdepth (path ! 0) = p_maxdepth (?path0 ! 0)"
    using find_walk_correct [OF tree(3,1,2) pre lb refs, of block 0 "world s", unfolded add_0 length_list_update] by blast
  have dl: "d < length path" using path(1) arr(2) by simp
  obtain n where n: "nodes s leaf = Some n" "node_ok 0 n" using leaf(1) by auto
  let ?p = "(path ! d)\<lparr>p_depth := 0, p_extent := None, p_index := None\<rparr>"
  have es: "extents_below 0 (nodes s) leaf = entries_of n" using n(1) by simp
  have search: "if entries_of n = [] then ext4_ext_binsearch (s\<lparr>world := w\<rparr>) ?p block = Some ?p
     else \<exists>i. ext4_ext_binsearch (s\<lparr>world := w\<rparr>) ?p block = Some (?p\<lparr>p_extent := Some (int i)\<rparr>)
       \<and> splits_at (entries_of n) block i \<and> slot n (int i) = Some (closest (entries_of n) block)"
    using n path(2) leaf(2) es by (intro binsearch_found) auto
  have upd: "length (path[d := q]) = length arr" "p_header (path[d := q] ! d) = p_header q" "p_extent (path[d := q] ! d) = p_extent q"
    "p_block (path[d := q] ! d) = p_block q" for q using path(1) dl by simp_all
  have refs': "refs_ok (nodes s) (path[d := q])" if "p_lb_id q = p_lb_id (path ! d)" "p_header q = p_header (path ! d)" for q
    using that more(1) refs_ok_nth [OF more(1), of d] dl by (intro refs_ok_update) auto
  have depth0: "p_depth (path[d := q] ! 0) = int d" if "p_depth q = 0" for q
    using that more(2) dl by (cases d) auto
  have lf: "leaf_found (nodes s) d block (path[d := q]) leaf"
    if "p_header q = Some leaf" "case p_extent q of None \<Rightarrow> entries_of n = [] | Some i \<Rightarrow> 0 \<le> i \<and> splits_at (entries_of n) block (nat i)" for q
    using that path_to_update [OF more(3), of q] n(1) dl by (simp add: leaf_found_def)
  have rest: "path_splits d (nodes s) block (path[d := q]) 0 Root"
    "p_maxdepth (path[d := q] ! 0) = p_maxdepth (arr ! 0)"
    if "p_header q = p_header (path ! d)" "p_maxdepth q = p_maxdepth (path ! d)" for q
  proof -
    show "path_splits d (nodes s) block (path[d := q]) 0 Root" using path_splits_update [OF more(4), of q] that(1) dl by simp
    show "p_maxdepth (path[d := q] ! 0) = p_maxdepth (arr ! 0)" using more(6) that(2) ne dl by (cases d) simp_all
  qed
  have beyond: "\<forall>k > d. path ! k = arr ! k" using more(5) by simp
  have at: "path_at path d = Some (path ! d)" using dl by (simp add: path_at_def)
  have eq: "ext4_find_extent env block orig s0 = do {
      p \<leftarrow> ext4_ext_binsearch (s\<lparr>world := w\<rparr>) ?p block;
      p \<leftarrow> (case p_extent p of None \<Rightarrow> Some p
           | Some i \<Rightarrow> do { e \<leftarrow> entry_at (s\<lparr>world := w\<rparr>) (p_header p) (Some i); Some (p\<lparr>p_block := ext4_ext_pblk e\<rparr>) });
      Some (EOK, Some (path[d := p]), s\<lparr>world := w\<rparr>) }"
    using depth arr(1,2) walk at ne by (simp add: ext4_find_extent_def path_at_def)
  show ?thesis
  proof (cases "entries_of n = []")
    case True
    then have "?all = []" using leaf(3) es by simp
    then show ?thesis
      using True search path by (intro exI [of _ "path[d := ?p]"] exI [of _ w] exI [of _ leaf]) (simp add: eq upd refs' depth0 lf rest beyond)
  next
    case False
    then obtain i where i: "ext4_ext_binsearch (s\<lparr>world := w\<rparr>) ?p block = Some (?p\<lparr>p_extent := Some (int i)\<rparr>)"
      "slot n (int i) = Some (closest (entries_of n) block)" "splits_at (entries_of n) block i" using search by auto
    have "?all \<noteq> []" "closest (entries_of n) block = closest ?all block" using False leaf(3,4) es by simp_all
    then show ?thesis
      using i path n(1)
      by (intro exI [of _ "path[d := ?p\<lparr>p_extent := Some (int i), p_block := ext4_ext_pblk (closest ?all block)\<rparr>]"] exI [of _ w] exI [of _ leaf])
        (simp add: eq upd refs' depth0 entry_at_def node_at_def lf rest beyond)
  qed
qed

lemma find_extent_found:
  assumes "inode_depth s = Some d" "tree_ok d (nodes s) Root" "ordered (extents_below d (nodes s) Root)"
    and "reads_clean env s" "calloc_ok env s (d + 2)"
  shows "\<exists>path w leaf. ext4_find_extent env block None s = Some (EOK, Some path, s\<lparr>world := w\<rparr>)
     \<and> length path = d + 2 \<and> p_header (path ! d) = Some leaf
     \<and> (if extents_below d (nodes s) Root = [] then p_extent (path ! d) = None
        else \<exists>i. p_extent (path ! d) = Some i
          \<and> entry_at s (Some leaf) (Some i) = Some (closest (extents_below d (nodes s) Root) block)
          \<and> p_block (path ! d) = ext4_ext_pblk (closest (extents_below d (nodes s) Root) block))
     \<and> refs_ok (nodes s) path \<and> p_depth (path ! 0) = int d \<and> leaf_found (nodes s) d block path leaf
     \<and> path_splits d (nodes s) block path 0 Root \<and> (\<forall>k > d. k < length path \<longrightarrow> p_lb_id (path ! k) = 0) \<and> p_maxdepth (path ! 0) = int (d + 1)"
proof -
  let ?arr = "(replicate (d + 2) zero_path)[0 := zero_path\<lparr>p_maxdepth := int (d + 1)\<rparr>]"
  have arr: "find_path_array env d None s = Some (Some ?arr, s)" using assms(5) by (simp add: find_path_array_def)
  have lb: "\<forall>k < length ?arr. p_lb_id (?arr ! k) = 0"
    by (auto simp: nth_Cons zero_path_def split: nat.split)
  have "d < length ?arr" "length ?arr = d + 2" "p_maxdepth (?arr ! 0) = int (d + 1)" by simp_all
  with find_extent_array [OF assms(1-4) arr _ lb, of block] lb show ?thesis by metis
qed

section \<open>An example\<close>

text \<open>A node of the given depth with room for \<open>room\<close> entries, and a tree of two leaves.\<close>

definition example_entry :: "u32 \<Rightarrow> u16 \<Rightarrow> u64 \<Rightarrow> ext4_entry" where
  "example_entry block len pblk =
     ext4_ext_store_pblk pblk \<lparr>e_block = block, e_h0 = len, e_h1 = 0, e_h2 = 0, e_h3 = 0\<rparr>"

definition example_index :: "u32 \<Rightarrow> u64 \<Rightarrow> ext4_entry" where
  "example_index block pblk =
     ext4_idx_store_pblk pblk \<lparr>e_block = block, e_h0 = 0, e_h1 = 0, e_h2 = 0, e_h3 = 0\<rparr>"

definition example_node :: "nat \<Rightarrow> nat \<Rightarrow> ext4_entry list \<Rightarrow> ext4_node" where
  "example_node depth room es =
     \<lparr>n_hdr = \<lparr>eh_magic = EXT4_EXT_MAGIC, eh_entries = of_nat (length es), eh_max = of_nat room,
        eh_depth = of_nat depth, eh_generation = 0\<rparr>,
      n_slots = es @ replicate (room - length es) (example_entry 0 0 0), n_tail = 0\<rparr>"

definition example_tree :: "unit ext4_state" where
  "example_tree =
     \<lparr>nodes = [Root \<mapsto> example_node 1 4 [example_index 0 100, example_index 50 200],
        Blk 100 \<mapsto> example_node 0 84 [example_entry 0 10 1000, example_entry 20 5 2000],
        Blk 200 \<mapsto> example_node 0 84 [example_entry 50 8 3000]],
      inode_dirty = False, world = ()\<rparr>"

definition example_ext4_env :: "unit ext4_env" where
  "example_ext4_env =
     \<lparr>ext4_sb_get_block_size = 1024, metadata_csum = False, CONFIG_META_CSUM_ENABLE = False, ext4_crc32c = (\<lambda>c bs. c), EXT4_CRC32_INIT = 0,
      sb_uuid = replicate 16 0, inode_index = 12, inode_generation = 0,
      ext4_trans_block_get = (\<lambda>b lb s. (EOK, b, s)), ext4_trans_block_get_noread = (\<lambda>b lb s. (EOK, b, s)),
      ext4_block_set = (\<lambda>b s. (EOK, 0, s)), ext4_trans_set_block_dirty = (\<lambda>b s. s),
      ext4_bcache_test_dirty = (\<lambda>b s. False), ext4_balloc_alloc_block = (\<lambda>g b s. (Eother 28, 0, s)),
      ext4_balloc_free_blocks = (\<lambda>b n s. s), ext4_fs_inode_to_goal_block = (\<lambda>s. 0),
      calloc_ok = (\<lambda>s n. True),
      IN_RANGE = (\<lambda>b first len. sint first \<le> sint b \<and> sint b < sint first + sint len),
      EXT_MAX_BLOCKS = 0x7fffffff\<rparr>"

text \<open>
  C9. On a well-formed tree whose extents are in order \<open>ext4_find_extent\<close> succeeds, changes no node,
  and leaves the path at the extent closest to the block among all extents of the tree; in an empty
  tree it leaves the extent pointer null.
\<close>

theorem ext4_find_extent_correct:
  assumes "inode_depth s = Some d" "tree_ok d (nodes s) Root" "ordered (extents_below d (nodes s) Root)"
    and "reads_clean env s" "calloc_ok env s (d + 2)"
  shows "\<exists>path w. ext4_find_extent env block None s = Some (EOK, Some path, s\<lparr>world := w\<rparr>)
     \<and> length path = d + 2
     \<and> (if extents_below d (nodes s) Root = [] then p_extent (path ! d) = None
        else entry_at s (p_header (path ! d)) (p_extent (path ! d)) = Some (closest (extents_below d (nodes s) Root) block)
          \<and> p_block (path ! d) = ext4_ext_pblk (closest (extents_below d (nodes s) Root) block))"
  using find_extent_found [OF assms, of block] by (auto split: if_splits)

lemmas example_tree_defs = example_tree_def example_node_def example_entry_def example_index_def

lemma example_pblk:
  "ext4_idx_pblk (example_index b 100) = 100" "ext4_idx_pblk (example_index b 200) = 200"
  using join_pblk_parts [of 100] join_pblk_parts [of 200] by (simp_all add: example_index_def pblk_accessors)

lemma example_blocks [simp]: "e_block (example_index b p) = b" "e_block (example_entry b len p) = b"
  by (simp_all add: example_index_def example_entry_def ext4_idx_store_pblk_def ext4_ext_store_pblk_def)

lemma example_node_ok:
  assumes "length es \<le> room" "0 < room" "room < 2 ^ 15"
  shows "node_ok d (example_node d room es)" "entries_of (example_node d room es) = es"
proof -
  have small: "sint (of_nat k :: u16) = int k" if "k < 2 ^ 15" for k
    using that by (simp add: sint_16 unsigned_of_nat take_bit_nat_eq_self)
  have "(of_nat room :: u16) \<noteq> 0" using small [OF assms(3)] assms(2) by (metis of_nat_0_less_iff less_irrefl signed_0)
  then show "node_ok d (example_node d room es)" "entries_of (example_node d room es) = es"
    using assms small by (simp_all add: node_ok_def entries_of_def example_node_def)
qed

lemma example_tree_below:
  "extents_below 1 (nodes example_tree) Root = [example_entry 0 10 1000, example_entry 20 5 2000, example_entry 50 8 3000]"
  by (simp add: example_tree_def example_node_ok child_def example_pblk)

lemma example_tree_ok:
  "inode_depth example_tree = Some 1" "tree_ok 1 (nodes example_tree) Root"
  "ordered (extents_below 1 (nodes example_tree) Root)" "reads_clean example_ext4_env example_tree"
  "calloc_ok example_ext4_env example_tree (1 + 2)"
proof -
  show "inode_depth example_tree = Some 1"
    by (simp add: inode_depth_def example_tree_def example_node_def ext_depth_def endian_defs)
  show "tree_ok 1 (nodes example_tree) Root"
    by (simp add: example_tree_def example_node_ok child_def example_pblk)
  show "ordered (extents_below 1 (nodes example_tree) Root)"
    unfolding example_tree_below by (simp add: ordered_def ekey_def)
  show "reads_clean example_ext4_env example_tree"
    by (auto simp: reads_clean_def example_ext4_env_def)
  show "calloc_ok example_ext4_env example_tree (1 + 2)" by (simp add: example_ext4_env_def)
qed

theorem ext4_find_extent_correct_witness:
  "\<exists>path w. ext4_find_extent example_ext4_env 22 None example_tree = Some (EOK, Some path, example_tree\<lparr>world := w\<rparr>)
     \<and> p_block (path ! 1) = ext4_ext_pblk (example_entry 20 5 2000)"
proof -
  have "closest (extents_below 1 (nodes example_tree) Root) 22 = example_entry 20 5 2000"
    unfolding example_tree_below by (simp add: closest_def ekey_def)
  moreover have "extents_below 1 (nodes example_tree) Root \<noteq> []" unfolding example_tree_below by simp
  ultimately show ?thesis using ext4_find_extent_correct [OF example_tree_ok, of 22] by auto
qed

end
