(* ===== verification/Ext4_Extent_Insert.thy ===== *)
theory Ext4_Extent_Insert
  imports Ext4_Extent_Find
begin

text \<open>
  \<open>ext4_extent.c\<close>, lines 495 to 549 and 688 to 891: inserting an index into an inner node and an extent
  into a leaf, merging extents, and correcting the keys above a leaf.
\<close>

section \<open>Indexes\<close>

text \<open>A change of the entry that a pointer of the path points to.\<close>

definition update_entry :: "loc option \<Rightarrow> int option \<Rightarrow> (ext4_entry \<Rightarrow> ext4_entry option) \<Rightarrow> 'w ext4_state \<Rightarrow> 'w ext4_state option" where
  "update_entry h i f s = update_node h (\<lambda>n. do { i \<leftarrow> i; e \<leftarrow> slot n i; e' \<leftarrow> f e; set_slot i e' n }) s"

text \<open>\<open>memmove\<close> by one entry from \<open>ix\<close> on, where there is something to move.\<close>

definition make_room :: "int \<Rightarrow> ext4_node \<Rightarrow> ext4_node option" where
  "make_room ix n = do {
     let len = EXT_LAST (n_hdr n) - ix + 1;
     check (len \<ge> 0);
     if len > 0 then move_slots (ix + 1) ix len n else Some n
   }"

definition ext4_ext_insert_index :: "'w ext4_env \<Rightarrow> ext4_extent_path list \<Rightarrow> nat \<Rightarrow> ext4_lblk_t \<Rightarrow> ext4_fsblk_t \<Rightarrow> bool \<Rightarrow>
    'w ext4_state \<Rightarrow> (errno \<times> ext4_extent_path list \<times> 'w ext4_state) option" where
  "ext4_ext_insert_index env path at insert_index insert_block set_to_ix s = do {
     curp \<leftarrow> path_at path at;
     key \<leftarrow> (case p_index curp of None \<Rightarrow> Some None
        | Some i \<Rightarrow> map_option (\<lambda>e. Some (le32_to_cpu (e_block e))) (entry_at s (p_header curp) (Some i)));
     if key = Some insert_index then Some (EIO, path, s)
     else do {
       n \<leftarrow> node_at s (p_header curp);
       if le16_to_cpu (eh_entries (n_hdr n)) = le16_to_cpu (eh_max (n_hdr n)) then Some (EIO, path, s)
       else do {
         (ix, curp) \<leftarrow> (case p_index curp of
            None \<Rightarrow> Some (EXT_FIRST, curp\<lparr>p_index := Some EXT_FIRST\<rparr>)
          | Some i \<Rightarrow> do { key \<leftarrow> key; Some (if u32_lt key insert_index then i + 1 else i, curp) });
         let path = path[at := curp];
         if ix > EXT_MAX (n_hdr n) then Some (EIO, path, s)
         else do {
           n \<leftarrow> make_room ix n;
           e \<leftarrow> slot n ix;
           n \<leftarrow> set_slot ix (ext4_idx_store_pblk insert_block (e\<lparr>e_block := cpu_to_le32 insert_index\<rparr>)) n;
           let n = set_entries (cpu_to_le16 (le16_to_cpu (eh_entries (n_hdr n)) + 1)) n;
           l \<leftarrow> p_header curp;
           let s = put_node l n s;
           let (err, s) = (if ix > EXT_LAST (n_hdr n) then (EIO, s) else ext4_ext_dirty env curp s);
           e \<leftarrow> slot n ix;
           Some (err, if err = EOK \<and> set_to_ix then path[at := curp\<lparr>p_index := Some ix, p_block := ext4_idx_pblk e\<rparr>]
                      else path, s)
         }
       }
     }
   }"

text \<open>The loop that carries a new first key to the levels above; \<open>k\<close> is the level below the next.\<close>

fun correct_indexes_loop :: "'w ext4_env \<Rightarrow> u32 \<Rightarrow> nat \<Rightarrow> ext4_extent_path list \<Rightarrow> 'w ext4_state \<Rightarrow> (errno \<times> 'w ext4_state) option" where
  "correct_indexes_loop env border 0 path s = Some (EOK, s)"
| "correct_indexes_loop env border (Suc k) path s = do {
     below \<leftarrow> path_at path (Suc k);
     if p_index below \<noteq> Some EXT_FIRST then Some (EOK, s)
     else do {
       p \<leftarrow> path_at path k;
       s \<leftarrow> update_entry (p_header p) (p_index p) (\<lambda>e. Some (e\<lparr>e_block := border\<rparr>)) s;
       let (err, s) = ext4_ext_dirty env p s;
       if err \<noteq> EOK then Some (err, s) else correct_indexes_loop env border k path s
     }
   }"

definition ext4_ext_correct_indexes :: "'w ext4_env \<Rightarrow> ext4_extent_path list \<Rightarrow> 'w ext4_state \<Rightarrow> (errno \<times> 'w ext4_state) option" where
  "ext4_ext_correct_indexes env path s = do {
     depth \<leftarrow> inode_depth s;
     leaf \<leftarrow> path_at path depth;
     if p_extent leaf = None \<or> p_header leaf = None then Some (EIO, s)
     else if depth = 0 then Some (EOK, s)
     else if p_extent leaf \<noteq> Some EXT_FIRST then Some (EOK, s)
     else do {
       ex \<leftarrow> entry_at s (p_header leaf) (p_extent leaf);
       let border = e_block ex;
       p \<leftarrow> path_at path (depth - 1);
       s \<leftarrow> update_entry (p_header p) (p_index p) (\<lambda>e. Some (e\<lparr>e_block := border\<rparr>)) s;
       let (err, s) = ext4_ext_dirty env p s;
       if err \<noteq> EOK then Some (err, s) else correct_indexes_loop env border (depth - 1) path s
     }
   }"

section \<open>Merging\<close>

text \<open>
  The sum of two lengths is an \<open>int\<close>, which the comparison with an unsigned constant reads as
  unsigned.
\<close>

definition lengths_fit :: "ext4_entry \<Rightarrow> ext4_entry \<Rightarrow> bool" where
  "lengths_fit ex1 ex2 \<longleftrightarrow>
    (if ext4_ext_is_unwritten ex1
     then \<not> ext4_ext_get_actual_len ex1 + ext4_ext_get_actual_len ex2 > EXT_UNWRITTEN_MAX_LEN
     else \<not> ext4_ext_get_actual_len ex1 + ext4_ext_get_actual_len ex2 > EXT_INIT_MAX_LEN)"

definition ext4_ext_can_prepend :: "ext4_entry \<Rightarrow> ext4_entry \<Rightarrow> bool" where
  "ext4_ext_can_prepend ex1 ex2 =
    (if ext4_ext_pblk ex2 + scast (ext4_ext_get_actual_len ex2) \<noteq> ext4_ext_pblk ex1 then False
     else if \<not> lengths_fit ex1 ex2 then False
     else if le32_to_cpu (e_block ex2) + ext4_ext_get_actual_len ex2 \<noteq> le32_to_cpu (e_block ex1) then False
     else True)"

definition ext4_ext_can_append :: "ext4_entry \<Rightarrow> ext4_entry \<Rightarrow> bool" where
  "ext4_ext_can_append ex1 ex2 =
    (if ext4_ext_pblk ex1 + scast (ext4_ext_get_actual_len ex1) \<noteq> ext4_ext_pblk ex2 then False
     else if \<not> lengths_fit ex1 ex2 then False
     else if le32_to_cpu (e_block ex1) + ext4_ext_get_actual_len ex1 \<noteq> le32_to_cpu (e_block ex2) then False
     else True)"

definition EXT4_EXT_NO_COMBINE :: "32 word" where "EXT4_EXT_NO_COMBINE = 0x20"

text \<open>The length of the merged extent, and the mark where the extent it grows from was unwritten.\<close>

definition merge_len :: "ext4_entry \<Rightarrow> ext4_entry \<Rightarrow> ext4_entry \<Rightarrow> ext4_entry option" where
  "merge_len cur newext e =
    (let e = set_ee_len (cpu_to_le16 (ucast (ext4_ext_get_actual_len cur + ext4_ext_get_actual_len newext))) e
     in if ext4_ext_is_unwritten cur then ext4_ext_mark_unwritten e else Some e)"

section \<open>Extents\<close>

text \<open>
  The entry of the current extent, if there is one, decides whether the new extent is merged: the
  change of the current entry, if so.
\<close>

definition leaf_merge :: "32 word \<Rightarrow> ext4_entry option \<Rightarrow> ext4_entry \<Rightarrow> (ext4_entry \<Rightarrow> ext4_entry option) option" where
  "leaf_merge flags cur newext = (case cur of None \<Rightarrow> None | Some cur \<Rightarrow>
     if flags AND EXT4_EXT_NO_COMBINE \<noteq> 0 then None
     else if ext4_ext_can_append cur newext then Some (merge_len cur newext)
     else if ext4_ext_can_prepend cur newext then Some (\<lambda>e. merge_len cur newext (e\<lparr>e_block := e_block newext\<rparr>))
     else None)"

text \<open>The end of the function: on success the path points to the extent.\<close>

definition insert_leaf_out :: "ext4_extent_path list \<Rightarrow> nat \<Rightarrow> int option \<Rightarrow> errno \<Rightarrow> bool \<Rightarrow> 'w ext4_state \<Rightarrow>
    (errno \<times> bool \<times> ext4_extent_path list \<times> 'w ext4_state) option" where
  "insert_leaf_out path at ex err need_split s =
    (if err = EOK then do {
       curp \<leftarrow> path_at path at;
       e \<leftarrow> entry_at s (p_header curp) ex;
       Some (err, need_split, path[at := curp\<lparr>p_extent := ex, p_block := ext4_ext_pblk e\<rparr>], s)
     } else Some (err, need_split, path, s))"

text \<open>The error, \<open>*need_split\<close>, the path and the state.\<close>

definition ext4_ext_insert_leaf :: "'w ext4_env \<Rightarrow> ext4_extent_path list \<Rightarrow> nat \<Rightarrow> ext4_entry \<Rightarrow> 32 word \<Rightarrow> 'w ext4_state \<Rightarrow>
    (errno \<times> bool \<times> ext4_extent_path list \<times> 'w ext4_state) option" where
  "ext4_ext_insert_leaf env path at newext flags s = do {
     curp \<leftarrow> path_at path at;
     cur \<leftarrow> (case p_extent curp of None \<Rightarrow> Some None
        | Some i \<Rightarrow> map_option Some (entry_at s (p_header curp) (Some i)));
     if map_option (\<lambda>e. le32_to_cpu (e_block e)) cur = Some (le32_to_cpu (e_block newext)) then Some (EIO, False, path, s)
     else case leaf_merge flags cur newext of
       Some f \<Rightarrow> do {
         s \<leftarrow> update_entry (p_header curp) (p_extent curp) f s;
         let (err, s) = ext4_ext_dirty env curp s;
         insert_leaf_out path at (p_extent curp) err False s
       }
     | None \<Rightarrow> do {
         n \<leftarrow> node_at s (p_header curp);
         if le16_to_cpu (eh_entries (n_hdr n)) = le16_to_cpu (eh_max (n_hdr n))
         then insert_leaf_out path at (p_extent curp) EIO True s
         else do {
           (ex, curp) \<leftarrow> (case p_extent curp of
              None \<Rightarrow> Some (EXT_FIRST, curp\<lparr>p_extent := Some EXT_FIRST\<rparr>)
            | Some i \<Rightarrow> do { c \<leftarrow> cur;
                Some (if u32_lt (le32_to_cpu (e_block c)) (le32_to_cpu (e_block newext)) then i + 1 else i, curp) });
           let path = path[at := curp];
           n \<leftarrow> make_room ex n;
           l \<leftarrow> p_header curp;
           if ex > EXT_MAX (n_hdr n) then insert_leaf_out path at (Some ex) EIO False (put_node l n s)
           else do {
             e \<leftarrow> slot n ex;
             n \<leftarrow> set_slot ex (ext4_ext_store_pblk (ext4_ext_pblk newext)
                    (set_ee_len (ee_len newext) (e\<lparr>e_block := e_block newext\<rparr>))) n;
             let n = set_entries (cpu_to_le16 (le16_to_cpu (eh_entries (n_hdr n)) + 1)) n;
             let s = put_node l n s;
             if ex > EXT_LAST (n_hdr n) then insert_leaf_out path at (Some ex) EIO False s
             else do {
               (err, s) \<leftarrow> ext4_ext_correct_indexes env path s;
               if err \<noteq> EOK then insert_leaf_out path at (Some ex) err False s
               else let (err, s) = ext4_ext_dirty env curp s
                    in insert_leaf_out path at (Some ex) err False s
             }
           }
         }
       }
   }"

section \<open>Merging joins written neighbours only\<close>

lemma uint_actual_len:
  "uint (ext4_ext_get_actual_len e) = (if ext4_ext_is_unwritten e then uint (ee_len e) + (2 ^ 32 - 2 ^ 16 - 2 ^ 15)
     else uint (ee_len e))"
proof -
  let ?w = "u32_of_u16 (le16_to_cpu (ee_len e))"
  have "ext4_ext_get_actual_len e = (if ext4_ext_is_unwritten e then ?w - EXT_INIT_MAX_LEN else ?w)"
    by (auto simp: ext4_ext_get_actual_len_def ext4_ext_is_unwritten_def)
  moreover have "uint (?w - EXT_INIT_MAX_LEN) = uint ?w - 2 ^ 15" if "ext4_ext_is_unwritten e"
    using that uint_sub_lem [of EXT_INIT_MAX_LEN ?w]
    by (simp add: ext4_ext_is_unwritten_def EXT_INIT_MAX_LEN_def word_less_def)
  ultimately show ?thesis
    by (auto simp: is_unwritten_iff uint_u32_of_u16 endian_defs)
qed

lemma unsigned_length_sum:
  fixes x y :: int
  assumes "0 \<le> x" "x < 2 ^ 16" "0 \<le> y" "y < 2 ^ 16"
  defines "f \<equiv> \<lambda>z. if 2 ^ 15 \<le> z then z + (2 ^ 32 - 2 ^ 16 - 2 ^ 15) else z"
  shows "(if f x + f y < 2 ^ 32 then f x + f y else f x + f y - 2 ^ 32) \<le> (if 2 ^ 15 \<le> x then 2 ^ 15 - 1 else 2 ^ 15)
    \<longleftrightarrow> \<not> 2 ^ 15 \<le> x \<and> \<not> 2 ^ 15 \<le> y \<and> x + y \<le> 2 ^ 15"
  using assms(1-4) unfolding f_def by auto

lemma lengths_fit_iff:
  "lengths_fit a b \<longleftrightarrow> \<not> ext4_ext_is_unwritten a \<and> \<not> ext4_ext_is_unwritten b \<and> uint (ee_len a) + uint (ee_len b) \<le> 2 ^ 15"
proof -
  have bounds: "ext4_ext_is_unwritten e \<longleftrightarrow> 2 ^ 15 \<le> uint (ee_len e)" "0 \<le> uint (ee_len e)" "uint (ee_len e) < 2 ^ 16" for e
    using is_unwritten_iff uint_16 by auto
  let ?a = "uint (ext4_ext_get_actual_len a)" and ?b = "uint (ext4_ext_get_actual_len b)"
  have sum: "uint (ext4_ext_get_actual_len a + ext4_ext_get_actual_len b) = (if ?a + ?b < 2 ^ 32 then ?a + ?b else ?a + ?b - 2 ^ 32)"
    by (simp add: uint_plus_if')
  have const: "uint EXT_INIT_MAX_LEN = 2 ^ 15" "uint EXT_UNWRITTEN_MAX_LEN = 2 ^ 15 - 1"
    by (simp_all add: EXT_INIT_MAX_LEN_def EXT_UNWRITTEN_MAX_LEN_def)
  have fit: "lengths_fit a b \<longleftrightarrow> uint (ext4_ext_get_actual_len a + ext4_ext_get_actual_len b)
      \<le> (if ext4_ext_is_unwritten a then 2 ^ 15 - 1 else 2 ^ 15)"
    by (simp add: lengths_fit_def word_less_def const not_less)
  show ?thesis
    unfolding fit sum uint_actual_len bounds(1)
    by (rule unsigned_length_sum) (use bounds in \<open>simp_all\<close>)
qed

lemma written_len:
  assumes "\<not> ext4_ext_is_unwritten e"
  shows "ext4_ext_get_actual_len e = ucast (ee_len e)" "scast (ucast (ee_len e) :: u32) = (ucast (ee_len e) :: u64)"
proof -
  show len: "ext4_ext_get_actual_len e = ucast (ee_len e)" using assms by (simp add: actual_len_eq)
  have "\<not> bit (uint (ee_len e)) 15" using assms uint_16 [of "ee_len e"] by (simp add: is_unwritten_iff bit_iff_odd)
  then have "\<not> bit (ee_len e) 15" by (simp add: bit_uint_iff)
  then show "scast (ucast (ee_len e) :: u32) = (ucast (ee_len e) :: u64)"
    by (intro bit_word_eqI) (auto simp: bit_simps min_def dest: bit_imp_le_length)
qed

lemma can_append_iff:
  "ext4_ext_can_append a b \<longleftrightarrow> \<not> ext4_ext_is_unwritten a \<and> \<not> ext4_ext_is_unwritten b
      \<and> uint (ee_len a) + uint (ee_len b) \<le> 2 ^ 15
      \<and> ext4_ext_lblk b = ext4_ext_lblk a + ucast (ee_len a)
      \<and> ext4_ext_pblk b = ext4_ext_pblk a + ucast (ee_len a)"
  by (cases "ext4_ext_is_unwritten a")
    (auto simp: ext4_ext_can_append_def lengths_fit_iff written_len ext4_ext_lblk_def endian_defs)

lemma can_prepend_append: "ext4_ext_can_prepend b a = ext4_ext_can_append a b"
  unfolding can_append_iff
  by (cases "ext4_ext_is_unwritten a")
    (auto simp: ext4_ext_can_prepend_def lengths_fit_iff written_len ext4_ext_lblk_def endian_defs add.commute)

text \<open>
  C28. Two extents are merged exactly if both are written, the second follows the first both in the
  file and on the disk, and together they have at most \<open>0x8000\<close> blocks; looking from the second one
  back gives the same answer.
\<close>

theorem ext4_can_merge_iff:
  "(ext4_ext_can_append a b \<longleftrightarrow> \<not> ext4_ext_is_unwritten a \<and> \<not> ext4_ext_is_unwritten b
      \<and> uint (ee_len a) + uint (ee_len b) \<le> 2 ^ 15
      \<and> ext4_ext_lblk b = ext4_ext_lblk a + ucast (ee_len a)
      \<and> ext4_ext_pblk b = ext4_ext_pblk a + ucast (ee_len a))
   \<and> ext4_ext_can_prepend b a = ext4_ext_can_append a b"
  by (simp add: can_append_iff can_prepend_append)

text \<open>The merged extent of \<open>0x8000\<close> written blocks is an unwritten one to the code.\<close>

lemma full_merge_is_unwritten:
  assumes "\<not> ext4_ext_is_unwritten a" "\<not> ext4_ext_is_unwritten b" "uint (ee_len a) + uint (ee_len b) = 2 ^ 15"
  shows "\<exists>e'. merge_len a b e = Some e' \<and> ext4_ext_is_unwritten e'"
proof -
  have "uint (ucast (ee_len a) + ucast (ee_len b) :: u32) = 2 ^ 15"
    using assms(3) by (simp add: uint_plus_if' uint_up_ucast is_up)
  then have "ucast (ee_len a) + ucast (ee_len b) = (0x8000 :: u32)" by (intro word_uint_eqI) simp
  then show ?thesis using assms(1,2)
    by (simp add: merge_len_def written_len endian_defs Let_def full_length_is_unwritten)
qed

section \<open>Inserting into a node\<close>

lemma node_room:
  assumes "node_ok d n" "sint (eh_entries (n_hdr n)) < sint (eh_max (n_hdr n))"
  shows "\<exists>x rest. n_slots n = entries_of n @ x # rest"
proof -
  have "nat (sint (eh_entries (n_hdr n))) < length (n_slots n)" using assms unfolding node_ok_def by linarith
  then show ?thesis by (metis append_take_drop_id entries_of_def Cons_nth_drop_Suc)
qed

text \<open>Making room at a slot and filling it inserts the entry there.\<close>

lemma insert_at_slot:
  assumes n: "node_ok d n" "sint (eh_entries (n_hdr n)) < sint (eh_max (n_hdr n))" and k: "k \<le> length (entries_of n)"
  shows "\<exists>n1 old. make_room (int k) n = Some n1 \<and> n_hdr n1 = n_hdr n \<and> slot n1 (int k) = Some old \<and>
    (\<forall>e. \<exists>n2. set_slot (int k) e n1 = Some n2 \<and> n_hdr n2 = n_hdr n \<and>
       (let n3 = set_entries (eh_entries (n_hdr n) + 1) n2 in
          entries_of n3 = take k (entries_of n) @ e # drop k (entries_of n) \<and> node_ok d n3
          \<and> EXT_LAST (n_hdr n3) = int (length (entries_of n)) \<and> slot n3 (int k) = Some e))"
proof -
  let ?es = "entries_of n" and ?c = "length (entries_of n)"
  obtain x rest where S: "n_slots n = ?es @ x # rest" using node_room [OF n] by blast
  let ?old = "if k < ?c then ?es ! k else x"
  let ?n1 = "n\<lparr>n_slots := take k ?es @ ?old # drop k ?es @ rest\<rparr>"
  have last: "EXT_LAST (n_hdr n) = int ?c - 1" by (rule node_ok_last [OF n(1)])
  have room: "make_room (int k) n = Some ?n1"
  proof (cases "k < ?c")
    case True
    have "nat (int ?c - int k) = ?c - k" "nat (int k + 1) = Suc k" "nat (1 + int ?c) = Suc ?c" by simp_all
    then show ?thesis using True S last
      by (simp add: make_room_def move_slots_def take_Suc_conv_app_nth)
  next
    case False
    then show ?thesis using k S last by (simp add: make_room_def)
  qed
  have count: "sint (eh_entries (n_hdr n) + 1) = int ?c + 1"
  proof -
    have "sint (eh_max (n_hdr n)) < 2 ^ 15" using sint_lt [of "eh_max (n_hdr n)"] by simp
    then have "int ?c + 1 < 2 ^ 15" using n(2) node_ok_length [OF n(1)] by simp
    moreover have "eh_entries (n_hdr n) + 1 = of_int (int ?c + 1)" using node_ok_length [OF n(1)] by simp
    ultimately show ?thesis by (simp only: int_word_sint) simp
  qed
  have suc: "nat (sint (eh_entries (n_hdr n)) + 1) = Suc ?c" using node_ok_length [OF n(1)] by linarith
  have ents: "entries_of (n\<lparr>n_slots := A, n_hdr := h\<rparr>) = take (nat (sint (eh_entries h))) A" for A h
    by (simp add: entries_of_def)
  have "\<exists>n2. set_slot (int k) e ?n1 = Some n2 \<and> n_hdr n2 = n_hdr n \<and>
       (let n3 = set_entries (eh_entries (n_hdr n) + 1) n2 in
          entries_of n3 = take k ?es @ e # drop k ?es \<and> node_ok d n3
          \<and> EXT_LAST (n_hdr n3) = int ?c \<and> slot n3 (int k) = Some e)" for e
    using k S n count node_ok_length [OF n(1)] suc
    by (simp add: set_slot_def set_entries_def ents node_ok_def slot_def ext_pos_defs endian_defs
        list_update_append nth_append Suc_diff_le)
  moreover have "slot ?n1 (int k) = Some ?old" using k by (simp add: slot_def nth_append)
  ultimately show ?thesis using room by (intro exI [of _ ?n1] exI [of _ ?old]) simp
qed

text \<open>Copying an extent over an entry.\<close>

lemma copied_extent:
  assumes "\<not> bit (ee_start_lo newext) 31"
  shows "ext4_ext_store_pblk (ext4_ext_pblk newext) (set_ee_len (ee_len newext) (e\<lparr>e_block := e_block newext\<rparr>)) = newext"
proof -
  let ?hi = "ee_start_hi newext" and ?lo = "ee_start_lo newext"
  have "pblk_hi (join_pblk ?hi ?lo) = ?hi"
    using assms by (intro bit_word_eqI) (auto simp: bit_pblk_hi bit_join_pblk min_def le_antisym not_le)
  moreover have "(ucast (join_pblk ?hi ?lo) :: u32) = ?lo"
    by (intro bit_word_eqI) (auto simp: bit_simps bit_join_pblk min_def le_antisym not_le)
  moreover have "(ucast ?lo :: u16) = e_h2 newext" "(ucast (drop_bit 16 ?lo) :: u16) = e_h3 newext"
    by (intro bit_word_eqI; auto simp: ee_start_lo_def bit_simps bit_word_cat_iff)+
  ultimately show ?thesis
    by (simp add: pblk_accessors set_ee_start_def set_ee_len_def ee_len_def ee_start_hi_def)
qed

lemma ordered_insert:
  assumes "ordered es" "\<forall>x \<in> set (take k es). ekey x < ekey e" "\<forall>x \<in> set (drop k es). ekey e < ekey x"
  shows "ordered (take k es @ e # drop k es)"
proof -
  have "ordered (take k es @ drop k es)" using assms(1) by simp
  then show ?thesis using assms(2,3) unfolding ordered_append
    by (auto simp: ordered_def intro: order.strict_trans)
qed

text \<open>The slot the new extent goes to, from the slot of the closest one.\<close>

lemma ordered_insert_at_split:
  assumes "ordered es" "splits_at es (e_block e) i" "\<forall>x \<in> set es. e_block x \<noteq> e_block e"
  shows "ordered (let k = if ekey (es ! i) < ekey e then Suc i else i in take k es @ e # drop k es)"
proof -
  have i: "i < length es" using assms(2) by (simp add: splits_at_def)
  have ne: "ekey (es ! j) \<noteq> ekey e" if "j < length es" for j
    using that assms(3) nth_mem signed_word_eqI unfolding ekey_def by blast
  have before: "ekey (es ! j) < ekey e" if "0 < j" "j \<le> i" for j
    using assms(2) that i ne [of j] by (fastforce simp: splits_at_def ekey_def)
  have after: "ekey e < ekey (es ! j)" if "i < j" "j < length es" for j
    using assms(2) that by (auto simp: splits_at_def ekey_def)
  show ?thesis
  proof (cases "ekey (es ! i) < ekey e")
    case True
    have "ekey (es ! j) < ekey e" if "j \<le> i" for j using that before [of j] True by (cases "j = 0") (metis before le_zero_eq ordered_nth [OF assms(1)] i order.strict_trans neq0_conv)+
    then have "\<forall>x \<in> set (take (Suc i) es). ekey x < ekey e" by (auto simp: in_set_conv_nth)
    moreover have "\<forall>x \<in> set (drop (Suc i) es). ekey e < ekey x" using after by (auto simp: in_set_conv_nth)
    ultimately show ?thesis using True ordered_insert [OF assms(1)] by simp
  next
    case False
    then have zero: "i = 0" using before [of i] by (cases i) auto
    have "ekey e < ekey (es ! j)" if "j < length es" for j
      using that False ne [of j] after [of j] zero by (cases "j = 0") auto
    then have "\<forall>x \<in> set es. ekey e < ekey x" by (auto simp: in_set_conv_nth)
    then show ?thesis using False zero ordered_insert [OF assms(1), of 0 e] by simp
  qed
qed

definition dirty_marks_only :: "'w ext4_env \<Rightarrow> bool" where
  "dirty_marks_only env \<longleftrightarrow> (\<forall>b s. nodes (ext4_trans_set_block_dirty env b s) = nodes s)"

lemma dirty_nodes:
  "dirty_marks_only env \<Longrightarrow> nodes (snd (ext4_ext_dirty env p s)) = nodes s"
  "fst (ext4_ext_dirty env p s) = EOK"
  by (simp_all add: ext4_ext_dirty_def dirty_marks_only_def)

lemma correct_indexes_skip:
  assumes "inode_depth s = Some d" "path_at path d = Some p" "p_extent p = Some i" "p_header p = Some l" "d = 0 \<or> i \<noteq> 0"
  shows "ext4_ext_correct_indexes env path s = Some (EOK, s)"
  using assms by (auto simp: ext4_ext_correct_indexes_def EXT_FIRST_def)

lemma inode_depth_put_node:
  "nodes s l = Some n \<Longrightarrow> eh_depth (n_hdr n') = eh_depth (n_hdr n) \<Longrightarrow> inode_depth (put_node l n' s) = inode_depth s"
  by (auto simp: inode_depth_def put_node_def ext_depth_def)

lemma path_at_update: "path_at path i = Some p \<Longrightarrow> path_at (path[i := q]) i = Some q"
  by (auto simp: path_at_def split: if_splits)

text \<open>The insertion itself: \<open>k\<close> is the slot the extent gets.\<close>

text \<open>The slot where a new extent goes: behind the extent the path ends at, or before it.\<close>

definition insert_pos :: "ext4_entry list \<Rightarrow> int option \<Rightarrow> ext4_entry \<Rightarrow> nat" where
  "insert_pos es i e =
     (case i of None \<Rightarrow> 0 | Some i \<Rightarrow> if ekey (es ! nat i) < ekey e then Suc (nat i) else nat i)"

lemma insert_pos_ordered:
  assumes "ordered es" "\<forall>x \<in> set es. e_block x \<noteq> e_block e"
    and "case i of None \<Rightarrow> es = [] | Some i \<Rightarrow> splits_at es (e_block e) (nat i)"
  shows "insert_pos es i e \<le> length es" "ordered (take (insert_pos es i e) es @ e # drop (insert_pos es i e) es)"
proof -
  have "insert_pos es i e \<le> length es \<and> ordered (take (insert_pos es i e) es @ e # drop (insert_pos es i e) es)"
  proof (cases i)
    case None
    with assms(3) show ?thesis by (simp add: insert_pos_def ordered_def)
  next
    case (Some j)
    with assms(3) have j: "splits_at es (e_block e) (nat j)" by simp
    then have "nat j < length es" by (simp add: splits_at_def)
    with Some ordered_insert_at_split [OF assms(1) j assms(2)]
    show ?thesis by (auto simp: insert_pos_def Let_def)
  qed
  then show "insert_pos es i e \<le> length es" "ordered (take (insert_pos es i e) es @ e # drop (insert_pos es i e) es)" by auto
qed

text \<open>One more entry in a node that has room for it.\<close>

lemma room_filled:
  assumes "node_ok 0 n" "sint (eh_entries (n_hdr n)) < sint (eh_max (n_hdr n))" "k \<le> length (entries_of n)"
  shows "\<exists>n1 old n2. make_room (int k) n = Some n1 \<and> n_hdr n1 = n_hdr n \<and> slot n1 (int k) = Some old
    \<and> set_slot (int k) e n1 = Some n2 \<and> n_hdr n2 = n_hdr n
    \<and> (let n3 = set_entries (eh_entries (n_hdr n) + 1) n2 in
         entries_of n3 = take k (entries_of n) @ e # drop k (entries_of n) \<and> node_ok 0 n3
         \<and> \<not> int k > EXT_LAST (n_hdr n3) \<and> slot n3 (int k) = Some e)
    \<and> \<not> int k > EXT_MAX (n_hdr n) \<and> eh_entries (n_hdr n) \<noteq> eh_max (n_hdr n)"
proof -
  obtain n1 old n2 where n2: "make_room (int k) n = Some n1" "n_hdr n1 = n_hdr n" "slot n1 (int k) = Some old"
    "set_slot (int k) e n1 = Some n2" "n_hdr n2 = n_hdr n"
    "let n3 = set_entries (eh_entries (n_hdr n) + 1) n2 in
       entries_of n3 = take k (entries_of n) @ e # drop k (entries_of n) \<and> node_ok 0 n3
       \<and> EXT_LAST (n_hdr n3) = int (length (entries_of n)) \<and> slot n3 (int k) = Some e"
    using insert_at_slot [OF assms] by blast
  have "\<not> int k > EXT_MAX (n_hdr n)" "\<not> int k > int (length (entries_of n))" "eh_entries (n_hdr n) \<noteq> eh_max (n_hdr n)"
    using assms(2,3) node_ok_length [OF assms(1)] by (auto simp: ext_pos_defs endian_defs)
  then show ?thesis using n2 by (intro exI [of _ n1] exI [of _ old] exI [of _ n2]) (simp add: Let_def)
qed

text \<open>
  What \<open>ext4_ext_insert_leaf\<close> does where there is room: the extent is put in front of the entry that the path points to, or
  behind it, whichever its first block asks for.
\<close>

lemma insert_leaf_runs:
  assumes "inode_depth s = Some d" "path_at path d = Some p" "p_header p = Some l" "nodes s l = Some n"
    and "node_ok 0 n" "sint (eh_entries (n_hdr n)) < sint (eh_max (n_hdr n))"
    and "case p_extent p of None \<Rightarrow> entries_of n = [] | Some i \<Rightarrow> 0 \<le> i \<and> nat i < length (entries_of n)"
    and "\<forall>e \<in> set (entries_of n). e_block e \<noteq> e_block newext"
    and "leaf_merge flags (map_option (\<lambda>i. entries_of n ! nat i) (p_extent p)) newext = None"
    and "\<not> bit (ee_start_lo newext) 31" "dirty_marks_only env"
    and corr: "\<And>n3 k. k = insert_pos (entries_of n) (p_extent p) newext \<Longrightarrow> entries_of n3 = take k (entries_of n) @ newext # drop k (entries_of n) \<Longrightarrow>
      node_ok 0 n3 \<Longrightarrow> eh_depth (n_hdr n3) = eh_depth (n_hdr n) \<Longrightarrow>
      \<exists>s'. ext4_ext_correct_indexes env (path[d := p\<lparr>p_extent := Some (case p_extent p of None \<Rightarrow> 0 | Some i \<Rightarrow> i)\<rparr>]) (put_node l n3 s) = Some (EOK, s')
        \<and> nodes s' = M n3 \<and> M n3 l = Some n3"
    and k_pos: "k = insert_pos (entries_of n) (p_extent p) newext"
  shows "\<exists>s' n'. ext4_ext_insert_leaf env path d newext flags s
       = Some (EOK, False, path[d := p\<lparr>p_extent := Some (int k), p_block := ext4_ext_pblk newext\<rparr>], s')
     \<and> nodes s' = M n' \<and> node_ok 0 n' \<and> eh_max (n_hdr n') = eh_max (n_hdr n)
     \<and> entries_of n' = take k (entries_of n) @ newext # drop k (entries_of n) \<and> slot n' (int k) = Some newext"
proof -
  let ?es = "entries_of n" and ?i = "p_extent p"
  note k_def = k_pos
  have k: "k \<le> length ?es" using assms(7) by (auto simp: k_def insert_pos_def split: option.splits)
  obtain n1 old n2 where n1: "make_room (int k) n = Some n1" "n_hdr n1 = n_hdr n" "slot n1 (int k) = Some old"
    and n2: "set_slot (int k) newext n1 = Some n2" "n_hdr n2 = n_hdr n"
    and n3: "entries_of (set_entries (eh_entries (n_hdr n) + 1) n2) = take k ?es @ newext # drop k ?es"
      "node_ok 0 (set_entries (eh_entries (n_hdr n) + 1) n2)" "slot (set_entries (eh_entries (n_hdr n) + 1) n2) (int k) = Some newext"
    and room: "\<not> int k > EXT_MAX (n_hdr n)" "\<not> int k > EXT_LAST (n_hdr (set_entries (eh_entries (n_hdr n) + 1) n2))"
      "eh_entries (n_hdr n) \<noteq> eh_max (n_hdr n)"
    using room_filled [OF assms(5,6) k, of newext] by (auto simp: Let_def)
  let ?n3 = "set_entries (eh_entries (n_hdr n) + 1) n2"
  let ?s = "put_node l ?n3 s"
  let ?p = "p\<lparr>p_extent := Some (case ?i of None \<Rightarrow> 0 | Some i \<Rightarrow> i)\<rparr>"
  obtain s3 where skip: "ext4_ext_correct_indexes env (path[d := ?p]) ?s = Some (EOK, s3)" and s3: "nodes s3 = M ?n3" "M ?n3 l = Some ?n3"
    using corr [OF k_def n3(1,2)] n2(2) by (auto simp: set_entries_def)
  note run = ext4_ext_insert_leaf_def assms(2-4) n1 n2 room copied_extent [OF assms(10)] node_at_def endian_defs
  have eq: "ext4_ext_insert_leaf env path d newext flags s
      = insert_leaf_out (path[d := ?p]) d (Some (int k)) EOK False (snd (ext4_ext_dirty env ?p s3))"
  proof (cases ?i)
    case None
    then have first: "EXT_FIRST = int k" "(case ?i of None \<Rightarrow> 0 | Some i \<Rightarrow> i) = int k" by (simp_all add: k_def insert_pos_def EXT_FIRST_def)
    have "leaf_merge flags None newext = None" using assms(9) None by simp
    with None show ?thesis unfolding first(2)
      by (simp add: run first(1) skip [unfolded first(2)] ext4_ext_dirty_def Let_def)
  next
    case (Some i)
    with assms(7) have i: "0 \<le> i" "nat i < length ?es" by simp_all
    have at: "slot n i = Some (?es ! nat i)" using node_ok_slot [OF assms(5), of i] i by simp
    have "(if u32_lt (le32_to_cpu (e_block (?es ! nat i))) (le32_to_cpu (e_block newext)) then i + 1 else i) = int k"
      using Some i by (simp add: k_def insert_pos_def endian_defs ekey_def)
    moreover have "e_block (?es ! nat i) \<noteq> e_block newext" using assms(8) i(2) nth_mem by blast
    moreover have "leaf_merge flags (Some (?es ! nat i)) newext = None" using assms(9) Some by simp
    moreover have same: "?p = p" using Some by simp
    ultimately show ?thesis using Some at unfolding same
      by (simp add: run skip [unfolded same] ext4_ext_dirty_def entry_at_def Let_def)
  qed
  let ?q = "?p\<lparr>p_extent := Some (int k), p_block := ext4_ext_pblk newext\<rparr>" and ?s' = "snd (ext4_ext_dirty env ?p s3)"
  have nodes: "nodes ?s' = M ?n3"
    by (simp add: dirty_nodes(1) [OF assms(11)] s3(1))
  then have "insert_leaf_out (path[d := ?p]) d (Some (int k)) EOK False ?s' = Some (EOK, False, path[d := ?q], ?s')"
    using n3(3) path_at_update [OF assms(2)] assms(3) s3(2) by (simp add: insert_leaf_out_def entry_at_def node_at_def)
  moreover have "eh_max (n_hdr ?n3) = eh_max (n_hdr n)" using n2(2) by (simp add: set_entries_def)
  ultimately show ?thesis
    unfolding eq using n3 nodes k_def
    by (intro exI [of _ ?s'] exI [of _ ?n3]) simp
qed

lemma insert_leaf_writes_to:
  assumes "inode_depth s = Some d" "path_at path d = Some p" "p_header p = Some l" "nodes s l = Some n"
    and "node_ok 0 n" "ordered (entries_of n)" "sint (eh_entries (n_hdr n)) < sint (eh_max (n_hdr n))"
    and "case p_extent p of None \<Rightarrow> entries_of n = []
      | Some i \<Rightarrow> 0 \<le> i \<and> splits_at (entries_of n) (e_block newext) (nat i)"
    and "\<forall>e \<in> set (entries_of n). e_block e \<noteq> e_block newext"
    and "leaf_merge flags (map_option (\<lambda>i. entries_of n ! nat i) (p_extent p)) newext = None"
    and "\<not> bit (ee_start_lo newext) 31" "dirty_marks_only env"
    and corr: "\<And>n3 k. k = insert_pos (entries_of n) (p_extent p) newext \<Longrightarrow> entries_of n3 = take k (entries_of n) @ newext # drop k (entries_of n) \<Longrightarrow>
      node_ok 0 n3 \<Longrightarrow> eh_depth (n_hdr n3) = eh_depth (n_hdr n) \<Longrightarrow>
      \<exists>s'. ext4_ext_correct_indexes env (path[d := p\<lparr>p_extent := Some (case p_extent p of None \<Rightarrow> 0 | Some i \<Rightarrow> i)\<rparr>]) (put_node l n3 s) = Some (EOK, s')
        \<and> nodes s' = M n3 \<and> M n3 l = Some n3"
  shows "\<exists>k s' n'. ext4_ext_insert_leaf env path d newext flags s
       = Some (EOK, False, path[d := p\<lparr>p_extent := Some (int k), p_block := ext4_ext_pblk newext\<rparr>], s')
     \<and> nodes s' = M n' \<and> node_ok 0 n' \<and> k \<le> length (entries_of n)
     \<and> entries_of n' = take k (entries_of n) @ newext # drop k (entries_of n) \<and> ordered (entries_of n')
     \<and> slot n' (int k) = Some newext
     \<and> k = (case p_extent p of None \<Rightarrow> 0 | Some i \<Rightarrow> if ekey (entries_of n ! nat i) < ekey newext then Suc (nat i) else nat i)"
proof -
  let ?es = "entries_of n" and ?i = "p_extent p"
  define k where "k = insert_pos ?es ?i newext"
  have "case ?i of None \<Rightarrow> ?es = [] | Some i \<Rightarrow> splits_at ?es (e_block newext) (nat i)"
    using assms(8) by (simp split: option.splits)
  note k = insert_pos_ordered [OF assms(6,9) this, folded k_def]
  have "case ?i of None \<Rightarrow> ?es = [] | Some i \<Rightarrow> 0 \<le> i \<and> nat i < length ?es"
    using assms(8) by (auto simp: splits_at_def split: option.splits)
  then have "\<exists>s' n'. ext4_ext_insert_leaf env path d newext flags s
       = Some (EOK, False, path[d := p\<lparr>p_extent := Some (int k), p_block := ext4_ext_pblk newext\<rparr>], s')
     \<and> nodes s' = M n' \<and> node_ok 0 n' \<and> eh_max (n_hdr n') = eh_max (n_hdr n)
     \<and> entries_of n' = take k ?es @ newext # drop k ?es \<and> slot n' (int k) = Some newext"
    by (rule insert_leaf_runs [OF assms(1-5,7) _ assms(9-12) _ k_def]) (rule corr)
  then obtain s' n' where
    "ext4_ext_insert_leaf env path d newext flags s
       = Some (EOK, False, path[d := p\<lparr>p_extent := Some (int k), p_block := ext4_ext_pblk newext\<rparr>], s')"
    "nodes s' = M n'" "node_ok 0 n'" "entries_of n' = take k ?es @ newext # drop k ?es" "slot n' (int k) = Some newext"
    by blast
  with k show ?thesis
    by (intro exI [of _ k] exI [of _ s'] exI [of _ n']) (simp add: k_def insert_pos_def [symmetric])
qed

lemma insert_leaf_writes:
  assumes "inode_depth s = Some d" "path_at path d = Some p" "p_header p = Some l" "nodes s l = Some n"
    and "node_ok 0 n" "ordered (entries_of n)" "sint (eh_entries (n_hdr n)) < sint (eh_max (n_hdr n))"
    and "case p_extent p of None \<Rightarrow> entries_of n = []
      | Some i \<Rightarrow> 0 \<le> i \<and> splits_at (entries_of n) (e_block newext) (nat i)"
    and "\<forall>e \<in> set (entries_of n). e_block e \<noteq> e_block newext"
    and "leaf_merge flags (map_option (\<lambda>i. entries_of n ! nat i) (p_extent p)) newext = None"
    and "\<not> bit (ee_start_lo newext) 31" "dirty_marks_only env"
    and corr: "\<And>n3 k. k = insert_pos (entries_of n) (p_extent p) newext \<Longrightarrow> entries_of n3 = take k (entries_of n) @ newext # drop k (entries_of n) \<Longrightarrow>
      node_ok 0 n3 \<Longrightarrow> eh_depth (n_hdr n3) = eh_depth (n_hdr n) \<Longrightarrow>
      \<exists>s'. ext4_ext_correct_indexes env (path[d := p\<lparr>p_extent := Some (case p_extent p of None \<Rightarrow> 0 | Some i \<Rightarrow> i)\<rparr>]) (put_node l n3 s) = Some (EOK, s')
        \<and> nodes s' = (nodes s)(l \<mapsto> n3)"
  shows "\<exists>k s' n'. ext4_ext_insert_leaf env path d newext flags s
       = Some (EOK, False, path[d := p\<lparr>p_extent := Some (int k), p_block := ext4_ext_pblk newext\<rparr>], s')
     \<and> nodes s' = (nodes s)(l \<mapsto> n') \<and> node_ok 0 n' \<and> k \<le> length (entries_of n)
     \<and> entries_of n' = take k (entries_of n) @ newext # drop k (entries_of n) \<and> ordered (entries_of n')
     \<and> slot n' (int k) = Some newext
     \<and> k = (case p_extent p of None \<Rightarrow> 0 | Some i \<Rightarrow> if ekey (entries_of n ! nat i) < ekey newext then Suc (nat i) else nat i)"
  by (rule insert_leaf_writes_to [where M = "\<lambda>n3. (nodes s)(l \<mapsto> n3)", OF assms(1-12)]) (use assms(13) in auto)

text \<open>Behind the first entry of its leaf, or in a tree without index nodes, the extent needs no index to be changed.\<close>

lemma insert_leaf_inserts:
  assumes "inode_depth s = Some d" "path_at path d = Some p" "p_header p = Some l" "nodes s l = Some n"
    and "node_ok 0 n" "ordered (entries_of n)" "sint (eh_entries (n_hdr n)) < sint (eh_max (n_hdr n))"
    and "case p_extent p of None \<Rightarrow> entries_of n = [] \<and> d = 0
      | Some i \<Rightarrow> 0 \<le> i \<and> splits_at (entries_of n) (e_block newext) (nat i) \<and> (d = 0 \<or> 0 < i)"
    and "\<forall>e \<in> set (entries_of n). e_block e \<noteq> e_block newext"
    and "leaf_merge flags (map_option (\<lambda>i. entries_of n ! nat i) (p_extent p)) newext = None"
    and "\<not> bit (ee_start_lo newext) 31" "dirty_marks_only env"
  shows "\<exists>k s' n'. ext4_ext_insert_leaf env path d newext flags s
       = Some (EOK, False, path[d := p\<lparr>p_extent := Some (int k), p_block := ext4_ext_pblk newext\<rparr>], s')
     \<and> nodes s' = (nodes s)(l \<mapsto> n') \<and> node_ok 0 n' \<and> k \<le> length (entries_of n)
     \<and> entries_of n' = take k (entries_of n) @ newext # drop k (entries_of n) \<and> ordered (entries_of n')
     \<and> slot n' (int k) = Some newext
     \<and> k = (case p_extent p of None \<Rightarrow> 0 | Some i \<Rightarrow> if ekey (entries_of n ! nat i) < ekey newext then Suc (nat i) else nat i)"
proof (rule insert_leaf_writes [OF assms(1-7) _ assms(9-12)])
  show "case p_extent p of None \<Rightarrow> entries_of n = []
      | Some i \<Rightarrow> 0 \<le> i \<and> splits_at (entries_of n) (e_block newext) (nat i)"
    using assms(8) by (simp split: option.splits)
next
  fix n3 k assume "node_ok 0 n3" and depth: "eh_depth (n_hdr n3) = eh_depth (n_hdr n)"
  let ?p = "p\<lparr>p_extent := Some (case p_extent p of None \<Rightarrow> 0 | Some i \<Rightarrow> i)\<rparr>"
  have "inode_depth (put_node l n3 s) = Some d" using assms(1) inode_depth_put_node [OF assms(4) depth] by simp
  then have "ext4_ext_correct_indexes env (path[d := ?p]) (put_node l n3 s) = Some (EOK, put_node l n3 s)"
    using assms(3,8) path_at_update [OF assms(2), of ?p]
    by (intro correct_indexes_skip [of _ d _ ?p "case p_extent p of None \<Rightarrow> 0 | Some i \<Rightarrow> i" l]) (auto split: option.splits)
  then show "\<exists>s'. ext4_ext_correct_indexes env (path[d := ?p]) (put_node l n3 s) = Some (EOK, s') \<and> nodes s' = (nodes s)(l \<mapsto> n3)"
    by (simp add: put_node_def)
qed

text \<open>The same without a demand on the place: the path may point to an entry behind the one to be inserted.\<close>

lemma insert_leaf_beside:
  assumes "inode_depth s = Some d" "path_at path d = Some p" "p_header p = Some l" "nodes s l = Some n"
    and "node_ok 0 n" "sint (eh_entries (n_hdr n)) < sint (eh_max (n_hdr n))"
    and "p_extent p = Some (int i)" "i < length (entries_of n)" "d = 0 \<or> 0 < i"
    and "\<forall>e \<in> set (entries_of n). e_block e \<noteq> e_block newext"
    and "leaf_merge flags (Some (entries_of n ! i)) newext = None"
    and "\<not> bit (ee_start_lo newext) 31" "dirty_marks_only env"
    and "k = (if ekey (entries_of n ! i) < ekey newext then Suc i else i)"
  shows "\<exists>s' n'. ext4_ext_insert_leaf env path d newext flags s
       = Some (EOK, False, path[d := p\<lparr>p_extent := Some (int k), p_block := ext4_ext_pblk newext\<rparr>], s')
     \<and> nodes s' = (nodes s)(l \<mapsto> n') \<and> node_ok 0 n' \<and> eh_max (n_hdr n') = eh_max (n_hdr n)
     \<and> entries_of n' = take k (entries_of n) @ newext # drop k (entries_of n) \<and> slot n' (int k) = Some newext"
proof (rule insert_leaf_runs [where M = "\<lambda>n3. (nodes s)(l \<mapsto> n3)", OF assms(1-6) _ assms(10) _ assms(12,13)])
  fix n3 k' assume "node_ok 0 n3" and depth: "eh_depth (n_hdr n3) = eh_depth (n_hdr n)"
  let ?p = "p\<lparr>p_extent := Some (case p_extent p of None \<Rightarrow> 0 | Some i \<Rightarrow> i)\<rparr>"
  have "inode_depth (put_node l n3 s) = Some d" using assms(1) inode_depth_put_node [OF assms(4) depth] by simp
  then have "ext4_ext_correct_indexes env (path[d := ?p]) (put_node l n3 s) = Some (EOK, put_node l n3 s)"
    using assms(3,7,9) path_at_update [OF assms(2), of ?p]
    by (intro correct_indexes_skip [of _ d _ ?p "int i" l]) auto
  then show "\<exists>s'. ext4_ext_correct_indexes env (path[d := ?p]) (put_node l n3 s) = Some (EOK, s')
      \<and> nodes s' = (nodes s)(l \<mapsto> n3) \<and> ((nodes s)(l \<mapsto> n3)) l = Some n3"
    by (simp add: put_node_def)
qed (use assms(7,8,11,14) in \<open>simp_all add: insert_pos_def\<close>)

text \<open>
  An extent that is not merged and whose block no extent of the leaf starts at is inserted at
  its place: the leaf gets exactly this extent more, stays in order and well-formed, the path points
  to it, and no other node changes, in the root as in a leaf where the extent does not become the first.
\<close>

theorem ext4_insert_leaf_correct:
  assumes "inode_depth s = Some d" "path_at path d = Some p" "p_header p = Some l" "nodes s l = Some n"
    and "node_ok 0 n" "ordered (entries_of n)" "sint (eh_entries (n_hdr n)) < sint (eh_max (n_hdr n))"
    and "case p_extent p of None \<Rightarrow> entries_of n = [] \<and> d = 0
      | Some i \<Rightarrow> 0 \<le> i \<and> splits_at (entries_of n) (e_block newext) (nat i) \<and> (d = 0 \<or> 0 < i)"
    and "\<forall>e \<in> set (entries_of n). e_block e \<noteq> e_block newext"
    and "leaf_merge flags (map_option (\<lambda>i. entries_of n ! nat i) (p_extent p)) newext = None"
    and "\<not> bit (ee_start_lo newext) 31" "dirty_marks_only env"
  shows "\<exists>path' s' n'. ext4_ext_insert_leaf env path d newext flags s = Some (EOK, False, path', s')
     \<and> nodes s' = (nodes s)(l \<mapsto> n') \<and> node_ok 0 n' \<and> ordered (entries_of n')
     \<and> set (entries_of n') = insert newext (set (entries_of n))
     \<and> entry_at s' (p_header (path' ! d)) (p_extent (path' ! d)) = Some newext
     \<and> p_block (path' ! d) = ext4_ext_pblk newext"
proof -
  obtain k s' n' where run: "ext4_ext_insert_leaf env path d newext flags s
       = Some (EOK, False, path[d := p\<lparr>p_extent := Some (int k), p_block := ext4_ext_pblk newext\<rparr>], s')"
    "nodes s' = (nodes s)(l \<mapsto> n')" "node_ok 0 n'" "entries_of n' = take k (entries_of n) @ newext # drop k (entries_of n)"
    "ordered (entries_of n')" "slot n' (int k) = Some newext"
    using insert_leaf_inserts [OF assms] by blast
  have "set (entries_of n') = insert newext (set (entries_of n))"
    unfolding run(4) by simp (metis append_take_drop_id set_append)
  moreover have "path[d := q] ! d = q" for q using assms(2) by (simp add: path_at_def split: if_splits)
  ultimately show ?thesis using run assms(3) by (auto simp: entry_at_def node_at_def)
qed

definition example_leaf :: "unit ext4_state" where
  "example_leaf = example_tree\<lparr>nodes := [Root \<mapsto> example_node 0 4 [example_entry 0 5 1000, example_entry 20 5 2000]]\<rparr>"

theorem ext4_insert_leaf_correct_witness:
  "\<exists>path' s' n'. ext4_ext_insert_leaf example_ext4_env [zero_path\<lparr>p_header := Some Root, p_extent := Some 0\<rparr>] 0
       (example_entry 10 2 5000) EXT4_EXT_NO_COMBINE example_leaf = Some (EOK, False, path', s')
     \<and> nodes s' = (nodes example_leaf)(Root \<mapsto> n')
     \<and> set (entries_of n') = {example_entry 10 2 5000, example_entry 0 5 1000, example_entry 20 5 2000}"
proof -
  let ?n = "example_node 0 4 [example_entry 0 5 1000, example_entry 20 5 2000]"
    and ?path = "[zero_path\<lparr>p_header := Some Root, p_extent := Some 0\<rparr>]"
  have root: "nodes example_leaf Root = Some ?n" by (simp add: example_leaf_def)
  have depth: "inode_depth example_leaf = Some 0"
    by (simp add: inode_depth_def root example_node_def ext_depth_def endian_defs)
  have n: "node_ok 0 ?n" "entries_of ?n = [example_entry 0 5 1000, example_entry 20 5 2000]"
    by (rule example_node_ok; simp)+
  have ord: "ordered (entries_of ?n)" by (simp add: n(2) ordered_def ekey_def)
  have room: "sint (eh_entries (n_hdr ?n)) < sint (eh_max (n_hdr ?n))" by (simp add: example_node_def)
  have path: "path_at ?path 0 = Some (zero_path\<lparr>p_header := Some Root, p_extent := Some 0\<rparr>)" by (simp add: path_at_def)
  have split: "splits_at (entries_of ?n) (e_block (example_entry 10 2 5000)) 0"
    by (auto simp: splits_at_def n(2) ekey_def nth_Cons split: nat.split)
  have "\<not> bit (ee_start_lo (example_entry 10 2 5000)) 31"
    by (simp add: example_entry_def pblk_accessors)
  moreover have "dirty_marks_only example_ext4_env" by (simp add: dirty_marks_only_def example_ext4_env_def)
  moreover have "leaf_merge EXT4_EXT_NO_COMBINE e newext = None" for e newext
    by (simp add: leaf_merge_def EXT4_EXT_NO_COMBINE_def split: option.split)
  ultimately show ?thesis
    using ext4_insert_leaf_correct [OF depth path _ root n(1) ord room, of "example_entry 10 2 5000" EXT4_EXT_NO_COMBINE example_ext4_env]
      split n(2) by (simp add: zero_path_def insert_commute) blast
qed

end
