(* ===== verification/Ext4_Extent_Grow.thy ===== *)
theory Ext4_Extent_Grow
  imports Ext4_Extent_Insert
begin

text \<open>
  \<open>ext4_extent.c\<close>, lines 551 to 686 and 893 to 1059: splitting full nodes, growing the tree by a level,
  and inserting an extent with both, and the proof that growing the tree keeps its extents.
\<close>

section \<open>Growing\<close>

text \<open>
  The 60 bytes of the root are copied over the first bytes of the block: its header and as many
  entries as the root has room for.
\<close>

definition copy_root :: "ext4_node \<Rightarrow> ext4_node \<Rightarrow> ext4_node option" where
  "copy_root root n = do {
     check (length (n_slots root) \<le> length (n_slots n));
     Some (n\<lparr>n_hdr := n_hdr root, n_slots := n_slots root @ drop (length (n_slots root)) (n_slots n)\<rparr>)
   }"

text \<open>The root after its entries have moved to \<open>newblock\<close>.\<close>

definition grown_root :: "ext4_fsblk_t \<Rightarrow> ext4_node \<Rightarrow> ext4_node option" where
  "grown_root newblock root = do {
     let root = set_entries (cpu_to_le16 1) root;
     ix \<leftarrow> slot root EXT_FIRST;
     root \<leftarrow> set_slot EXT_FIRST (ext4_idx_store_pblk newblock ix) root;
     let hdr = n_hdr root;
     let hdr = (if eh_depth hdr = 0 then hdr\<lparr>eh_max := cpu_to_le16 ext4_ext_space_root_idx\<rparr> else hdr);
     Some (root\<lparr>n_hdr := hdr\<lparr>eh_depth := cpu_to_le16 (le16_to_cpu (eh_depth hdr) + 1)\<rparr>\<rparr>)
   }"

definition ext4_ext_grow_indepth :: "'w ext4_env \<Rightarrow> 'w ext4_state \<Rightarrow> (errno \<times> 'w ext4_state) option" where
  "ext4_ext_grow_indepth env s = do {
     depth \<leftarrow> inode_depth s;
     goal \<leftarrow> (if depth \<noteq> 0 then map_option ext4_idx_pblk (entry_at s (Some Root) (Some EXT_FIRST))
             else Some (ext4_fs_inode_to_goal_block env s));
     let (newblock, _, err, s) = ext4_new_meta_blocks env goal None s;
     if newblock = 0 then Some (err, s)
     else do {
       let (err, bh, s) = ext4_trans_block_get_noread env newblock 0 s;
       if err \<noteq> EOK then Some (err, ext4_ext_free_blocks env newblock 1 s)
       else do {
         root \<leftarrow> nodes s Root;
         n \<leftarrow> nodes s (Blk bh);
         n \<leftarrow> copy_root root n;
         depth \<leftarrow> inode_depth s;
         let n = n\<lparr>n_hdr := (n_hdr n)\<lparr>
           eh_max := cpu_to_le16 (if depth \<noteq> 0 then ext4_ext_space_block_idx env else ext4_ext_space_block env),
           eh_magic := EXT4_EXT_MAGIC\<rparr>\<rparr>;
         n \<leftarrow> ext4_extent_block_csum_set env n;
         root \<leftarrow> grown_root newblock root;
         let s = ext4_trans_set_block_dirty env bh (put_node Root root (put_node (Blk bh) n s));
         let (_, _, s) = ext4_block_set env bh (s\<lparr>inode_dirty := True\<rparr>);
         Some (err, s)
       }
     }
   }"

section \<open>Splitting\<close>

text \<open>\<open>memmove\<close> of \<open>len\<close> entries from slot \<open>from\<close> of one node to slot \<open>to\<close> of another.\<close>

definition copy_slots :: "ext4_node \<Rightarrow> int \<Rightarrow> int \<Rightarrow> int \<Rightarrow> ext4_node \<Rightarrow> ext4_node option" where
  "copy_slots src from to len n =
    (if 0 \<le> len \<and> 0 \<le> from \<and> from + len \<le> int (length (n_slots src)) \<and> 0 \<le> to \<and> to + len \<le> int (length (n_slots n))
     then Some (n\<lparr>n_slots := take (nat to) (n_slots n) @ take (nat len) (drop (nat from) (n_slots src)) @
                 drop (nat (to + len)) (n_slots n)\<rparr>)
     else None)"

definition add_entries :: "int \<Rightarrow> ext4_node \<Rightarrow> ext4_node" where
  "add_entries m n = set_entries (cpu_to_le16 (le16_to_cpu (eh_entries (n_hdr n)) + of_int m)) n"

text \<open>
  The entries behind slot \<open>i\<close> of \<open>old\<close> move to slot \<open>to\<close> of \<open>new\<close>.  How many there are is counted up to
  the last slot the node has room for, so the code relies on the node being full.
\<close>

definition move_tail :: "ext4_node \<Rightarrow> int \<Rightarrow> int \<Rightarrow> ext4_node \<Rightarrow> (ext4_node \<times> ext4_node) option" where
  "move_tail old i to new =
    (let m = EXT_MAX (n_hdr old) - i in
     if m \<noteq> 0 then do {
       new \<leftarrow> copy_slots old (i + 1) to m new;
       Some (add_entries (- m) old, add_entries m new)
     } else Some (old, new))"

text \<open>
  One level of the split: the new block, its node and its path element.  The result is the error, the
  block that is to be freed on an error, the path of the new nodes and the state.  A new block that is
  the node to be split is taken for a fault.
\<close>

definition split_level :: "'w ext4_env \<Rightarrow> nat \<Rightarrow> nat \<Rightarrow> u32 \<Rightarrow> ext4_entry \<Rightarrow> nat \<Rightarrow> ext4_extent_path list \<Rightarrow>
    ext4_extent_path list \<Rightarrow> 'w ext4_state \<Rightarrow> (errno \<times> ext4_fsblk_t \<times> ext4_extent_path list \<times> 'w ext4_state) option" where
  "split_level env depth at insert_index newext i path npath s = do {
     (newblock, ret, s) \<leftarrow> ext4_ext_new_meta_block env (Some path) newext s;
     if ret \<noteq> EOK then Some (ret, newblock, npath, s)
     else do {
       let (ret, bh, s) = ext4_trans_block_get_noread env newblock 0 s;
       if ret \<noteq> EOK then Some (ret, newblock, npath, s)
       else do {
         p \<leftarrow> path_at path i;
         l \<leftarrow> p_header p;
         old \<leftarrow> nodes s l;
         new \<leftarrow> nodes s (Blk bh);
         check (l \<noteq> Blk bh);
         if i = depth then do {
           ex \<leftarrow> p_extent p;
           let m = EXT_MAX (n_hdr old) - ex;
           (old, new) \<leftarrow> move_tail old ex 0 (ext4_ext_init_header env depth 0 new);
           let s = put_node (Blk bh) new (put_node l old s);
           let (ret, s) = (if m \<noteq> 0 then ext4_ext_dirty env p s else (EOK, s));
           if ret \<noteq> EOK then Some (ret, newblock, npath, s)
           else do {
             first \<leftarrow> (if m \<noteq> 0 then map_option Some (slot new 0) else Some None);
             check (i - at < length npath);
             Some (EOK, newblock, npath[i - at := \<lparr>p_block = (case first of None \<Rightarrow> 0 | Some e \<Rightarrow> ext4_ext_pblk e),
                 p_lb_id = bh, p_depth = sint (le16_to_cpu (eh_depth (n_hdr new))), p_maxdepth = 0,
                 p_header = Some (Blk bh), p_index = None, p_extent = map_option (\<lambda>_. 0) first\<rparr>],
               ext4_trans_set_block_dirty env bh s)
           }
         } else do {
           ix \<leftarrow> p_index p;
           let m = EXT_MAX (n_hdr old) - ix;
           below \<leftarrow> path_at npath (i - at + 1);
           let new = ext4_ext_init_header env depth (depth - i) new;
           first \<leftarrow> slot new 0;
           new \<leftarrow> set_slot 0 (ext4_idx_store_pblk (p_lb_id below) (first\<lparr>e_block := cpu_to_le32 insert_index\<rparr>)) new;
           (old, new) \<leftarrow> move_tail old ix 1 (set_entries (cpu_to_le16 1) new);
           let s = put_node (Blk bh) new (put_node l old s);
           let (ret, s) = (if m \<noteq> 0 then ext4_ext_dirty env p s else (EOK, s));
           if ret \<noteq> EOK then Some (ret, newblock, npath, s)
           else do {
             first \<leftarrow> slot new 0;
             Some (EOK, newblock, npath[i - at := \<lparr>p_block = ext4_idx_pblk first, p_lb_id = bh,
                 p_depth = sint (le16_to_cpu (eh_depth (n_hdr new))), p_maxdepth = 0, p_header = Some (Blk bh),
                 p_index = Some 0, p_extent = None\<rparr>],
               ext4_trans_set_block_dirty env bh s)
           }
         }
       }
     }
   }"

text \<open>The levels from \<open>at + k\<close> up to \<open>at\<close>; on an error \<open>newblock\<close> is what is to be freed.\<close>

fun split_loop :: "'w ext4_env \<Rightarrow> nat \<Rightarrow> nat \<Rightarrow> u32 \<Rightarrow> ext4_entry \<Rightarrow> nat \<Rightarrow> ext4_extent_path list \<Rightarrow>
    ext4_extent_path list \<Rightarrow> 'w ext4_state \<Rightarrow> (errno \<times> ext4_fsblk_t \<times> ext4_extent_path list \<times> 'w ext4_state) option" where
  "split_loop env depth at insert_index newext 0 path npath s = Some (EOK, 0, npath, s)"
| "split_loop env depth at insert_index newext (Suc k) path npath s = do {
     (ret, newblock, npath, s) \<leftarrow> split_level env depth at insert_index newext (at + k) path npath s;
     if ret \<noteq> EOK then Some (ret, newblock, npath, s)
     else split_loop env depth at insert_index newext k path npath s
   }"

text \<open>The cleanup: the blocks of the new path elements from the last one down are released and freed.\<close>

fun split_cleanup :: "'w ext4_env \<Rightarrow> nat \<Rightarrow> ext4_extent_path list \<Rightarrow> 'w ext4_state \<Rightarrow> (ext4_extent_path list \<times> 'w ext4_state) option" where
  "split_cleanup env 0 npath s = Some (npath, s)"
| "split_cleanup env (Suc k) npath s = do {
     p \<leftarrow> path_at npath k;
     let (npath, s) = (if p_lb_id p \<noteq> 0 then
         let (_, _, s) = ext4_block_set env (p_lb_id p) s
         in (npath[k := p\<lparr>p_lb_id := 0\<rparr>], ext4_ext_free_blocks env (p_lb_id p) 1 s)
       else (npath, s));
     split_cleanup env k npath s
   }"

text \<open>The error, the two paths, \<open>*ins_right_leaf\<close> and the state.\<close>

definition ext4_ext_split_node :: "'w ext4_env \<Rightarrow> ext4_extent_path list \<Rightarrow> nat \<Rightarrow> ext4_entry \<Rightarrow> ext4_extent_path list \<Rightarrow> bool \<Rightarrow>
    'w ext4_state \<Rightarrow> (errno \<times> ext4_extent_path list \<times> ext4_extent_path list \<times> bool \<times> 'w ext4_state) option" where
  "ext4_ext_split_node env path at newext npath ins_right_leaf s = do {
     depth \<leftarrow> inode_depth s;
     check (at > 0);
     leaf \<leftarrow> path_at path depth;
     n \<leftarrow> node_at s (p_header leaf);
     insert_index \<leftarrow> (if p_extent leaf \<noteq> Some (EXT_MAX (n_hdr n))
        then do { i \<leftarrow> p_extent leaf; e \<leftarrow> slot n (i + 1); Some (e_block e) }
        else Some (e_block newext));
     (ret, newblock, npath, s) \<leftarrow> split_loop env depth at insert_index newext (Suc depth - at) path npath s;
     (ret, path, ins_right_leaf, s) \<leftarrow> (if ret \<noteq> EOK then Some (ret, path, ins_right_leaf, s)
        else do {
          let ins_right_leaf = (\<not> u32_lt (le32_to_cpu (e_block newext)) insert_index);
          np \<leftarrow> path_at npath 0;
          (ret, path, s) \<leftarrow> ext4_ext_insert_index env path (at - 1) insert_index (p_lb_id np) ins_right_leaf s;
          Some (ret, path, ins_right_leaf, s)
        });
     if ret = EOK then Some (ret, path, npath, ins_right_leaf, s)
     else do {
       let s = (if newblock \<noteq> 0 then ext4_ext_free_blocks env newblock 1 s else s);
       (npath, s) \<leftarrow> split_cleanup env (Suc depth - at) npath s;
       Some (ret, path, npath, ins_right_leaf, s)
     }
   }"

section \<open>Inserting an extent\<close>

text \<open>\<open>newpath\<close> is an element of the array of new elements, which is cleared there.\<close>

definition ext4_ext_replace_path :: "'w ext4_env \<Rightarrow> ext4_extent_path list \<Rightarrow> ext4_extent_path list \<Rightarrow> nat \<Rightarrow> nat \<Rightarrow>
    'w ext4_state \<Rightarrow> (ext4_extent_path list \<times> ext4_extent_path list \<times> 'w ext4_state) option" where
  "ext4_ext_replace_path env path npath level at s = do {
     (path, s) \<leftarrow> ext4_ext_drop_refs env path at True s;
     np \<leftarrow> path_at npath level;
     check (at < length path);
     Some (path[at := np], npath[level := zero_path], s)
   }"

text \<open>The levels below the split, from \<open>level - 1\<close> down to 0.\<close>

fun take_new_path :: "'w ext4_env \<Rightarrow> bool \<Rightarrow> nat \<Rightarrow> nat \<Rightarrow> ext4_extent_path list \<Rightarrow> ext4_extent_path list \<Rightarrow> 'w ext4_state \<Rightarrow>
    (ext4_extent_path list \<times> ext4_extent_path list \<times> 'w ext4_state) option" where
  "take_new_path env ins_right_leaf i 0 path npath s = Some (path, npath, s)"
| "take_new_path env ins_right_leaf i (Suc level) path npath s = do {
     np \<leftarrow> path_at npath level;
     (path, npath, s) \<leftarrow>
       (if ins_right_leaf then ext4_ext_replace_path env path npath level (i + level) s
        else if p_lb_id np \<noteq> 0 then do {
          (npath, s) \<leftarrow> ext4_ext_drop_refs env npath level True s;
          Some (path, npath, s)
        } else Some (path, npath, s));
     take_new_path env ins_right_leaf i level path npath s
   }"

text \<open>
  How many levels from the leaf up have a full node: the \<open>level\<close> at which the search for a free
  entry stops, and whether it has found one.
\<close>

fun full_levels :: "'w ext4_state \<Rightarrow> ext4_extent_path list \<Rightarrow> nat \<Rightarrow> nat \<Rightarrow> (nat \<times> bool) option" where
  "full_levels s path 0 level = do {
     p \<leftarrow> path_at path 0;
     n \<leftarrow> node_at s (p_header p);
     Some (if EXT_HAS_FREE_INDEX (n_hdr n) then (level, True) else (Suc level, False))
   }"
| "full_levels s path (Suc i) level = do {
     p \<leftarrow> path_at path (Suc i);
     n \<leftarrow> node_at s (p_header p);
     if EXT_HAS_FREE_INDEX (n_hdr n) then Some (level, True) else full_levels s path i (Suc level)
   }"

text \<open>
  The end of the function: on an error the references are dropped; of the new elements below
  \<open>level\<close> the blocks are freed.
\<close>

fun drop_new_path :: "'w ext4_env \<Rightarrow> nat \<Rightarrow> ext4_extent_path list \<Rightarrow> 'w ext4_state \<Rightarrow> 'w ext4_state option" where
  "drop_new_path env 0 npath s = Some s"
| "drop_new_path env (Suc level) npath s = do {
     np \<leftarrow> path_at npath level;
     (npath, s) \<leftarrow> (if p_lb_id np \<noteq> 0
        then ext4_ext_drop_refs env npath level True (ext4_ext_free_blocks env (p_lb_id np) 1 s)
        else Some (npath, s));
     drop_new_path env level npath s
   }"

definition insert_extent_out :: "'w ext4_env \<Rightarrow> errno \<Rightarrow> nat \<Rightarrow> ext4_extent_path list \<Rightarrow> ext4_extent_path list option \<Rightarrow>
    'w ext4_state \<Rightarrow> (errno \<times> ext4_extent_path list \<times> 'w ext4_state) option" where
  "insert_extent_out env ret level path npath s =
    (if ret = EOK then Some (ret, path, s)
     else do {
       (path, s) \<leftarrow> ext4_ext_drop_refs env path 0 False s;
       s \<leftarrow> (case npath of None \<Rightarrow> Some s | Some npath \<Rightarrow> drop_new_path env level npath s);
       Some (ret, path, s)
     })"

text \<open>
  One round from \<open>again\<close> on: \<open>Inl\<close> is the return with the error, the path and the state, \<open>Inr\<close> the
  next round with the path, the new elements and the state.  When the search after growing the tree fails
  it frees the path, which the code then still uses: a fault.
\<close>

definition insert_extent_round :: "'w ext4_env \<Rightarrow> ext4_entry \<Rightarrow> 32 word \<Rightarrow>
    ext4_extent_path list \<times> ext4_extent_path list option \<times> bool \<times> 'w ext4_state \<Rightarrow>
    ((errno \<times> ext4_extent_path list \<times> 'w ext4_state) +
     (ext4_extent_path list \<times> ext4_extent_path list option \<times> bool \<times> 'w ext4_state)) option" where
  "insert_extent_round env newext flags = (\<lambda>(path, npath, ins_right_leaf, s). do {
     depth \<leftarrow> inode_depth s;
     (ret, need_split, path, s) \<leftarrow> ext4_ext_insert_leaf env path depth newext flags s;
     if \<not> (ret = EIO \<and> need_split) then map_option Inl (insert_extent_out env ret 0 path npath s)
     else do {
       (level, free) \<leftarrow> full_levels s path depth 0;
       (ret, path, depth, level, s) \<leftarrow>
         (if free then Some (EOK, path, depth, level, s)
          else do {
            (ret, s) \<leftarrow> ext4_ext_grow_indepth env s;
            if ret \<noteq> EOK then Some (ret, path, depth, level, s)
            else do {
              (ret, ppath, s) \<leftarrow> ext4_find_extent env (le32_to_cpu (e_block newext)) (Some path) s;
              path \<leftarrow> ppath;
              Some (ret, path, Suc depth, level - 1, s)
            }
          });
       if ret \<noteq> EOK then map_option Inl (insert_extent_out env ret level path npath s)
       else if level = 0 then Some (Inr (path, npath, ins_right_leaf, s))
       else if \<not> calloc_ok env s level then map_option Inl (insert_extent_out env ENOMEM level path None s)
       else do {
         let i = Suc depth - level;
         (ret, path, new, ins_right_leaf, s) \<leftarrow>
           ext4_ext_split_node env path i newext (replicate level zero_path) ins_right_leaf s;
         if ret \<noteq> EOK then map_option Inl (insert_extent_out env ret level path (Some new) s)
         else do {
           (path, new, s) \<leftarrow> take_new_path env ins_right_leaf i level path new s;
           Some (Inr (path, Some new, ins_right_leaf, s))
         }
       }
     }
   })"

partial_function (option) insert_extent_loop :: "'w ext4_env \<Rightarrow> ext4_entry \<Rightarrow> 32 word \<Rightarrow>
    ext4_extent_path list \<times> ext4_extent_path list option \<times> bool \<times> 'w ext4_state \<Rightarrow>
    (errno \<times> ext4_extent_path list \<times> 'w ext4_state) option" where
  "insert_extent_loop env newext flags r = do {
     r' \<leftarrow> insert_extent_round env newext flags r;
     case r' of Inl out \<Rightarrow> Some out | Inr r'' \<Rightarrow> insert_extent_loop env newext flags r''
   }"

lemma insert_extent_loop_code [code]:
  "insert_extent_loop env newext flags r = (case insert_extent_round env newext flags r of None \<Rightarrow> None
     | Some r' \<Rightarrow> (case r' of Inl out \<Rightarrow> Some out | Inr r'' \<Rightarrow> insert_extent_loop env newext flags r''))"
  by (subst insert_extent_loop.simps) (auto split: option.splits sum.splits bind_splits)

text \<open>The path is the array that \<open>*ppath\<close> points to.\<close>

definition ext4_ext_insert_extent :: "'w ext4_env \<Rightarrow> ext4_extent_path list \<Rightarrow> ext4_entry \<Rightarrow> 32 word \<Rightarrow> 'w ext4_state \<Rightarrow>
    (errno \<times> ext4_extent_path list \<times> 'w ext4_state) option" where
  "ext4_ext_insert_extent env path newext flags s = insert_extent_loop env newext flags (path, None, False, s)"

section \<open>Growing keeps the extents\<close>

text \<open>The nodes of a subtree, and that the subtree depends on nothing else.\<close>

primrec nodes_below :: "nat \<Rightarrow> (loc \<rightharpoonup> ext4_node) \<Rightarrow> loc \<Rightarrow> loc set" where
  "nodes_below 0 m l = {l}"
| "nodes_below (Suc d) m l = insert l (case m l of None \<Rightarrow> {}
     | Some n \<Rightarrow> \<Union>ix \<in> set (entries_of n). nodes_below d m (child ix))"

lemma subtree_frame:
  assumes "\<forall>l' \<in> nodes_below d m l. m' l' = m l'"
  shows "extents_below d m' l = extents_below d m l \<and> tree_ok d m' l = tree_ok d m l \<and> nodes_below d m' l = nodes_below d m l"
  using assms
proof (induction d arbitrary: l)
  case (Suc d)
  have l: "m' l = m l" using Suc.prems by simp
  show ?case
  proof (cases "m l")
    case None
    then show ?thesis using l by simp
  next
    case (Some n)
    have "extents_below d m' (child ix) = extents_below d m (child ix) \<and> tree_ok d m' (child ix) = tree_ok d m (child ix)
        \<and> nodes_below d m' (child ix) = nodes_below d m (child ix)" if "ix \<in> set (entries_of n)" for ix
      using that Suc.prems Some by (intro Suc.IH) auto
    then show ?thesis using Some l by (auto intro!: arg_cong [where f = concat] map_cong)
  qed
qed simp

lemma root_not_below_child: "Root \<notin> nodes_below d m (Blk b)"
  by (induction d arbitrary: b) (auto simp: child_def split: option.splits)

text \<open>The functions that mark and release blocks change no node.\<close>

definition block_layer_ok :: "'w ext4_env \<Rightarrow> bool" where
  "block_layer_ok env \<longleftrightarrow> dirty_marks_only env \<and> (\<forall>b s. nodes (snd (snd (ext4_block_set env b s))) = nodes s)"

lemma entries_nonempty_slot:
  assumes "entries_of n \<noteq> []"
  shows "slot n 0 = Some (hd (entries_of n))" "n_slots n = hd (entries_of n) # tl (n_slots n)"
proof -
  have "n_slots n \<noteq> []" using assms by (auto simp: entries_of_def)
  then show "n_slots n = hd (entries_of n) # tl (n_slots n)" using assms by (simp add: entries_of_def hd_take)
  then show "slot n 0 = Some (hd (entries_of n))" by (metis (no_types) slot_def list.sel(1) length_greater_0_conv list.distinct(1) nat_zero_as_int nth_Cons_0 of_nat_0_less_iff order_refl)
qed

lemma grown_root_ok:
  assumes "node_ok d root" "length (n_slots root) = 4" "entries_of root \<noteq> []" "\<not> bit b 31" "drop_bit 47 b = 0" "d < 65535"
  shows "\<exists>root' ix. grown_root b root = Some root' \<and> node_ok (Suc d) root' \<and> entries_of root' = [ix]
    \<and> ext4_idx_pblk ix = b \<and> e_block ix = e_block (hd (entries_of root)) \<and> unat (ext_depth (n_hdr root')) = Suc d
    \<and> length (n_slots root') = 4"
proof -
  obtain e r where S: "n_slots root = e # r" "hd (entries_of root) = e" "length r = 3"
  proof (rule that)
    show "n_slots root = hd (entries_of root) # tl (n_slots root)" by (rule entries_nonempty_slot(2) [OF assms(3)])
    show "length (tl (n_slots root)) = 3" using assms(2) by simp
  qed (rule refl)
  let ?ix = "ext4_idx_store_pblk b e"
  have ix: "ext4_idx_pblk ?ix = b" "e_block ?ix = e_block e"
    using join_pblk_parts [OF assms(4,5)] by (simp_all add: pblk_accessors)
  have depth: "unat (of_nat d + 1 :: u16) = Suc d"
    using assms(6) by (simp add: unat_word_ariths unsigned_of_nat take_bit_nat_eq_self)
  let ?h = "n_hdr root"
  let ?root = "root\<lparr>n_slots := ?ix # r,
     n_hdr := ?h\<lparr>eh_entries := 1, eh_max := (if eh_depth ?h = 0 then 4 else eh_max ?h), eh_depth := eh_depth ?h + 1\<rparr>\<rparr>"
  have "grown_root b root = Some ?root"
    using S by (simp add: grown_root_def set_entries_def slot_def set_slot_def EXT_FIRST_def endian_defs Let_def
        ext4_ext_space_root_idx_def)
  moreover have "node_ok (Suc d) ?root"
  proof -
    have "sint (eh_max ?h) \<noteq> 0" "0 \<le> sint (eh_max ?h)" using assms(1) by (auto simp: node_ok_def signed_eq_0_iff)
    then have "1 \<le> sint (eh_max ?h)" by linarith
    then show ?thesis using assms(1,2) S(3) by (auto simp: node_ok_def)
  qed
  moreover have "entries_of ?root = [?ix]" by (simp add: entries_of_def)
  moreover have "unat (ext_depth (n_hdr ?root)) = Suc d"
    using assms(1) depth by (simp add: ext_depth_def endian_defs node_ok_def)
  ultimately show ?thesis using ix S(2,3) by (intro exI [of _ ?root] exI [of _ ?ix]) simp
qed

lemma moved_root_ok:
  assumes "node_ok d root" "length (n_slots root) = 4" "int (length (n_slots n)) = sint room" "4 \<le> sint room"
  shows "\<exists>n1 n2. copy_root root n = Some n1
    \<and> ext4_extent_block_csum_set env (n1\<lparr>n_hdr := (n_hdr n1)\<lparr>eh_max := cpu_to_le16 room, eh_magic := EXT4_EXT_MAGIC\<rparr>\<rparr>) = Some n2
    \<and> node_ok d n2 \<and> entries_of n2 = entries_of root \<and> eh_max (n_hdr n2) = room"
proof -
  have len: "4 \<le> length (n_slots n)" using assms(3,4) by linarith
  have "room \<noteq> 0" using assms(4) by auto
  then show ?thesis using assms len
    by (auto simp: copy_root_def ext4_extent_block_csum_set_def Let_def endian_defs node_ok_def entries_of_def)
qed

lemma grow_tree:
  assumes m: "tree_ok d m Root" "m Root = Some root" "extents_below d m Root \<noteq> []" "Blk b \<notin> nodes_below d m Root"
    and "node_ok (Suc d) root'" "entries_of root' = [ix]" "ext4_idx_pblk ix = b" "b \<noteq> 0"
    and "e_block ix = e_block (hd (entries_of root))" "node_ok d n'" "entries_of n' = entries_of root"
  defines "m' \<equiv> m(Blk b \<mapsto> n', Root \<mapsto> root')"
  shows "tree_ok (Suc d) m' Root" "extents_below (Suc d) m' Root = extents_below d m Root"
proof -
  have at: "m' Root = Some root'" "m' (Blk b) = Some n'" by (simp_all add: m'_def)
  have sub: "extents_below d m' (Blk b) = extents_below d m Root \<and> tree_ok d m' (Blk b)"
  proof (cases d)
    case 0
    then show ?thesis using assms(2,10,11) at by simp
  next
    case (Suc k)
    have "extents_below k m' (child jx) = extents_below k m (child jx) \<and> tree_ok k m' (child jx) = tree_ok k m (child jx)
        \<and> nodes_below k m' (child jx) = nodes_below k m (child jx)" if "jx \<in> set (entries_of root)" for jx
    proof (rule subtree_frame, rule ballI)
      fix l assume "l \<in> nodes_below k m (child jx)"
      then have "l \<noteq> Root" "l \<noteq> Blk b"
        using root_not_below_child [of k m] m(2,4) Suc that by (auto simp: child_def)
      then show "m' l = m l" by (simp add: m'_def)
    qed
    then show ?thesis using m(1,2) at(2) assms(10,11) Suc by (auto intro!: arg_cong [where f = concat] map_cong)
  qed
  show "extents_below (Suc d) m' Root = extents_below d m Root"
    using at(1) sub assms(6,7) by (simp add: child_def)
  have "e_block (hd (extents_below d m Root)) = e_block (hd (entries_of root))"
  proof (cases d)
    case (Suc k)
    then obtain jx xs where "entries_of root = jx # xs" using m(1,2) by (cases "entries_of root") auto
    then show ?thesis using m(1,2) Suc by simp
  qed (use m(2) in simp)
  then show "tree_ok (Suc d) m' Root" using at(1) sub assms(3,5-9) by (simp add: child_def)
qed

text \<open>The node that takes over the entries of the root, and the block that the search for a new one starts at.\<close>

definition grow_goal :: "'w ext4_env \<Rightarrow> nat \<Rightarrow> ext4_node \<Rightarrow> 'w ext4_state \<Rightarrow> ext4_fsblk_t" where
  "grow_goal env d root s = (if d \<noteq> 0 then ext4_idx_pblk (hd (entries_of root)) else ext4_fs_inode_to_goal_block env s)"

lemma grow_runs:
  assumes "inode_depth s = Some d" "d < 65535" "tree_ok d (nodes s) Root" "extents_below d (nodes s) Root \<noteq> []"
    and "nodes s Root = Some root" "length (n_slots root) = 4" "block_layer_ok env"
    and "ext4_balloc_alloc_block env (grow_goal env d root s) 0 s = (EOK, b, s1)" "nodes s1 = nodes s"
    and "ext4_trans_block_get_noread env b 0 s1 = (EOK, b, s2)" "nodes s2 = (nodes s)(Blk b \<mapsto> n)"
    and "b \<noteq> 0" "\<not> bit b 31" "drop_bit 47 b = 0" "Blk b \<notin> nodes_below d (nodes s) Root"
    and "int (length (n_slots n)) = sint (ext4_ext_space_block env)" "4 \<le> length (n_slots n)"
  shows "\<exists>root' ix n' s'. ext4_ext_grow_indepth env s = Some (EOK, s') \<and> inode_depth s' = Some (Suc d)
     \<and> nodes s' = (nodes s)(Blk b \<mapsto> n', Root \<mapsto> root') \<and> world s' = world (snd (snd (ext4_block_set env b
          ((ext4_trans_set_block_dirty env b (put_node Root root' (put_node (Blk b) n' s2)))\<lparr>inode_dirty := True\<rparr>))))
     \<and> node_ok (Suc d) root' \<and> entries_of root' = [ix] \<and> ext4_idx_pblk ix = b
     \<and> node_ok d n' \<and> entries_of n' = entries_of root \<and> eh_max (n_hdr n') = ext4_ext_space_block env
     \<and> tree_ok (Suc d) (nodes s') Root \<and> extents_below (Suc d) (nodes s') Root = extents_below d (nodes s) Root"
proof -
  have root: "node_ok d root" "entries_of root \<noteq> []" using assms(3,4,5) by (cases d; auto)+
  obtain root' ix where r: "grown_root b root = Some root'" "node_ok (Suc d) root'" "entries_of root' = [ix]"
    "ext4_idx_pblk ix = b" "e_block ix = e_block (hd (entries_of root))" "unat (ext_depth (n_hdr root')) = Suc d"
    using grown_root_ok [OF root(1) assms(6) root(2) assms(13,14,2)] by blast
  have room: "ext4_ext_space_block_idx env = ext4_ext_space_block env"
    by (simp add: ext4_ext_space_block_def ext4_ext_space_block_idx_def)
  obtain n1 n2 where n: "copy_root root n = Some n1"
    "ext4_extent_block_csum_set env (n1\<lparr>n_hdr := (n_hdr n1)\<lparr>eh_max := cpu_to_le16 (ext4_ext_space_block env), eh_magic := EXT4_EXT_MAGIC\<rparr>\<rparr>) = Some n2"
    "node_ok d n2" "entries_of n2 = entries_of root" "eh_max (n_hdr n2) = ext4_ext_space_block env"
    using moved_root_ok [OF root(1) assms(6,16)] assms(16,17) by fastforce
  let ?s' = "snd (snd (ext4_block_set env b
      ((ext4_trans_set_block_dirty env b (put_node Root root' (put_node (Blk b) n2 s2)))\<lparr>inode_dirty := True\<rparr>)))"
  let ?m = "(nodes s)(Blk b \<mapsto> n2, Root \<mapsto> root')"
  have "inode_depth s2 = Some d" using assms(1,11) by (simp add: inode_depth_def)
  moreover have "(if d \<noteq> 0 then map_option ext4_idx_pblk (entry_at s (Some Root) (Some EXT_FIRST))
             else Some (ext4_fs_inode_to_goal_block env s)) = Some (grow_goal env d root s)"
    using entries_nonempty_slot(1) [OF root(2)] assms(5) by (simp add: grow_goal_def entry_at_def node_at_def EXT_FIRST_def)
  moreover have "(if d \<noteq> 0 then ext4_ext_space_block_idx env else ext4_ext_space_block env) = ext4_ext_space_block env"
    by (simp add: room)
  ultimately have grow: "ext4_ext_grow_indepth env s = Some (EOK, ?s')"
    using assms(1,5,8,10-12) n(1,2) r(1)
    by (simp add: ext4_ext_grow_indepth_def ext4_new_meta_blocks_def ext4_allocate_single_block_def split: prod.split)
  have s': "nodes ?s' = ?m"
    using assms(7,11) by (simp add: block_layer_ok_def dirty_marks_only_def put_node_def)
  note tree = grow_tree [OF assms(3,5,4,15) r(2,3,4) assms(12) r(5) n(3,4)]
  have "inode_depth ?s' = Some (Suc d)" using s' r(6) by (simp add: inode_depth_def)
  then show ?thesis using grow tree s' r n
    by (intro exI [of _ root'] exI [of _ ix] exI [of _ n2] exI [of _ ?s']) simp
qed

text \<open>
  C12. Growing a tree by a level moves the entries of the root to the new block \<open>b\<close> and leaves the root with one index, which
  leads to \<open>b\<close>; no other block changes, the tree is one level deeper and well-formed, and its extents are what they were.
\<close>

theorem ext4_grow_indepth_refines:
  assumes "inode_depth s = Some d" "d < 65535" "tree_ok d (nodes s) Root" "extents_below d (nodes s) Root \<noteq> []"
    and "nodes s Root = Some root" "length (n_slots root) = 4" "block_layer_ok env"
    and "\<forall>goal. ext4_balloc_alloc_block env goal 0 s = (EOK, b, s1)" "nodes s1 = nodes s"
    and "ext4_trans_block_get_noread env b 0 s1 = (EOK, b, s2)" "nodes s2 = (nodes s)(Blk b \<mapsto> n)"
    and "b \<noteq> 0" "\<not> bit b 31" "drop_bit 47 b = 0" "Blk b \<notin> nodes_below d (nodes s) Root"
    and "int (length (n_slots n)) = sint (ext4_ext_space_block env)" "4 \<le> length (n_slots n)"
  shows "\<exists>root' ix n' s'. ext4_ext_grow_indepth env s = Some (EOK, s') \<and> inode_depth s' = Some (Suc d)
     \<and> nodes s' = (nodes s)(Blk b \<mapsto> n', Root \<mapsto> root')
     \<and> node_ok (Suc d) root' \<and> entries_of root' = [ix] \<and> ext4_idx_pblk ix = b
     \<and> node_ok d n' \<and> entries_of n' = entries_of root
     \<and> tree_ok (Suc d) (nodes s') Root
     \<and> extents_below (Suc d) (nodes s') Root = extents_below d (nodes s) Root"
  using grow_runs [OF assms(1-7) assms(8) [rule_format] assms(9-17)] by blast

definition example_alloc_env :: "unit ext4_env" where
  "example_alloc_env = example_ext4_env\<lparr>ext4_balloc_alloc_block := (\<lambda>g b s. (EOK, 300, s)),
     ext4_trans_block_get_noread := (\<lambda>b lb s. (EOK, b, put_node (Blk b) (example_node 0 84 []) s))\<rparr>"

theorem ext4_grow_indepth_refines_witness:
  "\<exists>root' ix n' s'. ext4_ext_grow_indepth example_alloc_env example_leaf = Some (EOK, s') \<and> inode_depth s' = Some 1
     \<and> nodes s' Root = Some root' \<and> entries_of root' = [ix] \<and> ext4_idx_pblk ix = 300
     \<and> nodes s' (Blk 300) = Some n' \<and> entries_of n' = [example_entry 0 5 1000, example_entry 20 5 2000]
     \<and> extents_below 1 (nodes s') Root = [example_entry 0 5 1000, example_entry 20 5 2000]"
proof -
  let ?es = "[example_entry 0 5 1000, example_entry 20 5 2000]"
  let ?root = "example_node 0 4 ?es" and ?n = "example_node 0 84 []"
  have root: "nodes example_leaf Root = Some ?root" by (simp add: example_leaf_def)
  have ok: "node_ok 0 ?root" "entries_of ?root = ?es" by (rule example_node_ok; simp)+
  have d: "inode_depth example_leaf = Some 0" "tree_ok 0 (nodes example_leaf) Root"
    "extents_below 0 (nodes example_leaf) Root \<noteq> []" "length (n_slots ?root) = 4"
    using root ok by (simp_all add: inode_depth_def ext_depth_def endian_defs example_node_def)
  have env: "block_layer_ok example_alloc_env"
    by (simp add: block_layer_ok_def dirty_marks_only_def example_alloc_env_def example_ext4_env_def)
  have alloc: "\<forall>goal. ext4_balloc_alloc_block example_alloc_env goal 0 example_leaf = (EOK, 300, example_leaf)"
    "ext4_trans_block_get_noread example_alloc_env 300 0 example_leaf = (EOK, 300, put_node (Blk 300) ?n example_leaf)"
    "nodes (put_node (Blk 300) ?n example_leaf) = (nodes example_leaf)(Blk 300 \<mapsto> ?n)"
    by (simp_all add: example_alloc_env_def put_node_def)
  have room: "int (length (n_slots ?n)) = sint (ext4_ext_space_block example_alloc_env)" "4 \<le> length (n_slots ?n)"
    by (simp_all add: ext4_ext_space_block_def example_alloc_env_def example_ext4_env_def example_node_def)
  obtain root' ix n' s' where g: "ext4_ext_grow_indepth example_alloc_env example_leaf = Some (EOK, s')" "inode_depth s' = Some (Suc 0)"
    "nodes s' = (nodes example_leaf)(Blk 300 \<mapsto> n', Root \<mapsto> root')" "entries_of root' = [ix]" "ext4_idx_pblk ix = 300"
    "entries_of n' = entries_of ?root" "extents_below (Suc 0) (nodes s') Root = extents_below 0 (nodes example_leaf) Root"
    using ext4_grow_indepth_refines [OF d(1) _ d(2,3) root d(4) env alloc(1) refl alloc(2,3) _ _ _ _ room] by auto
  have "extents_below 0 (nodes example_leaf) Root = ?es" using root ok(2) by simp
  then have "extents_below 1 (nodes s') Root = ?es" using g(7) by simp
  moreover have "nodes s' Root = Some root'" "nodes s' (Blk 300) = Some n'" using g(3) by simp_all
  ultimately show ?thesis using g(1,2,4,5,6) ok(2) unfolding One_nat_def by metis
qed

end
