(* ===== verification/Ext4_Extent_Remove.thy ===== *)
theory Ext4_Extent_Remove
  imports Ext4_Extent_Grow
begin

text \<open>
  \<open>ext4_extent.c\<close>, lines 1061 to 1389: removing a range of blocks from the extent tree.

  \<open>to\<close> and \<open>from\<close> are logical block numbers, which are signed; differences and sums of them wrap.
\<close>

section \<open>Freeing the blocks of an extent\<close>

definition ext4_ext_remove_blocks :: "'w ext4_env \<Rightarrow> ext4_entry \<Rightarrow> ext4_lblk_t \<Rightarrow> ext4_lblk_t \<Rightarrow> 'w ext4_state \<Rightarrow> 'w ext4_state" where
  "ext4_ext_remove_blocks env ex from to s =
    (let len = to - from + 1; num = from - le32_to_cpu (e_block ex); start = ext4_ext_pblk ex + u64_of_u32 num
     in ext4_ext_free_blocks env start len s)"

section \<open>Removing an index\<close>

text \<open>The first key of a node that has lost its first index is carried to the levels above.\<close>

fun remove_idx_correct :: "'w ext4_env \<Rightarrow> nat \<Rightarrow> ext4_extent_path list \<Rightarrow> 'w ext4_state \<Rightarrow> (errno \<times> 'w ext4_state) option" where
  "remove_idx_correct env 0 path s = Some (EOK, s)"
| "remove_idx_correct env (Suc i) path s = do {
     p \<leftarrow> path_at path (Suc i);
     if p_index p \<noteq> Some EXT_FIRST then Some (EOK, s)
     else do {
       ix \<leftarrow> entry_at s (p_header p) (p_index p);
       above \<leftarrow> path_at path i;
       s \<leftarrow> update_entry (p_header above) (p_index above) (\<lambda>e. Some (e\<lparr>e_block := e_block ix\<rparr>)) s;
       let (err, s) = ext4_ext_dirty env above s;
       if err \<noteq> EOK then Some (err, s) else remove_idx_correct env i path s
     }
   }"

definition ext4_ext_remove_idx :: "'w ext4_env \<Rightarrow> ext4_extent_path list \<Rightarrow> nat \<Rightarrow> 'w ext4_state \<Rightarrow> (errno \<times> 'w ext4_state) option" where
  "ext4_ext_remove_idx env path i s = do {
     p \<leftarrow> path_at path i;
     l \<leftarrow> p_header p;
     n \<leftarrow> nodes s l;
     ix \<leftarrow> p_index p;
     e \<leftarrow> slot n ix;
     let leaf = ext4_idx_pblk e;
     n \<leftarrow> (if ix \<noteq> EXT_LAST (n_hdr n) then move_slots ix (ix + 1) (EXT_LAST (n_hdr n) - ix) n else Some n);
     let s = put_node l (add_entries (- 1) n) s;
     let (err, s) = ext4_ext_dirty env p s;
     if err \<noteq> EOK then Some (err, s)
     else remove_idx_correct env i path (ext4_ext_free_blocks env leaf 1 s)
   }"

section \<open>Removing from a leaf\<close>

text \<open>
  What is done with the extent \<open>ex\<close>: the range to free, its new first block, its new length and its
  new physical block; \<open>start_after\<close> if what is kept is its beginning, \<open>keep_end\<close> if it is its end.
\<close>

record leaf_cut =
  cut_start :: ext4_lblk_t
  cut_len :: "32 word"
  cut_new_start :: ext4_lblk_t
  cut_new_len :: "32 word"
  cut_newblock :: ext4_fsblk_t
  cut_start_after :: bool
  cut_keep_end :: bool

definition cut_extent :: "ext4_lblk_t \<Rightarrow> ext4_lblk_t \<Rightarrow> ext4_entry \<Rightarrow> leaf_cut" where
  "cut_extent from to ex =
    (let start = le32_to_cpu (e_block ex); len = ext4_ext_get_actual_len ex; newblock = ext4_ext_pblk ex in
     if u32_lt start from then
       \<lparr>cut_start = from, cut_len = len - (from - start), cut_new_start = start, cut_new_len = from - start,
        cut_newblock = newblock, cut_start_after = True, cut_keep_end = False\<rparr>
     else if u32_lt to (start + len - 1) then
       (let new_len = start + len - 1 - to in
        \<lparr>cut_start = start, cut_len = len - new_len, cut_new_start = to + 1, cut_new_len = new_len,
         cut_newblock = newblock + u64_of_u32 (to + 1 - start), cut_start_after = False, cut_keep_end = True\<rparr>)
     else
       \<lparr>cut_start = start, cut_len = len, cut_new_start = start, cut_new_len = 0,
        cut_newblock = newblock, cut_start_after = False, cut_keep_end = False\<rparr>)"

text \<open>The extent in the node after the cut.\<close>

definition cut_entry :: "leaf_cut \<Rightarrow> ext4_entry \<Rightarrow> ext4_entry option" where
  "cut_entry c ex =
    (let ex' = ex\<lparr>e_block := cpu_to_le32 (cut_new_start c)\<rparr> in
     if cut_new_len c = 0 then Some ex'
     else let ex'' = ext4_ext_store_pblk (cut_newblock c) (set_ee_len (cpu_to_le16 (ucast (cut_new_len c))) ex')
          in if ext4_ext_is_unwritten ex then ext4_ext_mark_unwritten ex'' else Some ex'')"

lemma EXT_LAST_bound: "EXT_LAST hdr < 2 ^ 15"
proof -
  have "sint (eh_entries hdr) < 2 ^ 15" using sint_lt [of "eh_entries hdr"] by simp
  then show ?thesis by (simp add: ext_pos_defs endian_defs)
qed

text \<open>
  The loop over the extents from \<open>ex\<close> on that start at or before \<open>to\<close>.  Its state is the first slot to
  be overwritten, the slot of the first extent to keep behind the range if there is one, the new
  number of entries, and the state; the result has \<open>ex\<close> too.
\<close>

function remove_leaf_loop :: "'w ext4_env \<Rightarrow> loc \<Rightarrow> ext4_lblk_t \<Rightarrow> ext4_lblk_t \<Rightarrow> int \<Rightarrow> int \<Rightarrow> int option \<Rightarrow> u16 \<Rightarrow> 'w ext4_state \<Rightarrow>
    (int \<times> int \<times> int option \<times> u16 \<times> 'w ext4_state) option" where
  "remove_leaf_loop env l from to ex start_ex ex2 new_entries s =
    (case nodes s l of None \<Rightarrow> None
     | Some n \<Rightarrow>
       if ex \<le> EXT_LAST (n_hdr n) then
         (case slot n ex of None \<Rightarrow> None
          | Some e \<Rightarrow>
            if u32_le (le32_to_cpu (e_block e)) to then
              let c = cut_extent from to e;
                  s = ext4_ext_remove_blocks env e (cut_start c) (cut_start c + cut_len c - 1) s
              in (case update_entry (Some l) (Some ex) (cut_entry c) s of None \<Rightarrow> None
                  | Some s \<Rightarrow> remove_leaf_loop env l from to (ex + 1)
                      (if cut_start_after c then start_ex + 1 else start_ex)
                      (if cut_keep_end c then Some ex else ex2)
                      (if cut_new_len c = 0 then new_entries - 1 else new_entries) s)
            else Some (ex, start_ex, ex2, new_entries, s))
       else Some (ex, start_ex, ex2, new_entries, s))"
  by pat_completeness auto

termination
  by (relation "measure (\<lambda>(env, l, from, to, ex, rest). nat (2 ^ 15 - ex))")
    (use EXT_LAST_bound in \<open>fastforce intro: order.strict_trans1\<close>)+

declare remove_leaf_loop.simps [simp del]

definition ext4_ext_remove_leaf :: "'w ext4_env \<Rightarrow> ext4_extent_path list \<Rightarrow> ext4_lblk_t \<Rightarrow> ext4_lblk_t \<Rightarrow> 'w ext4_state \<Rightarrow>
    (errno \<times> ext4_extent_path list \<times> 'w ext4_state) option" where
  "ext4_ext_remove_leaf env path from to s = do {
     depth \<leftarrow> inode_depth s;
     p \<leftarrow> path_at path depth;
     l \<leftarrow> p_header p;
     n \<leftarrow> nodes s l;
     ex \<leftarrow> p_extent p;
     (ex, start_ex, ex2, new_entries, s) \<leftarrow>
       remove_leaf_loop env l from to ex ex None (le16_to_cpu (eh_entries (n_hdr n))) s;
     let ex2 = (case ex2 of None \<Rightarrow> ex | Some i \<Rightarrow> i);
     n \<leftarrow> nodes s l;
     n \<leftarrow> (if ex2 \<le> EXT_LAST (n_hdr n) then move_slots start_ex ex2 (EXT_LAST (n_hdr n) - ex2 + 1) n else Some n);
     let s = snd (ext4_ext_dirty env p (put_node l (set_entries (cpu_to_le16 new_entries) n) s));
     n \<leftarrow> nodes s l;
     (err, s) \<leftarrow> (if p_extent p = Some EXT_FIRST \<and> eh_entries (n_hdr n) \<noteq> 0
                   then ext4_ext_correct_indexes env path s else Some (EOK, s));
     if err \<noteq> EOK then Some (err, path, s)
     else do {
       n \<leftarrow> nodes s l;
       if eh_entries (n_hdr n) = 0 \<and> p_lb_id p \<noteq> 0 then do {
         check (depth > 0);
         (err, s) \<leftarrow> ext4_ext_remove_idx env path (depth - 1) s;
         Some (err, path, s)
       } else if depth > 0 then do {
         above \<leftarrow> path_at path (depth - 1);
         ix \<leftarrow> p_index above;
         Some (err, path[depth - 1 := above\<lparr>p_index := Some (ix + 1)\<rparr>], s)
       } else Some (err, path, s)
     }
   }"

section \<open>Removing a range\<close>

text \<open>Whether there is more to remove below the index of a level.\<close>

definition ext4_ext_more_to_rm :: "ext4_extent_path \<Rightarrow> ext4_lblk_t \<Rightarrow> 'w ext4_state \<Rightarrow> bool option" where
  "ext4_ext_more_to_rm p to s = do {
     n \<leftarrow> node_at s (p_header p);
     if le16_to_cpu (eh_entries (n_hdr n)) = 0 then Some False
     else do {
       ix \<leftarrow> p_index p;
       if ix > EXT_LAST (n_hdr n) then Some False
       else do {
         e \<leftarrow> slot n ix;
         Some (\<not> u32_lt to (le32_to_cpu (e_block e)))
       }
     }
   }"

text \<open>An extent that is built in a local variable: every member is assigned.\<close>

definition new_extent :: "ext4_lblk_t \<Rightarrow> 32 word \<Rightarrow> ext4_fsblk_t \<Rightarrow> ext4_entry" where
  "new_extent block len pblk = ext4_ext_store_pblk pblk (set_ee_len (cpu_to_le16 (ucast len))
     \<lparr>e_block = cpu_to_le32 block, e_h0 = 0, e_h1 = 0, e_h2 = 0, e_h3 = 0\<rparr>)"

definition mark_if :: "bool \<Rightarrow> ext4_entry \<Rightarrow> ext4_entry option" where
  "mark_if unwritten e = (if unwritten then ext4_ext_mark_unwritten e else Some e)"

text \<open>A range inside the extent \<open>ex\<close> of the leaf: the extent keeps the front, a new one gets the rest.\<close>

definition remove_inside :: "'w ext4_env \<Rightarrow> ext4_extent_path list \<Rightarrow> nat \<Rightarrow> ext4_entry \<Rightarrow> ext4_lblk_t \<Rightarrow> ext4_lblk_t \<Rightarrow>
    'w ext4_state \<Rightarrow> (errno \<times> ext4_extent_path list \<times> 'w ext4_state) option" where
  "remove_inside env path depth ex from to s = do {
     let unwritten = ext4_ext_is_unwritten ex;
     let ee_block = le32_to_cpu (e_block ex);
     let len = ext4_ext_get_actual_len ex;
     let newblock = u64_of_u32 (to + 1 - ee_block) + ext4_ext_pblk ex;
     p \<leftarrow> path_at path depth;
     s \<leftarrow> update_entry (p_header p) (p_extent p)
       (\<lambda>e. mark_if unwritten (set_ee_len (cpu_to_le16 (ucast (from - ee_block))) e)) s;
     let s = snd (ext4_ext_dirty env p s);
     newex \<leftarrow> mark_if unwritten (new_extent (to + 1) (ee_block + len - 1 - to) newblock);
     ext4_ext_insert_extent env path newex 0 s
   }"

text \<open>The range of a leaf that is removed.\<close>

definition leaf_range :: "ext4_node \<Rightarrow> ext4_lblk_t \<Rightarrow> ext4_lblk_t \<Rightarrow> (ext4_lblk_t \<times> ext4_lblk_t) option" where
  "leaf_range n from to = do {
     first_ex \<leftarrow> slot n EXT_FIRST;
     last_ex \<leftarrow> slot n (EXT_LAST (n_hdr n));
     let leaf_from = le32_to_cpu (e_block first_ex);
     let leaf_to = le32_to_cpu (e_block last_ex) + ext4_ext_get_actual_len last_ex - 1;
     Some (if u32_lt leaf_from from then from else leaf_from, if u32_lt to leaf_to then to else leaf_to)
   }"

text \<open>
  The loop over the levels.  \<open>i\<close> is the level, -1 at the end; \<open>Inl\<close> is the jump to \<open>out\<close>.  What
  \<open>ext4_ext_remove_leaf\<close> returns is dropped.
\<close>

definition descend :: "'w ext4_env \<Rightarrow> nat \<Rightarrow> nat \<Rightarrow> ext4_extent_path list \<Rightarrow> 'w ext4_state \<Rightarrow>
    (errno \<times> ext4_extent_path list \<times> 'w ext4_state) option" where
  "descend env depth i path s = do {
     q \<leftarrow> path_at path (i + 1);
     (path, s) \<leftarrow> (if p_lb_id q \<noteq> 0 then ext4_ext_drop_refs env path (i + 1) False s else Some (path, s));
     p \<leftarrow> path_at path i;
     ix \<leftarrow> entry_at s (p_header p) (p_index p);
     (ret, bh, s) \<leftarrow> read_extent_tree_block env (ext4_idx_pblk ix) (depth - i - 1) 0 s;
     if ret \<noteq> EOK then Some (ret, path, s)
     else do {
       ix \<leftarrow> entry_at s (p_header p) (p_index p);
       q \<leftarrow> path_at path (i + 1);
       let q = q\<lparr>p_lb_id := bh, p_header := Some (Blk bh), p_depth := int (depth - i - 1)\<rparr>;
       let q = (if i + 1 = depth then q\<lparr>p_extent := Some EXT_FIRST\<rparr> else q\<lparr>p_index := Some EXT_FIRST\<rparr>);
       Some (ret, path[i := p\<lparr>p_block := ext4_idx_pblk ix\<rparr>, i + 1 := q], s)
     }
   }"

definition ascend :: "'w ext4_env \<Rightarrow> nat \<Rightarrow> errno \<Rightarrow> ext4_extent_path list \<Rightarrow> 'w ext4_state \<Rightarrow>
    (errno \<times> ext4_extent_path list \<times> 'w ext4_state) option" where
  "ascend env i ret path s =
    (if i = 0 then Some (ret, path, s)
     else do {
       p \<leftarrow> path_at path i;
       n \<leftarrow> node_at s (p_header p);
       (ret, path, s) \<leftarrow>
         (if eh_entries (n_hdr n) = 0
          then do { (ret, s) \<leftarrow> ext4_ext_remove_idx env path (i - 1) s; Some (ret, path, s) }
          else do {
            above \<leftarrow> path_at path (i - 1);
            ix \<leftarrow> p_index above;
            Some (ret, path[i - 1 := above\<lparr>p_index := Some (ix + 1)\<rparr>], s)
          });
       let (_, lb, s) = ext4_block_set env (p_lb_id p) s;
       Some (ret, path[i := p\<lparr>p_lb_id := lb\<rparr>], s)
     })"

definition remove_space_round :: "'w ext4_env \<Rightarrow> nat \<Rightarrow> ext4_lblk_t \<Rightarrow> ext4_lblk_t \<Rightarrow> nat \<Rightarrow>
    errno \<times> ext4_extent_path list \<times> 'w ext4_state \<Rightarrow>
    ((errno \<times> ext4_extent_path list \<times> 'w ext4_state) + (int \<times> errno \<times> ext4_extent_path list \<times> 'w ext4_state)) option" where
  "remove_space_round env depth from to i = (\<lambda>(ret, path, s).
     if i = depth then do {
       p \<leftarrow> path_at path i;
       n \<leftarrow> node_at s (p_header p);
       check (0 < sint (le16_to_cpu (eh_entries (n_hdr n))));
       (leaf_from, leaf_to) \<leftarrow> leaf_range n from to;
       (_, path, s) \<leftarrow> ext4_ext_remove_leaf env path leaf_from leaf_to s;
       (path, s) \<leftarrow> ext4_ext_drop_refs env path i False s;
       Some (Inr (int i - 1, ret, path, s))
     } else do {
       p \<leftarrow> path_at path i;
       more \<leftarrow> ext4_ext_more_to_rm p to s;
       if more then do {
         (ret, path, s) \<leftarrow> descend env depth i path s;
         Some (if ret \<noteq> EOK then Inl (ret, path, s) else Inr (int i + 1, ret, path, s))
       } else do {
         (ret, path, s) \<leftarrow> ascend env i ret path s;
         Some (Inr (int i - 1, ret, path, s))
       }
     })"

partial_function (option) remove_space_loop :: "'w ext4_env \<Rightarrow> nat \<Rightarrow> ext4_lblk_t \<Rightarrow> ext4_lblk_t \<Rightarrow>
    int \<times> errno \<times> ext4_extent_path list \<times> 'w ext4_state \<Rightarrow>
    ((errno \<times> ext4_extent_path list \<times> 'w ext4_state) + (errno \<times> ext4_extent_path list \<times> 'w ext4_state)) option" where
  "remove_space_loop env depth from to r =
    (if fst r < 0 then Some (Inr (snd r))
     else do {
       r' \<leftarrow> remove_space_round env depth from to (nat (fst r)) (snd r);
       case r' of Inl out \<Rightarrow> Some (Inl out) | Inr r'' \<Rightarrow> remove_space_loop env depth from to r''
     })"

lemma remove_space_loop_code [code]:
  "remove_space_loop env depth from to r =
    (if fst r < 0 then Some (Inr (snd r))
     else (case remove_space_round env depth from to (nat (fst r)) (snd r) of None \<Rightarrow> None
       | Some r' \<Rightarrow> (case r' of Inl out \<Rightarrow> Some (Inl out) | Inr r'' \<Rightarrow> remove_space_loop env depth from to r'')))"
  by (subst remove_space_loop.simps) (auto split: option.splits sum.splits bind_splits)

text \<open>A tree that has become empty loses its levels.\<close>

definition reset_root :: "'w ext4_env \<Rightarrow> errno \<Rightarrow> ext4_extent_path list \<Rightarrow> 'w ext4_state \<Rightarrow> (errno \<times> 'w ext4_state) option" where
  "reset_root env ret path s = do {
     p \<leftarrow> path_at path 0;
     n \<leftarrow> node_at s (p_header p);
     if eh_entries (n_hdr n) = 0 then do {
       s \<leftarrow> update_node (Some Root) (\<lambda>n. Some (n\<lparr>n_hdr := (n_hdr n)\<lparr>eh_depth := 0,
              eh_max := cpu_to_le16 ext4_ext_space_root\<rparr>\<rparr>)) s;
       Some (ext4_ext_dirty env p s)
     } else Some (ret, s)
   }"

definition ext4_extent_remove_space :: "'w ext4_env \<Rightarrow> ext4_lblk_t \<Rightarrow> ext4_lblk_t \<Rightarrow> 'w ext4_state \<Rightarrow> (errno \<times> 'w ext4_state) option" where
  "ext4_extent_remove_space env from to s = do {
     depth \<leftarrow> inode_depth s;
     (ret, ppath, s) \<leftarrow> ext4_find_extent env from None s;
     case ppath of
       None \<Rightarrow> do { check (ret \<noteq> EOK); Some (ret, s) }
     | Some path \<Rightarrow> do {
         p \<leftarrow> path_at path depth;
         (ret, path, s) \<leftarrow>
           (if ret \<noteq> EOK \<or> p_extent p = None then Some (ret, path, s)
            else do {
              ex \<leftarrow> entry_at s (p_header p) (p_extent p);
              let first = le32_to_cpu (e_block ex);
              let len = ext4_ext_get_actual_len ex;
              if \<not> IN_RANGE env from first len then Some (EOK, path, s)
              else if u32_lt first from \<and> u32_lt to (first + len - 1) then remove_inside env path depth ex from to s
              else do {
                r \<leftarrow> remove_space_loop env depth from to (int depth, ret, path, s);
                case r of
                  Inl out \<Rightarrow> Some out
                | Inr (ret, path, s) \<Rightarrow> do { (ret, s) \<leftarrow> reset_root env ret path s; Some (ret, path, s) }
              }
            });
         (path, s) \<leftarrow> ext4_ext_drop_refs env path 0 False s;
         Some (ret, s)
       }
   }"

end
