(* ===== verification/Ext4_Extent_Blocks.thy ===== *)
theory Ext4_Extent_Blocks
  imports Ext4_Extent_Remove
begin

text \<open>
  \<open>ext4_extent.c\<close>, lines 1391 to 1684: splitting an extent, marking a part of it as written, and the
  mapping of logical to physical blocks.
\<close>

section \<open>Splitting an extent\<close>

definition EXT4_EXT_MARK_UNWRIT1 :: "32 word" where "EXT4_EXT_MARK_UNWRIT1 = 0x02"
definition EXT4_EXT_MARK_UNWRIT2 :: "32 word" where "EXT4_EXT_MARK_UNWRIT2 = 0x04"

text \<open>
  \<open>ex\<close> stays a pointer to the slot that the path had when the function was entered, also behind
  \<open>restore_extent_len\<close>.  The result is the error, \<open>*ppath\<close> and the state.
\<close>

definition restore_extent_len :: "'w ext4_env \<Rightarrow> nat \<Rightarrow> ext4_extent_path \<Rightarrow> 32 word \<Rightarrow> ext4_extent_path list \<Rightarrow> 'w ext4_state \<Rightarrow>
    (errno \<times> ext4_extent_path list \<times> 'w ext4_state) option" where
  "restore_extent_len env depth p len path s = do {
     s \<leftarrow> update_entry (p_header p) (p_extent p) (\<lambda>e. Some (set_ee_len (cpu_to_le16 (ucast len)) e)) s;
     q \<leftarrow> path_at path depth;
     let (err, s) = ext4_ext_dirty env q s;
     Some (err, path, s)
   }"

definition ext4_ext_split_extent_at :: "'w ext4_env \<Rightarrow> ext4_extent_path list \<Rightarrow> ext4_lblk_t \<Rightarrow> 32 word \<Rightarrow> 'w ext4_state \<Rightarrow>
    (errno \<times> ext4_extent_path list \<times> 'w ext4_state) option" where
  "ext4_ext_split_extent_at env path split split_flag s = do {
     depth \<leftarrow> inode_depth s;
     p \<leftarrow> path_at path depth;
     ex \<leftarrow> entry_at s (p_header p) (p_extent p);
     let ee_block = le32_to_cpu (e_block ex);
     let len = ext4_ext_get_actual_len ex;
     let newblock = u64_of_u32 (split - ee_block) + ext4_ext_pblk ex;
     if split = ee_block then do {
       s \<leftarrow> update_entry (p_header p) (p_extent p)
         (\<lambda>e. if split_flag AND EXT4_EXT_MARK_UNWRIT2 \<noteq> 0 then ext4_ext_mark_unwritten e
              else Some (ext4_ext_mark_initialized e)) s;
       let (err, s) = ext4_ext_dirty env p s;
       Some (err, path, s)
     } else do {
       s \<leftarrow> update_entry (p_header p) (p_extent p)
         (\<lambda>e. mark_if (split_flag AND EXT4_EXT_MARK_UNWRIT1 \<noteq> 0) (set_ee_len (cpu_to_le16 (ucast (split - ee_block))) e)) s;
       let (err, s) = ext4_ext_dirty env p s;
       if err \<noteq> EOK then Some (err, path, s)
       else do {
         newex \<leftarrow> mark_if (split_flag AND EXT4_EXT_MARK_UNWRIT2 \<noteq> 0)
           (new_extent split (len - (split - ee_block)) newblock);
         (err, path, s) \<leftarrow> ext4_ext_insert_extent env path newex EXT4_EXT_NO_COMBINE s;
         if err \<noteq> EOK then restore_extent_len env depth p len path s else Some (err, path, s)
       }
     }
   }"

definition ext4_ext_convert_to_initialized :: "'w ext4_env \<Rightarrow> ext4_extent_path list \<Rightarrow> ext4_lblk_t \<Rightarrow> u32 \<Rightarrow> 'w ext4_state \<Rightarrow>
    (errno \<times> ext4_extent_path list \<times> 'w ext4_state) option" where
  "ext4_ext_convert_to_initialized env path split blocks s = do {
     depth \<leftarrow> inode_depth s;
     p \<leftarrow> path_at path depth;
     ex \<leftarrow> entry_at s (p_header p) (p_extent p);
     check (u32_le (le32_to_cpu (e_block ex)) split);
     if split + blocks = le32_to_cpu (e_block ex) + ext4_ext_get_actual_len ex
     then ext4_ext_split_extent_at env path split EXT4_EXT_MARK_UNWRIT1 s
     else if le32_to_cpu (e_block ex) = split
     then ext4_ext_split_extent_at env path (split + blocks) EXT4_EXT_MARK_UNWRIT2 s
     else do {
       (err, path, s) \<leftarrow> ext4_ext_split_extent_at env path (split + blocks)
         (EXT4_EXT_MARK_UNWRIT1 OR EXT4_EXT_MARK_UNWRIT2) s;
       if err = EOK then ext4_ext_split_extent_at env path split EXT4_EXT_MARK_UNWRIT1 s
       else Some (err, path, s)
     }
   }"

section \<open>The next mapped block\<close>

text \<open>\<open>k\<close> is one more than the level the loop is at.\<close>

fun next_allocated_loop :: "'w ext4_env \<Rightarrow> int \<Rightarrow> ext4_extent_path list \<Rightarrow> 'w ext4_state \<Rightarrow> nat \<Rightarrow> ext4_lblk_t option" where
  "next_allocated_loop env leaf path s 0 = Some (EXT_MAX_BLOCKS env)"
| "next_allocated_loop env leaf path s (Suc depth) = do {
     p \<leftarrow> path_at path depth;
     if int depth = leaf then
       (case p_extent p of
          None \<Rightarrow> next_allocated_loop env leaf path s depth
        | Some i \<Rightarrow> do {
            n \<leftarrow> node_at s (p_header p);
            if i \<noteq> EXT_LAST (n_hdr n) then map_option (\<lambda>e. le32_to_cpu (e_block e)) (slot n (i + 1))
            else next_allocated_loop env leaf path s depth
          })
     else do {
       n \<leftarrow> node_at s (p_header p);
       if p_index p \<noteq> Some (EXT_LAST (n_hdr n)) then do {
         i \<leftarrow> p_index p;
         e \<leftarrow> slot n (i + 1);
         Some (le32_to_cpu (e_block e))
       } else next_allocated_loop env leaf path s depth
     }
   }"

definition ext4_ext_next_allocated_block :: "'w ext4_env \<Rightarrow> ext4_extent_path list \<Rightarrow> 'w ext4_state \<Rightarrow> ext4_lblk_t option" where
  "ext4_ext_next_allocated_block env path s = do {
     p \<leftarrow> path_at path 0;
     if p_depth p = 0 \<and> p_extent p = None then Some (EXT_MAX_BLOCKS env)
     else next_allocated_loop env (p_depth p) path s (nat (p_depth p + 1))
   }"

section \<open>Zeroing\<close>

text \<open>The data of a block, cleared; a data block has the memory of a node.\<close>

definition zeroed :: "ext4_node \<Rightarrow> ext4_node" where
  "zeroed n = \<lparr>n_hdr = \<lparr>eh_magic = 0, eh_entries = 0, eh_max = 0, eh_depth = 0, eh_generation = 0\<rparr>,
     n_slots = replicate (length (n_slots n)) \<lparr>e_block = 0, e_h0 = 0, e_h1 = 0, e_h2 = 0, e_h3 = 0\<rparr>, n_tail = 0\<rparr>"

text \<open>The loop with \<open>k\<close> rounds left, at block \<open>i\<close>.\<close>

fun zero_range_loop :: "'w ext4_env \<Rightarrow> ext4_fsblk_t \<Rightarrow> nat \<Rightarrow> u32 \<Rightarrow> 'w ext4_state \<Rightarrow> (errno \<times> 'w ext4_state) option" where
  "zero_range_loop env block 0 i s = Some (EOK, s)"
| "zero_range_loop env block (Suc k) i s =
    (let (err, bh, s) = ext4_trans_block_get_noread env (block + u64_of_u32 i) 0 s in
     if err \<noteq> EOK then Some (err, s)
     else do {
       s \<leftarrow> update_node (Some (Blk bh)) (\<lambda>n. Some (zeroed n)) s;
       let (err, _, s) = ext4_block_set env bh (ext4_trans_set_block_dirty env bh s);
       if err \<noteq> EOK then Some (err, s) else zero_range_loop env block k (i + 1) s
     })"

definition ext4_ext_zero_unwritten_range :: "'w ext4_env \<Rightarrow> ext4_fsblk_t \<Rightarrow> u32 \<Rightarrow> 'w ext4_state \<Rightarrow> (errno \<times> 'w ext4_state) option" where
  "ext4_ext_zero_unwritten_range env block blocks_count s = zero_range_loop env block (nat (sint blocks_count)) 0 s"

section \<open>Mapping\<close>

text \<open>
  The error, what the caller finds in \<open>*result\<close> and \<open>*blocks_count\<close>, and the state; a caller that
  passes null pointers does not see them.  \<open>out2\<close> leaves both 0.
\<close>

definition get_blocks_out2 :: "'w ext4_env \<Rightarrow> errno \<Rightarrow> ext4_fsblk_t \<Rightarrow> u32 \<Rightarrow> ext4_extent_path list \<Rightarrow> 'w ext4_state \<Rightarrow>
    (errno \<times> ext4_fsblk_t \<times> u32 \<times> 'w ext4_state) option" where
  "get_blocks_out2 env err result blocks_count path s = do {
     (path, s) \<leftarrow> ext4_ext_drop_refs env path 0 False s;
     Some (err, result, blocks_count, s)
   }"

definition get_blocks_out :: "'w ext4_env \<Rightarrow> errno \<Rightarrow> ext4_fsblk_t \<Rightarrow> u32 \<Rightarrow> u32 \<Rightarrow> ext4_extent_path list \<Rightarrow> 'w ext4_state \<Rightarrow>
    (errno \<times> ext4_fsblk_t \<times> u32 \<times> 'w ext4_state) option" where
  "get_blocks_out env err newblock allocated max_blocks path s =
     get_blocks_out2 env err newblock (if u32_lt max_blocks allocated then max_blocks else allocated) path s"

text \<open>The block is in the extent \<open>ex\<close>, whose length has been stored in 16 signed bits.\<close>

definition get_blocks_mapped :: "'w ext4_env \<Rightarrow> ext4_entry \<Rightarrow> ext4_lblk_t \<Rightarrow> u32 \<Rightarrow> bool \<Rightarrow> ext4_extent_path list \<Rightarrow> 'w ext4_state \<Rightarrow>
    (errno \<times> ext4_fsblk_t \<times> u32 \<times> 'w ext4_state) option" where
  "get_blocks_mapped env ex iblock max_blocks create path s =
    (let ee_block = le32_to_cpu (e_block ex); ee_start = ext4_ext_pblk ex;
         len = (ucast (ext4_ext_get_actual_len ex) :: u16);
         allocated = u32_of_u16 len - (iblock - ee_block) in
     if \<not> ext4_ext_is_unwritten ex
     then get_blocks_out env EOK (u64_of_u32 (iblock - ee_block) + ee_start) allocated max_blocks path s
     else if \<not> create then get_blocks_out env EOK 0 allocated max_blocks path s
     else
       let zero_range = (if u32_lt max_blocks allocated then max_blocks else allocated);
           newblock = u64_of_u32 (iblock - ee_block) + ee_start
       in do {
         (err, s) \<leftarrow> ext4_ext_zero_unwritten_range env newblock zero_range s;
         if err \<noteq> EOK then get_blocks_out2 env err 0 0 path s
         else do {
           (err, path, s) \<leftarrow> ext4_ext_convert_to_initialized env path iblock zero_range s;
           if err \<noteq> EOK then get_blocks_out2 env err 0 0 path s
           else get_blocks_out env err newblock allocated max_blocks path s
         }
       })"

text \<open>No extent has the block: a new block is allocated and an extent for it is inserted.\<close>

definition get_blocks_create :: "'w ext4_env \<Rightarrow> ext4_lblk_t \<Rightarrow> u32 \<Rightarrow> ext4_extent_path list \<Rightarrow> 'w ext4_state \<Rightarrow>
    (errno \<times> ext4_fsblk_t \<times> u32 \<times> 'w ext4_state) option" where
  "get_blocks_create env iblock max_blocks path s = do {
     next \<leftarrow> ext4_ext_next_allocated_block env path s;
     let allocated = next - iblock;
     let allocated = (if u32_lt max_blocks allocated then max_blocks else allocated);
     goal \<leftarrow> ext4_ext_find_goal env (Some path) iblock s;
     let (newblock, count, err, s) = ext4_new_meta_blocks env goal (Some allocated) s;
     allocated \<leftarrow> count;
     if newblock = 0 then get_blocks_out2 env err 0 0 path s
     else do {
       let newex = new_extent iblock allocated newblock;
       (err, path, s) \<leftarrow> ext4_ext_insert_extent env path newex 0 s;
       if err \<noteq> EOK
       then get_blocks_out2 env err 0 0 path
              (ext4_ext_free_blocks env (ext4_ext_pblk newex) (u32_of_u16 (le16_to_cpu (ee_len newex))) s)
       else get_blocks_out env err (ext4_ext_pblk newex) allocated max_blocks path s
     }
   }"

definition ext4_extent_get_blocks :: "'w ext4_env \<Rightarrow> ext4_lblk_t \<Rightarrow> u32 \<Rightarrow> bool \<Rightarrow> 'w ext4_state \<Rightarrow>
    (errno \<times> ext4_fsblk_t \<times> u32 \<times> 'w ext4_state) option" where
  "ext4_extent_get_blocks env iblock max_blocks create s = do {
     (err, ppath, s) \<leftarrow> ext4_find_extent env iblock None s;
     if err \<noteq> EOK then Some (err, 0, 0, s)
     else do {
       path \<leftarrow> ppath;
       depth \<leftarrow> inode_depth s;
       p \<leftarrow> path_at path depth;
       ex \<leftarrow> (case p_extent p of None \<Rightarrow> Some None | i \<Rightarrow> map_option Some (entry_at s (p_header p) i));
       case ex of
         Some ex \<Rightarrow>
           if IN_RANGE env iblock (le32_to_cpu (e_block ex)) (u32_of_u16 (ucast (ext4_ext_get_actual_len ex)))
           then get_blocks_mapped env ex iblock max_blocks create path s
           else if \<not> create then get_blocks_out2 env EOK 0 0 path s
           else get_blocks_create env iblock max_blocks path s
       | None \<Rightarrow> if \<not> create then get_blocks_out2 env EOK 0 0 path s
           else get_blocks_create env iblock max_blocks path s
     }
   }"

end
