(* ===== verification/Ext4_Extent_Map.thy ===== *)
theory Ext4_Extent_Map
  imports Ext4_Extent_Blocks
begin

text \<open>
  What the extents of an inode mean: a map from logical to physical blocks.  Looking up a block gives
  what this map has for it.
\<close>

section \<open>The map\<close>

text \<open>
  On the disk the low 15 bits of the length are the number of blocks; 0 does not occur in a valid
  extent that the driver can read.  \<open>extent_map\<close> has for a logical block whether it is
  unwritten, and its physical block.
\<close>

definition ext_len :: "ext4_entry \<Rightarrow> int" where "ext_len e = uint (ee_len e) mod 2 ^ 15"

definition covers :: "ext4_entry \<Rightarrow> int \<Rightarrow> bool" where
  "covers e b \<longleftrightarrow> ekey e \<le> b \<and> b < ekey e + ext_len e"

definition map_in :: "ext4_entry \<Rightarrow> int \<Rightarrow> bool \<times> ext4_fsblk_t" where
  "map_in e b = (ext4_ext_is_unwritten e, ext4_ext_pblk e + word_of_int (b - ekey e))"

definition extent_map :: "ext4_entry list \<Rightarrow> int \<Rightarrow> (bool \<times> ext4_fsblk_t) option" where
  "extent_map xs b = map_option (\<lambda>e. map_in e b) (find (\<lambda>e. covers e b) xs)"

text \<open>No two extents overlap, they are in order, none is empty or reaches the last logical block.\<close>

definition disjoint_extents :: "ext4_entry list \<Rightarrow> bool" where
  "disjoint_extents xs \<longleftrightarrow> sorted_wrt (\<lambda>a b. ekey a + ext_len a \<le> ekey b) xs
     \<and> (\<forall>e \<in> set xs. 0 < ext_len e \<and> ekey e + ext_len e < 2 ^ 31)"

lemma ext_len_bound: "0 \<le> ext_len e" "ext_len e < 2 ^ 15" by (simp_all add: ext_len_def)

lemma disjoint_ordered: "disjoint_extents xs \<Longrightarrow> ordered xs"
  unfolding disjoint_extents_def ordered_def by (elim conjE sorted_wrt_mono_rel [rotated]) fastforce

lemma disjoint_split:
  assumes "disjoint_extents (ys @ e # zs)"
  shows "\<forall>a \<in> set ys. ekey a + ext_len a \<le> ekey e" "\<forall>a \<in> set zs. ekey e + ext_len e \<le> ekey a"
    "0 < ext_len e" "ekey e + ext_len e < 2 ^ 31"
  using assms by (auto simp: disjoint_extents_def sorted_wrt_append)

lemma find_middle: "\<forall>a \<in> set ys. \<not> P a \<Longrightarrow> P e \<Longrightarrow> find P (ys @ e # zs) = Some e"
  by (induction ys) auto

lemma extent_map_covered:
  assumes "disjoint_extents xs" "e \<in> set xs" "covers e b"
  shows "extent_map xs b = Some (map_in e b)"
proof -
  obtain ys zs where xs: "xs = ys @ e # zs" using assms(2) by (meson split_list)
  have "\<forall>a \<in> set ys. \<not> covers a b" using disjoint_split(1) [of ys e zs] assms(1,3) xs by (fastforce simp: covers_def)
  then show ?thesis using assms(3) by (simp add: extent_map_def xs find_middle)
qed

lemma extent_map_None: "extent_map xs b = None \<longleftrightarrow> (\<forall>e \<in> set xs. \<not> covers e b)"
  by (auto simp: extent_map_def find_None_iff)

lemma closest_covers:
  assumes "disjoint_extents xs" "e \<in> set xs" "covers e (sint b)"
  shows "closest xs b = e"
proof -
  obtain ys zs where xs: "xs = ys @ e # zs" using assms(2) by (meson split_list)
  have "\<forall>a \<in> set zs. \<not> ekey a \<le> sint b" using disjoint_split(2) [of ys e zs] assms(1,3) xs by (fastforce simp: covers_def)
  then have "filter (\<lambda>e. ekey e \<le> sint b) zs = []" by (simp add: filter_empty_conv)
  then show ?thesis using assms(3) by (simp add: closest_def Let_def xs covers_def)
qed

lemma closest_in: "xs \<noteq> [] \<Longrightarrow> closest xs b \<in> set xs"
  unfolding closest_def Let_def by (metis filter_is_subset hd_in_set last_in_set subsetD)

section \<open>The length as the mapping reads it\<close>

lemma low15:
  fixes x :: int
  assumes "0 \<le> x" "x < 65536"
  shows "(if 32768 \<le> x then x + (4294967296 - 65536 - 32768) else x) mod 65536 = x mod 32768"
proof (cases "32768 \<le> x")
  case True
  have "x + (4294967296 - 65536 - 32768) = (x - 32768) + 65535 * 65536" by simp
  moreover have "((x - 32768) + 65535 * 65536) mod 65536 = (x - 32768) mod 65536" by (rule mod_mult_self1)
  moreover have "(x - 32768) mod 65536 = x - 32768" using True assms(2) by (intro mod_pos_pos_trivial) simp_all
  moreover have "(x - 32768) mod 32768 = x - 32768" using True assms(2) by (intro mod_pos_pos_trivial) simp_all
  moreover have "(x - 32768) mod 32768 = x mod 32768" by (rule minus_mod_self2)
  ultimately show ?thesis using True by (simp only: if_True)
qed (use assms in simp)

lemma uint_low15: "uint (ucast (ext4_ext_get_actual_len e) :: u16) = ext_len e"
proof -
  have "uint (ucast (ext4_ext_get_actual_len e) :: u16) = uint (ext4_ext_get_actual_len e) mod 2 ^ 16"
    by (simp add: unsigned_ucast_eq take_bit_eq_mod)
  also have "uint (ext4_ext_get_actual_len e) = (if 32768 \<le> uint (ee_len e)
      then uint (ee_len e) + (4294967296 - 65536 - 32768) else uint (ee_len e))"
    by (simp add: uint_actual_len is_unwritten_iff)
  also have "\<dots> mod 2 ^ 16 = ext_len e"
    using low15 [of "uint (ee_len e)"] uint_16 [of "ee_len e"] by (simp only: ext_len_def) simp
  finally show ?thesis .
qed

lemma sint_mapped_len: "sint (u32_of_u16 (ucast (ext4_ext_get_actual_len e))) = ext_len e"
proof -
  have "sint (ucast (ext4_ext_get_actual_len e) :: u16) = ext_len e"
    using ext_len_bound(2) [of e] by (simp add: sint_16 uint_low15)
  moreover have "sint (scast (w :: u16) :: u32) = sint w" for w by (rule sint_up_scast) (simp add: is_up)
  ultimately show ?thesis by (simp add: u32_of_u16_def)
qed

section \<open>Releasing the blocks of a path\<close>

text \<open>What the tree is read from: all of a node but its checksum and what lies behind its entries.\<close>

definition node_view :: "ext4_node \<Rightarrow> ext4_extent_header \<times> nat \<times> ext4_entry list" where
  "node_view n = (n_hdr n, length (n_slots n), entries_of n)"

definition view :: "(loc \<rightharpoonup> ext4_node) \<Rightarrow> loc \<Rightarrow> (ext4_extent_header \<times> nat \<times> ext4_entry list) option" where
  "view m l = map_option node_view (m l)"

lemma view_Some: "view m' = view m \<Longrightarrow> m l = Some n \<Longrightarrow> \<exists>n'. m' l = Some n' \<and> node_view n' = node_view n"
  by (drule fun_cong [of _ _ l], cases "m' l") (simp_all add: view_def)

lemma view_None: "view m' = view m \<Longrightarrow> m l = None \<Longrightarrow> m' l = None"
  by (drule fun_cong [of _ _ l]) (simp add: view_def)

lemma view_node_ok: "node_view n' = node_view n \<Longrightarrow> node_ok d n' = node_ok d n \<and> entries_of n' = entries_of n"
  by (simp add: node_view_def node_ok_def)

lemma view_tree:
  assumes "view m' = view m"
  shows "extents_below d m' l = extents_below d m l \<and> tree_ok d m' l = tree_ok d m l"
proof (induction d arbitrary: l)
  case 0
  show ?case
  proof (cases "m l")
    case None
    then show ?thesis using view_None [OF assms, of l] by simp
  next
    case (Some n)
    then obtain n' where "m' l = Some n'" "node_view n' = node_view n" using view_Some [OF assms] by blast
    then show ?thesis using Some view_node_ok [of n' n 0] by simp
  qed
next
  case (Suc d)
  show ?case
  proof (cases "m l")
    case None
    then show ?thesis using view_None [OF assms, of l] by simp
  next
    case (Some n)
    then obtain n' where "m' l = Some n'" "node_view n' = node_view n" using view_Some [OF assms] by blast
    then show ?thesis using Some view_node_ok [of n' n "Suc d"] Suc.IH by simp
  qed
qed

lemma view_refs_ok: "view m' = view m \<Longrightarrow> refs_ok m path \<Longrightarrow> refs_ok m' path"
  unfolding refs_ok_def using view_Some view_node_ok by metis

lemma csum_set_view:
  assumes "node_ok d n"
  shows "\<exists>n'. ext4_extent_block_csum_set env n = Some n' \<and> node_view n' = node_view n"
proof -
  have max: "0 \<le> sint (eh_max (n_hdr n))" "sint (eh_max (n_hdr n)) \<le> int (length (n_slots n))"
    "sint (eh_entries (n_hdr n)) \<le> sint (eh_max (n_hdr n))"
    using assms by (auto simp: node_ok_def)
  then show ?thesis
    by (auto simp: ext4_extent_block_csum_set_def Let_def endian_defs node_view_def entries_of_def slot_def set_slot_def)
qed

definition keeps_nodes :: "'w ext4_env \<Rightarrow> bool" where
  "keeps_nodes env \<longleftrightarrow> (\<forall>b s. nodes (snd (snd (ext4_block_set env b s))) = nodes s)"

lemma drop_ref_view:
  assumes "keeps_nodes env" "p_lb_id p \<noteq> 0 \<Longrightarrow> \<exists>l n d. p_header p = Some l \<and> nodes s l = Some n \<and> node_ok d n"
  shows "\<exists>p' s'. drop_ref env p s = Some (p', s') \<and> view (nodes s') = view (nodes s) \<and> p_header p' = p_header p
     \<and> (p_lb_id p = 0 \<longrightarrow> p' = p)"
proof (cases "p_lb_id p = 0")
  case False
  then obtain l n d where n: "p_header p = Some l" "nodes s l = Some n" "node_ok d n" using assms(2) by blast
  obtain n' where n': "ext4_extent_block_csum_set env n = Some n'" "node_view n' = node_view n"
    using csum_set_view [OF n(3)] by blast
  have same: "view ((nodes s)(l \<mapsto> n')) = view (nodes s)" using n(2) n'(2) by (auto simp: view_def)
  have kept: "nodes (snd (snd (ext4_block_set env b s))) = nodes s" for b s using assms(1) by (simp add: keeps_nodes_def)
  show ?thesis
    using False n n' same kept [of "p_lb_id p" s] kept [of "p_lb_id p" "put_node l n' s"]
    by (auto simp: drop_ref_def update_node_def put_node_def split: prod.split)
qed (simp add: drop_ref_def)

lemma drop_refs_loop_view:
  assumes "keeps_nodes env"
  shows "refs_ok (nodes s) path \<Longrightarrow> at + k \<le> length path \<Longrightarrow>
     \<exists>path' s'. drop_refs_loop env k at path s = Some (path', s') \<and> view (nodes s') = view (nodes s)"
proof (induction k arbitrary: at path s)
  case (Suc k)
  let ?p = "path ! at"
  have at: "at < length path" using Suc.prems(2) by simp
  obtain p' s' where p: "drop_ref env ?p s = Some (p', s')" "view (nodes s') = view (nodes s)" "p_header p' = p_header ?p"
    "p_lb_id ?p = 0 \<longrightarrow> p' = ?p"
    using drop_ref_view [OF assms, of ?p s] refs_ok_nth [OF Suc.prems(1) at] by blast
  have "refs_ok (nodes s) (path[at := p'])"
    using Suc.prems(1) p(3,4) refs_ok_nth [OF Suc.prems(1) at] by (intro refs_ok_update) auto
  then have "refs_ok (nodes s') (path[at := p'])" using view_refs_ok [OF p(2)] by blast
  from Suc.IH [OF this, of "Suc at"] Suc.prems(2) p(1,2) at show ?case by (simp add: path_at_def)
qed simp

lemma drop_refs_view:
  assumes "keeps_nodes env" "refs_ok (nodes s) path" "p_depth (path ! 0) = int d" "d < length path"
  shows "\<exists>path' s'. ext4_ext_drop_refs env path 0 False s = Some (path', s') \<and> view (nodes s') = view (nodes s)"
proof -
  have "ext4_ext_drop_refs env path 0 False s = drop_refs_loop env (Suc d) 0 path s"
    using assms(3,4) by (simp add: ext4_ext_drop_refs_def path_at_def nat_add_distrib)
  then show ?thesis using drop_refs_loop_view [OF assms(1,2), of 0 "Suc d"] assms(4) by simp
qed

section \<open>Looking up a block\<close>

text \<open>\<open>IN_RANGE\<close> is not in the sources; it is to test whether a block lies in a range.\<close>

definition in_range_ok :: "'w ext4_env \<Rightarrow> bool" where
  "in_range_ok env \<longleftrightarrow> (\<forall>b first len. 0 < sint len \<and> sint first + sint len < 2 ^ 31 \<longrightarrow>
     IN_RANGE env b first len = (sint first \<le> sint b \<and> sint b < sint first + sint len))"

lemma sint_sub_32:
  fixes a b :: "32 word"
  assumes "- (2 ^ 31) \<le> sint a - sint b" "sint a - sint b < 2 ^ 31"
  shows "sint (a - b) = sint a - sint b"
  unfolding sint_word_ariths using assms by (simp add: signed_take_bit_int_eq_self)

lemma mapped_block:
  assumes "covers e (sint b)"
  shows "sint (b - e_block e) = sint b - ekey e" "u64_of_u32 (b - e_block e) + pb = pb + word_of_int (sint b - ekey e)"
proof -
  show d: "sint (b - e_block e) = sint b - ekey e"
    using assms ext_len_bound(2) [of e] unfolding ekey_def covers_def by (intro sint_sub_32) auto
  have "scast w = (word_of_int (sint w) :: u64)" for w :: u32 by simp
  then show "u64_of_u32 (b - e_block e) + pb = pb + word_of_int (sint b - ekey e)"
    by (simp only: u64_of_u32_def d add.commute)
qed

lemma left_in_extent:
  assumes "covers e (sint b)"
  shows "sint (u32_of_u16 (ucast (ext4_ext_get_actual_len e)) - (b - e_block e)) = ext_len e - (sint b - ekey e)"
  using assms ext_len_bound [of e] mapped_block(1) [OF assms] unfolding covers_def
  by (subst sint_sub_32) (auto simp: sint_mapped_len)

text \<open>What the caller gets for a block: the physical block and the length of a run of blocks.\<close>

definition lookup_ok :: "ext4_entry list \<Rightarrow> u32 \<Rightarrow> u32 \<Rightarrow> ext4_fsblk_t \<Rightarrow> u32 \<Rightarrow> bool" where
  "lookup_ok xs iblock max_blocks pb cnt = (case extent_map xs (sint iblock) of
     None \<Rightarrow> pb = 0 \<and> cnt = 0
   | Some (unwritten, b) \<Rightarrow> pb = (if unwritten then 0 else b) \<and> sint cnt \<le> sint max_blocks
       \<and> (0 < sint max_blocks \<longrightarrow> 0 < sint cnt)
       \<and> (\<forall>k. 0 \<le> k \<and> k < sint cnt \<longrightarrow> extent_map xs (sint iblock + k) = Some (unwritten, b + word_of_int k)))"

lemma lookup_covered:
  assumes "disjoint_extents xs" "e \<in> set xs" "covers e (sint iblock)"
  defines "left \<equiv> u32_of_u16 (ucast (ext4_ext_get_actual_len e)) - (iblock - e_block e)"
  shows "lookup_ok xs iblock max_blocks
     (if ext4_ext_is_unwritten e then 0 else u64_of_u32 (iblock - e_block e) + ext4_ext_pblk e)
     (if u32_lt max_blocks left then max_blocks else left)"
proof -
  have left: "sint left = ext_len e - (sint iblock - ekey e)" unfolding left_def by (rule left_in_extent [OF assms(3)])
  have run: "extent_map xs (sint iblock + k) = Some (map_in e (sint iblock + k))" if "0 \<le> k" "k < sint left" for k
    using that assms(3) unfolding left by (intro extent_map_covered [OF assms(1,2)]) (auto simp: covers_def)
  have step: "map_in e (sint iblock + k) = (ext4_ext_is_unwritten e, ext4_ext_pblk e + word_of_int (sint iblock - ekey e) + word_of_int k)" for k
    by (simp add: map_in_def algebra_simps)
  have "0 < sint left" using assms(3) unfolding left by (auto simp: covers_def)
  moreover have "extent_map xs (sint iblock) = Some (map_in e (sint iblock))" by (rule extent_map_covered [OF assms(1-3)])
  ultimately show ?thesis
    using run unfolding mapped_block(2) [OF assms(3)]
    by (auto simp: lookup_ok_def map_in_def step)
qed

lemma get_blocks_out2_view:
  assumes "keeps_nodes env" "refs_ok (nodes s) path" "p_depth (path ! 0) = int d" "d < length path"
  shows "\<exists>s'. get_blocks_out2 env err r c path s = Some (err, r, c, s') \<and> view (nodes s') = view (nodes s)"
  using drop_refs_view [OF assms] by (auto simp: get_blocks_out2_def)

lemma get_blocks_lookup:
  assumes "inode_depth s = Some d" "tree_ok d (nodes s) Root" "disjoint_extents (extents_below d (nodes s) Root)"
    and "reads_clean env s" "calloc_ok env s (d + 2)" "keeps_nodes env" "in_range_ok env"
    and create: "create \<Longrightarrow> \<exists>q. extent_map (extents_below d (nodes s) Root) (sint iblock) = Some (False, q)"
  shows "\<exists>pb cnt s'. ext4_extent_get_blocks env iblock max_blocks create s = Some (EOK, pb, cnt, s')
     \<and> lookup_ok (extents_below d (nodes s) Root) iblock max_blocks pb cnt \<and> view (nodes s') = view (nodes s)"
proof -
  let ?all = "extents_below d (nodes s) Root" and ?e = "closest (extents_below d (nodes s) Root) iblock"
  obtain path w leaf where find: "ext4_find_extent env iblock None s = Some (EOK, Some path, s\<lparr>world := w\<rparr>)"
    "length path = d + 2" "p_header (path ! d) = Some leaf"
    and ext: "if ?all = [] then p_extent (path ! d) = None
        else \<exists>i. p_extent (path ! d) = Some i \<and> entry_at s (Some leaf) (Some i) = Some ?e"
    and refs: "refs_ok (nodes s) path" "p_depth (path ! 0) = int d"
    using find_extent_found [OF assms(1,2) disjoint_ordered [OF assms(3)] assms(4,5), of iblock] by (auto split: if_splits)
  let ?s = "s\<lparr>world := w\<rparr>"
  have out: "\<exists>s'. get_blocks_out2 env EOK r c path ?s = Some (EOK, r, c, s') \<and> view (nodes s') = view (nodes s)" for r c
    using get_blocks_out2_view [OF assms(6), of ?s path d] refs find(2) by simp
  have here: "inode_depth ?s = Some d" "path_at path d = Some (path ! d)"
    using assms(1) find(2) by (simp_all add: inode_depth_def path_at_def)
  have none: "lookup_ok ?all iblock max_blocks 0 0" if "extent_map ?all (sint iblock) = None"
    using that by (simp add: lookup_ok_def)
  show ?thesis
  proof (cases "?all = []")
    case True
    then have no: "extent_map ?all (sint iblock) = None" by (simp add: extent_map_def)
    then have "ext4_extent_get_blocks env iblock max_blocks create s = get_blocks_out2 env EOK 0 0 path ?s"
      using True find(1) ext here create by (auto simp: ext4_extent_get_blocks_def)
    with no show ?thesis using out none by metis
  next
    case False
    let ?in = "IN_RANGE env iblock (le32_to_cpu (e_block ?e)) (u32_of_u16 (ucast (ext4_ext_get_actual_len ?e)))"
    have e: "?e \<in> set ?all" using closest_in [OF False] .
    have "0 < ext_len ?e \<and> ekey ?e + ext_len ?e < 2 ^ 31" using assms(3) e by (simp add: disjoint_extents_def)
    then have in_range: "?in \<longleftrightarrow> covers ?e (sint iblock)"
      using assms(7) by (simp add: in_range_ok_def sint_mapped_len covers_def ekey_def endian_defs)
    have run: "ext4_extent_get_blocks env iblock max_blocks create s = (if ?in
        then get_blocks_mapped env ?e iblock max_blocks create path ?s else get_blocks_out2 env EOK 0 0 path ?s)" if "create \<Longrightarrow> ?in"
      using that find ext here False by (auto simp: ext4_extent_get_blocks_def entry_at_def node_at_def)
    show ?thesis
    proof (cases "covers ?e (sint iblock)")
      case True
      have "create \<Longrightarrow> \<not> ext4_ext_is_unwritten ?e"
        using create extent_map_covered [OF assms(3) e True] by (auto simp: map_in_def)
      then have "get_blocks_mapped env ?e iblock max_blocks create path ?s
          = get_blocks_out2 env EOK (if ext4_ext_is_unwritten ?e then 0 else u64_of_u32 (iblock - e_block ?e) + ext4_ext_pblk ?e)
             (if u32_lt max_blocks (u32_of_u16 (ucast (ext4_ext_get_actual_len ?e)) - (iblock - e_block ?e)) then max_blocks
              else u32_of_u16 (ucast (ext4_ext_get_actual_len ?e)) - (iblock - e_block ?e)) path ?s"
        by (auto simp: get_blocks_mapped_def get_blocks_out_def Let_def endian_defs)
      then show ?thesis
        using run in_range True out lookup_covered [OF assms(3) e True] by metis
    next
      case no: False
      have miss: "extent_map ?all (sint iblock) = None"
        using no closest_covers [OF assms(3)] unfolding extent_map_None by metis
      then have "\<not> create" using create by auto
      with miss show ?thesis using run in_range no out none by metis
    qed
  qed
qed

text \<open>
  C3. On a well-formed tree whose extents do not overlap, \<open>ext4_extent_get_blocks\<close> without \<open>create\<close> gives what the
  extents have for the block: the physical block, 0 where it is unwritten, and the length of a run of blocks that are mapped one
  after the other, at most \<open>max_blocks\<close>; both are 0 where no extent has the block.  The tree stays as it is.
\<close>

theorem ext4_get_blocks_lookup:
  assumes "inode_depth s = Some d" "tree_ok d (nodes s) Root" "disjoint_extents (extents_below d (nodes s) Root)"
    and "reads_clean env s" "calloc_ok env s (d + 2)" "keeps_nodes env" "in_range_ok env"
  shows "\<exists>pb cnt s'. ext4_extent_get_blocks env iblock max_blocks False s = Some (EOK, pb, cnt, s')
     \<and> (case extent_map (extents_below d (nodes s) Root) (sint iblock) of
          None \<Rightarrow> pb = 0 \<and> cnt = 0
        | Some (unwritten, b) \<Rightarrow> pb = (if unwritten then 0 else b) \<and> sint cnt \<le> sint max_blocks
            \<and> (0 < sint max_blocks \<longrightarrow> 0 < sint cnt)
            \<and> (\<forall>k. 0 \<le> k \<and> k < sint cnt \<longrightarrow>
                 extent_map (extents_below d (nodes s) Root) (sint iblock + k) = Some (unwritten, b + word_of_int k)))
     \<and> extents_below d (nodes s') Root = extents_below d (nodes s) Root \<and> tree_ok d (nodes s') Root"
proof -
  obtain pb cnt s' where run: "ext4_extent_get_blocks env iblock max_blocks False s = Some (EOK, pb, cnt, s')"
    "lookup_ok (extents_below d (nodes s) Root) iblock max_blocks pb cnt" "view (nodes s') = view (nodes s)"
    using get_blocks_lookup [OF assms, of False] by blast
  show ?thesis
    using run(1,2) view_tree [OF run(3), of d Root] assms(2) unfolding lookup_ok_def by blast
qed

theorem ext4_get_blocks_lookup_witness:
  "\<exists>cnt s'. ext4_extent_get_blocks example_ext4_env 22 2 False example_tree = Some (EOK, 2002, cnt, s') \<and> 0 < sint cnt \<and> sint cnt \<le> 2"
proof -
  let ?es = "[example_entry 0 10 1000, example_entry 20 5 2000, example_entry 50 8 3000]"
  have es: "extents_below 1 (nodes example_tree) Root = ?es" by (rule example_tree_below)
  have "disjoint_extents ?es" by code_simp
  moreover have "keeps_nodes example_ext4_env" "in_range_ok example_ext4_env"
    by (simp_all add: keeps_nodes_def in_range_ok_def example_ext4_env_def)
  moreover have "extent_map ?es 22 = Some (False, 2002)" by code_simp
  ultimately show ?thesis
    using ext4_get_blocks_lookup [OF example_tree_ok(1,2) _ example_tree_ok(4,5), of 22 2] unfolding es by auto
qed

end
