(* ===== verification/Ext4_Extent_Split.thy ===== *)
theory Ext4_Extent_Split
  imports Ext4_Extent_Map
begin

text \<open>
  What splitting an extent does to the map of an inode, and what becomes of an unwritten extent that is
  written in part: only a proper front part is converted as it should be.
\<close>

section \<open>Inserting where there is room\<close>

lemma no_combine [simp]: "leaf_merge EXT4_EXT_NO_COMBINE cur newext = None"
  by (simp add: leaf_merge_def EXT4_EXT_NO_COMBINE_def split: option.split)

text \<open>Without a split, inserting an extent is inserting it into the leaf.\<close>

lemma insert_extent_no_split:
  assumes "inode_depth s = Some d" "ext4_ext_insert_leaf env path d newext flags s = Some (EOK, need_split, path', s')"
  shows "ext4_ext_insert_extent env path newext flags s = Some (EOK, path', s')"
  using assms by (subst ext4_ext_insert_extent_def, subst insert_extent_loop.simps)
    (simp add: insert_extent_round_def insert_extent_out_def)

section \<open>The parts of an extent\<close>

lemma new_extent_parts [simp]:
  "e_block (new_extent b len pb) = b" "ee_len (new_extent b len pb) = ucast len"
  "ekey (new_extent b len pb) = sint b"
  by (simp_all add: new_extent_def endian_defs ekey_def ext4_ext_store_pblk_def set_ee_len_def set_ee_start_def ee_len_def)

lemma new_extent_pblk:
  assumes "\<not> bit pb 31" "drop_bit 47 pb = 0"
  shows "ext4_ext_pblk (new_extent b len pb) = pb"
  using join_pblk_parts [OF assms] by (simp add: new_extent_def pblk_accessors)

lemma new_extent_lo:
  assumes "\<not> bit pb 31"
  shows "\<not> bit (ee_start_lo (new_extent b len pb)) 31"
  using assms by (simp add: new_extent_def pblk_accessors bit_simps)

lemma set_len_parts [simp]:
  "e_block (set_ee_len w e) = e_block e" "ekey (set_ee_len w e) = ekey e" "ext4_ext_pblk (set_ee_len w e) = ext4_ext_pblk e"
  "ee_start_lo (set_ee_len w e) = ee_start_lo e"
  by (simp_all add: set_ee_len_def ekey_def ext4_ext_pblk_def ee_start_lo_def ee_start_hi_def)

lemma ext_len_small: "uint (ee_len e) < 2 ^ 15 \<Longrightarrow> ext_len e = uint (ee_len e)"
  by (simp add: ext_len_def)

text \<open>Marking a part: it keeps its blocks and gets the flag.\<close>

lemma mark_if_parts:
  assumes "0 < uint (ee_len e)" "uint (ee_len e) < 2 ^ 15"
  shows "\<exists>e'. mark_if u e = Some e' \<and> e_block e' = e_block e \<and> ekey e' = ekey e \<and> ext4_ext_pblk e' = ext4_ext_pblk e
     \<and> ee_start_lo e' = ee_start_lo e \<and> ext_len e' = uint (ee_len e) \<and> ext4_ext_is_unwritten e' = u"
proof (cases u)
  case True
  have "ext_len (set_ee_len (ee_len e OR 0x8000) e) = uint (ee_len e)"
    using mark_unwritten_len(1) [OF assms] assms by (simp add: ext_len_def)
  then show ?thesis
    using True mark_unwritten_len [OF assms] assms by (simp add: mark_if_def is_unwritten_iff)
next
  case False
  then show ?thesis using assms by (simp add: mark_if_def is_unwritten_iff ext_len_small)
qed

text \<open>The lengths of the two parts, as they are cut to 16 bits.\<close>

lemma uint_cut:
  fixes w :: "32 word"
  assumes "0 \<le> sint w" "sint w < 2 ^ 16"
  shows "uint (ucast w :: u16) = sint w"
proof -
  have "uint w = sint w mod 2 ^ 32" by (simp add: uint_sint take_bit_eq_mod)
  then have "uint w = sint w" using assms by simp
  then show ?thesis using assms by (simp add: unsigned_ucast_eq take_bit_eq_mod)
qed

lemma front_len:
  assumes "covers e (sint split)"
  shows "uint (ucast (split - e_block e) :: u16) = sint split - ekey e"
  using uint_cut [of "split - e_block e"] mapped_block(1) [OF assms] ext_len_bound(2) [of e] assms
  by (simp add: covers_def)

lemma back_len:
  assumes "covers e (sint split)"
  shows "uint (ucast (ext4_ext_get_actual_len e - (split - e_block e)) :: u16) = ext_len e - (sint split - ekey e)"
proof -
  have cut: "uint (ucast x :: u16) = uint x mod 2 ^ 16" for x :: "32 word"
    by (simp add: unsigned_ucast_eq take_bit_eq_mod)
  let ?a = "ext4_ext_get_actual_len e" and ?b = "split - e_block e"
  have "uint (?a - ?b) = (uint ?a - uint ?b) mod 2 ^ 32" by (simp only: uint_word_ariths len_num1 len_bit0) simp
  then have "uint (ucast (?a - ?b) :: u16) = (uint ?a - uint ?b) mod 2 ^ 16"
    unfolding cut by (simp add: mod_mod_cancel)
  also have "\<dots> = (uint ?a mod 2 ^ 16 - uint ?b mod 2 ^ 16) mod 2 ^ 16" by (simp only: mod_diff_eq)
  also have "\<dots> = (ext_len e - (sint split - ekey e)) mod 2 ^ 16"
    using uint_low15 [of e] front_len [OF assms] unfolding cut by (simp only:)
  also have "\<dots> = ext_len e - (sint split - ekey e)"
    using ext_len_bound [of e] assms by (intro mod_pos_pos_trivial) (auto simp: covers_def)
  finally show ?thesis .
qed

section \<open>The map after a split\<close>

lemma find_app: "find P (xs @ ys) = (case find P xs of None \<Rightarrow> find P ys | Some x \<Rightarrow> Some x)"
  by (induction xs) auto

lemma extent_map_split:
  assumes dis: "disjoint_extents (ys @ e # zs)" and k: "0 < k" "k < ext_len e"
    and f: "ekey f = ekey e" "ext_len f = k" "ext4_ext_pblk f = ext4_ext_pblk e"
    and g: "ekey g = ekey e + k" "ext_len g = ext_len e - k" "ext4_ext_pblk g = ext4_ext_pblk e + word_of_int k"
  shows "disjoint_extents (ys @ f # g # zs)"
    and "extent_map (ys @ f # g # zs) b = (if covers e b
      then Some (if b < ekey e + k then ext4_ext_is_unwritten f else ext4_ext_is_unwritten g, snd (map_in e b))
      else extent_map (ys @ e # zs) b)"
proof -
  show "disjoint_extents (ys @ f # g # zs)"
    using dis k f(1,2) g(1,2) by (fastforce simp: disjoint_extents_def sorted_wrt_append)
  show "extent_map (ys @ f # g # zs) b = (if covers e b
      then Some (if b < ekey e + k then ext4_ext_is_unwritten f else ext4_ext_is_unwritten g, snd (map_in e b))
      else extent_map (ys @ e # zs) b)"
  proof (cases "covers e b")
    case True
    then have ys: "find (\<lambda>e. covers e b) ys = None"
      using disjoint_split(1) [OF dis] by (fastforce simp: find_None_iff covers_def)
    show ?thesis
    proof (cases "b < ekey e + k")
      case front: True
      then have "covers f b" using True f by (simp add: covers_def)
      then show ?thesis using True front ys f(1,3) by (simp add: extent_map_def map_in_def find_app)
    next
      case behind: False
      then have "\<not> covers f b" "covers g b" using True f(1,2) g(1,2) by (simp_all add: covers_def)
      moreover have "word_of_int k + word_of_int (b - (ekey e + k)) = (word_of_int (b - ekey e) :: u64)"
        by (simp only: wi_hom_syms) simp
      ultimately show ?thesis using True behind ys g(1,3) by (simp add: extent_map_def map_in_def find_app add.assoc)
    qed
  next
    case False
    then have "\<not> covers f b" "\<not> covers g b" using f(1,2) g(1,2) k by (auto simp: covers_def)
    with False show ?thesis by (simp add: extent_map_def find_app split: option.split)
  qed
qed

lemma update_entry_node:
  assumes "nodes s l = Some n" "node_ok d n" "j < length (entries_of n)" "f (entries_of n ! j) = Some e'"
  shows "\<exists>n'. update_entry (Some l) (Some (int j)) f s = Some (put_node l n' s) \<and> n_hdr n' = n_hdr n
     \<and> entries_of n' = (entries_of n)[j := e'] \<and> node_ok d n'"
proof -
  have "slot n (int j) = Some (entries_of n ! j)" using node_ok_slot [OF assms(2), of "int j"] assms(3) by simp
  moreover have "j < length (n_slots n)" using assms(3) by (simp add: entries_of_def)
  ultimately show ?thesis
    using assms by (intro exI [of _ "n\<lparr>n_slots := (n_slots n)[j := e']\<rparr>"])
      (simp add: update_entry_def update_node_def set_slot_def entries_of_def node_ok_def take_update_swap)
qed

text \<open>
  The slots of a leaf with room are split at the entry \<open>j\<close>, which the path points to.
\<close>

definition leaf_at :: "'w ext4_state \<Rightarrow> ext4_extent_path list \<Rightarrow> nat \<Rightarrow> ext4_extent_path \<Rightarrow> loc \<Rightarrow> ext4_node \<Rightarrow> nat \<Rightarrow> bool" where
  "leaf_at s path d p l n j \<longleftrightarrow> inode_depth s = Some d \<and> path_at path d = Some p \<and> p_header p = Some l
     \<and> nodes s l = Some n \<and> p_extent p = Some (int j) \<and> j < length (entries_of n) \<and> (d = 0 \<or> 0 < j)
     \<and> node_ok 0 n \<and> disjoint_extents (entries_of n)"

definition storable :: "ext4_fsblk_t \<Rightarrow> bool" where
  "storable pb \<longleftrightarrow> \<not> bit pb 31 \<and> drop_bit 47 pb = 0"

lemma splits_between:
  assumes "\<forall>x \<in> set ys. ekey x < sint b" "\<forall>x \<in> set zs. sint b < ekey x" "length ys = Suc j"
  shows "splits_at (ys @ zs) b j"
  unfolding splits_at_def
proof (intro conjI allI impI)
  fix i assume "0 < i \<and> i \<le> j"
  then have "i < length ys" using assms(3) by simp
  then have "(ys @ zs) ! i \<in> set ys" by (metis nth_append nth_mem)
  then show "ekey ((ys @ zs) ! i) \<le> sint b" using assms(1) by (meson less_imp_le)
next
  fix i assume "j < i \<and> i < length (ys @ zs)"
  then have "\<not> i < length ys" "i - length ys < length zs" using assms(3) by auto
  then have "(ys @ zs) ! i \<in> set zs" by (metis nth_append nth_mem)
  then show "sint b < ekey ((ys @ zs) ! i)" using assms(2) by blast
qed (use assms(3) in simp)

text \<open>The two halves of an extent that is cut before block \<open>split\<close>, with their marks.\<close>

definition halves_of :: "u32 \<Rightarrow> bool \<Rightarrow> bool \<Rightarrow> ext4_entry \<Rightarrow> ext4_entry \<Rightarrow> ext4_entry \<Rightarrow> bool" where
  "halves_of split u1 u2 e f g \<longleftrightarrow>
     mark_if u1 (set_ee_len (ucast (split - e_block e)) e) = Some f
     \<and> mark_if u2 (new_extent split (ext4_ext_get_actual_len e - (split - e_block e))
         (u64_of_u32 (split - e_block e) + ext4_ext_pblk e)) = Some g
     \<and> e_block f = e_block e \<and> ekey f = ekey e \<and> ext4_ext_pblk f = ext4_ext_pblk e
     \<and> ext_len f = sint split - ekey e \<and> ext4_ext_is_unwritten f = u1
     \<and> e_block g = split \<and> ekey g = sint split \<and> ext4_ext_pblk g = ext4_ext_pblk e + word_of_int (sint split - ekey e)
     \<and> \<not> bit (ee_start_lo g) 31 \<and> ext_len g = ext_len e - (sint split - ekey e) \<and> ext4_ext_is_unwritten g = u2"

lemma halves_exist:
  assumes split: "ekey e < sint split" "covers e (sint split)" and pb: "storable (snd (map_in e (sint split)))"
  shows "\<exists>f g. halves_of split u1 u2 e f g"
proof -
  let ?k = "sint split - ekey e"
  have k: "0 < ?k" "?k < ext_len e" using split by (auto simp: covers_def)
  let ?nb = "u64_of_u32 (split - e_block e) + ext4_ext_pblk e"
  have nb: "?nb = ext4_ext_pblk e + word_of_int ?k" by (rule mapped_block(2) [OF split(2)])
  have store: "\<not> bit ?nb 31" "drop_bit 47 ?nb = 0" using pb unfolding nb by (simp_all add: storable_def map_in_def)
  let ?f = "set_ee_len (ucast (split - e_block e)) e"
    and ?g = "new_extent split (ext4_ext_get_actual_len e - (split - e_block e)) ?nb"
  have len: "uint (ee_len ?f) = ?k" "uint (ee_len ?g) = ext_len e - ?k"
    using front_len [OF split(2)] back_len [OF split(2)] by simp_all
  obtain f where f: "mark_if u1 ?f = Some f" "e_block f = e_block e" "ekey f = ekey e" "ext4_ext_pblk f = ext4_ext_pblk e"
    "ext_len f = ?k" "ext4_ext_is_unwritten f = u1"
    using mark_if_parts [of ?f u1] len(1) k ext_len_bound(2) [of e] by auto
  obtain g where g: "mark_if u2 ?g = Some g" "e_block g = split" "ekey g = sint split" "ext4_ext_pblk g = ?nb"
    "ee_start_lo g = ee_start_lo ?g" "ext_len g = ext_len e - ?k" "ext4_ext_is_unwritten g = u2"
    using mark_if_parts [of ?g u2] len(2) k ext_len_bound(2) [of e] new_extent_pblk [OF store] by auto
  have "\<not> bit (ee_start_lo g) 31" "ext4_ext_pblk g = ext4_ext_pblk e + word_of_int ?k"
    using g(4,5) new_extent_lo [OF store(1)] nb by simp_all
  then show ?thesis unfolding halves_of_def using f g(1-3,6,7) by blast
qed

lemma split_extent_parts:
  assumes at: "leaf_at s path d p l n j" and room: "sint (eh_entries (n_hdr n)) < sint (eh_max (n_hdr n))"
    and split: "ekey (entries_of n ! j) < sint split" "covers (entries_of n ! j) (sint split)"
    and pb: "storable (snd (map_in (entries_of n ! j) (sint split)))" and env: "dirty_marks_only env"
  shows "\<exists>f g s' n'. halves_of split (flag AND EXT4_EXT_MARK_UNWRIT1 \<noteq> 0) (flag AND EXT4_EXT_MARK_UNWRIT2 \<noteq> 0) (entries_of n ! j) f g
     \<and> ext4_ext_split_extent_at env path split flag s
         = Some (EOK, path[d := p\<lparr>p_extent := Some (int (Suc j)), p_block := ext4_ext_pblk g\<rparr>], s')
     \<and> nodes s' = (nodes s)(l \<mapsto> n') \<and> node_ok 0 n' \<and> eh_max (n_hdr n') = eh_max (n_hdr n)
     \<and> entries_of n' = take j (entries_of n) @ f # g # drop (Suc j) (entries_of n)"
proof -
  let ?es = "entries_of n"
  let ?e = "?es ! j"
  let ?u1 = "flag AND EXT4_EXT_MARK_UNWRIT1 \<noteq> 0" and ?u2 = "flag AND EXT4_EXT_MARK_UNWRIT2 \<noteq> 0"
  have path: "inode_depth s = Some d" "path_at path d = Some p" "p_header p = Some l" "nodes s l = Some n"
    "p_extent p = Some (int j)" and j: "j < length ?es" "d = 0 \<or> 0 < j" and n: "node_ok 0 n" "disjoint_extents ?es"
    using at by (simp_all add: leaf_at_def)
  have es: "?es = take j ?es @ ?e # drop (Suc j) ?es" by (rule id_take_nth_drop [OF j(1)])
  have ent: "entry_at s (Some l) (Some (int j)) = Some ?e"
    using node_ok_slot [OF n(1), of "int j"] j(1) path(4) by (simp add: entry_at_def node_at_def)
  obtain f g where fg: "halves_of split ?u1 ?u2 ?e f g" using halves_exist [OF split pb] by blast
  then have f: "mark_if ?u1 (set_ee_len (ucast (split - e_block ?e)) ?e) = Some f" "ekey f = ekey ?e"
    and g: "mark_if ?u2 (new_extent split (ext4_ext_get_actual_len ?e - (split - e_block ?e))
        (u64_of_u32 (split - e_block ?e) + ext4_ext_pblk ?e)) = Some g" "e_block g = split" "ekey g = sint split"
      "\<not> bit (ee_start_lo g) 31"
    by (simp_all add: halves_of_def)
  obtain n1 where n1: "update_entry (Some l) (Some (int j)) (\<lambda>e. mark_if ?u1 (set_ee_len (ucast (split - e_block ?e)) e)) s = Some (put_node l n1 s)"
    "n_hdr n1 = n_hdr n" "entries_of n1 = ?es[j := f]" "node_ok 0 n1"
    using update_entry_node [OF path(4) n(1) j(1), of _ f] f(1) by metis
  let ?s1 = "snd (ext4_ext_dirty env p (put_node l n1 s))"
  have s1: "nodes ?s1 = (nodes s)(l \<mapsto> n1)" "inode_depth ?s1 = Some d"
    using dirty_nodes(1) [OF env] path(1,4) n1(2) by (auto simp: put_node_def inode_depth_def)
  let ?ys = "take j ?es" and ?zs = "drop (Suc j) ?es"
  have es1: "entries_of n1 = ?ys @ f # ?zs" using n1(3) j(1) by (simp add: upd_conv_take_nth_drop)
  have dis: "disjoint_extents (?ys @ ?e # ?zs)" using n(2) es by simp
  have below: "ekey x < sint split" if "x \<in> set (?ys @ [f])" for x
    using that disjoint_split(1) [OF dis] ext_len_bound(1) [of x] split(1) f(2) by fastforce
  have above: "sint split < ekey x" if "x \<in> set ?zs" for x
    using that disjoint_split(2) [OF dis] split(2) by (fastforce simp: covers_def)
  have "\<forall>x \<in> set (entries_of n1). ekey x \<noteq> ekey g" using below above unfolding es1 g(3) by fastforce
  then have new: "\<forall>x \<in> set (entries_of n1). e_block x \<noteq> e_block g" by (auto simp: ekey_def)
  have at_j: "entries_of n1 ! j = f" "j < length (entries_of n1)" using n1(3) j(1) by simp_all
  have room1: "sint (eh_entries (n_hdr n1)) < sint (eh_max (n_hdr n1))" using room n1(2) by simp
  have k: "Suc j = (if ekey (entries_of n1 ! j) < ekey g then Suc j else j)" using f(2) g(3) split(1) at_j(1) by simp
  have "nodes ?s1 l = Some n1" by (simp add: s1(1))
  from insert_leaf_beside [OF s1(2) path(2,3) this n1(4) room1 path(5) at_j(2) j(2) new _ g(4) env k, of EXT4_EXT_NO_COMBINE]
  obtain s' n' where ins: "ext4_ext_insert_leaf env path d g EXT4_EXT_NO_COMBINE ?s1 = Some (EOK, False,
       path[d := p\<lparr>p_extent := Some (int (Suc j)), p_block := ext4_ext_pblk g\<rparr>], s')"
     "nodes s' = (nodes ?s1)(l \<mapsto> n')" "node_ok 0 n'" "eh_max (n_hdr n') = eh_max (n_hdr n1)"
     "entries_of n' = take (Suc j) (entries_of n1) @ g # drop (Suc j) (entries_of n1)"
    by auto
  have es2: "entries_of n' = ?ys @ f # g # ?zs" using ins(5) j(1) unfolding es1 by (simp add: Suc_diff_le)
  have "ext4_ext_split_extent_at env path split flag s = Some (EOK,
       path[d := p\<lparr>p_extent := Some (int (Suc j)), p_block := ext4_ext_pblk g\<rparr>], s')"
    using path ent split(1) n1(1) g(1) insert_extent_no_split [OF s1(2) ins(1)] dirty_nodes(2) [of env p "put_node l n1 s"]
    by (auto simp: ext4_ext_split_extent_at_def Let_def endian_defs ekey_def split: prod.split)
  moreover have "nodes s' = (nodes s)(l \<mapsto> n')" using ins(2) s1(1) by simp
  ultimately show ?thesis using fg ins(3,4) n1(2) es2 by auto
qed

lemma split_extent_splits:
  assumes at: "leaf_at s path d p l n j" and room: "sint (eh_entries (n_hdr n)) < sint (eh_max (n_hdr n))"
    and split: "ekey (entries_of n ! j) < sint split" "covers (entries_of n ! j) (sint split)"
    and pb: "storable (snd (map_in (entries_of n ! j) (sint split)))" and env: "dirty_marks_only env"
  shows "\<exists>path' s' n'. ext4_ext_split_extent_at env path split flag s = Some (EOK, path', s')
     \<and> nodes s' = (nodes s)(l \<mapsto> n') \<and> node_ok 0 n' \<and> disjoint_extents (entries_of n')
     \<and> (\<forall>b. extent_map (entries_of n') b = (if covers (entries_of n ! j) b
           then Some (flag AND (if b < sint split then EXT4_EXT_MARK_UNWRIT1 else EXT4_EXT_MARK_UNWRIT2) \<noteq> 0,
                  snd (map_in (entries_of n ! j) b))
           else extent_map (entries_of n) b))"
proof -
  let ?es = "entries_of n" and ?k = "sint split - ekey (entries_of n ! j)"
  let ?u1 = "flag AND EXT4_EXT_MARK_UNWRIT1 \<noteq> 0" and ?u2 = "flag AND EXT4_EXT_MARK_UNWRIT2 \<noteq> 0"
  obtain f g s' n' where fg: "halves_of split ?u1 ?u2 (?es ! j) f g"
    and run: "ext4_ext_split_extent_at env path split flag s
         = Some (EOK, path[d := p\<lparr>p_extent := Some (int (Suc j)), p_block := ext4_ext_pblk g\<rparr>], s')"
      "nodes s' = (nodes s)(l \<mapsto> n')" "node_ok 0 n'" "entries_of n' = take j ?es @ f # g # drop (Suc j) ?es"
    using split_extent_parts [OF assms, of flag] by blast
  have j: "j < length ?es" and dis: "disjoint_extents ?es" using at by (simp_all add: leaf_at_def)
  have es: "?es = take j ?es @ ?es ! j # drop (Suc j) ?es" by (rule id_take_nth_drop [OF j])
  have k: "0 < ?k" "?k < ext_len (?es ! j)" using split by (auto simp: covers_def)
  have f: "ekey f = ekey (?es ! j)" "ext_len f = ?k" "ext4_ext_pblk f = ext4_ext_pblk (?es ! j)" "ext4_ext_is_unwritten f = ?u1"
    and g: "ekey g = ekey (?es ! j) + ?k" "ext_len g = ext_len (?es ! j) - ?k" "ext4_ext_pblk g = ext4_ext_pblk (?es ! j) + word_of_int ?k"
      "ext4_ext_is_unwritten g = ?u2"
    using fg by (simp_all add: halves_of_def)
  have "disjoint_extents (take j ?es @ ?es ! j # drop (Suc j) ?es)" using dis es by simp
  note both = extent_map_split [OF this k f(1-3) g(1-3)]
  have "extent_map (entries_of n') b = (if covers (?es ! j) b
           then Some (flag AND (if b < sint split then EXT4_EXT_MARK_UNWRIT1 else EXT4_EXT_MARK_UNWRIT2) \<noteq> 0, snd (map_in (?es ! j) b))
           else extent_map ?es b)" for b
    using both(2) [of b] f(4) g(4) es unfolding run(4) by simp
  then show ?thesis using both(1) run by auto
qed

section \<open>Writing a part of an unwritten extent\<close>

lemma sint_add_32:
  fixes a b :: "32 word"
  assumes "- (2 ^ 31) \<le> sint a + sint b" "sint a + sint b < 2 ^ 31"
  shows "sint (a + b) = sint a + sint b"
  unfolding sint_word_ariths using assms by (simp add: signed_take_bit_int_eq_self)

text \<open>The length of an unwritten extent is read as a negative number, so no block follows the extent.\<close>

lemma unwritten_len:
  assumes "ext4_ext_is_unwritten e"
  shows "ext4_ext_get_actual_len e = word_of_int (ext_len e) - 2 ^ 16"
proof -
  have "2 ^ 15 \<le> uint (ee_len e)" using assms by (simp add: is_unwritten_iff)
  then have "(uint (ee_len e) - 2 ^ 15) mod 2 ^ 15 = uint (ee_len e) - 2 ^ 15"
    using uint_16 [of "ee_len e"] by (intro mod_pos_pos_trivial) simp_all
  then have l: "ext_len e = uint (ee_len e) - 2 ^ 15"
    using minus_mod_self2 [of "uint (ee_len e)" "2 ^ 15"] by (simp only: ext_len_def)
  have "(ucast (ee_len e) :: 32 word) = word_of_int (uint (ee_len e))" by simp
  then show ?thesis using assms by (simp add: actual_len_eq l wi_hom_syms)
qed

lemma unwritten_end:
  assumes "ext4_ext_is_unwritten e" "b - e_block e = word_of_int k" "0 \<le> k" "k \<le> ext_len e"
  shows "b \<noteq> e_block e + ext4_ext_get_actual_len e"
proof
  assume "b = e_block e + ext4_ext_get_actual_len e"
  then have "(word_of_int (ext_len e) - 2 ^ 16 :: 32 word) = word_of_int k"
    using assms(2) unwritten_len [OF assms(1)] by simp
  then have "(word_of_int (ext_len e - 2 ^ 16) :: 32 word) = word_of_int k" by (simp add: wi_hom_syms)
  then have "(ext_len e - 2 ^ 16) mod 2 ^ 32 = k mod 2 ^ 32"
    by (simp only: word_of_int_eq_iff take_bit_eq_mod) simp
  moreover have "(ext_len e - 2 ^ 16) mod 2 ^ 32 = (ext_len e - 2 ^ 16 + 2 ^ 32) mod 2 ^ 32" by (rule mod_add_self2 [symmetric])
  moreover have "(ext_len e - 2 ^ 16 + 2 ^ 32) mod 2 ^ 32 = ext_len e - 2 ^ 16 + 2 ^ 32"
    using ext_len_bound [of e] by (intro mod_pos_pos_trivial) simp_all
  moreover have "k mod 2 ^ 32 = k" using assms(3,4) ext_len_bound [of e] by (intro mod_pos_pos_trivial) auto
  ultimately show False using assms(4) by simp
qed

text \<open>
  C13. Splitting an extent inside, where its leaf has room, keeps the map: exactly the front part gets the
  state that the first flag asks for and the rest the state that the second one asks for, every block keeps
  its physical block, and the leaf stays well-formed and free of overlaps.
\<close>

theorem ext4_split_extent_refines:
  assumes "leaf_at s path d p l n j" "sint (eh_entries (n_hdr n)) < sint (eh_max (n_hdr n))"
    and "ekey (entries_of n ! j) < sint split" "covers (entries_of n ! j) (sint split)"
    and "storable (snd (map_in (entries_of n ! j) (sint split)))" "dirty_marks_only env"
  shows "\<exists>path' s' n'. ext4_ext_split_extent_at env path split flag s = Some (EOK, path', s')
     \<and> nodes s' = (nodes s)(l \<mapsto> n') \<and> node_ok 0 n' \<and> disjoint_extents (entries_of n')
     \<and> (\<forall>b. extent_map (entries_of n') b = (if covers (entries_of n ! j) b
           then Some (flag AND (if b < sint split then EXT4_EXT_MARK_UNWRIT1 else EXT4_EXT_MARK_UNWRIT2) \<noteq> 0,
                  snd (map_in (entries_of n ! j) b))
           else extent_map (entries_of n) b))"
  by (rule split_extent_splits [OF assms])

text \<open>A leaf in the root with one unwritten extent of ten blocks, and one that is full.\<close>

definition unwritten_leaf :: "unit ext4_state" where
  "unwritten_leaf = example_leaf\<lparr>nodes := [Root \<mapsto> example_node 0 4 [example_entry 0 0x800a 1000]]\<rparr>"

definition root_path :: "ext4_extent_path list" where
  "root_path = [zero_path\<lparr>p_header := Some Root, p_extent := Some 0\<rparr>]"

lemma unwritten_leaf_at:
  "leaf_at unwritten_leaf root_path 0 (hd root_path) Root (example_node 0 4 [example_entry 0 0x800a 1000]) 0"
  "entries_of (example_node 0 4 [example_entry 0 0x800a 1000]) ! 0 = example_entry 0 0x800a 1000"
  "sint (eh_entries (n_hdr (example_node 0 4 [example_entry 0 0x800a 1000]))) <
     sint (eh_max (n_hdr (example_node 0 4 [example_entry 0 0x800a 1000])))"
proof -
  have n: "node_ok 0 (example_node 0 4 [example_entry 0 0x800a 1000])"
    "entries_of (example_node 0 4 [example_entry 0 0x800a 1000]) = [example_entry 0 0x800a 1000]"
    by (rule example_node_ok; simp)+
  have "ext_len (example_entry 0 0x800a 1000) = 10" by code_simp
  then have "disjoint_extents [example_entry 0 0x800a 1000]" by (simp add: disjoint_extents_def ekey_def)
  then show "leaf_at unwritten_leaf root_path 0 (hd root_path) Root (example_node 0 4 [example_entry 0 0x800a 1000]) 0"
    using n by (simp add: leaf_at_def unwritten_leaf_def root_path_def path_at_def inode_depth_def zero_path_def)
      (simp add: example_node_def ext_depth_def endian_defs)
  show "entries_of (example_node 0 4 [example_entry 0 0x800a 1000]) ! 0 = example_entry 0 0x800a 1000" using n by simp
qed (simp add: example_node_def)

lemma unwritten_leaf_entry:
  "ekey (example_entry 0 0x800a 1000) = 0" "ext_len (example_entry 0 0x800a 1000) = 10"
  "ext4_ext_is_unwritten (example_entry 0 0x800a 1000)" "ext4_ext_pblk (example_entry 0 0x800a 1000) = 1000"
  by (simp add: ekey_def) code_simp+

lemma example_dirty: "dirty_marks_only example_ext4_env" by (simp add: dirty_marks_only_def example_ext4_env_def)

theorem ext4_split_extent_refines_witness:
  "\<exists>path' s' n'. ext4_ext_split_extent_at example_ext4_env root_path 4 EXT4_EXT_MARK_UNWRIT2 unwritten_leaf = Some (EOK, path', s')
     \<and> nodes s' Root = Some n' \<and> extent_map (entries_of n') 3 = Some (False, 1003) \<and> extent_map (entries_of n') 5 = Some (True, 1005)"
proof -
  have "covers (example_entry 0 0x800a 1000) b" if "0 \<le> b" "b < 10" for b
    using that by (simp add: covers_def unwritten_leaf_entry)
  then show ?thesis
    using ext4_split_extent_refines [OF unwritten_leaf_at(1,3), of 4 example_ext4_env EXT4_EXT_MARK_UNWRIT2]
    by (auto simp: unwritten_leaf_at(2) unwritten_leaf_entry example_dirty storable_def map_in_def drop_bit_eq_div
        EXT4_EXT_MARK_UNWRIT1_def EXT4_EXT_MARK_UNWRIT2_def)
qed



text \<open>
  C36. Converting the rest of an unwritten extent from any of its blocks on, the whole extent included,
  stops at the assertion of \<open>ext4_ext_mark_unwritten\<close>: the end of the extent is not
  recognised, and the extent is split behind its last block.
\<close>

theorem ext4_convert_to_end_asserts:
  assumes at: "leaf_at s path d p l n j" and un: "ext4_ext_is_unwritten (entries_of n ! j)"
    and cov: "covers (entries_of n ! j) (sint split)"
    and fin: "sint split + sint blocks = ekey (entries_of n ! j) + ext_len (entries_of n ! j)"
  shows "ext4_ext_convert_to_initialized env path split blocks s = None"
proof -
  let ?e = "entries_of n ! j"
  have path: "inode_depth s = Some d" "path_at path d = Some p" "p_header p = Some l" "nodes s l = Some n"
    "p_extent p = Some (int j)" and j: "j < length (entries_of n)" and n: "node_ok 0 n" "disjoint_extents (entries_of n)"
    using at by (simp_all add: leaf_at_def)
  have "?e \<in> set (entries_of n)" using j by simp
  then have bound: "ekey ?e + ext_len ?e < 2 ^ 31" "0 < ext_len ?e" using n(2) by (simp_all add: disjoint_extents_def)
  have ent: "entry_at s (Some l) (Some (int j)) = Some ?e"
    using node_ok_slot [OF n(1), of "int j"] j path(4) by (simp add: entry_at_def node_at_def)
  have "split + blocks = word_of_int (sint split + sint blocks)" by simp
  then have last: "split + blocks - e_block ?e = word_of_int (ext_len ?e)"
    unfolding fin by (simp add: ekey_def)
  have ne: "split + blocks \<noteq> e_block ?e + ext4_ext_get_actual_len ?e"
    using bound(2) by (intro unwritten_end [OF un last]) simp_all
  have inside: "split + blocks \<noteq> e_block ?e"
  proof
    assume "split + blocks = e_block ?e"
    then have "(word_of_int (ext_len ?e) :: 32 word) = 0" using last by simp
    then show False using bound(2) ext_len_bound(2) [of ?e] by (simp add: word_of_int_eq_0_iff zdvd_not_zless)
  qed
  have "(ucast (ext4_ext_get_actual_len ?e - (split + blocks - e_block ?e)) :: u16) = 0"
    unfolding last unwritten_len [OF un] by simp
  then have len0: "ee_len (new_extent (split + blocks) (ext4_ext_get_actual_len ?e - (split + blocks - e_block ?e)) pb) = 0" for pb
    by simp
  have zero: "ext4_ext_mark_unwritten g = None" if "ee_len g = 0" for g
    using that by (simp add: ext4_ext_mark_unwritten_def endian_defs u32_of_u16_def)
  have none: "ext4_ext_split_extent_at env path (split + blocks) flag s = None" if "flag AND EXT4_EXT_MARK_UNWRIT2 \<noteq> 0" for flag
    using path ent inside that zero [OF len0]
    by (auto simp: ext4_ext_split_extent_at_def Let_def endian_defs mark_if_def ext4_ext_dirty_def split: option.split bind_split)
  have "sint (e_block ?e) \<le> sint split" using cov by (simp add: covers_def ekey_def)
  then show ?thesis
    using path ent ne none [of EXT4_EXT_MARK_UNWRIT2] none [of "EXT4_EXT_MARK_UNWRIT1 OR EXT4_EXT_MARK_UNWRIT2"]
    by (simp add: ext4_ext_convert_to_initialized_def endian_defs EXT4_EXT_MARK_UNWRIT1_def EXT4_EXT_MARK_UNWRIT2_def)
qed

theorem ext4_convert_to_end_asserts_witness:
  "ext4_ext_convert_to_initialized example_ext4_env root_path 0 10 unwritten_leaf = None"
  using ext4_convert_to_end_asserts [OF unwritten_leaf_at(1), of 0 10 example_ext4_env]
  by (simp add: unwritten_leaf_at(2) unwritten_leaf_entry covers_def)

text \<open>
  Splitting an unwritten extent \<open>blocks\<close> in front of its first block, which is what the second split of a conversion asks for:
  the length of the first half is a negative number, so the extent stays where it is and becomes \<open>2 ^ 15 - blocks\<close> blocks long,
  and the new extent starts \<open>blocks\<close> before it and ends where it ended.
\<close>

lemma minus_len:
  fixes blocks :: u32
  assumes "0 < sint blocks" "sint blocks < 2 ^ 15"
  shows "uint (ucast (- blocks) :: u16) = 2 ^ 16 - sint blocks"
proof -
  have b: "uint blocks = sint blocks" using assms by (simp add: uint_sint take_bit_eq_mod)
  have "uint (ucast (- blocks) :: u16) = (- uint blocks) mod 2 ^ 32 mod 2 ^ 16"
    by (simp only: unsigned_ucast_eq take_bit_eq_mod uint_word_ariths len_num1 len_bit0) simp
  also have "\<dots> = (- uint blocks) mod 2 ^ 16" by (simp add: mod_mod_cancel)
  also have "\<dots> = (2 ^ 16 - sint blocks) mod 2 ^ 16" unfolding b by (metis mod_add_self1 uminus_add_conv_diff add.commute)
  also have "\<dots> = 2 ^ 16 - sint blocks" using assms by (intro mod_pos_pos_trivial) simp_all
  finally show ?thesis .
qed

text \<open>An extent that is unwritten already may be marked again.\<close>

lemma marked_again:
  fixes w :: u16
  assumes "bit w 15"
  shows "w OR 0x8000 = w" "ee_len g = w \<Longrightarrow> ext4_ext_mark_unwritten g = Some (set_ee_len w g)"
proof -
  have b: "bit (0x8000 :: u16) i \<longleftrightarrow> i = 15" for i
    using bit_push_bit_iff [of 15 "1 :: u16" i] by (auto simp: bit_1_iff)
  show same: "w OR 0x8000 = w" by (intro bit_word_eqI) (simp only: bit_or_iff b, use assms in auto)
  have b32: "bit (0x8000 :: u32) i \<longleftrightarrow> i = 15" for i
    using bit_push_bit_iff [of 15 "1 :: u32" i] by (auto simp: bit_1_iff)
  have "bit (u32_of_u16 w AND NOT 0x8000) 16" using assms by (simp add: u32_of_u16_def bit_and_iff bit_not_iff b32 bit_signed_iff min_def)
  moreover have "\<not> bit (0 :: u32) 16" by simp
  ultimately have "u32_of_u16 w AND NOT 0x8000 \<noteq> 0" by metis
  then show "ext4_ext_mark_unwritten g = Some (set_ee_len w g)" if "ee_len g = w"
    using that same by (simp add: ext4_ext_mark_unwritten_def endian_defs EXT_INIT_MAX_LEN_def)
qed

lemma lengthened_half:
  assumes "0 < sint blocks" "sint blocks < 2 ^ 15"
  shows "\<exists>g'. mark_if True (set_ee_len (ucast (- blocks :: u32)) g) = Some g' \<and> e_block g' = e_block g \<and> ekey g' = ekey g
     \<and> ext4_ext_pblk g' = ext4_ext_pblk g \<and> ext_len g' = 2 ^ 15 - sint blocks \<and> ext4_ext_is_unwritten g'"
proof -
  let ?w = "ucast (- blocks) :: u16" and ?g = "set_ee_len (ucast (- blocks)) g"
  have w: "uint ?w = 2 ^ 16 - sint blocks" by (rule minus_len [OF assms])
  have "uint ?w div 2 ^ 15 = 1" unfolding w using assms by simp
  then have "bit (uint ?w) 15" by (simp add: bit_iff_odd)
  then have "bit ?w 15" by (simp only: bit_uint_iff)
  note marked = marked_again(2) [OF this, of ?g]
  have "(2 ^ 16 - sint blocks) mod 2 ^ 15 = (2 ^ 15 - sint blocks + 2 ^ 15) mod 2 ^ 15" by simp
  also have "\<dots> = (2 ^ 15 - sint blocks) mod 2 ^ 15" by (rule mod_add_self2)
  also have "\<dots> = 2 ^ 15 - sint blocks" using assms by (intro mod_pos_pos_trivial) simp_all
  finally have "ext_len (set_ee_len ?w ?g) = 2 ^ 15 - sint blocks" using w by (simp add: ext_len_def) 
  then show ?thesis using w assms marked by (simp add: mark_if_def is_unwritten_iff)
qed

lemma refill_half:
  assumes un: "ext4_ext_is_unwritten g" and b: "0 < sint blocks" "ext_len g + sint blocks < 2 ^ 15"
    and pb: "storable (ext4_ext_pblk g - word_of_int (sint blocks))"
  shows "\<exists>h. mark_if False (new_extent split (ext4_ext_get_actual_len g + blocks) (u64_of_u32 (- blocks) + ext4_ext_pblk g)) = Some h
     \<and> e_block h = split \<and> ekey h = sint split \<and> ext4_ext_pblk h = ext4_ext_pblk g - word_of_int (sint blocks)
     \<and> \<not> bit (ee_start_lo h) 31 \<and> ext_len h = ext_len g + sint blocks \<and> \<not> ext4_ext_is_unwritten h"
proof -
  let ?h = "new_extent split (ext4_ext_get_actual_len g + blocks) (u64_of_u32 (- blocks) + ext4_ext_pblk g)"
  have "sint (0 - blocks) = sint (0 :: u32) - sint blocks" using b sint_lt [of blocks] by (intro sint_sub_32) simp_all
  then have neg: "sint (- blocks) = - sint blocks" by simp
  have "u64_of_u32 (- blocks) = - word_of_int (sint blocks)" unfolding u64_of_u32_def scast_eq neg by (rule wi_hom_neg [symmetric])
  then have nb: "u64_of_u32 (- blocks) + ext4_ext_pblk g = ext4_ext_pblk g - word_of_int (sint blocks)" by simp
  have st: "\<not> bit (ext4_ext_pblk g - word_of_int (sint blocks)) 31" "drop_bit 47 (ext4_ext_pblk g - word_of_int (sint blocks)) = 0"
    using pb by (simp_all add: storable_def)
  have "ext4_ext_get_actual_len g + blocks = word_of_int (ext_len g + sint blocks - 2 ^ 16)"
    by (simp add: unwritten_len [OF un])
  then have "uint (ucast (ext4_ext_get_actual_len g + blocks) :: u16) = (ext_len g + sint blocks - 2 ^ 16) mod 2 ^ 32 mod 2 ^ 16"
    by (simp only: unsigned_ucast_eq take_bit_eq_mod uint_word_of_int len_num1 len_bit0) simp
  also have "\<dots> = (ext_len g + sint blocks - 2 ^ 16) mod 2 ^ 16" by (simp add: mod_mod_cancel)
  also have "\<dots> = (ext_len g + sint blocks) mod 2 ^ 16" by (rule minus_mod_self2)
  also have "\<dots> = ext_len g + sint blocks" using b ext_len_bound(1) [of g] by (intro mod_pos_pos_trivial) simp_all
  finally have len: "uint (ee_len ?h) = ext_len g + sint blocks" by simp
  then have "ext_len ?h = ext_len g + sint blocks" "\<not> ext4_ext_is_unwritten ?h"
    using b by (simp_all add: is_unwritten_iff ext_len_small)
  then show ?thesis
    using new_extent_pblk [OF st] new_extent_lo [OF st(1)] unfolding nb by (simp add: mark_if_def)
qed

lemma split_in_front:
  assumes path: "inode_depth s = Some d" "path_at path d = Some p" "p_header p = Some l" "nodes s l = Some n" "p_extent p = Some (int i)"
    and i: "i < length (entries_of n)" "0 < i" and n: "node_ok 0 n" "sint (eh_entries (n_hdr n)) < sint (eh_max (n_hdr n))"
    and un: "ext4_ext_is_unwritten (entries_of n ! i)" and b: "0 < sint blocks" "ext_len (entries_of n ! i) + sint blocks < 2 ^ 15"
    and split: "split = e_block (entries_of n ! i) - blocks" "sint split = ekey (entries_of n ! i) - sint blocks"
    and new: "\<forall>x \<in> set (entries_of n). ekey x \<noteq> sint split"
    and pb: "storable (ext4_ext_pblk (entries_of n ! i) - word_of_int (sint blocks))" and env: "dirty_marks_only env"
  shows "\<exists>h g' path' s' n'. ext4_ext_split_extent_at env path split EXT4_EXT_MARK_UNWRIT1 s = Some (EOK, path', s')
     \<and> nodes s' = (nodes s)(l \<mapsto> n') \<and> node_ok 0 n' \<and> entries_of n' = take i (entries_of n) @ h # g' # drop (Suc i) (entries_of n)
     \<and> ekey h = sint split \<and> ext_len h = ext_len (entries_of n ! i) + sint blocks \<and> \<not> ext4_ext_is_unwritten h
     \<and> ext4_ext_pblk h = ext4_ext_pblk (entries_of n ! i) - word_of_int (sint blocks)
     \<and> ekey g' = ekey (entries_of n ! i) \<and> ext_len g' = 2 ^ 15 - sint blocks \<and> ext4_ext_is_unwritten g'
     \<and> ext4_ext_pblk g' = ext4_ext_pblk (entries_of n ! i)"
proof -
  let ?es = "entries_of n"
  let ?g = "?es ! i"
  have b15: "sint blocks < 2 ^ 15" using b ext_len_bound(1) [of ?g] by simp
  have off: "split - e_block ?g = - blocks" by (simp add: split(1))
  obtain g' where g': "mark_if True (set_ee_len (ucast (- blocks)) ?g) = Some g'" "e_block g' = e_block ?g" "ekey g' = ekey ?g"
    "ext4_ext_pblk g' = ext4_ext_pblk ?g" "ext_len g' = 2 ^ 15 - sint blocks" "ext4_ext_is_unwritten g'"
    using lengthened_half [OF b(1) b15, of ?g] by blast
  obtain h where h: "mark_if False (new_extent split (ext4_ext_get_actual_len ?g + blocks) (u64_of_u32 (- blocks) + ext4_ext_pblk ?g)) = Some h"
    "e_block h = split" "ekey h = sint split" "ext4_ext_pblk h = ext4_ext_pblk ?g - word_of_int (sint blocks)"
    "\<not> bit (ee_start_lo h) 31" "ext_len h = ext_len ?g + sint blocks" "\<not> ext4_ext_is_unwritten h"
    using refill_half [OF un b pb, of split] by blast
  have ent: "entry_at s (Some l) (Some (int i)) = Some ?g"
    using node_ok_slot [OF n(1), of "int i"] i path(4) by (simp add: entry_at_def node_at_def)
  obtain n1 where n1: "update_entry (Some l) (Some (int i)) (\<lambda>e. mark_if True (set_ee_len (ucast (- blocks)) e)) s = Some (put_node l n1 s)"
    "n_hdr n1 = n_hdr n" "entries_of n1 = ?es[i := g']" "node_ok 0 n1"
    using update_entry_node [OF path(4) n(1) i(1), of "\<lambda>e. mark_if True (set_ee_len (ucast (- blocks)) e)" g'] g'(1) by metis
  let ?s1 = "snd (ext4_ext_dirty env p (put_node l n1 s))"
  have s1: "nodes ?s1 = (nodes s)(l \<mapsto> n1)" "inode_depth ?s1 = Some d"
    using dirty_nodes(1) [OF env] path(1,4) n1(2) by (auto simp: put_node_def inode_depth_def)
  then have s1_l: "nodes ?s1 l = Some n1" by simp
  have "ekey x \<noteq> ekey h" if "x \<in> set (entries_of n1)" for x
  proof -
    from that n1(3) have "x = g' \<or> x \<in> set ?es" using set_update_subset_insert [of ?es i g'] by auto
    then show ?thesis using new g'(3) i(1) h(3) nth_mem by force
  qed
  then have new1: "\<forall>x \<in> set (entries_of n1). e_block x \<noteq> e_block h" unfolding ekey_def by metis
  have at: "entries_of n1 ! i = g'" "i < length (entries_of n1)" using n1(3) i(1) by simp_all
  have room: "sint (eh_entries (n_hdr n1)) < sint (eh_max (n_hdr n1))" using n(2) n1(2) by simp
  have "d = 0 \<or> 0 < i" using i(2) by simp
  have k: "i = (if ekey (entries_of n1 ! i) < ekey h then Suc i else i)" using at(1) g'(3) h(3) split(2) b(1) by simp
  obtain path' s' n' where ins: "ext4_ext_insert_leaf env path d h EXT4_EXT_NO_COMBINE ?s1 = Some (EOK, False, path', s')"
     "nodes s' = (nodes ?s1)(l \<mapsto> n')" "node_ok 0 n'" "entries_of n' = take i (entries_of n1) @ h # drop i (entries_of n1)"
    using insert_leaf_beside [OF s1(2) path(2,3) s1_l n1(4) room path(5) at(2) \<open>d = 0 \<or> 0 < i\<close> new1 _ h(5) env k, of EXT4_EXT_NO_COMBINE]
    by auto
  have "drop i (entries_of n1) = g' # drop (Suc i) ?es" using Cons_nth_drop_Suc [OF at(2)] at(1) n1(3) by simp
  then have es2: "entries_of n' = take i ?es @ h # g' # drop (Suc i) ?es" using ins(4) n1(3) by simp
  have ne: "split \<noteq> e_block ?g" using split(2) b(1) by (auto simp: ekey_def)
  have flags: "EXT4_EXT_MARK_UNWRIT1 AND EXT4_EXT_MARK_UNWRIT1 \<noteq> 0" "EXT4_EXT_MARK_UNWRIT1 AND EXT4_EXT_MARK_UNWRIT2 = 0"
    by (simp_all add: EXT4_EXT_MARK_UNWRIT1_def EXT4_EXT_MARK_UNWRIT2_def)
  have "ext4_ext_split_extent_at env path split EXT4_EXT_MARK_UNWRIT1 s = Some (EOK, path', s')"
    using path ent ne n1(1) h(1) insert_extent_no_split [OF s1(2) ins(1)] dirty_nodes(2) [of env p "put_node l n1 s"] flags
    by (auto simp: ext4_ext_split_extent_at_def Let_def endian_defs off split: prod.split)
  moreover have "nodes s' = (nodes s)(l \<mapsto> n')" using ins(2) s1(1) by simp
  ultimately show ?thesis using ins(3) es2 h g' by blast
qed

lemma extent_map_new_tail:
  assumes "extent_map (ys @ e # zs) b = None" "\<not> covers f b" "\<not> covers h b" "covers g b"
  shows "extent_map (ys @ f # h # g # zs) b = Some (map_in g b)"
  using assms by (simp add: extent_map_def find_app split: option.splits)

text \<open>
  C27. Writing \<open>blocks\<close> blocks from \<open>split\<close> on into the middle of an unwritten extent \<open>e\<close>, in a leaf with two free entries, reports
  success, but the second split works on the extent that the first one has inserted.  Instead of three parts the leaf gets the front
  \<open>f\<close> up to the end of the range, still unwritten as a whole, a written extent \<open>h\<close> from \<open>split\<close> to the end of \<open>e\<close>, and an unwritten extent
  \<open>g\<close> of \<open>2 ^ 15 - blocks\<close> blocks.  The extents overlap, the rest of \<open>e\<close> is written by one and unwritten by another, and
  the blocks behind \<open>e\<close>, up to \<open>split + 2 ^ 15\<close>, become mapped where they were not: to the physical blocks behind those of \<open>e\<close>.
\<close>

theorem ext4_convert_middle_overlaps:
  assumes at: "leaf_at s path d p l n j" "e = entries_of n ! j" and room: "sint (eh_entries (n_hdr n)) + 1 < sint (eh_max (n_hdr n))"
    and un: "ext4_ext_is_unwritten e"
    and inside: "ekey e < sint split" "0 < sint blocks" "sint split + sint blocks < ekey e + ext_len e"
    and pb: "storable (snd (map_in e (sint split)))" "storable (snd (map_in e (sint split + sint blocks)))" and env: "dirty_marks_only env"
  shows "\<exists>f h g path' s' n'. ext4_ext_convert_to_initialized env path split blocks s = Some (EOK, path', s')
     \<and> nodes s' = (nodes s)(l \<mapsto> n') \<and> entries_of n' = take j (entries_of n) @ f # h # g # drop (Suc j) (entries_of n)
     \<and> ekey f = ekey e \<and> ext_len f = sint split + sint blocks - ekey e \<and> ext4_ext_is_unwritten f
     \<and> ekey h = sint split \<and> ext_len h = ekey e + ext_len e - sint split \<and> \<not> ext4_ext_is_unwritten h
     \<and> ekey g = sint split + sint blocks \<and> ext_len g = 2 ^ 15 - sint blocks \<and> ext4_ext_is_unwritten g
     \<and> \<not> disjoint_extents (entries_of n')
     \<and> (\<forall>b. ekey e + ext_len e \<le> b \<and> b < sint split + 2 ^ 15 \<and> extent_map (entries_of n) b = None
          \<longrightarrow> extent_map (entries_of n') b = Some (True, snd (map_in e b)))"
proof -
  let ?es = "entries_of n" and ?m = "split + blocks"
  have path: "inode_depth s = Some d" "path_at path d = Some p" "p_header p = Some l" "nodes s l = Some n"
    "p_extent p = Some (int j)" and j: "j < length ?es" "d = 0 \<or> 0 < j" and n: "node_ok 0 n" "disjoint_extents ?es"
    using at by (simp_all add: leaf_at_def)
  have e: "e \<in> set ?es" using j at(2) by simp
  then have bound: "ekey e + ext_len e < 2 ^ 31" using n(2) by (simp add: disjoint_extents_def)
  have es: "?es = take j ?es @ e # drop (Suc j) ?es" unfolding at(2) by (rule id_take_nth_drop [OF j(1)])
  have m: "sint ?m = sint split + sint blocks" using bound inside sint_ge [of split] by (intro sint_add_32) simp_all
  have ent: "entry_at s (Some l) (Some (int j)) = Some e"
    using node_ok_slot [OF n(1), of "int j"] j(1) path(4) at(2) by (simp add: entry_at_def node_at_def)
  have "?m - e_block e = word_of_int (sint ?m - ekey e)" by (simp add: ekey_def)
  then have ne: "?m \<noteq> e_block e + ext4_ext_get_actual_len e"
    using inside m by (intro unwritten_end [OF un, where k = "sint ?m - ekey e"]) simp_all
  have flags: "(EXT4_EXT_MARK_UNWRIT1 OR EXT4_EXT_MARK_UNWRIT2) AND EXT4_EXT_MARK_UNWRIT1 \<noteq> 0"
    "(EXT4_EXT_MARK_UNWRIT1 OR EXT4_EXT_MARK_UNWRIT2) AND EXT4_EXT_MARK_UNWRIT2 \<noteq> 0"
    by (simp_all add: EXT4_EXT_MARK_UNWRIT1_def EXT4_EXT_MARK_UNWRIT2_def)
  have first: "sint (eh_entries (n_hdr n)) < sint (eh_max (n_hdr n))" "ekey (?es ! j) < sint ?m" "covers (?es ! j) (sint ?m)"
    "storable (snd (map_in (?es ! j) (sint ?m)))"
    using room inside m pb(2) unfolding at(2) [symmetric] by (simp_all add: covers_def)
  obtain f g s1 n1 where fg: "halves_of ?m True True e f g"
    and s1: "ext4_ext_split_extent_at env path ?m (EXT4_EXT_MARK_UNWRIT1 OR EXT4_EXT_MARK_UNWRIT2) s
         = Some (EOK, path[d := p\<lparr>p_extent := Some (int (Suc j)), p_block := ext4_ext_pblk g\<rparr>], s1)"
      "nodes s1 = (nodes s)(l \<mapsto> n1)" "node_ok 0 n1" "eh_max (n_hdr n1) = eh_max (n_hdr n)"
      "entries_of n1 = take j ?es @ f # g # drop (Suc j) ?es"
    using split_extent_parts [OF at(1) first env, of "EXT4_EXT_MARK_UNWRIT1 OR EXT4_EXT_MARK_UNWRIT2"] flags at(2) by auto
  have f: "ekey f = ekey e" "ext_len f = sint split + sint blocks - ekey e" "ext4_ext_is_unwritten f"
    and g: "e_block g = ?m" "ekey g = sint split + sint blocks" "ext4_ext_pblk g = ext4_ext_pblk e + word_of_int (sint ?m - ekey e)"
      "ext_len g = ekey e + ext_len e - (sint split + sint blocks)" "ext4_ext_is_unwritten g"
    using fg m by (simp_all add: halves_of_def)
  let ?p1 = "p\<lparr>p_extent := Some (int (Suc j)), p_block := ext4_ext_pblk g\<rparr>"
  have at1: "entries_of n1 ! Suc j = g" "Suc j < length (entries_of n1)" "take (Suc j) (entries_of n1) = take j ?es @ [f]"
    "drop (Suc (Suc j)) (entries_of n1) = drop (Suc j) ?es"
    using j(1) by (simp_all add: s1(5) nth_append)
  have depth1: "inode_depth s1 = Some d" using path(1,4) s1(2,3) n(1) by (auto simp: inode_depth_def node_ok_def ext_depth_def)
  have "length (entries_of n1) = Suc (length ?es)" using j(1) by (simp add: s1(5))
  then have room1: "sint (eh_entries (n_hdr n1)) < sint (eh_max (n_hdr n1))"
    using room node_ok_length [OF n(1)] node_ok_length [OF s1(3)] s1(4) by simp
  have dis: "disjoint_extents (take j ?es @ e # drop (Suc j) ?es)" using n(2) es by simp
  have new: "\<forall>x \<in> set (entries_of n1). ekey x \<noteq> sint split"
  proof
    fix x assume "x \<in> set (entries_of n1)"
    then consider "x = f" | "x = g" | "x \<in> set (take j ?es)" | "x \<in> set (drop (Suc j) ?es)" unfolding s1(5) by auto
    then show "ekey x \<noteq> sint split"
    proof cases
      case 3 then show ?thesis using disjoint_split(1) [OF dis] ext_len_bound(1) [of x] inside(1) by fastforce
    next
      case 4 then show ?thesis using disjoint_split(2) [OF dis] inside by fastforce
    qed (use f(1) g(2) inside in simp_all)
  qed
  have pblk: "ext4_ext_pblk g - word_of_int (sint blocks) = snd (map_in e (sint split))"
    unfolding g(3) m map_in_def by (simp add: algebra_simps)
  have unw: "ext4_ext_is_unwritten (entries_of n1 ! Suc j)" "ext_len (entries_of n1 ! Suc j) + sint blocks < 2 ^ 15"
    "split = e_block (entries_of n1 ! Suc j) - blocks" "sint split = ekey (entries_of n1 ! Suc j) - sint blocks"
    "storable (ext4_ext_pblk (entries_of n1 ! Suc j) - word_of_int (sint blocks))"
    using g inside ext_len_bound(2) [of e] pb(1) pblk unfolding at1(1) by simp_all
  have p1: "p_header ?p1 = Some l" "p_extent ?p1 = Some (int (Suc j))" "nodes s1 l = Some n1" using path(3) s1(2) by simp_all
  obtain h g' path' s2 n2 where s2: "ext4_ext_split_extent_at env (path[d := ?p1]) split EXT4_EXT_MARK_UNWRIT1 s1 = Some (EOK, path', s2)"
    "nodes s2 = (nodes s1)(l \<mapsto> n2)" "entries_of n2 = take j ?es @ f # h # g' # drop (Suc j) ?es"
    and h: "ekey h = sint split" "ext_len h = ext_len g + sint blocks" "\<not> ext4_ext_is_unwritten h"
    and g': "ekey g' = ekey g" "ext_len g' = 2 ^ 15 - sint blocks" "ext4_ext_is_unwritten g'" "ext4_ext_pblk g' = ext4_ext_pblk g"
    using split_in_front [OF depth1 path_at_update [OF path(2)] p1(1,3,2) at1(2) _ s1(3) room1 unw(1) inside(2) unw(2-4) new unw(5) env]
    unfolding at1 by auto
  have "e_block e \<noteq> split" using inside(1) by (auto simp: ekey_def)
  then have run: "ext4_ext_convert_to_initialized env path split blocks s = Some (EOK, path', s2)"
    using path ent ne inside(1) s1(1) s2(1) by (simp add: ext4_ext_convert_to_initialized_def endian_defs ekey_def)
  have "\<not> disjoint_extents (entries_of n2)"
    using f(1,2) h(1) inside by (auto simp: s2(3) disjoint_extents_def sorted_wrt_append)
  moreover have "extent_map (entries_of n2) b = Some (True, snd (map_in e b))"
    if "ekey e + ext_len e \<le> b" "b < sint split + 2 ^ 15" "extent_map ?es b = None" for b
  proof -
    have "\<not> covers f b" "\<not> covers h b" "covers g' b" using that f h g g' inside by (simp_all add: covers_def)
    then have "extent_map (entries_of n2) b = Some (map_in g' b)"
      unfolding s2(3) using that(3) es by (intro extent_map_new_tail [of _ e]) simp_all
    moreover have "word_of_int (sint ?m - ekey e) + word_of_int (b - ekey g') = (word_of_int (b - ekey e) :: u64)"
      unfolding g'(1) g(2) m by (simp only: wi_hom_syms) simp
    ultimately show ?thesis using g(3) g'(3,4) by (simp add: map_in_def add.assoc)
  qed
  ultimately show ?thesis using run s1(2) s2 f h g(2,4) g'
    by (intro exI [of _ f] exI [of _ h] exI [of _ g'] exI [of _ path'] exI [of _ s2] exI [of _ n2]) simp
qed

theorem ext4_convert_middle_overlaps_witness:
  "\<exists>path' s' n'. ext4_ext_convert_to_initialized example_ext4_env root_path 4 2 unwritten_leaf = Some (EOK, path', s')
     \<and> nodes s' Root = Some n' \<and> \<not> disjoint_extents (entries_of n')
     \<and> extent_map [example_entry 0 0x800a 1000] 10 = None \<and> extent_map (entries_of n') 10 = Some (True, 1010)"
proof -
  let ?n = "example_node 0 4 [example_entry 0 0x800a 1000]"
  have es: "entries_of ?n = [example_entry 0 0x800a 1000]" by (rule example_node_ok) simp_all
  have none: "extent_map [example_entry 0 0x800a 1000] 10 = None" by (simp add: extent_map_def covers_def unwritten_leaf_entry)
  have room: "sint (eh_entries (n_hdr ?n)) + 1 < sint (eh_max (n_hdr ?n))" by (simp add: example_node_def)
  have un: "ext4_ext_is_unwritten (example_entry 0 0x800a 1000)" by (rule unwritten_leaf_entry)
  obtain path' s' n' where "ext4_ext_convert_to_initialized example_ext4_env root_path 4 2 unwritten_leaf = Some (EOK, path', s')"
    "nodes s' = (nodes unwritten_leaf)(Root \<mapsto> n')" "\<not> disjoint_extents (entries_of n')"
    "\<forall>b. 10 \<le> b \<and> b < 4 + 2 ^ 15 \<and> extent_map (entries_of ?n) b = None \<longrightarrow>
      extent_map (entries_of n') b = Some (True, snd (map_in (example_entry 0 0x800a 1000) b))"
    using ext4_convert_middle_overlaps [OF unwritten_leaf_at(1) unwritten_leaf_at(2) [symmetric] room un, of 4 2 example_ext4_env] example_dirty
    by (auto simp: unwritten_leaf_entry storable_def map_in_def drop_bit_eq_div)
  then show ?thesis using none unfolding es by (auto simp: map_in_def unwritten_leaf_entry)
qed

section \<open>A split that fails\<close>

text \<open>A root that is full and cannot grow refuses an extent that it does not merge.\<close>

lemma insert_extent_full_root:
  assumes "inode_depth s = Some 0" "path_at path 0 = Some p" "p_header p = Some Root" "nodes s Root = Some n"
    and "p_extent p = Some (int j)" "slot n (int j) = Some c" "e_block c \<noteq> e_block newext"
    and "eh_entries (n_hdr n) = eh_max (n_hdr n)" "p_lb_id p = 0" "p_depth p = 0"
    and "\<forall>goal. ext4_balloc_alloc_block env goal 0 s = (err, 0, s)" "err \<noteq> EOK"
  shows "ext4_ext_insert_extent env path newext EXT4_EXT_NO_COMBINE s = Some (err, path, s)"
proof -
  have leaf: "ext4_ext_insert_leaf env path 0 newext EXT4_EXT_NO_COMBINE s = Some (EIO, True, path, s)"
    using assms(2-8) by (simp add: ext4_ext_insert_leaf_def entry_at_def node_at_def endian_defs insert_leaf_out_def)
  have full: "full_levels s path 0 0 = Some (1, False)"
    using assms(2-4,8) by (simp add: node_at_def EXT_HAS_FREE_INDEX_def endian_defs)
  have grow: "ext4_ext_grow_indepth env s = Some (err, s)"
    using assms(1,11) by (simp add: ext4_ext_grow_indepth_def ext4_new_meta_blocks_def ext4_allocate_single_block_def)
  have drop: "ext4_ext_drop_refs env path 0 False s = Some (path, s)"
    using assms(2,9,10) by (auto simp: ext4_ext_drop_refs_def drop_ref_def path_at_def split: if_splits)
  show ?thesis
    using assms(1,12) leaf full grow drop
    by (subst ext4_ext_insert_extent_def, subst insert_extent_loop.simps)
      (simp add: insert_extent_round_def insert_extent_out_def del: full_levels.simps)
qed

lemma extent_map_replace:
  assumes dis: "disjoint_extents (ys @ e # zs)" and r: "ekey r = ekey e" "ext_len r = ext_len e"
  shows "extent_map (ys @ r # zs) b = (if covers e b then Some (map_in r b) else extent_map (ys @ e # zs) b)"
proof (cases "covers e b")
  case True
  then have "find (\<lambda>e. covers e b) ys = None"
    using disjoint_split(1) [OF dis] by (fastforce simp: find_None_iff covers_def)
  then show ?thesis using True r by (simp add: extent_map_def find_app covers_def)
next
  case False
  then have "\<not> covers r b" using r by (simp add: covers_def)
  then show ?thesis using False by (simp add: extent_map_def find_app split: option.split)
qed

text \<open>An extent whose first half got its length back is the written extent it was.\<close>

lemma restored_extent:
  assumes "ekey f = ekey e" "ext4_ext_pblk f = ext4_ext_pblk e" "r = set_ee_len (ucast (ext4_ext_get_actual_len e)) f"
  shows "ekey r = ekey e" "ext_len r = ext_len e" "map_in r b = (False, snd (map_in e b))"
proof -
  have "\<not> ext4_ext_is_unwritten r" using uint_low15 [of e] ext_len_bound(2) [of e] assms by (simp add: is_unwritten_iff)
  then show "ekey r = ekey e" "ext_len r = ext_len e" "map_in r b = (False, snd (map_in e b))"
    using uint_low15 [of e] ext_len_bound(2) [of e] assms by (simp_all add: ext_len_def map_in_def)
qed

text \<open>
  C24. A split that fails reports success.  When the root is full and no block can be allocated for another level,
  \<open>ext4_ext_split_extent_at\<close> returns \<open>EOK\<close>, and the extent, whose length it restores, has lost its mark:
  every block of it counts as written.
\<close>

theorem ext4_split_error_lost:
  assumes at: "leaf_at s path 0 p Root n j" and full: "eh_entries (n_hdr n) = eh_max (n_hdr n)"
    and root: "p_lb_id p = 0" "p_depth p = 0"
    and split: "ekey (entries_of n ! j) < sint split" "covers (entries_of n ! j) (sint split)"
    and alloc: "\<forall>goal s. ext4_balloc_alloc_block env goal 0 s = (err, 0, s)" "err \<noteq> EOK"
  shows "\<exists>s' n'. ext4_ext_split_extent_at env path split flag s = Some (EOK, path, s')
     \<and> nodes s' = (nodes s)(Root \<mapsto> n') \<and> node_ok 0 n'
     \<and> (\<forall>b. extent_map (entries_of n') b = (if covers (entries_of n ! j) b
           then Some (False, snd (map_in (entries_of n ! j) b)) else extent_map (entries_of n) b))"
proof -
  let ?es = "entries_of n"
  let ?e = "?es ! j"
  let ?u1 = "flag AND EXT4_EXT_MARK_UNWRIT1 \<noteq> 0" and ?u2 = "flag AND EXT4_EXT_MARK_UNWRIT2 \<noteq> 0"
  have path: "inode_depth s = Some 0" "path_at path 0 = Some p" "p_header p = Some Root" "nodes s Root = Some n"
    "p_extent p = Some (int j)" and j: "j < length ?es" and n: "node_ok 0 n" "disjoint_extents ?es"
    using at by (simp_all add: leaf_at_def)
  have es: "?es = take j ?es @ ?e # drop (Suc j) ?es" by (rule id_take_nth_drop [OF j])
  have ent: "entry_at s (Some Root) (Some (int j)) = Some ?e"
    using node_ok_slot [OF n(1), of "int j"] j path(4) by (simp add: entry_at_def node_at_def)
  let ?nb = "u64_of_u32 (split - e_block ?e) + ext4_ext_pblk ?e"
  let ?f0 = "set_ee_len (ucast (split - e_block ?e)) ?e"
    and ?g0 = "new_extent split (ext4_ext_get_actual_len ?e - (split - e_block ?e)) ?nb"
  have len: "uint (ee_len ?f0) = sint split - ekey ?e" "uint (ee_len ?g0) = ext_len ?e - (sint split - ekey ?e)"
    using front_len [OF split(2)] back_len [OF split(2)] by simp_all
  have k: "0 < sint split - ekey ?e" "sint split - ekey ?e < ext_len ?e" using split by (auto simp: covers_def)
  obtain f where f: "mark_if ?u1 ?f0 = Some f" "e_block f = e_block ?e" "ekey f = ekey ?e" "ext4_ext_pblk f = ext4_ext_pblk ?e"
    using mark_if_parts [of ?f0 ?u1] len(1) k ext_len_bound(2) [of ?e] by auto
  obtain g where g: "mark_if ?u2 ?g0 = Some g" "e_block g = split"
    using mark_if_parts [of ?g0 ?u2] len(2) k ext_len_bound(2) [of ?e] by auto
  obtain n1 where n1: "update_entry (Some Root) (Some (int j)) (\<lambda>e. mark_if ?u1 (set_ee_len (ucast (split - e_block ?e)) e)) s = Some (put_node Root n1 s)"
    "n_hdr n1 = n_hdr n" "entries_of n1 = ?es[j := f]" "node_ok 0 n1"
    using update_entry_node [OF path(4) n(1) j, of _ f] f(1) by metis
  let ?s1 = "(put_node Root n1 s)\<lparr>inode_dirty := True\<rparr>"
  have s1: "nodes ?s1 Root = Some n1" "inode_depth ?s1 = Some 0" "nodes ?s1 = (nodes s)(Root \<mapsto> n1)"
    using path(1,4) n1(2) by (auto simp: put_node_def inode_depth_def)
  have ins: "ext4_ext_insert_extent env path g EXT4_EXT_NO_COMBINE ?s1 = Some (err, path, ?s1)"
    using node_ok_slot [OF n1(4), of "int j"] n1(2,3) j full f(2,3) g(2) split(1) alloc root
    by (intro insert_extent_full_root [OF s1(2) path(2,3) s1(1) path(5), of f]) (auto simp: ekey_def)
  let ?r = "set_ee_len (ucast (ext4_ext_get_actual_len ?e)) f"
  obtain n2 where n2: "update_entry (Some Root) (Some (int j)) (\<lambda>e. Some (set_ee_len (ucast (ext4_ext_get_actual_len ?e)) e)) ?s1
      = Some (put_node Root n2 ?s1)" "entries_of n2 = (entries_of n1)[j := ?r]" "node_ok 0 n2"
    using update_entry_node [OF s1(1) n1(4), of j "\<lambda>e. Some (set_ee_len (ucast (ext4_ext_get_actual_len ?e)) e)" ?r] n1(3) j by auto
  have eq: "ext4_ext_split_extent_at env path split flag s = Some (EOK, path, put_node Root n2 ?s1)"
    using path ent split(1) n1(1) g(1) ins alloc(2) n2(1) root(1)
    by (auto simp: ext4_ext_split_extent_at_def Let_def endian_defs ekey_def ext4_ext_dirty_def restore_extent_len_def put_node_def
        split: prod.split)
  note r = restored_extent [OF f(3,4) refl]
  have es2: "entries_of n2 = take j ?es @ ?r # drop (Suc j) ?es" using n2(2) n1(3) j by (simp add: upd_conv_take_nth_drop)
  have "disjoint_extents (take j ?es @ ?e # drop (Suc j) ?es)" using n(2) es by simp
  from extent_map_replace [OF this r(1,2)] have
    "extent_map (entries_of n2) b = (if covers ?e b then Some (False, snd (map_in ?e b)) else extent_map ?es b)" for b
    using es unfolding es2 r(3) by simp
  then show ?thesis using eq n2(3) s1(3) by (auto simp: put_node_def)
qed

definition full_root :: ext4_node where
  "full_root = example_node 0 4 [example_entry 0 0x800a 1000, example_entry 20 5 2000, example_entry 40 5 3000, example_entry 60 5 4000]"

lemma full_root_ok:
  "entries_of full_root = [example_entry 0 0x800a 1000, example_entry 20 5 2000, example_entry 40 5 3000, example_entry 60 5 4000]"
  "node_ok 0 full_root" "disjoint_extents (entries_of full_root)"
proof -
  show es: "entries_of full_root = [example_entry 0 0x800a 1000, example_entry 20 5 2000, example_entry 40 5 3000, example_entry 60 5 4000]"
    and "node_ok 0 full_root" unfolding full_root_def by (rule example_node_ok; simp)+
  show "disjoint_extents (entries_of full_root)" unfolding es by code_simp
qed

theorem ext4_split_error_lost_witness:
  "\<exists>s' n'. ext4_ext_split_extent_at example_ext4_env root_path 4 EXT4_EXT_MARK_UNWRIT1 (unwritten_leaf\<lparr>nodes := [Root \<mapsto> full_root]\<rparr>)
       = Some (EOK, root_path, s') \<and> nodes s' Root = Some n'
     \<and> extent_map (entries_of full_root) 2 = Some (True, 1002) \<and> extent_map (entries_of n') 2 = Some (False, 1002)"
proof -
  let ?s = "unwritten_leaf\<lparr>nodes := [Root \<mapsto> full_root]\<rparr>"
  have at: "leaf_at ?s root_path 0 (hd root_path) Root full_root 0"
    using full_root_ok by (simp add: leaf_at_def root_path_def path_at_def inode_depth_def zero_path_def)
      (simp add: full_root_def example_node_def ext_depth_def endian_defs)
  have cov: "covers (entries_of full_root ! 0) b" if "0 \<le> b" "b < 10" for b
    using that by (simp add: full_root_ok(1) covers_def unwritten_leaf_entry)
  have "extent_map (entries_of full_root) 2 = Some (True, 1002)" unfolding full_root_ok(1) by code_simp
  moreover have "\<exists>s' n'. ext4_ext_split_extent_at example_ext4_env root_path 4 EXT4_EXT_MARK_UNWRIT1 ?s = Some (EOK, root_path, s')
     \<and> nodes s' = (nodes ?s)(Root \<mapsto> n') \<and> node_ok 0 n'
     \<and> (\<forall>b. extent_map (entries_of n') b = (if covers (entries_of full_root ! 0) b
           then Some (False, snd (map_in (entries_of full_root ! 0) b)) else extent_map (entries_of full_root) b))"
  proof (rule ext4_split_error_lost [OF at])
    show "eh_entries (n_hdr full_root) = eh_max (n_hdr full_root)" by (simp add: full_root_def example_node_def)
    show "covers (entries_of full_root ! 0) (sint (4 :: 32 word))" using cov by simp
    show "\<forall>goal s. ext4_balloc_alloc_block example_ext4_env goal 0 s = (Eother 28, 0, s)" by (simp add: example_ext4_env_def)
  qed (simp_all add: root_path_def zero_path_def full_root_ok(1) unwritten_leaf_entry storable_def map_in_def drop_bit_eq_div)
  ultimately show ?thesis using cov by (auto simp: map_in_def full_root_ok(1) unwritten_leaf_entry)
qed

end
