(* ===== verification/Ext4_Extent_Tree.thy ===== *)
theory Ext4_Extent_Tree
  imports Ext4_Extent_Split
begin

text \<open>
  Changing one leaf of an extent tree: the extents of the tree change in the place of the leaf and nowhere
  else, as the leaves of a well-formed tree are different nodes.
  And the path that a search leaves: correcting the
  indexes above a leaf whose first extent has not moved changes no node.
\<close>

section \<open>The leaves of a tree\<close>

lemma extents_leaves: "extents_below d m l = concat (map (extents_below 0 m) (leaves d m l))"
proof (induction d arbitrary: l)
  case (Suc d)
  have "concat (map (extents_below 0 m) (concat (map (\<lambda>ix. leaves d m (child ix)) ixs)))
      = concat (map (\<lambda>ix. extents_below d m (child ix)) ixs)" for ixs
    by (induction ixs) (simp_all add: Suc.IH del: extents_below.simps(1))
  then show ?case by (cases "m l") (simp_all del: extents_below.simps(1))
qed simp

lemma leaf_ok: "tree_ok d m l \<Longrightarrow> leaf \<in> set (leaves d m l) \<Longrightarrow> \<exists>n. m leaf = Some n \<and> node_ok 0 n"
  by (induction d arbitrary: l) fastforce+

lemma leaf_nonempty:
  "tree_ok d m l \<Longrightarrow> extents_below d m l \<noteq> [] \<Longrightarrow> leaf \<in> set (leaves d m l) \<Longrightarrow> extents_below 0 m leaf \<noteq> []"
proof (induction d arbitrary: l)
  case (Suc d)
  from Suc.prems(1) obtain n where n: "m l = Some n"
    "\<forall>ix \<in> set (entries_of n). tree_ok d m (child ix) \<and> extents_below d m (child ix) \<noteq> []" by auto
  with Suc.prems(3) obtain ix where "ix \<in> set (entries_of n)" "leaf \<in> set (leaves d m (child ix))" by auto
  then show ?case using n(2) Suc.IH by blast
qed simp

lemma ordered_distinct: "ordered xs \<Longrightarrow> distinct xs"
  by (induction xs) (auto simp: ordered_def)

lemma distinct_concat_map: "distinct (concat (map f xs)) \<Longrightarrow> \<forall>x \<in> set xs. f x \<noteq> [] \<Longrightarrow> distinct xs"
proof -
  assume d: "distinct (concat (map f xs))" and "\<forall>x \<in> set xs. f x \<noteq> []"
  then have "removeAll [] (map f xs) = map f xs" by (intro removeAll_id) auto
  then have "distinct (map f xs)" using d by (simp add: distinct_concat_iff)
  then show "distinct xs" by (simp add: distinct_map)
qed

lemma leaves_distinct:
  assumes "tree_ok d m l" "ordered (extents_below d m l)"
  shows "distinct (leaves d m l)"
proof (cases d)
  case (Suc k)
  then have "extents_below d m l \<noteq> []" using assms(1) by fastforce
  then have "\<forall>leaf \<in> set (leaves d m l). extents_below 0 m leaf \<noteq> []" using leaf_nonempty assms(1) by blast
  then show ?thesis
    using ordered_distinct [OF assms(2)] unfolding extents_leaves [of d m l] by (rule distinct_concat_map [rotated])
qed simp

section \<open>A new leaf in the place of an old one\<close>

text \<open>The depth that is stored tells a leaf from an inner node, as long as it fits into 16 bits.\<close>

lemma leaf_not_inner:
  assumes "node_ok 0 n" "node_ok (Suc d) n" "Suc d < 2 ^ 16"
  shows False
proof -
  have "(of_nat (Suc d) :: u16) = 0" using assms(1,2) by (simp add: node_ok_def)
  moreover have "unat (of_nat (Suc d) :: u16) = Suc d"
    using assms(3) by (simp add: unsigned_of_nat take_bit_nat_eq_self del: of_nat_Suc)
  ultimately show False by simp
qed

lemma update_leaf:
  assumes "m leaf = Some n" "node_ok 0 n" "node_ok 0 n'"
    and "entries_of n \<noteq> []" "entries_of n' \<noteq> []" "e_block (hd (entries_of n')) = e_block (hd (entries_of n))"
  shows "tree_ok d m l \<Longrightarrow> extents_below d m l \<noteq> [] \<Longrightarrow> d < 2 ^ 16 \<Longrightarrow>
    tree_ok d (m(leaf \<mapsto> n')) l \<and> leaves d (m(leaf \<mapsto> n')) l = leaves d m l
    \<and> extents_below d (m(leaf \<mapsto> n')) l \<noteq> []
    \<and> e_block (hd (extents_below d (m(leaf \<mapsto> n')) l)) = e_block (hd (extents_below d m l))"
proof (induction d arbitrary: l)
  case 0
  then show ?case using assms by auto
next
  case (Suc d)
  let ?m = "m(leaf \<mapsto> n')"
  obtain i where i: "m l = Some i" "node_ok (Suc d) i" "entries_of i \<noteq> []" and
    sub: "\<And>ix. ix \<in> set (entries_of i) \<Longrightarrow> ext4_idx_pblk ix \<noteq> 0 \<and> tree_ok d m (child ix) \<and>
        extents_below d m (child ix) \<noteq> [] \<and> e_block (hd (extents_below d m (child ix))) = e_block ix"
    using Suc.prems(1) by auto
  have "l \<noteq> leaf" using i assms(1,2) leaf_not_inner Suc.prems(3) by fastforce
  then have l: "?m l = Some i" using i(1) by simp
  have IH: "tree_ok d ?m (child ix) \<and> leaves d ?m (child ix) = leaves d m (child ix) \<and> extents_below d ?m (child ix) \<noteq> []
    \<and> e_block (hd (extents_below d ?m (child ix))) = e_block (hd (extents_below d m (child ix)))"
    if "ix \<in> set (entries_of i)" for ix
    using sub [OF that] Suc.prems(3) by (intro Suc.IH) auto
  obtain ix ixs where hd: "entries_of i = ix # ixs" using i(3) by (cases "entries_of i") auto
  then have first: "ix \<in> set (entries_of i)" by simp
  have "tree_ok (Suc d) ?m l" using l i(2,3) sub IH by simp
  moreover have "leaves (Suc d) ?m l = leaves (Suc d) m l"
    using l i(1) IH by (auto intro!: arg_cong [where f = concat] map_cong)
  moreover have "extents_below (Suc d) ?m l \<noteq> []
    \<and> e_block (hd (extents_below (Suc d) ?m l)) = e_block (hd (extents_below (Suc d) m l))"
    using l i(1) hd IH [OF first] sub [OF first] by simp
  ultimately show ?case by blast
qed

text \<open>
  The extents before and behind a leaf, and what the tree becomes with other entries in the leaf; where the
  tree has inner nodes, the first key of the leaf has to stay, as the index above repeats it.
\<close>

lemma leaf_context:
  assumes tree: "tree_ok d m Root" "ordered (extents_below d m Root)" "d < 2 ^ 16"
    and leaf: "leaf \<in> set (leaves d m Root)" "m leaf = Some n"
  obtains xs ys where "extents_below d m Root = xs @ entries_of n @ ys" "d = 0 \<longrightarrow> xs = [] \<and> ys = []"
    "\<And>n'. node_ok 0 n' \<Longrightarrow> d = 0 \<or> entries_of n' \<noteq> [] \<and> e_block (hd (entries_of n')) = e_block (hd (entries_of n)) \<Longrightarrow>
      tree_ok d (m(leaf \<mapsto> n')) Root \<and> leaves d (m(leaf \<mapsto> n')) Root = leaves d m Root
      \<and> extents_below d (m(leaf \<mapsto> n')) Root = xs @ entries_of n' @ ys"
proof (cases d)
  case 0
  then have "leaf = Root" using leaf(1) by simp
  then show ?thesis using that [of "[]" "[]"] 0 leaf(2) by simp
next
  case (Suc k)
  let ?f = "extents_below 0 m"
  obtain ls rs where split: "leaves d m Root = ls @ leaf # rs" using leaf(1) by (meson split_list)
  have out: "leaf \<notin> set ls" "leaf \<notin> set rs" using leaves_distinct [OF tree(1,2)] split by auto
  have n: "node_ok 0 n" using leaf_ok [OF tree(1) leaf(1)] leaf(2) by simp
  have "extents_below d m Root \<noteq> []" using tree(1) Suc by fastforce
  then have ne: "entries_of n \<noteq> []" using leaf_nonempty [OF tree(1) _ leaf(1)] leaf(2) by simp
  show ?thesis
  proof (rule that)
    show ext: "extents_below d m Root = concat (map ?f ls) @ entries_of n @ concat (map ?f rs)"
      unfolding extents_leaves [of d m Root] split using leaf(2) by simp
    show "d = 0 \<longrightarrow> concat (map ?f ls) = [] \<and> concat (map ?f rs) = []" using Suc by simp
    fix n' assume n': "node_ok 0 n'" "d = 0 \<or> entries_of n' \<noteq> [] \<and> e_block (hd (entries_of n')) = e_block (hd (entries_of n))"
    let ?m = "m(leaf \<mapsto> n')"
    have upd: "tree_ok d ?m Root \<and> leaves d ?m Root = leaves d m Root"
      using update_leaf [where leaf = leaf and n = n and n' = n' and d = d and l = Root and m = m] leaf(2) n n' ne tree(1,3) ext Suc
      by simp
    have same: "map (extents_below 0 ?m) ls = map ?f ls" "map (extents_below 0 ?m) rs = map ?f rs"
      using out by (auto intro!: map_cong)
    have "extents_below 0 ?m leaf = entries_of n'" by simp
    then have "extents_below d ?m Root = concat (map ?f ls) @ entries_of n' @ concat (map ?f rs)"
      unfolding extents_leaves [of d ?m Root] conjunct2 [OF upd] split
      by (simp only: map_append list.map concat_append concat.simps same)
    then show "tree_ok d ?m Root \<and> leaves d ?m Root = leaves d m Root
      \<and> extents_below d ?m Root = concat (map ?f ls) @ entries_of n' @ concat (map ?f rs)" using upd by blast
  qed
qed

section \<open>The path to a leaf\<close>

lemma path_leaf: "path_to d m path k l leaf \<Longrightarrow> leaf \<in> set (leaves d m l)"
  by (induction d arbitrary: k l) fastforce+

lemma path_update_leaf:
  assumes "m leaf = Some n" "node_ok 0 n"
  shows "path_to d m path k l r \<Longrightarrow> tree_ok d m l \<Longrightarrow> d < 2 ^ 16 \<Longrightarrow> path_to d (m(leaf \<mapsto> n')) path k l r"
proof (induction d arbitrary: k l)
  case (Suc d)
  from Suc.prems(1) obtain i j where i: "p_header (path ! k) = Some l" "m l = Some i" "j < length (entries_of i)"
    "p_index (path ! k) = Some (int j)" "path_to d m path (Suc k) (child (entries_of i ! j)) r" by auto
  have sub: "node_ok (Suc d) i" "tree_ok d m (child (entries_of i ! j))" using Suc.prems(2) i(2,3) by auto
  have "l \<noteq> leaf" using sub(1) i(2) assms leaf_not_inner Suc.prems(3) by fastforce
  moreover have "path_to d (m(leaf \<mapsto> n')) path (Suc k) (child (entries_of i ! j)) r"
    using i(5) sub(2) Suc.prems(3) by (intro Suc.IH) simp_all
  ultimately show ?case using i by (metis path_to.simps(2) fun_upd_other)
qed simp

text \<open>Below indexes that are all the first ones of their nodes, the first extent is the first one of the leaf.\<close>

lemma first_key:
  "tree_ok d m l \<Longrightarrow> path_to d m path k l leaf \<Longrightarrow> extents_below d m l \<noteq> [] \<Longrightarrow>
   \<forall>i. k \<le> i \<and> i < k + d \<longrightarrow> p_index (path ! i) = Some 0 \<Longrightarrow> hd (extents_below d m l) = hd (extents_below 0 m leaf)"
proof (induction d arbitrary: k l)
  case (Suc d)
  from Suc.prems(2) obtain n j where n: "m l = Some n" "j < length (entries_of n)"
    "p_index (path ! k) = Some (int j)" "path_to d m path (Suc k) (child (entries_of n ! j)) leaf" by auto
  have "j = 0" using n(3) Suc.prems(4) by fastforce
  moreover obtain ix ixs where ixs: "entries_of n = ix # ixs" using n(2) by (cases "entries_of n") auto
  ultimately have p: "path_to d m path (Suc k) (child ix) leaf" using n(4) by simp
  have sub: "tree_ok d m (child ix)" "extents_below d m (child ix) \<noteq> []" using Suc.prems(1) n(1) ixs by auto
  have "hd (extents_below d m (child ix)) = hd (extents_below 0 m leaf)"
    using Suc.prems(4) by (intro Suc.IH [OF sub(1) p sub(2)]) simp
  then show ?case using n(1) ixs sub(2) by simp
qed simp

lemma index_key:
  "tree_ok d m l \<Longrightarrow> path_to d m path k l leaf \<Longrightarrow> k \<le> i \<Longrightarrow> i < k + d \<Longrightarrow>
   \<forall>i'. i < i' \<and> i' < k + d \<longrightarrow> p_index (path ! i') = Some 0 \<Longrightarrow>
   \<exists>l' n j c. p_header (path ! i) = Some l' \<and> m l' = Some n \<and> node_ok c n \<and> p_index (path ! i) = Some (int j)
     \<and> j < length (entries_of n) \<and> e_block (entries_of n ! j) = e_block (hd (extents_below 0 m leaf))"
proof (induction d arbitrary: k l)
  case (Suc d)
  from Suc.prems(2) obtain n j where n: "p_header (path ! k) = Some l" "m l = Some n" "j < length (entries_of n)"
    "p_index (path ! k) = Some (int j)" "path_to d m path (Suc k) (child (entries_of n ! j)) leaf" by auto
  let ?ix = "entries_of n ! j"
  have ix: "?ix \<in> set (entries_of n)" using n(3) by simp
  then have sub: "node_ok (Suc d) n" "tree_ok d m (child ?ix)" "extents_below d m (child ?ix) \<noteq> []"
    "e_block (hd (extents_below d m (child ?ix))) = e_block ?ix" using Suc.prems(1) n(2) by auto
  show ?case
  proof (cases "i = k")
    case True
    have "hd (extents_below d m (child ?ix)) = hd (extents_below 0 m leaf)"
      using Suc.prems(5) True by (intro first_key [OF sub(2) n(5) sub(3)]) simp
    then show ?thesis using True n sub(1,4) by auto
  next
    case False
    then show ?thesis using Suc.prems(3-5) by (intro Suc.IH [OF sub(2) n(5)]) auto
  qed
qed simp

section \<open>Indexes that are right stay as they are\<close>

lemma update_same:
  assumes "nodes s l = Some n" "node_ok c n" "j < length (entries_of n)" "f (entries_of n ! j) = Some (entries_of n ! j)"
  shows "\<exists>s'. update_entry (Some l) (Some (int j)) f s = Some s' \<and> nodes s' = nodes s"
proof -
  have "slot n (int j) = Some (entries_of n ! j)" using node_ok_slot [OF assms(2), of "int j"] assms(3) by simp
  moreover have "j < length (n_slots n)" "n_slots n ! j = entries_of n ! j" using assms(3) by (simp_all add: entries_of_def)
  then have "set_slot (int j) (entries_of n ! j) n = Some n"
    by (simp add: set_slot_def) (metis ext4_node.surjective ext4_node.update_convs(2) list_update_id)
  ultimately have "update_entry (Some l) (Some (int j)) f s = Some (put_node l n s)"
    using assms(1,4) by (simp add: update_entry_def update_node_def)
  then show ?thesis using assms(1) by (auto simp: put_node_def)
qed

lemma correct_loop_same:
  assumes "tree_ok d m Root" "path_to d m path 0 Root leaf" "d < length path" "dirty_marks_only env"
    and border: "border = e_block (hd (extents_below 0 m leaf))"
  shows "nodes s = m \<Longrightarrow> k < d \<Longrightarrow> \<forall>i. k < i \<and> i < d \<longrightarrow> p_index (path ! i) = Some 0 \<Longrightarrow>
    \<exists>s'. correct_indexes_loop env border k path s = Some (EOK, s') \<and> nodes s' = m"
proof (induction k arbitrary: s)
  case (Suc k)
  have at: "path_at path (Suc k) = Some (path ! Suc k)" "path_at path k = Some (path ! k)"
    using Suc.prems(2) assms(3) by (simp_all add: path_at_def)
  show ?case
  proof (cases "p_index (path ! Suc k) = Some EXT_FIRST")
    case False
    then show ?thesis using at Suc.prems(1) by simp
  next
    case True
    then have first: "\<forall>i. k < i \<and> i < d \<longrightarrow> p_index (path ! i) = Some 0"
      using Suc.prems(3) by (metis EXT_FIRST_def Suc_lessI)
    obtain l n j c where n: "p_header (path ! k) = Some l" "m l = Some n" "node_ok c n" "p_index (path ! k) = Some (int j)"
      "j < length (entries_of n)" "e_block (entries_of n ! j) = border"
      using index_key [OF assms(1,2), of k] first Suc.prems(2) border by auto
    obtain s1 where s1: "update_entry (Some l) (Some (int j)) (\<lambda>e. Some (e\<lparr>e_block := border\<rparr>)) s = Some s1" "nodes s1 = m"
      using update_same [of s l n c j "\<lambda>e. Some (e\<lparr>e_block := border\<rparr>)"] n(2,3,5) n(6) [symmetric] Suc.prems(1) by auto
    have "\<exists>s'. correct_indexes_loop env border k path (snd (ext4_ext_dirty env (path ! k) s1)) = Some (EOK, s') \<and> nodes s' = m"
      using Suc.prems(2) first s1(2) dirty_nodes(1) [OF assms(4)] by (intro Suc.IH) auto
    then show ?thesis using True at n(1,4) s1(1) dirty_nodes(2) [of env "path ! k" s1]
      by (auto split: prod.split)
  qed
qed simp

lemma correct_indexes_same:
  assumes tree: "tree_ok d (nodes s) Root" "inode_depth s = Some d" and path: "path_to d (nodes s) path 0 Root leaf" "d < length path"
    and n: "nodes s leaf = Some n" "entries_of n \<noteq> []" "p_extent (path ! d) \<noteq> None" and env: "dirty_marks_only env"
  shows "\<exists>s'. ext4_ext_correct_indexes env path s = Some (EOK, s') \<and> nodes s' = nodes s"
proof -
  have leaf: "path_at path d = Some (path ! d)" "p_header (path ! d) = Some leaf"
    using path path_to_header [OF path(1)] by (simp_all add: path_at_def)
  show ?thesis
  proof (cases "d = 0 \<or> p_extent (path ! d) \<noteq> Some EXT_FIRST")
    case True
    then show ?thesis using leaf n(3) tree(2) by (auto simp: ext4_ext_correct_indexes_def)
  next
    case False
    then obtain k where k: "d = Suc k" by (cases d) auto
    have ex: "entry_at s (Some leaf) (Some EXT_FIRST) = Some (hd (entries_of n))"
      using entries_nonempty_slot(1) [OF n(2)] n(1) by (simp add: entry_at_def node_at_def EXT_FIRST_def)
    let ?b = "e_block (hd (entries_of n))"
    have b: "?b = e_block (hd (extents_below 0 (nodes s) leaf))" using n(1) by simp
    obtain l i j c where i: "p_header (path ! k) = Some l" "nodes s l = Some i" "node_ok c i" "p_index (path ! k) = Some (int j)"
      "j < length (entries_of i)" "e_block (entries_of i ! j) = ?b"
      using index_key [OF tree(1) path(1), of k] k unfolding b by fastforce
    obtain s1 where s1: "update_entry (Some l) (Some (int j)) (\<lambda>e. Some (e\<lparr>e_block := ?b\<rparr>)) s = Some s1" "nodes s1 = nodes s"
      using update_same [of s l i c j "\<lambda>e. Some (e\<lparr>e_block := ?b\<rparr>)"] i(2,3,5) i(6) [symmetric] by auto
    have "\<exists>s'. correct_indexes_loop env ?b k path (snd (ext4_ext_dirty env (path ! k) s1)) = Some (EOK, s') \<and> nodes s' = nodes s"
      using k s1(2) dirty_nodes(1) [OF env] by (intro correct_loop_same [OF tree(1) path env b]) auto
    moreover have "path_at path k = Some (path ! k)" using path(2) k by (simp add: path_at_def)
    ultimately show ?thesis
      using False k leaf ex tree(2) i(1,4) s1(1) dirty_nodes(2) [of env "path ! k" s1]
      by (auto simp: ext4_ext_correct_indexes_def split: prod.split)
  qed
qed

end
