(* ===== verification/Ext4_Extent_Unmap.thy ===== *)
theory Ext4_Extent_Unmap
  imports Ext4_Extent_Split
begin

text \<open>
  What removing a range of blocks does to the map of an inode: in a tree of one leaf, exactly the blocks of
  the range are unmapped, unless the range starts at a block that is not mapped; then nothing is.
\<close>

section \<open>Cutting one extent\<close>

definition written :: "ext4_entry \<Rightarrow> bool" where "written e \<longleftrightarrow> \<not> ext4_ext_is_unwritten e"

text \<open>The first block behind an extent.\<close>

definition eend :: "ext4_entry \<Rightarrow> int" where "eend e = ekey e + ext_len e"

lemma covers_eend: "covers e b \<longleftrightarrow> ekey e \<le> b \<and> b < eend e" by (simp add: covers_def eend_def)

lemma written_sint_len:
  assumes "written e"
  shows "sint (ext4_ext_get_actual_len e) = ext_len e"
proof -
  have "uint (ext4_ext_get_actual_len e) = ext_len e"
    using assms by (simp add: uint_actual_len written_def is_unwritten_iff ext_len_small)
  then show ?thesis using ext_len_bound [of e] by (simp add: sint_uint signed_take_bit_int_eq_self)
qed

lemma written_end:
  assumes "written e" "0 < ext_len e" "eend e < 2 ^ 31"
  shows "sint (e_block e + ext4_ext_get_actual_len e) = eend e"
    "sint (e_block e + ext4_ext_get_actual_len e - 1) = eend e - 1"
proof -
  show a: "sint (e_block e + ext4_ext_get_actual_len e) = eend e"
    using written_sint_len [OF assms(1)] assms(2,3) sint_ge [of "e_block e"]
    by (subst sint_add_32) (simp_all add: eend_def ekey_def)
  show "sint (e_block e + ext4_ext_get_actual_len e - 1) = eend e - 1"
    using a assms(2,3) sint_ge [of "e_block e"] by (subst sint_sub_32) (simp_all add: eend_def ekey_def)
qed

text \<open>The end of an extent, from the block behind \<open>to\<close> on, and its front, up to the block before \<open>from\<close>.\<close>

definition end_part :: "u32 \<Rightarrow> ext4_entry \<Rightarrow> ext4_entry \<Rightarrow> bool" where
  "end_part to e g \<longleftrightarrow> ekey g = sint to + 1 \<and> ext_len g = eend e - (sint to + 1) \<and> written g
     \<and> ext4_ext_pblk g = ext4_ext_pblk e + word_of_int (sint to + 1 - ekey e)"

lemma cut_end:
  assumes "written e" "eend e < 2 ^ 31" "\<not> sint (e_block e) < sint from" "sint (e_block e) \<le> sint to" "sint to < eend e - 1"
    and "storable (snd (map_in e (sint to + 1)))"
  shows "\<exists>g. cut_entry (cut_extent from to e) e = Some g \<and> end_part to e g
     \<and> cut_start_after (cut_extent from to e) = False \<and> cut_keep_end (cut_extent from to e) \<and> cut_new_len (cut_extent from to e) \<noteq> 0"
proof -
  have len: "0 < ext_len e" using assms(4,5) by (simp add: eend_def ekey_def)
  note fin = written_end [OF assms(1) len assms(2)]
  let ?n = "e_block e + ext4_ext_get_actual_len e - 1 - to"
  have n: "sint ?n = eend e - 1 - sint to"
    using fin(2) assms(2,4,5) ext_len_bound(2) [of e] by (subst sint_sub_32) (simp_all add: eend_def ekey_def)
  have to1: "sint (to + 1) = sint to + 1"
    using assms(2,5) sint_ge [of to] by (subst sint_add_32) simp_all
  have nz: "?n \<noteq> 0" using n assms(5) by auto
  have cov: "covers e (sint (to + 1))" using assms(4,5) unfolding to1 by (simp add: covers_eend ekey_def)
  let ?nb = "ext4_ext_pblk e + u64_of_u32 (to + 1 - e_block e)"
  have nb: "?nb = ext4_ext_pblk e + word_of_int (sint to + 1 - ekey e)"
    using mapped_block(2) [OF cov, of "ext4_ext_pblk e"] unfolding to1 by (simp add: add.commute)
  have store: "\<not> bit ?nb 31" "drop_bit 47 ?nb = 0" using assms(6) unfolding nb by (simp_all add: storable_def map_in_def)
  let ?g = "ext4_ext_store_pblk ?nb (set_ee_len (ucast ?n) (e\<lparr>e_block := to + 1\<rparr>))"
  have c: "cut_extent from to e = \<lparr>cut_start = e_block e, cut_len = ext4_ext_get_actual_len e - ?n, cut_new_start = to + 1,
      cut_new_len = ?n, cut_newblock = ?nb, cut_start_after = False, cut_keep_end = True\<rparr>"
    using assms(3,5) fin(2) by (simp add: cut_extent_def endian_defs Let_def)
  have len_n: "uint (ucast ?n :: u16) = eend e - 1 - sint to"
    using n assms(4,5) ext_len_bound(2) [of e] by (subst uint_cut) (simp_all add: eend_def ekey_def)
  have "ee_len ?g = ucast ?n" "e_block ?g = to + 1" "ext4_ext_pblk ?g = ?nb"
    using join_pblk_parts [OF store]
    by (simp_all add: pblk_accessors set_ee_len_def set_ee_start_def ee_len_def ee_start_hi_def ee_start_lo_def halves)
  then have "end_part to e ?g"
    using len_n nb to1 assms(4,5) ext_len_bound(2) [of e]
    by (simp add: end_part_def ekey_def written_def is_unwritten_iff ext_len_def eend_def)
  moreover have "cut_entry (cut_extent from to e) e = Some ?g"
    using nz assms(1) by (simp add: c cut_entry_def endian_defs Let_def written_def)
  ultimately show ?thesis using nz by (simp add: c)
qed

lemma cut_all:
  assumes "written e" "0 < ext_len e" "eend e < 2 ^ 31" "\<not> sint (e_block e) < sint from" "eend e - 1 \<le> sint to"
  shows "cut_entry (cut_extent from to e) e = Some e"
    "cut_start_after (cut_extent from to e) = False" "\<not> cut_keep_end (cut_extent from to e)" "cut_new_len (cut_extent from to e) = 0"
  using assms(4,5) written_end(2) [OF assms(1-3)]
  by (simp_all add: cut_extent_def cut_entry_def endian_defs Let_def)

definition front_part :: "u32 \<Rightarrow> ext4_entry \<Rightarrow> ext4_entry \<Rightarrow> bool" where
  "front_part from e f \<longleftrightarrow> ekey f = ekey e \<and> ext_len f = sint from - ekey e \<and> written f \<and> ext4_ext_pblk f = ext4_ext_pblk e"

lemma join_pblk_again: "join_pblk (pblk_hi (join_pblk hi lo)) (ucast (join_pblk hi lo)) = join_pblk hi lo"
  by (intro bit_word_eqI) (auto simp: bit_join_pblk bit_pblk_hi bit_simps min_def not_less le_antisym)

lemma cut_front:
  assumes "written e" "sint (e_block e) < sint from" "sint from < eend e"
  shows "\<exists>f. cut_entry (cut_extent from to e) e = Some f \<and> front_part from e f
     \<and> cut_start_after (cut_extent from to e) \<and> \<not> cut_keep_end (cut_extent from to e) \<and> cut_new_len (cut_extent from to e) \<noteq> 0"
proof -
  have cov: "covers e (sint from)" using assms(2,3) by (simp add: covers_eend ekey_def)
  have n: "sint (from - e_block e) = sint from - ekey e" by (rule mapped_block(1) [OF cov])
  have nz: "from - e_block e \<noteq> 0" using assms(2) by auto
  have len: "uint (ucast (from - e_block e) :: u16) = sint from - ekey e" by (rule front_len [OF cov])
  let ?f = "ext4_ext_store_pblk (ext4_ext_pblk e) (set_ee_len (ucast (from - e_block e)) (e\<lparr>e_block := e_block e\<rparr>))"
  have "ee_len ?f = ucast (from - e_block e)" "e_block ?f = e_block e" "ext4_ext_pblk ?f = ext4_ext_pblk e"
    using join_pblk_again [of "ee_start_hi e" "ee_start_lo e"]
    by (simp_all add: pblk_accessors set_ee_len_def set_ee_start_def ee_len_def ee_start_hi_def ee_start_lo_def halves)
  moreover have "0 \<le> sint from - ekey e" "sint from - ekey e < 2 ^ 15"
    using assms(2,3) ext_len_bound(2) [of e] by (simp_all add: eend_def ekey_def)
  ultimately have "front_part from e ?f"
    using len by (simp add: front_part_def ekey_def written_def is_unwritten_iff ext_len_def)
  moreover have "cut_entry (cut_extent from to e) e = Some ?f"
    using nz assms(1,2) by (simp add: cut_extent_def cut_entry_def endian_defs Let_def written_def)
  ultimately show ?thesis using nz assms(2) by (simp add: cut_extent_def endian_defs Let_def)
qed

section \<open>The loop over a leaf\<close>

text \<open>What an extent list is without the blocks up to \<open>to\<close>.\<close>

definition rest_of :: "u32 \<Rightarrow> ext4_entry list \<Rightarrow> ext4_entry list \<Rightarrow> bool" where
  "rest_of to xs ys \<longleftrightarrow> disjoint_extents ys \<and> (\<forall>e \<in> set ys. written e \<and> sint to < ekey e \<and> (\<exists>x \<in> set xs. ekey x \<le> ekey e))
     \<and> length ys \<le> length xs
     \<and> (\<forall>b. extent_map ys b = (if b \<le> sint to then None else extent_map xs b))"

lemma rest_of_behind:
  assumes "disjoint_extents xs" "\<forall>e \<in> set xs. written e \<and> sint to < ekey e"
  shows "rest_of to xs xs"
proof -
  have "extent_map xs b = None" if "b \<le> sint to" for b
    using that assms(2) unfolding extent_map_None by (fastforce simp: covers_def)
  then show ?thesis using assms by (auto simp: rest_of_def)
qed

lemma rest_of_end:
  assumes dis: "disjoint_extents (e # xs)" and w: "\<forall>x \<in> set (e # xs). written x" and g: "end_part to e g"
    and to: "ekey e \<le> sint to" "sint to < eend e - 1"
  shows "rest_of to (e # xs) (g # xs)"
proof -
  have xs: "disjoint_extents xs" "\<forall>x \<in> set xs. eend e \<le> ekey x" "eend e < 2 ^ 31"
    using dis by (auto simp: disjoint_extents_def eend_def)
  have g': "ekey g = sint to + 1" "eend g = eend e" "written g"
    "ext4_ext_pblk g = ext4_ext_pblk e + word_of_int (sint to + 1 - ekey e)" "ekey g + ext_len g = eend e"
    using g by (simp_all add: end_part_def eend_def)
  have map: "extent_map (g # xs) b = (if b \<le> sint to then None else extent_map (e # xs) b)" for b
  proof (cases "b \<le> sint to")
    case True
    then have "\<forall>x \<in> set (g # xs). \<not> covers x b" using g' xs(2) to by (fastforce simp: covers_eend)
    then have "extent_map (g # xs) b = None" unfolding extent_map_None .
    then show ?thesis using True by simp
  next
    case False
    then have same: "covers g b \<longleftrightarrow> covers e b" using g' to by (auto simp: covers_eend)
    have "word_of_int (sint to + 1 - ekey e) + word_of_int (b - ekey g) = (word_of_int (b - ekey e) :: u64)"
      unfolding g'(1) by (simp only: wi_hom_syms) simp
    then have "map_in g b = map_in e b" using g'(3,4) w by (simp add: map_in_def written_def add.assoc)
    then show ?thesis using False same by (simp add: extent_map_def)
  qed
  have "disjoint_extents (g # xs)"
    using xs g' to dis by (auto simp: disjoint_extents_def eend_def)
  then show ?thesis
    using map w g' xs(2) to by (fastforce simp: rest_of_def)
qed

lemma rest_of_drop:
  assumes dis: "disjoint_extents (e # xs)" and e: "eend e - 1 \<le> sint to" and r: "rest_of to xs ys"
  shows "rest_of to (e # xs) ys"
proof -
  have "extent_map ys b = (if b \<le> sint to then None else extent_map (e # xs) b)" for b
    using r e by (auto simp: rest_of_def extent_map_def covers_eend)
  then show ?thesis using r by (auto simp: rest_of_def)
qed

text \<open>Freeing blocks leaves the nodes alone.\<close>

definition free_keeps_nodes :: "'w ext4_env \<Rightarrow> bool" where
  "free_keeps_nodes env \<longleftrightarrow> (\<forall>b n s. nodes (ext4_balloc_free_blocks env b n s) = nodes s)"

text \<open>One round of the loop writes the cut entry back and goes on behind it; the loop ends behind the leaf and at an extent behind the range.\<close>

lemma remove_loop_cut:
  assumes env: "free_keeps_nodes env" and n: "nodes s l = Some n" "node_ok 0 n" and i: "i < length (entries_of n)"
    and le: "ekey (entries_of n ! i) \<le> sint to"
    and c: "c = cut_extent from to (entries_of n ! i)" "cut_entry c (entries_of n ! i) = Some g"
  shows "\<exists>s2 n2. nodes s2 = (nodes s)(l \<mapsto> n2) \<and> n_hdr n2 = n_hdr n \<and> entries_of n2 = (entries_of n)[i := g] \<and> node_ok 0 n2
    \<and> remove_leaf_loop env l from to (int i) start None new s
      = remove_leaf_loop env l from to (int (Suc i)) (if cut_start_after c then start + 1 else start)
          (if cut_keep_end c then Some (int i) else None) (if cut_new_len c = 0 then new - 1 else new) s2"
proof -
  let ?e = "entries_of n ! i"
  let ?s1 = "ext4_ext_remove_blocks env ?e (cut_start c) (cut_start c + cut_len c - 1) s"
  have s1: "nodes ?s1 = nodes s" using env by (simp add: ext4_ext_remove_blocks_def ext4_ext_free_blocks_def free_keeps_nodes_def)
  then have "nodes ?s1 l = Some n" using n(1) by simp
  then obtain n2 where n2: "update_entry (Some l) (Some (int i)) (cut_entry c) ?s1 = Some (put_node l n2 ?s1)"
    "n_hdr n2 = n_hdr n" "entries_of n2 = (entries_of n)[i := g]" "node_ok 0 n2"
    using update_entry_node [OF _ n(2) i, of ?s1 l "cut_entry c" g] c(2) by blast
  have at: "slot n (int i) = Some ?e" "int i \<le> EXT_LAST (n_hdr n)" "u32_le (le32_to_cpu (e_block ?e)) to" "int (Suc i) = int i + 1"
    using node_ok_slot [OF n(2), of "int i"] node_ok_last [OF n(2)] i le by (simp_all add: endian_defs ekey_def)
  have "remove_leaf_loop env l from to (int i) start None new s
      = remove_leaf_loop env l from to (int (Suc i)) (if cut_start_after c then start + 1 else start)
          (if cut_keep_end c then Some (int i) else None) (if cut_new_len c = 0 then new - 1 else new) (put_node l n2 ?s1)"
    by (subst remove_leaf_loop.simps) (simp only: n(1) at option.case if_True Let_def c(1) [symmetric] n2(1) cong: if_cong)
  then show ?thesis using n2(2-4) s1 by (intro exI [of _ "put_node l n2 ?s1"] exI [of _ n2]) (simp add: put_node_def)
qed

lemma remove_loop_stop:
  assumes "nodes s l = Some n" "node_ok 0 n" "i < length (entries_of n) \<Longrightarrow> sint to < ekey (entries_of n ! i)"
  shows "remove_leaf_loop env l from to (int i) start ex2 new s = Some (int i, start, ex2, new, s)"
  using assms node_ok_slot [OF assms(2), of "int i"] node_ok_last [OF assms(2)]
  by (subst remove_leaf_loop.simps) (auto simp: endian_defs ekey_def not_less)

text \<open>
  What the loop returns from slot \<open>i\<close> on: it ends at \<open>m\<close>, the entries that stay behind the range start at
  \<open>kept_from m ex2\<close>, and the entries that are gone are taken off the count.
\<close>

definition kept_from :: "nat \<Rightarrow> nat option \<Rightarrow> nat" where
  "kept_from m ex2 = (case ex2 of None \<Rightarrow> m | Some q \<Rightarrow> q)"

lemma kept_from_simps [simp]: "kept_from m None = m" "kept_from m (Some q) = q"
  by (simp_all add: kept_from_def)

definition suffix_done :: "u32 \<Rightarrow> loc \<Rightarrow> 'w ext4_state \<Rightarrow> ext4_node \<Rightarrow> nat \<Rightarrow> int \<Rightarrow> u16 \<Rightarrow>
    (int \<times> int \<times> int option \<times> u16 \<times> 'w ext4_state) option \<Rightarrow> bool" where
  "suffix_done to l s n i start new r \<longleftrightarrow> (\<exists>m ex2 s' n'.
     r = Some (int m, start, map_option int ex2,
           new - of_nat (length (drop i (entries_of n)) - length (drop (kept_from m ex2) (entries_of n'))), s')
     \<and> nodes s' = (nodes s)(l \<mapsto> n') \<and> n_hdr n' = n_hdr n \<and> node_ok 0 n' \<and> take i (entries_of n') = take i (entries_of n)
     \<and> i \<le> kept_from m ex2 \<and> kept_from m ex2 \<le> length (entries_of n) \<and> length (entries_of n') = length (entries_of n)
     \<and> rest_of to (drop i (entries_of n)) (drop (kept_from m ex2) (entries_of n')))"

lemma suffix_behind:
  assumes n: "nodes s l = Some n" "node_ok 0 n" and i: "i \<le> length (entries_of n)"
    and D: "disjoint_extents (drop i (entries_of n))" "\<forall>e \<in> set (drop i (entries_of n)). written e \<and> sint to < ekey e"
  shows "suffix_done to l s n i start new (remove_leaf_loop env l from to (int i) start None new s)"
proof -
  have "remove_leaf_loop env l from to (int i) start None new s = Some (int i, start, None, new, s)"
    using D(2) by (intro remove_loop_stop [OF n]) (simp add: Cons_nth_drop_Suc [symmetric])
  moreover have "nodes s = (nodes s)(l \<mapsto> n)" using n(1) by auto
  ultimately show ?thesis unfolding suffix_done_def using n(2) i rest_of_behind [OF D]
    by (intro exI [of _ i] exI [of _ None] exI [of _ s] exI [of _ n]) simp
qed

lemma suffix_cut_end:
  assumes env: "free_keeps_nodes env" and n: "nodes s l = Some n" "node_ok 0 n" and dr: "drop i (entries_of n) = e # xs"
    and D: "disjoint_extents (e # xs)" "\<forall>x \<in> set (e # xs). written x" and fr: "sint from \<le> ekey e"
    and to: "ekey e \<le> sint to" "sint to < eend e - 1" and store: "storable (snd (map_in e (sint to + 1)))"
  shows "suffix_done to l s n i start new (remove_leaf_loop env l from to (int i) start None new s)"
proof -
  let ?es = "entries_of n" and ?c = "cut_extent from to e"
  have i: "i < length ?es" using dr by (metis drop_eq_Nil leI list.distinct(1))
  have e: "?es ! i = e" "drop (Suc i) ?es = xs" using dr Cons_nth_drop_Suc [OF i] by simp_all
  have pre: "written e" "eend e < 2 ^ 31" "\<not> sint (e_block e) < sint from" "sint (e_block e) \<le> sint to"
    using D fr to(1) by (simp_all add: disjoint_extents_def eend_def ekey_def)
  obtain g where g: "cut_entry ?c e = Some g" "end_part to e g" "cut_start_after ?c = False" "cut_keep_end ?c" "cut_new_len ?c \<noteq> 0"
    using cut_end [OF pre to(2) store] by blast
  obtain s2 n2 where n2: "nodes s2 = (nodes s)(l \<mapsto> n2)" "n_hdr n2 = n_hdr n" "entries_of n2 = ?es[i := g]" "node_ok 0 n2"
    "remove_leaf_loop env l from to (int i) start None new s = remove_leaf_loop env l from to (int (Suc i)) start (Some (int i)) new s2"
    using remove_loop_cut [OF env n i, of to ?c "from" g start new] g e(1) to(1) by auto
  have "\<forall>x \<in> set xs. sint to < ekey x" using D(1) to(2) by (auto simp: disjoint_extents_def eend_def)
  then have "remove_leaf_loop env l from to (int (Suc i)) start (Some (int i)) new s2 = Some (int (Suc i), start, Some (int i), new, s2)"
    using n2 e(2) by (intro remove_loop_stop) (auto simp: Cons_nth_drop_Suc [symmetric])
  moreover have "drop i (entries_of n2) = g # xs"
    using i n2(3) e(2) by (metis Cons_nth_drop_Suc drop_update_cancel length_list_update lessI nth_list_update_eq)
  ultimately show ?thesis unfolding suffix_done_def dr using rest_of_end [OF D g(2) to] n2 i
    by (intro exI [of _ "Suc i"] exI [of _ "Some i"] exI [of _ s2] exI [of _ n2]) simp
qed

lemma suffix_drop:
  assumes dr: "drop i (entries_of n) = e # xs" and dis: "disjoint_extents (e # xs)" and e: "eend e - 1 \<le> sint to"
    and n2: "nodes s2 = (nodes s)(l \<mapsto> n2)" "n_hdr n2 = n_hdr n" "entries_of n2 = entries_of n"
    and r: "suffix_done to l s2 n2 (Suc i) start (new - 1) r"
  shows "suffix_done to l s n i start new r"
proof -
  let ?es = "entries_of n"
  have xs: "drop (Suc i) ?es = xs" using dr by (metis drop_Suc list.sel(3) tl_drop)
  obtain m ex2 s' n' where run: "r = Some (int m, start, map_option int ex2, new - 1 - of_nat (length xs - length (drop (kept_from m ex2) (entries_of n'))), s')"
    "nodes s' = (nodes s)(l \<mapsto> n')" "n_hdr n' = n_hdr n" "node_ok 0 n'" "take (Suc i) (entries_of n') = take (Suc i) ?es"
    "Suc i \<le> kept_from m ex2" "kept_from m ex2 \<le> length ?es"
    "length (entries_of n') = length ?es" "rest_of to xs (drop (kept_from m ex2) (entries_of n'))"
    using r n2 unfolding suffix_done_def n2(3) xs by auto
  have "length (drop (kept_from m ex2) (entries_of n')) \<le> length xs" using run(9) by (simp add: rest_of_def)
  then have "(new - 1 - of_nat (length xs - length (drop (kept_from m ex2) (entries_of n'))) :: u16)
      = new - of_nat (length (e # xs) - length (drop (kept_from m ex2) (entries_of n')))"
    by (simp add: Suc_diff_le)
  moreover have "take i (entries_of n') = take i ?es" using arg_cong [OF run(5), of "take i"] by simp
  ultimately show ?thesis unfolding suffix_done_def dr using run rest_of_drop [OF dis e run(9)]
    by (intro exI [of _ m] exI [of _ ex2] exI [of _ s'] exI [of _ n']) simp
qed

lemma remove_loop_suffix:
  assumes "free_keeps_nodes env"
  shows "nodes s l = Some n \<Longrightarrow> node_ok 0 n \<Longrightarrow> i \<le> length (entries_of n)
     \<Longrightarrow> disjoint_extents (drop i (entries_of n)) \<Longrightarrow> \<forall>e \<in> set (drop i (entries_of n)). written e \<and> sint from \<le> ekey e
     \<Longrightarrow> \<forall>e \<in> set (drop i (entries_of n)). covers e (sint to + 1) \<longrightarrow> storable (snd (map_in e (sint to + 1)))
     \<Longrightarrow> suffix_done to l s n i start new (remove_leaf_loop env l from to (int i) start None new s)"
proof (induction "length (entries_of n) - i" arbitrary: s n i new)
  case 0
  then show ?case by (intro suffix_behind) simp_all
next
  case (Suc k)
  let ?es = "entries_of n"
  have i: "i < length ?es" using Suc.hyps(2) by simp
  let ?e = "?es ! i" and ?xs = "drop (Suc i) ?es"
  have dr: "drop i ?es = ?e # ?xs" using i by (rule Cons_nth_drop_Suc [symmetric])
  note pre = Suc.prems(4-6) [unfolded dr]
  have e: "written ?e" "0 < ext_len ?e" "eend ?e < 2 ^ 31" "\<not> sint (e_block ?e) < sint from" and xs: "disjoint_extents ?xs"
    and w: "\<forall>x \<in> set (?e # ?xs). written x"
    using pre(1,2) by (auto simp: disjoint_extents_def eend_def ekey_def)
  consider "sint to < ekey ?e" | "ekey ?e \<le> sint to" "sint to < eend ?e - 1" | "ekey ?e \<le> sint to" "eend ?e - 1 \<le> sint to" by linarith
  then show ?case
  proof cases
    case 1
    then have "\<forall>x \<in> set (?e # ?xs). sint to < ekey x" using pre(1) e(2) by (fastforce simp: disjoint_extents_def)
    then show ?thesis using Suc.prems(1-3) pre(1) w by (intro suffix_behind) (simp_all add: dr)
  next
    case 2
    then have "storable (snd (map_in ?e (sint to + 1)))" using pre(3) by (simp add: covers_eend)
    then show ?thesis using pre(2) 2 by (intro suffix_cut_end [OF assms Suc.prems(1,2) dr pre(1) w]) simp_all
  next
    case 3
    note c = cut_all [OF e 3(2)]
    obtain s2 n2 where n2: "nodes s2 = (nodes s)(l \<mapsto> n2)" "n_hdr n2 = n_hdr n" "entries_of n2 = ?es" "node_ok 0 n2"
      "remove_leaf_loop env l from to (int i) start None new s = remove_leaf_loop env l from to (int (Suc i)) start None (new - 1) s2"
      using remove_loop_cut [OF assms Suc.prems(1,2) i 3(1) refl c(1), of start new] c(2-4) by (auto simp del: of_nat_Suc)
    have "suffix_done to l s2 n2 (Suc i) start (new - 1) (remove_leaf_loop env l from to (int (Suc i)) start None (new - 1) s2)"
      using Suc.hyps(2) n2(1-4) i xs pre(2,3) by (intro Suc.hyps(1)) (simp_all del: of_nat_Suc)
    then show ?thesis unfolding n2(5) by (rule suffix_drop [OF dr pre(1) 3(2) n2(1-3)])
  qed
qed

section \<open>A leaf without a range\<close>

definition unmapped :: "u32 \<Rightarrow> u32 \<Rightarrow> ext4_entry list \<Rightarrow> ext4_entry list \<Rightarrow> bool" where
  "unmapped from to xs ys \<longleftrightarrow> disjoint_extents ys \<and> (\<forall>e \<in> set ys. written e) \<and> length ys \<le> length xs
     \<and> (\<forall>b. extent_map ys b = (if sint from \<le> b \<and> b \<le> sint to then None else extent_map xs b))"

lemma extent_map_append: "extent_map (xs @ ys) b = (case extent_map xs b of None \<Rightarrow> extent_map ys b | r \<Rightarrow> r)"
  by (simp add: extent_map_def find_app split: option.split)

lemma unmapped_parts:
  assumes r: "rest_of to D R" and ft: "sint from \<le> sint to" and P: "disjoint_extents P" "\<forall>x \<in> set P. written x \<and> eend x \<le> sint from"
    and Q: "\<forall>b < sint from. extent_map P b = extent_map Q b" "\<forall>b > sint to. extent_map Q b = None"
    and D: "\<forall>x \<in> set D. sint from \<le> ekey x" and len: "length P = length Q"
  shows "unmapped from to (Q @ D) (P @ R)"
proof -
  have R: "disjoint_extents R" "\<forall>e \<in> set R. written e \<and> sint to < ekey e" "length R \<le> length D"
    "extent_map R b = (if b \<le> sint to then None else extent_map D b)" for b
    using r by (auto simp: rest_of_def)
  have dis: "disjoint_extents (P @ R)"
    using P R(1,2) ft by (fastforce simp: disjoint_extents_def sorted_wrt_append eend_def)
  have "extent_map P b = None" if "sint from \<le> b" for b
    using that P(2) unfolding extent_map_None by (fastforce simp: covers_eend)
  moreover have "extent_map D b = None" if "b < sint from" for b
    using that D unfolding extent_map_None by (fastforce simp: covers_eend)
  ultimately have "extent_map (P @ R) b = (if sint from \<le> b \<and> b \<le> sint to then None else extent_map (Q @ D) b)" for b
    using Q R(4) ft by (cases "b < sint from"; cases "b \<le> sint to") (auto simp: extent_map_append split: option.split)
  then show ?thesis using dis P(2) R(2,3) len by (auto simp: unmapped_def)
qed

text \<open>The whole loop: what is kept are the first \<open>start\<close> entries and those from \<open>q\<close> on.\<close>

definition loop_done :: "u32 \<Rightarrow> u32 \<Rightarrow> ext4_node \<Rightarrow> ext4_node \<Rightarrow> nat \<Rightarrow> nat \<Rightarrow> bool" where
  "loop_done from to n n' start q \<longleftrightarrow> n_hdr n' = n_hdr n \<and> node_ok 0 n' \<and> length (entries_of n') = length (entries_of n)
     \<and> start \<le> q \<and> q \<le> length (entries_of n) \<and> unmapped from to (entries_of n) (take start (entries_of n') @ drop q (entries_of n'))"

text \<open>The first extent of the range: its front stays, or the range starts with it.\<close>

lemma done_suffix:
  assumes "suffix_done to l s n' i (int i) new r" "i \<le> length (entries_of n)" "length (entries_of n') = length (entries_of n)" "n_hdr n' = n_hdr n"
    and "\<And>R. rest_of to (drop i (entries_of n')) R \<Longrightarrow> unmapped from to (entries_of n) (take i (entries_of n') @ R)"
  shows "\<exists>m start ex2 s' n2 k. r = Some (int m, int start, map_option int ex2, new - of_nat k, s')
     \<and> nodes s' = (nodes s)(l \<mapsto> n2) \<and> loop_done from to n n2 start (kept_from m ex2)
     \<and> k + start + length (drop (kept_from m ex2) (entries_of n2)) = length (entries_of n)"
proof -
  obtain m ex2 s' n2 where run: "r = Some (int m, int i, map_option int ex2,
       new - of_nat (length (drop i (entries_of n')) - length (drop (kept_from m ex2) (entries_of n2))), s')"
    "nodes s' = (nodes s)(l \<mapsto> n2)" "n_hdr n2 = n_hdr n" "node_ok 0 n2" "take i (entries_of n2) = take i (entries_of n')"
    "i \<le> kept_from m ex2" "kept_from m ex2 \<le> length (entries_of n)" "length (entries_of n2) = length (entries_of n)"
    "rest_of to (drop i (entries_of n')) (drop (kept_from m ex2) (entries_of n2))"
    using assms(1) unfolding suffix_done_def assms(3,4) by blast
  have "loop_done from to n n2 i (kept_from m ex2)"
    using run(3-8) assms(5) [OF run(9)] by (simp add: loop_done_def)
  moreover have "length (drop (kept_from m ex2) (entries_of n2)) \<le> length (drop i (entries_of n'))" using run(9) by (simp add: rest_of_def)
  ultimately show ?thesis using run(1,2) assms(2,3)
    by (intro exI [of _ m] exI [of _ i] exI [of _ ex2] exI [of _ s'] exI [of _ n2]
      exI [of _ "length (drop i (entries_of n')) - length (drop (kept_from m ex2) (entries_of n2))"]) simp
qed

lemma front_unmapped:
  assumes dis: "disjoint_extents (P @ e # D)" and w: "\<forall>x \<in> set (P @ e # D). written x" and f: "front_part from e f"
    and e: "ekey e < sint from" "sint from < eend e" "eend e - 1 \<le> sint to" and r: "rest_of to D R"
  shows "unmapped from to (P @ e # D) (P @ f # R)"
proof -
  have P: "\<forall>x \<in> set P. eend x \<le> ekey e" "disjoint_extents P" and D: "\<forall>x \<in> set D. eend e \<le> ekey x"
    using dis by (auto simp: disjoint_extents_def sorted_wrt_append eend_def)
  have f': "ekey f = ekey e" "eend f = sint from" "written f" "ext4_ext_pblk f = ext4_ext_pblk e" "0 < ext_len f"
    using f e(1) by (simp_all add: front_part_def eend_def)
  have same: "covers f b \<longleftrightarrow> covers e b" "map_in f b = map_in e b" if "b < sint from" for b
    using that f' e(2) w by (auto simp: covers_eend map_in_def written_def)
  have "disjoint_extents (P @ [f])"
    using P f' sint_lt [of "from"] by (fastforce simp: disjoint_extents_def sorted_wrt_append eend_def)
  moreover have "\<forall>x \<in> set (P @ [f]). written x \<and> eend x \<le> sint from" using w P(1) f'(2,3) e(1) by fastforce
  moreover have "\<forall>b < sint from. extent_map (P @ [f]) b = extent_map (P @ [e]) b"
    using same by (auto simp: extent_map_def find_app split: option.split)
  moreover have "\<forall>b > sint to. extent_map (P @ [e]) b = None"
    using P(1) e unfolding extent_map_None by (fastforce simp: covers_eend)
  moreover have "\<forall>x \<in> set D. sint from \<le> ekey x" using D e(2) by fastforce
  ultimately have "unmapped from to ((P @ [e]) @ D) ((P @ [f]) @ R)" using e by (intro unmapped_parts [OF r]) auto
  then show ?thesis by simp
qed

lemma remove_loop_done:
  assumes n: "nodes s l = Some n" "node_ok 0 n" "disjoint_extents (entries_of n)" "\<forall>e \<in> set (entries_of n). written e"
    and j: "j < length (entries_of n)" "covers (entries_of n ! j) (sint from)" and ft: "sint from \<le> sint to"
    and outside: "\<not> (ekey (entries_of n ! j) < sint from \<and> sint to < eend (entries_of n ! j) - 1)"
    and store: "\<forall>e \<in> set (entries_of n). covers e (sint to + 1) \<longrightarrow> storable (snd (map_in e (sint to + 1)))"
    and env: "free_keeps_nodes env"
  shows "\<exists>m start ex2 s' n' k. remove_leaf_loop env l from to (int j) (int j) None new s
       = Some (int m, int start, map_option int ex2, new - of_nat k, s')
     \<and> nodes s' = (nodes s)(l \<mapsto> n') \<and> loop_done from to n n' start (kept_from m ex2)
     \<and> k + start + length (drop (kept_from m ex2) (entries_of n')) = length (entries_of n)"
proof -
  let ?es = "entries_of n"
  let ?e = "?es ! j" and ?P = "take j ?es" and ?D = "drop (Suc j) ?es"
  have es: "?es = ?P @ ?e # ?D" by (rule id_take_nth_drop [OF j(1)])
  have dr: "drop j ?es = ?e # ?D" using j(1) by (rule Cons_nth_drop_Suc [symmetric])
  have dis: "disjoint_extents (?P @ ?e # ?D)" using n(3) es by simp
  have w: "\<forall>x \<in> set (?P @ ?e # ?D). written x" using n(4) es by simp
  have st: "\<forall>e \<in> set (drop i ?es). covers e (sint to + 1) \<longrightarrow> storable (snd (map_in e (sint to + 1)))" for i
    using store by (auto dest: in_set_dropD)
  have P: "\<forall>x \<in> set ?P. eend x \<le> ekey ?e" "disjoint_extents ?P" "disjoint_extents (?e # ?D)" "disjoint_extents ?D"
    and D: "\<forall>x \<in> set ?D. eend ?e \<le> ekey x"
    using dis by (auto simp: disjoint_extents_def sorted_wrt_append eend_def)
  show ?thesis
  proof (cases "ekey ?e < sint from")
    case False
    then have fr: "sint from = ekey ?e" using j(2) by (simp add: covers_def)
    have wD: "\<forall>e \<in> set (drop j ?es). written e \<and> sint from \<le> ekey e"
      using w D ext_len_bound(1) [of ?e] fr unfolding dr by (auto simp: eend_def)
    have "\<forall>b > sint to. extent_map ?P b = None"
      using P(1) ft fr unfolding extent_map_None by (fastforce simp: covers_eend)
    then have "unmapped from to (?P @ drop j ?es) (?P @ R)" if "rest_of to (drop j ?es) R" for R
      using w P(1,2) wD fr ft by (intro unmapped_parts [OF that]) auto
    then have "unmapped from to ?es (?P @ R)" if "rest_of to (?e # ?D) R" for R
      using that unfolding append_take_drop_id dr [symmetric] by simp
    then show ?thesis
      using j(1) P(3) by (intro done_suffix [OF remove_loop_suffix [OF env n(1,2) _ _ wD st]]) (simp_all add: dr)
  next
    case True
    have to: "eend ?e - 1 \<le> sint to" and fr: "sint from < eend ?e" using outside True j(2) by (auto simp: covers_eend)
    let ?c = "cut_extent from to ?e"
    obtain f where f: "cut_entry ?c ?e = Some f" "front_part from ?e f" "cut_start_after ?c" "\<not> cut_keep_end ?c" "cut_new_len ?c \<noteq> 0"
      using cut_front [OF _ _ fr, of to] w True by (auto simp: ekey_def)
    obtain s2 n2 where n2: "nodes s2 = (nodes s)(l \<mapsto> n2)" "n_hdr n2 = n_hdr n" "entries_of n2 = ?es[j := f]" "node_ok 0 n2"
      "remove_leaf_loop env l from to (int j) (int j) None new s = remove_leaf_loop env l from to (int (Suc j)) (int (Suc j)) None new s2"
      using remove_loop_cut [OF env n(1,2) j(1) _ refl f(1), of "int j" new] f(3-5) True ft by (auto simp: add.commute)
    have D2: "drop (Suc j) (entries_of n2) = ?D" "take (Suc j) (entries_of n2) = ?P @ [f]"
      using n2(3) j(1) by (simp_all add: take_Suc_conv_app_nth)
    have wD: "\<forall>e \<in> set (drop (Suc j) (entries_of n2)). written e \<and> sint from \<le> ekey e" using w D fr unfolding D2 by force
    have "nodes s2 l = Some n2" using n2(1) by simp
    then have run: "suffix_done to l s2 n2 (Suc j) (int (Suc j)) new (remove_leaf_loop env l from to (int (Suc j)) (int (Suc j)) None new s2)"
      using n2(3,4) j(1) P(4) st by (intro remove_loop_suffix [OF env _ _ _ _ wD]) (simp_all del: of_nat_Suc)
    have "unmapped from to ?es (?P @ f # R)" if "rest_of to ?D R" for R
      using front_unmapped [OF dis w f(2) True fr to that] es by simp
    then have "\<exists>m start ex2 s' n' k. remove_leaf_loop env l from to (int (Suc j)) (int (Suc j)) None new s2
         = Some (int m, int start, map_option int ex2, new - of_nat k, s')
       \<and> nodes s' = (nodes s2)(l \<mapsto> n') \<and> loop_done from to n n' start (kept_from m ex2)
       \<and> k + start + length (drop (kept_from m ex2) (entries_of n')) = length ?es"
      using n2(2,3) j(1) by (intro done_suffix [OF run]) (simp_all add: take_Suc_conv_app_nth)
    then show ?thesis using n2(1,5) by simp
  qed
qed

text \<open>Closing the gap: the entries from \<open>q\<close> on move to \<open>start\<close>.\<close>

lemma close_gap:
  assumes "node_ok 0 n" "start \<le> q" "q \<le> length (entries_of n)"
  shows "\<exists>n'. (if int q \<le> EXT_LAST (n_hdr n) then move_slots (int start) (int q) (EXT_LAST (n_hdr n) - int q + 1) n else Some n) = Some n'
     \<and> n_hdr n' = n_hdr n \<and> length (n_slots n') = length (n_slots n)
     \<and> take (start + (length (entries_of n) - q)) (n_slots n') = take start (entries_of n) @ drop q (entries_of n)"
proof -
  let ?es = "entries_of n"
  obtain r where sl: "n_slots n = ?es @ r" unfolding entries_of_def by (metis append_take_drop_id)
  have last: "EXT_LAST (n_hdr n) = int (length ?es) - 1" by (rule node_ok_last [OF assms(1)])
  show ?thesis
  proof (cases "q < length ?es")
    case True
    let ?k = "length ?es - q"
    have k: "nat (EXT_LAST (n_hdr n) - int q + 1) = ?k" "nat (int start + (EXT_LAST (n_hdr n) - int q + 1)) = start + ?k"
      unfolding last using True by linarith+
    let ?sl = "take start (n_slots n) @ take ?k (drop q (n_slots n)) @ drop (start + ?k) (n_slots n)"
    have bound: "0 \<le> EXT_LAST (n_hdr n) - int q + 1" "int q + (EXT_LAST (n_hdr n) - int q + 1) \<le> int (length (n_slots n))"
      "int start + (EXT_LAST (n_hdr n) - int q + 1) \<le> int (length (n_slots n))" "int q \<le> EXT_LAST (n_hdr n)"
      unfolding last using True assms(2) sl by simp_all
    then have "move_slots (int start) (int q) (EXT_LAST (n_hdr n) - int q + 1) n = Some (n\<lparr>n_slots := ?sl\<rparr>)"
      by (simp only: move_slots_def k nat_int) simp
    moreover have "take start (n_slots n) = take start ?es" "take ?k (drop q (n_slots n)) = drop q ?es"
      using True assms(2) by (simp_all add: sl)
    ultimately show ?thesis using bound(4) True assms(2) sl by (intro exI [of _ "n\<lparr>n_slots := ?sl\<rparr>"]) simp
  next
    case False
    then show ?thesis using last assms(2,3) sl by (intro exI [of _ n]) simp
  qed
qed

lemma of_nat_entries: "node_ok d n \<Longrightarrow> eh_entries (n_hdr n) = of_nat (length (entries_of n))"
proof -
  assume "node_ok d n"
  then have "of_int (sint (eh_entries (n_hdr n))) = (of_int (int (length (entries_of n))) :: u16)"
    using node_ok_length [of d n] by simp
  then show "eh_entries (n_hdr n) = of_nat (length (entries_of n))" by simp
qed

lemma sint_of_nat_16: "k < 2 ^ 15 \<Longrightarrow> sint (of_nat k :: u16) = int k"
  by (simp add: sint_16 unsigned_of_nat take_bit_nat_eq_self)

lemma remove_leaf_unmaps:
  assumes at: "leaf_at s path 0 p l n j" and w: "\<forall>e \<in> set (entries_of n). written e" and root: "p_lb_id p = 0"
    and cov: "covers (entries_of n ! j) (sint from)" and ft: "sint from \<le> sint to"
    and outside: "\<not> (ekey (entries_of n ! j) < sint from \<and> sint to < eend (entries_of n ! j) - 1)"
    and store: "\<forall>e \<in> set (entries_of n). covers e (sint to + 1) \<longrightarrow> storable (snd (map_in e (sint to + 1)))"
    and env: "free_keeps_nodes env" "dirty_marks_only env"
  shows "\<exists>s' n'. ext4_ext_remove_leaf env path from to s = Some (EOK, path, s') \<and> nodes s' = (nodes s)(l \<mapsto> n')
     \<and> node_ok 0 n' \<and> unmapped from to (entries_of n) (entries_of n')"
proof -
  let ?es = "entries_of n"
  have path: "inode_depth s = Some 0" "path_at path 0 = Some p" "p_header p = Some l" "nodes s l = Some n"
    "p_extent p = Some (int j)" and j: "j < length ?es" and n: "node_ok 0 n" "disjoint_extents ?es"
    using at by (simp_all add: leaf_at_def)
  obtain m start ex2 s1 n1 k where loop: "remove_leaf_loop env l from to (int j) (int j) None (eh_entries (n_hdr n)) s
       = Some (int m, int start, map_option int ex2, eh_entries (n_hdr n) - of_nat k, s1)"
     "nodes s1 = (nodes s)(l \<mapsto> n1)" "loop_done from to n n1 start (kept_from m ex2)"
     "k + start + length (drop (kept_from m ex2) (entries_of n1)) = length ?es"
    using remove_loop_done [OF path(4) n w j cov ft outside store env(1), of "eh_entries (n_hdr n)"] by blast
  define q where "q = kept_from m ex2"
  define e2 where "e2 = map_option int ex2"
  have q_int: "(case e2 of None \<Rightarrow> int m | Some i \<Rightarrow> i) = int q" by (simp add: e2_def q_def kept_from_def split: option.split)
  note run = loop(1) [folded e2_def]
  have dn: "n_hdr n1 = n_hdr n" "node_ok 0 n1" "length (entries_of n1) = length ?es" "start \<le> q" "q \<le> length (entries_of n1)"
    "unmapped from to ?es (take start (entries_of n1) @ drop q (entries_of n1))"
    using loop(3) by (simp_all add: loop_done_def q_def)
  obtain n2 where n2: "(if int q \<le> EXT_LAST (n_hdr n1) then move_slots (int start) (int q) (EXT_LAST (n_hdr n1) - int q + 1) n1 else Some n1) = Some n2"
    "n_hdr n2 = n_hdr n1" "length (n_slots n2) = length (n_slots n1)"
    "take (start + (length (entries_of n1) - q)) (n_slots n2) = take start (entries_of n1) @ drop q (entries_of n1)"
    using close_gap [OF dn(2,4,5)] by blast
  let ?c = "start + (length (entries_of n1) - q)"
  have c: "k + ?c = length ?es" using loop(4) by (simp add: q_def)
  define cnt where "cnt = (of_nat ?c :: u16)"
  have left: "eh_entries (n_hdr n) - of_nat k = cnt"
    unfolding cnt_def of_nat_entries [OF n(1)] c [symmetric] by simp
  have "length ?es < 2 ^ 15" using node_ok_length [OF n(1)] sint_lt [of "eh_entries (n_hdr n)"] by simp
  then have sc: "sint cnt = int ?c" using c unfolding cnt_def by (intro sint_of_nat_16) linarith
  let ?n3 = "set_entries cnt n2"
  have es3: "entries_of ?n3 = take start (entries_of n1) @ drop q (entries_of n1)"
  proof -
    have "entries_of (set_entries w n2) = take (nat (sint w)) (n_slots n2)" for w by (simp add: entries_of_def set_entries_def)
    then show ?thesis by (simp only: sc nat_int n2(4))
  qed
  have "int ?c \<le> sint (eh_entries (n_hdr n))" using c node_ok_length [OF n(1)] by linarith
  then have ok3: "node_ok 0 ?n3"
    using sc dn(1,2) n2(2,3) by (auto simp: node_ok_def set_entries_def)
  let ?s3 = "snd (ext4_ext_dirty env p (put_node l ?n3 s1))"
  have s3: "nodes ?s3 = (nodes s)(l \<mapsto> ?n3)" using dirty_nodes(1) [OF env(2)] loop(2) by (simp add: put_node_def)
  have "inode_depth ?s3 = Some 0" using path(1,4) s3 dn(1) n2(2)
    by (auto simp: inode_depth_def set_entries_def ext_depth_def)
  then have idx: "ext4_ext_correct_indexes env path ?s3 = Some (EOK, ?s3)"
    using path(2,3,5) by (intro correct_indexes_skip) auto
  have idx': "(if b then ext4_ext_correct_indexes env path ?s3 else Some (EOK, ?s3)) = Some (EOK, ?s3)" for b by (simp add: idx)
  have "ext4_ext_remove_leaf env path from to s = Some (EOK, path, ?s3)"
    using path run loop(2) n2(1) [folded q_int] s3 idx' root
    by (simp add: ext4_ext_remove_leaf_def endian_defs left Let_def split del: if_split)
  then show ?thesis using s3 ok3 es3 dn(6) by auto
qed

section \<open>A range that starts in a hole\<close>

text \<open>
  C25. A range that starts at a block that is not mapped is not removed, whatever it covers: \<open>ext4_extent_remove_space\<close>
  reports success, and the extents and the tree are as before.
\<close>

theorem ext4_remove_space_hole:
  assumes "inode_depth s = Some d" "tree_ok d (nodes s) Root" "disjoint_extents (extents_below d (nodes s) Root)"
    and "reads_clean env s" "calloc_ok env s (d + 2)" "keeps_nodes env" "in_range_ok env"
    and "\<forall>e \<in> set (extents_below d (nodes s) Root). written e"
    and hole: "extent_map (extents_below d (nodes s) Root) (sint from) = None"
  shows "\<exists>s'. ext4_extent_remove_space env from to s = Some (EOK, s')
     \<and> extents_below d (nodes s') Root = extents_below d (nodes s) Root \<and> tree_ok d (nodes s') Root"
proof -
  let ?all = "extents_below d (nodes s) Root" and ?e = "closest (extents_below d (nodes s) Root) from"
  obtain path w leaf where find: "ext4_find_extent env from None s = Some (EOK, Some path, s\<lparr>world := w\<rparr>)"
    "length path = d + 2" "p_header (path ! d) = Some leaf"
    and ext: "if ?all = [] then p_extent (path ! d) = None
        else \<exists>i. p_extent (path ! d) = Some i \<and> entry_at s (Some leaf) (Some i) = Some ?e"
    and refs: "refs_ok (nodes s) path" "p_depth (path ! 0) = int d"
    using find_extent_found [OF assms(1,2) disjoint_ordered [OF assms(3)] assms(4,5), of "from"] by (auto split: if_splits)
  let ?s = "s\<lparr>world := w\<rparr>"
  have here: "inode_depth ?s = Some d" "path_at path d = Some (path ! d)"
    using assms(1) find(2) by (simp_all add: inode_depth_def path_at_def)
  have "\<exists>path' s'. ext4_ext_drop_refs env path 0 False ?s = Some (path', s') \<and> view (nodes s') = view (nodes s)"
    using drop_refs_view [OF assms(6), of ?s path d] refs find(2) by simp
  then obtain path' s' where out: "ext4_ext_drop_refs env path 0 False ?s = Some (path', s')" "view (nodes s') = view (nodes s)" by blast
  have "ext4_extent_remove_space env from to s = Some (EOK, s')"
  proof (cases "?all = []")
    case True
    then show ?thesis using find(1) ext here out(1) assms(1) by (simp add: ext4_extent_remove_space_def)
  next
    case False
    have e: "?e \<in> set ?all" using closest_in [OF False] .
    then have "0 < ext_len ?e \<and> ekey ?e + ext_len ?e < 2 ^ 31" "written ?e" using assms(3,8) by (simp_all add: disjoint_extents_def)
    moreover have "\<not> covers ?e (sint from)" using hole e unfolding extent_map_None by blast
    ultimately have "\<not> IN_RANGE env from (le32_to_cpu (e_block ?e)) (ext4_ext_get_actual_len ?e)"
      using assms(7) written_sint_len [of ?e] by (simp add: in_range_ok_def covers_def ekey_def endian_defs)
    moreover obtain i where "p_extent (path ! d) = Some i" "entry_at ?s (Some leaf) (Some i) = Some ?e"
      using ext False by (auto simp: entry_at_def node_at_def)
    ultimately show ?thesis
      using find here out(1) assms(1) by (simp add: ext4_extent_remove_space_def Let_def)
  qed
  then show ?thesis using view_tree [OF out(2), of d Root] assms(2) by blast
qed

theorem ext4_remove_space_hole_witness:
  "\<exists>s'. ext4_extent_remove_space example_ext4_env 15 100 example_tree = Some (EOK, s')
     \<and> extents_below 1 (nodes s') Root = [example_entry 0 10 1000, example_entry 20 5 2000, example_entry 50 8 3000]"
proof -
  let ?es = "[example_entry 0 10 1000, example_entry 20 5 2000, example_entry 50 8 3000]"
  have es: "extents_below 1 (nodes example_tree) Root = ?es" by (rule example_tree_below)
  have "disjoint_extents ?es" "extent_map ?es 15 = None" by code_simp+
  moreover have "\<forall>e \<in> set ?es. written e" unfolding written_def by code_simp
  moreover have "keeps_nodes example_ext4_env" "in_range_ok example_ext4_env"
    by (simp_all add: keeps_nodes_def in_range_ok_def example_ext4_env_def)
  ultimately show ?thesis
    using ext4_remove_space_hole [OF example_tree_ok(1,2) _ example_tree_ok(4,5), of 15 100] unfolding es by auto
qed

section \<open>A tree of one leaf\<close>

lemma find_extent_root:
  assumes "inode_depth s = Some 0" "nodes s Root = Some n" "node_ok 0 n" "ordered (entries_of n)" "entries_of n \<noteq> []"
    and "calloc_ok env s 2"
  shows "\<exists>j pb. ext4_find_extent env block None s = Some (EOK, Some [zero_path\<lparr>p_maxdepth := 1, p_header := Some Root,
       p_extent := Some (int j), p_block := pb\<rparr>, zero_path], s)
     \<and> j < length (entries_of n) \<and> entries_of n ! j = closest (entries_of n) block"
proof -
  obtain j where j: "ext_slot n block = Some (int j)" "splits_at (entries_of n) block j"
    using ext_search.finds [OF assms(3,5,4)] by blast
  then have jl: "j < length (entries_of n)" by (simp add: splits_at_def)
  have at: "slot n (int j) = Some (entries_of n ! j)" using node_ok_slot [OF assms(3), of "int j"] jl by simp
  have "ext4_ext_binsearch s p block = Some (p\<lparr>p_extent := Some (int j)\<rparr>)" if "p_header p = Some Root" for p
    using j(1) assms(2,5) that by (auto simp: ext_slot_loop ext4_ext_binsearch_def node_at_def EXT_FIRST_def split: if_splits)
  then have "ext4_find_extent env block None s = Some (EOK, Some [zero_path\<lparr>p_maxdepth := 1, p_header := Some Root,
       p_extent := Some (int j), p_block := ext4_ext_pblk (entries_of n ! j)\<rparr>, zero_path], s)"
    using assms(1,2,6) at
    by (simp add: ext4_find_extent_def find_path_array_def path_at_def entry_at_def node_at_def zero_path_def numeral_2_eq_2)
  then show ?thesis using jl closest_nth [OF assms(4) j(2)]
    by (intro exI [of _ j] exI [of _ "ext4_ext_pblk (entries_of n ! j)"]) simp
qed

lemma drop_refs_root:
  assumes "p_lb_id (hd path) = 0" "p_depth (hd path) = 0" "path \<noteq> []"
  shows "ext4_ext_drop_refs env path 0 False s = Some (path, s)"
  using assms by (auto simp: ext4_ext_drop_refs_def drop_ref_def path_at_def hd_conv_nth)

text \<open>The range of the leaf that is removed.\<close>

lemma last_end:
  assumes "disjoint_extents xs" "e \<in> set xs"
  shows "eend e \<le> eend (last xs)"
proof -
  obtain ys zs where xs: "xs = ys @ e # zs" using assms(2) by (meson split_list)
  show ?thesis
  proof (cases "zs = []")
    case False
    then have "last zs \<in> set zs" by simp
    then have "eend e \<le> ekey (last zs)" using disjoint_split(2) [of ys e zs] assms(1) xs by (simp add: eend_def)
    then show ?thesis using xs False ext_len_bound(1) [of "last zs"] by (simp add: eend_def)
  qed (simp add: xs)
qed

lemma leaf_range_root:
  assumes n: "node_ok 0 n" "disjoint_extents (entries_of n)" "\<forall>e \<in> set (entries_of n). written e"
    and e: "e \<in> set (entries_of n)" "covers e (sint from)"
  shows "\<exists>to'. leaf_range n from to = Some (from, to') \<and> sint to' = min (sint to) (eend (last (entries_of n)) - 1)"
proof -
  let ?es = "entries_of n"
  have ne: "?es \<noteq> []" using e(1) by auto
  have first: "slot n EXT_FIRST = Some (hd ?es)"
    using node_ok_slot [OF n(1), of 0] ne by (simp add: EXT_FIRST_def hd_conv_nth)
  have "nat (int (length ?es) - 1) = length ?es - 1" by linarith
  then have last: "slot n (EXT_LAST (n_hdr n)) = Some (last ?es)"
    using node_ok_slot [OF n(1), of "EXT_LAST (n_hdr n)"] node_ok_last [OF n(1)] ne by (simp add: last_conv_nth)
  have "ekey (hd ?es) \<le> sint from"
    using ordered_hd [OF disjoint_ordered [OF n(2)] e(1)] e(2) by (simp add: covers_def)
  then have f: "e_block (hd ?es) = from" if "\<not> sint (e_block (hd ?es)) < sint from"
    using that by (intro signed_word_eqI) (simp add: ekey_def)
  have l: "written (last ?es)" "0 < ext_len (last ?es)" "eend (last ?es) < 2 ^ 31"
    using n(2,3) ne by (auto simp: disjoint_extents_def eend_def)
  show ?thesis
    using first last written_end(2) [OF l] by (auto simp: leaf_range_def f Let_def endian_defs min_def)
qed

lemma unmapped_beyond:
  assumes "unmapped from to' xs ys" "sint to' = min (sint to) (eend (last xs) - 1)" "disjoint_extents xs" "sint from \<le> sint to'"
  shows "unmapped from to xs ys"
proof -
  have "extent_map xs b = None" if "\<not> b \<le> eend (last xs) - 1" for b
    using that last_end [OF assms(3)] unfolding extent_map_None by (fastforce simp: covers_eend)
  then show ?thesis using assms by (auto simp: unmapped_def min_def split: if_splits)
qed

text \<open>Such a tree takes one round of the loop over the levels; the root stays as the leaf is left.\<close>

lemma remove_space_one_leaf:
  assumes depth: "inode_depth s = Some 0" and root: "nodes s Root = Some n" "node_ok 0 n" and j: "j < length (entries_of n)"
    and path: "path = [zero_path\<lparr>p_maxdepth := 1, p_header := Some Root, p_extent := Some (int j), p_block := pb\<rparr>, zero_path]"
    and find: "ext4_find_extent env from None s = Some (EOK, Some path, s)"
    and e: "IN_RANGE env from (le32_to_cpu (e_block (entries_of n ! j))) (ext4_ext_get_actual_len (entries_of n ! j))"
      "\<not> (sint (e_block (entries_of n ! j)) < sint from
         \<and> sint to < sint (e_block (entries_of n ! j) + ext4_ext_get_actual_len (entries_of n ! j) - 1))"
    and leaf: "leaf_range n from to = Some (from', to')" "ext4_ext_remove_leaf env path from' to' s = Some (EOK, path, s1)"
      "nodes s1 = (nodes s)(Root \<mapsto> n1)"
  shows "\<exists>s2. ext4_extent_remove_space env from to s = Some (EOK, s2) \<and> extents_below 0 (nodes s2) Root = entries_of n1"
proof -
  have ent: "entry_at s (Some Root) (Some (int j)) = Some (entries_of n ! j)"
    using node_ok_slot [OF root(2), of "int j"] j root(1) by (simp add: entry_at_def node_at_def)
  have drop: "ext4_ext_drop_refs env path 0 False s' = Some (path, s')" for s' :: "'a ext4_state"
    unfolding path by (rule drop_refs_root) (simp_all add: zero_path_def)
  have pos: "0 < sint (eh_entries (n_hdr n))" using j node_ok_length [OF root(2)] by linarith
  have round: "remove_space_round env 0 from to 0 (EOK, path, s) = Some (Inr (-1, EOK, path, s1))"
    using pos leaf(1,2) root(1) drop by (simp add: path remove_space_round_def path_at_def node_at_def endian_defs)
  have loop: "remove_space_loop env 0 from to (0, EOK, path, s) = Some (Inr (EOK, path, s1))"
    by (subst remove_space_loop.simps, simp add: round, subst remove_space_loop.simps, simp)
  have "\<exists>s2. reset_root env EOK path s1 = Some (EOK, s2) \<and> extents_below 0 (nodes s2) Root = entries_of n1"
    using leaf(3) by (auto simp: path reset_root_def path_at_def node_at_def update_node_def put_node_def ext4_ext_dirty_def
        zero_path_def entries_of_def)
  then obtain s2 where reset: "reset_root env EOK path s1 = Some (EOK, s2)" "extents_below 0 (nodes s2) Root = entries_of n1" by blast
  have "ext4_extent_remove_space env from to s = Some (EOK, s2)"
    using depth find ent e loop reset(1) drop
    by (auto simp: path ext4_extent_remove_space_def path_at_def Let_def endian_defs)
  then show ?thesis using reset(2) by blast
qed

text \<open>
  C5. In a tree of one leaf whose extents are written and do not overlap, removing a range that starts at a mapped block
  and does not lie within one extent unmaps exactly the blocks of the range: the others keep their physical blocks,
  and the extents stay free of overlaps.
\<close>

theorem ext4_remove_space_correct:
  assumes depth: "inode_depth s = Some 0" and root: "nodes s Root = Some n" "node_ok 0 n"
    and es: "disjoint_extents (entries_of n)" "\<forall>e \<in> set (entries_of n). written e"
    and start: "extent_map (entries_of n) (sint from) \<noteq> None" "sint from \<le> sint to"
    and outside: "\<forall>e \<in> set (entries_of n). \<not> (ekey e < sint from \<and> sint to < eend e - 1)"
    and store: "\<forall>e \<in> set (entries_of n). covers e (sint to + 1) \<longrightarrow> storable (snd (map_in e (sint to + 1)))"
    and env: "calloc_ok env s 2" "in_range_ok env" "free_keeps_nodes env" "dirty_marks_only env"
  shows "\<exists>s' ys. ext4_extent_remove_space env from to s = Some (EOK, s') \<and> extents_below 0 (nodes s') Root = ys
     \<and> disjoint_extents ys \<and> (\<forall>e \<in> set ys. written e)
     \<and> (\<forall>b. extent_map ys b = (if sint from \<le> b \<and> b \<le> sint to then None else extent_map (entries_of n) b))"
proof -
  let ?es = "entries_of n"
  obtain e where e: "e \<in> set ?es" "covers e (sint from)" using start(1) unfolding extent_map_None by blast
  then have ne: "?es \<noteq> []" by auto
  obtain j pb where find: "ext4_find_extent env from None s = Some (EOK, Some [zero_path\<lparr>p_maxdepth := 1, p_header := Some Root,
       p_extent := Some (int j), p_block := pb\<rparr>, zero_path], s)" and j: "j < length ?es" "?es ! j = e"
    using find_extent_root [OF depth root disjoint_ordered [OF es(1)] ne env(1), of "from"] closest_covers [OF es(1) e] by auto
  let ?p = "zero_path\<lparr>p_maxdepth := 1, p_header := Some Root, p_extent := Some (int j), p_block := pb\<rparr>"
  let ?path = "[?p, zero_path]"
  have at: "leaf_at s ?path 0 ?p Root n j"
    using depth root es(1) j(1) by (simp add: leaf_at_def path_at_def)
  have ex: "0 < ext_len e" "eend e < 2 ^ 31" "written e" using es e(1) by (auto simp: disjoint_extents_def eend_def)
  have in_range: "IN_RANGE env from (le32_to_cpu (e_block e)) (ext4_ext_get_actual_len e)"
    using env(2) ex e(2) written_sint_len [OF ex(3)] by (simp add: in_range_ok_def covers_def ekey_def endian_defs eend_def)
  have not_inside: "\<not> (sint (e_block e) < sint from \<and> sint to < sint (e_block e + ext4_ext_get_actual_len e - 1))"
    using outside e(1) written_end(2) [OF ex(3,1,2)] by (auto simp: ekey_def)
  obtain to' where to': "leaf_range n from to = Some (from, to')" "sint to' = min (sint to) (eend (last ?es) - 1)"
    using leaf_range_root [OF root(2) es e] by blast
  have last: "eend x \<le> eend (last ?es)" if "x \<in> set ?es" for x by (rule last_end [OF es(1) that])
  have ft: "sint from \<le> sint to'" using to'(2) start(2) last [OF e(1)] e(2) by (simp add: covers_eend)
  have "\<not> (ekey e < sint from \<and> sint to' < eend e - 1)" using outside e(1) to'(2) last [OF e(1)] by (auto simp: min_def split: if_splits)
  moreover have "covers x (sint to' + 1) \<longrightarrow> storable (snd (map_in x (sint to' + 1)))" if "x \<in> set ?es" for x
    using store that to'(2) last [OF that] by (auto simp: min_def covers_eend split: if_splits)
  ultimately obtain s1 n1 where leaf: "ext4_ext_remove_leaf env ?path from to' s = Some (EOK, ?path, s1)"
    "nodes s1 = (nodes s)(Root \<mapsto> n1)" "node_ok 0 n1" "unmapped from to' ?es (entries_of n1)"
    using remove_leaf_unmaps [OF at es(2) _ _ ft _ _ env(3,4)] e(2) j(2) by (auto simp: zero_path_def)
  obtain s2 where "ext4_extent_remove_space env from to s = Some (EOK, s2)" "extents_below 0 (nodes s2) Root = entries_of n1"
    using remove_space_one_leaf [OF depth root j(1) refl find _ _ to'(1) leaf(1,2)] in_range not_inside j(2) by auto
  moreover have "unmapped from to ?es (entries_of n1)" by (rule unmapped_beyond [OF leaf(4) to'(2) es(1) ft])
  ultimately show ?thesis by (auto simp: unmapped_def simp del: extents_below.simps)
qed

theorem ext4_remove_space_correct_witness:
  "\<exists>s' ys. ext4_extent_remove_space example_ext4_env 3 21 example_leaf = Some (EOK, s') \<and> extents_below 0 (nodes s') Root = ys
     \<and> extent_map ys 2 = Some (False, 1002) \<and> extent_map ys 3 = None \<and> extent_map ys 21 = None \<and> extent_map ys 22 = Some (False, 2002)"
proof -
  let ?es = "[example_entry 0 5 1000, example_entry 20 5 2000]" and ?n = "example_node 0 4 [example_entry 0 5 1000, example_entry 20 5 2000]"
  have n: "node_ok 0 ?n" "entries_of ?n = ?es" by (rule example_node_ok; simp)+
  have root: "nodes example_leaf Root = Some ?n" by (simp add: example_leaf_def)
  have depth: "inode_depth example_leaf = Some 0"
    by (simp add: inode_depth_def root example_node_def ext_depth_def endian_defs)
  have len: "ext_len (example_entry 0 5 1000) = 5" "ext_len (example_entry 20 5 2000) = 5"
    "ext4_ext_pblk (example_entry 20 5 2000) = 2000" by code_simp+
  have "disjoint_extents ?es" "\<forall>e \<in> set ?es. \<not> ext4_ext_is_unwritten e" "extent_map ?es 3 = Some (False, 1003)"
    "extent_map ?es 2 = Some (False, 1002)" "extent_map ?es 22 = Some (False, 2002)" by code_simp+
  moreover have "\<forall>e \<in> set ?es. \<not> (ekey e < 3 \<and> 21 < eend e - 1)" by (simp add: ekey_def eend_def len)
  moreover have "\<forall>e \<in> set ?es. covers e 22 \<longrightarrow> storable (snd (map_in e 22))"
    by (simp add: covers_def ekey_def len map_in_def storable_def drop_bit_eq_div)
  moreover have "calloc_ok example_ext4_env example_leaf 2" "in_range_ok example_ext4_env" "free_keeps_nodes example_ext4_env"
    by (simp_all add: in_range_ok_def free_keeps_nodes_def example_ext4_env_def)
  ultimately show ?thesis
    using ext4_remove_space_correct [OF depth root n(1), of 3 21 example_ext4_env] example_dirty
    unfolding n(2) written_def by fastforce
qed

section \<open>A leaf that ends with an unwritten extent\<close>

lemma length_entries_slots: "length (entries_of n) \<le> length (n_slots n)" by (simp add: entries_of_def)

lemma set_entries_same: "set_entries (eh_entries (n_hdr n)) n = n" by (simp add: set_entries_def)

lemma move_slots_same:
  assumes "0 \<le> i" "0 \<le> k" "i + k \<le> int (length (n_slots n))"
  shows "move_slots i i k n = Some n"
proof -
  have "nat (i + k) = nat i + nat k" using assms(1,2) by (rule nat_add_distrib)
  moreover have "take (nat i) (n_slots n) @ take (nat k) (drop (nat i) (n_slots n)) @ drop (nat i + nat k) (n_slots n) = n_slots n"
    by (metis append_take_drop_id drop_drop add.commute)
  ultimately show ?thesis using assms by (simp add: move_slots_def)
qed

text \<open>A range that ends before the extent it starts in: nothing of the leaf is removed.\<close>

lemma remove_leaf_nothing:
  assumes at: "leaf_at s path 0 p Root n j" and root: "p_lb_id p = 0" and to: "sint to < ekey (entries_of n ! j)"
  shows "ext4_ext_remove_leaf env path from to s = Some (EOK, path, s\<lparr>inode_dirty := True\<rparr>)"
proof -
  have path: "inode_depth s = Some 0" "path_at path 0 = Some p" "p_header p = Some Root" "nodes s Root = Some n"
    "p_extent p = Some (int j)" and j: "j < length (entries_of n)" and n: "node_ok 0 n"
    using at by (simp_all add: leaf_at_def)
  have last: "int j \<le> EXT_LAST (n_hdr n)" "EXT_LAST (n_hdr n) < int (length (n_slots n))"
    using node_ok_last [OF n] j length_entries_slots [of n] by simp_all
  have "slot n (int j) = Some (entries_of n ! j)" using node_ok_slot [OF n, of "int j"] j by simp
  then have loop: "remove_leaf_loop env Root from to (int j) (int j) None w s = Some (int j, int j, None, w, s)" for w
    using path(4) last(1) to by (subst remove_leaf_loop.simps) (simp add: ekey_def endian_defs)
  have same: "move_slots (int j) (int j) (EXT_LAST (n_hdr n) - int j + 1) n = Some n"
    by (rule move_slots_same) (use last in simp_all)
  have put: "put_node Root n s = s" using path(4) by (simp add: put_node_def map_upd_triv)
  have dirty: "ext4_ext_dirty env p s = (EOK, s\<lparr>inode_dirty := True\<rparr>)" using root by (simp add: ext4_ext_dirty_def)
  have "ext4_ext_correct_indexes env path (s\<lparr>inode_dirty := True\<rparr>) = Some (EOK, s\<lparr>inode_dirty := True\<rparr>)"
    using path by (intro correct_indexes_skip) (auto simp: inode_depth_def)
  then have idx: "(if b then ext4_ext_correct_indexes env path (s\<lparr>inode_dirty := True\<rparr>) else Some (EOK, s\<lparr>inode_dirty := True\<rparr>))
      = Some (EOK, s\<lparr>inode_dirty := True\<rparr>)" for b by simp
  show ?thesis
    using path loop same last(1) idx root
    by (simp add: ext4_ext_remove_leaf_def endian_defs set_entries_same put dirty Let_def split del: if_split cong: if_cong)
qed

text \<open>The end of a leaf whose last extent is unwritten is computed 2^16 blocks too low.\<close>

lemma unwritten_eend:
  assumes "ext4_ext_is_unwritten e" "0 \<le> eend e" "eend e < 2 ^ 31"
  shows "sint (e_block e + ext4_ext_get_actual_len e - 1) = eend e - 2 ^ 16 - 1"
proof -
  have "e_block e + ext4_ext_get_actual_len e - 1 = (word_of_int (eend e - 2 ^ 16 - 1) :: u32)"
    by (simp add: unwritten_len [OF assms(1)] eend_def ekey_def)
  moreover have "sint (word_of_int (eend e - 2 ^ 16 - 1) :: u32) = eend e - 2 ^ 16 - 1"
    using assms(2,3) by (simp only: signed_of_int len_num1 len_bit0) (simp add: signed_take_bit_int_eq_self)
  ultimately show ?thesis by (simp only:)
qed

lemma remove_space_nothing:
  assumes depth: "inode_depth s = Some 0" and root: "nodes s Root = Some n" "node_ok 0 n" and j: "j < length (entries_of n)"
    and path: "path = [zero_path\<lparr>p_maxdepth := 1, p_header := Some Root, p_extent := Some (int j), p_block := pb\<rparr>, zero_path]"
    and find: "ext4_find_extent env from None s = Some (EOK, Some path, s)"
    and e: "IN_RANGE env from (le32_to_cpu (e_block (entries_of n ! j))) (ext4_ext_get_actual_len (entries_of n ! j))"
      "\<not> (sint (e_block (entries_of n ! j)) < sint from
         \<and> sint to < sint (e_block (entries_of n ! j) + ext4_ext_get_actual_len (entries_of n ! j) - 1))"
    and leaf: "leaf_range n from to = Some (from', to')"
      "ext4_ext_remove_leaf env path from' to' s = Some (EOK, path, s\<lparr>inode_dirty := True\<rparr>)"
  shows "ext4_extent_remove_space env from to s = Some (EOK, s\<lparr>inode_dirty := True\<rparr>)"
proof -
  have ent: "entry_at s (Some Root) (Some (int j)) = Some (entries_of n ! j)"
    using node_ok_slot [OF root(2), of "int j"] j root(1) by (simp add: entry_at_def node_at_def)
  have drop: "ext4_ext_drop_refs env path 0 False s' = Some (path, s')" for s' :: "'a ext4_state"
    unfolding path by (rule drop_refs_root) (simp_all add: zero_path_def)
  have pos: "0 < sint (eh_entries (n_hdr n))" using j node_ok_length [OF root(2)] by linarith
  then have nz: "eh_entries (n_hdr n) \<noteq> 0" by auto
  have round: "remove_space_round env 0 from to 0 (EOK, path, s) = Some (Inr (-1, EOK, path, s\<lparr>inode_dirty := True\<rparr>))"
    using pos leaf(1,2) root(1) drop by (simp add: path remove_space_round_def path_at_def node_at_def endian_defs)
  have loop: "remove_space_loop env 0 from to (0, EOK, path, s) = Some (Inr (EOK, path, s\<lparr>inode_dirty := True\<rparr>))"
    by (subst remove_space_loop.simps, simp add: round, subst remove_space_loop.simps, simp)
  have reset: "reset_root env EOK path (s\<lparr>inode_dirty := True\<rparr>) = Some (EOK, s\<lparr>inode_dirty := True\<rparr>)"
    using root(1) nz by (simp add: path reset_root_def path_at_def node_at_def)
  show ?thesis
    using depth find ent e loop reset drop
    by (auto simp: path ext4_extent_remove_space_def path_at_def Let_def endian_defs)
qed

text \<open>An environment whose state lists the calls that free blocks.\<close>

definition free_log_env :: "(ext4_fsblk_t \<times> u32) list ext4_env" where
  "free_log_env =
     \<lparr>ext4_sb_get_block_size = 1024, metadata_csum = False, CONFIG_META_CSUM_ENABLE = False, ext4_crc32c = (\<lambda>c bs. c), EXT4_CRC32_INIT = 0,
      sb_uuid = replicate 16 0, inode_index = 12, inode_generation = 0,
      ext4_trans_block_get = (\<lambda>b lb s. (EOK, b, s)), ext4_trans_block_get_noread = (\<lambda>b lb s. (EOK, b, s)),
      ext4_block_set = (\<lambda>b s. (EOK, 0, s)), ext4_trans_set_block_dirty = (\<lambda>b s. s),
      ext4_bcache_test_dirty = (\<lambda>b s. False), ext4_balloc_alloc_block = (\<lambda>g b s. (Eother 28, 0, s)),
      ext4_balloc_free_blocks = (\<lambda>b n s. s\<lparr>world := world s @ [(b, n)]\<rparr>), ext4_fs_inode_to_goal_block = (\<lambda>s. 0),
      calloc_ok = (\<lambda>s n. True),
      IN_RANGE = (\<lambda>b first len. sint first \<le> sint b \<and> sint b < sint first + sint len),
      EXT_MAX_BLOCKS = 0x7fffffff\<rparr>"

definition free_log_leaf :: "(ext4_fsblk_t \<times> u32) list ext4_state" where
  "free_log_leaf = \<lparr>nodes = [Root \<mapsto> example_node 0 4 [example_entry 0 5 1000, example_entry 20 0x800a 2000]],
     inode_dirty = False, world = []\<rparr>"

text \<open>
  C37. Where the last extent of a leaf is unwritten, its length is read as a negative number and the end of the leaf is computed
  2^16 blocks too low.  In a tree of one leaf, a range that starts in a written extent \<open>e\<close>, and does not lie within it,
  is then not removed at all when the leaf ends at most 2^16 blocks behind the start of \<open>e\<close>: success is reported, and
  the nodes and what is behind the environment, so the bitmaps, are as before; only the inode is marked dirty.
\<close>

theorem ext4_remove_space_unwritten_kept:
  assumes depth: "inode_depth s = Some 0" and root: "nodes s Root = Some n" "node_ok 0 n" and es: "disjoint_extents (entries_of n)"
    and start: "e \<in> set (entries_of n)" "written e" "covers e (sint from)" "sint from \<le> sint to"
    and outside: "\<not> (ekey e < sint from \<and> sint to < eend e - 1)"
    and tail: "ext4_ext_is_unwritten (last (entries_of n))" "eend (last (entries_of n)) \<le> ekey e + 2 ^ 16" "0 \<le> ekey e"
    and env: "calloc_ok env s 2" "in_range_ok env"
  shows "ext4_extent_remove_space env from to s = Some (EOK, s\<lparr>inode_dirty := True\<rparr>)"
proof -
  let ?es = "entries_of n"
  have ne: "?es \<noteq> []" using start(1) by auto
  obtain j pb where find: "ext4_find_extent env from None s = Some (EOK, Some [zero_path\<lparr>p_maxdepth := 1, p_header := Some Root,
       p_extent := Some (int j), p_block := pb\<rparr>, zero_path], s)" and j: "j < length ?es" "?es ! j = e"
    using find_extent_root [OF depth root disjoint_ordered [OF es] ne env(1), of "from"] closest_covers [OF es start(1,3)] by auto
  let ?p = "zero_path\<lparr>p_maxdepth := 1, p_header := Some Root, p_extent := Some (int j), p_block := pb\<rparr>"
  have at: "leaf_at s [?p, zero_path] 0 ?p Root n j" using depth root es j(1) by (simp add: leaf_at_def path_at_def)
  have ex: "0 < ext_len e" "eend e < 2 ^ 31" using es start(1) by (auto simp: disjoint_extents_def eend_def)
  have in_range: "IN_RANGE env from (le32_to_cpu (e_block e)) (ext4_ext_get_actual_len e)"
    using env(2) ex start(3) written_sint_len [OF start(2)] by (simp add: in_range_ok_def covers_def ekey_def endian_defs eend_def)
  have not_inside: "\<not> (sint (e_block e) < sint from \<and> sint to < sint (e_block e + ext4_ext_get_actual_len e - 1))"
    using outside written_end(2) [OF start(2) ex] by (auto simp: ekey_def)
  have end_low: "sint (e_block (last ?es) + ext4_ext_get_actual_len (last ?es) - 1) = eend (last ?es) - 2 ^ 16 - 1"
  proof (rule unwritten_eend [OF tail(1)])
    show "0 \<le> eend (last ?es)" using last_end [OF es start(1)] ex tail(3) by (simp add: eend_def)
    show "eend (last ?es) < 2 ^ 31" using es ne by (auto simp: disjoint_extents_def eend_def)
  qed
  have first: "slot n EXT_FIRST = Some (hd ?es)"
    using node_ok_slot [OF root(2), of 0] ne by (simp add: EXT_FIRST_def hd_conv_nth)
  have "nat (int (length ?es) - 1) = length ?es - 1" by linarith
  then have last: "slot n (EXT_LAST (n_hdr n)) = Some (last ?es)"
    using node_ok_slot [OF root(2), of "EXT_LAST (n_hdr n)"] node_ok_last [OF root(2)] ne by (simp add: last_conv_nth)
  have "\<not> sint to < eend (last ?es) - 2 ^ 16 - 1" using start(3,4) tail(2) by (simp add: covers_def)
  then obtain from' to' where range: "leaf_range n from to = Some (from', to')" "sint to' = eend (last ?es) - 2 ^ 16 - 1"
    using first last end_low by (simp add: leaf_range_def Let_def endian_defs)
  have "sint to' < ekey (?es ! j)" using range(2) tail(2) j(2) by simp
  then show ?thesis
    using remove_space_nothing [OF depth root j(1) refl find _ _ range(1) remove_leaf_nothing [OF at]] in_range not_inside j(2)
    by (simp add: zero_path_def)
qed

theorem ext4_remove_space_unwritten_kept_witness:
  "ext4_extent_remove_space free_log_env 3 24 free_log_leaf = Some (EOK, free_log_leaf\<lparr>inode_dirty := True\<rparr>)
   \<and> extent_map (extents_below 0 (nodes free_log_leaf) Root) 3 = Some (False, 1003)
   \<and> extent_map (extents_below 0 (nodes free_log_leaf) Root) 24 = Some (True, 2004)"
proof -
  let ?es = "[example_entry 0 5 1000, example_entry 20 0x800a 2000]"
  have n: "node_ok 0 (example_node 0 4 ?es)" "entries_of (example_node 0 4 ?es) = ?es" by (rule example_node_ok; simp)+
  have root: "nodes free_log_leaf Root = Some (example_node 0 4 ?es)" by (simp add: free_log_leaf_def)
  have depth: "inode_depth free_log_leaf = Some 0"
    by (simp add: inode_depth_def root example_node_def ext_depth_def endian_defs)
  have env: "calloc_ok free_log_env free_log_leaf 2" "in_range_ok free_log_env" by (simp_all add: in_range_ok_def free_log_env_def)
  have e: "disjoint_extents ?es" "written (example_entry 0 5 1000)" "ext4_ext_is_unwritten (last ?es)"
    "extent_map ?es 3 = Some (False, 1003)" "extent_map ?es 24 = Some (True, 2004)"
    unfolding written_def by code_simp+
  have len: "ext_len (example_entry 0 5 1000) = 5" "ext_len (example_entry 20 0x800a 2000) = 10" by code_simp+
  show ?thesis
    using ext4_remove_space_unwritten_kept [OF depth root n(1) _ _ e(2), of 3 24 free_log_env] n(2) e env root
    by (simp add: len covers_def ekey_def eend_def)
qed

end
