(* ===== verification/Ext4_Extent_Place.thy ===== *)
theory Ext4_Extent_Place
  imports Ext4_Extent_Tree Ext4_Extent_Unmap
begin

text \<open>
  Where a new block goes: what inserting an extent of one block does to the leaf that a search has found, and to the
  map of all extents.  It maps one block more, unless it is merged in front of the first extent, which keeps its
  physical start and so shifts all of its blocks.
\<close>

section \<open>One block more\<close>

definition grown :: "u32 \<Rightarrow> ext4_fsblk_t \<Rightarrow> ext4_entry list \<Rightarrow> ext4_entry list \<Rightarrow> bool" where
  "grown b pb xs ys \<longleftrightarrow> disjoint_extents ys
     \<and> (\<forall>k. extent_map ys k = (if k = sint b then Some (False, pb) else extent_map xs k))"

lemma grown_insert:
  assumes dis: "disjoint_extents (us @ vs)" and us: "\<forall>u \<in> set us. eend u \<le> sint b" and vs: "\<forall>v \<in> set vs. sint b < ekey v"
    and b: "sint b + 1 < 2 ^ 31"
    and g: "ekey g = sint b" "ext_len g = 1" "\<not> ext4_ext_is_unwritten g" "ext4_ext_pblk g = pb"
  shows "grown b pb (us @ vs) (us @ g # vs)"
proof -
  have at: "covers g k \<longleftrightarrow> k = sint b" for k using g(1,2) by (auto simp: covers_def)
  have "\<not> covers u (sint b)" if "u \<in> set us" for u using that us by (auto simp: covers_eend)
  then have "find (\<lambda>e. covers e (sint b)) us = None" by (auto simp: find_None_iff)
  then have "extent_map (us @ g # vs) k = (if k = sint b then Some (False, pb) else extent_map (us @ vs) k)" for k
    using g at by (auto simp: extent_map_def find_app map_in_def split: option.split)
  moreover have "disjoint_extents (us @ g # vs)"
    using dis us vs b g(1,2) by (fastforce simp: disjoint_extents_def sorted_wrt_append eend_def)
  ultimately show ?thesis by (simp add: grown_def)
qed

lemma grown_append:
  assumes dis: "disjoint_extents (us @ e # vs)" and e: "eend e = sint b" "\<not> ext4_ext_is_unwritten e"
    and vs: "\<forall>v \<in> set vs. sint b < ekey v" and b: "sint b + 1 < 2 ^ 31"
    and f: "ekey f = ekey e" "ext_len f = ext_len e + 1" "\<not> ext4_ext_is_unwritten f" "ext4_ext_pblk f = ext4_ext_pblk e"
    and pb: "pb = ext4_ext_pblk e + word_of_int (ext_len e)"
  shows "grown b pb (us @ e # vs) (us @ f # vs)"
proof -
  have us: "\<forall>u \<in> set us. eend u \<le> ekey e" using disjoint_split(1) [OF dis] by (simp add: eend_def)
  have at: "covers f k \<longleftrightarrow> covers e k \<or> k = sint b" for k
    using e(1) f(1,2) ext_len_bound(1) [of e] by (auto simp: covers_def eend_def)
  have none: "\<not> covers e (sint b)" using e(1) by (simp add: covers_eend)
  have "\<not> covers u (sint b)" if "u \<in> set us" for u
    using that us e(1) ext_len_bound(1) [of e] by (fastforce simp: covers_eend eend_def)
  then have "find (\<lambda>e. covers e (sint b)) us = None" by (auto simp: find_None_iff)
  moreover have "sint b - ekey e = ext_len e" using e(1) by (simp add: eend_def)
  then have "map_in f (sint b) = (False, pb)" unfolding map_in_def f(1,4) using f(3) pb by (simp only:)
  moreover have "map_in f k = map_in e k" for k using e(2) f(1,3,4) by (simp add: map_in_def)
  ultimately have "extent_map (us @ f # vs) k = (if k = sint b then Some (False, pb) else extent_map (us @ e # vs) k)" for k
    using at none by (auto simp: extent_map_def find_app split: option.split)
  moreover have "disjoint_extents (us @ f # vs)"
    using dis us vs b e(1) f(1,2) by (fastforce simp: disjoint_extents_def sorted_wrt_append eend_def)
  ultimately show ?thesis by (simp add: grown_def)
qed

section \<open>Where the search ends\<close>

lemma closest_behind:
  assumes "ordered (us @ e # vs)" "closest (us @ e # vs) b = e" "ekey e \<le> sint b" "v \<in> set vs"
  shows "sint b < ekey v"
proof (rule ccontr)
  assume "\<not> sint b < ekey v"
  then have "filter (\<lambda>e. ekey e \<le> sint b) vs \<noteq> []" using assms(4) by (auto simp: filter_empty_conv not_less)
  then have "closest (us @ e # vs) b = last (filter (\<lambda>e. ekey e \<le> sint b) vs)" using assms(3) by (simp add: closest_def Let_def)
  then have "e \<in> set vs" using \<open>filter _ _ \<noteq> []\<close> assms(2) last_in_set by fastforce
  then show False using assms(1) by (auto simp: ordered_def sorted_wrt_append)
qed

lemma closest_above:
  assumes "closest xs b = e" "sint b < ekey e" "x \<in> set xs"
  shows "sint b < ekey x"
proof (rule ccontr)
  assume "\<not> sint b < ekey x"
  then have "filter (\<lambda>e. ekey e \<le> sint b) xs \<noteq> []" using assms(3) by (auto simp: filter_empty_conv not_less)
  then have "closest xs b \<in> set (filter (\<lambda>e. ekey e \<le> sint b) xs)" unfolding closest_def Let_def by (metis last_in_set)
  then show False using assms(1,2) by simp
qed

section \<open>Merging one block\<close>

abbreviation block_extent :: "u32 \<Rightarrow> ext4_fsblk_t \<Rightarrow> ext4_entry" where
  "block_extent b pb \<equiv> new_extent b 1 pb"

lemma block_extent_parts:
  assumes "storable pb"
  shows "ekey (block_extent b pb) = sint b" "ee_len (block_extent b pb) = 1" "ext_len (block_extent b pb) = 1"
    "\<not> ext4_ext_is_unwritten (block_extent b pb)" "ext4_ext_pblk (block_extent b pb) = pb"
    "\<not> bit (ee_start_lo (block_extent b pb)) 31" "e_block (block_extent b pb) = b"
  using assms new_extent_pblk new_extent_lo by (simp_all add: storable_def ext_len_def is_unwritten_iff)

lemma append_adjacent:
  assumes "ext4_ext_can_append a c" "0 < ext_len a" "eend a < 2 ^ 31"
  shows "written a" "written c" "ekey c = eend a" "ext4_ext_pblk c = ext4_ext_pblk a + word_of_int (ext_len a)"
    "ext_len a = uint (ee_len a)"
proof -
  show w: "written a" "written c" using assms(1) by (simp_all add: can_append_iff written_def)
  then have len: "uint (ee_len a) < 2 ^ 15" by (simp add: written_def is_unwritten_iff)
  then show l: "ext_len a = uint (ee_len a)" by (rule ext_len_small)
  have "e_block c = e_block a + ext4_ext_get_actual_len a"
    using assms(1) w(1) by (simp add: can_append_iff ext4_ext_lblk_def endian_defs written_def written_len(1))
  then show "ekey c = eend a" using written_end(1) [OF w(1) assms(2,3)] by (simp add: ekey_def)
  show "ext4_ext_pblk c = ext4_ext_pblk a + word_of_int (ext_len a)"
    using assms(1) unfolding can_append_iff l by simp
qed

text \<open>The merged entry has one block more and starts where \<open>x\<close> does, in the file and on the disk.\<close>

lemma merged_entry:
  assumes "written a" "storable pb" "ee_len a \<noteq> 0x7fff"
  shows "\<exists>f. merge_len a (block_extent b pb) x = Some f \<and> e_block f = e_block x \<and> ekey f = ekey x
    \<and> ext_len f = ext_len a + 1 \<and> \<not> ext4_ext_is_unwritten f \<and> ext4_ext_pblk f = ext4_ext_pblk x"
proof -
  note g = block_extent_parts [OF assms(2), of b]
  have w: "\<not> ext4_ext_is_unwritten a" "uint (ee_len a) < 2 ^ 15" using assms(1) by (simp_all add: written_def is_unwritten_iff)
  moreover have "uint (ee_len a) \<noteq> uint (0x7fff :: u16)" using assms(3) by (metis word_uint_eqI)
  ultimately have len: "uint (ee_len a) + 1 < 2 ^ 15" by simp
  let ?len = "ucast (ext4_ext_get_actual_len a + ext4_ext_get_actual_len (block_extent b pb)) :: u16"
  have "ext4_ext_get_actual_len a + ext4_ext_get_actual_len (block_extent b pb) = ucast (ee_len a) + 1"
    using w(1) g(2,4) by (simp add: written_len(1))
  moreover have "uint (ucast (ee_len a) + 1 :: u32) = uint (ee_len a) + 1"
    using len by (simp add: uint_plus_if' unsigned_ucast_eq take_bit_int_eq_self)
  ultimately have "uint ?len = uint (ee_len a) + 1"
    using len by (simp add: unsigned_ucast_eq take_bit_int_eq_self)
  moreover have "ee_len (set_ee_len w e) = w" for w e by (simp add: ee_len_def set_ee_len_def)
  ultimately show ?thesis using w len
    by (simp add: merge_len_def endian_defs Let_def ext_len_small is_unwritten_iff)
qed

section \<open>Inserting the block\<close>

text \<open>An extent that is merged: the current entry is changed, the path stays at it.\<close>

lemma insert_leaf_merges:
  assumes "path_at path d = Some p" "p_header p = Some l" "nodes s l = Some n" "node_ok c n"
    and "p_extent p = Some (int j)" "j < length (entries_of n)" "e_block (entries_of n ! j) \<noteq> e_block newext"
    and "leaf_merge flags (Some (entries_of n ! j)) newext = Some m" "m (entries_of n ! j) = Some f" "dirty_marks_only env"
  shows "\<exists>s' n'. ext4_ext_insert_leaf env path d newext flags s = Some (EOK, False, path[d := p\<lparr>p_extent := Some (int j), p_block := ext4_ext_pblk f\<rparr>], s')
     \<and> nodes s' = (nodes s)(l \<mapsto> n') \<and> node_ok c n' \<and> entries_of n' = (entries_of n)[j := f]"
proof -
  have at: "slot n (int j) = Some (entries_of n ! j)" using node_ok_slot [OF assms(4), of "int j"] assms(6) by simp
  obtain n' where n': "update_entry (Some l) (Some (int j)) m s = Some (put_node l n' s)"
    "entries_of n' = (entries_of n)[j := f]" "node_ok c n'"
    using update_entry_node [OF assms(3,4,6), of m f] assms(9) by blast
  let ?s = "snd (ext4_ext_dirty env p (put_node l n' s))"
  have s: "nodes ?s = (nodes s)(l \<mapsto> n')" using dirty_nodes(1) [OF assms(10)] by (simp add: put_node_def)
  have "slot n' (int j) = Some f" using node_ok_slot [OF n'(3), of "int j"] n'(2) assms(6) by simp
  then have "insert_leaf_out path d (Some (int j)) EOK False ?s = Some (EOK, False, path[d := p\<lparr>p_extent := Some (int j), p_block := ext4_ext_pblk f\<rparr>], ?s)"
    using assms(1,2,5) s by (simp add: insert_leaf_out_def entry_at_def node_at_def)
  then have "ext4_ext_insert_leaf env path d newext flags s = Some (EOK, False, path[d := p\<lparr>p_extent := Some (int j), p_block := ext4_ext_pblk f\<rparr>], ?s)"
    using assms(1-3,5,7,8) at n'(1) dirty_nodes(2) [of env p "put_node l n' s"]
    by (auto simp: ext4_ext_insert_leaf_def entry_at_def node_at_def endian_defs split: prod.split)
  then show ?thesis using s n'(2,3) by blast
qed

text \<open>What a search for the block leaves: the leaf, its place among the extents, and the closest extent.\<close>

definition search_at :: "'w ext4_state \<Rightarrow> nat \<Rightarrow> u32 \<Rightarrow> ext4_extent_path list \<Rightarrow> loc \<Rightarrow> ext4_node \<Rightarrow> bool" where
  "search_at s d b path leaf n \<longleftrightarrow> inode_depth s = Some d \<and> tree_ok d (nodes s) Root \<and> disjoint_extents (extents_below d (nodes s) Root)
     \<and> d < length path \<and> path_to d (nodes s) path 0 Root leaf \<and> nodes s leaf = Some n
     \<and> (case p_extent (path ! d) of None \<Rightarrow> entries_of n = []
        | Some i \<Rightarrow> 0 \<le> i \<and> splits_at (entries_of n) b (nat i)
            \<and> closest (extents_below d (nodes s) Root) b = entries_of n ! nat i)"

lemma inode_depth_bound: "inode_depth s = Some d \<Longrightarrow> d < 2 ^ 16"
  using unsigned_less [of "ext_depth _ :: u16"] by (auto simp: inode_depth_def split: option.splits)

text \<open>
  The entries \<open>es'\<close> take the place of those of the leaf, and the path still leads there.
\<close>

definition leaf_gets :: "'w ext4_env \<Rightarrow> 'w ext4_state \<Rightarrow> nat \<Rightarrow> ext4_extent_path list \<Rightarrow> loc \<Rightarrow> ext4_entry \<Rightarrow> ext4_entry list \<Rightarrow> bool" where
  "leaf_gets env s d path leaf g es' \<longleftrightarrow> (\<exists>q s' n'. ext4_ext_insert_extent env path g 0 s = Some (EOK, path[d := q], s')
     \<and> nodes s' = (nodes s)(leaf \<mapsto> n') \<and> node_ok 0 n' \<and> entries_of n' = es'
     \<and> p_lb_id q = p_lb_id (path ! d) \<and> p_header q = Some leaf \<and> p_depth q = p_depth (path ! d))"

lemma leaf_gets_merged:
  assumes at: "search_at s d b path leaf n" and ex: "p_extent (path ! d) = Some (int j)"
    and ne: "e_block (entries_of n ! j) \<noteq> e_block g"
    and merge: "leaf_merge 0 (Some (entries_of n ! j)) g = Some m" "m (entries_of n ! j) = Some f" and env: "dirty_marks_only env"
  shows "leaf_gets env s d path leaf g ((entries_of n)[j := f])"
proof -
  have path: "path_at path d = Some (path ! d)" "p_header (path ! d) = Some leaf" "inode_depth s = Some d" "nodes s leaf = Some n"
    "j < length (entries_of n)"
    using at ex path_to_header [of d "nodes s" path 0 Root leaf] by (auto simp: search_at_def path_at_def splits_at_def)
  have "node_ok 0 n"
    using leaf_ok [of d "nodes s" Root leaf] path_leaf [of d "nodes s" path 0 Root leaf] at by (auto simp: search_at_def)
  from insert_leaf_merges [OF path(1,2,4) this ex path(5) ne merge env] obtain s' n' where
    "ext4_ext_insert_leaf env path d g 0 s = Some (EOK, False, path[d := (path ! d)\<lparr>p_extent := Some (int j), p_block := ext4_ext_pblk f\<rparr>], s')"
    "nodes s' = (nodes s)(leaf \<mapsto> n')" "node_ok 0 n'" "entries_of n' = (entries_of n)[j := f]" by blast
  then show ?thesis unfolding leaf_gets_def using insert_extent_no_split [OF path(3)] path(2)
    by (intro exI [of _ "(path ! d)\<lparr>p_extent := Some (int j), p_block := ext4_ext_pblk f\<rparr>"] exI [of _ s'] exI [of _ n']) simp
qed

lemma leaf_gets_inserted:
  assumes at: "search_at s d b path leaf n" and room: "sint (eh_entries (n_hdr n)) < sint (eh_max (n_hdr n))"
    and g: "e_block g = b" "\<forall>e \<in> set (entries_of n). e_block e \<noteq> b" "\<not> bit (ee_start_lo g) 31"
    and merge: "leaf_merge 0 (map_option (\<lambda>i. entries_of n ! nat i) (p_extent (path ! d))) g = None" and env: "dirty_marks_only env"
    and k: "k = insert_pos (entries_of n) (p_extent (path ! d)) g" "d = 0 \<or> 0 < k"
  shows "leaf_gets env s d path leaf g (take k (entries_of n) @ g # drop k (entries_of n))"
proof -
  let ?es = "entries_of n" and ?p = "path ! d"
  have tree: "inode_depth s = Some d" "tree_ok d (nodes s) Root" "disjoint_extents (extents_below d (nodes s) Root)"
    and path: "path_at path d = Some ?p" "p_header ?p = Some leaf" "nodes s leaf = Some n" "d < length path"
      "path_to d (nodes s) path 0 Root leaf"
    and ex: "case p_extent ?p of None \<Rightarrow> ?es = [] | Some i \<Rightarrow> 0 \<le> i \<and> splits_at ?es b (nat i)"
    using at path_to_header [of d "nodes s" path 0 Root leaf] by (auto simp: search_at_def path_at_def split: option.splits)
  have d: "d < 2 ^ 16" by (rule inode_depth_bound [OF tree(1)])
  have leaf: "leaf \<in> set (leaves d (nodes s) Root)" by (rule path_leaf [OF path(5)])
  then have n: "node_ok 0 n" using leaf_ok [OF tree(2)] path(3) by fastforce
  have ordered_all: "ordered (extents_below d (nodes s) Root)" by (rule disjoint_ordered [OF tree(3)])
  obtain xs ys where ctx: "extents_below d (nodes s) Root = xs @ ?es @ ys" "d = 0 \<longrightarrow> xs = [] \<and> ys = []"
    "\<And>n'. node_ok 0 n' \<Longrightarrow> d = 0 \<or> entries_of n' \<noteq> [] \<and> e_block (hd (entries_of n')) = e_block (hd ?es) \<Longrightarrow>
      tree_ok d ((nodes s)(leaf \<mapsto> n')) Root \<and> leaves d ((nodes s)(leaf \<mapsto> n')) Root = leaves d (nodes s) Root
      \<and> extents_below d ((nodes s)(leaf \<mapsto> n')) Root = xs @ entries_of n' @ ys"
    using leaf_context [OF tree(2) ordered_all d leaf path(3)] by blast
  have ord: "ordered ?es" using ordered_all unfolding ctx(1) by (simp add: ordered_append)
  have none: "p_extent ?p = None \<Longrightarrow> ?es = [] \<and> d = 0"
    using ex k by (auto simp: insert_pos_def)
  have some: "p_extent ?p \<noteq> None \<Longrightarrow> ?es \<noteq> []" using ex by (auto simp: splits_at_def)
  have ins: "\<exists>k' s' n'. ext4_ext_insert_leaf env path d g 0 s
       = Some (EOK, False, path[d := ?p\<lparr>p_extent := Some (int k'), p_block := ext4_ext_pblk g\<rparr>], s')
     \<and> nodes s' = (nodes s)(leaf \<mapsto> n') \<and> node_ok 0 n' \<and> k' \<le> length ?es
     \<and> entries_of n' = take k' ?es @ g # drop k' ?es \<and> ordered (entries_of n') \<and> slot n' (int k') = Some g
     \<and> k' = (case p_extent ?p of None \<Rightarrow> 0 | Some i \<Rightarrow> if ekey (?es ! nat i) < ekey g then Suc (nat i) else nat i)"
  proof (rule insert_leaf_writes [OF tree(1) path(1-3) n ord room])
    show "case p_extent ?p of None \<Rightarrow> ?es = [] | Some i \<Rightarrow> 0 \<le> i \<and> splits_at ?es (e_block g) (nat i)"
      using ex none g(1) by (auto split: option.splits)
    show "\<forall>e \<in> set ?es. e_block e \<noteq> e_block g" using g(1,2) by simp
    fix n3 k' assume n3: "k' = insert_pos ?es (p_extent ?p) g" "entries_of n3 = take k' ?es @ g # drop k' ?es" "node_ok 0 n3"
      "eh_depth (n_hdr n3) = eh_depth (n_hdr n)"
    let ?s = "put_node leaf n3 s" and ?path = "path[d := ?p\<lparr>p_extent := Some (case p_extent ?p of None \<Rightarrow> 0 | Some i \<Rightarrow> i)\<rparr>]"
    have first: "d = 0 \<or> entries_of n3 \<noteq> [] \<and> e_block (hd (entries_of n3)) = e_block (hd ?es)"
      using k n3(1,2) none some by (cases ?es; cases k) (auto simp: insert_pos_def split: option.splits)
    have s: "nodes ?s = (nodes s)(leaf \<mapsto> n3)" by (simp add: put_node_def)
    have "path_to d (nodes ?s) ?path 0 Root leaf"
      using path_to_update [OF path_update_leaf [OF path(3) n path(5) tree(2) d], of "?p\<lparr>p_extent := Some (case p_extent ?p of None \<Rightarrow> 0 | Some i \<Rightarrow> i)\<rparr>" n3]
        path(2,4) unfolding s by simp
    moreover have "inode_depth ?s = Some d" using tree(1) inode_depth_put_node [OF path(3) n3(4)] by simp
    ultimately show "\<exists>s'. ext4_ext_correct_indexes env ?path ?s = Some (EOK, s') \<and> nodes s' = (nodes s)(leaf \<mapsto> n3)"
      using correct_indexes_same [of d ?s ?path leaf n3 env] ctx(3) [OF n3(3) first] path(4) n3(2) env unfolding s by simp
  qed (use merge g(3) env in simp_all)
  then obtain s' n' where "ext4_ext_insert_leaf env path d g 0 s
       = Some (EOK, False, path[d := ?p\<lparr>p_extent := Some (int k), p_block := ext4_ext_pblk g\<rparr>], s')"
     "nodes s' = (nodes s)(leaf \<mapsto> n')" "node_ok 0 n'" "entries_of n' = take k ?es @ g # drop k ?es"
    using k(1) by (auto simp: insert_pos_def)
  then show ?thesis unfolding leaf_gets_def using insert_extent_no_split [OF tree(1)] path(2)
    by (intro exI [of _ "?p\<lparr>p_extent := Some (int k), p_block := ext4_ext_pblk g\<rparr>"] exI [of _ s'] exI [of _ n']) simp
qed

lemma path_node:
  "tree_ok d m l \<Longrightarrow> path_to d m path k l leaf \<Longrightarrow> k \<le> i \<Longrightarrow> i < k + d \<Longrightarrow>
   \<exists>l' n j c. p_header (path ! i) = Some l' \<and> m l' = Some n \<and> node_ok c n \<and> p_index (path ! i) = Some (int j) \<and> j < length (entries_of n)"
proof (induction d arbitrary: k l)
  case (Suc d)
  from Suc.prems(2) obtain n j where n: "p_header (path ! k) = Some l" "m l = Some n" "j < length (entries_of n)"
    "p_index (path ! k) = Some (int j)" "path_to d m path (Suc k) (child (entries_of n ! j)) leaf" by auto
  have sub: "node_ok (Suc d) n" "tree_ok d m (child (entries_of n ! j))" using Suc.prems(1) n(2,3) by auto
  show ?case
  proof (cases "i = k")
    case False
    then show ?thesis using Suc.prems(3,4) by (intro Suc.IH [OF sub(2) n(5)]) auto
  qed (use n sub(1) in auto)
qed simp

lemma search_node:
  assumes "search_at s d b path leaf n" "i \<le> d"
  obtains l m c where "p_header (path ! i) = Some l" "nodes s l = Some m" "node_ok c m"
    "i < d \<Longrightarrow> \<exists>j. p_index (path ! i) = Some (int j) \<and> j < length (entries_of m)" "i = d \<Longrightarrow> l = leaf \<and> m = n"
proof (cases "i = d")
  case True
  have "\<exists>m. nodes s leaf = Some m \<and> node_ok 0 m" using assms(1) leaf_ok path_leaf unfolding search_at_def by metis
  then show ?thesis using that [of leaf n 0] True assms(1) path_to_header [of d "nodes s" path 0 Root leaf] by (auto simp: search_at_def)
next
  case False
  then show ?thesis using that path_node [of d "nodes s" Root path 0 leaf i] assms by (fastforce simp: search_at_def)
qed

section \<open>A block in front of the first extent\<close>

text \<open>
  A block that comes directly in front of the first extent of a leaf, in the file and on the disk, is merged with it, but
  the extent keeps its physical start.
\<close>

lemma before_first:
  assumes at: "search_at s 0 b path leaf n" "p_depth (path ! 0) = int 0" and es: "entries_of n = e # es"
    and W: "extents_below 0 (nodes s) Root = entries_of n" and e: "ekey e = sint b + 1"
  shows "p_extent (path ! 0) = Some (int 0)" "e_block e = b + 1"
    "ext4_ext_find_goal env (Some path) b s = Some (ext4_ext_pblk e - 1)"
proof -
  have dis: "disjoint_extents (e # es)" using at W es by (simp add: search_at_def)
  obtain i where i: "p_extent (path ! 0) = Some i" "splits_at (e # es) b (nat i)" "0 \<le> i"
    using at es by (auto simp: search_at_def split: option.splits)
  have "ekey ((e # es) ! nat i) \<le> sint b" if "0 < nat i" using i(2) that by (simp add: splits_at_def)
  moreover have "ekey e \<le> ekey x" if "x \<in> set (e # es)" for x using ordered_hd [OF disjoint_ordered [OF dis] that] by simp
  moreover have "nat i < length (e # es)" using i(2) by (simp add: splits_at_def)
  ultimately have "nat i = 0" using e(1) nth_mem by (metis leD neq0_conv order_trans zless_add1_eq)
  then show ex: "p_extent (path ! 0) = Some (int 0)" using i(1,3) by simp
  have "sint (b + 1) = sint b + 1"
    using dis e sint_ge [of b] by (subst sint_add_32) (simp_all add: disjoint_extents_def)
  then have "sint (e_block e) = sint (b + 1)" using e(1) by (simp add: ekey_def)
  then show eb: "e_block e = b + 1" using signed_word_eqI by blast
  obtain l m c where m: "p_header (path ! 0) = Some l" "nodes s l = Some m" "node_ok c m" "m = n"
    using search_node [OF at(1), of 0] by blast
  then have "entry_at s (p_header (path ! 0)) (Some (int 0)) = Some e"
    using node_ok_slot [OF m(3), of 0] es by (simp add: entry_at_def node_at_def)
  moreover have "\<not> u32_lt (le32_to_cpu (e_block e)) b" using e by (simp add: u32_lt_def ekey_def endian_defs)
  moreover have "path_at path 0 = Some (path ! 0)" using at(1) by (simp add: search_at_def path_at_def)
  ultimately show "ext4_ext_find_goal env (Some path) b s = Some (ext4_ext_pblk e - 1)"
    using at(2) ex eb by (simp add: ext4_ext_find_goal_def endian_defs u64_of_u32_def)
qed

lemma prepend_first:
  assumes at: "search_at s 0 b path leaf n" "p_depth (path ! 0) = int 0" and es: "entries_of n = e # es"
    and W: "extents_below 0 (nodes s) Root = entries_of n"
    and e: "ekey e = sint b + 1" "ext4_ext_pblk e = pb + 1" "written e" "ee_len e \<noteq> 0x7fff"
    and env: "dirty_marks_only env" and pb: "storable pb"
  shows "\<exists>f. leaf_gets env s 0 path leaf (block_extent b pb) (f # es) \<and> ekey f = sint b \<and> ext_len f = ext_len e + 1
     \<and> \<not> ext4_ext_is_unwritten f \<and> ext4_ext_pblk f = ext4_ext_pblk e"
proof -
  let ?g = "block_extent b pb"
  note g = block_extent_parts [OF pb, of b]
  have dis: "disjoint_extents (e # es)" using at W es by (simp add: search_at_def)
  have len: "0 < ext_len e" "eend e < 2 ^ 31" using dis by (simp_all add: disjoint_extents_def eend_def)
  note first = before_first [OF at es W e(1)]
  have "\<not> ext4_ext_can_append e ?g"
    using append_adjacent(3) [of e ?g] len e(1) g(1) by (auto simp: eend_def)
  moreover have "ext4_ext_can_prepend e ?g"
  proof -
    have "uint (ee_len e) + 1 \<le> 2 ^ 15" using e(3) by (simp add: written_def is_unwritten_iff)
    then show ?thesis
      using e(2,3) g first(2) by (simp add: can_prepend_append can_append_iff written_def ext4_ext_lblk_def endian_defs add.commute)
  qed
  ultimately have merge: "leaf_merge 0 (Some (entries_of n ! 0)) ?g = Some (\<lambda>x. merge_len e ?g (x\<lparr>e_block := b\<rparr>))"
    using g(7) es by (simp add: leaf_merge_def)
  obtain f where f: "merge_len e ?g (e\<lparr>e_block := b\<rparr>) = Some f" "ekey f = ekey (e\<lparr>e_block := b\<rparr>)" "ext_len f = ext_len e + 1"
    "\<not> ext4_ext_is_unwritten f" "ext4_ext_pblk f = ext4_ext_pblk (e\<lparr>e_block := b\<rparr>)"
    using merged_entry [OF e(3) pb e(4)] by blast
  have "e_block (entries_of n ! 0) \<noteq> e_block ?g" using e(1) es g(7) by (auto simp: ekey_def)
  from leaf_gets_merged [OF at(1) first(1) this merge _ env, of f] f(1) es
  have "leaf_gets env s 0 path leaf ?g (f # es)" by simp
  then show ?thesis
    using f by (intro exI [of _ f]) (simp add: ekey_def pblk_accessors ee_start_hi_def ee_start_lo_def)
qed

definition shifted :: "u32 \<Rightarrow> ext4_fsblk_t \<Rightarrow> ext4_entry \<Rightarrow> ext4_entry list \<Rightarrow> ext4_entry list \<Rightarrow> bool" where
  "shifted b pb e xs ys \<longleftrightarrow> disjoint_extents ys \<and> (\<forall>k. extent_map ys k =
     (if k = sint b then Some (False, pb + 1) else if covers e k then Some (False, snd (map_in e k) + 1) else extent_map xs k))"

lemma shifted_first:
  assumes dis: "disjoint_extents (e # es)" and e: "ekey e = sint b + 1" "ext4_ext_pblk e = pb + 1"
    and f: "ekey f = sint b" "ext_len f = ext_len e + 1" "\<not> ext4_ext_is_unwritten f" "ext4_ext_pblk f = ext4_ext_pblk e"
  shows "shifted b pb e (e # es) (f # es)"
proof -
  have cov: "covers f k \<longleftrightarrow> k = sint b \<or> covers e k" for k
    using e(1) f(1,2) ext_len_bound(1) [of e] by (auto simp: covers_def)
  have step: "word_of_int (k - sint b) = (word_of_int (k - ekey e) + 1 :: u64)" for k
    unfolding e(1) by (simp add: wi_hom_syms)
  have "map_in f (sint b) = (False, pb + 1)" "map_in f k = (False, snd (map_in e k) + 1)" for k
    using f e(2) step [of k] by (simp_all add: map_in_def add.assoc)
  then have "extent_map (f # es) k =
     (if k = sint b then Some (False, pb + 1) else if covers e k then Some (False, snd (map_in e k) + 1) else extent_map (e # es) k)" for k
    using cov by (auto simp: extent_map_def)
  moreover have "disjoint_extents (f # es)"
    using dis e(1) f(1,2) ext_len_bound(1) [of e] by (auto simp: disjoint_extents_def)
  ultimately show ?thesis by (simp add: shifted_def)
qed


end
