(* ===== verification/Ext4_Extent_Subtree.thy ===== *)
theory Ext4_Extent_Subtree
  imports Ext4_Extent_Tree
begin

text \<open>
  Changing a subtree of an extent tree: the subtrees of a node have no node in common, so that a new
  subtree that has the same first key takes the place of an old one and nothing else changes.
\<close>

section \<open>The nodes of a subtree\<close>

lemma node_depth_unique:
  assumes "node_ok a n" "node_ok b n" "a < 2 ^ 16" "b < 2 ^ 16"
  shows "a = b"
proof -
  have "unat (of_nat a :: u16) = a" "unat (of_nat b :: u16) = b"
    using assms(3,4) by (simp_all add: unsigned_of_nat take_bit_nat_eq_self)
  moreover have "(of_nat a :: u16) = of_nat b" using assms(1,2) by (simp add: node_ok_def)
  ultimately show ?thesis by metis
qed

lemma node_below:
  "tree_ok d m l \<Longrightarrow> extents_below d m l \<noteq> [] \<Longrightarrow> l' \<in> nodes_below d m l \<Longrightarrow>
   \<exists>k n. k \<le> d \<and> m l' = Some n \<and> node_ok k n \<and> extents_below k m l' \<noteq> []
     \<and> set (extents_below k m l') \<subseteq> set (extents_below d m l) \<and> (l' \<noteq> l \<longrightarrow> k < d)"
proof (induction d arbitrary: l)
  case (Suc d)
  from Suc.prems(1) obtain n where n: "m l = Some n" "node_ok (Suc d) n"
    and sub: "\<And>ix. ix \<in> set (entries_of n) \<Longrightarrow> tree_ok d m (child ix) \<and> extents_below d m (child ix) \<noteq> []" by auto
  show ?case
  proof (cases "l' = l")
    case True
    then show ?thesis using n Suc.prems(2) by (intro exI [of _ "Suc d"] exI [of _ n]) simp
  next
    case False
    then obtain ix where ix: "ix \<in> set (entries_of n)" "l' \<in> nodes_below d m (child ix)" using Suc.prems(3) n(1) by auto
    then obtain k n' where k: "k \<le> d" "m l' = Some n'" "node_ok k n'" "extents_below k m l' \<noteq> []"
      "set (extents_below k m l') \<subseteq> set (extents_below d m (child ix))"
      using Suc.IH [of "child ix"] sub [OF ix(1)] by blast
    moreover have "set (extents_below d m (child ix)) \<subseteq> set (extents_below (Suc d) m l)" using ix(1) n(1) by auto
    ultimately show ?thesis using False by (intro exI [of _ k] exI [of _ n']) auto
  qed
qed auto

lemma subtree_root: "l \<in> nodes_below d m l" by (cases d) auto

lemma disjoint_subtrees:
  assumes "tree_ok d m a" "extents_below d m a \<noteq> []" "tree_ok d m b" "extents_below d m b \<noteq> []"
    and "set (extents_below d m a) \<inter> set (extents_below d m b) = {}" "d < 2 ^ 16"
  shows "nodes_below d m a \<inter> nodes_below d m b = {}"
proof (rule ccontr)
  assume "nodes_below d m a \<inter> nodes_below d m b \<noteq> {}"
  then obtain l where l: "l \<in> nodes_below d m a" "l \<in> nodes_below d m b" by blast
  obtain k n where k: "k \<le> d" "m l = Some n" "node_ok k n" "extents_below k m l \<noteq> []" "set (extents_below k m l) \<subseteq> set (extents_below d m a)"
    using node_below [OF assms(1,2) l(1)] by blast
  obtain k' n' where k': "k' \<le> d" "m l = Some n'" "node_ok k' n'" "set (extents_below k' m l) \<subseteq> set (extents_below d m b)"
    using node_below [OF assms(3,4) l(2)] by blast
  have "k = k'" using node_depth_unique [of k n k'] k k' assms(6) by simp
  then show False using hd_in_set [OF k(4)] k(5) k'(4) assms(5) by blast
qed

text \<open>An inner node of a well-formed tree, with one of its children.\<close>

lemma inner_node:
  assumes "tree_ok (Suc d) m l" "m l = Some n" "j < length (entries_of n)" "ordered (extents_below (Suc d) m l)" "Suc d < 2 ^ 16"
  defines "pre \<equiv> take j (entries_of n)" and "ix \<equiv> entries_of n ! j" and "post \<equiv> drop (Suc j) (entries_of n)"
  shows "entries_of n = pre @ ix # post" "node_ok (Suc d) n"
    "\<And>jx. jx \<in> set (entries_of n) \<Longrightarrow> ext4_idx_pblk jx \<noteq> 0 \<and> tree_ok d m (child jx) \<and> extents_below d m (child jx) \<noteq> []
       \<and> e_block (hd (extents_below d m (child jx))) = e_block jx \<and> l \<notin> nodes_below d m (child jx)"
    "ordered (extents_below d m (child ix))"
    "extents_below (Suc d) m l = concat (map (\<lambda>jx. extents_below d m (child jx)) pre) @ extents_below d m (child ix)
       @ concat (map (\<lambda>jx. extents_below d m (child jx)) post)"
    "\<And>jx. jx \<in> set pre \<union> set post \<Longrightarrow> nodes_below d m (child jx) \<inter> nodes_below d m (child ix) = {}"
proof -
  let ?f = "\<lambda>jx. extents_below d m (child jx)"
  show es: "entries_of n = pre @ ix # post" unfolding pre_def ix_def post_def by (rule id_take_nth_drop [OF assms(3)])
  show node: "node_ok (Suc d) n" using assms(1,2) by simp
  show sub: "ext4_idx_pblk jx \<noteq> 0 \<and> tree_ok d m (child jx) \<and> ?f jx \<noteq> []
      \<and> e_block (hd (?f jx)) = e_block jx \<and> l \<notin> nodes_below d m (child jx)" if "jx \<in> set (entries_of n)" for jx
  proof -
    have "l \<notin> nodes_below d m (child jx)"
    proof
      assume "l \<in> nodes_below d m (child jx)"
      moreover have "tree_ok d m (child jx)" "?f jx \<noteq> []" using assms(1,2) that by auto
      ultimately obtain k n' where "k \<le> d" "m l = Some n'" "node_ok k n'" using node_below by blast
      then show False using node_depth_unique [of k n "Suc d"] node assms(2,5) by simp
    qed
    then show ?thesis using assms(1,2) that by auto
  qed
  show all: "extents_below (Suc d) m l = concat (map ?f pre) @ ?f ix @ concat (map ?f post)" using assms(2) es by simp
  show "ordered (?f ix)" using assms(4) unfolding all by (simp add: ordered_append)
  fix jx assume jx: "jx \<in> set pre \<union> set post"
  have "distinct (concat (map ?f pre) @ ?f ix @ concat (map ?f post))" using ordered_distinct [OF assms(4)] unfolding all .
  then have "set (?f jx) \<inter> set (?f ix) = {}" using jx by auto
  then show "nodes_below d m (child jx) \<inter> nodes_below d m (child ix) = {}"
    using sub [of jx] sub [of ix] jx es assms(5) by (intro disjoint_subtrees) auto
qed

section \<open>A new subtree in the place of an old one\<close>

definition same_outside :: "loc set \<Rightarrow> (loc \<rightharpoonup> ext4_node) \<Rightarrow> (loc \<rightharpoonup> ext4_node) \<Rightarrow> bool" where
  "same_outside L m m' \<longleftrightarrow> (\<forall>l. l \<notin> L \<longrightarrow> m l \<noteq> None \<longrightarrow> m' l = m l)"

lemma same_outside_refl [simp]: "same_outside L m m" by (simp add: same_outside_def)

lemma same_outside_trans: "same_outside L m m' \<Longrightarrow> same_outside L m' m'' \<Longrightarrow> same_outside L m m''"
  by (auto simp: same_outside_def)

lemma same_outside_mono: "same_outside L m m' \<Longrightarrow> L \<subseteq> L' \<Longrightarrow> same_outside L' m m'" by (auto simp: same_outside_def)

lemma subtree_kept:
  assumes "tree_ok d m l" "extents_below d m l \<noteq> []" "same_outside L m m'" "nodes_below d m l \<inter> L = {}"
  shows "extents_below d m' l = extents_below d m l" "tree_ok d m' l" "nodes_below d m' l = nodes_below d m l"
proof -
  have "\<forall>l' \<in> nodes_below d m l. m' l' = m l'"
    using assms(3,4) node_below [OF assms(1,2)] unfolding same_outside_def by fastforce
  from subtree_frame [OF this] show "extents_below d m' l = extents_below d m l" "tree_ok d m' l" "nodes_below d m' l = nodes_below d m l"
    using assms(1) by simp_all
qed

text \<open>
  The place of the subtree below \<open>c\<close>, \<open>i\<close> levels down the path: any other subtree with the same first key may take it.
\<close>

definition place_of :: "nat \<Rightarrow> (loc \<rightharpoonup> ext4_node) \<Rightarrow> loc \<Rightarrow> ext4_extent_path list \<Rightarrow> nat \<Rightarrow> nat \<Rightarrow> loc \<Rightarrow>
    ext4_entry list \<Rightarrow> ext4_entry list \<Rightarrow> bool" where
  "place_of d m l path k i c xs ys \<longleftrightarrow> extents_below d m l = xs @ extents_below (d - i) m c @ ys
    \<and> (\<forall>m'. same_outside (nodes_below (d - i) m c) m m' \<longrightarrow> tree_ok (d - i) m' c \<longrightarrow> extents_below (d - i) m' c \<noteq> []
      \<longrightarrow> e_block (hd (extents_below (d - i) m' c)) = e_block (hd (extents_below (d - i) m c))
      \<longrightarrow> tree_ok d m' l \<and> extents_below d m' l = xs @ extents_below (d - i) m' c @ ys)
    \<and> (\<forall>m' path' leaf'. same_outside (nodes_below (d - i) m c) m m'
      \<longrightarrow> (\<forall>k'. k \<le> k' \<longrightarrow> k' < k + i \<longrightarrow> p_header (path' ! k') = p_header (path ! k') \<and> p_index (path' ! k') = p_index (path ! k'))
      \<longrightarrow> path_to (d - i) m' path' (k + i) c leaf' \<longrightarrow> path_to d m' path' k l leaf')"

lemma place_step:
  assumes tree: "tree_ok (Suc e) m l" "ordered (extents_below (Suc e) m l)" "Suc e < 2 ^ 16"
    and n: "p_header (path ! k) = Some l" "m l = Some n" "j < length (entries_of n)" "p_index (path ! k) = Some (int j)"
    and place: "place_of e m (child (entries_of n ! j)) path (Suc k) i c xs ys"
    and c: "extents_below (e - i) m c \<noteq> []" "nodes_below (e - i) m c \<subseteq> nodes_below e m (child (entries_of n ! j))"
  shows "\<exists>xs ys. place_of (Suc e) m l path k (Suc i) c xs ys"
proof -
  define pre ix post where p: "pre = take j (entries_of n)" "ix = entries_of n ! j" "post = drop (Suc j) (entries_of n)"
  let ?f = "\<lambda>m jx. extents_below e m (child jx)"
  note N = inner_node [OF tree(1) n(2,3) tree(2,3), folded p]
  have ix: "ix \<in> set (entries_of n)" using N(1) by simp
  have old: "?f m ix = xs @ extents_below (e - i) m c @ ys" using place p(2) by (simp add: place_of_def)
  have l: "m' l = Some n" if "same_outside (nodes_below (e - i) m c) m m'" for m'
    using that N(3) [OF ix] c(2) n(2) p(2) unfolding same_outside_def by (metis option.distinct(1) subsetD)
  have 1: "extents_below (Suc e) m l = (concat (map (?f m) pre) @ xs) @ extents_below (e - i) m c @ (ys @ concat (map (?f m) post))"
    unfolding N(5) old by simp
  have 2: "tree_ok (Suc e) m' l \<and> extents_below (Suc e) m' l
       = (concat (map (?f m) pre) @ xs) @ extents_below (e - i) m' c @ (ys @ concat (map (?f m) post))"
    if m': "same_outside (nodes_below (e - i) m c) m m'" "tree_ok (e - i) m' c" "extents_below (e - i) m' c \<noteq> []"
      "e_block (hd (extents_below (e - i) m' c)) = e_block (hd (extents_below (e - i) m c))" for m'
  proof -
    have side: "?f m' jx = ?f m jx" "tree_ok e m' (child jx)" if "jx \<in> set pre \<union> set post" for jx
    proof -
      have "jx \<in> set (entries_of n)" using that N(1) by auto
      then have "tree_ok e m (child jx)" "?f m jx \<noteq> []" using N(3) by blast+
      moreover have "nodes_below e m (child jx) \<inter> nodes_below (e - i) m c = {}" using N(6) [OF that] c(2) p(2) by blast
      ultimately show "?f m' jx = ?f m jx" "tree_ok e m' (child jx)" using subtree_kept m'(1) by blast+
    qed
    have new: "tree_ok e m' (child ix)" "?f m' ix = xs @ extents_below (e - i) m' c @ ys"
      using place m' p(2) by (simp_all add: place_of_def)
    have "hd (?f m' ix) = (if xs = [] then hd (extents_below (e - i) m' c) else hd (?f m ix))" "?f m' ix \<noteq> []"
      unfolding new(2) old using m'(3) by simp_all
    moreover have "hd (?f m ix) = (if xs = [] then hd (extents_below (e - i) m c) else hd (?f m ix))"
      unfolding old using c(1) by simp
    ultimately have key: "?f m' ix \<noteq> []" "e_block (hd (?f m' ix)) = e_block ix"
      using N(3) [OF ix] m'(4) by (auto split: if_splits)
    have kids: "ext4_idx_pblk jx \<noteq> 0 \<and> tree_ok e m' (child jx) \<and> ?f m' jx \<noteq> [] \<and> e_block (hd (?f m' jx)) = e_block jx"
      if "jx \<in> set (entries_of n)" for jx
    proof (cases "jx \<in> set pre \<union> set post")
      case True
      then show ?thesis using side [OF True] N(3) [OF that] by simp
    next
      case False
      then have "jx = ix" using that N(1) by auto
      then show ?thesis using new(1) key N(3) [OF ix] by simp
    qed
    have "map (?f m') pre = map (?f m) pre" "map (?f m') post = map (?f m) post" using side(1) by auto
    moreover have "extents_below (Suc e) m' l = concat (map (?f m') pre) @ ?f m' ix @ concat (map (?f m') post)"
      using l [OF m'(1)] N(1) by simp
    moreover have "tree_ok (Suc e) m' l" using l [OF m'(1)] N(1,2) kids by auto
    ultimately show ?thesis by (simp only: new(2) append_assoc)
  qed
  have 3: "path_to (Suc e) m' path' k l leaf'"
    if m': "same_outside (nodes_below (e - i) m c) m m'"
      "\<forall>k'. k \<le> k' \<longrightarrow> k' < k + Suc i \<longrightarrow> p_header (path' ! k') = p_header (path ! k') \<and> p_index (path' ! k') = p_index (path ! k')"
      "path_to (e - i) m' path' (k + Suc i) c leaf'" for m' path' leaf'
  proof -
    have "path_to e m' path' (Suc k) (child ix) leaf'"
      using place m' p(2) by (simp add: place_of_def)
    then show ?thesis using m'(2) n l [OF m'(1)] p(2) by auto
  qed
  have "place_of (Suc e) m l path k (Suc i) c (concat (map (?f m) pre) @ xs) (ys @ concat (map (?f m) post))"
    using 1 2 3 unfolding place_of_def diff_Suc_Suc by blast
  then show ?thesis by blast
qed

lemma path_context:
  assumes "i \<le> d" "tree_ok d m l" "extents_below d m l \<noteq> []" "ordered (extents_below d m l)" "d < 2 ^ 16" "path_to d m path k l leaf"
    and "p_header (path ! (k + i)) = Some c"
  shows "tree_ok (d - i) m c \<and> extents_below (d - i) m c \<noteq> [] \<and> path_to (d - i) m path (k + i) c leaf
    \<and> nodes_below (d - i) m c \<subseteq> nodes_below d m l \<and> (\<exists>xs ys. place_of d m l path k i c xs ys)"
  using assms
proof (induction i arbitrary: d k l)
  case 0
  have "c = l" using 0(6,7) by (cases d) auto
  then have "place_of d m l path k 0 c [] []" by (simp add: place_of_def)
  then show ?case using 0 \<open>c = l\<close> by auto
next
  case (Suc i)
  then obtain e where d: "d = Suc e" "i \<le> e" by (cases d) auto
  from Suc.prems(6) d obtain n j where n: "p_header (path ! k) = Some l" "m l = Some n" "j < length (entries_of n)"
    "p_index (path ! k) = Some (int j)" "path_to e m path (Suc k) (child (entries_of n ! j)) leaf" by auto
  let ?ix = "entries_of n ! j"
  note tree = Suc.prems(2,4,5) [unfolded d(1)]
  note N = inner_node [OF tree(1) n(2,3) tree(2,3)]
  have ix: "?ix \<in> set (entries_of n)" using n(3) by simp
  have "p_header (path ! (Suc k + i)) = Some c" "e < 2 ^ 16" using Suc.prems(5,7) d by simp_all
  moreover note N(3) [OF ix] N(4)
  ultimately have IH: "tree_ok (e - i) m c \<and> extents_below (e - i) m c \<noteq> [] \<and> path_to (e - i) m path (Suc k + i) c leaf
    \<and> nodes_below (e - i) m c \<subseteq> nodes_below e m (child ?ix) \<and> (\<exists>xs ys. place_of e m (child ?ix) path (Suc k) i c xs ys)"
    using n(5) by (intro Suc.IH [OF d(2)]) simp_all
  then obtain xs ys where place: "place_of e m (child ?ix) path (Suc k) i c xs ys" by blast
  have "nodes_below e m (child ?ix) \<subseteq> nodes_below d m l" using ix n(2) d(1) by auto
  then show ?case using IH place_step [OF tree n(1-4) place] unfolding d(1) diff_Suc_Suc add_Suc_right add_Suc by blast
qed

end
