(* ===== verification/Ext4_Extent_Divide.thy ===== *)
theory Ext4_Extent_Divide
  imports Ext4_Extent_Subtree
begin

text \<open>
  Dividing full nodes: \<open>ext4_ext_split_node\<close> moves what lies behind the path to new nodes, level by level, and
  the tree with the new nodes has the extents it had before.
\<close>

section \<open>The number of entries of a node\<close>

lemma entries_word: "node_ok d n \<Longrightarrow> eh_entries (n_hdr n) = of_int (int (length (entries_of n)))"
  by (simp add: node_ok_length)

lemma sint_count: "0 \<le> x \<Longrightarrow> x < 2 ^ 15 \<Longrightarrow> sint (of_int x :: u16) = x"
  by (simp add: int_word_sint)

lemma node_bound: "node_ok d n \<Longrightarrow> int (length (entries_of n)) < 2 ^ 15 \<and> length (entries_of n) \<le> length (n_slots n)"
  using sint_lt [of "eh_max (n_hdr n)"] by (auto simp: node_ok_def node_ok_length [of d] entries_of_def)

text \<open>A node whose count is set: its entries are the first slots.\<close>

lemma counted_node:
  assumes "node_ok d n" "int k \<le> sint (eh_max (n_hdr n))" "length S = length (n_slots n)"
  shows "node_ok d (n\<lparr>n_hdr := (n_hdr n)\<lparr>eh_entries := of_int (int k)\<rparr>, n_slots := S\<rparr>)"
    "entries_of (n\<lparr>n_hdr := (n_hdr n)\<lparr>eh_entries := of_int (int k)\<rparr>, n_slots := S\<rparr>) = take k S"
proof -
  have "int k < 2 ^ 15" using assms(2) sint_lt [of "eh_max (n_hdr n)"] by simp
  then have k: "sint (of_int (int k) :: u16) = int k" by (intro sint_count) simp_all
  show "node_ok d (n\<lparr>n_hdr := (n_hdr n)\<lparr>eh_entries := of_int (int k)\<rparr>, n_slots := S\<rparr>)"
    using assms k unfolding node_ok_def by simp
  show "entries_of (n\<lparr>n_hdr := (n_hdr n)\<lparr>eh_entries := of_int (int k)\<rparr>, n_slots := S\<rparr>) = take k S"
    using k unfolding entries_of_def by simp
qed

definition full_node :: "ext4_node \<Rightarrow> bool" where
  "full_node n \<longleftrightarrow> \<not> EXT_HAS_FREE_INDEX (n_hdr n)"

lemma full_length: "node_ok d n \<Longrightarrow> full_node n \<longleftrightarrow> int (length (entries_of n)) = sint (eh_max (n_hdr n))"
  by (auto simp: full_node_def EXT_HAS_FREE_INDEX_def endian_defs node_ok_length node_ok_def)

lemma copy_slots_nat:
  "a + m \<le> length (n_slots src) \<Longrightarrow> t + m \<le> length (n_slots n) \<Longrightarrow> copy_slots src (int a) (int t) (int m) n
   = Some (n\<lparr>n_slots := take t (n_slots n) @ take m (drop a (n_slots src)) @ drop (t + m) (n_slots n)\<rparr>)"
  by (simp add: copy_slots_def nat_int_add)

text \<open>What lies behind slot \<open>j\<close> of a full node moves behind the entries of another.\<close>

lemma move_tail_ok:
  assumes old: "node_ok d old" "full_node old" "j < length (entries_of old)"
    and new: "node_ok d new" "length (entries_of new) + (length (entries_of old) - Suc j) \<le> nat (sint (eh_max (n_hdr new)))"
  shows "\<exists>old' new'. move_tail old (int j) (int (length (entries_of new))) new = Some (old', new')
     \<and> node_ok d old' \<and> entries_of old' = take (Suc j) (entries_of old) \<and> eh_max (n_hdr old') = eh_max (n_hdr old)
     \<and> node_ok d new' \<and> entries_of new' = entries_of new @ drop (Suc j) (entries_of old) \<and> eh_max (n_hdr new') = eh_max (n_hdr new)
     \<and> n_slots old' = n_slots old"
proof -
  let ?es = "entries_of old" and ?t = "length (entries_of new)"
  obtain m where m: "length ?es = Suc j + m" using old(3) less_iff_Suc_add by auto
  have max: "EXT_MAX (n_hdr old) - int j = int m"
    using full_length [OF old(1)] old(2) m by (simp add: ext_pos_defs endian_defs)
  show ?thesis
  proof (cases "m = 0")
    case True
    then have "take (Suc j) ?es = ?es" "drop (Suc j) ?es = []" using m by simp_all
    then show ?thesis using max True old(1) new(1) by (intro exI [of _ old] exI [of _ new]) (simp add: move_tail_def)
  next
    case False
    define S where "S = take ?t (n_slots new) @ take m (drop (Suc j) (n_slots old)) @ drop (?t + m) (n_slots new)"
    define old' where "old' = old\<lparr>n_hdr := (n_hdr old)\<lparr>eh_entries := of_int (int (Suc j))\<rparr>, n_slots := n_slots old\<rparr>"
    define new' where "new' = new\<lparr>n_hdr := (n_hdr new)\<lparr>eh_entries := of_int (int (?t + m))\<rparr>, n_slots := S\<rparr>"
    have bounds: "length ?es \<le> length (n_slots old)" "?t \<le> length (n_slots new)" "?t + m \<le> length (n_slots new)"
      using node_bound [OF old(1)] node_bound [OF new(1)] new m by (auto simp: node_ok_def)
    have tail: "take m (drop (Suc j) (n_slots old)) = drop (Suc j) ?es"
    proof -
      have "nat (sint (eh_entries (n_hdr old))) = Suc j + m" using m node_ok_length [OF old(1)] by simp
      then show ?thesis by (simp add: entries_of_def drop_take)
    qed
    have head: "take ?t (n_slots new) = entries_of new" using node_bound [OF new(1)] by (simp add: entries_of_def min_def)
    have S: "length S = length (n_slots new)" using bounds m by (simp add: S_def)
    have "copy_slots old (int (Suc j)) (int ?t) (int m) new = Some (new\<lparr>n_slots := S\<rparr>)"
      using bounds m unfolding S_def by (intro copy_slots_nat) simp_all
    then have copy: "copy_slots old (int j + 1) (int ?t) (int m) new = Some (new\<lparr>n_slots := S\<rparr>)" by (simp only: of_nat_Suc add.commute)
    have "eh_entries (n_hdr old) + of_int (- int m) = (of_int (int (Suc j)) :: u16)"
      unfolding entries_word [OF old(1)] m by simp
    then have a1: "add_entries (- int m) old = old'" by (simp add: add_entries_def set_entries_def endian_defs old'_def)
    have a2: "add_entries (int m) (new\<lparr>n_slots := S\<rparr>) = new'"
      using entries_word [OF new(1)] by (simp add: add_entries_def set_entries_def endian_defs new'_def)
    have "int (Suc j) \<le> sint (eh_max (n_hdr old))" "int (?t + m) \<le> sint (eh_max (n_hdr new))"
      using full_length [OF old(1)] old(2) m new by (auto simp: node_ok_def)
    note n' = counted_node [OF old(1) this(1) refl, folded old'_def] counted_node [OF new(1) this(2) S, folded new'_def]
    have "take (Suc j) (n_slots old) = take (Suc j) ?es" using old(3) by (auto simp: entries_of_def min_def split: if_splits)
    moreover have "length (drop (Suc j) ?es) = m" using m by simp
    then have "take (?t + m) S = entries_of new @ drop (Suc j) ?es" unfolding S_def tail head by simp
    moreover have "move_tail old (int j) (int ?t) new = Some (old', new')"
      unfolding move_tail_def max Let_def using False copy a1 a2 by simp
    ultimately show ?thesis using n' by (intro exI [of _ old'] exI [of _ new']) (simp add: old'_def new'_def)
  qed
qed

section \<open>New blocks\<close>

text \<open>
  The block layer: marking a block dirty and releasing a block change no node, releasing clears \<open>lb_id\<close>, and a block that is taken
  without being read becomes a node with as many slots as a block has room for.
\<close>

definition block_buffers_ok :: "'w ext4_env \<Rightarrow> bool" where
  "block_buffers_ok env \<longleftrightarrow> dirty_marks_only env
     \<and> (\<forall>b s. \<exists>s'. ext4_block_set env b s = (EOK, 0, s') \<and> nodes s' = nodes s)
     \<and> (\<forall>b s. \<exists>n s'. ext4_trans_block_get_noread env b 0 s = (EOK, b, s') \<and> nodes s' = (nodes s)(Blk b \<mapsto> n)
          \<and> int (length (n_slots n)) = sint (ext4_ext_space_block env))"

text \<open>
  \<open>F\<close> says which blocks are free.  The allocator hands out one of them as long as there is one, and takes it from them; nothing else
  that is called takes or frees one.  All of them can be stored in an entry.
\<close>

definition gives_blocks :: "'w ext4_env \<Rightarrow> ('w \<Rightarrow> ext4_fsblk_t set) \<Rightarrow> bool" where
  "gives_blocks env F \<longleftrightarrow> (\<forall>w. \<forall>b \<in> F w. b \<noteq> 0 \<and> storable b)
     \<and> (\<forall>goal s. F (world s) \<noteq> {} \<longrightarrow> (\<exists>b s'. ext4_balloc_alloc_block env goal 0 s = (EOK, b, s') \<and> b \<in> F (world s)
          \<and> F (world s') = F (world s) - {b} \<and> nodes s' = nodes s))
     \<and> (\<forall>b s. F (world (ext4_trans_set_block_dirty env b s)) = F (world s)
          \<and> F (world (snd (snd (ext4_block_set env b s)))) = F (world s)
          \<and> F (world (snd (snd (ext4_trans_block_get_noread env b 0 s)))) = F (world s)
          \<and> (\<forall>lb. F (world (snd (snd (ext4_trans_block_get env b lb s)))) = F (world s)))"

text \<open>The free blocks hold no node, and \<open>b\<close> is one of them.\<close>

definition free_block :: "('w \<Rightarrow> ext4_fsblk_t set) \<Rightarrow> 'w ext4_state \<Rightarrow> ext4_fsblk_t \<Rightarrow> bool" where
  "free_block F s b \<longleftrightarrow> b \<in> F (world s) \<and> (\<forall>b' \<in> F (world s). nodes s (Blk b') = None)"

lemma allocated:
  assumes "gives_blocks env F" "free_block F s b0"
  obtains b s1 where "ext4_balloc_alloc_block env goal 0 s = (EOK, b, s1)" "free_block F s b" "nodes s1 = nodes s"
    "F (world s1) = F (world s) - {b}" "b \<noteq> 0" "storable b" "nodes s (Blk b) = None"
proof -
  note gives = assms(1) [unfolded gives_blocks_def]
  have "F (world s) \<noteq> {}" using assms(2) by (auto simp: free_block_def)
  from gives [THEN conjunct2, THEN conjunct1, rule_format, OF this, of goal] obtain b s1 where
    b: "ext4_balloc_alloc_block env goal 0 s = (EOK, b, s1)" "b \<in> F (world s)" "F (world s1) = F (world s) - {b}" "nodes s1 = nodes s"
    by (elim exE conjE)
  have "b \<noteq> 0" "storable b" using gives [THEN conjunct1, rule_format, OF b(2)] by simp_all
  moreover have "free_block F s b" "nodes s (Blk b) = None" using assms(2) b(2) by (simp_all add: free_block_def)
  ultimately show ?thesis using that [OF b(1)] b(3,4) by simp
qed

lemma taken_block:
  assumes "block_buffers_ok env" "gives_blocks env F"
  obtains n s2 where "ext4_trans_block_get_noread env b 0 s1 = (EOK, b, s2)" "nodes s2 = (nodes s1)(Blk b \<mapsto> n)"
    "int (length (n_slots n)) = sint (ext4_ext_space_block env)" "F (world s2) = F (world s1)"
proof -
  obtain n s2 where "ext4_trans_block_get_noread env b 0 s1 = (EOK, b, s2)" "nodes s2 = (nodes s1)(Blk b \<mapsto> n)"
    "int (length (n_slots n)) = sint (ext4_ext_space_block env)" using assms(1) unfolding block_buffers_ok_def by blast
  moreover have "F (world (snd (snd (ext4_trans_block_get_noread env b 0 s1)))) = F (world s1)"
    using assms(2) unfolding gives_blocks_def by blast
  ultimately show ?thesis using that by simp
qed

lemma new_block:
  assumes "block_buffers_ok env" "gives_blocks env F" "free_block F s b0" "ext4_ext_find_goal env (Some path) (e_block newext) s = Some goal"
  obtains b s1 s2 n where "ext4_ext_new_meta_block env (Some path) newext s = Some (b, EOK, s1)"
    "ext4_trans_block_get_noread env b 0 s1 = (EOK, b, s2)" "nodes s2 = (nodes s)(Blk b \<mapsto> n)"
    "int (length (n_slots n)) = sint (ext4_ext_space_block env)" "free_block F s b" "b \<noteq> 0" "storable b"
    "F (world s2) = F (world s) - {b}" "nodes s (Blk b) = None"
proof -
  obtain b s1 where b: "ext4_balloc_alloc_block env goal 0 s = (EOK, b, s1)" "free_block F s b" "nodes s1 = nodes s"
    "F (world s1) = F (world s) - {b}" "b \<noteq> 0" "storable b" "nodes s (Blk b) = None" by (rule allocated [OF assms(2,3)])
  obtain n s2 where n: "ext4_trans_block_get_noread env b 0 s1 = (EOK, b, s2)" "nodes s2 = (nodes s1)(Blk b \<mapsto> n)"
    "int (length (n_slots n)) = sint (ext4_ext_space_block env)" "F (world s2) = F (world s1)" by (rule taken_block [OF assms(1,2)])
  have "ext4_ext_new_meta_block env (Some path) newext s = Some (b, EOK, s1)"
    using assms(4) b(1) by (simp add: ext4_ext_new_meta_block_def ext4_new_meta_blocks_def ext4_allocate_single_block_def endian_defs)
  from that [OF this n(1)] show ?thesis using b n by simp
qed

text \<open>The header of a new block.\<close>

lemma init_header_ok:
  assumes "int (length (n_slots n)) = sint (ext4_ext_space_block env)" "0 < sint (ext4_ext_space_block env)" "h < depth"
  defines "n' \<equiv> ext4_ext_init_header env depth h n"
  shows "node_ok h n'" "entries_of n' = []" "eh_max (n_hdr n') = ext4_ext_space_block env" "n_slots n' = n_slots n"
proof -
  have "ext4_ext_max_entries env depth h = ext4_ext_space_block env"
    using assms(3) by (simp add: ext4_ext_max_entries_def ext4_ext_space_block_def ext4_ext_space_block_idx_def)
  then show max: "eh_max (n_hdr n') = ext4_ext_space_block env" by (simp add: n'_def ext4_ext_init_header_def endian_defs)
  show slots: "n_slots n' = n_slots n" by (simp add: n'_def ext4_ext_init_header_def)
  have "ext4_ext_space_block env \<noteq> 0" using assms(2) by auto
  then show "node_ok h n'" using assms(1) max slots
    by (simp add: node_ok_def) (simp add: n'_def ext4_ext_init_header_def)
  show "entries_of n' = []" by (simp add: entries_of_def n'_def ext4_ext_init_header_def)
qed

section \<open>One level\<close>

text \<open>What one level of the split has done: node \<open>l\<close> has kept \<open>left\<close>, the new block \<open>b\<close> has \<open>right\<close>.\<close>

definition level_split :: "'w ext4_env \<Rightarrow> ('w \<Rightarrow> ext4_fsblk_t set) \<Rightarrow> nat \<Rightarrow> 'w ext4_state \<Rightarrow> loc \<Rightarrow> ext4_node \<Rightarrow> ext4_entry list \<Rightarrow>
    ext4_entry list \<Rightarrow> ext4_extent_path \<Rightarrow> ext4_fsblk_t \<Rightarrow> 'w ext4_state \<Rightarrow> bool" where
  "level_split env F h s l n left right q b s' \<longleftrightarrow> free_block F s b \<and> b \<noteq> 0 \<and> storable b \<and> F (world s') = F (world s) - {b}
     \<and> (\<exists>n' nq. nodes s' = (nodes s)(l \<mapsto> n', Blk b \<mapsto> nq) \<and> node_ok h n' \<and> entries_of n' = left \<and> eh_max (n_hdr n') = eh_max (n_hdr n)
          \<and> n_slots n' = n_slots n \<and> node_ok h nq \<and> entries_of nq = right \<and> eh_max (n_hdr nq) = ext4_ext_space_block env)
     \<and> p_lb_id q = b \<and> p_header q = Some (Blk b)"

lemma dirty_pair:
  assumes "dirty_marks_only env"
  obtains s' where "ext4_ext_dirty env p s = (EOK, s')" "nodes s' = nodes s"
  using that dirty_nodes(1) [OF assms, of p s] dirty_nodes(2) [of env p s] by (metis prod.collapse)

lemma dirty_free: "gives_blocks env F \<Longrightarrow> F (world (snd (ext4_ext_dirty env p s))) = F (world s)"
  by (simp add: ext4_ext_dirty_def gives_blocks_def)

lemma set_dirty_free: "gives_blocks env F \<Longrightarrow> F (world (ext4_trans_set_block_dirty env b s)) = F (world s)"
  by (simp add: gives_blocks_def)

lemma split_leaf:
  assumes env: "block_buffers_ok env" "gives_blocks env F" "free_block F s b0" "ext4_ext_find_goal env (Some path) (e_block newext) s = Some goal"
    and at: "0 < at" "at \<le> d" "d - at < length npath"
    and p: "path_at path d = Some p" "p_header p = Some l" "nodes s l = Some n" "p_extent p = Some (int j)"
    and n: "node_ok 0 n" "full_node n" "j < length (entries_of n)"
    and space: "int (length (entries_of n)) \<le> sint (ext4_ext_space_block env)"
  shows "\<exists>b q s'. split_level env d at K newext d path npath s = Some (EOK, b, npath[d - at := q], s')
     \<and> level_split env F 0 s l n (take (Suc j) (entries_of n)) (drop (Suc j) (entries_of n)) q b s'
     \<and> p_extent q = (if drop (Suc j) (entries_of n) = [] then None else Some 0)"
proof -
  obtain b s1 s2 n0 where b: "ext4_ext_new_meta_block env (Some path) newext s = Some (b, EOK, s1)"
    "ext4_trans_block_get_noread env b 0 s1 = (EOK, b, s2)" "nodes s2 = (nodes s)(Blk b \<mapsto> n0)"
    "int (length (n_slots n0)) = sint (ext4_ext_space_block env)" "free_block F s b" "b \<noteq> 0" "storable b"
    "F (world s2) = F (world s) - {b}" "nodes s (Blk b) = None"
    by (rule new_block [OF env])
  have ne: "l \<noteq> Blk b" using b(9) p(3) by auto
  have "0 < sint (ext4_ext_space_block env)" using space n(3) by simp
  note new = init_header_ok [OF b(4) this, of 0 d]
  let ?n1 = "ext4_ext_init_header env d 0 n0"
  have "\<exists>old' new'. move_tail n (int j) (int (length (entries_of ?n1))) ?n1 = Some (old', new')
     \<and> node_ok 0 old' \<and> entries_of old' = take (Suc j) (entries_of n) \<and> eh_max (n_hdr old') = eh_max (n_hdr n)
     \<and> node_ok 0 new' \<and> entries_of new' = entries_of ?n1 @ drop (Suc j) (entries_of n) \<and> eh_max (n_hdr new') = eh_max (n_hdr ?n1)
     \<and> n_slots old' = n_slots n"
    using new at space by (intro move_tail_ok n) simp_all
  then obtain old' new' where mv: "move_tail n (int j) 0 ?n1 = Some (old', new')" "node_ok 0 old'"
    "entries_of old' = take (Suc j) (entries_of n)" "eh_max (n_hdr old') = eh_max (n_hdr n)" "node_ok 0 new'"
    "entries_of new' = drop (Suc j) (entries_of n)" "eh_max (n_hdr new') = ext4_ext_space_block env" "n_slots old' = n_slots n"
    using new at by auto
  let ?m = "EXT_MAX (n_hdr n) - int j"
  have m: "?m \<noteq> 0 \<longleftrightarrow> drop (Suc j) (entries_of n) \<noteq> []"
    using full_length [OF n(1)] n(2,3) by (auto simp: ext_pos_defs endian_defs)
  have first: "slot new' 0 = Some (hd (entries_of new'))" if "drop (Suc j) (entries_of n) \<noteq> []"
    using that entries_nonempty_slot(1) [of new'] mv(6) by simp
  let ?s3 = "put_node (Blk b) new' (put_node l old' s2)"
  have dm: "dirty_marks_only env" using env(1) by (simp add: block_buffers_ok_def)
  obtain sd where sd: "ext4_ext_dirty env p ?s3 = (EOK, sd)" "nodes sd = nodes ?s3" by (rule dirty_pair [OF dm])
  have free: "F (world sd) = F (world s) - {b}" using dirty_free [OF env(2), of p ?s3] sd(1) b(8) by (simp add: put_node_def)
  let ?s4 = "if ?m \<noteq> 0 then sd else ?s3"
  let ?fst = "if ?m \<noteq> 0 then Some (hd (entries_of new')) else None"
  let ?q = "\<lparr>p_block = (case ?fst of None \<Rightarrow> 0 | Some e \<Rightarrow> ext4_ext_pblk e), p_lb_id = b,
     p_depth = sint (le16_to_cpu (eh_depth (n_hdr new'))), p_maxdepth = 0, p_header = Some (Blk b), p_index = None,
     p_extent = map_option (\<lambda>_. 0) ?fst\<rparr>"
  let ?s' = "ext4_trans_set_block_dirty env b ?s4"
  have "split_level env d at K newext d path npath s = Some (EOK, b, npath[d - at := ?q], ?s')"
    using b(1,2,3) p ne mv(1) m first at(3) sd(1)
    by (cases "?m = 0") (simp_all add: split_level_def Let_def)
  moreover have "nodes ?s' = (nodes s)(l \<mapsto> old', Blk b \<mapsto> new')"
    using b(3) ne sd(2) dm by (auto simp: dirty_marks_only_def put_node_def)
  moreover have "F (world ?s') = F (world s) - {b}"
    using free b(8) by (simp add: set_dirty_free [OF env(2)] put_node_def)
  ultimately show ?thesis
    using b(5-7) mv m by (intro exI [of _ b] exI [of _ ?q] exI [of _ ?s'] conjI) (auto simp: level_split_def)
qed

lemma index_parts:
  assumes "storable b"
  shows "ext4_idx_pblk (ext4_idx_store_pblk b (e\<lparr>e_block := K\<rparr>)) = b" "e_block (ext4_idx_store_pblk b (e\<lparr>e_block := K\<rparr>)) = K"
  using join_pblk_parts [of b] assms by (simp_all add: storable_def pblk_accessors)

lemma split_inner:
  assumes env: "block_buffers_ok env" "gives_blocks env F" "free_block F s b0" "ext4_ext_find_goal env (Some path) (e_block newext) s = Some goal"
    and at: "0 < at" "at \<le> i" "i < d" "Suc (i - at) < length npath"
    and p: "path_at path i = Some p" "p_header p = Some l" "nodes s l = Some n" "p_index p = Some (int j)"
    and n: "node_ok (d - i) n" "full_node n" "j < length (entries_of n)"
    and space: "int (length (entries_of n)) \<le> sint (ext4_ext_space_block env)" and below: "storable (p_lb_id (npath ! Suc (i - at)))"
  shows "\<exists>b q s' ix. split_level env d at K newext i path npath s = Some (EOK, b, npath[i - at := q], s')
     \<and> level_split env F (d - i) s l n (take (Suc j) (entries_of n)) (ix # drop (Suc j) (entries_of n)) q b s'
     \<and> p_index q = Some 0 \<and> e_block ix = K \<and> ext4_idx_pblk ix = p_lb_id (npath ! Suc (i - at))"
proof -
  obtain b s1 s2 n0 where b: "ext4_ext_new_meta_block env (Some path) newext s = Some (b, EOK, s1)"
    "ext4_trans_block_get_noread env b 0 s1 = (EOK, b, s2)" "nodes s2 = (nodes s)(Blk b \<mapsto> n0)"
    "int (length (n_slots n0)) = sint (ext4_ext_space_block env)" "free_block F s b" "b \<noteq> 0" "storable b"
    "F (world s2) = F (world s) - {b}" "nodes s (Blk b) = None"
    by (rule new_block [OF env])
  have ne: "l \<noteq> Blk b" using b(9) p(3) by auto
  have pos: "0 < sint (ext4_ext_space_block env)" using space n(3) by simp
  have "d - i < d" using at by simp
  note new = init_header_ok [OF b(4) pos this]
  let ?n1 = "ext4_ext_init_header env d (d - i) n0"
  have len: "0 < length (n_slots ?n1)" using pos b(4) unfolding new(4) by linarith
  then obtain x r where S: "n_slots ?n1 = x # r" by (cases "n_slots ?n1") auto
  define ix where "ix = ext4_idx_store_pblk (p_lb_id (npath ! Suc (i - at))) (x\<lparr>e_block := K\<rparr>)"
  let ?n2 = "?n1\<lparr>n_hdr := (n_hdr ?n1)\<lparr>eh_entries := of_int (int 1)\<rparr>, n_slots := ix # r\<rparr>"
  have "int 1 \<le> sint (eh_max (n_hdr ?n1))" "length (ix # r) = length (n_slots ?n1)" using pos new(3) S by simp_all
  note n2 = counted_node [OF new(1) this]
  then have n2: "node_ok (d - i) ?n2" "entries_of ?n2 = [ix]" by simp_all
  have "\<exists>old' new'. move_tail n (int j) (int (length (entries_of ?n2))) ?n2 = Some (old', new')
     \<and> node_ok (d - i) old' \<and> entries_of old' = take (Suc j) (entries_of n) \<and> eh_max (n_hdr old') = eh_max (n_hdr n)
     \<and> node_ok (d - i) new' \<and> entries_of new' = entries_of ?n2 @ drop (Suc j) (entries_of n) \<and> eh_max (n_hdr new') = eh_max (n_hdr ?n2)
     \<and> n_slots old' = n_slots n"
    using n(3) space new(3) by (intro move_tail_ok n n2(1)) (unfold n2(2), simp)
  then obtain old' new' where mv: "move_tail n (int j) 1 ?n2 = Some (old', new')" "node_ok (d - i) old'"
    "entries_of old' = take (Suc j) (entries_of n)" "eh_max (n_hdr old') = eh_max (n_hdr n)" "node_ok (d - i) new'"
    "entries_of new' = ix # drop (Suc j) (entries_of n)" "eh_max (n_hdr new') = ext4_ext_space_block env" "n_slots old' = n_slots n"
    using new(3) unfolding n2(2) by auto
  have set0: "set_slot 0 ix ?n1 = Some (?n1\<lparr>n_slots := ix # r\<rparr>)" "slot ?n1 0 = Some x" using S by (simp_all add: set_slot_def slot_def)
  have cnt: "set_entries (cpu_to_le16 1) (?n1\<lparr>n_slots := ix # r\<rparr>) = ?n2" by (simp add: set_entries_def endian_defs)
  have first: "slot new' 0 = Some ix" using entries_nonempty_slot(1) [of new'] mv(6) by simp
  let ?s3 = "put_node (Blk b) new' (put_node l old' s2)"
  have dm: "dirty_marks_only env" using env(1) by (simp add: block_buffers_ok_def)
  obtain sd where sd: "ext4_ext_dirty env p ?s3 = (EOK, sd)" "nodes sd = nodes ?s3" by (rule dirty_pair [OF dm])
  have free: "F (world sd) = F (world s) - {b}" using dirty_free [OF env(2), of p ?s3] sd(1) b(8) by (simp add: put_node_def)
  let ?s4 = "if EXT_MAX (n_hdr n) - int j \<noteq> 0 then sd else ?s3"
  let ?q = "\<lparr>p_block = ext4_idx_pblk ix, p_lb_id = b, p_depth = sint (le16_to_cpu (eh_depth (n_hdr new'))), p_maxdepth = 0,
     p_header = Some (Blk b), p_index = Some 0, p_extent = None\<rparr>"
  let ?s' = "ext4_trans_set_block_dirty env b ?s4"
  have "path_at npath (i - at + 1) = Some (npath ! Suc (i - at))" using at(4) by (simp add: path_at_def)
  then have "split_level env d at K newext i path npath s = Some (EOK, b, npath[i - at := ?q], ?s')"
    using b(1,2,3) p ne mv(1) first at(3) sd(1) set0 cnt
    by (cases "EXT_MAX (n_hdr n) - int j = 0") (simp_all add: split_level_def Let_def ix_def endian_defs)
  moreover have "nodes ?s' = (nodes s)(l \<mapsto> old', Blk b \<mapsto> new')"
    using b(3) ne sd(2) dm by (auto simp: dirty_marks_only_def put_node_def)
  moreover have "e_block ix = K" "ext4_idx_pblk ix = p_lb_id (npath ! Suc (i - at))" unfolding ix_def using index_parts [OF below] by simp_all
  moreover have "F (world ?s') = F (world s) - {b}"
    using free b(8) by (simp add: set_dirty_free [OF env(2)] put_node_def)
  ultimately show ?thesis
    using b(5-7) mv by (intro exI [of _ b] exI [of _ ?q] exI [of _ ?s'] exI [of _ ix] conjI) (auto simp: level_split_def)
qed

section \<open>All levels\<close>

abbreviation frees :: "('w \<Rightarrow> ext4_fsblk_t set) \<Rightarrow> 'w ext4_state \<Rightarrow> ext4_fsblk_t set" where
  "frees F s \<equiv> {b. free_block F s b}"

lemma frees_take:
  assumes "nodes s' = (nodes s)(l \<mapsto> n, Blk b \<mapsto> n')" "nodes s l \<noteq> None" "free_block F s b" "F (world s') = F (world s) - {b}"
  shows "Suc (card (frees F s')) = card (frees F s)"
proof -
  have "\<forall>b' \<in> F (world s). nodes s (Blk b') = None" using assms(3) by (simp add: free_block_def)
  then have "frees F s' = frees F s - {b}" using assms(1,2,4) by (fastforce simp: free_block_def)
  moreover have "b \<in> frees F s" using assms(3) by simp
  ultimately show ?thesis by (metis card_Suc_Diff1 finite)
qed

lemma not_below:
  assumes "tree_ok h m c" "extents_below h m c \<noteq> []" "m l = Some n" "node_ok k n" "h < k" "k < 2 ^ 16"
  shows "l \<notin> nodes_below h m c"
proof
  assume "l \<in> nodes_below h m c"
  then obtain k' where "k' \<le> h" "node_ok k' n" using node_below [OF assms(1,2)] assms(3) by (metis option.inject)
  then show False using node_depth_unique [OF assms(4), of k'] assms(5,6) by simp
qed

lemma path_to_kept:
  "path_to h m path k c leaf \<Longrightarrow> tree_ok h m c \<Longrightarrow> extents_below h m c \<noteq> [] \<Longrightarrow> same_outside L m m' \<Longrightarrow> nodes_below h m c \<inter> L = {} \<Longrightarrow>
   \<forall>k' \<ge> k. path' ! k' = path ! k' \<Longrightarrow> path_to h m' path' k c leaf"
proof (induction h arbitrary: k c)
  case (Suc h)
  from Suc.prems(1) obtain n j where n: "p_header (path ! k) = Some c" "m c = Some n" "j < length (entries_of n)"
    "p_index (path ! k) = Some (int j)" "path_to h m path (Suc k) (child (entries_of n ! j)) leaf" by auto
  have ix: "entries_of n ! j \<in> set (entries_of n)" using n(3) by simp
  have "m' c = Some n" using Suc.prems(4,5) n(2) by (auto simp: same_outside_def)
  moreover have "path_to h m' path' (Suc k) (child (entries_of n ! j)) leaf"
    using Suc.prems(2,4-6) n(2) ix by (intro Suc.IH [OF n(5)]) auto
  ultimately show ?case using n Suc.prems(6) by auto
qed simp

text \<open>
  The part of the tree below node \<open>c\<close> after it has been divided: \<open>c\<close> keeps what lies up to the path, with the leaf cut
  behind slot \<open>j\<close>; the new node \<open>r\<close> has what lies behind it, and stands for \<open>K\<close> as soon as the new leaf \<open>q\<close> has an entry with
  this key.
\<close>

definition good_leaf :: "u32 \<Rightarrow> ext4_node \<Rightarrow> bool" where
  "good_leaf K n \<longleftrightarrow> node_ok 0 n \<and> entries_of n \<noteq> [] \<and> e_block (hd (entries_of n)) = K"

definition halves :: "(loc \<rightharpoonup> ext4_node) \<Rightarrow> nat \<Rightarrow> loc \<Rightarrow> ext4_entry list \<Rightarrow> nat \<Rightarrow> u32 \<Rightarrow> (loc \<rightharpoonup> ext4_node) \<Rightarrow> ext4_fsblk_t \<Rightarrow> ext4_fsblk_t \<Rightarrow>
    ext4_extent_path list \<Rightarrow> nat \<Rightarrow> ext4_extent_path list \<Rightarrow> nat \<Rightarrow> loc \<Rightarrow> bool" where
  "halves m h c es j K t q r np k path i leaf \<longleftrightarrow> (\<exists>xs ys. extents_below h m c = xs @ es @ ys
     \<and> tree_ok h t c \<and> extents_below h t c = xs @ take (Suc j) es \<and> path_to h t path i c leaf \<and> Blk q \<notin> nodes_below h t c
     \<and> (\<forall>n'. good_leaf K n' \<longrightarrow> tree_ok h (t(Blk q \<mapsto> n')) (Blk r) \<and> extents_below h (t(Blk q \<mapsto> n')) (Blk r) = entries_of n' @ ys
          \<and> path_to h (t(Blk q \<mapsto> n')) np k (Blk r) (Blk q)))"

lemma halves_step:
  assumes tree: "tree_ok (Suc h) m l" "ordered (extents_below (Suc h) m l)" "Suc h < 2 ^ 16"
    and n: "m l = Some n" "jj < length (entries_of n)"
    and half: "halves m h (child (entries_of n ! jj)) es j K t q r np (Suc k) path (Suc i) leaf" and es: "es \<noteq> []"
    and at: "p_header (path ! i) = Some l" "p_index (path ! i) = Some (int jj)"
    and t: "same_outside (nodes_below h m (child (entries_of n ! jj))) m t" "m (Blk q) = None" "t (Blk q) \<noteq> None"
    and new: "t' = t(l \<mapsto> n', Blk b \<mapsto> nq)" "t (Blk b) = None" "node_ok (Suc h) n'" "entries_of n' = take (Suc jj) (entries_of n)"
      "node_ok (Suc h) nq" "entries_of nq = ix' # drop (Suc jj) (entries_of n)" "e_block ix' = K" "ext4_idx_pblk ix' = r" "r \<noteq> 0"
    and np: "p_header e = Some (Blk b)" "p_index e = Some 0" "k < length np"
  shows "halves m (Suc h) l es j K t' q b (np[k := e]) k path i leaf"
proof -
  define pre ix post where p: "pre = take jj (entries_of n)" "ix = entries_of n ! jj" "post = drop (Suc jj) (entries_of n)"
  let ?f = "\<lambda>m jx. extents_below h m (child jx)"
  note N = inner_node [OF tree(1) n tree(2,3), folded p]
  note half = half [folded p(2)] and t = t [folded p(2)]
  have ix: "ix \<in> set (entries_of n)" using N(1) by simp
  obtain xs ys where H: "?f m ix = xs @ es @ ys" "tree_ok h t (child ix)" "?f t ix = xs @ take (Suc j) es" "path_to h t path (Suc i) (child ix) leaf" "Blk q \<notin> nodes_below h t (child ix)"
    "\<And>n'. good_leaf K n' \<Longrightarrow> tree_ok h (t(Blk q \<mapsto> n')) (Blk r) \<and> extents_below h (t(Blk q \<mapsto> n')) (Blk r) = entries_of n' @ ys
          \<and> path_to h (t(Blk q \<mapsto> n')) np (Suc k) (Blk r) (Blk q)"
    using half unfolding halves_def by blast
  have tl: "t l = Some n" using t(1) N(3) [OF ix] n(1) by (simp add: same_outside_def)
  then have ne: "l \<noteq> Blk b" "l \<noteq> Blk q" "Blk b \<noteq> Blk q" using new(2) t(2,3) n(1) by auto
  have t': "t' l = Some n'" "t' (Blk b) = Some nq" using new(1) ne by simp_all
  let ?L = "insert l (nodes_below h m (child ix))"
  have out: "same_outside {l} t t'" "same_outside ?L m t'" using t(1) new(1,2) by (auto simp: same_outside_def)
  have side: "?f u jx = ?f m jx \<and> tree_ok h u (child jx) \<and> Blk q \<notin> nodes_below h u (child jx)" if "jx \<in> set pre \<union> set post" "same_outside ?L m u" for jx u
  proof -
    have kid: "jx \<in> set (entries_of n)" using that(1) N(1) by auto
    then have "nodes_below h m (child jx) \<inter> ?L = {}" using N(6) [OF that(1)] N(3) [OF kid] by blast
    note kept = subtree_kept [OF _ _ that(2) this]
    have "Blk q \<notin> nodes_below h m (child jx)" using node_below [of h m "child jx" "Blk q"] N(3) [OF kid] t(2) by auto
    then show ?thesis using kept N(3) [OF kid] by blast
  qed
  have ne_t: "?f t ix \<noteq> []" using H(3) es by simp
  have "l \<notin> nodes_below h t (child ix)" using not_below [OF H(2) ne_t tl N(2)] tree(3) by simp
  then have off: "nodes_below h t (child ix) \<inter> {l} = {}" by blast
  have left: "?f t' ix = xs @ take (Suc j) es" "tree_ok h t' (child ix)" "Blk q \<notin> nodes_below h t' (child ix)"
    using subtree_kept [OF H(2) ne_t out(1) off] H(3,5) by simp_all
  have lp: "path_to h t' path (Suc i) (child ix) leaf" by (rule path_to_kept [OF H(4,2) ne_t out(1) off]) simp
  have "hd (?f t' ix) = hd (?f m ix)" unfolding left(1) H(1) using es by (cases xs; cases es) simp_all
  then have key: "e_block (hd (?f t' ix)) = e_block ix" "?f t' ix \<noteq> []" using N(3) [OF ix] left(1) es by simp_all
  have n': "entries_of n' = pre @ [ix]" using new(4) n(2) by (simp add: p take_Suc_conv_app_nth)
  have eq: "map (?f u) pre = map (?f m) pre" "map (?f u) post = map (?f m) post" if "same_outside ?L m u" for u
    by (intro map_cong refl; use side [OF _ that] in simp)+
  have "Blk q \<notin> nodes_below (Suc h) t' l" using t'(1) n' side [OF _ out(2)] left(3) ne by auto
  moreover have "path_to (Suc h) t' path i l leaf"
  proof -
    have "length pre = jj" using n(2) by (simp add: p(1))
    then have "entries_of n' ! jj = ix" "jj < length (entries_of n')" using n' by (simp_all add: nth_append)
    then show ?thesis using t'(1) at lp by auto
  qed
  moreover have "ext4_idx_pblk jx \<noteq> 0 \<and> tree_ok h t' (child jx) \<and> ?f t' jx \<noteq> [] \<and> e_block (hd (?f t' jx)) = e_block jx"
    if "jx \<in> set (pre @ [ix])" for jx
  proof (cases "jx \<in> set pre")
    case True
    then have "jx \<in> set (entries_of n)" using N(1) by simp
    then show ?thesis using side [OF _ out(2), of jx] True N(3) by simp
  next
    case False
    then have "jx = ix" using that by simp
    then show ?thesis using left(2) key N(3) [OF ix] by simp
  qed
  then have "tree_ok (Suc h) t' l" using t'(1) new(3) n' by auto
  moreover have "extents_below (Suc h) t' l = (concat (map (?f m) pre) @ xs) @ take (Suc j) es"
  proof -
    have "extents_below (Suc h) t' l = concat (map (?f t') pre) @ ?f t' ix" using t'(1) n' by simp
    then show ?thesis unfolding eq(1) [OF out(2)] left(1) by simp
  qed
  moreover have "extents_below (Suc h) m l = (concat (map (?f m) pre) @ xs) @ es @ (ys @ concat (map (?f m) post))"
    unfolding N(5) H(1) by simp
  moreover have "tree_ok (Suc h) (t'(Blk q \<mapsto> nl)) (Blk b) \<and> extents_below (Suc h) (t'(Blk q \<mapsto> nl)) (Blk b) = entries_of nl @ (ys @ concat (map (?f m) post))
      \<and> path_to (Suc h) (t'(Blk q \<mapsto> nl)) (np[k := e]) k (Blk b) (Blk q)" if nl: "good_leaf K nl" for nl
  proof -
    let ?t = "t(Blk q \<mapsto> nl)" and ?t' = "t'(Blk q \<mapsto> nl)"
    note R = H(6) [OF nl]
    have nlne: "extents_below h ?t (Blk r) \<noteq> []" using R nl by (simp add: good_leaf_def)
    have o: "same_outside {l} ?t ?t'" "same_outside ?L m ?t'" using out t(2) by (auto simp: same_outside_def)
    have tl': "?t l = Some n" using tl ne by simp
    have "l \<notin> nodes_below h ?t (Blk r)" by (rule not_below [OF conjunct1 [OF R] nlne tl' N(2) _ tree(3)]) simp
    then have notin: "nodes_below h ?t (Blk r) \<inter> {l} = {}" by blast
    have kid: "child ix' = Blk r" using new(8) by (simp add: child_def)
    have right: "tree_ok h ?t' (child ix')" "?f ?t' ix' = entries_of nl @ ys"
      using subtree_kept [OF _ nlne o(1) notin] R unfolding kid by simp_all
    have at: "?t' (Blk b) = Some nq" using t'(2) ne by simp
    have es': "entries_of nq = ix' # post" using new(6) p by simp
    have "\<forall>jx \<in> set post. ext4_idx_pblk jx \<noteq> 0 \<and> tree_ok h ?t' (child jx) \<and> ?f ?t' jx \<noteq> [] \<and> e_block (hd (?f ?t' jx)) = e_block jx"
    proof
      fix jx assume jx: "jx \<in> set post"
      then have "jx \<in> set (entries_of n)" using N(1) by simp
      then show "ext4_idx_pblk jx \<noteq> 0 \<and> tree_ok h ?t' (child jx) \<and> ?f ?t' jx \<noteq> [] \<and> e_block (hd (?f ?t' jx)) = e_block jx"
        using side [OF _ o(2), of jx] jx N(3) by simp
    qed
    moreover have "ext4_idx_pblk ix' \<noteq> 0 \<and> tree_ok h ?t' (child ix') \<and> ?f ?t' ix' \<noteq> [] \<and> e_block (hd (?f ?t' ix')) = e_block ix'"
      using right new(7-9) nl by (simp add: good_leaf_def)
    ultimately have "tree_ok (Suc h) ?t' (Blk b)" using at new(5) es' by simp
    moreover have "extents_below (Suc h) ?t' (Blk b) = ?f ?t' ix' @ concat (map (?f ?t') post)" using at es' by simp
    moreover have "path_to h ?t' (np[k := e]) (Suc k) (child ix') (Blk q)"
      unfolding kid using R by (intro path_to_kept [OF _ _ nlne o(1) notin]) auto
    then have "path_to (Suc h) ?t' (np[k := e]) k (Blk b) (Blk q)" using at es' np by (auto intro!: exI [of _ nq] exI [of _ 0])
    ultimately show ?thesis unfolding right(2) eq(2) [OF o(2)] by simp
  qed
  ultimately show ?thesis unfolding halves_def
    by (intro exI [of _ "concat (map (?f m) pre) @ xs"] exI [of _ "ys @ concat (map (?f m) post)"] conjI allI impI) simp_all
qed

text \<open>Where a node on the path is.\<close>

lemma path_header: "path_to d m path k l leaf \<Longrightarrow> i \<le> d \<Longrightarrow> \<exists>c. p_header (path ! (k + i)) = Some c"
proof (induction d arbitrary: k l i)
  case (Suc d)
  then obtain n j where n: "p_header (path ! k) = Some l" "path_to d m path (Suc k) (child (entries_of n ! j)) leaf" by auto
  show ?case
  proof (cases i)
    case (Suc i')
    then show ?thesis using Suc.IH [OF n(2), of i'] Suc.prems(2) by simp
  qed (use n in simp)
qed simp

lemma path_level:
  assumes tree: "tree_ok d m Root" "extents_below d m Root \<noteq> []" "ordered (extents_below d m Root)" "d < 2 ^ 16"
    and path: "path_to d m path 0 Root leaf" and i: "i \<le> d"
  obtains c xs ys where "p_header (path ! i) = Some c" "tree_ok (d - i) m c" "extents_below (d - i) m c \<noteq> []"
    "ordered (extents_below (d - i) m c)" "path_to (d - i) m path i c leaf" "place_of d m Root path 0 i c xs ys"
proof -
  obtain c where c: "p_header (path ! (0 + i)) = Some c" using path_header [OF path i] by blast
  from path_context [OF i tree path c] obtain xs ys where ctx: "tree_ok (d - i) m c" "extents_below (d - i) m c \<noteq> []"
    "path_to (d - i) m path (0 + i) c leaf" "place_of d m Root path 0 i c xs ys" by blast
  moreover have "ordered (extents_below (d - i) m c)"
    using tree(3) ctx(4) by (simp add: place_of_def ordered_append)
  ultimately show ?thesis using that c by simp
qed

lemma refs_ok_put: "refs_ok m path \<Longrightarrow> node_ok d n \<Longrightarrow> refs_ok (m(l \<mapsto> n)) path"
  unfolding refs_ok_def by (metis fun_upd_apply)

lemma goal_at_leaf:
  assumes "d < length path" "p_depth (path ! 0) = int d" "p_header (path ! d) = Some leaf" "p_extent (path ! d) = Some (int j)"
    and "nodes t leaf = Some n" "j < length (n_slots n)"
  shows "\<exists>goal. ext4_ext_find_goal env (Some path) b t = Some goal"
proof -
  have "path_at path 0 = Some (path ! 0)" "path_at path d = Some (path ! d)" using assms(1) by (auto simp: path_at_def)
  moreover have "slot n (int j) = Some (n_slots n ! j)" using assms(6) by (simp add: slot_def)
  ultimately show ?thesis using assms(2-5) by (simp add: ext4_ext_find_goal_def entry_at_def node_at_def Let_def)
qed

text \<open>Well-formed nodes stay so.\<close>

definition stay_ok :: "(loc \<rightharpoonup> ext4_node) \<Rightarrow> (loc \<rightharpoonup> ext4_node) \<Rightarrow> bool" where
  "stay_ok m m' \<longleftrightarrow> (\<forall>l n c. m l = Some n \<longrightarrow> node_ok c n \<longrightarrow> (\<exists>n'. m' l = Some n' \<and> node_ok c n'))"

lemma stay_ok_trans: "stay_ok m m' \<Longrightarrow> stay_ok m' m'' \<Longrightarrow> stay_ok m m''"
  unfolding stay_ok_def by metis

lemma stay_ok_put:
  assumes "m l = Some n" "node_ok h n" "node_ok h n'"
  shows "stay_ok m (m(l \<mapsto> n'))"
  using assms unfolding stay_ok_def by (auto simp: node_ok_def)

lemma stay_ok_new: "m (Blk b) = None \<Longrightarrow> stay_ok m (m(Blk b \<mapsto> n))"
  unfolding stay_ok_def by auto

lemma stay_ok_refs: "stay_ok m m' \<Longrightarrow> refs_ok m path \<Longrightarrow> refs_ok m' path"
  unfolding stay_ok_def refs_ok_def by metis

text \<open>What holds when the levels from \<open>i\<close> down have been split.\<close>

definition split_inv :: "'w ext4_env \<Rightarrow> ('w \<Rightarrow> ext4_fsblk_t set) \<Rightarrow> nat \<Rightarrow> nat \<Rightarrow> ext4_extent_path list \<Rightarrow> loc \<Rightarrow> ext4_node \<Rightarrow> nat \<Rightarrow> u32 \<Rightarrow>
    'w ext4_state \<Rightarrow> nat \<Rightarrow> 'w ext4_state \<Rightarrow> ext4_extent_path list \<Rightarrow> ext4_fsblk_t \<Rightarrow> bool" where
  "split_inv env F at d path leaf n j K s i t np q \<longleftrightarrow> length np = Suc d - at
     \<and> (\<exists>c. p_header (path ! i) = Some c \<and> same_outside (nodes_below (d - i) (nodes s) c) (nodes s) (nodes t)
         \<and> halves (nodes s) (d - i) c (entries_of n) j K (nodes t) q (p_lb_id (np ! (i - at))) np (i - at) path i leaf)
     \<and> (\<forall>k. i - at \<le> k \<longrightarrow> k < Suc d - at \<longrightarrow> p_lb_id (np ! k) \<noteq> 0 \<and> storable (p_lb_id (np ! k)))
     \<and> free_block F s q
     \<and> (\<exists>nq. nodes t (Blk q) = Some nq \<and> node_ok 0 nq \<and> entries_of nq = drop (Suc j) (entries_of n)
         \<and> eh_max (n_hdr nq) = ext4_ext_space_block env)
     \<and> (\<exists>nl. nodes t leaf = Some nl \<and> node_ok 0 nl \<and> entries_of nl = take (Suc j) (entries_of n)
         \<and> eh_max (n_hdr nl) = eh_max (n_hdr n) \<and> n_slots nl = n_slots n)
     \<and> card (frees F s) \<le> card (frees F t) + Suc (d - i) \<and> refs_ok (nodes t) np \<and> stay_ok (nodes s) (nodes t)
     \<and> p_extent (np ! (d - at)) = (if drop (Suc j) (entries_of n) = [] then None else Some 0) \<and> p_header (np ! (d - at)) = Some (Blk q)"

lemma split_first:
  assumes env: "block_buffers_ok env" "gives_blocks env F" "frees F s \<noteq> {}"
    and path: "d < length path" "p_depth (path ! 0) = int d" "p_header (path ! d) = Some leaf" "p_extent (path ! d) = Some (int j)"
    and n: "nodes s leaf = Some n" "node_ok 0 n" "full_node n" "j < length (entries_of n)" "int (length (entries_of n)) \<le> sint (ext4_ext_space_block env)"
    and at: "0 < at" "at \<le> d" and np: "length np = Suc d - at" "refs_ok (nodes s) np"
  shows "\<exists>t np' q. split_loop env d at K newext (Suc d - at) path np s = split_loop env d at K newext (d - at) path np' t
     \<and> split_inv env F at d path leaf n j K s d t np' q"
proof -
  obtain b0 where b0: "free_block F s b0" using env(3) by blast
  have slots: "j < length (n_slots n)" using n(4) node_bound [OF n(2)] by simp
  obtain goal where goal: "ext4_ext_find_goal env (Some path) (e_block newext) s = Some goal"
    using goal_at_leaf [OF path n(1) slots] by blast
  have "d - at < length np" "path_at path d = Some (path ! d)" using np(1) at path(1) by (simp_all add: path_at_def)
  from split_leaf [OF env(1,2) b0 goal at this path(3) n(1) path(4) n(2-5)] obtain b q t where
    lev: "split_level env d at K newext d path np s = Some (EOK, b, np[d - at := q], t)"
    "level_split env F 0 s leaf n (take (Suc j) (entries_of n)) (drop (Suc j) (entries_of n)) q b t"
    "p_extent q = (if drop (Suc j) (entries_of n) = [] then None else Some 0)" by blast
  then have free: "F (world t) = F (world s) - {b}" by (simp add: level_split_def)
  obtain n' nq where L: "free_block F s b" "b \<noteq> 0" "storable b" "nodes t = (nodes s)(leaf \<mapsto> n', Blk b \<mapsto> nq)"
    "node_ok 0 n'" "entries_of n' = take (Suc j) (entries_of n)" "eh_max (n_hdr n') = eh_max (n_hdr n)" "n_slots n' = n_slots n"
    "node_ok 0 nq" "entries_of nq = drop (Suc j) (entries_of n)" "eh_max (n_hdr nq) = ext4_ext_space_block env"
    "p_lb_id q = b" "p_header q = Some (Blk b)" using lev(2) unfolding level_split_def by blast
  let ?np = "np[d - at := q]"
  have q: "?np ! (d - at) = q" using np(1) at by simp
  have ne: "leaf \<noteq> Blk b" using L(1) n(1) by (auto simp: free_block_def)
  have "halves (nodes s) 0 leaf (entries_of n) j K (nodes t) b b ?np (d - at) path d leaf"
    unfolding halves_def using n(1) L(4-6,13) ne q path(3) by (intro exI [of _ "[]"]) (auto simp: good_leaf_def)
  moreover have "same_outside {leaf} (nodes s) (nodes t)" using L(1,4) by (auto simp: same_outside_def free_block_def)
  moreover have "Suc (card (frees F t)) = card (frees F s)" using frees_take [OF L(4) _ L(1) free] n(1) by simp
  moreover have "refs_ok (nodes t) np" unfolding L(4) by (intro refs_ok_put [OF refs_ok_put [OF np(2) L(5)] L(9)])
  then have "refs_ok (nodes t) ?np" using L(4,9,12,13) by (intro refs_ok_update) auto
  moreover have "stay_ok (nodes s) (nodes t)"
    unfolding L(4) using L(1) ne by (intro stay_ok_trans [OF stay_ok_put [where m = "nodes s" and l = leaf, OF n(1,2) L(5)] stay_ok_new]) (simp add: free_block_def)
  moreover have "p_lb_id (?np ! k) \<noteq> 0 \<and> storable (p_lb_id (?np ! k))" if "d - at \<le> k" "k < Suc d - at" for k
  proof -
    have "k = d - at" using that by simp
    then show ?thesis using q L(2,3,12) by simp
  qed
  ultimately have "split_inv env F at d path leaf n j K s d t ?np b"
    unfolding split_inv_def using np(1) path(3) q L lev(3) ne by simp
  moreover have "split_loop env d at K newext (Suc d - at) path np s = split_loop env d at K newext (d - at) path ?np t"
    using lev(1) at by (simp add: Suc_diff_le)
  ultimately show ?thesis by blast
qed

definition full_from :: "'w ext4_env \<Rightarrow> nat \<Rightarrow> nat \<Rightarrow> ext4_extent_path list \<Rightarrow> (loc \<rightharpoonup> ext4_node) \<Rightarrow> bool" where
  "full_from env at d path m \<longleftrightarrow> (\<forall>i. at \<le> i \<longrightarrow> i \<le> d \<longrightarrow> (\<exists>l n. p_header (path ! i) = Some l \<and> m l = Some n \<and> full_node n
     \<and> int (length (entries_of n)) \<le> sint (ext4_ext_space_block env)))"

lemma split_next:
  assumes env: "block_buffers_ok env" "gives_blocks env F" "Suc d - at \<le> card (frees F s)"
    and tree: "tree_ok d (nodes s) Root" "extents_below d (nodes s) Root \<noteq> []" "ordered (extents_below d (nodes s) Root)" "d < 2 ^ 16"
    and path: "path_to d (nodes s) path 0 Root leaf" "d < length path" "p_depth (path ! 0) = int d" "p_extent (path ! d) = Some (int j)"
    and n: "nodes s leaf = Some n" "node_ok 0 n" "j < length (entries_of n)" and full: "full_from env at d path (nodes s)"
    and at: "0 < at" "at \<le> i" "i < d" and inv: "split_inv env F at d path leaf n j K s (Suc i) t np q"
  shows "\<exists>t' np'. split_loop env d at K newext (Suc i - at) path np t = split_loop env d at K newext (i - at) path np' t'
     \<and> split_inv env F at d path leaf n j K s i t' np' q"
proof -
  have idx: "Suc i - at = Suc (i - at)" "d - i = Suc (d - Suc i)" "Suc (d - Suc i) < 2 ^ 16" using at tree(4) by simp_all
  obtain l xs ys where l: "p_header (path ! i) = Some l" "tree_ok (d - i) (nodes s) l" "extents_below (d - i) (nodes s) l \<noteq> []"
    "ordered (extents_below (d - i) (nodes s) l)" "path_to (d - i) (nodes s) path i l leaf"
    using path_level [OF tree path(1), of i] at(3) by (metis less_imp_le_nat)
  obtain N jj where N: "nodes s l = Some N" "jj < length (entries_of N)" "p_index (path ! i) = Some (int jj)"
    "path_to (d - Suc i) (nodes s) path (Suc i) (child (entries_of N ! jj)) leaf"
    using l(5) unfolding idx(2) by auto
  have c: "p_header (path ! Suc i) = Some (child (entries_of N ! jj))" using N(4) by (cases "d - Suc i") auto
  have fullN: "full_node N" "int (length (entries_of N)) \<le> sint (ext4_ext_space_block env)"
    using full l(1) N(1) at by (auto simp: full_from_def)
  note in_node = inner_node [OF l(2) [unfolded idx(2)] N(1,2) l(4) [unfolded idx(2)] idx(3)]
  have kid: "entries_of N ! jj \<in> set (entries_of N)" using N(2) by simp
  let ?c = "child (entries_of N ! jj)" and ?h = "d - Suc i" and ?r = "p_lb_id (np ! Suc (i - at))"
  obtain c' where c': "p_header (path ! Suc i) = Some c'" "same_outside (nodes_below ?h (nodes s) c') (nodes s) (nodes t)"
    "halves (nodes s) ?h c' (entries_of n) j K (nodes t) q ?r np (Suc (i - at)) path (Suc i) leaf"
    using inv unfolding split_inv_def idx(1) by (elim conjE exE)
  then have "c' = ?c" using c by simp
  note c'(2,3) [unfolded this]
  moreover have "length np = Suc d - at"
    "\<forall>k. Suc (i - at) \<le> k \<longrightarrow> k < Suc d - at \<longrightarrow> p_lb_id (np ! k) \<noteq> 0 \<and> storable (p_lb_id (np ! k))" "free_block F s q"
    "card (frees F s) \<le> card (frees F t) + Suc ?h" "refs_ok (nodes t) np" "stay_ok (nodes s) (nodes t)"
    "p_extent (np ! (d - at)) = (if drop (Suc j) (entries_of n) = [] then None else Some 0)" "p_header (np ! (d - at)) = Some (Blk q)"
    using inv unfolding split_inv_def idx(1) by - (elim conjE, assumption)+
  ultimately have I: "length np = Suc d - at" "same_outside (nodes_below ?h (nodes s) ?c) (nodes s) (nodes t)"
    "halves (nodes s) ?h ?c (entries_of n) j K (nodes t) q ?r np (Suc (i - at)) path (Suc i) leaf"
    "\<And>k. Suc (i - at) \<le> k \<Longrightarrow> k < Suc d - at \<Longrightarrow> p_lb_id (np ! k) \<noteq> 0 \<and> storable (p_lb_id (np ! k))" "free_block F s q"
    "card (frees F s) \<le> card (frees F t) + Suc ?h" "refs_ok (nodes t) np" "stay_ok (nodes s) (nodes t)"
    "p_extent (np ! (d - at)) = (if drop (Suc j) (entries_of n) = [] then None else Some 0)" "p_header (np ! (d - at)) = Some (Blk q)"
    by blast+
  obtain nq where nq: "nodes t (Blk q) = Some nq" "node_ok 0 nq" "entries_of nq = drop (Suc j) (entries_of n)" "eh_max (n_hdr nq) = ext4_ext_space_block env"
    using inv unfolding split_inv_def by blast
  obtain nl where nl: "nodes t leaf = Some nl" "node_ok 0 nl" "entries_of nl = take (Suc j) (entries_of n)"
    "eh_max (n_hdr nl) = eh_max (n_hdr n)" "n_slots nl = n_slots n"
    using inv unfolding split_inv_def by blast
  have lnot: "l \<notin> nodes_below ?h (nodes s) ?c" using in_node(3) [OF kid] by simp
  have tl: "nodes t l = Some N" using I(2) lnot N(1) by (simp add: same_outside_def)
  have "0 < card (frees F t)" using I(6) env(3) at by linarith
  then have "frees F t \<noteq> {}" by (simp add: card_gt_0_iff)
  then obtain b0 where b0: "free_block F t b0" by blast
  have leafh: "p_header (path ! d) = Some leaf" using path_to_header [OF path(1)] by simp
  have slots: "j < length (n_slots nl)" using n(3) node_bound [OF n(2)] nl(5) by simp
  obtain goal where goal: "ext4_ext_find_goal env (Some path) (e_block newext) t = Some goal"
    using goal_at_leaf [OF path(2,3) leafh path(4) nl(1) slots] by blast
  have len: "Suc (i - at) < length np" "path_at path i = Some (path ! i)" using I(1) at path(2) by (simp_all add: path_at_def)
  have r: "?r \<noteq> 0" "storable ?r" using I(4) [of "Suc (i - at)"] at by simp_all
  from split_inner [OF env(1,2) b0 goal at len l(1) tl N(3) in_node(2) [folded idx(2)] fullN(1) N(2) fullN(2) r(2)] obtain b e t' ix where
    lev: "split_level env d at K newext i path np t = Some (EOK, b, np[i - at := e], t')"
    "level_split env F (d - i) t l N (take (Suc jj) (entries_of N)) (ix # drop (Suc jj) (entries_of N)) e b t'"
    "p_index e = Some 0" "e_block ix = K" "ext4_idx_pblk ix = ?r" by blast
  then have free: "F (world t') = F (world t) - {b}" by (simp add: level_split_def)
  obtain n' nb where L: "free_block F t b" "b \<noteq> 0" "storable b" "nodes t' = (nodes t)(l \<mapsto> n', Blk b \<mapsto> nb)"
    "node_ok (d - i) n'" "entries_of n' = take (Suc jj) (entries_of N)" "node_ok (d - i) nb" "entries_of nb = ix # drop (Suc jj) (entries_of N)"
    "p_lb_id e = b" "p_header e = Some (Blk b)" using lev(2) unfolding level_split_def by blast
  let ?np = "np[i - at := e]"
  have e: "?np ! (i - at) = e" "\<And>k. i - at < k \<Longrightarrow> ?np ! k = np ! k" using len(1) by simp_all
  have "nodes t (Blk b) = None" "nodes s (Blk q) = None" "entries_of n \<noteq> []" using L(1) I(5) n(3) by (auto simp: free_block_def)
  note halves_step [OF l(2) [unfolded idx(2)] l(4) [unfolded idx(2)] idx(3) N(1,2) I(3) this(3) l(1) N(3) I(2) this(2) _ L(4) this(1)
      L(5) [unfolded idx(2)] L(6) L(7) [unfolded idx(2)] L(8) lev(4,5) r(1) L(10) lev(3)]
  then have half: "halves (nodes s) (d - i) l (entries_of n) j K (nodes t') q b ?np (i - at) path i leaf" using nq(1) len(1) unfolding idx(2) by simp
  have ne: "leaf \<noteq> l" "leaf \<noteq> Blk b" "Blk q \<noteq> l" "q \<noteq> b"
  proof -
    show "leaf \<noteq> l" using leaf_not_inner [OF n(2) _ idx(3)] in_node(2) n(1) N(1) by auto
    show "leaf \<noteq> Blk b" "q \<noteq> b" using nl(1) nq(1) \<open>nodes t (Blk b) = None\<close> by auto
    show "Blk q \<noteq> l" using N(1) \<open>nodes s (Blk q) = None\<close> by auto
  qed
  have "nodes_below ?h (nodes s) ?c \<subseteq> nodes_below (d - i) (nodes s) l" "l \<in> nodes_below (d - i) (nodes s) l"
    using kid N(1) unfolding idx(2) by auto
  then have out: "same_outside (nodes_below (d - i) (nodes s) l) (nodes s) (nodes t')"
    using I(2) L(4) \<open>nodes t (Blk b) = None\<close> unfolding same_outside_def by auto
  have refs: "refs_ok (nodes t') ?np" unfolding L(4)
    by (intro refs_ok_update refs_ok_put [OF refs_ok_put [OF I(7) L(5)] L(7)]) (use L(7,10) in auto)
  have lb: "p_lb_id (?np ! k) \<noteq> 0 \<and> storable (p_lb_id (?np ! k))" if "i - at \<le> k" "k < Suc d - at" for k
    using that L(2,3,9) e I(4) [of k] by (cases "k = i - at") simp_all
  have bl: "Blk b \<noteq> l" using tl \<open>nodes t (Blk b) = None\<close> by auto
  have frees: "Suc (card (frees F t')) = card (frees F t)" using frees_take [OF L(4) _ L(1) free] tl by simp
  have "split_inv env F at d path leaf n j K s i t' ?np q"
    unfolding split_inv_def
  proof (intro conjI)
    show "\<exists>c. p_header (path ! i) = Some c \<and> same_outside (nodes_below (d - i) (nodes s) c) (nodes s) (nodes t')
      \<and> halves (nodes s) (d - i) c (entries_of n) j K (nodes t') q (p_lb_id (?np ! (i - at))) ?np (i - at) path i leaf"
      using l(1) out half e(1) L(9) by simp
    show "\<forall>k. i - at \<le> k \<longrightarrow> k < Suc d - at \<longrightarrow> p_lb_id (?np ! k) \<noteq> 0 \<and> storable (p_lb_id (?np ! k))" using lb by blast
    show "card (frees F s) \<le> card (frees F t') + Suc (d - i)" using I(6) frees unfolding idx(2) by simp
    show "refs_ok (nodes t') ?np" by (rule refs)
    show "stay_ok (nodes s) (nodes t')"
      unfolding L(4) using \<open>nodes t (Blk b) = None\<close> bl
      by (intro stay_ok_trans [OF I(8)] stay_ok_trans [OF stay_ok_put [where m = "nodes t" and l = l, OF tl in_node(2) [folded idx(2)] L(5)] stay_ok_new]) simp
    have "?np ! (d - at) = np ! (d - at)" using at by (intro e(2)) simp
    then show "p_extent (?np ! (d - at)) = (if drop (Suc j) (entries_of n) = [] then None else Some 0)" "p_header (?np ! (d - at)) = Some (Blk q)"
      using I(9,10) by simp_all
  qed (use I(1,5) nq nl ne L(4) in auto)
  moreover have "split_loop env d at K newext (Suc i - at) path np t = split_loop env d at K newext (i - at) path ?np t'"
    using lev(1) at unfolding idx(1) by simp
  ultimately show ?thesis by blast
qed

end
