(* ===== verification/Ext4_Extent_Join.thy ===== *)
theory Ext4_Extent_Join
  imports Ext4_Extent_Divide
begin

text \<open>
  The end of \<open>ext4_ext_split_node\<close>: the node above the divided ones gets an index for the new nodes, and the tree is
  whole again as soon as the new leaf has its first entry.
\<close>

section \<open>All levels\<close>

lemma split_all:
  assumes env: "block_buffers_ok env" "gives_blocks env F" "Suc d - at \<le> card (frees F s)"
    and tree: "tree_ok d (nodes s) Root" "extents_below d (nodes s) Root \<noteq> []" "ordered (extents_below d (nodes s) Root)" "d < 2 ^ 16"
    and path: "path_to d (nodes s) path 0 Root leaf" "d < length path" "p_depth (path ! 0) = int d" "p_extent (path ! d) = Some (int j)"
    and n: "nodes s leaf = Some n" "node_ok 0 n" "j < length (entries_of n)" and full: "full_from env at d path (nodes s)"
    and at: "0 < at" "at \<le> d" and np: "length np = Suc d - at" "refs_ok (nodes s) np"
  shows "\<exists>t np' q. split_loop env d at K newext (Suc d - at) path np s = Some (EOK, 0, np', t)
     \<and> split_inv env F at d path leaf n j K s at t np' q"
proof -
  have leafh: "p_header (path ! d) = Some leaf" using path_to_header [OF path(1)] by simp
  have fulln: "full_node n" "int (length (entries_of n)) \<le> sint (ext4_ext_space_block env)"
    using full at n(1) leafh by (auto simp: full_from_def)
  have "0 < card (frees F s)" using env(3) at by linarith
  then have "frees F s \<noteq> {}" by (simp add: card_gt_0_iff)
  from split_first [OF env(1,2) this path(2,3) leafh path(4) n(1,2) fulln(1) n(3) fulln(2) at np] obtain t1 np1 q1 where
    1: "split_loop env d at K newext (Suc d - at) path np s = split_loop env d at K newext (d - at) path np1 t1"
    "split_inv env F at d path leaf n j K s d t1 np1 q1" by blast
  have "\<exists>t np' q. split_loop env d at K newext (Suc d - at) path np s = split_loop env d at K newext (d - k - at) path np' t
     \<and> split_inv env F at d path leaf n j K s (d - k) t np' q" if "k \<le> d - at" for k
    using that
  proof (induction k)
    case (Suc k)
    then obtain t np' q where IH: "split_loop env d at K newext (Suc d - at) path np s = split_loop env d at K newext (d - k - at) path np' t"
      "split_inv env F at d path leaf n j K s (d - k) t np' q" by auto
    have k: "d - k = Suc (d - Suc k)" "at \<le> d - Suc k" "d - Suc k < d" using Suc.prems at by simp_all
    from split_next [OF env tree path n full at(1) k(2,3) IH(2) [unfolded k(1)]] IH(1) k(1) show ?case by metis
  qed (use 1 in auto)
  from this [of "d - at"] at show ?thesis by simp
qed

section \<open>One index more\<close>

lemma insert_index_ok:
  assumes p: "path_at path i = Some p" "p_header p = Some l" "nodes s l = Some n" "p_index p = Some (int j)"
    and n: "node_ok h n" "\<not> full_node n" "j < length (entries_of n)" and K: "sint (e_block (entries_of n ! j)) < sint K"
    and b: "storable b" and env: "dirty_marks_only env"
  shows "\<exists>s' n' ix. ext4_ext_insert_index env path i K b set_ix s
      = Some (EOK, if set_ix then path[i := p\<lparr>p_index := Some (int (Suc j)), p_block := b\<rparr>] else path[i := p], s')
     \<and> nodes s' = (nodes s)(l \<mapsto> n') \<and> node_ok h n' \<and> entries_of n' = take (Suc j) (entries_of n) @ ix # drop (Suc j) (entries_of n)
     \<and> e_block ix = K \<and> ext4_idx_pblk ix = b"
proof -
  have at: "slot n (int j) = Some (entries_of n ! j)" using node_ok_slot [OF n(1), of "int j"] n(3) by simp
  have room: "sint (eh_entries (n_hdr n)) < sint (eh_max (n_hdr n))" using n(2) by (simp add: full_node_def EXT_HAS_FREE_INDEX_def endian_defs)
  have k: "Suc j \<le> length (entries_of n)" using n(3) by simp
  obtain n1 old where n1: "make_room (int (Suc j)) n = Some n1" "n_hdr n1 = n_hdr n" "slot n1 (int (Suc j)) = Some old"
    "\<And>e. \<exists>n2. set_slot (int (Suc j)) e n1 = Some n2 \<and> n_hdr n2 = n_hdr n \<and>
       (let n3 = set_entries (eh_entries (n_hdr n) + 1) n2 in
          entries_of n3 = take (Suc j) (entries_of n) @ e # drop (Suc j) (entries_of n) \<and> node_ok h n3
          \<and> EXT_LAST (n_hdr n3) = int (length (entries_of n)) \<and> slot n3 (int (Suc j)) = Some e)"
    using insert_at_slot [OF n(1) room k] by blast
  define ix where "ix = ext4_idx_store_pblk b (old\<lparr>e_block := K\<rparr>)"
  note ixp = index_parts [OF b, where e = old and K = K, folded ix_def]
  obtain n2 where n2: "set_slot (int (Suc j)) ix n1 = Some n2" "n_hdr n2 = n_hdr n" and
    n3: "entries_of (set_entries (eh_entries (n_hdr n) + 1) n2) = take (Suc j) (entries_of n) @ ix # drop (Suc j) (entries_of n)"
      "node_ok h (set_entries (eh_entries (n_hdr n) + 1) n2)"
      "EXT_LAST (n_hdr (set_entries (eh_entries (n_hdr n) + 1) n2)) = int (length (entries_of n))"
      "slot (set_entries (eh_entries (n_hdr n) + 1) n2) (int (Suc j)) = Some ix"
    using n1(4) [of ix] by (auto simp: Let_def)
  let ?n3 = "set_entries (eh_entries (n_hdr n) + 1) n2"
  obtain s' where s': "ext4_ext_dirty env p (put_node l ?n3 s) = (EOK, s')" "nodes s' = nodes (put_node l ?n3 s)" by (rule dirty_pair [OF env])
  have ne: "e_block (entries_of n ! j) \<noteq> K" "u32_lt (e_block (entries_of n ! j)) K" using K by auto
  have bounds: "\<not> int (Suc j) > EXT_MAX (n_hdr n)" "\<not> int (Suc j) > int (length (entries_of n))" "eh_entries (n_hdr n) \<noteq> eh_max (n_hdr n)"
    using room k node_ok_length [OF n(1)] by (auto simp: ext_pos_defs endian_defs)
  have suc: "int j + 1 = int (Suc j)" by simp
  note run = ext4_ext_insert_index_def p at node_at_def entry_at_def endian_defs n1(1-3) n2 ix_def [symmetric] n3(3,4) Let_def suc s'(1)
  have "ext4_ext_insert_index env path i K b set_ix s
      = Some (EOK, if set_ix then path[i := p\<lparr>p_index := Some (int (Suc j)), p_block := b\<rparr>] else path[i := p], s')"
    using ne bounds ixp by (simp add: run del: of_nat_Suc)
  then show ?thesis using s'(2) n3(1,2) ixp by (intro exI [of _ s'] exI [of _ ?n3] exI [of _ ix]) (simp add: put_node_def)
qed

lemma path_to_shift:
  "path_to h m np k c leaf \<Longrightarrow> \<forall>a \<le> h. p_header (path ! (i + a)) = p_header (np ! (k + a)) \<and> p_index (path ! (i + a)) = p_index (np ! (k + a)) \<Longrightarrow>
   path_to h m path i c leaf"
proof (induction h arbitrary: i k c)
  case 0
  then show ?case using 0(2) [rule_format, of 0] by simp
next
  case (Suc h)
  from Suc.prems(1) obtain n j where n: "p_header (np ! k) = Some c" "m c = Some n" "j < length (entries_of n)"
    "p_index (np ! k) = Some (int j)" "path_to h m np (Suc k) (child (entries_of n ! j)) leaf" by auto
  have "p_header (path ! (Suc i + a)) = p_header (np ! (Suc k + a)) \<and> p_index (path ! (Suc i + a)) = p_index (np ! (Suc k + a))" if "a \<le> h" for a
    using Suc.prems(2) [rule_format, of "Suc a"] that by simp
  then have "path_to h m path (Suc i) (child (entries_of n ! j)) leaf" using Suc.IH [OF n(5)] by blast
  moreover have "p_header (path ! i) = Some c" "p_index (path ! i) = Some (int j)" using Suc.prems(2) [rule_format, of 0] n(1,4) by simp_all
  ultimately show ?case using n by auto
qed

text \<open>The two halves below one node: the path to the old leaf stays, a path over the new index leads to the new leaf.\<close>

lemma halves_join:
  assumes tree: "tree_ok (Suc h) m l" "ordered (extents_below (Suc h) m l)" "Suc h < 2 ^ 16"
    and n: "m l = Some n" "jj < length (entries_of n)"
    and half: "halves m h (child (entries_of n ! jj)) es j K t q r np k path (Suc i) leaf" and es: "es \<noteq> []"
    and at: "p_header (path ! i) = Some l" "p_index (path ! i) = Some (int jj)"
    and t: "same_outside (nodes_below h m (child (entries_of n ! jj))) m t" "m (Blk q) = None" "t (Blk q) \<noteq> None"
    and new: "t' = t(l \<mapsto> n')" "node_ok (Suc h) n'" "entries_of n' = take (Suc jj) (entries_of n) @ ix' # drop (Suc jj) (entries_of n)"
      "e_block ix' = K" "ext4_idx_pblk ix' = r" "r \<noteq> 0"
  shows "\<exists>xs ys. extents_below (Suc h) m l = xs @ es @ ys
    \<and> (\<forall>nl. good_leaf K nl \<longrightarrow> same_outside (nodes_below (Suc h) m l) m (t'(Blk q \<mapsto> nl)) \<and> tree_ok (Suc h) (t'(Blk q \<mapsto> nl)) l
        \<and> extents_below (Suc h) (t'(Blk q \<mapsto> nl)) l = xs @ take (Suc j) es @ entries_of nl @ ys
        \<and> path_to (Suc h) (t'(Blk q \<mapsto> nl)) path i l leaf
        \<and> (\<forall>path'. p_header (path' ! i) = Some l \<longrightarrow> p_index (path' ! i) = Some (int (Suc jj))
            \<longrightarrow> (\<forall>a \<le> h. p_header (path' ! (Suc i + a)) = p_header (np ! (k + a)) \<and> p_index (path' ! (Suc i + a)) = p_index (np ! (k + a)))
            \<longrightarrow> path_to (Suc h) (t'(Blk q \<mapsto> nl)) path' i l (Blk q)))"
proof -
  define pre ix post where p: "pre = take jj (entries_of n)" "ix = entries_of n ! jj" "post = drop (Suc jj) (entries_of n)"
  let ?f = "\<lambda>m jx. extents_below h m (child jx)"
  note N = inner_node [OF tree(1) n tree(2,3), folded p]
  note half = half [folded p(2)] and t = t [folded p(2)]
  have ix: "ix \<in> set (entries_of n)" using N(1) by simp
  obtain xs ys where H: "?f m ix = xs @ es @ ys" "tree_ok h t (child ix)" "?f t ix = xs @ take (Suc j) es" "path_to h t path (Suc i) (child ix) leaf"
    "Blk q \<notin> nodes_below h t (child ix)"
    "\<And>n'. good_leaf K n' \<Longrightarrow> tree_ok h (t(Blk q \<mapsto> n')) (Blk r) \<and> extents_below h (t(Blk q \<mapsto> n')) (Blk r) = entries_of n' @ ys
          \<and> path_to h (t(Blk q \<mapsto> n')) np k (Blk r) (Blk q)"
    using half unfolding halves_def by blast
  have tl: "t l = Some n" using t(1) N(3) [OF ix] n(1) by (simp add: same_outside_def)
  have ne: "l \<noteq> Blk q" using t(2) n(1) by auto
  have ne_t: "?f t ix \<noteq> []" using H(3) es by simp
  have n': "entries_of n' = pre @ ix # ix' # post" using new(3) n(2) by (simp add: p take_Suc_conv_app_nth)
  have pos: "entries_of n' ! jj = ix" "entries_of n' ! Suc jj = ix'" "Suc jj < length (entries_of n')"
    using n' n(2) by (simp_all add: nth_append p(1))
  have kid: "child ix' = Blk r" using new(5) by (simp add: child_def)
  let ?L = "insert l (nodes_below h m (child ix))"
  let ?xs = "concat (map (?f m) pre) @ xs" and ?ys = "ys @ concat (map (?f m) post)"
  have joined: "same_outside (nodes_below (Suc h) m l) m u \<and> tree_ok (Suc h) u l \<and> extents_below (Suc h) u l = ?xs @ take (Suc j) es @ entries_of nl @ ?ys
      \<and> path_to (Suc h) u path i l leaf
      \<and> (\<forall>path'. p_header (path' ! i) = Some l \<longrightarrow> p_index (path' ! i) = Some (int (Suc jj))
            \<longrightarrow> (\<forall>a \<le> h. p_header (path' ! (Suc i + a)) = p_header (np ! (k + a)) \<and> p_index (path' ! (Suc i + a)) = p_index (np ! (k + a)))
            \<longrightarrow> path_to (Suc h) u path' i l (Blk q))"
    if nl: "good_leaf K nl" and u: "u = t'(Blk q \<mapsto> nl)" for nl u
  proof -
    let ?t = "t(Blk q \<mapsto> nl)"
    have ul: "u l = Some n'" using u new(1) ne by simp
    have o: "same_outside {l} ?t u" "same_outside {l, Blk q} t u" "same_outside ?L m u"
      using t(1,2) new(1) u unfolding same_outside_def by auto
    have side: "?f u jx = ?f m jx \<and> tree_ok h u (child jx)" if "jx \<in> set pre \<union> set post" for jx
    proof -
      have "jx \<in> set (entries_of n)" using that N(1) by auto
      note kid = N(3) [OF this]
      then have "nodes_below h m (child jx) \<inter> ?L = {}" using N(6) [OF that] by blast
      then show ?thesis using subtree_kept [OF _ _ o(3)] kid by blast
    qed
    have eq: "map (?f u) pre = map (?f m) pre" "map (?f u) post = map (?f m) post" by (intro map_cong refl; use side in simp)+
    have "l \<notin> nodes_below h t (child ix)" using not_below [OF H(2) ne_t tl N(2)] tree(3) by simp
    then have off: "nodes_below h t (child ix) \<inter> {l, Blk q} = {}" using H(5) by blast
    have left: "?f u ix = xs @ take (Suc j) es" "tree_ok h u (child ix)" using subtree_kept [OF H(2) ne_t o(2) off] H(3) by simp_all
    have lp: "path_to h u path (Suc i) (child ix) leaf" by (rule path_to_kept [OF H(4,2) ne_t o(2) off]) simp
    have "hd (?f u ix) = hd (?f m ix)" unfolding left(1) H(1) using es by (cases xs; cases es) simp_all
    then have key: "e_block (hd (?f u ix)) = e_block ix" "?f u ix \<noteq> []" using N(3) [OF ix] left(1) es by simp_all
    note R = H(6) [OF nl]
    have nlne: "extents_below h ?t (Blk r) \<noteq> []" using R nl by (simp add: good_leaf_def)
    have tl': "?t l = Some n" using tl ne by simp
    have "l \<notin> nodes_below h ?t (Blk r)" by (rule not_below [OF conjunct1 [OF R] nlne tl' N(2) _ tree(3)]) simp
    then have notin: "nodes_below h ?t (Blk r) \<inter> {l} = {}" by blast
    have right: "tree_ok h u (child ix')" "?f u ix' = entries_of nl @ ys"
      using subtree_kept [OF _ nlne o(1) notin] R unfolding kid by simp_all
    have rp: "path_to h u np k (child ix') (Blk q)" unfolding kid using R by (intro path_to_kept [OF _ _ nlne o(1) notin]) auto
    have "ext4_idx_pblk jx \<noteq> 0 \<and> tree_ok h u (child jx) \<and> ?f u jx \<noteq> [] \<and> e_block (hd (?f u jx)) = e_block jx" if "jx \<in> set (entries_of n')" for jx
    proof -
      consider "jx = ix" | "jx = ix'" | "jx \<in> set pre \<union> set post" using \<open>jx \<in> _\<close> n' by auto
      then show ?thesis
      proof cases
        case 1
        then show ?thesis using left(2) key N(3) [OF ix] by simp
      next
        case 2
        then show ?thesis using right new(4-6) nl by (simp add: good_leaf_def)
      next
        case 3
        then have "jx \<in> set (entries_of n)" using N(1) by auto
        then show ?thesis using side [OF 3] N(3) by simp
      qed
    qed
    then have 1: "tree_ok (Suc h) u l" using ul new(2) n' by auto
    have "extents_below (Suc h) u l = concat (map (?f u) pre) @ ?f u ix @ ?f u ix' @ concat (map (?f u) post)" using ul n' by simp
    then have 2: "extents_below (Suc h) u l = ?xs @ take (Suc j) es @ entries_of nl @ ?ys" unfolding eq left(1) right(2) by simp
    have 3: "path_to (Suc h) u path i l leaf" using ul at pos lp by auto
    have "?L \<subseteq> nodes_below (Suc h) m l" using ix n(1) by auto
    then have 4: "same_outside (nodes_below (Suc h) m l) m u" by (rule same_outside_mono [OF o(3)])
    have "path_to (Suc h) u path' i l (Blk q)" if "p_header (path' ! i) = Some l" "p_index (path' ! i) = Some (int (Suc jj))"
      "\<forall>a \<le> h. p_header (path' ! (Suc i + a)) = p_header (np ! (k + a)) \<and> p_index (path' ! (Suc i + a)) = p_index (np ! (k + a))" for path'
    proof -
      have "path_to h u path' (Suc i) (child ix') (Blk q)" by (rule path_to_shift [OF rp that(3)])
      then show ?thesis using ul that(1,2) pos(2,3) by (auto intro!: exI [of _ n'] exI [of _ "Suc jj"])
    qed
    with 1 2 3 4 show ?thesis by blast
  qed
  have "extents_below (Suc h) m l = ?xs @ es @ ?ys" unfolding N(5) H(1) by simp
  with joined show ?thesis by (intro exI [of _ ?xs] exI [of _ ?ys]) blast
qed

section \<open>The whole split\<close>

lemma inode_depth_ok: "nodes s Root = Some n \<Longrightarrow> node_ok d n \<Longrightarrow> d < 2 ^ 16 \<Longrightarrow> inode_depth s = Some d"
  by (simp add: inode_depth_def ext_depth_def endian_defs node_ok_def unsigned_of_nat take_bit_nat_eq_self)

lemma tree_root_node: "tree_ok d m l \<Longrightarrow> \<exists>n. m l = Some n \<and> node_ok d n" by (cases d) auto

text \<open>The key of the new nodes: the first block behind the path in its leaf, or the new block where there is none.\<close>

definition split_key :: "ext4_entry list \<Rightarrow> nat \<Rightarrow> u32 \<Rightarrow> u32" where
  "split_key es j b = (if drop (Suc j) es = [] then b else e_block (es ! Suc j))"

text \<open>
  After the split: the tree is whole with any good new leaf in the place of \<open>q\<close>, the old path leads to the old leaf, a path
  over the new nodes to the new one.
\<close>

definition split_tree :: "nat \<Rightarrow> nat \<Rightarrow> (loc \<rightharpoonup> ext4_node) \<Rightarrow> (loc \<rightharpoonup> ext4_node) \<Rightarrow> ext4_extent_path list \<Rightarrow> ext4_extent_path list \<Rightarrow> loc \<Rightarrow>
    ext4_entry list \<Rightarrow> nat \<Rightarrow> u32 \<Rightarrow> ext4_fsblk_t \<Rightarrow> nat \<Rightarrow> bool" where
  "split_tree d at m m' path np leaf es j K q jj \<longleftrightarrow> (\<exists>xs ys. extents_below d m Root = xs @ es @ ys
     \<and> (\<forall>nl. good_leaf K nl \<longrightarrow> tree_ok d (m'(Blk q \<mapsto> nl)) Root
         \<and> extents_below d (m'(Blk q \<mapsto> nl)) Root = xs @ take (Suc j) es @ entries_of nl @ ys
         \<and> path_to d (m'(Blk q \<mapsto> nl)) path 0 Root leaf
         \<and> (\<forall>path'. (\<forall>k < at - 1. p_header (path' ! k) = p_header (path ! k) \<and> p_index (path' ! k) = p_index (path ! k))
             \<longrightarrow> p_header (path' ! (at - 1)) = p_header (path ! (at - 1)) \<longrightarrow> p_index (path' ! (at - 1)) = Some (int (Suc jj))
             \<longrightarrow> (\<forall>k \<le> d - at. p_header (path' ! (at + k)) = p_header (np ! k) \<and> p_index (path' ! (at + k)) = p_index (np ! k))
             \<longrightarrow> path_to d (m'(Blk q \<mapsto> nl)) path' 0 Root (Blk q))))"

lemma split_node_tree:
  assumes tree: "tree_ok d (nodes s) Root" "extents_below d (nodes s) Root \<noteq> []" "ordered (extents_below d (nodes s) Root)" "d < 2 ^ 16"
    and path: "path_to d (nodes s) path 0 Root leaf" and at: "0 < at" "at \<le> d"
    and l: "p_header (path ! (at - 1)) = Some l" "nodes s l = Some N" "p_index (path ! (at - 1)) = Some (int jj)" "jj < length (entries_of N)"
    and inv: "split_inv env F at d path leaf n j K s at t np q" and n: "entries_of n \<noteq> []"
    and new: "nodes s' = (nodes t)(l \<mapsto> N')" "node_ok (Suc (d - at)) N'"
      "entries_of N' = take (Suc jj) (entries_of N) @ ix # drop (Suc jj) (entries_of N)" "e_block ix = K" "ext4_idx_pblk ix = p_lb_id (np ! 0)"
  shows "split_tree d at (nodes s) (nodes s') path np leaf (entries_of n) j K q jj"
proof -
  let ?h = "d - at" and ?i = "at - 1" and ?es = "entries_of n"
  have i: "?i \<le> d" "d - ?i = Suc ?h" "Suc ?i = at" "Suc ?h < 2 ^ 16" using at tree(4) by simp_all
  obtain xs ys where P: "tree_ok (Suc ?h) (nodes s) l" "ordered (extents_below (Suc ?h) (nodes s) l)"
    "path_to (Suc ?h) (nodes s) path ?i l leaf" "place_of d (nodes s) Root path 0 ?i l xs ys" "extents_below (Suc ?h) (nodes s) l \<noteq> []"
    using path_level [OF tree path i(1)] l(1) unfolding i(2) by (metis option.inject)
  have c: "p_header (path ! at) = Some (child (entries_of N ! jj))"
  proof -
    have "path_to ?h (nodes s) path (Suc ?i) (child (entries_of N ! jj)) leaf" using P(3) l by auto
    then show ?thesis unfolding i(3) by (cases ?h) auto
  qed
  obtain c' where c': "p_header (path ! at) = Some c'" "same_outside (nodes_below ?h (nodes s) c') (nodes s) (nodes t)"
    "halves (nodes s) ?h c' ?es j K (nodes t) q (p_lb_id (np ! (at - at))) np (at - at) path at leaf"
    using inv unfolding split_inv_def by (elim conjE exE)
  have half: "same_outside (nodes_below ?h (nodes s) (child (entries_of N ! jj))) (nodes s) (nodes t)"
    "halves (nodes s) ?h (child (entries_of N ! jj)) ?es j K (nodes t) q (p_lb_id (np ! 0)) np 0 path (Suc ?i) leaf"
    using c c' i(3) by simp_all
  have "nodes t (Blk q) \<noteq> None" "free_block F s q" "\<forall>k. at - at \<le> k \<longrightarrow> k < Suc d - at \<longrightarrow> p_lb_id (np ! k) \<noteq> 0 \<and> storable (p_lb_id (np ! k))"
    using inv unfolding split_inv_def by (elim conjE exE, simp)+
  then have q: "nodes t (Blk q) \<noteq> None" "nodes s (Blk q) = None" "p_lb_id (np ! 0) \<noteq> 0" using at by (simp_all add: free_block_def)
  from halves_join [OF P(1,2) i(4) l(2,4) half(2) n l(1,3) half(1) q(2,1) new q(3)] obtain us vs where
    J: "extents_below (Suc ?h) (nodes s) l = us @ ?es @ vs"
    "\<And>nl. good_leaf K nl \<Longrightarrow> same_outside (nodes_below (Suc ?h) (nodes s) l) (nodes s) ((nodes s')(Blk q \<mapsto> nl)) \<and> tree_ok (Suc ?h) ((nodes s')(Blk q \<mapsto> nl)) l
        \<and> extents_below (Suc ?h) ((nodes s')(Blk q \<mapsto> nl)) l = us @ take (Suc j) ?es @ entries_of nl @ vs
        \<and> path_to (Suc ?h) ((nodes s')(Blk q \<mapsto> nl)) path ?i l leaf
        \<and> (\<forall>path'. p_header (path' ! ?i) = Some l \<longrightarrow> p_index (path' ! ?i) = Some (int (Suc jj))
            \<longrightarrow> (\<forall>a \<le> ?h. p_header (path' ! (Suc ?i + a)) = p_header (np ! (0 + a)) \<and> p_index (path' ! (Suc ?i + a)) = p_index (np ! (0 + a)))
            \<longrightarrow> path_to (Suc ?h) ((nodes s')(Blk q \<mapsto> nl)) path' ?i l (Blk q))" by blast
  have all: "extents_below d (nodes s) Root = (xs @ us) @ ?es @ (vs @ ys)" using P(4) J(1) unfolding place_of_def i(2) by simp
  have "tree_ok d u Root \<and> extents_below d u Root = (xs @ us) @ take (Suc j) ?es @ entries_of nl @ (vs @ ys)
         \<and> path_to d u path 0 Root leaf
         \<and> (\<forall>path'. (\<forall>k < ?i. p_header (path' ! k) = p_header (path ! k) \<and> p_index (path' ! k) = p_index (path ! k))
             \<longrightarrow> p_header (path' ! ?i) = p_header (path ! ?i) \<longrightarrow> p_index (path' ! ?i) = Some (int (Suc jj))
             \<longrightarrow> (\<forall>k \<le> ?h. p_header (path' ! (at + k)) = p_header (np ! k) \<and> p_index (path' ! (at + k)) = p_index (np ! k))
             \<longrightarrow> path_to d u path' 0 Root (Blk q))" if nl: "good_leaf K nl" and u: "u = (nodes s')(Blk q \<mapsto> nl)" for nl u
  proof -
    note N = J(2) [OF nl, folded u]
    have ne: "extents_below (Suc ?h) u l \<noteq> []" using N nl by (simp add: good_leaf_def)
    have "e_block (hd (extents_below (Suc ?h) u l)) = e_block (hd (extents_below (Suc ?h) (nodes s) l))"
      using N n unfolding J(1) by (cases us; cases ?es) simp_all
    then have 1: "tree_ok d u Root \<and> extents_below d u Root = xs @ extents_below (Suc ?h) u l @ ys"
      using P(4) N ne unfolding place_of_def i(2) by blast
    have 2: "path_to d u path' 0 Root leaf'"
      if "\<forall>k < ?i. p_header (path' ! k) = p_header (path ! k) \<and> p_index (path' ! k) = p_index (path ! k)"
        "path_to (Suc ?h) u path' ?i l leaf'" for path' leaf'
      using P(4) N that unfolding place_of_def i(2) by simp
    show ?thesis
    proof (intro conjI allI impI)
      show "tree_ok d u Root" using 1 by blast
      show "extents_below d u Root = (xs @ us) @ take (Suc j) ?es @ entries_of nl @ (vs @ ys)" using 1 N by simp
      show "path_to d u path 0 Root leaf" using N by (intro 2) simp_all
      fix path' :: "ext4_extent_path list" assume "\<forall>k < ?i. p_header (path' ! k) = p_header (path ! k) \<and> p_index (path' ! k) = p_index (path ! k)"
        "p_header (path' ! ?i) = p_header (path ! ?i)" "p_index (path' ! ?i) = Some (int (Suc jj))"
        "\<forall>k \<le> ?h. p_header (path' ! (at + k)) = p_header (np ! k) \<and> p_index (path' ! (at + k)) = p_index (np ! k)"
      then show "path_to d u path' 0 Root (Blk q)" using N l(1) i(3) by (intro 2) simp_all
    qed
  qed
  then show ?thesis unfolding split_tree_def using all by (intro exI [of _ "xs @ us"] exI [of _ "vs @ ys"]) blast
qed

text \<open>The nodes and the path elements that the split leaves.\<close>

definition split_nodes :: "'w ext4_env \<Rightarrow> nat \<Rightarrow> nat \<Rightarrow> (loc \<rightharpoonup> ext4_node) \<Rightarrow> (loc \<rightharpoonup> ext4_node) \<Rightarrow> ext4_extent_path list \<Rightarrow> loc \<Rightarrow>
    ext4_node \<Rightarrow> nat \<Rightarrow> ext4_fsblk_t \<Rightarrow> bool" where
  "split_nodes env d at m m' np leaf n j q \<longleftrightarrow> m (Blk q) = None \<and> stay_ok m m' \<and> refs_ok m' np \<and> length np = Suc d - at
     \<and> (\<forall>k < Suc d - at. p_lb_id (np ! k) \<noteq> 0)
     \<and> p_extent (np ! (d - at)) = (if drop (Suc j) (entries_of n) = [] then None else Some 0) \<and> p_header (np ! (d - at)) = Some (Blk q)
     \<and> (\<exists>nq. m' (Blk q) = Some nq \<and> node_ok 0 nq \<and> entries_of nq = drop (Suc j) (entries_of n)
         \<and> eh_max (n_hdr nq) = ext4_ext_space_block env)
     \<and> (\<exists>nl. m' leaf = Some nl \<and> node_ok 0 nl \<and> entries_of nl = take (Suc j) (entries_of n)
         \<and> eh_max (n_hdr nl) = eh_max (n_hdr n))"

lemma split_node_ok:
  assumes env: "block_buffers_ok env" "gives_blocks env F" "Suc d - at \<le> card (frees F s)" and depth: "inode_depth s = Some d"
    and tree: "tree_ok d (nodes s) Root" "extents_below d (nodes s) Root \<noteq> []" "ordered (extents_below d (nodes s) Root)" "d < 2 ^ 16"
    and path: "path_to d (nodes s) path 0 Root leaf" "d < length path" "p_depth (path ! 0) = int d" "p_extent (path ! d) = Some (int j)"
    and n: "nodes s leaf = Some n" "node_ok 0 n" "j < length (entries_of n)" and full: "full_from env at d path (nodes s)"
    and at: "0 < at" "at \<le> d" and above: "p_header (path ! (at - 1)) = Some l" "nodes s l = Some N" "\<not> full_node N"
    and K: "K = split_key (entries_of n) j (e_block newext)" "ekey (entries_of n ! j) < sint K"
  shows "\<exists>np q s' jj. ext4_ext_split_node env path at newext (replicate (Suc d - at) zero_path) ir s
       = Some (EOK, if u32_lt (e_block newext) K then path
            else path[at - 1 := (path ! (at - 1))\<lparr>p_index := Some (int (Suc jj)), p_block := p_lb_id (np ! 0)\<rparr>],
           np, \<not> u32_lt (e_block newext) K, s')
     \<and> split_tree d at (nodes s) (nodes s') path np leaf (entries_of n) j K q jj \<and> split_nodes env d at (nodes s) (nodes s') np leaf n j q
     \<and> inode_depth s' = Some d"
proof -
  let ?h = "d - at" and ?i = "at - 1" and ?es = "entries_of n"
  have i: "?i \<le> d" "d - ?i = Suc ?h" "Suc ?i = at" "Suc ?h < 2 ^ 16" using at tree(4) by simp_all
  have np0: "length (replicate (Suc d - at) zero_path) = Suc d - at" "refs_ok (nodes s) (replicate (Suc d - at) zero_path)"
    by (auto simp: refs_ok_def zero_path_def)
  obtain t np q where T: "split_loop env d at K newext (Suc d - at) path (replicate (Suc d - at) zero_path) s = Some (EOK, 0, np, t)"
    "split_inv env F at d path leaf n j K s at t np q"
    using split_all [OF env tree path n full at np0] by blast
  obtain c where c: "p_header (path ! at) = Some c" "same_outside (nodes_below ?h (nodes s) c) (nodes s) (nodes t)"
    "halves (nodes s) ?h c ?es j K (nodes t) q (p_lb_id (np ! (at - at))) np (at - at) path at leaf"
    using T(2) unfolding split_inv_def by (elim conjE exE)
  have I: "length np = Suc d - at" "refs_ok (nodes t) np" "stay_ok (nodes s) (nodes t)" "free_block F s q"
    "\<forall>k. at - at \<le> k \<longrightarrow> k < Suc d - at \<longrightarrow> p_lb_id (np ! k) \<noteq> 0 \<and> storable (p_lb_id (np ! k))"
    "p_extent (np ! (d - at)) = (if drop (Suc j) ?es = [] then None else Some 0)" "p_header (np ! (d - at)) = Some (Blk q)"
    using T(2) unfolding split_inv_def by - (elim conjE, assumption)+
  obtain nq where nq: "nodes t (Blk q) = Some nq" "node_ok 0 nq" "entries_of nq = drop (Suc j) ?es" "eh_max (n_hdr nq) = ext4_ext_space_block env"
    using T(2) unfolding split_inv_def by blast
  obtain nl where nl: "nodes t leaf = Some nl" "node_ok 0 nl" "entries_of nl = take (Suc j) ?es" "eh_max (n_hdr nl) = eh_max (n_hdr n)"
    using T(2) unfolding split_inv_def by blast
  obtain xs ys where P: "tree_ok (Suc ?h) (nodes s) l" "ordered (extents_below (Suc ?h) (nodes s) l)" "path_to (Suc ?h) (nodes s) path ?i l leaf"
    using path_level [OF tree path(1) i(1)] above(1) unfolding i(2) by (metis option.inject)
  obtain jj where jj: "p_index (path ! ?i) = Some (int jj)" "jj < length (entries_of N)"
    "path_to ?h (nodes s) path at (child (entries_of N ! jj)) leaf"
    using P(3) above(2) i(3) by auto
  then have "c = child (entries_of N ! jj)" using c(1) by (cases ?h) auto
  note c = c(2,3) [unfolded this]
  note N = inner_node [OF P(1) above(2) jj(2) P(2) i(4)]
  have ix: "entries_of N ! jj \<in> set (entries_of N)" using jj(2) by simp
  have tl: "nodes t l = Some N" using c(1) N(3) [OF ix] above(2) by (simp add: same_outside_def)
  have "sint (e_block (entries_of N ! jj)) < sint K"
  proof -
    obtain us vs where E: "extents_below ?h (nodes s) (child (entries_of N ! jj)) = us @ ?es @ vs" using c(2) unfolding halves_def by blast
    then have "ekey (hd (extents_below ?h (nodes s) (child (entries_of N ! jj)))) \<le> ekey (?es ! j)"
      using N(4) n(3) by (intro ordered_hd) simp_all
    then show ?thesis using N(3) [OF ix] K(2) by (simp add: ekey_def)
  qed
  have np: "path_at np 0 = Some (np ! 0)" "storable (p_lb_id (np ! 0))" using I(1,5) at by (simp_all add: path_at_def)
  have pa: "path_at path ?i = Some (path ! ?i)" using path(2) at by (simp add: path_at_def)
  have dm: "dirty_marks_only env" using env(1) by (simp add: block_buffers_ok_def)
  from insert_index_ok [OF pa above(1) tl jj(1) N(2) above(3) jj(2) \<open>sint _ < sint K\<close> np(2) dm, of "\<not> u32_lt (e_block newext) K"]
  obtain s' N' ix' where S: "ext4_ext_insert_index env path ?i K (p_lb_id (np ! 0)) (\<not> u32_lt (e_block newext) K) t
      = Some (EOK, if u32_lt (e_block newext) K then path
          else path[?i := (path ! ?i)\<lparr>p_index := Some (int (Suc jj)), p_block := p_lb_id (np ! 0)\<rparr>], s')"
    "nodes s' = (nodes t)(l \<mapsto> N')" "node_ok (Suc ?h) N'"
    "entries_of N' = take (Suc jj) (entries_of N) @ ix' # drop (Suc jj) (entries_of N)" "e_block ix' = K" "ext4_idx_pblk ix' = p_lb_id (np ! 0)"
    by auto
  have run: "ext4_ext_split_node env path at newext (replicate (Suc d - at) zero_path) ir s
       = Some (EOK, if u32_lt (e_block newext) K then path
            else path[?i := (path ! ?i)\<lparr>p_index := Some (int (Suc jj)), p_block := p_lb_id (np ! 0)\<rparr>],
           np, \<not> u32_lt (e_block newext) K, s')"
  proof -
    have leaf: "path_at path d = Some (path ! d)" "p_header (path ! d) = Some leaf"
      using path(2) path_to_header [OF path(1)] by (simp_all add: path_at_def)
    have "full_node n" using full at leaf(2) n(1) by (auto simp: full_from_def)
    then have max: "EXT_MAX (n_hdr n) = int (length ?es) - 1" using full_length [OF n(2)] by (simp add: ext_pos_defs endian_defs)
    have "(if p_extent (path ! d) \<noteq> Some (EXT_MAX (n_hdr n))
        then do { i \<leftarrow> p_extent (path ! d); e \<leftarrow> slot n (i + 1); Some (e_block e) } else Some (e_block newext)) = Some K"
    proof (cases "drop (Suc j) ?es = []")
      case True
      then show ?thesis using path(4) max n(3) K(1) by (simp add: split_key_def)
    next
      case False
      then have "slot n (int j + 1) = Some (?es ! Suc j)" using node_ok_slot [OF n(2), of "int j + 1"] by (simp add: nat_add_distrib)
      then show ?thesis using False path(4) max K(1) by (simp add: split_key_def)
    qed
    then show ?thesis using depth at(1) leaf n(1) T(1) np(1) S(1)
      by (simp add: ext4_ext_split_node_def node_at_def endian_defs)
  qed
  have "?es \<noteq> []" using n(3) by auto
  have st: "split_tree d at (nodes s) (nodes s') path np leaf ?es j K q jj"
    by (rule split_node_tree [OF tree path(1) at above(1,2) jj(1,2) T(2) \<open>?es \<noteq> []\<close> S(2-6)])
  have stay: "stay_ok (nodes s) (nodes s')"
    unfolding S(2) by (rule stay_ok_trans [OF I(3) stay_ok_put [where m = "nodes t" and l = l, OF tl N(2) S(3)]])
  have "leaf \<noteq> l" using leaf_not_inner [OF n(2) _ i(4)] N(2) n(1) above(2) by auto
  moreover have "Blk q \<noteq> l" using I(4) above(2) by (auto simp: free_block_def)
  ultimately have kept: "nodes s' leaf = Some nl" "nodes s' (Blk q) = Some nq" using S(2) nl(1) nq(1) by simp_all
  have "refs_ok (nodes s') np" unfolding S(2) by (rule refs_ok_put [OF I(2) S(3)])
  then have sn: "split_nodes env d at (nodes s) (nodes s') np leaf n j q"
    unfolding split_nodes_def using I kept nq nl stay by (auto simp: free_block_def)
  obtain r where "nodes s Root = Some r" "node_ok d r" using tree_root_node [OF tree(1)] by blast
  then obtain r' where "nodes s' Root = Some r'" "node_ok d r'" using stay by (metis stay_ok_def)
  then have "inode_depth s' = Some d" using inode_depth_ok tree(4) by blast
  with run st sn show ?thesis by blast
qed

end
