(* ===== verification/Ext4_Extent_Full.thy ===== *)
theory Ext4_Extent_Full
  imports Ext4_Extent_Place Ext4_Extent_Join
begin

text \<open>
  Inserting an extent into a full leaf: \<open>ext4_ext_insert_extent\<close> splits the full nodes, growing the tree first when
  all nodes up to the root are full, and tries again.
\<close>

section \<open>What the checksums do not change\<close>

lemma view_upd: "view m' = view m \<Longrightarrow> view (m'(l \<mapsto> n)) = view (m(l \<mapsto> n))"
  by (rule ext) (auto simp: view_def dest: fun_cong)

lemma view_path_to: "view m' = view m \<Longrightarrow> path_to d m path k l leaf \<Longrightarrow> path_to d m' path k l leaf"
proof (induction d arbitrary: k l)
  case (Suc d)
  from Suc.prems(2) obtain n j where n: "p_header (path ! k) = Some l" "m l = Some n" "j < length (entries_of n)"
    "p_index (path ! k) = Some (int j)" "path_to d m path (Suc k) (child (entries_of n ! j)) leaf" by auto
  obtain n' where "m' l = Some n'" "node_view n' = node_view n" using view_Some [OF Suc.prems(1) n(2)] by blast
  then show ?case using n Suc.IH [OF Suc.prems(1) n(5)] view_node_ok [of n' n d] by auto
qed simp

lemma view_node:
  assumes "view m' = view m" "m l = Some n" "node_ok c n"
  obtains n' where "m' l = Some n'" "node_ok c n'" "entries_of n' = entries_of n" "n_hdr n' = n_hdr n"
proof -
  obtain n' where "m' l = Some n'" "node_view n' = node_view n" using view_Some [OF assms(1,2)] by blast
  with that view_node_ok [OF this(2), of c] assms(3) show ?thesis by (simp add: node_view_def)
qed

lemma view_depth: "view (nodes s') = view (nodes s) \<Longrightarrow> inode_depth s' = inode_depth s"
  unfolding inode_depth_def by (drule fun_cong [of _ _ Root]) (auto simp: view_def node_view_def map_option_case split: option.splits)

section \<open>The path after a split\<close>

lemma drop_one:
  assumes "keeps_nodes env" "refs_ok (nodes s) path" "i < length path"
  shows "\<exists>p' s'. ext4_ext_drop_refs env path i True s = Some (path[i := p'], s') \<and> view (nodes s') = view (nodes s)
    \<and> p_header p' = p_header (path ! i) \<and> (p_lb_id (path ! i) = 0 \<longrightarrow> p' = path ! i)"
proof -
  obtain p' s' where "drop_ref env (path ! i) s = Some (p', s')" "view (nodes s') = view (nodes s)"
    "p_header p' = p_header (path ! i)" "p_lb_id (path ! i) = 0 \<longrightarrow> p' = path ! i"
    using drop_ref_view [OF assms(1), of "path ! i" s] refs_ok_nth [OF assms(2,3)] by blast
  then show ?thesis using assms(3) by (intro exI [of _ p'] exI [of _ s']) (simp add: ext4_ext_drop_refs_def path_at_def)
qed

lemma take_right:
  assumes "keeps_nodes env"
  shows "refs_ok (nodes s) path \<Longrightarrow> refs_ok (nodes s) np \<Longrightarrow> i + k \<le> length path \<Longrightarrow> k \<le> length np \<Longrightarrow>
    \<exists>path' np' s'. take_new_path env True i k path np s = Some (path', np', s') \<and> view (nodes s') = view (nodes s)
      \<and> length path' = length path \<and> (\<forall>a < k. path' ! (i + a) = np ! a) \<and> (\<forall>a. a < i \<or> i + k \<le> a \<longrightarrow> path' ! a = path ! a)
      \<and> refs_ok (nodes s') path'"
proof (induction k arbitrary: path np s)
  case (Suc k)
  have at: "i + k < length path" "k < length np" using Suc.prems(3,4) by simp_all
  obtain p' s1 where d: "ext4_ext_drop_refs env path (i + k) True s = Some (path[i + k := p'], s1)" "view (nodes s1) = view (nodes s)"
    using drop_one [OF assms Suc.prems(1) at(1)] by blast
  let ?path = "path[i + k := np ! k]" and ?np = "np[k := zero_path]"
  have r: "ext4_ext_replace_path env path np k (i + k) s = Some (?path, ?np, s1)"
    using d(1) at by (simp add: ext4_ext_replace_path_def path_at_def)
  have "refs_ok (nodes s) ?path" "refs_ok (nodes s) ?np"
    using Suc.prems(1,2) refs_ok_nth [OF Suc.prems(2) at(2)] by (auto intro!: refs_ok_update simp: zero_path_def)
  then have refs: "refs_ok (nodes s1) ?path" "refs_ok (nodes s1) ?np" using view_refs_ok [OF d(2)] by blast+
  obtain path' np' s' where IH: "take_new_path env True i k ?path ?np s1 = Some (path', np', s')" "view (nodes s') = view (nodes s1)"
    "length path' = length ?path" "\<forall>a < k. path' ! (i + a) = ?np ! a" "\<forall>a. a < i \<or> i + k \<le> a \<longrightarrow> path' ! a = ?path ! a" "refs_ok (nodes s') path'"
    using Suc.IH [OF refs] Suc.prems(3,4) by auto
  have "path' ! (i + a) = np ! a" if "a < Suc k" for a
  proof (cases "a = k")
    case True
    then show ?thesis using IH(5) at(1) by simp
  qed (use IH(4) that in simp)
  moreover have "path' ! a = path ! a" if "a < i \<or> i + Suc k \<le> a" for a using that IH(5) by auto
  moreover have "take_new_path env True i (Suc k) path np s = Some (path', np', s')"
    using r IH(1) at(2) by (simp add: path_at_def)
  ultimately show ?case using IH(2,3,6) d(2) by simp
qed auto

lemma take_left:
  assumes "keeps_nodes env"
  shows "refs_ok (nodes s) np \<Longrightarrow> k \<le> length np \<Longrightarrow>
    \<exists>np' s'. take_new_path env False i k path np s = Some (path, np', s') \<and> view (nodes s') = view (nodes s)"
proof (induction k arbitrary: np s)
  case (Suc k)
  have at: "k < length np" using Suc.prems(2) by simp
  obtain p' s1 where d: "ext4_ext_drop_refs env np k True s = Some (np[k := p'], s1)" "view (nodes s1) = view (nodes s)"
    "p_header p' = p_header (np ! k)" "p_lb_id (np ! k) = 0 \<longrightarrow> p' = np ! k"
    using drop_one [OF assms Suc.prems(1) at] by blast
  show ?case
  proof (cases "p_lb_id (np ! k) = 0")
    case True
    then show ?thesis using Suc.IH [OF Suc.prems(1)] Suc.prems(2) at by (simp add: path_at_def)
  next
    case False
    have "refs_ok (nodes s) (np[k := p'])" using d(3) False refs_ok_nth [OF Suc.prems(1) at] by (intro refs_ok_update Suc.prems(1)) auto
    then have "refs_ok (nodes s1) (np[k := p'])" using view_refs_ok [OF d(2)] by blast
    from Suc.IH [OF this] Suc.prems(2) d(1,2) False at show ?thesis by (simp add: path_at_def)
  qed
qed simp

section \<open>The lowest level that has room\<close>

lemma full_levels_found:
  assumes "k < length path" "\<forall>i \<le> k. \<exists>l n. p_header (path ! i) = Some l \<and> nodes s l = Some n"
  shows "(\<exists>i \<le> k. full_levels s path k lv = Some (lv + (k - i), True)
      \<and> (\<exists>l n. p_header (path ! i) = Some l \<and> nodes s l = Some n \<and> \<not> full_node n)
      \<and> (\<forall>a. i < a \<longrightarrow> a \<le> k \<longrightarrow> (\<exists>l n. p_header (path ! a) = Some l \<and> nodes s l = Some n \<and> full_node n)))
    \<or> full_levels s path k lv = Some (Suc (lv + k), False)
      \<and> (\<forall>a \<le> k. \<exists>l n. p_header (path ! a) = Some l \<and> nodes s l = Some n \<and> full_node n)"
  using assms
proof (induction k arbitrary: lv)
  case 0
  then show ?case by (auto simp: path_at_def node_at_def full_node_def split: if_splits)
next
  case (Suc k)
  obtain l n where n: "p_header (path ! Suc k) = Some l" "nodes s l = Some n" using Suc.prems(2) by auto
  show ?case
  proof (cases "full_node n")
    case False
    then have "full_levels s path (Suc k) lv = Some (lv + (Suc k - Suc k), True)"
      using Suc.prems(1) n by (simp add: path_at_def node_at_def full_node_def)
    then show ?thesis using n False by (intro disjI1 exI [of _ "Suc k"]) auto
  next
    case True
    then have step: "full_levels s path (Suc k) lv = full_levels s path k (Suc lv)"
      using Suc.prems(1) n by (simp add: path_at_def node_at_def full_node_def)
    have here: "\<exists>l n. p_header (path ! Suc k) = Some l \<and> nodes s l = Some n \<and> full_node n" using n True by blast
    consider i where "i \<le> k" "full_levels s path k (Suc lv) = Some (Suc lv + (k - i), True)"
        "\<exists>l n. p_header (path ! i) = Some l \<and> nodes s l = Some n \<and> \<not> full_node n"
        "\<forall>a. i < a \<longrightarrow> a \<le> k \<longrightarrow> (\<exists>l n. p_header (path ! a) = Some l \<and> nodes s l = Some n \<and> full_node n)"
      | "full_levels s path k (Suc lv) = Some (Suc (Suc lv + k), False)"
        "\<forall>a \<le> k. \<exists>l n. p_header (path ! a) = Some l \<and> nodes s l = Some n \<and> full_node n"
      using Suc.IH [of "Suc lv"] Suc.prems by auto
    then show ?thesis
    proof cases
      case 1
      have "Suc lv + (k - i) = lv + (Suc k - i)" using 1(1) by simp
      moreover have "\<forall>a. i < a \<longrightarrow> a \<le> Suc k \<longrightarrow> (\<exists>l n. p_header (path ! a) = Some l \<and> nodes s l = Some n \<and> full_node n)"
        using 1(4) here by (auto simp: le_Suc_eq)
      ultimately show ?thesis unfolding step using 1(1-3) by (intro disjI1 exI [of _ i]) simp
    next
      case 2
      then show ?thesis unfolding step using here by (intro disjI2) (auto simp: le_Suc_eq)
    qed
  qed
qed

section \<open>The last round\<close>

lemma round_inserts:
  assumes "inode_depth s = Some d" "ext4_ext_insert_leaf env path d g flags s = Some (EOK, ns, path', s')"
  shows "insert_extent_loop env g flags (path, np, ir, s) = Some (EOK, path', s')"
  using assms by (subst insert_extent_loop.simps) (simp add: insert_extent_round_def insert_extent_out_def)

lemma round_again:
  assumes "insert_extent_round env g flags r = Some (Inr r')"
  shows "insert_extent_loop env g flags r = insert_extent_loop env g flags r'"
  using assms by (subst insert_extent_loop.simps) simp

text \<open>What an insertion leaves: the extent in its place among those of the tree, and a path that can be released.\<close>

definition inserted :: "nat \<Rightarrow> ext4_entry \<Rightarrow> ext4_entry \<Rightarrow> ext4_entry list \<Rightarrow> ext4_extent_path list \<Rightarrow> 'w ext4_state \<Rightarrow> bool" where
  "inserted d' e g W path' s' \<longleftrightarrow> inode_depth s' = Some d' \<and> tree_ok d' (nodes s') Root
     \<and> (\<exists>us vs. W = us @ vs \<and> us \<noteq> [] \<and> last us = e \<and> extents_below d' (nodes s') Root = us @ g # vs)
     \<and> refs_ok (nodes s') path' \<and> p_depth (path' ! 0) = int d' \<and> d' < length path'"

text \<open>A leaf that has room: \<open>k\<close> is the place the extent gets.\<close>

lemma finish_leaf:
  assumes depth: "inode_depth s = Some d" and path: "d < length path" "p_header (path ! d) = Some leaf" "refs_ok (nodes s) path" "p_depth (path ! 0) = int d" "0 < d"
    and n: "nodes s leaf = Some n" "node_ok 0 n" "ordered (entries_of n)" "sint (eh_entries (n_hdr n)) < sint (eh_max (n_hdr n))"
    and ex: "case p_extent (path ! d) of None \<Rightarrow> entries_of n = [] | Some i \<Rightarrow> 0 \<le> i \<and> splits_at (entries_of n) (e_block g) (nat i)"
    and g: "\<forall>e \<in> set (entries_of n). e_block e \<noteq> e_block g" "\<not> bit (ee_start_lo g) 31"
    and merge: "leaf_merge flags (map_option (\<lambda>i. entries_of n ! nat i) (p_extent (path ! d))) g = None" and env: "dirty_marks_only env"
    and k: "k = insert_pos (entries_of n) (p_extent (path ! d)) g"
    and whole: "\<And>nl. node_ok 0 nl \<Longrightarrow> entries_of nl = take k (entries_of n) @ g # drop k (entries_of n) \<Longrightarrow>
      tree_ok d ((nodes s)(leaf \<mapsto> nl)) Root \<and> path_to d ((nodes s)(leaf \<mapsto> nl)) path 0 Root leaf
      \<and> extents_below d ((nodes s)(leaf \<mapsto> nl)) Root = us @ g # vs"
    and W: "W = us @ vs" "us \<noteq> []" "last us = e"
  shows "\<exists>path' s'. (\<forall>np ir. insert_extent_loop env g flags (path, np, ir, s) = Some (EOK, path', s')) \<and> inserted d e g W path' s'"
proof -
  let ?es = "entries_of n" and ?p = "path ! d"
  have at: "path_at path d = Some ?p" using path(1) by (simp add: path_at_def)
  have "\<exists>k' s' n'. ext4_ext_insert_leaf env path d g flags s
       = Some (EOK, False, path[d := ?p\<lparr>p_extent := Some (int k'), p_block := ext4_ext_pblk g\<rparr>], s')
     \<and> nodes s' = (nodes s)(leaf \<mapsto> n') \<and> node_ok 0 n' \<and> k' \<le> length ?es
     \<and> entries_of n' = take k' ?es @ g # drop k' ?es \<and> ordered (entries_of n') \<and> slot n' (int k') = Some g
     \<and> k' = (case p_extent ?p of None \<Rightarrow> 0 | Some i \<Rightarrow> if ekey (?es ! nat i) < ekey g then Suc (nat i) else nat i)"
  proof (rule insert_leaf_writes [OF depth at path(2) n ex g(1) merge g(2) env])
    fix n3 k' assume n3: "k' = insert_pos ?es (p_extent ?p) g" "entries_of n3 = take k' ?es @ g # drop k' ?es" "node_ok 0 n3"
      "eh_depth (n_hdr n3) = eh_depth (n_hdr n)"
    let ?s = "put_node leaf n3 s" and ?path = "path[d := ?p\<lparr>p_extent := Some (case p_extent ?p of None \<Rightarrow> 0 | Some i \<Rightarrow> i)\<rparr>]"
    have s: "nodes ?s = (nodes s)(leaf \<mapsto> n3)" by (simp add: put_node_def)
    have w: "tree_ok d (nodes ?s) Root" "path_to d (nodes ?s) path 0 Root leaf" using whole [OF n3(3)] n3(1,2) k unfolding s by simp_all
    then have "path_to d (nodes ?s) ?path 0 Root leaf"
      using path_to_update [OF w(2), of "?p\<lparr>p_extent := Some (case p_extent ?p of None \<Rightarrow> 0 | Some i \<Rightarrow> i)\<rparr>"] path(1,2) by simp
    moreover have "inode_depth ?s = Some d" using depth inode_depth_put_node [OF n(1) n3(4)] by simp
    ultimately show "\<exists>s'. ext4_ext_correct_indexes env ?path ?s = Some (EOK, s') \<and> nodes s' = (nodes s)(leaf \<mapsto> n3)"
      using correct_indexes_same [of d ?s ?path leaf n3 env] w(1) path(1) n3(2) env unfolding s by simp
  qed
  then obtain s' nl where R: "ext4_ext_insert_leaf env path d g flags s
       = Some (EOK, False, path[d := ?p\<lparr>p_extent := Some (int k), p_block := ext4_ext_pblk g\<rparr>], s')"
     "nodes s' = (nodes s)(leaf \<mapsto> nl)" "node_ok 0 nl" "entries_of nl = take k ?es @ g # drop k ?es"
    using k by (auto simp: insert_pos_def)
  let ?path = "path[d := ?p\<lparr>p_extent := Some (int k), p_block := ext4_ext_pblk g\<rparr>]"
  note w = whole [OF R(3,4), folded R(2)]
  have "refs_ok (nodes s') path" unfolding R(2) by (rule refs_ok_put [OF path(3) R(3)])
  then have "refs_ok (nodes s') ?path" using path(1,2) R(2,3) by (intro refs_ok_update) auto
  moreover have "p_depth (?path ! 0) = int d" using path(4,5) by simp
  moreover obtain r where "nodes s' Root = Some r" "node_ok d r" using tree_root_node [of d "nodes s'" Root] w by blast
  then have "inode_depth s' = Some d" using inode_depth_ok inode_depth_bound [OF depth] by blast
  ultimately have "inserted d e g W ?path s'" unfolding inserted_def using w W path(1) by auto
  then show ?thesis using round_inserts [OF depth R(1)] by blast
qed

lemma ordered_keys: "ordered xs \<Longrightarrow> i < length xs \<Longrightarrow> k < length xs \<Longrightarrow> ekey (xs ! i) = ekey (xs ! k) \<Longrightarrow> i = k"
  by (metis linorder_neq_iff ordered_nth order_less_irrefl)

lemma finish_behind:
  assumes env: "dirty_marks_only env" and depth: "inode_depth s = Some d" "0 < d"
    and tree: "tree_ok d (nodes s) Root" "ordered (extents_below d (nodes s) Root)"
    and path: "d < length path" "path_to d (nodes s) path 0 Root leaf" "refs_ok (nodes s) path" "p_depth (path ! 0) = int d" "p_extent (path ! d) = Some (int j)"
    and n: "nodes s leaf = Some n" "node_ok 0 n" "sint (eh_entries (n_hdr n)) < sint (eh_max (n_hdr n))"
      "splits_at (entries_of n) (e_block g) j" "ekey (entries_of n ! j) < ekey g"
    and g: "\<forall>e \<in> set (entries_of n). e_block e \<noteq> e_block g" "\<not> bit (ee_start_lo g) 31" "leaf_merge flags (Some (entries_of n ! j)) g = None"
  shows "\<exists>path' s'. (\<forall>x y. insert_extent_loop env g flags (path, x, y, s) = Some (EOK, path', s'))
    \<and> inserted d (entries_of n ! j) g (extents_below d (nodes s) Root) path' s'"
proof -
  let ?es = "entries_of n"
  obtain us vs where ctx: "extents_below d (nodes s) Root = us @ ?es @ vs" "d = 0 \<longrightarrow> us = [] \<and> vs = []"
    "\<And>n'. node_ok 0 n' \<Longrightarrow> d = 0 \<or> entries_of n' \<noteq> [] \<and> e_block (hd (entries_of n')) = e_block (hd ?es) \<Longrightarrow>
      tree_ok d ((nodes s)(leaf \<mapsto> n')) Root \<and> leaves d ((nodes s)(leaf \<mapsto> n')) Root = leaves d (nodes s) Root
      \<and> extents_below d ((nodes s)(leaf \<mapsto> n')) Root = us @ entries_of n' @ vs"
    using leaf_context [OF tree inode_depth_bound [OF depth(1)] path_leaf [OF path(2)] n(1)] by blast
  have j: "j < length ?es" using n(4) by (simp add: splits_at_def)
  have leaf: "p_header (path ! d) = Some leaf" using path_to_header [OF path(2)] by simp
  have pos: "insert_pos ?es (p_extent (path ! d)) g = Suc j" using path(5) n(5) by (simp add: insert_pos_def)
  have ord: "ordered ?es" using tree(2) unfolding ctx(1) by (simp add: ordered_append)
  have whole: "tree_ok d ((nodes s)(leaf \<mapsto> n')) Root \<and> path_to d ((nodes s)(leaf \<mapsto> n')) path 0 Root leaf
      \<and> extents_below d ((nodes s)(leaf \<mapsto> n')) Root = (us @ take (Suc j) ?es) @ g # drop (Suc j) ?es @ vs"
    if n': "node_ok 0 n'" "entries_of n' = take (Suc j) ?es @ g # drop (Suc j) ?es" for n'
  proof -
    have "hd (entries_of n') = hd ?es" "entries_of n' \<noteq> []" using n'(2) j by (cases ?es; simp)+
    then show ?thesis
      using ctx(3) [OF n'(1)] path_update_leaf [OF n(1,2) path(2) tree(1) inode_depth_bound [OF depth(1)], of n'] n'(2) by simp
  qed
  have "extents_below d (nodes s) Root = (us @ take (Suc j) ?es) @ drop (Suc j) ?es @ vs" using ctx(1) by simp
  moreover have "us @ take (Suc j) ?es \<noteq> []" "last (us @ take (Suc j) ?es) = ?es ! j"
    using j by (auto simp: take_Suc_conv_app_nth)
  ultimately show ?thesis
    using n(4) path(5) g(1,3)
    by (intro finish_leaf [OF depth(1) path(1) leaf path(3,4) depth(2) n(1,2) ord n(3) _ _ g(2) _ env pos [symmetric] whole]) simp_all
qed

lemma again_left:
  assumes env: "block_buffers_ok env" and depth: "inode_depth s1 = Some d"
    and path: "d < length path" "refs_ok m path" "p_depth (path ! 0) = int d" "p_extent (path ! d) = Some (int j)"
    and at: "0 < at" "at \<le> d" and es: "ordered (extents_below d m Root)" "splits_at es (e_block g) j" "ekey (es ! j) < ekey g"
    and n: "es = entries_of n" "node_ok 0 n" "drop (Suc j) es \<noteq> []"
    and g: "\<forall>e \<in> set es. e_block e \<noteq> e_block g" "\<not> bit (ee_start_lo g) 31" "leaf_merge flags (Some (es ! j)) g = None"
    and split: "split_tree d at m (nodes s1) path np leaf es j (e_block (es ! Suc j)) q jj" "split_nodes env d at m (nodes s1) np leaf n j q"
  shows "\<exists>path2 np2 s2 path' s'. take_new_path env False at (Suc d - at) path np s1 = Some (path2, np2, s2)
    \<and> (\<forall>x y. insert_extent_loop env g flags (path2, x, y, s2) = Some (EOK, path', s')) \<and> inserted d (es ! j) g (extents_below d m Root) path' s'"
proof -
  let ?K = "e_block (es ! Suc j)"
  have keeps: "keeps_nodes env" and dm: "dirty_marks_only env" using env unfolding block_buffers_ok_def keeps_nodes_def by (metis snd_conv, blast)
  have S: "stay_ok m (nodes s1)" "refs_ok (nodes s1) np" "length np = Suc d - at" using split(2) by (simp_all add: split_nodes_def)
  obtain nq where nq: "nodes s1 (Blk q) = Some nq" "node_ok 0 nq" "entries_of nq = drop (Suc j) es" using split(2) n(1) by (auto simp: split_nodes_def)
  obtain nl where nl: "nodes s1 leaf = Some nl" "node_ok 0 nl" "entries_of nl = take (Suc j) es" "eh_max (n_hdr nl) = eh_max (n_hdr n)"
    using split(2) n(1) by (auto simp: split_nodes_def)
  have "good_leaf ?K nq" using nq n(3) by (simp add: good_leaf_def hd_drop_conv_nth)
  moreover have "(nodes s1)(Blk q \<mapsto> nq) = nodes s1" using nq(1) by auto
  ultimately obtain xs ys where T: "extents_below d m Root = xs @ es @ ys" "tree_ok d (nodes s1) Root"
    "extents_below d (nodes s1) Root = xs @ take (Suc j) es @ drop (Suc j) es @ ys" "path_to d (nodes s1) path 0 Root leaf"
    using split(1) nq(3) unfolding split_tree_def by metis
  then have same: "extents_below d (nodes s1) Root = extents_below d m Root" by (metis append.assoc append_take_drop_id)
  obtain np2 s2 where tk: "take_new_path env False at (Suc d - at) path np s1 = Some (path, np2, s2)" "view (nodes s2) = view (nodes s1)"
    using take_left [OF keeps S(2), of "Suc d - at" at path] S(3) by auto
  note V = view_tree [OF tk(2), of d Root]
  obtain n2 where n2: "nodes s2 leaf = Some n2" "node_ok 0 n2" "entries_of n2 = take (Suc j) es" "n_hdr n2 = n_hdr nl"
    using view_node [OF tk(2) nl(1,2)] nl(3) by metis
  have tree: "tree_ok d (nodes s2) Root" "ordered (extents_below d (nodes s2) Root)" using V T(2) es(1) same by simp_all
  have j: "j < length es" using es(2) by (simp add: splits_at_def)
  have "int (Suc j) < int (length es)" using n(3) by simp
  also have "\<dots> \<le> sint (eh_max (n_hdr n))" using n(1,2) by (simp add: node_ok_length) (simp add: node_ok_def)
  finally have room: "sint (eh_entries (n_hdr n2)) < sint (eh_max (n_hdr n2))"
    using node_ok_length [OF n2(2)] n2(3,4) nl(4) j by simp
  have spl: "splits_at (entries_of n2) (e_block g) j" "entries_of n2 ! j = es ! j" using es(2) j n2(3) by (simp_all add: splits_at_def)
  have refs: "refs_ok (nodes s2) path" using view_refs_ok [OF tk(2) stay_ok_refs [OF S(1) path(2)]] .
  have "\<exists>path' s'. (\<forall>x y. insert_extent_loop env g flags (path, x, y, s2) = Some (EOK, path', s'))
    \<and> inserted d (entries_of n2 ! j) g (extents_below d (nodes s2) Root) path' s'"
    using spl es(3) g n2(3) at depth view_depth [OF tk(2)]
    by (intro finish_behind [OF dm _ _ tree path(1) view_path_to [OF tk(2) T(4)] refs path(3,4) n2(1,2) room]) (auto dest: in_set_takeD)
  with tk(1) V same spl(2) show ?thesis by metis
qed

lemma again_right:
  assumes env: "block_buffers_ok env" and depth: "inode_depth s1 = Some d"
    and path: "d < length path" "p_header (path ! d) = Some leaf" "refs_ok m path" "p_depth (path ! 0) = int d"
    and at: "0 < at" "at \<le> d" and es: "j < length es" "drop (Suc j) es = []" and n: "es = entries_of n"
    and g: "\<not> bit (ee_start_lo g) 31"
    and split: "split_tree d at m (nodes s1) path np leaf es j (e_block g) q jj" "split_nodes env d at m (nodes s1) np leaf n j q"
    and p: "p_index p = Some (int (Suc jj))" "p_header p = p_header (path ! (at - 1))" "p_lb_id p = p_lb_id (path ! (at - 1))"
      "p_depth p = p_depth (path ! (at - 1))"
  shows "\<exists>path2 np2 s2 path' s'. take_new_path env True at (Suc d - at) (path[at - 1 := p]) np s1 = Some (path2, np2, s2)
    \<and> (\<forall>x y. insert_extent_loop env g flags (path2, x, y, s2) = Some (EOK, path', s')) \<and> inserted d (es ! j) g (extents_below d m Root) path' s'"
proof -
  let ?path = "path[at - 1 := p]"
  have keeps: "keeps_nodes env" and dm: "dirty_marks_only env" using env unfolding block_buffers_ok_def keeps_nodes_def by (metis snd_conv, blast)
  have S: "stay_ok m (nodes s1)" "refs_ok (nodes s1) np" "length np = Suc d - at" "p_extent (np ! (d - at)) = None" "p_header (np ! (d - at)) = Some (Blk q)"
    using split(2) es(2) unfolding n by (simp_all add: split_nodes_def)
  obtain nq where nq: "nodes s1 (Blk q) = Some nq" "node_ok 0 nq" "entries_of nq = []" using split(2) es(2) unfolding n by (auto simp: split_nodes_def)
  have take: "take (Suc j) es = es" and len: "length es = Suc j" using es by simp_all
  obtain xs ys where T: "extents_below d m Root = xs @ es @ ys"
    "\<And>nl. good_leaf (e_block g) nl \<Longrightarrow> tree_ok d ((nodes s1)(Blk q \<mapsto> nl)) Root
         \<and> extents_below d ((nodes s1)(Blk q \<mapsto> nl)) Root = xs @ es @ entries_of nl @ ys
         \<and> (\<forall>path'. (\<forall>k < at - 1. p_header (path' ! k) = p_header (path ! k) \<and> p_index (path' ! k) = p_index (path ! k))
             \<longrightarrow> p_header (path' ! (at - 1)) = p_header (path ! (at - 1)) \<longrightarrow> p_index (path' ! (at - 1)) = Some (int (Suc jj))
             \<longrightarrow> (\<forall>k \<le> d - at. p_header (path' ! (at + k)) = p_header (np ! k) \<and> p_index (path' ! (at + k)) = p_index (np ! k))
             \<longrightarrow> path_to d ((nodes s1)(Blk q \<mapsto> nl)) path' 0 Root (Blk q))"
    using split(1) unfolding split_tree_def take by blast
  have refs: "refs_ok (nodes s1) ?path"
    using refs_ok_nth [OF stay_ok_refs [OF S(1) path(3)], of "at - 1"] path(1) at p(2,3) by (intro refs_ok_update stay_ok_refs [OF S(1) path(3)]) simp_all
  obtain path2 np2 s2 where tk: "take_new_path env True at (Suc d - at) ?path np s1 = Some (path2, np2, s2)" "view (nodes s2) = view (nodes s1)"
    "length path2 = length path" "\<forall>a < Suc d - at. path2 ! (at + a) = np ! a" "\<forall>a. a < at \<or> at + (Suc d - at) \<le> a \<longrightarrow> path2 ! a = ?path ! a"
    "refs_ok (nodes s2) path2"
    using take_right [OF keeps refs S(2), of at "Suc d - at"] S(3) path(1) at by auto
  obtain n2 where n2: "nodes s2 (Blk q) = Some n2" "node_ok 0 n2" "entries_of n2 = []" using view_node [OF tk(2) nq(1,2)] nq(3) by metis
  have last: "path2 ! d = np ! (d - at)" using tk(4) [rule_format, of "d - at"] at by simp
  have room: "sint (eh_entries (n_hdr n2)) < sint (eh_max (n_hdr n2))"
    using n2(2,3) node_ok_length [OF n2(2)] by (auto simp: node_ok_def signed_eq_0_iff order_le_less)
  have p0: "p_depth (path2 ! 0) = int d"
    using tk(5) [rule_format, of 0] path(1,4) at p(4) by (auto simp: nth_list_update split: if_splits)
  have whole: "tree_ok d ((nodes s2)(Blk q \<mapsto> nl)) Root \<and> path_to d ((nodes s2)(Blk q \<mapsto> nl)) path2 0 Root (Blk q)
      \<and> extents_below d ((nodes s2)(Blk q \<mapsto> nl)) Root = (xs @ es) @ g # ys"
    if nl: "node_ok 0 nl" "entries_of nl = take 0 (entries_of n2) @ g # drop 0 (entries_of n2)" for nl
  proof -
    have V: "view ((nodes s2)(Blk q \<mapsto> nl)) = view ((nodes s1)(Blk q \<mapsto> nl))" by (rule view_upd [OF tk(2)])
    have "good_leaf (e_block g) nl" using nl n2(3) by (simp add: good_leaf_def)
    note T' = T(2) [OF this]
    have "path_to d ((nodes s1)(Blk q \<mapsto> nl)) path2 0 Root (Blk q)"
      using T' tk(4,5) path(1) at p(1,2) by (intro conjunct2 [OF conjunct2 [OF T'], rule_format]) simp_all
    then show ?thesis using T' nl(2) n2(3) view_path_to [OF V] view_tree [OF V, of d Root] by simp
  qed
  have "\<exists>path' s'. (\<forall>np ir. insert_extent_loop env g flags (path2, np, ir, s2) = Some (EOK, path', s'))
      \<and> inserted d (es ! j) g (xs @ es @ ys) path' s'"
  proof (rule finish_leaf [OF _ _ _ tk(6) p0 _ n2(1,2) _ room _ _ g _ dm _ whole])
    show "d < length path2" "0 < d" using tk(3) path(1) at by simp_all
    show "p_header (path2 ! d) = Some (Blk q)" using S(5) last by simp
    show "inode_depth s2 = Some d" using view_depth [OF tk(2)] depth by simp
    show "last (xs @ es) = es ! j" using len by (cases es rule: rev_cases) (auto simp: nth_append)
    show "0 = insert_pos (entries_of n2) (p_extent (path2 ! d)) g" using S(4) last by (simp add: insert_pos_def)
  qed (use n2(3) S(4) last es in \<open>auto simp: ordered_def leaf_merge_def\<close>)
  with tk(1) show ?thesis unfolding T(1) by blast
qed

end
