(* ===== verification/Ext4_Extent_Overflow.thy ===== *)
theory Ext4_Extent_Overflow
  imports Ext4_Extent_Full
begin

text \<open>
  A leaf that has no room: the nodes are split below the lowest level that has room, or the tree grows by a level first;
  in either case the tree ends up with exactly the new extent more.
\<close>

section \<open>The split\<close>

lemma split_part:
  assumes env: "block_buffers_ok env" "gives_blocks env F" "Suc d - at \<le> card (frees F s)" and depth: "inode_depth s = Some d"
    and tree: "tree_ok d (nodes s) Root" "ordered (extents_below d (nodes s) Root)"
    and path: "path_to d (nodes s) path 0 Root leaf" "d < length path" "p_depth (path ! 0) = int d" "p_extent (path ! d) = Some (int j)"
      "refs_ok (nodes s) path"
    and n: "nodes s leaf = Some n" "node_ok 0 n" "splits_at (entries_of n) (e_block g) j" "ekey (entries_of n ! j) < ekey g"
    and g: "\<forall>e \<in> set (entries_of n). e_block e \<noteq> e_block g" "\<not> bit (ee_start_lo g) 31" "leaf_merge flags (Some (entries_of n ! j)) g = None"
    and full: "full_from env at d path (nodes s)" and at: "0 < at" "at \<le> d"
    and above: "p_header (path ! (at - 1)) = Some l" "nodes s l = Some N" "\<not> full_node N"
  shows "\<exists>path1 np1 ir1 s1 path2 np2 s2 path' s'.
       ext4_ext_split_node env path at g (replicate (Suc d - at) zero_path) ir s = Some (EOK, path1, np1, ir1, s1)
     \<and> take_new_path env ir1 at (Suc d - at) path1 np1 s1 = Some (path2, np2, s2)
     \<and> (\<forall>x y. insert_extent_loop env g flags (path2, x, y, s2) = Some (EOK, path', s'))
     \<and> inserted d (entries_of n ! j) g (extents_below d (nodes s) Root) path' s'"
proof -
  let ?es = "entries_of n" and ?K = "split_key (entries_of n) j (e_block g)"
  have d: "d < 2 ^ 16" by (rule inode_depth_bound [OF depth])
  have j: "j < length ?es" using n(3) by (simp add: splits_at_def)
  have leafs: "leaf \<in> set (leaves d (nodes s) Root)" by (rule path_leaf [OF path(1)])
  obtain us vs where ctx: "extents_below d (nodes s) Root = us @ ?es @ vs" using leaf_context [OF tree d leafs n(1)] by metis
  then have ne: "extents_below d (nodes s) Root \<noteq> []" and ord: "ordered ?es" using j tree(2) by (auto simp: ordered_append)
  have key: "ekey (?es ! j) < sint ?K"
  proof (cases "drop (Suc j) ?es = []")
    case False
    then show ?thesis using ordered_nth [OF ord, of j "Suc j"] by (simp add: split_key_def ekey_def)
  qed (use n(4) in \<open>simp add: split_key_def ekey_def\<close>)
  obtain np q s1 jj where S: "ext4_ext_split_node env path at g (replicate (Suc d - at) zero_path) ir s
       = Some (EOK, if u32_lt (e_block g) ?K then path
            else path[at - 1 := (path ! (at - 1))\<lparr>p_index := Some (int (Suc jj)), p_block := p_lb_id (np ! 0)\<rparr>],
           np, \<not> u32_lt (e_block g) ?K, s1)"
     "split_tree d at (nodes s) (nodes s1) path np leaf ?es j ?K q jj" "split_nodes env d at (nodes s) (nodes s1) np leaf n j q"
     "inode_depth s1 = Some d"
    using split_node_ok [OF env depth tree(1) ne tree(2) d path(1-4) n(1,2) j full at above refl key, of ir] by blast
  show ?thesis
  proof (cases "drop (Suc j) ?es = []")
    case True
    then have K: "?K = e_block g" by (simp add: split_key_def)
    have leaf: "p_header (path ! d) = Some leaf" using path_to_header [OF path(1)] by simp
    let ?p = "(path ! (at - 1))\<lparr>p_index := Some (int (Suc jj)), p_block := p_lb_id (np ! 0)\<rparr>"
    have "\<exists>path2 np2 s2 path' s'. take_new_path env True at (Suc d - at) (path[at - 1 := ?p]) np s1 = Some (path2, np2, s2)
      \<and> (\<forall>x y. insert_extent_loop env g flags (path2, x, y, s2) = Some (EOK, path', s'))
      \<and> inserted d (?es ! j) g (extents_below d (nodes s) Root) path' s'"
      by (rule again_right [OF env(1) S(4) path(2) leaf path(5,3) at j True refl g(2) S(2) [unfolded K] S(3)]) simp_all
    then show ?thesis using S(1) unfolding K by (auto simp del: take_new_path.simps)
  next
    case False
    then have K: "?K = e_block (?es ! Suc j)" by (simp add: split_key_def)
    have lt: "u32_lt (e_block g) ?K" using False n(3) by (simp add: K splits_at_def ekey_def)
    show ?thesis using again_left [OF env(1) S(4) path(2,5,3,4) at tree(2) n(3,4) refl n(2) False g S(2) [unfolded K] S(3)] S(1) lt
      by (auto simp del: take_new_path.simps)
  qed
qed

lemma full_leaf_asks:
  assumes "path_at path d = Some p" "p_header p = Some leaf" "nodes s leaf = Some n" "node_ok c n" "full_node n"
    and "p_extent p = Some (int j)" "j < length (entries_of n)" "e_block (entries_of n ! j) \<noteq> e_block g"
    and "leaf_merge flags (Some (entries_of n ! j)) g = None"
  shows "ext4_ext_insert_leaf env path d g flags s = Some (EIO, True, path, s)"
proof -
  have "slot n (int j) = Some (entries_of n ! j)" using node_ok_slot [OF assms(4), of "int j"] assms(7) by simp
  moreover have "eh_entries (n_hdr n) = eh_max (n_hdr n)" using assms(5) full_length [OF assms(4)] node_ok_length [OF assms(4)]
    by (metis signed_word_eqI)
  ultimately show ?thesis using assms
    by (simp add: ext4_ext_insert_leaf_def entry_at_def node_at_def endian_defs insert_leaf_out_def)
qed

section \<open>Below a node that has room\<close>

lemma insert_splits:
  assumes env: "block_buffers_ok env" "gives_blocks env F" "d \<le> card (frees F s)" "calloc_ok env s (d - i)" and depth: "inode_depth s = Some d"
    and tree: "tree_ok d (nodes s) Root" "ordered (extents_below d (nodes s) Root)"
    and path: "path_to d (nodes s) path 0 Root leaf" "d < length path" "p_depth (path ! 0) = int d" "p_extent (path ! d) = Some (int j)"
      "refs_ok (nodes s) path"
    and n: "nodes s leaf = Some n" "node_ok 0 n" "splits_at (entries_of n) (e_block g) j" "ekey (entries_of n ! j) < ekey g"
    and g: "\<forall>e \<in> set (entries_of n). e_block e \<noteq> e_block g" "\<not> bit (ee_start_lo g) 31" "leaf_merge flags (Some (entries_of n ! j)) g = None"
    and full: "full_from env (Suc i) d path (nodes s)" "i < d" "full_levels s path d 0 = Some (d - i, True)"
    and above: "p_header (path ! i) = Some l" "nodes s l = Some N" "\<not> full_node N"
  shows "\<exists>path' s'. ext4_ext_insert_extent env path g flags s = Some (EOK, path', s')
     \<and> inserted d (entries_of n ! j) g (extents_below d (nodes s) Root) path' s'"
proof -
  have idx: "Suc d - (d - i) = Suc i" "Suc d - Suc i = d - i" "d - i \<noteq> 0" using full(2) by simp_all
  have leaf: "path_at path d = Some (path ! d)" "p_header (path ! d) = Some leaf"
    using path_to_header [OF path(1)] path(2) by (simp_all add: path_at_def)
  have j: "j < length (entries_of n)" using n(3) by (simp add: splits_at_def)
  then have ne: "e_block (entries_of n ! j) \<noteq> e_block g" using g(1) by simp
  have fn: "full_node n" using full(1) [unfolded full_from_def, rule_format, of d] full(2) leaf(2) n(1) by simp
  note asks = full_leaf_asks [OF leaf n(1,2) fn path(4) j ne g(3)]
  have more: "Suc d - Suc i \<le> card (frees F s)" "0 < Suc i" "Suc i \<le> d" "p_header (path ! (Suc i - 1)) = Some l"
    using env(3) full(2) above(1) by simp_all
  obtain path1 np1 ir1 s1 path2 np2 s2 path' s' where
    S: "ext4_ext_split_node env path (Suc i) g (replicate (d - i) zero_path) False s = Some (EOK, path1, np1, ir1, s1)"
     "take_new_path env ir1 (Suc i) (d - i) path1 np1 s1 = Some (path2, np2, s2)"
     "\<forall>x y. insert_extent_loop env g flags (path2, x, y, s2) = Some (EOK, path', s')"
     "inserted d (entries_of n ! j) g (extents_below d (nodes s) Root) path' s'"
    using split_part [OF env(1,2) more(1) depth tree path n g full(1) more(2-4) above(2,3), of False, unfolded idx(2)] by blast
  have "insert_extent_round env g flags (path, None, False, s) = Some (Inr (path2, Some np2, ir1, s2))"
    using depth asks full(3) idx env(4) S(1,2) by (simp add: insert_extent_round_def)
  then show ?thesis unfolding ext4_ext_insert_extent_def using round_again S(3,4) by metis
qed

end
