(* ===== verification/Ext4_Extent_Regrow.thy ===== *)
theory Ext4_Extent_Regrow
  imports Ext4_Extent_Overflow
begin

section \<open>What reads and releases do to the free blocks\<close>

lemma calls_keep_free:
  assumes "gives_blocks env F"
  shows "F (world (snd (snd (ext4_block_set env b s)))) = F (world s)"
    "F (world (snd (snd (ext4_trans_block_get env b lb s)))) = F (world s)"
    "ext4_block_set env b s = (e, b', s') \<Longrightarrow> F (world s') = F (world s)"
    "ext4_trans_block_get env b lb s = (e, b', s') \<Longrightarrow> F (world s') = F (world s)"
proof -
  show "F (world (snd (snd (ext4_block_set env b s)))) = F (world s)" and "F (world (snd (snd (ext4_trans_block_get env b lb s)))) = F (world s)"
    for b lb s using assms by (simp_all add: gives_blocks_def)
  then show "ext4_block_set env b s = (e, b', s') \<Longrightarrow> F (world s') = F (world s)"
    "ext4_trans_block_get env b lb s = (e, b', s') \<Longrightarrow> F (world s') = F (world s)" by (metis snd_conv)+
qed

lemma update_node_world: "update_node l f s = Some s' \<Longrightarrow> world s' = world s"
  by (auto simp: update_node_def put_node_def split: bind_splits option.splits)

lemma drop_ref_free: "gives_blocks env F \<Longrightarrow> drop_ref env p s = Some (p', s') \<Longrightarrow> F (world s') = F (world s)"
  by (auto simp: drop_ref_def update_node_world calls_keep_free(3) dest!: update_node_world calls_keep_free(3) split: if_splits bind_splits prod.splits)

lemma drop_refs_free: "gives_blocks env F \<Longrightarrow> drop_refs_loop env k at path s = Some (path', s') \<Longrightarrow> F (world s') = F (world s)"
proof (induction k arbitrary: at path s)
  case (Suc k)
  from Suc.prems(2) obtain p s1 where "drop_ref env (path ! at) s = Some (p, s1)" "drop_refs_loop env k (Suc at) (path[at := p]) s1 = Some (path', s')"
    by (auto simp: path_at_def split: bind_splits if_splits)
  then show ?case using Suc.IH [OF Suc.prems(1)] drop_ref_free [OF Suc.prems(1)] by metis
qed simp

lemma read_free:
  assumes "gives_blocks env F" "read_extent_tree_block env b d bh s = Some (e, b', s')"
  shows "F (world s') = F (world s)"
proof -
  obtain e1 b1 s1 where g: "ext4_trans_block_get env b bh s = (e1, b1, s1)" by (metis prod_cases3)
  then have "F (world s1) = F (world s)" by (rule calls_keep_free(4) [OF assms(1)])
  then have *: "F (world (snd (snd (ext4_block_set env b1 s1)))) = F (world s)" by (simp add: calls_keep_free(1) [OF assms(1)])
  have "s' = s1 \<or> s' = snd (snd (ext4_block_set env b1 s1))"
    using assms(2) g by (simp add: read_extent_tree_block_def Let_def split: bind_splits if_splits prod.splits)
  then show ?thesis using * \<open>F (world s1) = F (world s)\<close> by metis
qed

lemma find_walk_free:
  assumes "gives_blocks env F"
  shows "find_walk env block d i ppos path bh s = Some (e, path', p', s') \<Longrightarrow> F (world s') = F (world s)"
proof (induction i arbitrary: ppos path bh s)
  case (Suc i)
  note set = calls_keep_free(1) [OF assms]
  show ?case
    using Suc.prems
    by (simp add: Let_def split: bind_splits if_splits prod.splits) (metis Suc.IH read_free [OF assms] set)+
qed simp

lemma drop_refs_all_free: "gives_blocks env F \<Longrightarrow> ext4_ext_drop_refs env path at b s = Some (path', s') \<Longrightarrow> F (world s') = F (world s)"
  by (auto simp: ext4_ext_drop_refs_def dest: drop_refs_free split: bind_splits)

lemma find_array_free:
  assumes "gives_blocks env F" "find_path_array env d orig s = Some (arr, s')"
  shows "F (world s') = F (world s)"
proof (cases orig)
  case (Some p)
  then obtain p' where "ext4_ext_drop_refs env p 0 False s = Some (p', s')"
    using assms(2) by (simp add: find_path_array_def split: bind_split_asm prod.split_asm if_split_asm option.split_asm)
  then show ?thesis by (rule drop_refs_all_free [OF assms(1)])
qed (use assms(2) in \<open>simp add: find_path_array_def\<close>)

lemma find_free:
  assumes "gives_blocks env F" "ext4_find_extent env block orig s = Some (e, path, s')"
  shows "F (world s') = F (world s)"
proof -
  obtain d arr s1 where a: "inode_depth s = Some d" "find_path_array env d orig s = Some (arr, s1)"
    using assms(2) by (auto simp: ext4_find_extent_def split: bind_splits)
  note f1 = find_array_free [OF assms(1) a(2)]
  show ?thesis
  proof (cases arr)
    case None
    then show ?thesis using assms(2) a f1 by (simp add: ext4_find_extent_def)
  next
    case (Some p)
    obtain x where x: "path_at p 0 = Some x" using assms(2) by (simp add: ext4_find_extent_def a Some split: bind_split_asm)
    obtain e2 p2 k s2 where w: "find_walk env block d d 0 (p[0 := x\<lparr>p_header := Some Root, p_lb_id := 0\<rparr>]) 0 s1 = Some (e2, p2, k, s2)"
      using assms(2) by (simp add: ext4_find_extent_def a Some x split: bind_split_asm) (metis prod_cases4)
    note f2 = find_walk_free [OF assms(1) w]
    have "s' = s2 \<or> (\<exists>p'. ext4_ext_drop_refs env p2 0 False s2 = Some (p', s'))"
    proof (cases "e2 = EOK")
      case True
      then show ?thesis using assms(2) by (simp add: ext4_find_extent_def a Some x w split: bind_split_asm)
    next
      case False
      then show ?thesis using assms(2)
        by (simp add: ext4_find_extent_def a Some x w split: bind_split_asm prod.split_asm)
    qed
    then show ?thesis using f1 f2 drop_refs_all_free [OF assms(1)] by metis
  qed
qed

section \<open>Releasing the whole path\<close>

lemma drop_ref_zero:
  assumes "block_buffers_ok env" "drop_ref env p s = Some (p', s')"
  shows "p' = p\<lparr>p_lb_id := 0\<rparr>"
proof -
  have set: "fst (snd (ext4_block_set env b t)) = 0" for b t
    using assms(1) [unfolded block_buffers_ok_def, THEN conjunct2, THEN conjunct1, rule_format, of b t] by auto
  have "lb = 0" if "ext4_block_set env b t = (e, lb, t')" for b t e lb t' using set [of b t] that by simp
  then show ?thesis using assms(2) by (auto simp: drop_ref_def split: if_splits bind_splits prod.splits)
qed

lemma buffers_keep: "block_buffers_ok env \<Longrightarrow> keeps_nodes env"
  unfolding block_buffers_ok_def keeps_nodes_def by (metis snd_conv)

lemma refs_ok_zero: "refs_ok m path \<Longrightarrow> p_lb_id q = 0 \<Longrightarrow> refs_ok m (path[i := q])" by (rule refs_ok_update) auto

lemma drop_refs_zero:
  assumes "block_buffers_ok env"
  shows "refs_ok (nodes s) path \<Longrightarrow> at + k \<le> length path \<Longrightarrow>
    \<exists>path' s'. drop_refs_loop env k at path s = Some (path', s') \<and> view (nodes s') = view (nodes s) \<and> length path' = length path
      \<and> (\<forall>i < length path. path' ! i = (if at \<le> i \<and> i < at + k then (path ! i)\<lparr>p_lb_id := 0\<rparr> else path ! i))"
proof (induction k arbitrary: at path s)
  case (Suc k)
  have at: "at < length path" using Suc.prems(2) by simp
  obtain p s1 where d: "drop_ref env (path ! at) s = Some (p, s1)" "view (nodes s1) = view (nodes s)"
    using drop_ref_view [OF buffers_keep [OF assms], of "path ! at" s] refs_ok_nth [OF Suc.prems(1) at] by blast
  note p = drop_ref_zero [OF assms d(1)]
  have refs: "refs_ok (nodes s1) (path[at := p])"
    using p by (intro refs_ok_zero view_refs_ok [OF d(2) Suc.prems(1)]) simp
  have "Suc at + k \<le> length (path[at := p])" using Suc.prems(2) by simp
  then obtain path' s' where IH: "drop_refs_loop env k (Suc at) (path[at := p]) s1 = Some (path', s')" "view (nodes s') = view (nodes s1)"
    "length path' = length path"
    "\<forall>i < length path. path' ! i = (if Suc at \<le> i \<and> i < Suc at + k then (path[at := p] ! i)\<lparr>p_lb_id := 0\<rparr> else path[at := p] ! i)"
    using Suc.IH [OF refs] unfolding length_list_update by blast
  have "path' ! i = (if at \<le> i \<and> i < at + Suc k then (path ! i)\<lparr>p_lb_id := 0\<rparr> else path ! i)" if "i < length path" for i
    using that IH(4) p by (cases "i = at") auto
  then show ?case using d IH(1-3) at by (simp add: path_at_def)
qed auto

lemma drop_path_zero:
  assumes "block_buffers_ok env" "refs_ok (nodes s) path" "p_depth (path ! 0) = int d" "d < length path" "\<forall>k > d. k < length path \<longrightarrow> p_lb_id (path ! k) = 0"
  shows "\<exists>path' s'. ext4_ext_drop_refs env path 0 False s = Some (path', s') \<and> view (nodes s') = view (nodes s) \<and> length path' = length path
    \<and> (\<forall>i < length path. p_lb_id (path' ! i) = 0) \<and> p_maxdepth (path' ! 0) = p_maxdepth (path ! 0)"
proof -
  have ne: "0 < length path" using assms(4) by linarith
  then have eq: "ext4_ext_drop_refs env path 0 False s = drop_refs_loop env (Suc d) 0 path s"
    using assms(3) by (simp add: ext4_ext_drop_refs_def path_at_def nat_add_distrib)
  obtain path' s' where D: "drop_refs_loop env (Suc d) 0 path s = Some (path', s')" "view (nodes s') = view (nodes s)" "length path' = length path"
    "\<forall>i < length path. path' ! i = (if 0 \<le> i \<and> i < 0 + Suc d then (path ! i)\<lparr>p_lb_id := 0\<rparr> else path ! i)"
    using drop_refs_zero [OF assms(1,2), of 0 "Suc d"] assms(4) by auto
  have "p_lb_id (path' ! i) = 0" if "i < length path" for i
    using that D(4) assms(5) by (cases "i < Suc d") simp_all
  moreover have "p_maxdepth (path' ! 0) = p_maxdepth (path ! 0)" using D(4) ne by simp
  ultimately show ?thesis unfolding eq using D(1-3) by blast
qed

section \<open>Growing and searching again\<close>

lemma frees_view: "view (nodes s') = view (nodes s) \<Longrightarrow> F (world s') = F (world s) \<Longrightarrow> frees F s' = frees F s"
proof -
  assume v: "view (nodes s') = view (nodes s)" and w: "F (world s') = F (world s)"
  have "nodes s' l = None \<longleftrightarrow> nodes s l = None" for l using fun_cong [OF v, of l] by (auto simp: view_def)
  then show ?thesis using w by (simp add: free_block_def)
qed

lemma free_not_below:
  assumes "nodes s (Blk b) = None" "tree_ok d (nodes s) Root" "extents_below d (nodes s) Root \<noteq> []"
  shows "Blk b \<notin> nodes_below d (nodes s) Root"
  using node_below [OF assms(2,3), of "Blk b"] assms(1) by auto

lemma grow_ok:
  assumes env: "block_buffers_ok env" "gives_blocks env F" "free_block F s b0" "4 \<le> sint (ext4_ext_space_block env)"
    and depth: "inode_depth s = Some d" "d < 65535" and tree: "tree_ok d (nodes s) Root" "extents_below d (nodes s) Root \<noteq> []"
    and root: "nodes s Root = Some root" "length (n_slots root) = 4"
  shows "\<exists>b root' ix n' s'. ext4_ext_grow_indepth env s = Some (EOK, s') \<and> inode_depth s' = Some (Suc d)
     \<and> nodes s' = (nodes s)(Root \<mapsto> root', Blk b \<mapsto> n') \<and> Suc (card (frees F s')) = card (frees F s)
     \<and> nodes s (Blk b) = None \<and> node_ok (Suc d) root' \<and> entries_of root' = [ix] \<and> ext4_idx_pblk ix = b
     \<and> node_ok d n' \<and> entries_of n' = entries_of root \<and> eh_max (n_hdr n') = ext4_ext_space_block env
     \<and> tree_ok (Suc d) (nodes s') Root \<and> extents_below (Suc d) (nodes s') Root = extents_below d (nodes s) Root"
proof -
  have layer: "block_layer_ok env" using env(1) buffers_keep [OF env(1)] by (simp add: block_layer_ok_def block_buffers_ok_def keeps_nodes_def)
  obtain b s1 where b: "ext4_balloc_alloc_block env (grow_goal env d root s) 0 s = (EOK, b, s1)" "free_block F s b" "nodes s1 = nodes s"
    "F (world s1) = F (world s) - {b}" "b \<noteq> 0" "storable b" "nodes s (Blk b) = None" by (rule allocated [OF env(2,3)])
  obtain n s2 where n: "ext4_trans_block_get_noread env b 0 s1 = (EOK, b, s2)" "nodes s2 = (nodes s1)(Blk b \<mapsto> n)"
    "int (length (n_slots n)) = sint (ext4_ext_space_block env)" "F (world s2) = F (world s1)" by (rule taken_block [OF env(1,2)])
  have st: "\<not> bit b 31" "drop_bit 47 b = 0" using b(6) by (simp_all add: storable_def)
  have s2: "nodes s2 = (nodes s)(Blk b \<mapsto> n)" using n(2) b(3) by simp
  have room: "4 \<le> length (n_slots n)" using env(4) n(3) by linarith
  from grow_runs [OF depth tree root layer b(1,3) n(1) s2 b(5) st free_not_below [OF b(7) tree] n(3) room]
  obtain root' ix n' s' where G: "ext4_ext_grow_indepth env s = Some (EOK, s')" "inode_depth s' = Some (Suc d)"
    "nodes s' = (nodes s)(Blk b \<mapsto> n', Root \<mapsto> root')" "world s' = world (snd (snd (ext4_block_set env b
          ((ext4_trans_set_block_dirty env b (put_node Root root' (put_node (Blk b) n' s2)))\<lparr>inode_dirty := True\<rparr>))))"
    "node_ok (Suc d) root'" "entries_of root' = [ix]" "ext4_idx_pblk ix = b" "node_ok d n'" "entries_of n' = entries_of root"
    "eh_max (n_hdr n') = ext4_ext_space_block env" "tree_ok (Suc d) (nodes s') Root"
    "extents_below (Suc d) (nodes s') Root = extents_below d (nodes s) Root" by (elim exE conjE)
  have nodes: "nodes s' = (nodes s)(Root \<mapsto> root', Blk b \<mapsto> n')" using G(3) by (simp add: fun_upd_twist)
  have "F (world s') = F (world s) - {b}"
    unfolding G(4) by (simp add: calls_keep_free(1) [OF env(2)] set_dirty_free [OF env(2)] put_node_def n(4) b(4))
  from frees_take [OF nodes _ b(2) this] root(1) have "Suc (card (frees F s')) = card (frees F s)" by simp
  then show ?thesis using G nodes b(7) by blast
qed

lemma grow_then_find:
  assumes env: "block_buffers_ok env" "gives_blocks env F" "free_block F s b0" "4 \<le> sint (ext4_ext_space_block env)" "\<forall>s. reads_clean env s"
    and depth: "inode_depth s = Some d" "d < 65535" and tree: "tree_ok d (nodes s) Root" "extents_below d (nodes s) Root \<noteq> []"
      "ordered (extents_below d (nodes s) Root)"
    and root: "nodes s Root = Some root" "length (n_slots root) = 4"
    and path: "Suc d < length path" "p_maxdepth (path ! 0) = int (Suc d)" "refs_ok (nodes s) path" "p_depth (path ! 0) = int d"
      "\<forall>k > d. k < length path \<longrightarrow> p_lb_id (path ! k) = 0"
  shows "\<exists>b root' ix n' s1 path' leaf s2. ext4_ext_grow_indepth env s = Some (EOK, s1)
     \<and> ext4_find_extent env block (Some path) s1 = Some (EOK, Some path', s2) \<and> inode_depth s2 = Some (Suc d)
     \<and> view (nodes s2) = view ((nodes s)(Root \<mapsto> root', Blk b \<mapsto> n')) \<and> Suc (card (frees F s2)) = card (frees F s)
     \<and> nodes s (Blk b) = None \<and> entries_of root' = [ix] \<and> ext4_idx_pblk ix = b
     \<and> node_ok d n' \<and> entries_of n' = entries_of root \<and> eh_max (n_hdr n') = ext4_ext_space_block env
     \<and> tree_ok (Suc d) (nodes s2) Root \<and> extents_below (Suc d) (nodes s2) Root = extents_below d (nodes s) Root
     \<and> length path' = length path \<and> refs_ok (nodes s2) path' \<and> p_depth (path' ! 0) = int (Suc d)
     \<and> leaf_found (nodes s2) (Suc d) block path' leaf \<and> path_splits (Suc d) (nodes s2) block path' 0 Root"
proof -
  obtain b root' ix n' s1 where G: "ext4_ext_grow_indepth env s = Some (EOK, s1)" "inode_depth s1 = Some (Suc d)"
    "nodes s1 = (nodes s)(Root \<mapsto> root', Blk b \<mapsto> n')" "Suc (card (frees F s1)) = card (frees F s)"
    "nodes s (Blk b) = None" "node_ok (Suc d) root'" "entries_of root' = [ix]" "ext4_idx_pblk ix = b"
    "node_ok d n'" "entries_of n' = entries_of root" "eh_max (n_hdr n') = ext4_ext_space_block env"
    "tree_ok (Suc d) (nodes s1) Root" "extents_below (Suc d) (nodes s1) Root = extents_below d (nodes s) Root"
    using grow_ok [OF env(1-4) depth tree(1,2) root] by (elim exE conjE) (rule that)
  have refs: "refs_ok (nodes s1) path" unfolding G(3) by (intro refs_ok_put [OF refs_ok_put [OF path(3) G(6)] G(9)])
  obtain arr s2 where D: "ext4_ext_drop_refs env path 0 False s1 = Some (arr, s2)" "view (nodes s2) = view (nodes s1)" "length arr = length path"
    "\<forall>i < length path. p_lb_id (arr ! i) = 0" "p_maxdepth (arr ! 0) = p_maxdepth (path ! 0)"
    using drop_path_zero [OF env(1) refs path(4) Suc_lessD [OF path(1)] path(5)] by (elim exE conjE) (rule that)
  have "path_at arr 0 = Some (arr ! 0)" using D(3) path(1) by (auto simp: path_at_def)
  then have arr: "find_path_array env (Suc d) (Some path) s1 = Some (Some arr, s2)"
    using D(1,5) path(2) by (simp add: find_path_array_def)
  note V = view_tree [OF D(2), of "Suc d" Root]
  have t2: "tree_ok (Suc d) (nodes s2) Root" "ordered (extents_below (Suc d) (nodes s2) Root)" using V G(12,13) tree(3) by metis+
  have "Suc d < length arr" "\<forall>k < length arr. p_lb_id (arr ! k) = 0" using D(3,4) path(1) by simp_all
  from find_extent_array [OF G(2) t2 env(5) [rule_format] arr this, of block] obtain path' w leaf where
    P: "ext4_find_extent env block (Some path) s1 = Some (EOK, Some path', s2\<lparr>world := w\<rparr>)" "length path' = length arr"
    "refs_ok (nodes s2) path'" "p_depth (path' ! 0) = int (Suc d)" "leaf_found (nodes s2) (Suc d) block path' leaf"
    "path_splits (Suc d) (nodes s2) block path' 0 Root" by (elim exE conjE) (rule that)
  let ?s = "s2\<lparr>world := w\<rparr>"
  have n: "nodes ?s = nodes s2" by simp
  have "F (world ?s) = F (world s1)" by (rule find_free [OF env(2) P(1)])
  from frees_view [OF D(2) [folded n] this] have c: "frees F ?s = frees F s1" .
  have "inode_depth ?s = Some (Suc d)" using view_depth [OF D(2)] G(2) by (simp add: inode_depth_def)
  moreover have "view (nodes ?s) = view ((nodes s)(Root \<mapsto> root', Blk b \<mapsto> n'))" unfolding n D(2) G(3) ..
  moreover have "extents_below (Suc d) (nodes ?s) Root = extents_below d (nodes s) Root" unfolding n using V G(13) by metis
  moreover have "length path' = length path" using P(2) D(3) by simp
  ultimately show ?thesis using G(1,4,5,7-11) P(1,3-6) t2(1) unfolding n
    by (intro exI [of _ b] exI [of _ root'] exI [of _ ix] exI [of _ n'] exI [of _ s1] exI [of _ path'] exI [of _ leaf] exI [of _ ?s])
      (simp del: extents_below.simps tree_ok.simps path_splits.simps add: c)
qed

section \<open>The path in the grown tree\<close>

lemma splits_unique: "splits_at xs b i \<Longrightarrow> splits_at xs b j \<Longrightarrow> i = j"
  unfolding splits_at_def by (metis less_le_not_le linorder_neqE_nat not_less_iff_gr_or_eq order_refl zero_less_iff_neq_zero gr_implies_not0)

text \<open>\<open>m2\<close> has the old nodes, but for the root, whose entries are now in the node \<open>b\<close>.\<close>

definition grown_nodes :: "(loc \<rightharpoonup> ext4_node) \<Rightarrow> ext4_fsblk_t \<Rightarrow> ext4_node \<Rightarrow> (loc \<rightharpoonup> ext4_node) \<Rightarrow> bool" where
  "grown_nodes m b root m2 \<longleftrightarrow> m Root = Some root
     \<and> (\<exists>r ix. m2 Root = Some r \<and> entries_of r = [ix] \<and> child ix = Blk b)
     \<and> (\<exists>n. m2 (Blk b) = Some n \<and> entries_of n = entries_of root)
     \<and> (\<forall>l n. m l = Some n \<longrightarrow> l \<noteq> Root \<longrightarrow> (\<exists>n2. m2 l = Some n2 \<and> n_hdr n2 = n_hdr n \<and> entries_of n2 = entries_of n))"

lemma grown_nodes_view:
  assumes "view m2 = view (m(Root \<mapsto> root', Blk b \<mapsto> n'))" "m Root = Some root" "m (Blk b) = None"
    and "entries_of root' = [ix]" "ext4_idx_pblk ix = b" "entries_of n' = entries_of root"
  shows "grown_nodes m b root m2"
proof -
  have at: "\<exists>n2. m2 l = Some n2 \<and> n_hdr n2 = n_hdr n \<and> entries_of n2 = entries_of n" if "(m(Root \<mapsto> root', Blk b \<mapsto> n')) l = Some n" for l n
    using view_Some [OF assms(1) that] by (auto simp: node_view_def)
  have "\<exists>n2. m2 l = Some n2 \<and> n_hdr n2 = n_hdr n \<and> entries_of n2 = entries_of n" if "m l = Some n" "l \<noteq> Root" for l n
    using at [of l n] that assms(3) by (cases "l = Blk b") simp_all
  moreover have "\<exists>r ix. m2 Root = Some r \<and> entries_of r = [ix] \<and> child ix = Blk b" "\<exists>n. m2 (Blk b) = Some n \<and> entries_of n = entries_of root"
    using at [of Root root'] at [of "Blk b" n'] assms(4-6) by (auto simp: child_def)
  ultimately show ?thesis unfolding grown_nodes_def using assms(2) by blast
qed

lemma same_splits:
  assumes "grown_nodes m b root m2"
  shows "path_splits h m blk path k c \<Longrightarrow> path_splits h m2 blk path' k' c \<Longrightarrow> c \<noteq> Root \<Longrightarrow> a \<le> h \<Longrightarrow>
    p_header (path' ! (k' + a)) = p_header (path ! (k + a)) \<and> p_header (path ! (k + a)) \<noteq> Some Root"
proof (induction h arbitrary: k k' c a)
  case (Suc h)
  from Suc.prems(1) obtain n j where n: "p_header (path ! k) = Some c" "m c = Some n" "splits_at (entries_of n) blk j"
    "path_splits h m blk path (Suc k) (child (entries_of n ! j))" by auto
  from Suc.prems(2) obtain n2 j2 where n2: "p_header (path' ! k') = Some c" "m2 c = Some n2" "splits_at (entries_of n2) blk j2"
    "path_splits h m2 blk path' (Suc k') (child (entries_of n2 ! j2))" by auto
  have "\<exists>n2. m2 c = Some n2 \<and> entries_of n2 = entries_of n" using assms n(2) Suc.prems(3) unfolding grown_nodes_def by blast
  then have es: "entries_of n2 = entries_of n" using n2(2) by auto
  have "j2 = j" using splits_unique n(3) n2(3) es by metis
  then have sub: "path_splits h m2 blk path' (Suc k') (child (entries_of n ! j))" using n2(4) es by simp
  have "child (entries_of n ! j) \<noteq> Root" by (simp add: child_def)
  from Suc.IH [OF n(4) sub this] Suc.prems(3,4) n(1) n2(1) show ?case by (cases a) auto
qed auto

lemma grown_path:
  assumes "grown_nodes m b root m2" "path_splits d m blk path 0 Root" "path_splits (Suc d) m2 blk path' 0 Root"
  shows "p_header (path' ! 1) = Some (Blk b)"
    "0 < i \<Longrightarrow> i \<le> d \<Longrightarrow> p_header (path' ! Suc i) = p_header (path ! i) \<and> p_header (path ! i) \<noteq> Some Root"
proof -
  obtain r ix n where R: "m Root = Some root" "m2 Root = Some r" "entries_of r = [ix]" "child ix = Blk b" "m2 (Blk b) = Some n" "entries_of n = entries_of root"
    using assms(1) by (auto simp: grown_nodes_def)
  then have low: "path_splits d m2 blk path' 1 (Blk b)" using assms(3) by (auto simp: splits_at_def)
  then show "p_header (path' ! 1) = Some (Blk b)" by (cases d) auto
  assume i: "0 < i" "i \<le> d"
  then obtain h where d: "d = Suc h" by (cases d) auto
  obtain j where j: "splits_at (entries_of root) blk j" "path_splits h m blk path 1 (child (entries_of root ! j))"
    using assms(2) R(1) unfolding d by auto
  obtain j2 where j2: "splits_at (entries_of root) blk j2" "path_splits h m2 blk path' 2 (child (entries_of root ! j2))"
    using low R(5,6) unfolding d by (auto simp: numeral_2_eq_2)
  have "j2 = j" by (rule splits_unique [OF j2(1) j(1)])
  moreover have "child (entries_of root ! j) \<noteq> Root" by (simp add: child_def)
  ultimately show "p_header (path' ! Suc i) = p_header (path ! i) \<and> p_header (path ! i) \<noteq> Some Root"
    using same_splits [OF assms(1) j(2), of path' 2 "i - 1"] j2(2) i d by (simp add: numeral_2_eq_2)
qed

end
