(* ===== verification/Ext4_Extent_Fullroot.thy ===== *)
theory Ext4_Extent_Fullroot
  imports Ext4_Extent_Regrow
begin

section \<open>All levels are full\<close>

lemma insert_grows:
  assumes env: "block_buffers_ok env" "gives_blocks env F" "Suc d \<le> card (frees F s)" "4 < sint (ext4_ext_space_block env)"
      "\<forall>s. reads_clean env s" "\<forall>s k. calloc_ok env s k"
    and depth: "inode_depth s = Some d" "d < 65535"
    and tree: "tree_ok d (nodes s) Root" "ordered (extents_below d (nodes s) Root)" and root: "nodes s Root = Some root" "length (n_slots root) = 4"
    and path: "path_to d (nodes s) path 0 Root leaf" "path_splits d (nodes s) (e_block g) path 0 Root" "Suc d < length path"
      "p_maxdepth (path ! 0) = int (Suc d)" "p_depth (path ! 0) = int d" "p_extent (path ! d) = Some (int j)"
      "refs_ok (nodes s) path" "\<forall>k > d. k < length path \<longrightarrow> p_lb_id (path ! k) = 0"
    and n: "nodes s leaf = Some n" "node_ok 0 n" "splits_at (entries_of n) (e_block g) j" "ekey (entries_of n ! j) < ekey g"
    and g: "\<forall>e \<in> set (entries_of n). e_block e \<noteq> e_block g" "\<not> bit (ee_start_lo g) 31" "leaf_merge flags (Some (entries_of n ! j)) g = None"
    and full: "full_from env 0 d path (nodes s)" "full_levels s path d 0 = Some (Suc d, False)"
  shows "\<exists>path' s'. ext4_ext_insert_extent env path g flags s = Some (EOK, path', s')
     \<and> inserted (Suc d) (entries_of n ! j) g (extents_below d (nodes s) Root) path' s'"
proof -
  let ?es = "entries_of n"
  have j: "j < length ?es" using n(3) by (simp add: splits_at_def)
  have d: "d < 2 ^ 16" by (rule inode_depth_bound [OF depth(1)])
  obtain us vs where ctx: "extents_below d (nodes s) Root = us @ ?es @ vs"
    using leaf_context [OF tree d path_leaf [OF path(1)] n(1)] by metis
  then have ne: "extents_below d (nodes s) Root \<noteq> []" using j by auto
  have leaf: "path_at path d = Some (path ! d)" "p_header (path ! d) = Some leaf"
    using path_to_header [OF path(1)] path(3) by (simp_all add: path_at_def)
  have fn: "full_node n" using full(1) [unfolded full_from_def, rule_format, of d] leaf(2) n(1) by simp
  have "e_block (?es ! j) \<noteq> e_block g" using g(1) j by simp
  note asks = full_leaf_asks [OF leaf n(1,2) fn path(6) j this g(3)]
  have "0 < card (frees F s)" using env(3) by linarith
  then obtain b0 where b0: "free_block F s b0" by (auto simp: card_gt_0_iff)
  have space: "4 \<le> sint (ext4_ext_space_block env)" using env(4) by simp
  obtain b root' ix n' s1 path' leaf' s2 where G: "ext4_ext_grow_indepth env s = Some (EOK, s1)"
     "ext4_find_extent env (e_block g) (Some path) s1 = Some (EOK, Some path', s2)" "inode_depth s2 = Some (Suc d)"
     "view (nodes s2) = view ((nodes s)(Root \<mapsto> root', Blk b \<mapsto> n'))" "Suc (card (frees F s2)) = card (frees F s)"
     "nodes s (Blk b) = None" "entries_of root' = [ix]" "ext4_idx_pblk ix = b"
     "node_ok d n'" "entries_of n' = entries_of root" "eh_max (n_hdr n') = ext4_ext_space_block env"
     "tree_ok (Suc d) (nodes s2) Root" "extents_below (Suc d) (nodes s2) Root = extents_below d (nodes s) Root"
     "length path' = length path" "refs_ok (nodes s2) path'" "p_depth (path' ! 0) = int (Suc d)"
     "leaf_found (nodes s2) (Suc d) (e_block g) path' leaf'" "path_splits (Suc d) (nodes s2) (e_block g) path' 0 Root"
    using grow_then_find [OF env(1,2) b0 space env(5) depth tree(1) ne tree(2) root path(3,4,7,5,8), of "e_block g"]
    by (elim exE conjE) (rule that)
  note grown = grown_nodes_view [OF G(4) root(1) G(6-8,10)]
  note P = grown_path [OF grown path(2) G(18)]
  have top: "\<exists>n2. nodes s2 (Blk b) = Some n2 \<and> node_ok d n2 \<and> entries_of n2 = entries_of root \<and> eh_max (n_hdr n2) = ext4_ext_space_block env
    \<and> \<not> full_node n2"
  proof -
    have "((nodes s)(Root \<mapsto> root', Blk b \<mapsto> n')) (Blk b) = Some n'" by simp
    from view_node [OF G(4) this G(9)] obtain n2 where n2: "nodes s2 (Blk b) = Some n2" "node_ok d n2" "entries_of n2 = entries_of n'" "n_hdr n2 = n_hdr n'"
      by blast
    have "length (entries_of root) \<le> 4" using root(2) by (simp add: entries_of_def)
    then have "\<not> full_node n2" using full_length [OF n2(2)] n2(3,4) G(10,11) env(4) by simp
    then show ?thesis using n2 G(10,11) by auto
  qed
  have path2: "path_to (Suc d) (nodes s2) path' 0 Root leaf'" using G(17) by (simp add: leaf_found_def)
  then have leaf2: "p_header (path' ! Suc d) = Some leaf'" using path_to_header by fastforce
  have at_leaf: "\<exists>n2. nodes s2 leaf' = Some n2 \<and> entries_of n2 = ?es"
  proof (cases d)
    case 0
    then have "leaf = Root" "leaf' = Blk b" using path(1) P(1) leaf2 by auto
    then show ?thesis using top n(1) root(1) by auto
  next
    case (Suc h)
    then have "leaf' = leaf" "leaf \<noteq> Root" using P(2) [of d] leaf(2) leaf2 by auto
    then show ?thesis using grown n(1) unfolding grown_nodes_def by blast
  qed
  then obtain n2 where n2: "nodes s2 leaf' = Some n2" "entries_of n2 = ?es" by blast
  have ok2: "node_ok 0 n2" using leaf_ok [OF G(12) path_leaf [OF path2]] n2(1) by fastforce
  have ex2: "p_extent (path' ! Suc d) = Some (int j)"
    using G(17) n2 j splits_unique [OF n(3)] by (auto simp: leaf_found_def split: option.splits)
  have ord2: "ordered (extents_below (Suc d) (nodes s2) Root)" using G(13) tree(2) by metis
  have len2: "Suc d < length path'" using G(14) path(3) by simp
  show ?thesis
  proof (cases "d = 0")
    case True
    then have "leaf' = Blk b" using P(1) leaf2 by simp
    then have "sint (eh_entries (n_hdr n2)) < sint (eh_max (n_hdr n2))"
      using top n2(1) ok2 full_length [OF ok2] node_ok_length [OF ok2] by (auto simp: node_ok_def)
    from finish_behind [where env = env and g = g and flags = flags, OF _ G(3) _ G(12) ord2 len2 path2 G(15,16) ex2 n2(1) ok2 this]
    obtain path3 s3 where fin: "\<forall>x y. insert_extent_loop env g flags (path', x, y, s2) = Some (EOK, path3, s3)"
      "inserted (Suc d) (?es ! j) g (extents_below (Suc d) (nodes s2) Root) path3 s3"
      using n(3,4) g env(1) unfolding n2(2) by (auto simp: block_buffers_ok_def)
    have "insert_extent_round env g flags (path, None, False, s) = Some (Inr (path', None, False, s2))"
      using depth(1) asks full(2) G(1,2) True by (simp add: insert_extent_round_def endian_defs del: full_levels.simps)
    then show ?thesis unfolding ext4_ext_insert_extent_def using round_again fin G(13) by metis
  next
    case False
    have kept: "\<exists>l2 m2. p_header (path' ! Suc i) = Some l2 \<and> nodes s2 l2 = Some m2 \<and> full_node m2
        \<and> int (length (entries_of m2)) \<le> sint (ext4_ext_space_block env)" if i: "0 < i" "i \<le> d" for i
    proof -
      obtain l m where m: "p_header (path ! i) = Some l" "nodes s l = Some m" "full_node m" "int (length (entries_of m)) \<le> sint (ext4_ext_space_block env)"
        using full(1) [unfolded full_from_def, rule_format, of i] i(2) by auto
      then obtain m2 where "nodes s2 l = Some m2" "n_hdr m2 = n_hdr m" "entries_of m2 = entries_of m"
        using grown P(2) [OF i] unfolding grown_nodes_def by (metis option.inject)
      then show ?thesis using m P(2) [OF i] by (auto simp: full_node_def)
    qed
    have full2: "full_from env 2 (Suc d) path' (nodes s2)"
      unfolding full_from_def
    proof (intro allI impI)
      fix i assume "2 \<le> i" "i \<le> Suc d"
      then show "\<exists>l m. p_header (path' ! i) = Some l \<and> nodes s2 l = Some m \<and> full_node m \<and> int (length (entries_of m)) \<le> sint (ext4_ext_space_block env)"
        using kept [of "i - 1"] by simp
    qed
    obtain nb where nb: "nodes s2 (Blk b) = Some nb" "\<not> full_node nb" using top by blast
    have at: "Suc (Suc d) - 2 \<le> card (frees F s2)" "0 < (2::nat)" "2 \<le> Suc d" "p_header (path' ! (2 - 1)) = Some (Blk b)"
      "Suc (Suc d) - 2 = d" "Suc (Suc d) - d = 2"
      using env(3) G(5) False P(1) by simp_all
    have "splits_at (entries_of n2) (e_block g) j" "ekey (entries_of n2 ! j) < ekey g" "\<forall>e \<in> set (entries_of n2). e_block e \<noteq> e_block g"
      "leaf_merge flags (Some (entries_of n2 ! j)) g = None" using n(3,4) g n2(2) by simp_all
    from split_part [OF env(1,2) at(1) G(3,12) ord2 path2 len2 G(16) ex2 G(15) n2(1) ok2 this(1-3) g(2) this(4) full2 at(2-4) nb, of False, unfolded at(5)]
    obtain path1 np1 ir1 s1' path2 np2 s3 path3 s4 where
      S: "ext4_ext_split_node env path' 2 g (replicate d zero_path) False s2 = Some (EOK, path1, np1, ir1, s1')"
       "take_new_path env ir1 2 d path1 np1 s1' = Some (path2, np2, s3)"
       "\<forall>x y. insert_extent_loop env g flags (path2, x, y, s3) = Some (EOK, path3, s4)"
       "inserted (Suc d) (?es ! j) g (extents_below (Suc d) (nodes s2) Root) path3 s4"
      unfolding n2(2) by blast
    have "insert_extent_round env g flags (path, None, False, s) = Some (Inr (path2, Some np2, ir1, s3))"
      using depth(1) asks full(2) G(1,2) False at(6) env(6) S(1,2) by (simp add: insert_extent_round_def endian_defs)
    then show ?thesis unfolding ext4_ext_insert_extent_def using round_again S(3,4) G(13) by metis
  qed
qed

section \<open>Any full leaf\<close>

text \<open>No node of the tree has more entries than a block has room for.\<close>

definition nodes_fit :: "'w ext4_env \<Rightarrow> nat \<Rightarrow> (loc \<rightharpoonup> ext4_node) \<Rightarrow> bool" where
  "nodes_fit env d m \<longleftrightarrow> (\<forall>l \<in> nodes_below d m Root. \<forall>n. m l = Some n \<longrightarrow> int (length (entries_of n)) \<le> sint (ext4_ext_space_block env))"

lemma path_nodes:
  assumes "tree_ok d m Root" "extents_below d m Root \<noteq> []" "ordered (extents_below d m Root)" "d < 2 ^ 16" "path_to d m path 0 Root leaf" "i \<le> d"
  shows "\<exists>l n. p_header (path ! i) = Some l \<and> m l = Some n \<and> l \<in> nodes_below d m Root"
proof -
  obtain c where c: "p_header (path ! (0 + i)) = Some c" using path_header [OF assms(5,6)] by blast
  then have "tree_ok (d - i) m c" "nodes_below (d - i) m c \<subseteq> nodes_below d m Root"
    using path_context [OF assms(6,1-5) c] by blast+
  then show ?thesis using tree_root_node [of "d - i" m c] subtree_root [of c "d - i" m] c by auto
qed

lemma insert_full_leaf:
  assumes env: "block_buffers_ok env" "gives_blocks env F" "Suc d \<le> card (frees F s)" "4 < sint (ext4_ext_space_block env)"
      "\<forall>s. reads_clean env s" "\<forall>s k. calloc_ok env s k"
    and depth: "inode_depth s = Some d" "d < 65535"
    and tree: "tree_ok d (nodes s) Root" "ordered (extents_below d (nodes s) Root)" "nodes_fit env d (nodes s)"
    and root: "nodes s Root = Some root" "length (n_slots root) = 4"
    and path: "path_to d (nodes s) path 0 Root leaf" "path_splits d (nodes s) (e_block g) path 0 Root" "Suc d < length path"
      "p_maxdepth (path ! 0) = int (Suc d)" "p_depth (path ! 0) = int d" "p_extent (path ! d) = Some (int j)"
      "refs_ok (nodes s) path" "\<forall>k > d. k < length path \<longrightarrow> p_lb_id (path ! k) = 0"
    and n: "nodes s leaf = Some n" "node_ok 0 n" "splits_at (entries_of n) (e_block g) j" "ekey (entries_of n ! j) < ekey g"
    and g: "\<forall>e \<in> set (entries_of n). e_block e \<noteq> e_block g" "\<not> bit (ee_start_lo g) 31" "leaf_merge flags (Some (entries_of n ! j)) g = None"
    and full: "full_node n"
  shows "\<exists>d' path' s'. ext4_ext_insert_extent env path g flags s = Some (EOK, path', s') \<and> (d' = d \<or> d' = Suc d)
     \<and> inserted d' (entries_of n ! j) g (extents_below d (nodes s) Root) path' s'"
proof -
  have d: "d < 2 ^ 16" by (rule inode_depth_bound [OF depth(1)])
  have j: "j < length (entries_of n)" using n(3) by (simp add: splits_at_def)
  obtain us vs where ctx: "extents_below d (nodes s) Root = us @ entries_of n @ vs"
    using leaf_context [OF tree(1,2) d path_leaf [OF path(1)] n(1)] by metis
  then have ne: "extents_below d (nodes s) Root \<noteq> []" using j by auto
  have leaf: "p_header (path ! d) = Some leaf" using path_to_header [OF path(1)] by simp
  have dl: "d < length path" using path(3) by simp
  have fits: "\<exists>l m. p_header (path ! i) = Some l \<and> nodes s l = Some m \<and> int (length (entries_of m)) \<le> sint (ext4_ext_space_block env)" if "i \<le> d" for i
    using path_nodes [OF tree(1) ne tree(2) d path(1) that] tree(3) by (auto simp: nodes_fit_def)
  have fullf: "full_from env a d path (nodes s)"
    if "\<forall>i. a \<le> i \<longrightarrow> i \<le> d \<longrightarrow> (\<exists>l m. p_header (path ! i) = Some l \<and> nodes s l = Some m \<and> full_node m)" for a
    unfolding full_from_def using that fits by (metis option.inject)
  have "\<forall>i \<le> d. \<exists>l m. p_header (path ! i) = Some l \<and> nodes s l = Some m" using fits by blast
  from full_levels_found [OF dl this, of 0]
  consider i l m where "i \<le> d" "full_levels s path d 0 = Some (d - i, True)" "p_header (path ! i) = Some l" "nodes s l = Some m" "\<not> full_node m"
      "\<forall>a. i < a \<longrightarrow> a \<le> d \<longrightarrow> (\<exists>l n. p_header (path ! a) = Some l \<and> nodes s l = Some n \<and> full_node n)"
    | "full_levels s path d 0 = Some (Suc d, False)" "\<forall>a \<le> d. \<exists>l n. p_header (path ! a) = Some l \<and> nodes s l = Some n \<and> full_node n"
    by auto
  then show ?thesis
  proof cases
    case 1
    then have "i < d" using leaf n(1) full by (cases "i = d") auto
    moreover have "full_from env (Suc i) d path (nodes s)" using 1(6) by (intro fullf) auto
    moreover have "d \<le> card (frees F s)" "calloc_ok env s (d - i)" using env(3,6) by simp_all
    ultimately show ?thesis
      using insert_splits [OF env(1,2) _ _ depth(1) tree(1,2) path(1) dl path(5-7) n g _ _ 1(2) 1(3-5)] by blast
  next
    case 2
    have "full_from env 0 d path (nodes s)" using 2(2) by (intro fullf) auto
    then show ?thesis using insert_grows [OF env depth tree(1,2) root path n g _ 2(1)] by blast
  qed
qed

end
