(* ===== verification/Ext4_Extent_Rekey.thy ===== *)
theory Ext4_Extent_Rekey
  imports Ext4_Extent_Subtree
begin

text \<open>
  An extent in front of all others: \<open>ext4_ext_correct_indexes\<close> carries its first block to the first index of every node on
  the way to it.
\<close>

section \<open>The nodes that get a new first key\<close>

definition rekey_node :: "u32 \<Rightarrow> ext4_node \<Rightarrow> ext4_node" where
  "rekey_node K n = n\<lparr>n_slots := (n_slots n)[0 := (n_slots n ! 0)\<lparr>e_block := K\<rparr>]\<rparr>"

lemma rekey_twice [simp]: "rekey_node K (rekey_node K n) = rekey_node K n"
  by (cases "n_slots n") (simp_all add: rekey_node_def)

lemma rekey_node_parts:
  assumes "entries_of n \<noteq> []"
  shows "entries_of (rekey_node K n) = (hd (entries_of n))\<lparr>e_block := K\<rparr> # tl (entries_of n)" "node_ok c (rekey_node K n) = node_ok c n"
proof -
  obtain x xs k where x: "n_slots n = x # xs" "nat (sint (eh_entries (n_hdr n))) = Suc k"
    using assms by (cases "n_slots n"; cases "nat (sint (eh_entries (n_hdr n)))") (auto simp: entries_of_def)
  then show "entries_of (rekey_node K n) = (hd (entries_of n))\<lparr>e_block := K\<rparr> # tl (entries_of n)"
    by (simp add: rekey_node_def entries_of_def)
  show "node_ok c (rekey_node K n) = node_ok c n" by (simp add: rekey_node_def node_ok_def)
qed

primrec rekey :: "u32 \<Rightarrow> ext4_extent_path list \<Rightarrow> nat \<Rightarrow> (loc \<rightharpoonup> ext4_node) \<Rightarrow> (loc \<rightharpoonup> ext4_node)" where
  "rekey K path 0 m = m"
| "rekey K path (Suc k) m = rekey K path k (case p_header (path ! k) of None \<Rightarrow> m
     | Some l \<Rightarrow> m(l := map_option (rekey_node K) (m l)))"

lemma rekey_at: "rekey K path k m l = (if \<exists>i < k. p_header (path ! i) = Some l then map_option (rekey_node K) (m l) else m l)"
proof (induction k arbitrary: m)
  case (Suc k)
  let ?m = "case p_header (path ! k) of None \<Rightarrow> m | Some l \<Rightarrow> m(l := map_option (rekey_node K) (m l))"
  have m: "?m l = (if p_header (path ! k) = Some l then map_option (rekey_node K) (m l) else m l)" by (auto split: option.split)
  have twice: "map_option (rekey_node K) (map_option (rekey_node K) x) = map_option (rekey_node K) x" for x by (cases x) simp_all
  have eq: "rekey K path (Suc k) m l = (if \<exists>i < k. p_header (path ! i) = Some l then map_option (rekey_node K) (?m l) else ?m l)"
    by (simp only: rekey.simps Suc.IH)
  have less: "(\<exists>i < Suc k. p_header (path ! i) = Some l) \<longleftrightarrow> (\<exists>i < k. p_header (path ! i) = Some l) \<or> p_header (path ! k) = Some l"
    by (auto simp: less_Suc_eq)
  show ?case unfolding eq m less by (auto simp: twice)
qed simp

section \<open>Correcting the indexes\<close>

lemma update_first:
  assumes "nodes s l = Some n" "entries_of n \<noteq> []"
  shows "update_entry (Some l) (Some 0) (\<lambda>e. Some (e\<lparr>e_block := K\<rparr>)) s = Some (put_node l (rekey_node K n) s)"
  using assms entries_nonempty_slot(1) [OF assms(2)]
  by (auto simp: update_entry_def update_node_def set_slot_def slot_def rekey_node_def entries_of_def split: if_splits)

lemma still_entries:
  assumes "\<forall>i < k. \<exists>l n. p_header (path ! i) = Some l \<and> m l = Some n \<and> entries_of n \<noteq> []" "entries_of n1 \<noteq> []"
  shows "\<forall>i < k. \<exists>l n. p_header (path ! i) = Some l \<and> (m(x \<mapsto> rekey_node K n1)) l = Some n \<and> entries_of n \<noteq> []"
proof (intro allI impI)
  fix i assume "i < k"
  then obtain l n where l: "p_header (path ! i) = Some l" "m l = Some n" "entries_of n \<noteq> []" using assms(1) by blast
  then show "\<exists>l n. p_header (path ! i) = Some l \<and> (m(x \<mapsto> rekey_node K n1)) l = Some n \<and> entries_of n \<noteq> []"
    using rekey_node_parts(1) [OF assms(2), of K] by (cases "l = x") simp_all
qed

lemma correct_loop_rekeys:
  assumes "dirty_marks_only env" "k < length path" "\<forall>i \<le> k. p_index (path ! i) = Some 0"
  shows "\<forall>i < k. \<exists>l n. p_header (path ! i) = Some l \<and> nodes s l = Some n \<and> entries_of n \<noteq> [] \<Longrightarrow>
    \<exists>s'. correct_indexes_loop env K k path s = Some (EOK, s') \<and> nodes s' = rekey K path k (nodes s)"
  using assms(2,3)
proof (induction k arbitrary: s)
  case (Suc k)
  obtain l n where n: "p_header (path ! k) = Some l" "nodes s l = Some n" "entries_of n \<noteq> []" using Suc.prems(1) by auto
  let ?s = "snd (ext4_ext_dirty env (path ! k) (put_node l (rekey_node K n) s))"
  have s: "nodes ?s = (nodes s)(l \<mapsto> rekey_node K n)" using dirty_nodes(1) [OF assms(1)] by (simp add: put_node_def)
  have "\<forall>i < k. \<exists>l n. p_header (path ! i) = Some l \<and> nodes ?s l = Some n \<and> entries_of n \<noteq> []"
    unfolding s using Suc.prems(1) by (intro still_entries n(3)) simp
  moreover have "k < length path" "\<forall>i \<le> k. p_index (path ! i) = Some 0" using Suc.prems(2,3) by simp_all
  ultimately obtain s' where s': "correct_indexes_loop env K k path ?s = Some (EOK, s')" "nodes s' = rekey K path k (nodes ?s)"
    using Suc.IH by blast
  have at: "path_at path k = Some (path ! k)" "path_at path (Suc k) = Some (path ! Suc k)" "p_index (path ! k) = Some 0" "p_index (path ! Suc k) = Some 0"
    using Suc.prems(2,3) by (simp_all add: path_at_def)
  obtain s1 where s1: "ext4_ext_dirty env (path ! k) (put_node l (rekey_node K n) s) = (EOK, s1)"
    using dirty_nodes(2) [of env "path ! k" "put_node l (rekey_node K n) s"] by (metis prod.collapse)
  have "correct_indexes_loop env K (Suc k) path s = Some (EOK, s')"
    using n(1) update_first [OF n(2,3), of K] at s1 s'(1) by (simp add: EXT_FIRST_def)
  moreover have "nodes s' = rekey K path (Suc k) (nodes s)" using s'(2) n(1,2) unfolding s by simp
  ultimately show ?case by blast
qed simp

lemma correct_indexes_rekeys:
  assumes "dirty_marks_only env" "inode_depth s = Some d" "d < length path" "\<forall>i < d. p_index (path ! i) = Some 0"
    and "\<forall>i < d. \<exists>l n. p_header (path ! i) = Some l \<and> nodes s l = Some n \<and> entries_of n \<noteq> []"
    and "p_extent (path ! d) = Some 0" "p_header (path ! d) = Some leaf" "nodes s leaf = Some n" "entries_of n \<noteq> []"
  shows "\<exists>s'. ext4_ext_correct_indexes env path s = Some (EOK, s') \<and> nodes s' = rekey (e_block (hd (entries_of n))) path d (nodes s)"
proof (cases d)
  case 0
  then show ?thesis using assms(2,3,6,7) by (simp add: ext4_ext_correct_indexes_def path_at_def)
next
  case (Suc k)
  let ?K = "e_block (hd (entries_of n))"
  obtain l n1 where n1: "p_header (path ! k) = Some l" "nodes s l = Some n1" "entries_of n1 \<noteq> []" using assms(5) Suc by auto
  let ?s = "snd (ext4_ext_dirty env (path ! k) (put_node l (rekey_node ?K n1) s))"
  have s: "nodes ?s = (nodes s)(l \<mapsto> rekey_node ?K n1)" using dirty_nodes(1) [OF assms(1)] by (simp add: put_node_def)
  have "\<forall>i < k. \<exists>l n. p_header (path ! i) = Some l \<and> nodes ?s l = Some n \<and> entries_of n \<noteq> []"
    unfolding s using assms(5) Suc by (intro still_entries n1(3)) simp
  moreover have "k < length path" "\<forall>i \<le> k. p_index (path ! i) = Some 0" using assms(3,4) Suc by auto
  ultimately obtain s' where s': "correct_indexes_loop env ?K k path ?s = Some (EOK, s')" "nodes s' = rekey ?K path k (nodes ?s)"
    using correct_loop_rekeys [OF assms(1)] by blast
  have at: "path_at path d = Some (path ! d)" "path_at path k = Some (path ! k)" "p_index (path ! k) = Some 0"
    using assms(3,4) Suc by (simp_all add: path_at_def)
  obtain s1 where s1: "ext4_ext_dirty env (path ! k) (put_node l (rekey_node ?K n1) s) = (EOK, s1)"
    using dirty_nodes(2) [of env "path ! k" "put_node l (rekey_node ?K n1) s"] by (metis prod.collapse)
  have ex: "entry_at s (Some leaf) (Some 0) = Some (hd (entries_of n))"
    using assms(8) entries_nonempty_slot(1) [OF assms(9)] by (simp add: entry_at_def node_at_def)
  have "ext4_ext_correct_indexes env path s = Some (EOK, s')"
    using assms(2,6,7) at s1 s'(1) n1(1) ex Suc update_first [OF n1(2,3), of ?K] by (simp add: ext4_ext_correct_indexes_def EXT_FIRST_def Let_def)
  moreover have "nodes s' = rekey ?K path d (nodes s)" using s'(2) n1(1,2) Suc unfolding s by simp
  ultimately show ?thesis by blast
qed

section \<open>The tree afterwards\<close>

lemma path_below: "path_to d m path k l leaf \<Longrightarrow> k \<le> i \<Longrightarrow> i \<le> k + d \<Longrightarrow> p_header (path ! i) = Some x \<Longrightarrow> x \<in> nodes_below d m l"
proof (induction d arbitrary: k l)
  case (Suc d)
  from Suc.prems(1) obtain n j where n: "p_header (path ! k) = Some l" "m l = Some n" "j < length (entries_of n)"
    "path_to d m path (Suc k) (child (entries_of n ! j)) leaf" by auto
  then show ?case using Suc.prems Suc.IH [OF n(4)] by (cases "i = k") (fastforce dest: nth_mem)+
qed auto

lemma rekey_tree:
  assumes "node_ok 0 n'" "entries_of n' = g # entries_of n" "e_block g = K" "m leaf = Some n"
  shows "tree_ok d m l \<Longrightarrow> extents_below d m l \<noteq> [] \<Longrightarrow> ordered (extents_below d m l) \<Longrightarrow> d < 2 ^ 16 \<Longrightarrow> path_to d m path k l leaf \<Longrightarrow>
    \<forall>i. k \<le> i \<longrightarrow> i < k + d \<longrightarrow> p_index (path ! i) = Some 0 \<Longrightarrow> m' leaf = Some n' \<Longrightarrow>
    \<forall>i x. k \<le> i \<longrightarrow> i < k + d \<longrightarrow> p_header (path ! i) = Some x \<longrightarrow> m' x = map_option (rekey_node K) (m x) \<Longrightarrow>
    \<forall>x \<in> nodes_below d m l. x \<noteq> leaf \<longrightarrow> (\<forall>i. k \<le> i \<longrightarrow> i < k + d \<longrightarrow> p_header (path ! i) \<noteq> Some x) \<longrightarrow> m' x = m x \<Longrightarrow>
    tree_ok d m' l \<and> extents_below d m' l = g # extents_below d m l \<and> path_to d m' path k l leaf"
proof (induction d arbitrary: k l)
  case 0
  then show ?case using assms by auto
next
  case (Suc d)
  from Suc.prems(5,6) obtain N where N: "p_header (path ! k) = Some l" "m l = Some N" "0 < length (entries_of N)"
    "p_index (path ! k) = Some (int 0)" "path_to d m path (Suc k) (child (entries_of N ! 0)) leaf" by force
  obtain ix post where es: "entries_of N = ix # post" using N(3) by (cases "entries_of N") auto
  note T = inner_node [OF Suc.prems(1) N(2,3) Suc.prems(3,4), unfolded es, simplified]
  let ?c = "child ix" and ?f = "\<lambda>m jx. extents_below d m (child jx)"
  have path: "path_to d m path (Suc k) ?c leaf" using N(5) es by simp
  have sub: "tree_ok d m ?c" "extents_below d m ?c \<noteq> []" "l \<notin> nodes_below d m ?c" "d < 2 ^ 16" using T Suc.prems(4) by auto
  have IH: "tree_ok d m' ?c \<and> extents_below d m' ?c = g # extents_below d m ?c \<and> path_to d m' path (Suc k) ?c leaf"
  proof (rule Suc.IH [OF sub(1,2) _ sub(4) path])
    show "ordered (extents_below d m ?c)" using T by simp
    show "\<forall>x \<in> nodes_below d m ?c. x \<noteq> leaf \<longrightarrow> (\<forall>i. Suc k \<le> i \<longrightarrow> i < Suc k + d \<longrightarrow> p_header (path ! i) \<noteq> Some x) \<longrightarrow> m' x = m x"
    proof (intro ballI impI)
      fix x assume x: "x \<in> nodes_below d m ?c" "x \<noteq> leaf" "\<forall>i. Suc k \<le> i \<longrightarrow> i < Suc k + d \<longrightarrow> p_header (path ! i) \<noteq> Some x"
      then have "x \<in> nodes_below (Suc d) m l" "x \<noteq> l" using N(2) es sub(3) by auto
      then show "m' x = m x" using Suc.prems(9) x N(1) by (metis Suc_leI add_Suc_shift le_neq_implies_less option.inject)
    qed
    show "\<forall>i x. Suc k \<le> i \<longrightarrow> i < Suc k + d \<longrightarrow> p_header (path ! i) = Some x \<longrightarrow> m' x = map_option (rekey_node K) (m x)"
      using Suc.prems(8) by (metis Suc_leD add_Suc_right add_Suc)
  qed (use Suc.prems(6,7) in auto)
  have off: "?f m' jx = ?f m jx \<and> tree_ok d m' (child jx)" if "jx \<in> set post" for jx
  proof -
    have dis: "nodes_below d m (child jx) \<inter> nodes_below d m ?c = {}" using T that by auto
    have "m' x = m x" if "x \<in> nodes_below d m (child jx)" for x
    proof -
      have "x \<notin> nodes_below d m ?c" using dis that by blast
      moreover have "x \<noteq> l" using T \<open>jx \<in> set post\<close> that by auto
      moreover have "leaf \<in> nodes_below d m ?c" using path_below [OF path, of "Suc k + d"] path_to_header [OF path] by simp
      moreover have "p_header (path ! i) \<noteq> Some x" if "k \<le> i" "i < k + Suc d" for i
        using path_below [OF path, of i x] that calculation(1,2) N(1) by (cases "i = k") auto
      ultimately have "x \<noteq> leaf" "\<forall>i. k \<le> i \<longrightarrow> i < k + Suc d \<longrightarrow> p_header (path ! i) \<noteq> Some x" by auto
      moreover have "x \<in> nodes_below (Suc d) m l" using N(2) es that \<open>jx \<in> set post\<close> by auto
      ultimately show ?thesis using Suc.prems(9) by blast
    qed
    then show ?thesis using subtree_frame [of d m "child jx" m'] T that by auto
  qed
  have root: "m' l = Some (rekey_node K N)" using Suc.prems(8) N(1,2) by auto
  have ent: "entries_of (rekey_node K N) = ix\<lparr>e_block := K\<rparr> # post" "node_ok (Suc d) (rekey_node K N)"
    using rekey_node_parts(1) [of N K] rekey_node_parts(2) [of N "Suc d" K] es T by simp_all
  have kid: "child (ix\<lparr>e_block := K\<rparr>) = ?c" "ext4_idx_pblk (ix\<lparr>e_block := K\<rparr>) = ext4_idx_pblk ix" by (simp_all add: child_def pblk_accessors ei_leaf_hi_def ei_leaf_lo_def)
  have "concat (map (?f m') post) = concat (map (?f m) post)" using off by (intro arg_cong [where f = concat] map_cong) auto
  then have 1: "extents_below (Suc d) m' l = g # extents_below (Suc d) m l" using root ent(1) IH N(2) es by (simp add: kid)
  have 2: "tree_ok (Suc d) m' l" using root ent IH off T assms(3) by (auto simp: kid)
  have 3: "path_to (Suc d) m' path k l leaf" using root ent(1) IH N(1,4) kid(1) by (auto intro!: exI [of _ "rekey_node K N"] exI [of _ 0])
  from 1 2 3 show ?case by blast
qed

lemma rekey_node_ok: "node_ok c (rekey_node K n) = node_ok c n"
  by (simp add: rekey_node_def node_ok_def)

lemma rekey_path: "\<forall>i < k. p_header (path' ! i) = p_header (path ! i) \<Longrightarrow> rekey K path' k m = rekey K path k m"
  by (rule ext) (simp add: rekey_at cong: conj_cong)

text \<open>A search for a block in front of all extents takes the first index of every node.\<close>

lemma first_path:
  "path_splits d m block path k l \<Longrightarrow> tree_ok d m l \<Longrightarrow> \<forall>e \<in> set (extents_below d m l). sint block < ekey e \<Longrightarrow>
   k \<le> i \<Longrightarrow> i < k + d \<Longrightarrow> p_index (path ! i) = Some 0"
proof (induction d arbitrary: k l)
  case (Suc d)
  from Suc.prems(1) obtain n j where n: "m l = Some n" "splits_at (entries_of n) block j" "p_index (path ! k) = Some (int j)"
    "path_splits d m block path (Suc k) (child (entries_of n ! j))" by auto
  have j: "entries_of n ! j \<in> set (entries_of n)" using n(2) by (simp add: splits_at_def)
  have sub: "tree_ok d m (child (entries_of n ! j))" "extents_below d m (child (entries_of n ! j)) \<noteq> []"
    "e_block (hd (extents_below d m (child (entries_of n ! j)))) = e_block (entries_of n ! j)" using Suc.prems(2) n(1) j by auto
  have "set (extents_below d m (child (entries_of n ! j))) \<subseteq> set (extents_below (Suc d) m l)" using n(1) j by auto
  then have above: "\<forall>e \<in> set (extents_below d m (child (entries_of n ! j))). sint block < ekey e" using Suc.prems(3) by blast
  then have "sint block < ekey (entries_of n ! j)" using sub(2,3) hd_in_set by (metis ekey_def)
  then have "j = 0" using n(2) by (auto simp: splits_at_def not_less [symmetric])
  then show ?case using n(3) Suc.IH [OF n(4) sub(1) above] Suc.prems(4,5) by (cases "i = k") auto
qed simp

end
