(* ===== verification/Ext4_Extent_Insertion.thy ===== *)
theory Ext4_Extent_Insertion
  imports Ext4_Extent_Fullroot Ext4_Extent_Rekey
begin

text \<open>
  Inserting the extent of a new block wherever it belongs: it is merged with the extent in front of it, takes a free slot of its
  leaf, makes the code split nodes or grow the tree, or becomes the first extent of the tree and so the key of the nodes above.
\<close>

section \<open>What the search leaves and what the insertion promises\<close>

definition found_at :: "'w ext4_state \<Rightarrow> nat \<Rightarrow> u32 \<Rightarrow> ext4_extent_path list \<Rightarrow> loc \<Rightarrow> ext4_node \<Rightarrow> bool" where
  "found_at s d b path leaf n \<longleftrightarrow> search_at s d b path leaf n \<and> refs_ok (nodes s) path \<and> p_depth (path ! 0) = int d
     \<and> Suc d < length path \<and> p_maxdepth (path ! 0) = int (Suc d) \<and> path_splits d (nodes s) b path 0 Root
     \<and> (\<forall>k > d. k < length path \<longrightarrow> p_lb_id (path ! k) = 0)"

lemma found_at_nodes: "nodes t = nodes s \<Longrightarrow> found_at t d b path leaf n = found_at s d b path leaf n"
  by (simp add: found_at_def search_at_def inode_depth_def cong: option.case_cong)

text \<open>The insertion succeeds, the tree is well-formed again and \<open>Q\<close> holds of its depth and extents; the path can be released.\<close>

definition placed :: "'w ext4_env \<Rightarrow> 'w ext4_state \<Rightarrow> ext4_extent_path list \<Rightarrow> ext4_entry \<Rightarrow> (nat \<Rightarrow> ext4_entry list \<Rightarrow> bool) \<Rightarrow> bool" where
  "placed env s path g Q \<longleftrightarrow> (\<exists>d' path' s'. ext4_ext_insert_extent env path g 0 s = Some (EOK, path', s')
     \<and> inode_depth s' = Some d' \<and> tree_ok d' (nodes s') Root \<and> refs_ok (nodes s') path' \<and> p_depth (path' ! 0) = int d' \<and> d' < length path'
     \<and> Q d' (extents_below d' (nodes s') Root))"

lemma placed_weaken: "placed env s path g Q \<Longrightarrow> (\<And>d' W'. Q d' W' \<Longrightarrow> R d' W') \<Longrightarrow> placed env s path g R"
  unfolding placed_def by blast

lemma tree_depth: "tree_ok d (nodes s) Root \<Longrightarrow> d < 2 ^ 16 \<Longrightarrow> inode_depth s = Some d"
  using tree_root_node inode_depth_ok by blast

lemma found_leaf:
  assumes "found_at s d b path leaf n"
  shows "inode_depth s = Some d" "d < 2 ^ 16" "tree_ok d (nodes s) Root" "ordered (extents_below d (nodes s) Root)"
    "path_at path d = Some (path ! d)" "p_header (path ! d) = Some leaf" "nodes s leaf = Some n" "node_ok 0 n" "d < length path"
    "path_to d (nodes s) path 0 Root leaf" "leaf \<in> set (leaves d (nodes s) Root)"
    "\<exists>xs ys. extents_below d (nodes s) Root = xs @ entries_of n @ ys"
proof -
  have at: "search_at s d b path leaf n" using assms by (simp add: found_at_def)
  then show d: "inode_depth s = Some d" "tree_ok d (nodes s) Root" "nodes s leaf = Some n" "d < length path" "path_to d (nodes s) path 0 Root leaf"
    by (simp_all add: search_at_def)
  show d2: "d < 2 ^ 16" by (rule inode_depth_bound [OF d(1)])
  show o: "ordered (extents_below d (nodes s) Root)" using at disjoint_ordered by (auto simp: search_at_def)
  show "path_at path d = Some (path ! d)" "p_header (path ! d) = Some leaf" using d(4) path_to_header [OF d(5)] by (simp_all add: path_at_def)
  show l: "leaf \<in> set (leaves d (nodes s) Root)" by (rule path_leaf [OF d(5)])
  show "node_ok 0 n" using leaf_ok [OF d(2) l] d(3) by fastforce
  show "\<exists>xs ys. extents_below d (nodes s) Root = xs @ entries_of n @ ys" using leaf_context [OF d(2) o d2 l d(3)] by metis
qed

section \<open>In the leaf\<close>

lemma placed_in_leaf:
  assumes at: "found_at s d b path leaf n"
    and ctx: "\<And>n'. node_ok 0 n' \<Longrightarrow> d = 0 \<or> entries_of n' \<noteq> [] \<and> e_block (hd (entries_of n')) = e_block (hd (entries_of n)) \<Longrightarrow>
      tree_ok d ((nodes s)(leaf \<mapsto> n')) Root \<and> extents_below d ((nodes s)(leaf \<mapsto> n')) Root = xs @ entries_of n' @ ys"
    and gets: "leaf_gets env s d path leaf g es'" "d = 0 \<or> es' \<noteq> [] \<and> e_block (hd es') = e_block (hd (entries_of n))"
  shows "placed env s path g (\<lambda>d' W'. d' = d \<and> W' = xs @ es' @ ys)"
proof -
  obtain q s1 n' where ins: "ext4_ext_insert_extent env path g 0 s = Some (EOK, path[d := q], s1)"
    "nodes s1 = (nodes s)(leaf \<mapsto> n')" "node_ok 0 n'" "entries_of n' = es'"
    "p_lb_id q = p_lb_id (path ! d)" "p_header q = Some leaf" "p_depth q = p_depth (path ! d)"
    using gets(1) by (auto simp: leaf_gets_def)
  note L = found_leaf [OF at]
  have tree: "tree_ok d (nodes s1) Root" "extents_below d (nodes s1) Root = xs @ es' @ ys"
    using ctx [OF ins(3)] gets(2) ins(2,4) by simp_all
  have "refs_ok (nodes s) path" "p_depth (path ! 0) = int d" using at by (simp_all add: found_at_def)
  then have "refs_ok (nodes s1) path" unfolding ins(2) by (intro refs_ok_put [OF _ ins(3)])
  then have refs: "refs_ok (nodes s1) (path[d := q])" using ins(2,3,6) by (intro refs_ok_update) auto
  have "p_depth (path[d := q] ! 0) = int d" using \<open>p_depth (path ! 0) = int d\<close> L(9) ins(7) by (cases d) simp_all
  then show ?thesis using ins(1) tree_depth [OF tree(1) L(2)] tree refs L(9) unfolding placed_def
    by (intro exI [of _ d] exI [of _ "path[d := q]"] exI [of _ s1]) simp
qed

lemma placed_inserted:
  assumes "ext4_ext_insert_extent env path g 0 s = Some (EOK, path', s')" "inserted d' e g W path' s'"
  shows "placed env s path g (\<lambda>d'' W'. d'' = d' \<and> (\<exists>us vs. W = us @ vs \<and> us \<noteq> [] \<and> last us = e \<and> W' = us @ g # vs))"
  using assms unfolding placed_def inserted_def by blast

section \<open>In front of all extents\<close>

lemma rekey_stays: "stay_ok m (rekey K path k m)"
  by (auto simp: stay_ok_def rekey_at rekey_node_ok)

lemma placed_first:
  assumes at: "found_at s d b path leaf n" and room: "sint (eh_entries (n_hdr n)) < sint (eh_max (n_hdr n))"
    and g: "e_block g = b" "\<not> bit (ee_start_lo g) 31"
    and merge: "leaf_merge 0 (map_option (\<lambda>i. entries_of n ! nat i) (p_extent (path ! d))) g = None" and env: "dirty_marks_only env"
    and above: "\<forall>e \<in> set (extents_below d (nodes s) Root). sint b < ekey e"
  shows "placed env s path g (\<lambda>d' W'. d' = d \<and> W' = g # extents_below d (nodes s) Root)"
proof -
  note L = found_leaf [OF at]
  let ?es = "entries_of n" and ?p = "path ! d" and ?W = "extents_below d (nodes s) Root" and ?m = "nodes s"
  obtain xs ys where W: "?W = xs @ ?es @ ys" using L(12) by blast
  have ex: "case p_extent ?p of None \<Rightarrow> ?es = [] | Some i \<Rightarrow> 0 \<le> i \<and> splits_at ?es b (nat i)"
    using at by (auto simp: found_at_def search_at_def split: option.splits)
  have first: "i = 0" if i: "p_extent ?p = Some i" for i
  proof (rule ccontr)
    assume "i \<noteq> 0"
    then have "0 < nat i" "nat i < length ?es" "ekey (?es ! nat i) \<le> sint b" using ex i by (auto simp: splits_at_def)
    moreover have "?es ! nat i \<in> set ?W" using calculation(2) W by simp
    ultimately show False using above by fastforce
  qed
  have behind: "sint b < ekey e" if "e \<in> set ?es" for e using above that unfolding W by simp
  have zeros: "\<forall>i < d. p_index (path ! i) = Some 0"
    using first_path [of d ?m b path 0 Root] at L(3) above by (auto simp: found_at_def)
  have inner: "\<exists>l N. p_header (path ! i) = Some l \<and> ?m l = Some N \<and> entries_of N \<noteq> [] \<and> l \<noteq> leaf" if i: "i < d" for i
  proof -
    obtain l N c j where N: "p_header (path ! i) = Some l" "?m l = Some N" "node_ok c N" "p_index (path ! i) = Some (int j)" "j < length (entries_of N)"
      using path_node [OF L(3,10), of i] i by auto
    have "tree_ok (d - i) ?m l"
    proof -
      have "?W \<noteq> []"
      proof (cases d)
        case (Suc k)
        then show ?thesis using L(3) by (auto split: option.splits) (metis list.set_intros(1) neq_Nil_conv)
      qed (use i in simp)
      from path_level [OF L(3) this L(4,2,10) less_imp_le [OF i]] show ?thesis using N(1) by (metis option.inject)
    qed
    then have "node_ok (d - i) N" using tree_root_node N(2) by fastforce
    then have "l \<noteq> leaf" using node_depth_unique [of "d - i" N 0] less_imp_diff_less [OF L(2), of i] L(7,8) N(2) i by auto
    then show ?thesis using N by auto
  qed
  let ?M = "\<lambda>n3. rekey b path d (?m(leaf \<mapsto> n3))"
  have not_leaf: "p_header (path ! i) \<noteq> Some leaf" if "i < d" for i using inner [OF that] by auto
  then have M_leaf: "?M n3 leaf = Some n3" for n3 by (auto simp: rekey_at)
  have "\<exists>k s' n'. ext4_ext_insert_leaf env path d g 0 s
       = Some (EOK, False, path[d := ?p\<lparr>p_extent := Some (int k), p_block := ext4_ext_pblk g\<rparr>], s')
     \<and> nodes s' = ?M n' \<and> node_ok 0 n' \<and> k \<le> length ?es
     \<and> entries_of n' = take k ?es @ g # drop k ?es \<and> ordered (entries_of n') \<and> slot n' (int k) = Some g
     \<and> k = (case p_extent ?p of None \<Rightarrow> 0 | Some i \<Rightarrow> if ekey (?es ! nat i) < ekey g then Suc (nat i) else nat i)"
  proof (rule insert_leaf_writes_to [OF L(1,5-8) _ room _ _ merge g(2) env])
    show "ordered ?es" using L(4) unfolding W by (simp add: ordered_append)
    show "case p_extent ?p of None \<Rightarrow> ?es = [] | Some i \<Rightarrow> 0 \<le> i \<and> splits_at ?es (e_block g) (nat i)" unfolding g(1) by (rule ex)
    show "\<forall>e \<in> set ?es. e_block e \<noteq> e_block g" using behind g(1) unfolding ekey_def by (metis less_irrefl)
    fix n3 k assume n3: "k = insert_pos ?es (p_extent ?p) g" "entries_of n3 = take k ?es @ g # drop k ?es" "node_ok 0 n3"
      "eh_depth (n_hdr n3) = eh_depth (n_hdr n)"
    let ?s = "put_node leaf n3 s" and ?path = "path[d := ?p\<lparr>p_extent := Some (case p_extent ?p of None \<Rightarrow> 0 | Some i \<Rightarrow> i)\<rparr>]"
    have s: "nodes ?s = ?m(leaf \<mapsto> n3)" by (simp add: put_node_def)
    have "k = 0"
    proof (cases "p_extent ?p")
      case (Some i)
      then have "i = 0" "?es ! 0 \<in> set ?es" using first ex by (auto simp: splits_at_def)
      then show ?thesis using n3(1) Some behind [of "?es ! 0"] g(1) by (simp add: insert_pos_def ekey_def)
    qed (use n3(1) in \<open>simp add: insert_pos_def\<close>)
    then have e3: "entries_of n3 = g # ?es" using n3(2) by simp
    have "inode_depth ?s = Some d" using L(1) inode_depth_put_node [OF L(7) n3(4)] by simp
    moreover have "\<forall>i < d. p_index (?path ! i) = Some 0" using zeros by simp
    moreover have "\<forall>i < d. \<exists>l N. p_header (?path ! i) = Some l \<and> nodes ?s l = Some N \<and> entries_of N \<noteq> []"
      unfolding s using inner by fastforce
    moreover have "p_extent (?path ! d) = Some 0" "p_header (?path ! d) = Some leaf" using first L(6,9) by (auto split: option.split)
    moreover have "nodes ?s leaf = Some n3" "entries_of n3 \<noteq> []" "d < length ?path" using s e3 L(9) by simp_all
    ultimately obtain s' where "ext4_ext_correct_indexes env ?path ?s = Some (EOK, s')" "nodes s' = rekey (e_block (hd (entries_of n3))) ?path d (nodes ?s)"
      using correct_indexes_rekeys [OF env] by blast
    moreover have "rekey b ?path d m = rekey b path d m" for m by (rule rekey_path) simp
    ultimately show "\<exists>s'. ext4_ext_correct_indexes env ?path ?s = Some (EOK, s') \<and> nodes s' = ?M n3 \<and> ?M n3 leaf = Some n3"
      using M_leaf e3 g(1) s by simp
  qed
  then obtain k s' n' where R: "ext4_ext_insert_leaf env path d g 0 s
       = Some (EOK, False, path[d := ?p\<lparr>p_extent := Some (int k), p_block := ext4_ext_pblk g\<rparr>], s')"
     "nodes s' = ?M n'" "node_ok 0 n'" "entries_of n' = take k ?es @ g # drop k ?es"
     "k = (case p_extent ?p of None \<Rightarrow> 0 | Some i \<Rightarrow> if ekey (?es ! nat i) < ekey g then Suc (nat i) else nat i)" by blast
  have "k = 0"
  proof (cases "p_extent ?p")
    case (Some i)
    then have "?es ! 0 \<in> set ?W" "i = 0" using ex first W by (auto simp: splits_at_def)
    then show ?thesis using R(5) Some above g(1) by (fastforce simp: ekey_def)
  qed (use R(5) in simp)
  then have e': "entries_of n' = g # ?es" using R(4) by simp
  have tree: "tree_ok d (nodes s') Root \<and> extents_below d (nodes s') Root = g # ?W \<and> path_to d (nodes s') path 0 Root leaf"
  proof (cases "d = 0")
    case True
    then have "leaf = Root" "?W = ?es" using L(7,10) by auto
    then show ?thesis using True R(2,3) e' L(6) by simp
  next
    case False
    then have ne: "?W \<noteq> []" using L(3) by (cases d) (auto split: option.splits, metis list.set_intros(1) neq_Nil_conv)
    show ?thesis
    proof (rule rekey_tree [OF R(3) e' g(1) L(7,3) ne L(4,2,10)])
      show "\<forall>i x. 0 \<le> i \<longrightarrow> i < 0 + d \<longrightarrow> p_header (path ! i) = Some x \<longrightarrow> nodes s' x = map_option (rekey_node b) (?m x)"
        unfolding R(2) using not_leaf by (auto simp: rekey_at)
      show "\<forall>x \<in> nodes_below d ?m Root. x \<noteq> leaf \<longrightarrow> (\<forall>i. 0 \<le> i \<longrightarrow> i < 0 + d \<longrightarrow> p_header (path ! i) \<noteq> Some x) \<longrightarrow> nodes s' x = ?m x"
        unfolding R(2) by (auto simp: rekey_at)
    qed (use zeros M_leaf R(2) in simp_all)
  qed
  have "stay_ok ?m (nodes s')"
    unfolding R(2) by (rule stay_ok_trans [OF stay_ok_put [where m = "nodes s" and l = leaf, OF L(7,8) R(3)] rekey_stays])
  then have "refs_ok (nodes s') path" using at by (auto simp: found_at_def intro: stay_ok_refs)
  moreover have "nodes s' leaf = Some n'" using M_leaf R(2) by simp
  ultimately have "refs_ok (nodes s') (path[d := ?p\<lparr>p_extent := Some (int k), p_block := ext4_ext_pblk g\<rparr>])"
    using L(6) R(3) by (intro refs_ok_update) auto
  moreover have "p_depth (path[d := ?p\<lparr>p_extent := Some (int k), p_block := ext4_ext_pblk g\<rparr>] ! 0) = int d"
    using at L(9) by (cases d) (simp_all add: found_at_def)
  ultimately show ?thesis unfolding placed_def using insert_extent_no_split [OF L(1) R(1)] tree tree_depth [of d s'] L(2,9)
    by (intro exI [of _ d] exI [of _ "path[d := ?p\<lparr>p_extent := Some (int k), p_block := ext4_ext_pblk g\<rparr>]"] exI [of _ s']) simp
qed

section \<open>Behind an extent\<close>

text \<open>What splitting and growing rely on: the block layer, enough free blocks, and the sizes of the nodes.\<close>

definition may_split :: "'w ext4_env \<Rightarrow> ('w \<Rightarrow> ext4_fsblk_t set) \<Rightarrow> nat \<Rightarrow> 'w ext4_state \<Rightarrow> bool" where
  "may_split env F d s \<longleftrightarrow> block_buffers_ok env \<and> gives_blocks env F \<and> Suc d \<le> card (frees F s) \<and> 4 < sint (ext4_ext_space_block env)
     \<and> (\<forall>s. reads_clean env s) \<and> (\<forall>s k. calloc_ok env s k) \<and> d < 65535 \<and> nodes_fit env d (nodes s)
     \<and> (\<exists>root. nodes s Root = Some root \<and> length (n_slots root) = 4)"

definition has_room :: "ext4_node \<Rightarrow> bool" where
  "has_room n \<longleftrightarrow> sint (eh_entries (n_hdr n)) < sint (eh_max (n_hdr n))"

lemma placed_new:
  assumes at: "found_at s d b path leaf n" and room: "has_room n \<or> may_split env F d s" and env: "dirty_marks_only env"
    and ex: "p_extent (path ! d) = Some (int j)" and le: "ekey (entries_of n ! j) < ekey g"
    and g: "e_block g = b" "\<forall>e \<in> set (entries_of n). e_block e \<noteq> b" "\<not> bit (ee_start_lo g) 31" "leaf_merge 0 (Some (entries_of n ! j)) g = None"
  shows "placed env s path g (\<lambda>d' W'. (d' = d \<or> d' = Suc d)
    \<and> (\<exists>us vs. extents_below d (nodes s) Root = us @ vs \<and> us \<noteq> [] \<and> last us = entries_of n ! j \<and> W' = us @ g # vs))"
proof -
  note L = found_leaf [OF at]
  let ?W = "extents_below d (nodes s) Root" and ?es = "entries_of n"
  have sat: "search_at s d b path leaf n" using at by (simp add: found_at_def)
  have j: "splits_at ?es b j" "j < length ?es" using sat ex by (auto simp: search_at_def splits_at_def)
  show ?thesis
  proof (cases "has_room n")
    case True
    obtain xs ys where ctx: "?W = xs @ ?es @ ys"
      "\<And>n'. node_ok 0 n' \<Longrightarrow> d = 0 \<or> entries_of n' \<noteq> [] \<and> e_block (hd (entries_of n')) = e_block (hd ?es) \<Longrightarrow>
        tree_ok d ((nodes s)(leaf \<mapsto> n')) Root \<and> leaves d ((nodes s)(leaf \<mapsto> n')) Root = leaves d (nodes s) Root
        \<and> extents_below d ((nodes s)(leaf \<mapsto> n')) Root = xs @ entries_of n' @ ys"
      using leaf_context [OF L(3,4,2,11,7)] by blast
    have pos: "Suc j = insert_pos ?es (p_extent (path ! d)) g" using ex le by (simp add: insert_pos_def)
    have "leaf_merge 0 (map_option (\<lambda>i. ?es ! nat i) (p_extent (path ! d))) g = None" using ex g(4) by simp
    from leaf_gets_inserted [OF sat True [unfolded has_room_def] g(1-3) this env pos] have
      gets: "leaf_gets env s d path leaf g (take (Suc j) ?es @ g # drop (Suc j) ?es)" by simp
    have "e_block (hd (take (Suc j) ?es @ g # drop (Suc j) ?es)) = e_block (hd ?es)" using j(2) by (cases ?es) simp_all
    then have "placed env s path g (\<lambda>d' W'. d' = d \<and> W' = xs @ (take (Suc j) ?es @ g # drop (Suc j) ?es) @ ys)"
      using ctx(2) by (intro placed_in_leaf [OF at _ gets]) simp_all
    then show ?thesis
    proof (rule placed_weaken)
      fix d' W' assume W': "d' = d \<and> W' = xs @ (take (Suc j) ?es @ g # drop (Suc j) ?es) @ ys"
      have "?W = (xs @ take (Suc j) ?es) @ (drop (Suc j) ?es @ ys)" using ctx(1) by simp
      moreover have "xs @ take (Suc j) ?es \<noteq> []" "last (xs @ take (Suc j) ?es) = ?es ! j" using j(2) by (auto simp: take_Suc_conv_app_nth)
      ultimately show "(d' = d \<or> d' = Suc d) \<and> (\<exists>us vs. ?W = us @ vs \<and> us \<noteq> [] \<and> last us = ?es ! j \<and> W' = us @ g # vs)"
        using W' by (metis append.assoc append_Cons)
    qed
  next
    case False
    then have fn: "full_node n" using full_length [OF L(8)] node_ok_length [OF L(8)] L(8) by (simp add: has_room_def node_ok_def)
    have may: "block_buffers_ok env" "gives_blocks env F" "Suc d \<le> card (frees F s)" "4 < sint (ext4_ext_space_block env)"
      "\<forall>s. reads_clean env s" "\<forall>s k. calloc_ok env s k" "d < 65535" "nodes_fit env d (nodes s)"
      using room False by (simp_all add: may_split_def)
    obtain root where root: "nodes s Root = Some root" "length (n_slots root) = 4" using room False by (auto simp: may_split_def)
    have path: "path_splits d (nodes s) (e_block g) path 0 Root" "Suc d < length path" "p_maxdepth (path ! 0) = int (Suc d)"
      "p_depth (path ! 0) = int d" "refs_ok (nodes s) path" "\<forall>k > d. k < length path \<longrightarrow> p_lb_id (path ! k) = 0"
      using at g(1) by (simp_all add: found_at_def)
    have es: "splits_at ?es (e_block g) j" "\<forall>e \<in> set ?es. e_block e \<noteq> e_block g" using j(1) g(1,2) by simp_all
    from insert_full_leaf [OF may(1-6) L(1) may(7) L(3,4) may(8) root L(10) path(1-4) ex path(5,6) L(7,8) es(1) le es(2) g(3,4) fn]
    obtain d' path' s' where R: "ext4_ext_insert_extent env path g 0 s = Some (EOK, path', s')" "d' = d \<or> d' = Suc d"
      "inserted d' (?es ! j) g ?W path' s'" by blast
    from placed_inserted [OF R(1,3)] show ?thesis by (rule placed_weaken) (use R(2) in blast)
  qed
qed

text \<open>No written extent that ends at the block has as many blocks as the length can say.\<close>

definition not_full :: "u32 \<Rightarrow> ext4_entry list \<Rightarrow> bool" where
  "not_full b xs \<longleftrightarrow> (\<forall>e \<in> set xs. eend e = sint b \<longrightarrow> ee_len e \<noteq> 0x7fff)"

lemma placed_behind:
  assumes at: "found_at s d b path leaf n" and room: "has_room n \<or> may_split env F d s" and env: "dirty_marks_only env"
    and pb: "storable pb" and b: "sint b + 1 < 2 ^ 31"
    and none: "extent_map (extents_below d (nodes s) Root) (sint b) = None" and full: "not_full b (extents_below d (nodes s) Root)"
    and ex: "p_extent (path ! d) = Some (int j)" and le: "ekey (entries_of n ! j) \<le> sint b"
  shows "placed env s path (block_extent b pb) (\<lambda>d' W'. (d' = d \<or> d' = Suc d) \<and> grown b pb (extents_below d (nodes s) Root) W')"
proof -
  note L = found_leaf [OF at]
  let ?W = "extents_below d (nodes s) Root" and ?es = "entries_of n" and ?g = "block_extent b pb"
  let ?e = "?es ! j"
  note g = block_extent_parts [OF pb, of b]
  have sat: "search_at s d b path leaf n" using at by (simp add: found_at_def)
  then have dis: "disjoint_extents ?W" and j: "splits_at ?es b j" "j < length ?es" "closest ?W b = ?e"
    using ex by (auto simp: search_at_def splits_at_def)
  obtain xs ys where ctx: "?W = xs @ ?es @ ys"
    "\<And>n'. node_ok 0 n' \<Longrightarrow> d = 0 \<or> entries_of n' \<noteq> [] \<and> e_block (hd (entries_of n')) = e_block (hd ?es) \<Longrightarrow>
      tree_ok d ((nodes s)(leaf \<mapsto> n')) Root \<and> leaves d ((nodes s)(leaf \<mapsto> n')) Root = leaves d (nodes s) Root
      \<and> extents_below d ((nodes s)(leaf \<mapsto> n')) Root = xs @ entries_of n' @ ys"
    using leaf_context [OF L(3,4,2,11,7)] by blast
  have e: "0 < ext_len ?e" "eend ?e < 2 ^ 31" using dis j(2) unfolding ctx(1) by (auto simp: disjoint_extents_def eend_def)
  have "?e \<in> set ?W" using j(2) unfolding ctx(1) by simp
  then have "\<not> covers ?e (sint b)" using none by (simp add: extent_map_None)
  then have fin: "eend ?e \<le> sint b" using le by (simp add: covers_eend)
  have sides: "(\<forall>u \<in> set us. eend u \<le> ekey ?e) \<and> (\<forall>v \<in> set vs. sint b < ekey v)" if "?W = us @ ?e # vs" for us vs
    using disjoint_split(1) [of us ?e vs] dis closest_behind [of us ?e vs b] disjoint_ordered [OF dis] j(3) le
    unfolding that by (auto simp: eend_def)
  show ?thesis
  proof (cases "ext4_ext_can_append ?e ?g")
    case True
    note adj = append_adjacent [OF True e]
    have eq: "eend ?e = sint b" "pb = ext4_ext_pblk ?e + word_of_int (ext_len ?e)" using adj(3,4) g(1,5) by simp_all
    have "ee_len ?e \<noteq> 0x7fff" using full eq(1) \<open>?e \<in> set ?W\<close> by (simp add: not_full_def)
    from merged_entry [OF adj(1) pb this] obtain f where f: "merge_len ?e ?g ?e = Some f" "e_block f = e_block ?e" "ekey f = ekey ?e"
      "ext_len f = ext_len ?e + 1" "\<not> ext4_ext_is_unwritten f" "ext4_ext_pblk f = ext4_ext_pblk ?e" by blast
    have "e_block ?e \<noteq> e_block ?g" using e(1) eq(1) g(1) by (auto simp: ekey_def eend_def)
    moreover have "leaf_merge 0 (Some ?e) ?g = Some (merge_len ?e ?g)" using True by (simp add: leaf_merge_def)
    ultimately have gets: "leaf_gets env s d path leaf ?g (?es[j := f])" using f(1) env by (intro leaf_gets_merged [OF sat ex])
    have upd: "?es[j := f] = take j ?es @ f # drop (Suc j) ?es" by (rule upd_conv_take_nth_drop [OF j(2)])
    have "hd ?es = ?e" if "j = 0" using j(2) that by (simp add: hd_conv_nth)
    then have "e_block (hd (?es[j := f])) = e_block (hd ?es)" using f(2) j(2) by (cases j; cases ?es) auto
    then have "placed env s path ?g (\<lambda>d' W'. d' = d \<and> W' = xs @ ?es[j := f] @ ys)"
      using ctx(2) j(2) by (intro placed_in_leaf [OF at _ gets]) auto
    moreover have W: "?W = (xs @ take j ?es) @ ?e # (drop (Suc j) ?es @ ys)" using id_take_nth_drop [OF j(2)] ctx(1) by simp
    then have "grown b pb ?W ((xs @ take j ?es) @ f # (drop (Suc j) ?es @ ys))"
      unfolding W using adj(1) sides [OF W] f(3-6) eq b by (intro grown_append dis [unfolded W]) (auto simp: written_def)
    ultimately show ?thesis unfolding upd by (elim placed_weaken) simp
  next
    case False
    have ne: "\<forall>x \<in> set ?W. e_block x \<noteq> b"
    proof
      fix x assume "x \<in> set ?W"
      then have "\<not> covers x (sint b)" "0 < ext_len x" using none dis by (auto simp: extent_map_None disjoint_extents_def)
      then show "e_block x \<noteq> b" by (auto simp: covers_def ekey_def)
    qed
    have lt: "ekey ?e < ekey ?g" using e(1) fin g(1) by (simp add: eend_def)
    have "\<not> ext4_ext_can_prepend ?e ?g"
    proof
      assume "ext4_ext_can_prepend ?e ?g"
      then have "ext4_ext_can_append ?g ?e" by (simp add: can_prepend_append)
      then have "ekey ?e = eend ?g" using g(1,3) b by (intro append_adjacent(3)) (simp_all add: eend_def)
      then show False using g(1,3) le by (simp add: eend_def)
    qed
    then have merge: "leaf_merge 0 (Some ?e) ?g = None" using False by (simp add: leaf_merge_def)
    have "\<forall>x \<in> set ?es. e_block x \<noteq> b" using ne unfolding ctx(1) by simp
    from placed_new [OF at room env ex lt g(7) this g(6) merge] show ?thesis
    proof (rule placed_weaken)
      fix d' W' assume R: "(d' = d \<or> d' = Suc d) \<and> (\<exists>us vs. ?W = us @ vs \<and> us \<noteq> [] \<and> last us = ?e \<and> W' = us @ ?g # vs)"
      then obtain us vs where W: "?W = us @ vs" "us \<noteq> []" "last us = ?e" "W' = us @ ?g # vs" by blast
      then have "?W = butlast us @ ?e # vs" by (metis append_butlast_last_id append.assoc append_Cons append_Nil)
      note side = sides [OF this]
      have "eend u \<le> sint b" if "u \<in> set us" for u
      proof -
        have "us = butlast us @ [?e]" using W(2,3) by (metis append_butlast_last_id)
        then have "u \<in> set (butlast us) \<or> u = ?e" using that by (metis Un_iff empty_iff empty_set insertE list.set(2) set_append)
        then show ?thesis using side fin le by fastforce
      qed
      then have "grown b pb ?W (us @ ?g # vs)" using dis side b g(1,3-5) unfolding W(1) by (intro grown_insert) auto
      then show "(d' = d \<or> d' = Suc d) \<and> grown b pb ?W W'" using R W(4) by simp
    qed
  qed
qed

section \<open>Wherever the block belongs\<close>

text \<open>
  The block comes behind an extent, or the first extent does not start directly behind it, in the file and on the disk.
\<close>

definition has_place :: "u32 \<Rightarrow> ext4_fsblk_t \<Rightarrow> ext4_entry list \<Rightarrow> bool" where
  "has_place b pb xs \<longleftrightarrow> (\<exists>e \<in> set xs. ekey e \<le> sint b)
     \<or> (\<forall>e \<in> set xs. \<not> (ekey e = sint b + 1 \<and> ext4_ext_pblk e = pb + 1))"

lemma placed_block:
  assumes at: "found_at s d b path leaf n"
    and room: "has_room n \<or> may_split env F d s \<and> (\<exists>e \<in> set (extents_below d (nodes s) Root). ekey e \<le> sint b)" and env: "dirty_marks_only env"
    and pb: "storable pb" and b: "sint b + 1 < 2 ^ 31"
    and none: "extent_map (extents_below d (nodes s) Root) (sint b) = None" and full: "not_full b (extents_below d (nodes s) Root)"
    and place: "has_place b pb (extents_below d (nodes s) Root)"
  shows "placed env s path (block_extent b pb) (\<lambda>d' W'. (d' = d \<or> d' = Suc d) \<and> grown b pb (extents_below d (nodes s) Root) W')"
proof (cases "\<exists>i. p_extent (path ! d) = Some i \<and> ekey (entries_of n ! nat i) \<le> sint b")
  case True
  then obtain j where j: "p_extent (path ! d) = Some (int j)" "ekey (entries_of n ! j) \<le> sint b"
    using at by (auto simp: found_at_def search_at_def split: option.splits) (metis int_nat_eq)
  have "has_room n \<or> may_split env F d s" using room by blast
  from placed_behind [OF at this env pb b none full j] show ?thesis .
next
  case False
  note L = found_leaf [OF at]
  let ?W = "extents_below d (nodes s) Root" and ?es = "entries_of n" and ?g = "block_extent b pb"
  note g = block_extent_parts [OF pb, of b]
  have sat: "search_at s d b path leaf n" using at by (simp add: found_at_def)
  have dis: "disjoint_extents ?W" using sat by (simp add: search_at_def)
  have above: "\<forall>x \<in> set ?W. sint b < ekey x"
  proof (cases "p_extent (path ! d)")
    case None
    then have "extents_below 0 (nodes s) leaf = []" using sat by (simp add: search_at_def)
    then have "?W = []" using leaf_nonempty [OF L(3) _ L(11)] by auto
    then show ?thesis by simp
  next
    case (Some i)
    then show ?thesis using False sat closest_above [OF refl, of b ?W] by (auto simp: search_at_def not_le)
  qed
  then have hr: "has_room n" "\<forall>e \<in> set ?W. \<not> (ekey e = sint b + 1 \<and> ext4_ext_pblk e = pb + 1)"
    using room place by (auto simp: has_place_def not_le [symmetric])
  obtain xs ys where ctx: "?W = xs @ ?es @ ys" using L(12) by blast
  have no_append: "\<not> ext4_ext_can_append e ?g" if "e \<in> set ?W" for e
  proof
    assume a: "ext4_ext_can_append e ?g"
    have e: "0 < ext_len e" "eend e < 2 ^ 31" using dis that by (simp_all add: disjoint_extents_def eend_def)
    have "sint b = eend e" using append_adjacent(3) [OF a e] g(1) by simp
    then show False using above that e(1) by (force simp: eend_def)
  qed
  have no_prepend: "\<not> ext4_ext_can_prepend e ?g" if "e \<in> set ?W" for e
  proof
    assume "ext4_ext_can_prepend e ?g"
    then have "ext4_ext_can_append ?g e" by (simp add: can_prepend_append)
    then have "ekey e = eend ?g" "ext4_ext_pblk e = pb + 1"
      using append_adjacent(3,4) [of ?g e] g(1,3,5) b by (simp_all add: eend_def)
    then show False using hr(2) that g(1,3) by (simp add: eend_def)
  qed
  have "leaf_merge 0 (map_option (\<lambda>i. ?es ! nat i) (p_extent (path ! d))) ?g = None"
  proof (cases "p_extent (path ! d)")
    case (Some i)
    then have "?es ! nat i \<in> set ?W" using sat ctx by (simp add: search_at_def splits_at_def)
    then show ?thesis using Some no_append no_prepend by (simp add: leaf_merge_def)
  qed (simp add: leaf_merge_def)
  from placed_first [OF at hr(1) [unfolded has_room_def] g(7,6) this env above] show ?thesis
  proof (rule placed_weaken)
    fix d' W' assume "d' = d \<and> W' = ?g # ?W"
    moreover have "grown b pb ([] @ ?W) ([] @ ?g # ?W)" using dis above b g by (intro grown_insert) simp_all
    ultimately show "(d' = d \<or> d' = Suc d) \<and> grown b pb ?W W'" by simp
  qed
qed

end
