(* ===== verification/Ext4_Extent_Create.thy ===== *)
theory Ext4_Extent_Create
  imports Ext4_Extent_Insertion
begin

text \<open>
  What \<open>ext4_extent_get_blocks\<close> with \<open>create\<close> does for a block that is not mapped, in a tree of any depth, with splits and
  growth where they are needed, and what a lookup finds afterwards.
\<close>

section \<open>Allocating a block\<close>

definition leaves_have_room :: "nat \<Rightarrow> (loc \<rightharpoonup> ext4_node) \<Rightarrow> bool" where
  "leaves_have_room d m \<longleftrightarrow> (\<forall>l \<in> set (leaves d m Root). \<forall>n. m l = Some n \<longrightarrow> has_room n)"

lemma next_loop_total:
  assumes at: "search_at s d b path leaf n"
  shows "k \<le> Suc d \<Longrightarrow> \<exists>v. next_allocated_loop env (int d) path s k = Some v"
proof (induction k)
  case (Suc k)
  obtain l m c where m: "p_header (path ! k) = Some l" "nodes s l = Some m" "node_ok c m"
    "k < d \<Longrightarrow> \<exists>j. p_index (path ! k) = Some (int j) \<and> j < length (entries_of m)" "k = d \<Longrightarrow> l = leaf \<and> m = n"
    using search_node [OF at, of k] Suc.prems by (metis Suc_le_mono)
  have p: "path_at path k = Some (path ! k)" "node_at s (Some l) = Some m"
    using at Suc.prems m(2) by (simp_all add: search_at_def path_at_def node_at_def)
  obtain v where v: "next_allocated_loop env (int d) path s k = Some v" using Suc by auto
  have slot: "\<exists>e. slot m (int j + 1) = Some e" if "j < length (entries_of m)" "int j \<noteq> EXT_LAST (n_hdr m)" for j
    using that node_ok_slot [OF m(3), of "int j + 1"] node_ok_last [OF m(3)] by auto
  show ?case
  proof (cases "k = d")
    case True
    have "\<exists>j. i = int j \<and> j < length (entries_of m)" if "p_extent (path ! k) = Some i" for i
      using at that True m(5) by (intro exI [of _ "nat i"]) (auto simp: search_at_def splits_at_def)
    then show ?thesis using True p m(1) v slot by (fastforce split: option.split)
  next
    case False
    then obtain j where "p_index (path ! k) = Some (int j)" "j < length (entries_of m)" using m(4) Suc.prems by auto
    then show ?thesis using False p m(1) v slot by fastforce
  qed
qed simp

lemma next_allocated_total:
  assumes "search_at s d b path leaf n" "p_depth (path ! 0) = int d"
  shows "\<exists>v. ext4_ext_next_allocated_block env path s = Some v"
proof -
  have "0 < length path" using assms(1) by (auto simp: search_at_def)
  then have "path_at path 0 = Some (path ! 0)" by (simp add: path_at_def)
  moreover have "nat (int d + 1) = Suc d" by simp
  ultimately show ?thesis using next_loop_total [OF assms(1), of "Suc d" env] assms(2)
    by (simp add: ext4_ext_next_allocated_block_def del: next_allocated_loop.simps)
qed

lemma find_goal_total:
  assumes at: "search_at s d b path leaf n" "p_depth (path ! 0) = int d"
  shows "\<exists>goal. ext4_ext_find_goal env (Some path) block s = Some goal"
proof -
  obtain l m c where m: "p_header (path ! d) = Some l" "nodes s l = Some m" "node_ok c m" "m = n"
    using search_node [OF at(1), of d] by blast
  have "\<exists>e. entry_at s (p_header (path ! d)) (Some i) = Some e" if "p_extent (path ! d) = Some i" for i
    using at(1) that m node_ok_slot [OF m(3), of i] by (auto simp: search_at_def splits_at_def entry_at_def node_at_def)
  then show ?thesis using at
    by (auto simp: ext4_ext_find_goal_def path_at_def search_at_def Let_def split: option.split)
qed

text \<open>What the function does to the extents, from what the allocator and the insertion do.\<close>

lemma create_runs:
  assumes tree: "inode_depth s = Some d" "tree_ok d (nodes s) Root" "disjoint_extents (extents_below d (nodes s) Root)"
    and env: "reads_clean env s" "calloc_ok env s (d + 2)" "keeps_nodes env" "in_range_ok env"
    and none: "extent_map (extents_below d (nodes s) Root) (sint b) = None"
    and alloc: "\<And>w path leaf n goal. ext4_find_extent env b None s = Some (EOK, Some path, s\<lparr>world := w\<rparr>) \<Longrightarrow>
        found_at s d b path leaf n \<Longrightarrow> ext4_ext_find_goal env (Some path) b (s\<lparr>world := w\<rparr>) = Some goal \<Longrightarrow>
        \<exists>pb t. ext4_balloc_alloc_block env goal 0 (s\<lparr>world := w\<rparr>) = (EOK, pb, t) \<and> nodes t = nodes s \<and> A pb t"
    and pb: "\<And>pb t. A pb t \<Longrightarrow> storable pb \<and> pb \<noteq> 0"
    and inserts: "\<And>pb t path leaf n. A pb t \<Longrightarrow> nodes t = nodes s \<Longrightarrow> found_at t d b path leaf n \<Longrightarrow>
        placed env t path (block_extent b pb) (Q pb)"
  shows "\<exists>pb t d' s'. A pb t \<and> ext4_extent_get_blocks env b max_blocks True s
       = Some (EOK, pb, if u32_lt max_blocks 1 then max_blocks else 1, s')
     \<and> inode_depth s' = Some d' \<and> tree_ok d' (nodes s') Root \<and> Q pb d' (extents_below d' (nodes s') Root)"
proof -
  let ?W = "extents_below d (nodes s) Root" and ?e = "closest (extents_below d (nodes s) Root) b"
  obtain path w leaf where find: "ext4_find_extent env b None s = Some (EOK, Some path, s\<lparr>world := w\<rparr>)"
    "length path = d + 2" "p_header (path ! d) = Some leaf"
    and ext: "if ?W = [] then p_extent (path ! d) = None
        else \<exists>i. p_extent (path ! d) = Some i \<and> entry_at s (Some leaf) (Some i) = Some ?e"
    and refs: "refs_ok (nodes s) path" "p_depth (path ! 0) = int d" and found: "leaf_found (nodes s) d b path leaf"
    and array: "path_splits d (nodes s) b path 0 Root" "\<forall>k > d. k < length path \<longrightarrow> p_lb_id (path ! k) = 0" "p_maxdepth (path ! 0) = int (d + 1)"
    using find_extent_found [OF tree(1,2) disjoint_ordered [OF tree(3)] env(1,2), of b] by (auto split: if_splits)
  obtain n where n: "nodes s leaf = Some n" "path_to d (nodes s) path 0 Root leaf"
    and slot: "case p_extent (path ! d) of None \<Rightarrow> entries_of n = [] | Some i \<Rightarrow> 0 \<le> i \<and> splits_at (entries_of n) b (nat i)"
    using found by (auto simp: leaf_found_def)
  have ok: "node_ok 0 n" using leaf_ok [OF tree(2) path_leaf [OF n(2)]] n(1) by fastforce
  have close: "?e = entries_of n ! nat i" if "p_extent (path ! d) = Some i" for i
    using that slot ext n(1) node_ok_slot [OF ok, of i] by (auto simp: entry_at_def node_at_def splits_at_def split: if_splits)
  have "search_at s d b path leaf n"
    using tree find(2) n slot close by (auto simp: search_at_def split: option.split)
  then have at: "found_at s d b path leaf n" using refs find(2) array by (simp add: found_at_def)
  have sw: "found_at (s\<lparr>world := w\<rparr>) d b path leaf n" using found_at_nodes [of "s\<lparr>world := w\<rparr>" s] at by simp
  then have sat: "search_at (s\<lparr>world := w\<rparr>) d b path leaf n" by (simp add: found_at_def)
  obtain nb goal where walk: "ext4_ext_next_allocated_block env path (s\<lparr>world := w\<rparr>) = Some nb"
    "ext4_ext_find_goal env (Some path) b (s\<lparr>world := w\<rparr>) = Some goal"
    using next_allocated_total [OF sat refs(2)] find_goal_total [OF sat refs(2)] by blast
  obtain pb t where t: "ext4_balloc_alloc_block env goal 0 (s\<lparr>world := w\<rparr>) = (EOK, pb, t)" "nodes t = nodes s" "A pb t"
    using alloc [OF find(1) at walk(2)] by blast
  have "placed env t path (block_extent b pb) (Q pb)" using inserts [OF t(3,2)] found_at_nodes [OF t(2)] at by blast
  then obtain d' path' s1 where ins: "ext4_ext_insert_extent env path (block_extent b pb) 0 t = Some (EOK, path', s1)"
     "inode_depth s1 = Some d'" "tree_ok d' (nodes s1) Root" "refs_ok (nodes s1) path'" "p_depth (path' ! 0) = int d'" "d' < length path'"
     "Q pb d' (extents_below d' (nodes s1) Root)" unfolding placed_def by blast
  let ?c = "if u32_lt max_blocks 1 then max_blocks else 1"
  obtain s' where s': "get_blocks_out2 env EOK pb ?c path' s1 = Some (EOK, pb, ?c, s')" "view (nodes s') = view (nodes s1)"
    using get_blocks_out2_view [OF env(3) ins(4-6)] by blast
  have miss: "\<not> IN_RANGE env b (le32_to_cpu (e_block ?e)) (u32_of_u16 (ucast (ext4_ext_get_actual_len ?e)))" if "?W \<noteq> []"
  proof -
    have "?e \<in> set ?W" by (rule closest_in [OF that])
    then have "0 < ext_len ?e \<and> ekey ?e + ext_len ?e < 2 ^ 31" "\<not> covers ?e (sint b)"
      using tree(3) none by (auto simp: disjoint_extents_def extent_map_None)
    then show ?thesis using env(4) by (simp add: in_range_ok_def sint_mapped_len covers_def ekey_def endian_defs)
  qed
  have "ext4_extent_get_blocks env b max_blocks True s = get_blocks_create env b max_blocks path (s\<lparr>world := w\<rparr>)"
    using find ext miss tree(1)
    by (auto simp: ext4_extent_get_blocks_def entry_at_def node_at_def path_at_def inode_depth_def split: if_splits)
  also have "\<dots> = get_blocks_out2 env EOK pb ?c path' s1"
    using walk t(1) ins(1) pb [OF t(3)] block_extent_parts(5) [of pb]
    by (simp add: get_blocks_create_def ext4_new_meta_blocks_def ext4_allocate_single_block_def get_blocks_out_def Let_def)
  finally have "ext4_extent_get_blocks env b max_blocks True s = Some (EOK, pb, ?c, s')" using s'(1) by simp
  moreover have "inode_depth s' = Some d'" using view_depth [OF s'(2)] ins(2) by simp
  moreover have "tree_ok d' (nodes s') Root" "Q pb d' (extents_below d' (nodes s') Root)" using view_tree [OF s'(2), of d' Root] ins(3,7) by simp_all
  ultimately show ?thesis using t(3) by blast
qed

text \<open>The block that the allocator hands out is no node and is not free any more.\<close>

lemma create_block:
  assumes tree: "inode_depth s = Some d" "tree_ok d (nodes s) Root" "disjoint_extents (extents_below d (nodes s) Root)"
    and env: "block_buffers_ok env" "in_range_ok env" "\<forall>s. reads_clean env s" "\<forall>s k. calloc_ok env s k"
    and blocks: "gives_blocks env F" "d + 2 \<le> card (F (world s))" "\<forall>b \<in> F (world s). nodes s (Blk b) = None"
    and sizes: "d < 65535" "nodes_fit env d (nodes s)" "nodes s Root = Some root" "length (n_slots root) = 4" "4 < sint (ext4_ext_space_block env)"
    and b: "sint b + 1 < 2 ^ 31" "extent_map (extents_below d (nodes s) Root) (sint b) = None" "not_full b (extents_below d (nodes s) Root)"
    and place: "(\<exists>e \<in> set (extents_below d (nodes s) Root). ekey e \<le> sint b)
      \<or> leaves_have_room d (nodes s) \<and> (\<forall>pb \<in> F (world s). has_place b pb (extents_below d (nodes s) Root))"
  shows "\<exists>pb d' s'. pb \<in> F (world s) \<and> ext4_extent_get_blocks env b max_blocks True s
       = Some (EOK, pb, if u32_lt max_blocks 1 then max_blocks else 1, s')
     \<and> inode_depth s' = Some d' \<and> tree_ok d' (nodes s') Root \<and> (d' = d \<or> d' = Suc d)
     \<and> grown b pb (extents_below d (nodes s) Root) (extents_below d' (nodes s') Root)"
proof -
  let ?W = "extents_below d (nodes s) Root"
  let ?A = "\<lambda>pb t. pb \<in> F (world s) \<and> storable pb \<and> pb \<noteq> 0 \<and> Suc d \<le> card (frees F t)"
  have dm: "dirty_marks_only env" using env(1) by (simp add: block_buffers_ok_def)
  have "\<exists>pb t d' s'. ?A pb t \<and> ext4_extent_get_blocks env b max_blocks True s
       = Some (EOK, pb, if u32_lt max_blocks 1 then max_blocks else 1, s')
     \<and> inode_depth s' = Some d' \<and> tree_ok d' (nodes s') Root \<and> ((d' = d \<or> d' = Suc d) \<and> grown b pb ?W (extents_below d' (nodes s') Root))"
  proof (rule create_runs [OF tree env(3) [rule_format] env(4) [rule_format] buffers_keep [OF env(1)] env(2) b(2),
      where Q = "\<lambda>pb d' W'. (d' = d \<or> d' = Suc d) \<and> grown b pb ?W W'"])
    fix w path leaf n goal
    let ?s = "s\<lparr>world := w\<rparr>"
    assume find: "ext4_find_extent env b None s = Some (EOK, Some path, ?s)"
    have w: "F (world ?s) = F (world s)" by (rule find_free [OF blocks(1) find])
    have all: "frees F ?s = F (world s)" using w blocks(3) by (simp add: free_block_def)
    have "0 < card (F (world s))" using blocks(2) by linarith
    then obtain b0 where "free_block F ?s b0" using all by (metis card_gt_0_iff all_not_in_conv mem_Collect_eq)
    then obtain pb t where t: "ext4_balloc_alloc_block env goal 0 ?s = (EOK, pb, t)" "free_block F ?s pb" "nodes t = nodes ?s"
      "F (world t) = F (world ?s) - {pb}" "pb \<noteq> 0" "storable pb" by (rule allocated [OF blocks(1)])
    have pb: "pb \<in> F (world s)" using t(2) w by (simp add: free_block_def)
    have "frees F t = F (world s) - {pb}" using t(3,4) w blocks(3) by (auto simp: free_block_def)
    then have "card (frees F t) = card (F (world s)) - 1" using pb by simp
    then have "?A pb t" using pb t(5,6) blocks(2) by simp
    then show "\<exists>pb t. ext4_balloc_alloc_block env goal 0 ?s = (EOK, pb, t) \<and> nodes t = nodes s \<and> ?A pb t" using t(1,3) by auto
  next
    fix pb t path leaf n
    assume A: "?A pb t" and t: "nodes t = nodes s" and at: "found_at t d b path leaf n"
    note L = found_leaf [OF at]
    have may: "may_split env F d t" using A env blocks(1) sizes t by (simp add: may_split_def)
    have room: "has_room n" if "leaves_have_room d (nodes s)" using that L(7,11) unfolding t by (simp add: leaves_have_room_def)
    have "has_room n \<or> may_split env F d t \<and> (\<exists>e \<in> set (extents_below d (nodes t) Root). ekey e \<le> sint b)"
      using place room may unfolding t by blast
    moreover have "has_place b pb (extents_below d (nodes t) Root)" using place A unfolding t by (auto simp: has_place_def)
    ultimately show "placed env t path (block_extent b pb) (\<lambda>d' W'. (d' = d \<or> d' = Suc d) \<and> grown b pb ?W W')"
      using placed_block [OF at _ dm _ b(1)] A b(2,3) unfolding t by blast
  qed auto
  then show ?thesis by blast
qed

section \<open>The map after it\<close>

text \<open>
  C2. Refinement of a map update: in a well-formed tree of any depth whose extents do not overlap, full nodes or not,
  \<open>ext4_extent_get_blocks\<close> with \<open>create\<close> for a block that is not mapped reports success and one of the free blocks, and
  afterwards the tree, which is well-formed and without overlaps again and at most one level deeper, maps the block to it and
  every other block as it did.  Nodes that are full are split, and the tree grows when all of them are, so two more free blocks
  are needed than the tree has index levels.  The block has to come behind an extent; or in front of all of them, where the leaves have
  room and the first extent does not start directly behind the new block on the disk as well.  No extent of 0x7fff blocks may
  end right in front of it (\<open>not_full\<close>).
\<close>

theorem ext4_create_block_correct:
  assumes "inode_depth s = Some d" "tree_ok d (nodes s) Root" "disjoint_extents (extents_below d (nodes s) Root)"
    and "block_buffers_ok env" "in_range_ok env" "\<forall>s. reads_clean env s" "\<forall>s k. calloc_ok env s k"
    and "gives_blocks env F" "d + 2 \<le> card (F (world s))" "\<forall>b \<in> F (world s). nodes s (Blk b) = None"
    and "d < 65535" "nodes_fit env d (nodes s)" "nodes s Root = Some root" "length (n_slots root) = 4" "4 < sint (ext4_ext_space_block env)"
    and "sint b + 1 < 2 ^ 31" "extent_map (extents_below d (nodes s) Root) (sint b) = None" "not_full b (extents_below d (nodes s) Root)"
    and "(\<exists>e \<in> set (extents_below d (nodes s) Root). ekey e \<le> sint b)
      \<or> leaves_have_room d (nodes s) \<and> (\<forall>pb \<in> F (world s). has_place b pb (extents_below d (nodes s) Root))"
  shows "\<exists>pb d' s'. pb \<in> F (world s) \<and> ext4_extent_get_blocks env b max_blocks True s
       = Some (EOK, pb, if u32_lt max_blocks 1 then max_blocks else 1, s')
     \<and> inode_depth s' = Some d' \<and> (d' = d \<or> d' = Suc d) \<and> tree_ok d' (nodes s') Root \<and> disjoint_extents (extents_below d' (nodes s') Root)
     \<and> extent_map (extents_below d' (nodes s') Root) = (extent_map (extents_below d (nodes s) Root))(sint b \<mapsto> (False, pb))"
proof -
  obtain pb d' s' where "pb \<in> F (world s)" "ext4_extent_get_blocks env b max_blocks True s
       = Some (EOK, pb, if u32_lt max_blocks 1 then max_blocks else 1, s')" "inode_depth s' = Some d'" "tree_ok d' (nodes s') Root"
    "d' = d \<or> d' = Suc d" "grown b pb (extents_below d (nodes s) Root) (extents_below d' (nodes s') Root)"
    using create_block [OF assms] by blast
  then show ?thesis by (intro exI [of _ pb] exI [of _ d'] exI [of _ s']) (simp add: grown_def fun_eq_iff)
qed

text \<open>
  An example: the state of the world is the list of the free blocks, and the allocator hands out the first one that an entry can
  hold.  One tree is a full root, the other has a full leaf below an index node that has room.
\<close>

definition usable :: "ext4_fsblk_t \<Rightarrow> bool" where "usable b \<longleftrightarrow> b \<noteq> 0 \<and> storable b"

definition free_list :: "ext4_fsblk_t list \<Rightarrow> ext4_fsblk_t set" where "free_list w = set (filter usable w)"

definition list_env :: "ext4_fsblk_t list ext4_env" where
  "list_env =
     \<lparr>ext4_sb_get_block_size = 1024, metadata_csum = False, CONFIG_META_CSUM_ENABLE = False, ext4_crc32c = (\<lambda>c bs. c), EXT4_CRC32_INIT = 0,
      sb_uuid = replicate 16 0, inode_index = 12, inode_generation = 0,
      ext4_trans_block_get = (\<lambda>b lb s. (EOK, b, s)),
      ext4_trans_block_get_noread = (\<lambda>b lb s. (EOK, b, put_node (Blk b) (example_node 0 84 []) s)),
      ext4_block_set = (\<lambda>b s. (EOK, 0, s)), ext4_trans_set_block_dirty = (\<lambda>b s. s),
      ext4_bcache_test_dirty = (\<lambda>b s. False),
      ext4_balloc_alloc_block = (\<lambda>g b s. case filter usable (world s) of [] \<Rightarrow> (Eother 28, 0, s)
         | x # xs \<Rightarrow> (EOK, x, s\<lparr>world := removeAll x (world s)\<rparr>)),
      ext4_balloc_free_blocks = (\<lambda>b n s. s), ext4_fs_inode_to_goal_block = (\<lambda>s. 0),
      calloc_ok = (\<lambda>s n. True),
      IN_RANGE = (\<lambda>b first len. sint first \<le> sint b \<and> sint b < sint first + sint len),
      EXT_MAX_BLOCKS = 0x7fffffff\<rparr>"

definition four_extents :: "ext4_fsblk_t list ext4_state" where
  "four_extents = \<lparr>nodes = [Root \<mapsto> example_node 0 4 [example_entry 0 5 1000, example_entry 20 5 2000, example_entry 40 5 3000, example_entry 60 5 5000]],
     inode_dirty = False, world = [4000, 4001, 4002]\<rparr>"

definition full_leaf :: "ext4_fsblk_t list ext4_state" where
  "full_leaf = \<lparr>nodes = [Root \<mapsto> example_node 1 4 [example_index 0 100, example_index 50 200],
        Blk 100 \<mapsto> example_node 0 2 [example_entry 0 10 1000, example_entry 20 5 2000],
        Blk 200 \<mapsto> example_node 0 84 [example_entry 50 8 3000]],
     inode_dirty = False, world = [4000, 4001, 4002]\<rparr>"

lemma list_env_ok:
  "block_buffers_ok list_env" "in_range_ok list_env" "\<forall>s. reads_clean list_env s" "\<forall>s k. calloc_ok list_env s k"
  "ext4_ext_space_block list_env = 84" "gives_blocks list_env free_list"
proof -
  show space: "ext4_ext_space_block list_env = 84" by (simp add: list_env_def ext4_ext_space_block_def)
  have calls: "ext4_trans_block_get_noread list_env b 0 s = (EOK, b, put_node (Blk b) (example_node 0 84 []) s)"
    "ext4_block_set list_env b s = (EOK, 0, s)" "ext4_trans_set_block_dirty list_env b s = s" for b s by (simp_all add: list_env_def)
  have "length (n_slots (example_node 0 84 [])) = 84" by (simp add: example_node_def)
  then show "block_buffers_ok list_env"
    by (simp add: block_buffers_ok_def dirty_marks_only_def calls space put_node_def) blast
  show "in_range_ok list_env" "\<forall>s. reads_clean list_env s" "\<forall>s k. calloc_ok list_env s k"
    by (auto simp: list_env_def in_range_ok_def reads_clean_def)
  have take: "\<exists>x t. ext4_balloc_alloc_block list_env goal 0 s = (EOK, x, t) \<and> x \<in> free_list (world s)
      \<and> free_list (world t) = free_list (world s) - {x} \<and> nodes t = nodes s" if ne: "free_list (world s) \<noteq> {}" for goal s
  proof -
    obtain x xs where x: "filter usable (world s) = x # xs" using ne by (cases "filter usable (world s)") (auto simp: free_list_def)
    moreover have "x \<in> free_list (world s)" unfolding free_list_def x by simp
    moreover have "free_list (removeAll x (world s)) = free_list (world s) - {x}" by (auto simp: free_list_def)
    ultimately show ?thesis by (simp add: list_env_def)
  qed
  show "gives_blocks list_env free_list"
    unfolding gives_blocks_def using take by (auto simp: list_env_def free_list_def usable_def put_node_def)
qed

lemma free_list_example: "free_list [4000, 4001, 4002] = {4000, 4001, 4002}" "card (free_list [4000, 4001, 4002]) = 3"
proof -
  have "usable 4000" "usable 4001" "usable 4002" by (simp_all add: usable_def storable_def drop_bit_eq_div)
  then show "free_list [4000, 4001, 4002] = {4000, 4001, 4002}" by (simp add: free_list_def)
  then show "card (free_list [4000, 4001, 4002]) = 3" by simp
qed

lemma four_extents_ok:
  "inode_depth four_extents = Some 0" "tree_ok 0 (nodes four_extents) Root"
  "extents_below 0 (nodes four_extents) Root = [example_entry 0 5 1000, example_entry 20 5 2000, example_entry 40 5 3000, example_entry 60 5 5000]"
  "disjoint_extents (extents_below 0 (nodes four_extents) Root)" "nodes_fit list_env 0 (nodes four_extents)"
  "0 + 2 \<le> card (free_list (world four_extents))" "\<forall>b \<in> free_list (world four_extents). nodes four_extents (Blk b) = None"
  "extent_map (extents_below 0 (nodes four_extents) Root) (sint (8 :: u32)) = None" "not_full 8 (extents_below 0 (nodes four_extents) Root)"
  "\<exists>e \<in> set (extents_below 0 (nodes four_extents) Root). ekey e \<le> sint (8 :: u32)"
proof -
  show "inode_depth four_extents = Some 0"
    by (simp add: inode_depth_def four_extents_def example_node_def ext_depth_def endian_defs)
  show "tree_ok 0 (nodes four_extents) Root"
    by (simp add: four_extents_def example_node_ok child_def example_pblk)
  show below: "extents_below 0 (nodes four_extents) Root = [example_entry 0 5 1000, example_entry 20 5 2000, example_entry 40 5 3000, example_entry 60 5 5000]"
    by (simp add: four_extents_def example_node_ok child_def example_pblk)
  show "nodes_fit list_env 0 (nodes four_extents)"
    unfolding nodes_fit_def list_env_ok(5) by (auto simp: four_extents_def example_node_ok child_def example_pblk)
  show "0 + 2 \<le> card (free_list (world four_extents))" "\<forall>b \<in> free_list (world four_extents). nodes four_extents (Blk b) = None"
    using free_list_example by (simp_all add: four_extents_def)
  show "disjoint_extents (extents_below 0 (nodes four_extents) Root)" "extent_map (extents_below 0 (nodes four_extents) Root) (sint (8 :: u32)) = None"
    "not_full 8 (extents_below 0 (nodes four_extents) Root)" "\<exists>e \<in> set (extents_below 0 (nodes four_extents) Root). ekey e \<le> sint (8 :: u32)"
    unfolding below by code_simp+
qed

theorem ext4_create_block_correct_witness:
  "\<exists>pb d' s'. ext4_extent_get_blocks list_env 8 7 True four_extents = Some (EOK, pb, 1, s') \<and> pb \<in> {4000, 4001, 4002}
     \<and> extent_map (extents_below d' (nodes s') Root) 8 = Some (False, pb)
     \<and> extent_map (extents_below d' (nodes s') Root) 22 = Some (False, 2002)"
proof -
  let ?root = "example_node 0 4 [example_entry 0 5 1000, example_entry 20 5 2000, example_entry 40 5 3000, example_entry 60 5 5000]"
  have root: "nodes four_extents Root = Some ?root" "length (n_slots ?root) = 4" by (simp_all add: four_extents_def example_node_def)
  have num: "(0 :: nat) < 65535" "4 < sint (ext4_ext_space_block list_env)" "sint (8 :: u32) + 1 < 2 ^ 31" by (simp_all add: list_env_ok(5))
  have "extent_map (extents_below 0 (nodes four_extents) Root) 22 = Some (False, 2002)" unfolding four_extents_ok(3) by code_simp
  moreover from ext4_create_block_correct [OF four_extents_ok(1,2,4) list_env_ok(1-4,6) four_extents_ok(6,7) num(1) four_extents_ok(5) root num(2,3)
      four_extents_ok(8,9) disjI1 [OF four_extents_ok(10)], of 7]
  obtain pb d' s' where run: "pb \<in> free_list (world four_extents)" "ext4_extent_get_blocks list_env 8 7 True four_extents
      = Some (EOK, pb, if u32_lt 7 1 then 7 else 1, s')"
    "extent_map (extents_below d' (nodes s') Root) = (extent_map (extents_below 0 (nodes four_extents) Root))(sint (8 :: u32) \<mapsto> (False, pb))"
    by (elim exE conjE) (rule that)
  moreover have "pb \<in> {4000, 4001, 4002}" using run(1) free_list_example(1) by (simp add: four_extents_def)
  ultimately show ?thesis by (intro exI [of _ pb] exI [of _ d'] exI [of _ s']) simp
qed

text \<open>
  C4. Round trip: under the same conditions looking any block up after a block has been created gives the block that the
  creation returned for the created one, and for every other one the block that a lookup gave before; both lookups report
  success, through splits and growth of the tree.
\<close>

theorem ext4_create_then_lookup:
  assumes "inode_depth s = Some d" "tree_ok d (nodes s) Root" "disjoint_extents (extents_below d (nodes s) Root)"
    and "block_buffers_ok env" "in_range_ok env" "\<forall>s. reads_clean env s" "\<forall>s k. calloc_ok env s k"
    and "gives_blocks env F" "d + 2 \<le> card (F (world s))" "\<forall>b \<in> F (world s). nodes s (Blk b) = None"
    and "d < 65535" "nodes_fit env d (nodes s)" "nodes s Root = Some root" "length (n_slots root) = 4" "4 < sint (ext4_ext_space_block env)"
    and "sint b + 1 < 2 ^ 31" "extent_map (extents_below d (nodes s) Root) (sint b) = None" "not_full b (extents_below d (nodes s) Root)"
    and "(\<exists>e \<in> set (extents_below d (nodes s) Root). ekey e \<le> sint b)
      \<or> leaves_have_room d (nodes s) \<and> (\<forall>pb \<in> F (world s). has_place b pb (extents_below d (nodes s) Root))"
  shows "\<exists>pb cnt s'. pb \<in> F (world s) \<and> ext4_extent_get_blocks env b max_blocks True s = Some (EOK, pb, cnt, s')
     \<and> (\<forall>i k. \<exists>old new c1 c2 s1 s2. ext4_extent_get_blocks env i k False s = Some (EOK, old, c1, s1)
          \<and> ext4_extent_get_blocks env i k False s' = Some (EOK, new, c2, s2)
          \<and> new = (if i = b then pb else old))"
proof -
  let ?W = "extents_below d (nodes s) Root"
  have env: "reads_clean env s" "calloc_ok env s k" "keeps_nodes env" for s k using assms(4,6,7) buffers_keep by simp_all
  obtain pb d' s' where pb: "pb \<in> F (world s)"
    and s': "ext4_extent_get_blocks env b max_blocks True s = Some (EOK, pb, if u32_lt max_blocks 1 then max_blocks else 1, s')"
      "inode_depth s' = Some d'" "tree_ok d' (nodes s') Root" "grown b pb ?W (extents_below d' (nodes s') Root)"
    using create_block [OF assms] by blast
  have dis: "disjoint_extents (extents_below d' (nodes s') Root)" using s'(4) by (simp add: grown_def)
  have "\<exists>old new c1 c2 s1 s2. ext4_extent_get_blocks env i k False s = Some (EOK, old, c1, s1)
          \<and> ext4_extent_get_blocks env i k False s' = Some (EOK, new, c2, s2) \<and> new = (if i = b then pb else old)" for i k
  proof -
    obtain old c1 s1 where old: "ext4_extent_get_blocks env i k False s = Some (EOK, old, c1, s1)" "lookup_ok ?W i k old c1"
      using get_blocks_lookup [OF assms(1-3) env assms(5), of False] by blast
    obtain new c2 s2 where new: "ext4_extent_get_blocks env i k False s' = Some (EOK, new, c2, s2)"
      "lookup_ok (extents_below d' (nodes s') Root) i k new c2"
      using get_blocks_lookup [OF s'(2,3) dis env assms(5), of False] by blast
    have "sint i \<noteq> sint b" if "i \<noteq> b" using that signed_word_eqI by blast
    then have "new = (if i = b then pb else old)"
      using old(2) new(2) s'(4) by (auto simp: lookup_ok_def grown_def split: option.splits)
    then show ?thesis using old(1) new(1) by blast
  qed
  then show ?thesis using s'(1) pb by blast
qed

lemma full_leaf_ok:
  "inode_depth full_leaf = Some 1" "tree_ok 1 (nodes full_leaf) Root"
  "extents_below 1 (nodes full_leaf) Root = [example_entry 0 10 1000, example_entry 20 5 2000, example_entry 50 8 3000]"
  "disjoint_extents (extents_below 1 (nodes full_leaf) Root)" "nodes_fit list_env 1 (nodes full_leaf)"
  "1 + 2 \<le> card (free_list (world full_leaf))" "\<forall>b \<in> free_list (world full_leaf). nodes full_leaf (Blk b) = None"
  "extent_map (extents_below 1 (nodes full_leaf) Root) (sint (30 :: u32)) = None" "not_full 30 (extents_below 1 (nodes full_leaf) Root)"
  "\<exists>e \<in> set (extents_below 1 (nodes full_leaf) Root). ekey e \<le> sint (30 :: u32)"
proof -
  show "inode_depth full_leaf = Some 1"
    by (simp add: inode_depth_def full_leaf_def example_node_def ext_depth_def endian_defs)
  show "tree_ok 1 (nodes full_leaf) Root"
    by (simp add: full_leaf_def example_node_ok child_def example_pblk)
  show below: "extents_below 1 (nodes full_leaf) Root = [example_entry 0 10 1000, example_entry 20 5 2000, example_entry 50 8 3000]"
    by (simp add: full_leaf_def example_node_ok child_def example_pblk)
  show "nodes_fit list_env 1 (nodes full_leaf)"
    unfolding nodes_fit_def list_env_ok(5) by (auto simp: full_leaf_def example_node_ok child_def example_pblk)
  show "1 + 2 \<le> card (free_list (world full_leaf))" "\<forall>b \<in> free_list (world full_leaf). nodes full_leaf (Blk b) = None"
    using free_list_example by (simp_all add: full_leaf_def)
  show "disjoint_extents (extents_below 1 (nodes full_leaf) Root)" "extent_map (extents_below 1 (nodes full_leaf) Root) (sint (30 :: u32)) = None"
    "not_full 30 (extents_below 1 (nodes full_leaf) Root)" "\<exists>e \<in> set (extents_below 1 (nodes full_leaf) Root). ekey e \<le> sint (30 :: u32)"
    unfolding below by code_simp+
qed

theorem ext4_create_then_lookup_witness:
  "\<exists>pb cnt s' c s2. ext4_extent_get_blocks list_env 30 7 True full_leaf = Some (EOK, pb, cnt, s') \<and> pb \<in> {4000, 4001, 4002}
     \<and> ext4_extent_get_blocks list_env 30 1 False s' = Some (EOK, pb, c, s2)"
proof -
  let ?root = "example_node 1 4 [example_index 0 100, example_index 50 200]"
  have root: "nodes full_leaf Root = Some ?root" "length (n_slots ?root) = 4" by (simp_all add: full_leaf_def example_node_def)
  have num: "(1 :: nat) < 65535" "4 < sint (ext4_ext_space_block list_env)" "sint (30 :: u32) + 1 < 2 ^ 31" by (simp_all add: list_env_ok(5))
  from ext4_create_then_lookup [OF full_leaf_ok(1,2,4) list_env_ok(1-4,6) full_leaf_ok(6,7) num(1) full_leaf_ok(5) root num(2,3)
      full_leaf_ok(8,9) disjI1 [OF full_leaf_ok(10)], of 7]
  obtain pb cnt s' where run: "pb \<in> free_list (world full_leaf)" "ext4_extent_get_blocks list_env 30 7 True full_leaf = Some (EOK, pb, cnt, s')"
    and all: "\<forall>i k. \<exists>old new c1 c2 s1 s2. ext4_extent_get_blocks list_env i k False full_leaf = Some (EOK, old, c1, s1)
          \<and> ext4_extent_get_blocks list_env i k False s' = Some (EOK, new, c2, s2)
          \<and> new = (if i = 30 then pb else old)" by (elim exE conjE) (rule that)
  obtain c s2 where "ext4_extent_get_blocks list_env 30 1 False s' = Some (EOK, pb, c, s2)" using all [rule_format, of 30 1] by auto
  moreover have "pb \<in> {4000, 4001, 4002}" using run(1) free_list_example(1) by (simp add: full_leaf_def)
  ultimately show ?thesis using run(2) by blast
qed

text \<open>
  C26. Safety, violated: in a tree of one leaf, let the first extent be written and start one block behind the block that
  is created, and let the allocator grant the goal it is asked for, the physical block in front of the extent.  Then
  \<open>ext4_extent_get_blocks\<close> reports success and this physical block, but the tree maps the created block to the physical
  block behind it, which held the data of the next block, and all blocks of the extent have moved on by one.
\<close>

theorem ext4_create_before_first_shifts:
  assumes "inode_depth s = Some 0" "tree_ok 0 (nodes s) Root" "disjoint_extents (e # es)"
    and "extents_below 0 (nodes s) Root = e # es"
    and "reads_clean env s" "calloc_ok env s 2" "keeps_nodes env" "in_range_ok env" "dirty_marks_only env"
    and "\<forall>w. \<exists>w'. ext4_balloc_alloc_block env pb 0 (s\<lparr>world := w\<rparr>) = (EOK, pb, s\<lparr>world := w'\<rparr>)" "storable pb" "pb \<noteq> 0"
    and "ekey e = sint b + 1" "ext4_ext_pblk e = pb + 1" "\<not> ext4_ext_is_unwritten e" "ee_len e \<noteq> 0x7fff"
  shows "\<exists>cnt s'. ext4_extent_get_blocks env b max_blocks True s = Some (EOK, pb, cnt, s')
     \<and> extent_map (extents_below 0 (nodes s') Root) (sint b) = Some (False, pb + 1)
     \<and> (\<forall>k q. covers e k \<longrightarrow> extent_map (e # es) k = Some (False, q)
          \<longrightarrow> extent_map (extents_below 0 (nodes s') Root) k = Some (False, q + 1))"
proof -
  let ?W = "extents_below 0 (nodes s) Root"
  have dis: "disjoint_extents ?W" using assms(3,4) by simp
  have "ekey e \<le> ekey x" if "x \<in> set ?W" for x
    using ordered_hd [OF disjoint_ordered [OF assms(3)], of x] that unfolding assms(4) by simp
  then have none: "extent_map ?W (sint b) = None" using assms(13) unfolding extent_map_None covers_def by fastforce
  have leaf: "search_at t 0 b path leaf n \<and> p_depth (path ! 0) = int 0 \<and> leaf = Root \<and> entries_of n = e # es \<and> extents_below 0 (nodes t) Root = entries_of n"
    if "found_at t 0 b path leaf n" "nodes t = nodes s" for t path leaf n
    using that assms(4) by (auto simp: found_at_def search_at_def)
  have "\<exists>q (t :: 'a ext4_state) d' s'. (q = pb \<and> nodes t = nodes s) \<and> ext4_extent_get_blocks env b max_blocks True s = Some (EOK, q, if u32_lt max_blocks 1 then max_blocks else 1, s')
     \<and> inode_depth s' = Some d' \<and> tree_ok d' (nodes s') Root \<and> (d' = 0 \<and> shifted b pb e ?W (extents_below d' (nodes s') Root))"
  proof (rule create_runs [OF assms(1,2) dis assms(5) _ assms(7,8) none, where A = "\<lambda>q t. q = pb \<and> nodes t = nodes s" and Q = "\<lambda>q d' W'. d' = 0 \<and> shifted b pb e ?W W'"])
    fix w path leaf n goal
    assume at: "found_at s 0 b path leaf n" and goal: "ext4_ext_find_goal env (Some path) b (s\<lparr>world := w\<rparr>) = Some goal"
    have "found_at (s\<lparr>world := w\<rparr>) 0 b path leaf n" using found_at_nodes [of "s\<lparr>world := w\<rparr>" s] at by simp
    moreover have "nodes (s\<lparr>world := w\<rparr>) = nodes s" by simp
    ultimately have l: "search_at (s\<lparr>world := w\<rparr>) 0 b path leaf n" "p_depth (path ! 0) = int 0" "entries_of n = e # es"
      "extents_below 0 (nodes (s\<lparr>world := w\<rparr>)) Root = entries_of n" using leaf by blast+
    have "goal = pb" using before_first(3) [OF l assms(13), of env] goal assms(14) by simp
    then show "\<exists>q t. ext4_balloc_alloc_block env goal 0 (s\<lparr>world := w\<rparr>) = (EOK, q, t) \<and> nodes t = nodes s \<and> q = pb \<and> nodes t = nodes s"
      using assms(10) [rule_format, of w] by auto
  next
    fix q and t :: "'a ext4_state" and path leaf n assume q: "q = pb \<and> nodes t = nodes s" and t: "nodes t = nodes s" and at: "found_at t 0 b path leaf n"
    have l: "search_at t 0 b path leaf n" "p_depth (path ! 0) = int 0" "entries_of n = e # es" "leaf = Root"
      "extents_below 0 (nodes t) Root = entries_of n" using leaf [OF at t] by blast+
    obtain f where f: "leaf_gets env t 0 path leaf (block_extent b pb) (f # es)" "ekey f = sint b" "ext_len f = ext_len e + 1"
      "\<not> ext4_ext_is_unwritten f" "ext4_ext_pblk f = ext4_ext_pblk e"
      using prepend_first [OF l(1-3,5) assms(13,14) _ assms(16,9,11)] assms(15) by (auto simp: written_def)
    have "placed env t path (block_extent b pb) (\<lambda>d' W'. d' = 0 \<and> W' = [] @ (f # es) @ [])"
      using l by (intro placed_in_leaf [OF at _ f(1)]) auto
    then show "placed env t path (block_extent b q) (\<lambda>d' W'. d' = 0 \<and> shifted b pb e ?W W')"
      unfolding conjunct1 [OF q] by (rule placed_weaken) (use shifted_first [OF assms(3,13,14) f(2-5)] assms(4) in simp)
  qed (use assms(6,11,12) in \<open>simp_all add: numeral_2_eq_2\<close>)
  then obtain cnt s' where s': "ext4_extent_get_blocks env b max_blocks True s = Some (EOK, pb, cnt, s')"
    "shifted b pb e ?W (extents_below 0 (nodes s') Root)" by blast
  have "k \<noteq> sint b" if "covers e k" for k using that assms(13) by (auto simp: covers_def)
  moreover have "extent_map (e # es) k = Some (map_in e k)" if "covers e k" for k
    using extent_map_covered [OF assms(3) _ that] by simp
  ultimately show ?thesis using s' assms(4) by (auto simp: shifted_def)
qed

text \<open>The blocks 10 to 14 at 2000 to 2004; block 9 is created at 1999, and a write that moves 1999 to 2003 follows.\<close>

definition late_leaf :: "unit ext4_state" where
  "late_leaf = example_tree\<lparr>nodes := [Root \<mapsto> example_node 0 4 [example_entry 10 5 2000]]\<rparr>"

definition goal_env :: "unit ext4_env" where
  "goal_env = example_ext4_env\<lparr>ext4_balloc_alloc_block := (\<lambda>goal b s. (EOK, goal, s))\<rparr>"

theorem ext4_create_before_first_shifts_witness:
  "\<exists>cnt s'. ext4_extent_get_blocks goal_env 9 1 True late_leaf = Some (EOK, 1999, cnt, s')
     \<and> extent_map (extents_below 0 (nodes s') Root) 9 = Some (False, 2000)
     \<and> extent_map (extents_below 0 (nodes s') Root) 12 = Some (False, 2003)"
proof -
  let ?e = "example_entry 10 5 2000"
  have ok: "node_ok 0 (example_node 0 4 [?e])" "entries_of (example_node 0 4 [?e]) = [?e]" by (rule example_node_ok; simp)+
  have root: "nodes late_leaf Root = Some (example_node 0 4 [?e])" by (simp add: late_leaf_def)
  have s: "inode_depth late_leaf = Some 0" "tree_ok 0 (nodes late_leaf) Root" "extents_below 0 (nodes late_leaf) Root = [?e]"
    using root ok by (simp_all add: inode_depth_def ext_depth_def endian_defs example_node_def)
  have env: "reads_clean goal_env late_leaf" "calloc_ok goal_env late_leaf 2" "keeps_nodes goal_env" "in_range_ok goal_env"
    "dirty_marks_only goal_env" "\<forall>w. \<exists>w'. ext4_balloc_alloc_block goal_env 1999 0 (late_leaf\<lparr>world := w\<rparr>) = (EOK, 1999, late_leaf\<lparr>world := w'\<rparr>)"
    by (auto simp: goal_env_def example_ext4_env_def reads_clean_def keeps_nodes_def in_range_ok_def dirty_marks_only_def)
  have e: "disjoint_extents [?e]" "ekey ?e = sint (9 :: u32) + 1" "ext4_ext_pblk ?e = 1999 + 1" "\<not> ext4_ext_is_unwritten ?e"
    "ee_len ?e \<noteq> 0x7fff" "covers ?e 12" "extent_map [?e] 12 = Some (False, 2002)" by code_simp+
  have "storable 1999" by (simp add: storable_def drop_bit_eq_div)
  then show ?thesis
    using ext4_create_before_first_shifts [OF s(1,2) e(1) s(3) env _ _ e(2-5), of 1] e(6,7) by auto
qed

end
