(* ===== verification/Spec2Isabelle.thy ===== *)
theory Spec2Isabelle
  imports Jbd2_Replay Jbd2_Handle Drv_Lock Jbd2_Revoke Drv_Splay_Correct Drv_Tree_Reach Ext4_Control Ext4_Driver Ext4_Cache Ext4_Fs Ext4_Extent_Create
begin

text \<open>
  A model of \<open>ext4fsd\<close>, an ext4 file system driver for Windows NT, and of what it computes.

  \<^bold>\<open>The program.\<close>  The driver is at an early stage.  It consists of helpers
  (\<open>include/drv_common\<close>, \<open>drv_common\<close>), a reader of the journal (\<open>jbd2\<close>), the on-disk
  format (\<open>include/ext4_fs.h\<close>), the extent tree (\<open>ext4_extent.c\<close>), and the registration with the
  I/O manager.  The journal code builds its two tables on the red-black trees of \<open>drv_tree.h\<close>, uses
  the counters of \<open>drv_atomic.h\<close> as reference counts and the checksums of \<open>drv_crc32.c\<close> to
  validate blocks; the extent code works on nodes laid out by \<open>ext4_fs.h\<close>.

  \<^bold>\<open>Conventions.\<close>  A fault of C (a wild pointer, an access out of bounds, a failed assertion) is
  \<open>None\<close>, every other outcome is \<open>Some\<close>; so an equation with \<open>Some\<close> also says that nothing
  faults.  A C integer is a word of its width, and each operation is the one the C type selects:
  \<open>drv_types.h\<close> makes \<open>__u16\<close>, \<open>__u32\<close>, \<open>__u64\<close> signed and \<open>__s32\<close>, \<open>__s64\<close>
  unsigned, which is kept everywhere (\<open>Drv_Types\<close>).  Buffers are byte lists, linked structures are
  finite maps from addresses, errors are \<open>NTSTATUS\<close> words or the \<open>errno\<close> type.  A structured
  exception of the kernel is not modelled.

  \<^bold>\<open>Theories.\<close>
  \<^item> \<open>Prelude\<close>: faults, loads and stores, byte order, pointers, and the collections \<open>fault_simps\<close>
    and \<open>mem_simps\<close>.
  \<^item> \<open>Ledger\<close>, \<open>Nt_Status\<close>: what is held of the kernel, and its status codes.
  \<^item> \<open>Drv_Types\<close>: \<open>drv_types.h\<close>, \<open>drv_endian.h\<close>, \<open>helper.h\<close>.
  \<^item> \<open>Drv_Atomic\<close>: \<open>drv_atomic.h\<close>.  The compare-exchange loop is a step relation of any number of
    threads (\<open>sat_step\<close>); an invariant over its reachable states shows that exactly one of the threads
    that drop a reference sees the last one go, and a measure that all of them return.
  \<^item> \<open>Drv_Lock\<close>: \<open>drv_lock.h\<close> over the locks of the kernel, and what its exclusive access is worth.
  \<^item> \<open>Drv_Crc32\<close>: \<open>drv_crc32.c\<close>.  Both tables are compared with the division by their polynomial, and
    the loop with the bitwise definition.
  \<^item> \<open>Drv_Tree\<close>, \<open>Drv_Tree_Search\<close>: the \<open>RB_*\<close> macros of \<open>drv_tree.h\<close> on a heap of nodes, and what
    their searches return on a well-shaped search tree (locale \<open>table_order\<close>).
  \<^item> \<open>Drv_Tree_Zip\<close>, \<open>Drv_Tree_Insert\<close>, \<open>Drv_Tree_Remove\<close>: the heap seen as a tree below a path of
    frames, the rotations, and the insertion and the removal with their repairs: they return,
    restore the color rules and are the insertion into and the deletion from the map from keys to
    nodes.  \<open>Drv_Tree_Walk\<close>: the \<open>RB_FOREACH\<close> loops are folds over the nodes in order.
    \<open>Drv_Tree_Reach\<close>: no sequence of these operations leads to a table on which one faults.
  \<^item> \<open>Drv_Splay\<close>, \<open>Drv_Splay_Loop\<close>, \<open>Drv_Splay_Correct\<close>: the \<open>SPLAY_*\<close> macros.  The loop invariant of the
    top-down splaying describes the two trees it builds as chains; the operations are shown to be
    those of a map.
  \<^item> \<open>Jbd2_Fs\<close>, \<open>Jbd2_Types\<close>: \<open>jbd2_fs.h\<close> and \<open>jbd2.h\<close>; the record \<open>jbd2_handle\<close> is the
    structure of that name, \<open>jbd2_env\<close> what the code calls and the repository does not define.
  \<^item> \<open>Jbd2_Tags\<close>: \<open>jbd2.c\<close>, the checksums of metadata blocks and the tags of descriptor blocks.
  \<^item> \<open>Jbd2_Tables\<close>: \<open>jbd2.c\<close>, the tables of revoked and of cached blocks, two interpretations of
    \<open>table_order\<close>.  \<open>Jbd2_Revoke\<close>: looking up and putting an entry of a table in order, and clearing the table.
  \<^item> \<open>Jbd2_Recovery\<close>, \<open>Jbd2_Replay\<close>: \<open>jbd2.c\<close>, the three passes over the log.  A pass is a step
    function iterated by a \<open>partial_function\<close>, because some logs make it run for ever; the scan is
    compared with a log given as a list of records in the on-disk format, the replay of a descriptor block with the list of
    copies it stands for.
  \<^item> \<open>Jbd2_Handle\<close>: \<open>jbd2.c\<close>, opening and closing, with a ledger of the resources held.
  \<^item> \<open>Ext4_Driver\<close>, \<open>Ext4_Cache\<close>: \<open>ext4_init.c\<close> with the global data, and the wrappers and callbacks
    of \<open>ext4_cachesup.c\<close>, \<open>jbd2_cachesup.c\<close> and \<open>jbd2.c\<close>.
  \<^item> \<open>Ext4_Fs\<close>: the layout of the superblock, group descriptors and inodes, the features, the time stamps.
    \<open>Ext4_Inode\<close>: flags, numbers and the fields of a large inode.  \<open>Ext4_Control\<close>: \<open>ext4.h\<close> and \<open>ext4_txn.c\<close>.
  \<^item> \<open>Ext4_Extent_Fs\<close>: the header and the entries of a node of the extent tree.
  \<^item> \<open>Ext4_Extent_State\<close>, \<open>Ext4_Extent_Find\<close>, \<open>Ext4_Extent_Insert\<close>: \<open>ext4_extent.c\<close>.  The state
    \<open>ext4_state\<close> holds the root in the inode and the blocks as nodes; the block layer and the
    allocator are the parameter \<open>ext4_env\<close>.  The abstraction of a tree is the list of its extents
    (\<open>extents_below\<close>); \<open>ext4_find_extent\<close> is shown to search that list, and the two binary searches
    share the contract \<open>node_search\<close>.
  \<^item> \<open>Ext4_Extent_Grow\<close>, \<open>Ext4_Extent_Remove\<close>, \<open>Ext4_Extent_Blocks\<close>: the rest of
    \<open>ext4_extent.c\<close> in its order: growing the tree by a level, splitting full nodes and
    \<open>ext4_ext_insert_extent\<close>; the removal of indexes, of entries of a leaf and of a range;
    splitting and converting an extent and \<open>ext4_extent_get_blocks\<close>.  Growing is shown to
    keep the list of extents.
  \<^item> \<open>Ext4_Extent_Map\<close>: the abstract file, \<open>extent_map\<close>, which gives each logical block its
    physical block and whether it is written; \<open>ext4_extent_get_blocks\<close> without create looks
    blocks up in it.
  \<^item> \<open>Ext4_Extent_Split\<close>, \<open>Ext4_Extent_Unmap\<close>: what splitting and converting an extent and what the
    removal of a range do to that map, where they keep it and where they do not.
  \<^item> \<open>Ext4_Extent_Tree\<close>, \<open>Ext4_Extent_Subtree\<close>, \<open>Ext4_Extent_Place\<close>: the leaves and the subtrees of a tree of any
    depth, what a change of one of them does to the extents of the whole tree, and where a new block goes in its leaf.
  \<^item> \<open>Ext4_Extent_Divide\<close>, \<open>Ext4_Extent_Join\<close>, \<open>Ext4_Extent_Full\<close>, \<open>Ext4_Extent_Overflow\<close>, \<open>Ext4_Extent_Regrow\<close>,
    \<open>Ext4_Extent_Fullroot\<close>: inserting into a full leaf.  Splitting moves the tails of the full nodes to new ones, the first
    node with room gets an index for them, and the second round of \<open>ext4_ext_insert_extent\<close> finds room; where all
    nodes are full the tree grows by a level first.  The tree has exactly the new extent more.
  \<^item> \<open>Ext4_Extent_Rekey\<close>: an extent in front of all others, whose first block \<open>ext4_ext_correct_indexes\<close> carries up to
    the root.  \<open>Ext4_Extent_Insertion\<close>: the cases of an insertion together.
  \<^item> \<open>Ext4_Extent_Create\<close>: \<open>ext4_extent_get_blocks\<close> with create as an update of the map that later lookups see, in any
    tree, with the one place, in front of the first extent, where it moves other blocks.

  \<^bold>\<open>Loops.\<close>  Loops over data have structural recursion or a measure.  \<open>tag_for\<close> and \<open>binsearch_loop\<close>
  terminate by a measure on what is left of the buffer or the interval.  Loops that may not end
  (\<open>replay_loop\<close>, \<open>scan_revoke_loop\<close> and the loops of the red-black trees) are partial functions
  into \<open>option\<close>, where \<open>None\<close> stands for a fault or for not returning.
  \<open>remove_leaf_loop\<close> terminates by a measure on the entries that are left.  \<open>insert_extent_loop\<close> and \<open>remove_space_loop\<close> are partial functions too, and
  the properties about them show that they return.

  \<^bold>\<open>Parameters.\<close>  \<open>jbd2_env\<close>: the width of \<open>size_t\<close>, the undefined function
  \<open>jbd2_has_csum_v2or3\<close>, the cache manager, the look-aside lists.  \<open>ext4_env\<close>: block sizes, the block
  cache, the allocator, crc32c and whether checksums are compiled in, \<open>calloc\<close>.  Theorems that need more of them name it as a
  hypothesis (\<open>reads_clean\<close>: reading a block that exists succeeds and changes no node;
  \<open>dirty_marks_only\<close>: marking a block dirty changes no node).
  The macros \<open>IN_RANGE\<close> and \<open>EXT_MAX_BLOCKS\<close>, which no file defines, belong to \<open>ext4_env\<close> too;
  further hypotheses are \<open>in_range_ok\<close> (the macro tests a half-open interval),
  \<open>keeps_nodes\<close>, \<open>block_layer_ok\<close> and \<open>free_keeps_nodes\<close> (a call of the block layer or of the
  allocator succeeds and changes no node it is not given); \<open>block_buffers_ok\<close> (the same for fresh buffers, which are
  as large as a block); \<open>gives_blocks\<close> (a set of free blocks, a function of the world, from which the allocator hands one out and
  takes it, and which the other calls leave as it is).  \<open>nodes_fit\<close> (no node has more entries than a block holds),
  \<open>leaves_have_room\<close>, \<open>has_place\<close> and \<open>not_full\<close> say which trees creating a block is about:
  where the block comes in front of all extents no split is needed, and it is not merged with the first one; and
  no full extent is in the way.  The kernel's locks, its cache
  manager and its I/O manager are the parameters of \<open>Drv_Lock\<close>, \<open>Ext4_Cache\<close> and
  \<open>Ext4_Driver\<close>.

  \<^bold>\<open>Not modelled.\<close>
  The code under \<open>#if 0\<close>: the dispatch tables of \<open>DriverEntry\<close>, \<open>ext4_mask_flags\<close>.  The prototypes.  The
  macros on the sizes of group descriptors (\<open>EXT4_DESC_PER_BLOCK\<close> and its neighbours), which nothing uses.
  \<open>ext4_create.c\<close> and \<open>ext4_fsctrl.c\<close> hold no code.

\<close>

end
